(* ===== verification/Prelude.thy ===== *)
theory Prelude
  imports Main "HOL-Library.Sublist"
begin

section \<open>Shared vocabulary of the development\<close>

text \<open>
  What the components share: the string, number and container operations of the C++
  standard library that the sources call, modelled as HOL functions, and the lemmas on
  them that the component theories use.

  \<^item> \<open>std::string\<close> is \<^typ>\<open>string\<close>; \<open>std::to_string\<close>, \<open>rfind\<close>, \<open>ends_with\<close>,
    \<open>std::stoll\<close> and \<open>std::from_chars\<close> are executable functions on it.
  \<^item> \<open>std::unordered_map\<close> with nested values is an association list with distinct keys
    (\<open>emplace\<close> keeps an existing entry, \<open>insert_or_assign\<close> overwrites it); the order of
    the list stands for the unspecified iteration order.
  \<^item> \<open>std::int64_t\<close> and \<open>std::size_t\<close> are \<^typ>\<open>int\<close> and \<^typ>\<open>nat\<close> with the range
    written out. A signed overflow is undefined behaviour: operations return \<^typ>\<open>'a option\<close>
    and \<^const>\<open>None\<close> stands for it.
\<close>

named_theorems bag_simps \<open>has-error facts of diagnostic bags\<close>
named_theorems ctx_simps \<open>lookup facts of evaluation contexts\<close>
named_theorems scan_simps \<open>number scanning\<close>

subsection \<open>Association lists as unordered maps\<close>

definition keys_of :: "('k \<times> 'v) list \<Rightarrow> 'k list" where
  "keys_of xs = map fst xs"

text \<open>\<open>emplace\<close>: no effect when the key is present.\<close>

definition emplace :: "'k \<Rightarrow> 'v \<Rightarrow> ('k \<times> 'v) list \<Rightarrow> ('k \<times> 'v) list" where
  "emplace k v xs = (if k \<in> set (keys_of xs) then xs else xs @ [(k, v)])"

text \<open>\<open>insert_or_assign\<close> and \<open>operator[] =\<close>: overwrite in place or append.\<close>

fun insert_or_assign :: "'k \<Rightarrow> 'v \<Rightarrow> ('k \<times> 'v) list \<Rightarrow> ('k \<times> 'v) list" where
  "insert_or_assign k v [] = [(k, v)]"
| "insert_or_assign k v ((k', v') # xs) =
     (if k = k' then (k, v) # xs else (k', v') # insert_or_assign k v xs)"

lemma keys_of_simps [simp]:
  "keys_of [] = []" "keys_of ((k, v) # xs) = k # keys_of xs"
  "keys_of (xs @ ys) = keys_of xs @ keys_of ys"
  by (simp_all add: keys_of_def)

lemma map_of_eq_None_keys: "map_of xs k = None \<longleftrightarrow> k \<notin> set (keys_of xs)"
  by (simp add: keys_of_def map_of_eq_None_iff)

lemma map_of_SomeD_keys: "map_of xs k = Some v \<Longrightarrow> k \<in> set (keys_of xs)"
  by (induction xs) (auto split: if_splits)

lemma map_of_emplace:
  "map_of (emplace k v xs) = (if k \<in> set (keys_of xs) then map_of xs else (map_of xs)(k \<mapsto> v))"
  by (auto simp: emplace_def fun_eq_iff map_add_def map_of_eq_None_keys
      eq_commute [of None] split: option.splits dest: map_of_SomeD_keys)

lemma keys_emplace:
  "set (keys_of (emplace k v xs)) = insert k (set (keys_of xs))"
  by (auto simp: emplace_def)

lemma distinct_emplace [intro]:
  "distinct (keys_of xs) \<Longrightarrow> distinct (keys_of (emplace k v xs))"
  by (auto simp: emplace_def)

lemma set_emplace: "set (emplace k v xs) \<subseteq> insert (k, v) (set xs)"
  by (auto simp: emplace_def)

lemma map_of_insert_or_assign [simp]:
  "map_of (insert_or_assign k v xs) = (map_of xs)(k \<mapsto> v)"
  by (induction xs) (auto simp: fun_eq_iff)

lemma keys_insert_or_assign [simp]:
  "set (keys_of (insert_or_assign k v xs)) = insert k (set (keys_of xs))"
  by (induction xs) (auto split: if_splits)

lemma set_insert_or_assign: "set (insert_or_assign k v xs) \<subseteq> insert (k, v) (set xs)"
proof (induction xs)
  case (Cons x xs)
  then show ?case by (cases x) (auto split: if_splits)
qed simp

lemma insert_not_Nil [simp]: "List.insert x xs \<noteq> []"
  by (simp add: List.insert_def) auto

lemma distinct_insert_or_assign [intro]:
  "distinct (keys_of xs) \<Longrightarrow> distinct (keys_of (insert_or_assign k v xs))"
  by (induction xs) auto

subsection \<open>Fixed-width integers\<close>

definition int64_min :: int where "int64_min = - (2 ^ 63)"
definition int64_max :: int where "int64_max = 2 ^ 63 - 1"
definition uint64_max :: int where "uint64_max = 2 ^ 64 - 1"

definition in_int64 :: "int \<Rightarrow> bool" where
  "in_int64 i \<longleftrightarrow> int64_min \<le> i \<and> i \<le> int64_max"

text \<open>The result of a signed 64-bit operation: undefined behaviour outside the range.\<close>

definition int64_result :: "int \<Rightarrow> int option" where
  "int64_result i = (if in_int64 i then Some i else None)"

text \<open>\<open>/\<close> and \<open>%\<close> on \<open>int64_t\<close> truncate towards zero.\<close>

definition trunc_div :: "int \<Rightarrow> int \<Rightarrow> int" where
  "trunc_div a b = sgn a * sgn b * (\<bar>a\<bar> div \<bar>b\<bar>)"

definition trunc_mod :: "int \<Rightarrow> int \<Rightarrow> int" where
  "trunc_mod a b = a - trunc_div a b * b"

text \<open>\<open>static_cast<int64_t>\<close>: the value modulo \<open>2^64\<close>, read as two's complement.\<close>

definition to_int64 :: "int \<Rightarrow> int" where
  "to_int64 i = (i + 2 ^ 63) mod 2 ^ 64 - 2 ^ 63"

lemma in_int64_to_int64 [simp]: "in_int64 (to_int64 i)"
  using pos_mod_bound [of "2 ^ 64" "i + 2 ^ 63"] pos_mod_sign [of "2 ^ 64" "i + 2 ^ 63"]
  by (simp add: in_int64_def int64_min_def int64_max_def to_int64_def)

lemma to_int64_id [simp]: "in_int64 i \<Longrightarrow> to_int64 i = i"
  by (simp add: in_int64_def int64_min_def int64_max_def to_int64_def)

lemma int64_result_Some [simp]: "int64_result i = Some j \<longleftrightarrow> i = j \<and> in_int64 j"
  by (auto simp: int64_result_def)

lemma int64_result_None [simp]: "int64_result i = None \<longleftrightarrow> \<not> in_int64 i"
  by (simp add: int64_result_def)

lemma in_int64_0 [simp]: "in_int64 0"
  by (simp add: in_int64_def int64_min_def int64_max_def)

lemma trunc_div_mod_eq: "trunc_div a b * b + trunc_mod a b = a"
  by (simp add: trunc_mod_def)

lemma trunc_mod_bound: "b \<noteq> 0 \<Longrightarrow> \<bar>trunc_mod a b\<bar> < \<bar>b\<bar>"
proof -
  assume b: "b \<noteq> 0"
  have "trunc_mod a b = sgn a * (\<bar>a\<bar> mod \<bar>b\<bar>)"
  proof -
    have "a = sgn a * \<bar>a\<bar>" by (simp add: sgn_mult_abs)
    moreover have "trunc_div a b * b = sgn a * ((\<bar>a\<bar> div \<bar>b\<bar>) * \<bar>b\<bar>)"
      by (simp add: trunc_div_def ac_simps abs_sgn)
    moreover have "\<bar>a\<bar> = (\<bar>a\<bar> div \<bar>b\<bar>) * \<bar>b\<bar> + \<bar>a\<bar> mod \<bar>b\<bar>" by simp
    ultimately show ?thesis
      unfolding trunc_mod_def by (metis add_diff_cancel_left' distrib_left)
  qed
  moreover have "0 \<le> \<bar>a\<bar> mod \<bar>b\<bar>" "\<bar>a\<bar> mod \<bar>b\<bar> < \<bar>b\<bar>" using b by simp_all
  ultimately show ?thesis by (cases "a = 0") (simp_all add: abs_mult b)
qed

lemma trunc_mod_in_int64:
  assumes "b \<noteq> 0" "in_int64 b"
  shows "in_int64 (trunc_mod a b)"
  using trunc_mod_bound [OF assms(1), of a] assms(2)
  by (auto simp: in_int64_def int64_min_def int64_max_def abs_if split: if_splits)

lemma abs_trunc_div_le: "\<bar>trunc_div a b\<bar> \<le> \<bar>a\<bar>"
proof -
  have "\<bar>trunc_div a b\<bar> \<le> \<bar>a\<bar> div \<bar>b\<bar>"
    by (auto simp: trunc_div_def abs_mult abs_sgn_eq pos_imp_zdiv_nonneg_iff)
  also have "\<dots> \<le> \<bar>a\<bar>"
    by (cases "b = 0") (simp_all add: zdiv_mono2 [of "\<bar>a\<bar>" 1 "\<bar>b\<bar>", simplified])
  finally show ?thesis .
qed

subsection \<open>Strings\<close>

text \<open>\<open>std::to_string\<close> on unsigned and signed integers.\<close>

definition digit_char :: "nat \<Rightarrow> char" where
  "digit_char d = char_of (48 + d)"

fun nat_to_string :: "nat \<Rightarrow> string" where
  "nat_to_string n =
     (if n < 10 then [digit_char n] else nat_to_string (n div 10) @ [digit_char (n mod 10)])"

declare nat_to_string.simps [simp del]

definition int_to_string :: "int \<Rightarrow> string" where
  "int_to_string i =
     (if i < 0 then CHR ''-'' # nat_to_string (nat (- i)) else nat_to_string (nat i))"

text \<open>A text between two apostrophes, as the messages quote names.\<close>

definition quoted :: "string \<Rightarrow> string" where
  "quoted s = [CHR 0x27] @ s @ [CHR 0x27]"

text \<open>\<open>std::string::rfind\<close>: the last position at which \<open>pat\<close> occurs in \<open>s\<close>.\<close>

fun rfind :: "string \<Rightarrow> string \<Rightarrow> nat option" where
  "rfind pat [] = (if pat = [] then Some 0 else None)"
| "rfind pat (c # s) =
     (case rfind pat s of
        Some i \<Rightarrow> Some (Suc i)
      | None \<Rightarrow> if prefix pat (c # s) then Some 0 else None)"

definition ends_with :: "string \<Rightarrow> string \<Rightarrow> bool" where
  "ends_with s suf = suffix suf s"

lemma rfind_SomeD:
  "rfind pat s = Some i \<Longrightarrow> i \<le> length s \<and> s = take i s @ pat @ drop (i + length pat) s"
proof (induction s arbitrary: i)
  case Nil
  then show ?case by (auto split: if_splits)
next
  case (Cons c s)
  show ?case
  proof (cases "rfind pat s")
    case None
    with Cons.prems have "i = 0" and "prefix pat (c # s)" by (auto split: if_splits)
    then show ?thesis by (auto simp: prefix_def)
  next
    case (Some j)
    with Cons.prems have "i = Suc j" by simp
    with Cons.IH [OF Some] show ?thesis by simp
  qed
qed

lemma rfind_last:
  "rfind pat s = Some i \<Longrightarrow> i < j \<Longrightarrow> j \<le> length s \<Longrightarrow> \<not> prefix pat (drop j s)"
proof (induction s arbitrary: i j)
  case Nil
  then show ?case by simp
next
  case (Cons c s)
  then obtain j' where j: "j = Suc j'" by (cases j) auto
  have none: "rfind pat s = None \<Longrightarrow> \<forall>k\<le>length s. \<not> prefix pat (drop k s)" for s
  proof (induction s)
    case Nil
    then show ?case by (auto split: if_splits)
  next
    case (Cons c s)
    then have "rfind pat s = None" and "\<not> prefix pat (c # s)"
      by (auto split: option.splits if_splits)
    with Cons.IH show ?case
      by (metis Suc_le_mono drop0 drop_Suc_Cons length_Cons not0_implies_Suc)
  qed
  from Cons.prems j none [of s] Cons.IH show ?case
    by (auto split: option.splits if_splits)
qed

subsection \<open>Number scanning\<close>

definition is_space_char :: "char \<Rightarrow> bool" where
  "is_space_char c \<longleftrightarrow> of_char c = (32::nat) \<or> (9 \<le> (of_char c::nat) \<and> (of_char c::nat) \<le> 13)"

definition is_digit_char :: "char \<Rightarrow> bool" where
  "is_digit_char c \<longleftrightarrow> 48 \<le> (of_char c::nat) \<and> (of_char c::nat) \<le> 57"

definition digit_val :: "char \<Rightarrow> int" where
  "digit_val c = int (of_char c) - 48"

text \<open>The value of a digit string, most significant digit first.\<close>

definition digits_val :: "string \<Rightarrow> int" where
  "digits_val ds = foldl (\<lambda>n c. 10 * n + digit_val c) 0 ds"

datatype 'a scan_result = ScanValue 'a | ScanInvalid | ScanOutOfRange

text \<open>
  \<open>std::stoll(s)\<close>: white space, an optional sign and the longest run of decimal digits;
  \<open>std::invalid_argument\<close> when there is no digit, \<open>std::out_of_range\<close> when the value does
  not fit \<open>long long\<close>; what follows the digits is ignored.
\<close>

definition stoll :: "string \<Rightarrow> int scan_result" where
  "stoll s =
     (let t = dropWhile is_space_char s;
          neg = (case t of c # _ \<Rightarrow> c = CHR ''-'' | [] \<Rightarrow> False);
          u = (case t of c # r \<Rightarrow> if c = CHR ''-'' \<or> c = CHR ''+'' then r else t | [] \<Rightarrow> []);
          ds = takeWhile is_digit_char u;
          v = (if neg then - digits_val ds else digits_val ds)
      in if ds = [] then ScanInvalid
         else if in_int64 v then ScanValue v else ScanOutOfRange)"

text \<open>
  \<open>std::from_chars\<close> into a \<open>std::size_t\<close>: no white space and no sign; the longest run of
  decimal digits, what follows is ignored.
\<close>

definition from_chars_size :: "string \<Rightarrow> nat scan_result" where
  "from_chars_size s =
     (let ds = takeWhile is_digit_char s
      in if ds = [] then ScanInvalid
         else if digits_val ds \<le> uint64_max then ScanValue (nat (digits_val ds)) else ScanOutOfRange)"

lemma stoll_in_range: "stoll s = ScanValue v \<Longrightarrow> in_int64 v"
  by (auto simp: stoll_def Let_def split: if_splits)

lemma from_chars_size_bound: "from_chars_size s = ScanValue n \<Longrightarrow> int n \<le> uint64_max"
  by (auto simp: from_chars_size_def Let_def uint64_max_def split: if_splits)

lemma digit_char_props:
  "d < 10 \<Longrightarrow> is_digit_char (digit_char d) \<and> digit_val (digit_char d) = int d"
  by (simp add: is_digit_char_def digit_val_def digit_char_def)

lemma nat_to_string_digits: "list_all is_digit_char (nat_to_string n) \<and> nat_to_string n \<noteq> []"
proof (induction n rule: nat_to_string.induct)
  case (1 n)
  show ?case
  proof (cases "n < 10")
    case True
    then show ?thesis by (simp add: nat_to_string.simps [of n] digit_char_props)
  next
    case False
    with "1.IH" show ?thesis by (simp add: nat_to_string.simps [of n] digit_char_props)
  qed
qed

lemma digits_val_nat_to_string: "digits_val (nat_to_string n) = int n"
proof (induction n rule: nat_to_string.induct)
  case (1 n)
  show ?case
  proof (cases "n < 10")
    case True
    then show ?thesis
      by (simp add: nat_to_string.simps [of n] digits_val_def digit_char_props)
  next
    case False
    have "digits_val (nat_to_string n) =
        10 * digits_val (nat_to_string (n div 10)) + digit_val (digit_char (n mod 10))"
      using False by (simp add: nat_to_string.simps [of n] digits_val_def)
    with "1.IH" False show ?thesis by (simp add: digit_char_props zdiv_int zmod_int)
  qed
qed

lemma takeWhile_nat_to_string:
  "takeWhile is_digit_char (nat_to_string n) = nat_to_string n"
  using nat_to_string_digits [of n] by (simp add: takeWhile_eq_all_conv list_all_iff)

text \<open>Printing and scanning are inverse on the values the types can hold.\<close>

lemma from_chars_nat_to_string:
  "int n \<le> uint64_max \<Longrightarrow> from_chars_size (nat_to_string n) = ScanValue n"
  using nat_to_string_digits [of n]
  by (simp add: from_chars_size_def takeWhile_nat_to_string digits_val_nat_to_string)

lemma stoll_int_to_string:
  assumes "in_int64 i"
  shows "stoll (int_to_string i) = ScanValue i"
proof -
  have ne: "nat_to_string m \<noteq> []" for m using nat_to_string_digits by blast
  note tw = takeWhile_nat_to_string
  have first: "is_digit_char c \<Longrightarrow> c \<noteq> CHR ''-'' \<and> c \<noteq> CHR ''+'' \<and> \<not> is_space_char c" for c
    by (auto simp: is_digit_char_def is_space_char_def)
  have hd: "is_digit_char (hd (nat_to_string m))" for m
    using nat_to_string_digits [of m] by (cases "nat_to_string m") auto
  show ?thesis
  proof (cases "i < 0")
    case True
    then have "int_to_string i = CHR ''-'' # nat_to_string (nat (- i))"
      by (simp add: int_to_string_def)
    with assms True show ?thesis
      by (simp add: stoll_def is_space_char_def tw ne digits_val_nat_to_string)
  next
    case False
    then have eq: "int_to_string i = nat_to_string (nat i)" by (simp add: int_to_string_def)
    obtain c cs where cs: "nat_to_string (nat i) = c # cs" using ne by (cases "nat_to_string (nat i)") auto
    from hd [of "nat i"] cs have "is_digit_char c" by simp
    note c = first [OF this]
    have tw': "takeWhile is_digit_char (c # cs) = c # cs" using tw [of "nat i"] cs by simp
    have dv: "digits_val (c # cs) = i" using digits_val_nat_to_string [of "nat i"] cs False by simp
    from assms False c show ?thesis
      by (simp add: stoll_def eq cs tw' dv Let_def del: takeWhile.simps)
  qed
qed

subsection \<open>Computations that may be undefined\<close>

text \<open>
  A computation over a world returns \<^const>\<open>None\<close> when it is undefined; these equations take
  the sequencing \<open>case m of None \<Rightarrow> None | Some (r, s) \<Rightarrow> F r s\<close> apart.
\<close>

lemma run_eq_Some:
  "(case m of None \<Rightarrow> None | Some p \<Rightarrow> (case p of (r, s) \<Rightarrow> F r s)) = Some y \<longleftrightarrow>
    (\<exists>r s. m = Some (r, s) \<and> F r s = Some y)"
  by (auto split: option.splits)

lemma run_eq_None:
  "(case m of None \<Rightarrow> None | Some p \<Rightarrow> (case p of (r, s) \<Rightarrow> F r s)) = None \<longleftrightarrow>
    m = None \<or> (\<exists>r s. m = Some (r, s) \<and> F r s = None)"
  by (auto split: option.splits)

lemma if_eq_Some:
  "((if b then x else z) = Some y) \<longleftrightarrow> (b \<and> x = Some y \<or> \<not> b \<and> z = Some y)"
  "((if b then x else z) = None) \<longleftrightarrow> (b \<and> x = None \<or> \<not> b \<and> z = None)"
  by auto

lemmas run_simps = run_eq_Some run_eq_None if_eq_Some

end
