(* ===== verification/IR.thy ===== *)
theory IR
  imports Prelude
begin

section \<open>The intermediate representation\<close>

text \<open>
  \<open>include/ahfl/compiler/ir/types.hpp\<close>, \<open>expr.hpp\<close>, \<open>decl.hpp\<close> and \<open>program.hpp\<close>: the tagged
  unions are datatypes with the source's alternatives, the structs are records. An
  \<open>ExprRef\<close>, a \<open>StatementPtr\<close> or an \<open>Owned<Block>\<close> may be null and is an option. Left out are
  the fields that no code modelled here reads: source ranges, node ids, the resolved type of
  an expression, the provenance of a declaration, and the arena that owns the expressions (a
  reference is the tree it points to).
\<close>

subsection \<open>Enumerations and references\<close>

datatype path_root_kind =
  RootIdentifier | RootInput | RootContext | RootOutput | RootState | RootLocal

datatype expr_unary_op = OpNot | OpNegate | OpPositive

datatype expr_binary_op =
    OpImplies | OpOr | OpAnd | OpEqual | OpNotEqual | OpLess | OpLessEqual | OpGreater
  | OpGreaterEqual | OpAdd | OpSubtract | OpMultiply | OpDivide | OpModulo

datatype temporal_unary_op = TAlways | TEventually | TNext | TNot

datatype temporal_binary_op = TImplies | TOr | TAnd | TUntil

datatype contract_clause_kind = Requires | Ensures | Invariant | Forbid

datatype workflow_value_source_kind = WorkflowInput | WorkflowNodeOutput

datatype symbol_ref_kind =
  SymUnknown | SymType | SymConst | SymCapability | SymPredicate | SymAgent | SymWorkflow

record symbol_ref =
  sym_kind :: symbol_ref_kind
  canonical_name :: string
  local_name :: string
  sym_module :: string
  sym_id :: "nat option"

definition symbol_canonical_name :: "symbol_ref \<Rightarrow> string \<Rightarrow> string" where
  "symbol_canonical_name ref fallback =
     (if canonical_name ref = [] then fallback else canonical_name ref)"

text \<open>A type reference; the element types are owned pointers and may be null.\<close>

datatype type_ref_kind =
    TyUnresolved | TyAny | TyNever | TyUnit | TyBool | TyInt | TyFloat | TyString
  | TyBoundedString | TyUUID | TyTimestamp | TyDuration | TyDecimal | TyStruct | TyEnum
  | TyOptional | TyList | TySet | TyMap

datatype type_ref =
  TypeRef (tr_kind: type_ref_kind) (tr_display_name: string) (tr_canonical_name: string)
    (tr_variant_name: string) (tr_string_bounds: "(int \<times> int) option")
    (tr_decimal_scale: "int option") (tr_first: "type_ref option") (tr_second: "type_ref option")

subsection \<open>Expressions\<close>

record path =
  root_kind :: path_root_kind
  root_name :: string
  members :: "string list"

datatype expr =
    NoneLiteralExpr
  | BoolLiteralExpr bool
  | IntegerLiteralExpr string
  | FloatLiteralExpr string
  | DecimalLiteralExpr string
  | StringLiteralExpr string
  | DurationLiteralExpr string
  | SomeExpr "expr option"
  | PathExpr path
  | QualifiedValueExpr string
  | CallExpr string "expr option list"
  | StructLiteralExpr string "(string \<times> expr option) list"
  | ListLiteralExpr "expr option list"
  | SetLiteralExpr "expr option list"
  | MapLiteralExpr "(expr option \<times> expr option) list"
  | UnaryExpr expr_unary_op "expr option"
  | BinaryExpr expr_binary_op "expr option" "expr option"
  | MemberAccessExpr "expr option" string
  | IndexAccessExpr "expr option" "expr option"

type_synonym expr_ref = "expr option"

subsection \<open>Induction over subexpressions\<close>

text \<open>
  The direct subexpressions, null references left out, and the induction and case rules that
  the components use: nested options and lists disappear from their premises.
\<close>

definition present :: "'a option list \<Rightarrow> 'a list" where
  "present xs = concat (map (\<lambda>x. case x of None \<Rightarrow> [] | Some y \<Rightarrow> [y]) xs)"

lemma present_simps [simp]:
  "present [] = []" "present (None # xs) = present xs" "present (Some x # xs) = x # present xs"
  by (simp_all add: present_def)

lemma set_present [simp]: "x \<in> set (present xs) \<longleftrightarrow> Some x \<in> set xs"
  by (induction xs) (auto simp: present_def split: option.splits)

fun subexprs :: "expr \<Rightarrow> expr list" where
  "subexprs (SomeExpr e) = present [e]"
| "subexprs (CallExpr f args) = present args"
| "subexprs (StructLiteralExpr n fs) = present (map snd fs)"
| "subexprs (ListLiteralExpr es) = present es"
| "subexprs (SetLiteralExpr es) = present es"
| "subexprs (MapLiteralExpr es) = present (map fst es @ map snd es)"
| "subexprs (UnaryExpr op e) = present [e]"
| "subexprs (BinaryExpr op l r) = present [l, r]"
| "subexprs (MemberAccessExpr e m) = present [e]"
| "subexprs (IndexAccessExpr b i) = present [b, i]"
| "subexprs e = []"

lemma expr_sub_induct [case_names expr]:
  assumes step: "\<And>e. (\<And>x. x \<in> set (subexprs e) \<Longrightarrow> P x) \<Longrightarrow> P e"
  shows "P e"
proof (induction e)
  case (MapLiteralExpr es)
  show ?case
  proof (rule step)
    fix x assume "x \<in> set (subexprs (MapLiteralExpr es))"
    then obtain a b where "(a, b) \<in> set es" "x \<in> set_option a \<or> x \<in> set_option b" by fastforce
    then show "P x" using MapLiteralExpr by fastforce
  qed
qed (rule step; fastforce)+

text \<open>The references to subexpressions in source order, null ones included.\<close>

fun child_refs :: "expr \<Rightarrow> expr option list" where
  "child_refs (SomeExpr e) = [e]"
| "child_refs (CallExpr f args) = args"
| "child_refs (StructLiteralExpr n fs) = map snd fs"
| "child_refs (ListLiteralExpr es) = es"
| "child_refs (SetLiteralExpr es) = es"
| "child_refs (MapLiteralExpr es) = concat (map (\<lambda>(k, v). [k, v]) es)"
| "child_refs (UnaryExpr op e) = [e]"
| "child_refs (BinaryExpr op l r) = [l, r]"
| "child_refs (MemberAccessExpr e m) = [e]"
| "child_refs (IndexAccessExpr b i) = [b, i]"
| "child_refs e = []"

lemma set_child_refs: "Some x \<in> set (child_refs e) \<longleftrightarrow> x \<in> set (subexprs e)"
  by (cases e) (auto simp: image_iff, force+)

lemma size_subexprs: "x \<in> set (subexprs e) \<Longrightarrow> size x < size e"
proof -
  have list: "Some x \<in> set xs \<Longrightarrow> size x < size_list (size_option size) xs" for xs :: "expr option list"
    by (induction xs) auto
  have struct: "(k, Some x) \<in> set fs \<Longrightarrow> size x < size_list (size_prod (\<lambda>_. 0) (size_option size)) fs"
    for k :: string and fs
    by (induction fs) auto
  have entries: "(Some x, y) \<in> set es \<Longrightarrow> size x < size_list (size_prod (size_option size) (size_option size)) es"
    "(y, Some x) \<in> set es \<Longrightarrow> size x < size_list (size_prod (size_option size) (size_option size)) es" for y es
    by (induction es) auto
  show "x \<in> set (subexprs e) \<Longrightarrow> size x < size e"
    by (cases e) (auto dest: list struct entries simp: less_Suc_eq)
qed

lemma expr_shape:
  obtains (NoneLit) "e = NoneLiteralExpr" | (BoolLit) b where "e = BoolLiteralExpr b"
    | (IntLit) t where "e = IntegerLiteralExpr t" | (FloatLit) t where "e = FloatLiteralExpr t"
    | (DecimalLit) t where "e = DecimalLiteralExpr t" | (StringLit) t where "e = StringLiteralExpr t"
    | (DurationLit) t where "e = DurationLiteralExpr t" | (SomeNull) "e = SomeExpr None"
    | (SomeOf) x where "e = SomeExpr (Some x)" | (PathOf) p where "e = PathExpr p"
    | (Qualified) t where "e = QualifiedValueExpr t"
    | (Call) f args where "e = CallExpr f args" | (Struct) n fs where "e = StructLiteralExpr n fs"
    | (ListLit) es where "e = ListLiteralExpr es" | (SetLit) es where "e = SetLiteralExpr es"
    | (MapLit) ms where "e = MapLiteralExpr ms"
    | (UnaryNull) op where "e = UnaryExpr op None" | (Unary) op x where "e = UnaryExpr op (Some x)"
    | (BinaryNull) op l r where "e = BinaryExpr op l r" "l = None \<or> r = None"
    | (Binary) op l r where "e = BinaryExpr op (Some l) (Some r)"
    | (MemberNull) m where "e = MemberAccessExpr None m"
    | (Member) x m where "e = MemberAccessExpr (Some x) m"
    | (IndexNull) b i where "e = IndexAccessExpr b i" "b = None \<or> i = None"
    | (Index) b i where "e = IndexAccessExpr (Some b) (Some i)"
proof (cases e)
  case (SomeExpr x) then show ?thesis using SomeNull SomeOf by (cases x) auto
next
  case (UnaryExpr op x) then show ?thesis using UnaryNull Unary by (cases x) auto
next
  case (MemberAccessExpr x m) then show ?thesis using MemberNull Member by (cases x) auto
next
  case (BinaryExpr op l r) then show ?thesis using BinaryNull Binary by (cases l; cases r) auto
next
  case (IndexAccessExpr l r) then show ?thesis using IndexNull Index by (cases l; cases r) auto
qed (use that in auto)

subsection \<open>Temporal expressions\<close>

datatype temporal_expr =
    EmbeddedTemporalExpr expr_ref
  | CalledTemporalExpr string
  | InStateTemporalExpr string
  | RunningTemporalExpr string
  | CompletedTemporalExpr string "string option"
  | TemporalUnaryExpr temporal_unary_op "temporal_expr option"
  | TemporalBinaryExpr temporal_binary_op "temporal_expr option" "temporal_expr option"

subsection \<open>Statements\<close>

datatype statement =
    LetStatement string expr_ref
  | AssignStatement path expr_ref
  | IfStatement expr_ref "statement option list option" "statement option list option"
  | GotoStatement string
  | ReturnStatement expr_ref
  | AssertStatement expr_ref
  | ExprStatement expr_ref

type_synonym block = "statement option list"

text \<open>The blocks directly inside a statement, and induction over them.\<close>

fun sub_blocks :: "statement \<Rightarrow> block list" where
  "sub_blocks (IfStatement c t e) = present [t, e]"
| "sub_blocks st = []"

lemma statement_sub_induct [case_names stmt]:
  assumes step: "\<And>st. (\<And>b x. b \<in> set (sub_blocks st) \<Longrightarrow> Some x \<in> set b \<Longrightarrow> P x) \<Longrightarrow> P st"
  shows "P st"
proof (induction st)
  case (IfStatement c t e)
  show ?case
  proof (rule step)
    fix b x assume "b \<in> set (sub_blocks (IfStatement c t e))" "Some x \<in> set b"
    then have "b \<in> set_option t \<and> Some x \<in> set b \<or> b \<in> set_option e \<and> Some x \<in> set b" by auto
    then show "P x" using IfStatement [of b "Some x" x] by auto
  qed
qed (rule step; simp)+

subsection \<open>Declarations\<close>

record field_decl =
  field_name :: string
  field_default :: expr_ref
  field_type :: type_ref

record quota_item =
  quota_name :: string
  quota_value :: string

record transition_decl =
  from_state :: string
  to_state :: string

record agent_decl =
  agent_name :: string
  states :: "string list"
  initial_state :: string
  final_states :: "string list"
  quota :: "quota_item list"
  transitions :: "transition_decl list"
  capability_refs :: "symbol_ref list"
  agent_symbol :: symbol_ref

datatype clause_value = ClauseExpr expr_ref | ClauseTemporal "temporal_expr option"

record contract_clause =
  clause_kind :: contract_clause_kind
  clause_value :: clause_value

record contract_decl =
  clauses :: "contract_clause list"
  contract_target :: symbol_ref

record state_handler =
  handler_state :: string
  body :: block

record flow_decl =
  state_handlers :: "state_handler list"
  flow_target :: symbol_ref

record workflow_node =
  node_name :: string
  node_input :: expr_ref
  after :: "string list"
  target_ref :: symbol_ref

record workflow_decl =
  workflow_name :: string
  nodes :: "workflow_node list"
  safety :: "temporal_expr option list"
  liveness :: "temporal_expr option list"
  return_value :: expr_ref
  workflow_symbol :: symbol_ref

text \<open>
  The declarations the modelled code only indexes (constant, type alias, capability,
  predicate) carry their name and symbol; a struct also its fields, an enum its variants.
\<close>

record named_decl =
  decl_name :: string
  decl_symbol :: symbol_ref

record struct_decl = named_decl +
  struct_fields :: "field_decl list"

record enum_decl = named_decl +
  enum_variants :: "string list"

datatype decl =
    ModuleDecl string
  | ImportDecl string "string option"
  | ConstDecl named_decl
  | TypeAliasDecl named_decl
  | StructDecl struct_decl
  | EnumDecl enum_decl
  | CapabilityDecl named_decl
  | PredicateDecl named_decl
  | AgentDecl agent_decl
  | ContractDecl contract_decl
  | FlowDecl flow_decl
  | WorkflowDecl workflow_decl

end
