(* ===== verification/Cxx_Double.thy ===== *)
theory Cxx_Double
  imports Prelude
begin

section \<open>The C++ type double\<close>

text \<open>
  IEEE 754 binary64 with rounding to nearest, ties to even, as the C++ implementations the
  program builds on provide it: a NaN, the two infinities, and finite numbers
  \<open>(-1)^s * m * 2^e\<close>. Finite results are kept in canonical form (\<open>double_ok\<close>), so the
  53-bit precision and the exponent range of the type are part of the model. Everything is
  computed exactly on integers and rounded once. The operations are those the evaluator
  uses: conversion from \<open>int64_t\<close>, negation, \<open>+ - * /\<close>, \<open>std::fmod\<close>, the comparisons
  and \<open>std::stod\<close>.
\<close>

datatype double =
    DNaN
  | DInf bool
  | DFin bool int int

definition double_ok :: "double \<Rightarrow> bool" where
  "double_ok d =
     (case d of
        DFin s m e \<Rightarrow>
          (2 ^ 52 \<le> m \<and> m < 2 ^ 53 \<and> -1074 \<le> e \<and> e \<le> 971) \<or>
          (0 \<le> m \<and> m < 2 ^ 52 \<and> e = -1074)
      | _ \<Rightarrow> True)"

subsection \<open>Rounding\<close>

text \<open>The number of binary digits of a positive number.\<close>

function bit_len :: "int \<Rightarrow> nat" where
  "bit_len n = (if n \<le> 0 then 0 else Suc (bit_len (n div 2)))"
  by pat_completeness auto
termination
  by (relation "measure nat") auto

declare bit_len.simps [simp del]

definition scale2 :: "int \<Rightarrow> int \<Rightarrow> int \<times> int" where
  "scale2 n e = (if 0 \<le> e then (n * 2 ^ nat e, 1) else (n, 2 ^ nat (- e)))"

text \<open>The exponent of the quotient \<open>a / b\<close> of two positive numbers: \<open>2^t \<le> a / b < 2^(t+1)\<close>.\<close>

definition quot_exp :: "int \<Rightarrow> int \<Rightarrow> int" where
  "quot_exp a b =
     (let t = int (bit_len a) - int (bit_len b)
      in if (if 0 \<le> t then b * 2 ^ nat t \<le> a else b \<le> a * 2 ^ nat (- t)) then t else t - 1)"

text \<open>Round the quotient \<open>num / den\<close> to an integer, ties to even.\<close>

definition div_half_even :: "int \<Rightarrow> int \<Rightarrow> int" where
  "div_half_even num den =
     (let q = num div den; r = num mod den
      in if 2 * r < den \<or> (2 * r = den \<and> even q) then q else q + 1)"

definition pack_double :: "bool \<Rightarrow> int \<Rightarrow> int \<Rightarrow> double" where
  "pack_double s m e =
     (if m = 2 ^ 53 then (if 971 < e + 1 then DInf s else DFin s (2 ^ 52) (e + 1))
      else if 971 < e then DInf s else DFin s m e)"

definition round_quot :: "bool \<Rightarrow> int \<Rightarrow> int \<Rightarrow> double" where
  "round_quot s a b =
     (if a = 0 then DFin s 0 (-1074)
      else
        (let e = max (quot_exp a b - 52) (-1074)
         in pack_double s
              (if 0 \<le> e then div_half_even a (b * 2 ^ nat e)
               else div_half_even (a * 2 ^ nat (- e)) b) e))"

text \<open>Round \<open>n * 2^e\<close>.\<close>

definition round_scaled :: "bool \<Rightarrow> int \<Rightarrow> int \<Rightarrow> double" where
  "round_scaled s n e = (case scale2 n e of (a, b) \<Rightarrow> round_quot s a b)"

subsection \<open>Arithmetic and comparison\<close>

definition double_of_int :: "int \<Rightarrow> double" where
  "double_of_int i = round_quot (i < 0) \<bar>i\<bar> 1"

definition double_neg :: "double \<Rightarrow> double" where
  "double_neg d =
     (case d of DNaN \<Rightarrow> DNaN | DInf s \<Rightarrow> DInf (\<not> s) | DFin s m e \<Rightarrow> DFin (\<not> s) m e)"

text \<open>The significand of a finite number as a signed integer at the exponent \<open>e0 \<le> e\<close>.\<close>

definition signed_at :: "bool \<Rightarrow> int \<Rightarrow> int \<Rightarrow> int \<Rightarrow> int" where
  "signed_at s m e e0 = (if s then - 1 else 1) * m * 2 ^ nat (e - e0)"

definition double_add :: "double \<Rightarrow> double \<Rightarrow> double" where
  "double_add x y =
     (case (x, y) of
        (DNaN, _) \<Rightarrow> DNaN
      | (_, DNaN) \<Rightarrow> DNaN
      | (DInf s, DInf t) \<Rightarrow> if s = t then DInf s else DNaN
      | (DInf s, DFin _ _ _) \<Rightarrow> DInf s
      | (DFin _ _ _, DInf t) \<Rightarrow> DInf t
      | (DFin s m e, DFin t n f) \<Rightarrow>
          (let e0 = min e f; z = signed_at s m e e0 + signed_at t n f e0
           in if z = 0 then DFin (s \<and> t) 0 (-1074)
              else round_scaled (z < 0) \<bar>z\<bar> e0))"

definition double_sub :: "double \<Rightarrow> double \<Rightarrow> double" where
  "double_sub x y = double_add x (double_neg y)"

definition double_mul :: "double \<Rightarrow> double \<Rightarrow> double" where
  "double_mul x y =
     (case (x, y) of
        (DNaN, _) \<Rightarrow> DNaN
      | (_, DNaN) \<Rightarrow> DNaN
      | (DInf s, DInf t) \<Rightarrow> DInf (s \<noteq> t)
      | (DInf s, DFin t n _) \<Rightarrow> if n = 0 then DNaN else DInf (s \<noteq> t)
      | (DFin s m _, DInf t) \<Rightarrow> if m = 0 then DNaN else DInf (s \<noteq> t)
      | (DFin s m e, DFin t n f) \<Rightarrow> round_scaled (s \<noteq> t) (m * n) (e + f))"

definition double_div :: "double \<Rightarrow> double \<Rightarrow> double" where
  "double_div x y =
     (case (x, y) of
        (DNaN, _) \<Rightarrow> DNaN
      | (_, DNaN) \<Rightarrow> DNaN
      | (DInf s, DInf t) \<Rightarrow> DNaN
      | (DInf s, DFin t _ _) \<Rightarrow> DInf (s \<noteq> t)
      | (DFin s _ _, DInf t) \<Rightarrow> DFin (s \<noteq> t) 0 (-1074)
      | (DFin s m e, DFin t n f) \<Rightarrow>
          if n = 0 then (if m = 0 then DNaN else DInf (s \<noteq> t))
          else (case scale2 m (e - f) of (a, b) \<Rightarrow> round_quot (s \<noteq> t) a (b * n)))"

text \<open>\<open>std::fmod\<close>: the exact remainder of truncated division, with the sign of the dividend.\<close>

definition double_fmod :: "double \<Rightarrow> double \<Rightarrow> double" where
  "double_fmod x y =
     (case (x, y) of
        (DNaN, _) \<Rightarrow> DNaN
      | (_, DNaN) \<Rightarrow> DNaN
      | (DInf _, _) \<Rightarrow> DNaN
      | (DFin s m e, DInf _) \<Rightarrow> DFin s m e
      | (DFin s m e, DFin _ n f) \<Rightarrow>
          if n = 0 then DNaN
          else (let e0 = min e f
                in round_scaled s ((m * 2 ^ nat (e - e0)) mod (n * 2 ^ nat (f - e0))) e0))"

definition double_less :: "double \<Rightarrow> double \<Rightarrow> bool" where
  "double_less x y =
     (case (x, y) of
        (DNaN, _) \<Rightarrow> False
      | (_, DNaN) \<Rightarrow> False
      | (DInf s, DInf t) \<Rightarrow> s \<and> \<not> t
      | (DInf s, DFin _ _ _) \<Rightarrow> s
      | (DFin _ _ _, DInf t) \<Rightarrow> \<not> t
      | (DFin s m e, DFin t n f) \<Rightarrow>
          (let e0 = min e f in signed_at s m e e0 < signed_at t n f e0))"

definition double_eq :: "double \<Rightarrow> double \<Rightarrow> bool" where
  "double_eq x y =
     (case (x, y) of
        (DNaN, _) \<Rightarrow> False
      | (_, DNaN) \<Rightarrow> False
      | (DInf s, DInf t) \<Rightarrow> s = t
      | (DInf s, DFin _ _ _) \<Rightarrow> False
      | (DFin _ _ _, DInf t) \<Rightarrow> False
      | (DFin s m e, DFin t n f) \<Rightarrow>
          (let e0 = min e f in signed_at s m e e0 = signed_at t n f e0))"

definition double_le :: "double \<Rightarrow> double \<Rightarrow> bool" where
  "double_le x y \<longleftrightarrow> double_less x y \<or> double_eq x y"

definition double_zero :: double where "double_zero = DFin False 0 (-1074)"

subsection \<open>std::stod\<close>

text \<open>
  The grammar of \<open>strtod\<close>: white space, a sign, then \<open>inf\<close>, \<open>infinity\<close>, \<open>nan\<close>, a
  hexadecimal or a decimal floating number; what follows is ignored. No number at all is
  \<open>std::invalid_argument\<close>; a finite number that rounds to an infinity, or a non-zero one
  whose rounding to a subnormal (or to zero) is inexact, is \<open>std::out_of_range\<close>.
\<close>

definition lower_char :: "char \<Rightarrow> char" where
  "lower_char c = (if 65 \<le> (of_char c::nat) \<and> (of_char c::nat) \<le> 90
                   then char_of ((of_char c::nat) + 32) else c)"

definition hex_val :: "char \<Rightarrow> int option" where
  "hex_val c =
     (if is_digit_char c then Some (digit_val c)
      else let d = int (of_char (lower_char c))
           in if 97 \<le> d \<and> d \<le> 102 then Some (d - 87) else None)"

definition scan_exponent :: "char \<Rightarrow> string \<Rightarrow> int" where
  "scan_exponent mark s =
     (case s of
        [] \<Rightarrow> 0
      | c # r \<Rightarrow>
          if lower_char c = mark
          then (let neg = (case r of x # _ \<Rightarrow> x = CHR ''-'' | [] \<Rightarrow> False);
                    u = (case r of x # t \<Rightarrow> if x = CHR ''-'' \<or> x = CHR ''+'' then t else r
                          | [] \<Rightarrow> []);
                    v = digits_val (takeWhile is_digit_char u)
                in if neg then - v else v)
          else 0)"

definition finish_double :: "bool \<Rightarrow> int \<Rightarrow> int \<Rightarrow> double scan_result" where
  "finish_double s a b =
     (case round_quot s a b of
        DFin t m e \<Rightarrow>
          if m < 2 ^ 52 \<and> a * 2 ^ 1074 \<noteq> m * b then ScanOutOfRange else ScanValue (DFin t m e)
      | _ \<Rightarrow> ScanOutOfRange)"

definition scan_decimal :: "bool \<Rightarrow> string \<Rightarrow> double scan_result" where
  "scan_decimal s t =
     (let ip = takeWhile is_digit_char t;
          r1 = dropWhile is_digit_char t;
          fp = (case r1 of c # r \<Rightarrow> if c = CHR ''.'' then takeWhile is_digit_char r else [] | [] \<Rightarrow> []);
          r2 = (case r1 of c # r \<Rightarrow> if c = CHR ''.'' then dropWhile is_digit_char r else r1 | [] \<Rightarrow> []);
          ex = scan_exponent CHR ''e'' r2 - int (length fp);
          n = digits_val (ip @ fp)
      in if ip = [] \<and> fp = [] then ScanInvalid
         else if 0 \<le> ex then finish_double s (n * 10 ^ nat ex) 1
         else finish_double s n (10 ^ nat (- ex)))"

definition scan_hex :: "bool \<Rightarrow> string \<Rightarrow> double scan_result" where
  "scan_hex s t =
     (let ishex = (\<lambda>c. hex_val c \<noteq> None);
          ip = takeWhile ishex t;
          r1 = dropWhile ishex t;
          fp = (case r1 of c # r \<Rightarrow> if c = CHR ''.'' then takeWhile ishex r else [] | [] \<Rightarrow> []);
          r2 = (case r1 of c # r \<Rightarrow> if c = CHR ''.'' then dropWhile ishex r else r1 | [] \<Rightarrow> []);
          ex = scan_exponent CHR ''p'' r2 - 4 * int (length fp);
          n = foldl (\<lambda>n c. 16 * n + the (hex_val c)) 0 (ip @ fp)
      in if ip = [] \<and> fp = [] then ScanValue (DFin s 0 (-1074))
         else (case scale2 n ex of (a, b) \<Rightarrow> finish_double s a b))"

definition stod :: "string \<Rightarrow> double scan_result" where
  "stod str =
     (let t = dropWhile is_space_char str;
          neg = (case t of c # _ \<Rightarrow> c = CHR ''-'' | [] \<Rightarrow> False);
          u = (case t of c # r \<Rightarrow> if c = CHR ''-'' \<or> c = CHR ''+'' then r else t | [] \<Rightarrow> []);
          l = map lower_char u
      in if prefix ''inf'' l then ScanValue (DInf neg)
         else if prefix ''nan'' l then ScanValue DNaN
         else if prefix ''0x'' l then scan_hex neg (drop 2 u)
         else scan_decimal neg u)"

text \<open>
  \<open>static_cast<long long>\<close> of a double truncates; a NaN, an infinity or a number out of range
  is undefined behaviour.
\<close>

definition double_to_int64 :: "double \<Rightarrow> int option" where
  "double_to_int64 d =
     (case d of
        DFin s m e \<Rightarrow>
          int64_result ((if s then - 1 else 1) *
            (if 0 \<le> e then m * 2 ^ nat e else m div 2 ^ nat (- e)))
      | _ \<Rightarrow> None)"

end
