(* ===== verification/Opt_Passes.thy ===== *)
theory Opt_Passes
  imports IR Cxx_Double
begin

section \<open>The optimization IR and its passes\<close>

text \<open>
  \<open>include/ahfl/compiler/ir/opt/opt_ir.hpp\<close> and \<open>src/compiler/ir/opt/opt_passes.cpp\<close>: functions
  of basic blocks over locals, and the three passes on them (constant propagation, copy
  propagation, dead store elimination) with the loop \<open>optimize\<close> that runs them until nothing
  changes.

  A pass mutates the function and returns whether it changed something; here it returns the new
  function and the flag. A tagged struct whose code reads only the fields of its tag (an operand)
  is a datatype; statements and terminators keep every field, because the passes read fields of
  a terminator whatever its kind. The loop may run for ever, so \<open>optimize\<close> is a partial function:
  \<^const>\<open>None\<close> is a run without end.
\<close>

subsection \<open>The IR\<close>

type_synonym local_ref = nat

definition no_local :: local_ref where
  "no_local = 4294967295"

type_synonym source_range = "nat \<times> nat"

record opt_local =
  ol_id :: nat
  ol_name :: string
  ol_type :: type_ref
  ol_is_temp :: bool
  ol_range :: "source_range option"

datatype opt_constant =
    ConstUnit
  | ConstBool bool
  | ConstInt int
  | ConstFloat double
  | ConstString string

datatype operand = LocalOperand local_ref | ConstOperand opt_constant | ArgOperand nat

datatype rvalue_kind = RvUse | RvBinaryOp | RvUnaryOp | RvCall | RvAggregate | RvField | RvIndex

record rvalue =
  rv_kind :: rvalue_kind
  rv_op :: string
  rv_callee :: string
  rv_field_name :: string
  rv_operands :: "operand list"
  rv_result_type :: type_ref

datatype opt_statement_kind = StAssign | StStorageLive | StStorageDead | StNop

record opt_statement =
  os_kind :: opt_statement_kind
  os_dest :: local_ref
  os_rvalue :: rvalue
  os_range :: "source_range option"

datatype terminator_kind = TmGoto | TmSwitchBool | TmReturn | TmCall | TmAssert | TmUnreachable

record terminator =
  tm_kind :: terminator_kind
  tm_condition :: local_ref
  tm_return_value :: local_ref
  tm_target :: nat
  tm_then_block :: nat
  tm_else_block :: nat
  tm_callee :: string
  tm_args :: "operand list"
  tm_call_dest :: local_ref
  tm_call_resume :: nat
  tm_range :: "source_range option"

record basic_block =
  bb_id :: nat
  bb_label :: string
  bb_statements :: "opt_statement list"
  bb_terminator :: terminator

record opt_function =
  of_name :: string
  of_locals :: "opt_local list"
  of_arg_count :: nat
  of_blocks :: "basic_block list"
  of_return_type :: type_ref
  of_range :: "source_range option"

subsection \<open>Replacing uses\<close>

text \<open>A loop over a vector that changes elements and remembers whether it did.\<close>

definition map_flag :: "('a \<Rightarrow> 'a \<times> bool) \<Rightarrow> 'a list \<Rightarrow> 'a list \<times> bool" where
  "map_flag f xs = (map (fst \<circ> f) xs, list_ex (snd \<circ> f) xs)"

definition operand_uses_local :: "operand \<Rightarrow> local_ref \<Rightarrow> bool" where
  "operand_uses_local op ref \<longleftrightarrow> op = LocalOperand ref"

definition replace_operand :: "local_ref \<Rightarrow> operand \<Rightarrow> operand \<Rightarrow> operand \<times> bool" where
  "replace_operand from_local replacement op =
     (if operand_uses_local op from_local then (replacement, True) else (op, False))"

definition statement_operands ::
  "(operand \<Rightarrow> operand \<times> bool) \<Rightarrow> opt_statement \<Rightarrow> opt_statement \<times> bool" where
  "statement_operands f s =
     (let (ops, changed) = map_flag f (rv_operands (os_rvalue s))
      in (s\<lparr>os_rvalue := (os_rvalue s)\<lparr>rv_operands := ops\<rparr>\<rparr>, changed))"

definition replace_local :: "local_ref \<Rightarrow> operand \<Rightarrow> local_ref \<Rightarrow> local_ref \<times> bool" where
  "replace_local from_local replacement x =
     (case replacement of
        LocalOperand y \<Rightarrow> if x = from_local then (y, True) else (x, False)
      | _ \<Rightarrow> (x, False))"

definition replace_in_terminator :: "local_ref \<Rightarrow> operand \<Rightarrow> terminator \<Rightarrow> terminator \<times> bool" where
  "replace_in_terminator from_local replacement term =
     (let (c, changed_c) = replace_local from_local replacement (tm_condition term);
          (r, changed_r) = replace_local from_local replacement (tm_return_value term);
          (args, changed_a) = map_flag (replace_operand from_local replacement) (tm_args term)
      in (term\<lparr>tm_condition := c, tm_return_value := r, tm_args := args\<rparr>,
          changed_c \<or> changed_r \<or> changed_a))"

definition replace_in_block :: "local_ref \<Rightarrow> operand \<Rightarrow> basic_block \<Rightarrow> basic_block \<times> bool" where
  "replace_in_block from_local replacement b =
     (let (ss, changed_s) =
            map_flag (statement_operands (replace_operand from_local replacement)) (bb_statements b);
          (t, changed_t) = replace_in_terminator from_local replacement (bb_terminator b)
      in (b\<lparr>bb_statements := ss, bb_terminator := t\<rparr>, changed_s \<or> changed_t))"

definition replace_all_uses :: "opt_function \<Rightarrow> local_ref \<Rightarrow> operand \<Rightarrow> opt_function \<times> bool" where
  "replace_all_uses f from_local replacement =
     (let (bs, changed) = map_flag (replace_in_block from_local replacement) (of_blocks f)
      in (f\<lparr>of_blocks := bs\<rparr>, changed))"

subsection \<open>Counting uses\<close>

fun operand_locals :: "operand \<Rightarrow> local_ref list" where
  "operand_locals (LocalOperand x) = [x]"
| "operand_locals _ = []"

definition statement_uses :: "opt_statement \<Rightarrow> local_ref list" where
  "statement_uses s = concat (map operand_locals (rv_operands (os_rvalue s)))"

definition terminator_uses :: "terminator \<Rightarrow> local_ref list" where
  "terminator_uses t =
     (if tm_condition t \<noteq> no_local then [tm_condition t] else []) @
     (if tm_return_value t \<noteq> no_local then [tm_return_value t] else []) @
     concat (map operand_locals (tm_args t))"

definition block_uses :: "basic_block \<Rightarrow> local_ref list" where
  "block_uses b = concat (map statement_uses (bb_statements b)) @ terminator_uses (bb_terminator b)"

definition function_uses :: "opt_function \<Rightarrow> local_ref list" where
  "function_uses f = concat (map block_uses (of_blocks f))"

definition build_use_counts :: "opt_function \<Rightarrow> local_ref \<Rightarrow> nat" where
  "build_use_counts f x = count_list (function_uses f) x"

subsection \<open>The passes\<close>

definition is_constant_use :: "rvalue \<Rightarrow> opt_constant option" where
  "is_constant_use rv =
     (if rv_kind rv \<noteq> RvUse then None
      else case rv_operands rv of [ConstOperand c] \<Rightarrow> Some c | _ \<Rightarrow> None)"

definition is_local_copy :: "rvalue \<Rightarrow> local_ref option" where
  "is_local_copy rv =
     (if rv_kind rv \<noteq> RvUse then None
      else case rv_operands rv of [LocalOperand x] \<Rightarrow> Some x | _ \<Rightarrow> None)"

definition function_statements :: "opt_function \<Rightarrow> opt_statement list" where
  "function_statements f = concat (map bb_statements (of_blocks f))"

definition note_constant ::
  "opt_statement \<Rightarrow> (local_ref \<rightharpoonup> opt_constant) \<Rightarrow> (local_ref \<rightharpoonup> opt_constant)" where
  "note_constant s known =
     (if os_kind s \<noteq> StAssign then known
      else case is_constant_use (os_rvalue s) of
        Some c \<Rightarrow> known(os_dest s \<mapsto> c)
      | None \<Rightarrow> known)"

definition known_constants :: "opt_function \<Rightarrow> (local_ref \<rightharpoonup> opt_constant)" where
  "known_constants f = fold note_constant (function_statements f) Map.empty"

definition constant_operand :: "(local_ref \<rightharpoonup> opt_constant) \<Rightarrow> operand \<Rightarrow> operand \<times> bool" where
  "constant_operand known op =
     (case op of
        LocalOperand x \<Rightarrow> (case known x of Some c \<Rightarrow> (ConstOperand c, True) | None \<Rightarrow> (op, False))
      | _ \<Rightarrow> (op, False))"

definition constants_in_block :: "(local_ref \<rightharpoonup> opt_constant) \<Rightarrow> basic_block \<Rightarrow> basic_block \<times> bool" where
  "constants_in_block known b =
     (let (ss, changed_s) = map_flag (statement_operands (constant_operand known)) (bb_statements b);
          (args, changed_a) = map_flag (constant_operand known) (tm_args (bb_terminator b))
      in (b\<lparr>bb_statements := ss, bb_terminator := (bb_terminator b)\<lparr>tm_args := args\<rparr>\<rparr>,
          changed_s \<or> changed_a))"

definition constant_propagation :: "opt_function \<Rightarrow> opt_function \<times> bool" where
  "constant_propagation f =
     (let (bs, changed) = map_flag (constants_in_block (known_constants f)) (of_blocks f)
      in (f\<lparr>of_blocks := bs\<rparr>, changed))"

definition removable :: "opt_function \<Rightarrow> opt_statement \<Rightarrow> bool" where
  "removable f s \<longleftrightarrow> os_kind s = StAssign \<and> os_dest s \<noteq> no_local \<and>
     build_use_counts f (os_dest s) = 0 \<and> rv_kind (os_rvalue s) \<noteq> RvCall"

definition dead_store_elimination :: "opt_function \<Rightarrow> opt_function \<times> bool" where
  "dead_store_elimination f =
     (f\<lparr>of_blocks := map (\<lambda>b. b\<lparr>bb_statements := filter (\<lambda>s. \<not> removable f s) (bb_statements b)\<rparr>)
          (of_blocks f)\<rparr>,
      list_ex (removable f) (function_statements f))"

definition find_copies :: "opt_function \<Rightarrow> (local_ref \<times> local_ref) list" where
  "find_copies f =
     concat (map (\<lambda>s. if os_kind s \<noteq> StAssign then []
       else case is_local_copy (os_rvalue s) of Some y \<Rightarrow> [(os_dest s, y)] | None \<Rightarrow> [])
       (function_statements f))"

definition replace_copy :: "local_ref \<times> local_ref \<Rightarrow> opt_function \<times> bool \<Rightarrow> opt_function \<times> bool" where
  "replace_copy c fc =
     (let (dest, source) = c; (f, changed) = fc;
          (f', replaced) = replace_all_uses f dest (LocalOperand source)
      in (f', changed \<or> replaced))"

definition copy_propagation :: "opt_function \<Rightarrow> opt_function \<times> bool" where
  "copy_propagation f = fold replace_copy (find_copies f) (f, False)"

definition optimize_once :: "opt_function \<Rightarrow> opt_function \<times> bool" where
  "optimize_once f =
     (let (f1, c1) = constant_propagation f;
          (f2, c2) = copy_propagation f1;
          (f3, c3) = dead_store_elimination f2
      in (f3, c1 \<or> c2 \<or> c3))"

partial_function (option) optimize_loop :: "bool \<Rightarrow> opt_function \<Rightarrow> (opt_function \<times> bool) option" where
  "optimize_loop any_changed f =
     (let (f', changed) = optimize_once f
      in if changed then optimize_loop True f' else Some (f', any_changed))"

definition optimize :: "opt_function \<Rightarrow> (opt_function \<times> bool) option" where
  "optimize f = optimize_loop False f"

end
