(* ===== verification/Opt_Semantics.thy ===== *)
theory Opt_Semantics
  imports Opt_Passes
begin

section \<open>Runs of optimization functions\<close>

text \<open>
  What the passes have to preserve. The sources give the optimization IR no interpreter; its
  comments say what a statement and a terminator do, and this theory says the same as a
  relation. What constants, operators, calls and truth mean is a parameter, so the results hold
  for every meaning; a run that reads an undefined local or reaches \<open>Unreachable\<close> is stuck.

  The header says that locals are in SSA form and the lowering makes no loops: \<open>ssa\<close> and
  \<open>ranked_blocks\<close> state the two. On such a function a run defines each local at most once, which
  is what makes the propagation passes right.
\<close>

subsection \<open>Meaning\<close>

record ('v, 'w) opt_sem =
  sem_const :: "opt_constant \<Rightarrow> 'v"
  sem_arg :: "nat \<Rightarrow> 'v option"
  sem_rvalue :: "rvalue \<Rightarrow> 'v list \<Rightarrow> 'w \<Rightarrow> ('v \<times> 'w) option"
  sem_call :: "string \<Rightarrow> 'v list \<Rightarrow> 'w \<Rightarrow> ('v \<times> 'w) option"
  sem_truth :: "'v \<Rightarrow> bool option"

type_synonym 'v opt_env = "local_ref \<rightharpoonup> 'v"

datatype 'v opt_outcome = Returned "'v option" | AssertFailed

fun operand_value :: "('v, 'w) opt_sem \<Rightarrow> 'v opt_env \<Rightarrow> operand \<Rightarrow> 'v option" where
  "operand_value sem env (LocalOperand x) = env x"
| "operand_value sem env (ConstOperand c) = Some (sem_const sem c)"
| "operand_value sem env (ArgOperand i) = sem_arg sem i"

fun operand_values :: "('v, 'w) opt_sem \<Rightarrow> 'v opt_env \<Rightarrow> operand list \<Rightarrow> 'v list option" where
  "operand_values sem env [] = Some []"
| "operand_values sem env (op # ops) =
     (case operand_value sem env op of
        None \<Rightarrow> None
      | Some v \<Rightarrow> (case operand_values sem env ops of None \<Rightarrow> None | Some vs \<Rightarrow> Some (v # vs)))"

definition rvalue_result ::
  "('v, 'w) opt_sem \<Rightarrow> 'v opt_env \<Rightarrow> 'w \<Rightarrow> rvalue \<Rightarrow> ('v \<times> 'w) option" where
  "rvalue_result sem env w rv =
     (case operand_values sem env (rv_operands rv) of
        None \<Rightarrow> None
      | Some vs \<Rightarrow>
          if rv_kind rv = RvUse then (case vs of [v] \<Rightarrow> Some (v, w) | _ \<Rightarrow> None)
          else sem_rvalue sem (rv\<lparr>rv_operands := []\<rparr>) vs w)"

fun exec_opt_statement ::
  "('v, 'w) opt_sem \<Rightarrow> opt_statement \<Rightarrow> 'v opt_env \<times> 'w \<Rightarrow> ('v opt_env \<times> 'w) option" where
  "exec_opt_statement sem s (env, w) =
     (if os_kind s = StAssign then
        (case rvalue_result sem env w (os_rvalue s) of
           None \<Rightarrow> None
         | Some (v, w') \<Rightarrow> Some (env(os_dest s \<mapsto> v), w'))
      else Some (env, w))"

fun exec_opt_statements ::
  "('v, 'w) opt_sem \<Rightarrow> opt_statement list \<Rightarrow> 'v opt_env \<times> 'w \<Rightarrow> ('v opt_env \<times> 'w) option" where
  "exec_opt_statements sem [] st = Some st"
| "exec_opt_statements sem (s # ss) st =
     (case exec_opt_statement sem s st of None \<Rightarrow> None | Some st' \<Rightarrow> exec_opt_statements sem ss st')"

fun terminator_step ::
  "('v, 'w) opt_sem \<Rightarrow> terminator \<Rightarrow> 'v opt_env \<times> 'w
   \<Rightarrow> ((nat \<times> 'v opt_env \<times> 'w) + ('v opt_outcome \<times> 'w)) option" where
  "terminator_step sem t (env, w) =
     (case tm_kind t of
        TmGoto \<Rightarrow> Some (Inl (tm_target t, env, w))
      | TmSwitchBool \<Rightarrow>
          (case Option.bind (env (tm_condition t)) (sem_truth sem) of
             None \<Rightarrow> None
           | Some c \<Rightarrow> Some (Inl (if c then tm_then_block t else tm_else_block t, env, w)))
      | TmReturn \<Rightarrow>
          if tm_return_value t = no_local then Some (Inr (Returned None, w))
          else (case env (tm_return_value t) of
                  None \<Rightarrow> None
                | Some v \<Rightarrow> Some (Inr (Returned (Some v), w)))
      | TmCall \<Rightarrow>
          (case operand_values sem env (tm_args t) of
             None \<Rightarrow> None
           | Some vs \<Rightarrow>
               (case sem_call sem (tm_callee t) vs w of
                  None \<Rightarrow> None
                | Some (v, w') \<Rightarrow>
                    Some (Inl (tm_call_resume t,
                      (if tm_call_dest t = no_local then env else env(tm_call_dest t \<mapsto> v)), w'))))
      | TmAssert \<Rightarrow>
          (case Option.bind (env (tm_condition t)) (sem_truth sem) of
             None \<Rightarrow> None
           | Some True \<Rightarrow> Some (Inl (tm_target t, env, w))
           | Some False \<Rightarrow> Some (Inr (AssertFailed, w)))
      | TmUnreachable \<Rightarrow> None)"

definition exec_opt_block ::
  "('v, 'w) opt_sem \<Rightarrow> basic_block \<Rightarrow> 'v opt_env \<times> 'w
   \<Rightarrow> ((nat \<times> 'v opt_env \<times> 'w) + ('v opt_outcome \<times> 'w)) option" where
  "exec_opt_block sem b st =
     (case exec_opt_statements sem (bb_statements b) st of
        None \<Rightarrow> None
      | Some st' \<Rightarrow> terminator_step sem (bb_terminator b) st')"

inductive opt_run ::
  "('v, 'w) opt_sem \<Rightarrow> opt_function \<Rightarrow> nat \<Rightarrow> 'v opt_env \<times> 'w \<Rightarrow> 'v opt_outcome \<times> 'w \<Rightarrow> bool"
  for sem f where
  run_ends: "b < length (of_blocks f) \<Longrightarrow> exec_opt_block sem (of_blocks f ! b) st = Some (Inr res) \<Longrightarrow>
    opt_run sem f b st res"
| run_goes_on: "b < length (of_blocks f) \<Longrightarrow>
    exec_opt_block sem (of_blocks f ! b) st = Some (Inl (b', st')) \<Longrightarrow>
    opt_run sem f b' st' res \<Longrightarrow> opt_run sem f b st res"

definition arguments_env :: "'v list \<Rightarrow> 'v opt_env" where
  "arguments_env vs = (\<lambda>x. if x < length vs then Some (vs ! x) else None)"

definition opt_result ::
  "('v, 'w) opt_sem \<Rightarrow> opt_function \<Rightarrow> 'v list \<Rightarrow> 'w \<Rightarrow> 'v opt_outcome \<times> 'w \<Rightarrow> bool" where
  "opt_result sem f vs w res \<longleftrightarrow>
     length vs = of_arg_count f \<and> opt_run sem f 0 (arguments_env vs, w) res"

text \<open>Only calls have effects.\<close>

definition effects_in_calls :: "('v, 'w) opt_sem \<Rightarrow> bool" where
  "effects_in_calls sem \<longleftrightarrow>
     (\<forall>rv vs w v w'. rv_kind rv \<noteq> RvCall \<longrightarrow> sem_rvalue sem rv vs w = Some (v, w') \<longrightarrow> w' = w)"

subsection \<open>Functions in SSA form without loops\<close>

fun terminator_targets :: "terminator \<Rightarrow> nat list" where
  "terminator_targets t =
     (case tm_kind t of
        TmGoto \<Rightarrow> [tm_target t]
      | TmSwitchBool \<Rightarrow> [tm_then_block t, tm_else_block t]
      | TmCall \<Rightarrow> [tm_call_resume t]
      | TmAssert \<Rightarrow> [tm_target t]
      | TmReturn \<Rightarrow> []
      | TmUnreachable \<Rightarrow> [])"

declare terminator_targets.simps [simp del]

definition statement_dests :: "opt_statement list \<Rightarrow> local_ref list" where
  "statement_dests ss = map os_dest (filter (\<lambda>s. os_kind s = StAssign) ss)"

definition terminator_dests :: "terminator \<Rightarrow> local_ref list" where
  "terminator_dests t =
     (if tm_kind t = TmCall \<and> tm_call_dest t \<noteq> no_local then [tm_call_dest t] else [])"

definition block_dests :: "basic_block \<Rightarrow> local_ref list" where
  "block_dests b = statement_dests (bb_statements b) @ terminator_dests (bb_terminator b)"

definition function_dests :: "opt_function \<Rightarrow> local_ref list" where
  "function_dests f = concat (map block_dests (of_blocks f))"

definition ssa :: "opt_function \<Rightarrow> bool" where
  "ssa f \<longleftrightarrow> distinct (function_dests f) \<and>
     (\<forall>x \<in> set (function_dests f). of_arg_count f \<le> x \<and> x \<noteq> no_local) \<and>
     of_arg_count f \<le> no_local"

definition ranked_blocks :: "(nat \<Rightarrow> nat) \<Rightarrow> opt_function \<Rightarrow> bool" where
  "ranked_blocks rnk f \<longleftrightarrow>
     (\<forall>b < length (of_blocks f). \<forall>t \<in> set (terminator_targets (bb_terminator (of_blocks f ! b))).
        rnk t < rnk b)"

lemma statement_dests_simps [simp]:
  "statement_dests [] = []"
  "statement_dests (s # ss) = (if os_kind s = StAssign then os_dest s # statement_dests ss
     else statement_dests ss)"
  by (simp_all add: statement_dests_def)

text \<open>A local is defined in one block only, and there by one statement only.\<close>

lemma distinct_concat_nth:
  "distinct (concat xss) \<Longrightarrow> i < length xss \<Longrightarrow> j < length xss \<Longrightarrow> x \<in> set (xss ! i) \<Longrightarrow>
   x \<in> set (xss ! j) \<Longrightarrow> i = j"
proof (induction xss arbitrary: i j)
  case (Cons xs xss)
  have "x \<notin> set xs" if "k < length xss" "x \<in> set (xss ! k)" for k
  proof -
    have "x \<in> \<Union> (set ` set xss)" using that nth_mem [OF that(1)] by blast
    then show ?thesis using Cons.prems(1) by auto
  qed
  then show ?case
    using Cons.IH Cons.prems by (cases i; cases j) auto
qed simp

lemma distinct_dests_inj:
  assumes "distinct (map f xs)" "x \<in> set xs" "y \<in> set xs" "f x = f y"
  shows "x = y"
  using assms by (auto simp: distinct_map dest: inj_onD)

end
