(* ===== verification/Opt_Correct.thy ===== *)
theory Opt_Correct
  imports Opt_Semantics
begin

section \<open>The passes keep the runs\<close>

text \<open>
  Constant and copy propagation rename the uses of a function; renaming keeps a run when every
  use keeps its value in the environments that the run goes through. On an SSA function without
  loops a run never defines a local twice, so a local that was assigned another operand agrees
  with it as long as it is defined. Dead store elimination keeps a run because two environments
  that agree on the used locals cannot be told apart.

  The loop of \<open>optimize\<close> comes to an end when the copies of the function are acyclic
  (\<open>ranked_copies\<close>): every change lowers the rank of a use or removes a statement. On a local that
  is copied to itself it does not.
\<close>

subsection \<open>What a run defines\<close>

definition later_dests :: "(nat \<Rightarrow> nat) \<Rightarrow> opt_function \<Rightarrow> nat \<Rightarrow> opt_statement list \<Rightarrow> local_ref set" where
  "later_dests rnk f b ss =
     set (statement_dests ss) \<union> set (terminator_dests (bb_terminator (of_blocks f ! b))) \<union>
     (\<Union>b' \<in> {b'. b' < length (of_blocks f) \<and> rnk b' < rnk b}. set (block_dests (of_blocks f ! b')))"

definition uses_agree :: "('v, 'w) opt_sem \<Rightarrow> opt_function \<Rightarrow> 'v opt_env \<Rightarrow> bool" where
  "uses_agree sem f env \<longleftrightarrow>
     (\<forall>s \<in> set (function_statements f). \<forall>op v.
        os_kind s = StAssign \<longrightarrow> rv_kind (os_rvalue s) = RvUse \<longrightarrow> rv_operands (os_rvalue s) = [op] \<longrightarrow>
        env (os_dest s) = Some v \<longrightarrow> operand_value sem env op = Some v)"

definition run_inv ::
  "('v, 'w) opt_sem \<Rightarrow> (nat \<Rightarrow> nat) \<Rightarrow> opt_function \<Rightarrow> nat \<Rightarrow> opt_statement list \<Rightarrow> 'v opt_env \<Rightarrow> bool" where
  "run_inv sem rnk f b ss env \<longleftrightarrow>
     (\<forall>x \<in> later_dests rnk f b ss. env x = None) \<and> uses_agree sem f env \<and> env no_local = None"

lemma function_statement_in:
  "b < length (of_blocks f) \<Longrightarrow> s \<in> set (bb_statements (of_blocks f ! b)) \<Longrightarrow>
   s \<in> set (function_statements f)"
  by (auto simp: function_statements_def)

lemma function_statement_block:
  assumes "s \<in> set (function_statements f)"
  obtains b where "b < length (of_blocks f)" "s \<in> set (bb_statements (of_blocks f ! b))"
proof -
  obtain blk where "blk \<in> set (of_blocks f)" "s \<in> set (bb_statements blk)"
    using assms by (auto simp: function_statements_def)
  then show thesis using that by (metis in_set_conv_nth)
qed

lemma function_dest_in:
  "b < length (of_blocks f) \<Longrightarrow> x \<in> set (block_dests (of_blocks f ! b)) \<Longrightarrow>
   x \<in> set (function_dests f)"
  by (auto simp: function_dests_def)

lemma ssa_dest: "ssa f \<Longrightarrow> x \<in> set (function_dests f) \<Longrightarrow> x \<noteq> no_local \<and> of_arg_count f \<le> x"
  by (simp add: ssa_def)

lemma ssa_one_block:
  assumes "ssa f" "b < length (of_blocks f)" "b' < length (of_blocks f)"
    and "x \<in> set (block_dests (of_blocks f ! b))" "x \<in> set (block_dests (of_blocks f ! b'))"
  shows "b = b'"
  using assms distinct_concat_nth [of "map block_dests (of_blocks f)" b b' x]
  by (simp add: ssa_def function_dests_def)

lemma ssa_block_distinct:
  assumes "ssa f" "b < length (of_blocks f)"
  shows "distinct (block_dests (of_blocks f ! b))"
proof -
  have "block_dests (of_blocks f ! b) \<in> set (map block_dests (of_blocks f))"
    using assms(2) by simp
  then show ?thesis
    using assms(1) unfolding ssa_def function_dests_def by (meson distinct_concat_iff)
qed

lemma ssa_one_statement:
  assumes "ssa f" "s \<in> set (function_statements f)" "s' \<in> set (function_statements f)"
    and "os_kind s = StAssign" "os_kind s' = StAssign" "os_dest s = os_dest s'"
  shows "s = s'"
proof -
  obtain b b' where b: "b < length (of_blocks f)" "s \<in> set (bb_statements (of_blocks f ! b))"
    and b': "b' < length (of_blocks f)" "s' \<in> set (bb_statements (of_blocks f ! b'))"
    using function_statement_block [OF assms(2)] function_statement_block [OF assms(3)] by metis
  have "os_dest s \<in> set (block_dests (of_blocks f ! b))" "os_dest s' \<in> set (block_dests (of_blocks f ! b'))"
    using b b' assms(4,5) by (auto simp: block_dests_def statement_dests_def)
  then have "b = b'"
    using ssa_one_block [OF assms(1) b(1) b'(1)] assms(6) by simp
  moreover have "distinct (map os_dest (filter (\<lambda>s. os_kind s = StAssign) (bb_statements (of_blocks f ! b))))"
    using ssa_block_distinct [OF assms(1) b(1)] by (simp add: block_dests_def statement_dests_def)
  ultimately show ?thesis
    using b b' assms(4-6) by (auto intro: distinct_dests_inj)
qed

text \<open>An assignment of a run defines a local that was undefined, and agrees with its operand.\<close>

lemma uses_agree_define:
  assumes "uses_agree sem f env" "env x = None"
    and "\<And>s op. s \<in> set (function_statements f) \<Longrightarrow> os_kind s = StAssign \<Longrightarrow> os_dest s = x \<Longrightarrow>
      rv_kind (os_rvalue s) = RvUse \<Longrightarrow> rv_operands (os_rvalue s) = [op] \<Longrightarrow>
      operand_value sem env op = Some v"
  shows "uses_agree sem f (env(x \<mapsto> v))"
proof -
  have keep: "operand_value sem (env(x \<mapsto> v)) op = Some u" if "operand_value sem env op = Some u" for op u
    using that assms(2) by (cases op) auto
  show ?thesis
    unfolding uses_agree_def
  proof (intro ballI allI impI)
    fix s op u
    assume s: "s \<in> set (function_statements f)" "os_kind s = StAssign" "rv_kind (os_rvalue s) = RvUse"
      "rv_operands (os_rvalue s) = [op]" and u: "(env(x \<mapsto> v)) (os_dest s) = Some u"
    show "operand_value sem (env(x \<mapsto> v)) op = Some u"
    proof (cases "os_dest s = x")
      case True
      then show ?thesis using keep assms(3) s u by simp
    next
      case False
      then show ?thesis using keep assms(1) s u by (simp add: uses_agree_def)
    qed
  qed
qed

lemma run_inv_statement:
  assumes f: "ssa f" "b < length (of_blocks f)"
    and ss: "bb_statements (of_blocks f ! b) = pre @ s # ss"
    and inv: "run_inv sem rnk f b (s # ss) env"
    and ex: "exec_opt_statement sem s (env, w) = Some (env', w')"
  shows "run_inv sem rnk f b ss env'"
proof (cases "os_kind s = StAssign")
  case False
  then show ?thesis
    using inv ex by (auto simp: run_inv_def later_dests_def)
next
  case True
  then obtain v where v: "rvalue_result sem env w (os_rvalue s) = Some (v, w')"
    and env': "env' = env(os_dest s \<mapsto> v)"
    using ex by (auto split: option.splits)
  have s: "s \<in> set (function_statements f)"
    using ss f(2) by (auto intro: function_statement_in)
  have d: "os_dest s \<in> set (block_dests (of_blocks f ! b))"
    using True ss by (auto simp: block_dests_def statement_dests_def)
  have fresh: "env (os_dest s) = None"
    using inv True by (simp add: run_inv_def later_dests_def)
  have "os_dest s \<notin> later_dests rnk f b ss"
    using ssa_block_distinct [OF f] ssa_one_block [OF f(1) f(2) _ d] True ss
    by (auto simp: later_dests_def block_dests_def statement_dests_def)
  moreover have "uses_agree sem f env'"
    unfolding env'
  proof (rule uses_agree_define)
    fix s' op
    assume s': "s' \<in> set (function_statements f)" "os_kind s' = StAssign" "os_dest s' = os_dest s"
      and use: "rv_kind (os_rvalue s') = RvUse" "rv_operands (os_rvalue s') = [op]"
    have "s' = s" by (rule ssa_one_statement [OF f(1) s'(1) s s'(2) True s'(3)])
    then show "operand_value sem env op = Some v"
      using v use by (auto simp: rvalue_result_def split: option.splits)
  qed (use inv fresh in \<open>simp_all add: run_inv_def\<close>)
  moreover have "os_dest s \<noteq> no_local"
    using ssa_dest [OF f(1) function_dest_in [OF f(2) d]] by simp
  ultimately show ?thesis
    using inv unfolding run_inv_def env' by (auto simp: later_dests_def)
qed

lemma run_inv_mono:
  assumes "run_inv sem rnk f b [] env" "rnk b' < rnk b" "b' < length (of_blocks f)"
  shows "run_inv sem rnk f b' (bb_statements (of_blocks f ! b')) env"
  using assms by (fastforce simp: run_inv_def later_dests_def block_dests_def)

lemma terminator_step_next:
  assumes "terminator_step sem t (env, w) = Some (Inl (b', env', w'))"
  shows "b' \<in> set (terminator_targets t) \<and>
    (env' = env \<or> (\<exists>v. tm_kind t = TmCall \<and> tm_call_dest t \<noteq> no_local \<and> env' = env(tm_call_dest t \<mapsto> v)))"
  using assms
  by (auto simp: terminator_targets.simps split: terminator_kind.splits option.splits bool.splits if_splits)

lemma run_inv_terminator:
  assumes f: "ssa f" "ranked_blocks rnk f" "b < length (of_blocks f)" "b' < length (of_blocks f)"
    and inv: "run_inv sem rnk f b [] env"
    and ex: "terminator_step sem (bb_terminator (of_blocks f ! b)) (env, w) = Some (Inl (b', env', w'))"
  shows "run_inv sem rnk f b' (bb_statements (of_blocks f ! b')) env'"
proof -
  let ?t = "bb_terminator (of_blocks f ! b)"
  have lower: "rnk b' < rnk b"
    using terminator_step_next [OF ex] f(2,3) by (simp add: ranked_blocks_def)
  note inv' = run_inv_mono [OF inv lower f(4)]
  show ?thesis
  proof (cases "env' = env")
    case False
    then obtain v where c: "tm_kind ?t = TmCall" "tm_call_dest ?t \<noteq> no_local"
      and env': "env' = env(tm_call_dest ?t \<mapsto> v)"
      using terminator_step_next [OF ex] by blast
    have d: "tm_call_dest ?t \<in> set (block_dests (of_blocks f ! b))"
      using c by (simp add: block_dests_def terminator_dests_def)
    have "tm_call_dest ?t \<notin> later_dests rnk f b' (bb_statements (of_blocks f ! b'))"
    proof
      assume "tm_call_dest ?t \<in> later_dests rnk f b' (bb_statements (of_blocks f ! b'))"
      then obtain b'' where "b'' < length (of_blocks f)" "rnk b'' \<le> rnk b'"
        "tm_call_dest ?t \<in> set (block_dests (of_blocks f ! b''))"
        using f(4) by (auto simp: later_dests_def block_dests_def)
      then show False
        using ssa_one_block [OF f(1,3) _ d, of b''] lower by simp
    qed
    moreover have "uses_agree sem f env'"
      unfolding env'
    proof (rule uses_agree_define)
      fix s op
      assume s: "s \<in> set (function_statements f)" "os_kind s = StAssign" "os_dest s = tm_call_dest ?t"
      then obtain b'' where b'': "b'' < length (of_blocks f)" "s \<in> set (bb_statements (of_blocks f ! b''))"
        using function_statement_block by blast
      have "tm_call_dest ?t \<in> set (statement_dests (bb_statements (of_blocks f ! b'')))"
        using b''(2) s by (force simp: statement_dests_def)
      moreover from this have "b = b''"
        using ssa_one_block [OF f(1,3) b''(1) d] by (simp add: block_dests_def)
      ultimately have False
        using ssa_block_distinct [OF f(1,3)] c by (auto simp: block_dests_def terminator_dests_def)
      then show "operand_value sem env op = Some v" ..
    qed (use inv c in \<open>simp_all add: run_inv_def later_dests_def terminator_dests_def\<close>)
    ultimately show ?thesis
      using inv' c unfolding run_inv_def env' by auto
  qed (simp add: inv')
qed

lemma run_inv_start:
  assumes "ssa f" "of_blocks f \<noteq> []" "length vs = of_arg_count f"
  shows "run_inv sem rnk f 0 (bb_statements (of_blocks f ! 0)) (arguments_env vs)"
proof -
  have undef: "arguments_env vs x = None" if "x \<in> set (function_dests f)" for x
    using ssa_dest [OF assms(1) that] assms(3) by (simp add: arguments_env_def)
  have "x \<in> set (function_dests f)" if "x \<in> later_dests rnk f 0 (bb_statements (of_blocks f ! 0))" for x
    using that assms(2) by (auto simp: later_dests_def block_dests_def intro: function_dest_in)
  moreover have "uses_agree sem f (arguments_env vs)"
    unfolding uses_agree_def
  proof (intro ballI allI impI)
    fix s op v
    assume s: "s \<in> set (function_statements f)" "os_kind s = StAssign"
      and v: "arguments_env vs (os_dest s) = Some v"
    have "os_dest s \<in> set (function_dests f)"
      using s by (fastforce simp: function_statements_def function_dests_def block_dests_def statement_dests_def)
    then show "operand_value sem (arguments_env vs) op = Some v"
      using undef v by simp
  qed
  ultimately show ?thesis
    using undef assms(1,3) by (auto simp: run_inv_def arguments_env_def ssa_def)
qed

subsection \<open>Renaming uses\<close>

definition rename_statement :: "(operand \<Rightarrow> operand) \<Rightarrow> opt_statement \<Rightarrow> opt_statement" where
  "rename_statement g s = s\<lparr>os_rvalue := (os_rvalue s)\<lparr>rv_operands := map g (rv_operands (os_rvalue s))\<rparr>\<rparr>"

definition rename_terminator ::
  "(operand \<Rightarrow> operand) \<Rightarrow> (local_ref \<Rightarrow> local_ref) \<Rightarrow> terminator \<Rightarrow> terminator" where
  "rename_terminator g k t =
     t\<lparr>tm_condition := k (tm_condition t), tm_return_value := k (tm_return_value t),
       tm_args := map g (tm_args t)\<rparr>"

definition rename_block ::
  "(operand \<Rightarrow> operand) \<Rightarrow> (local_ref \<Rightarrow> local_ref) \<Rightarrow> basic_block \<Rightarrow> basic_block" where
  "rename_block g k b = b\<lparr>bb_statements := map (rename_statement g) (bb_statements b),
     bb_terminator := rename_terminator g k (bb_terminator b)\<rparr>"

definition rename ::
  "(operand \<Rightarrow> operand) \<Rightarrow> (local_ref \<Rightarrow> local_ref) \<Rightarrow> opt_function \<Rightarrow> opt_function" where
  "rename g k f = f\<lparr>of_blocks := map (rename_block g k) (of_blocks f)\<rparr>"

lemma rename_blocks [simp]: "of_blocks (rename g k f) = map (rename_block g k) (of_blocks f)"
  by (simp add: rename_def)

lemma rename_id: "rename id id f = f"
proof -
  have "rename_statement id s = s" for s by (simp add: rename_statement_def)
  moreover have "rename_terminator id id t = t" for t by (simp add: rename_terminator_def)
  ultimately have "rename_block id id b = b" for b by (simp add: rename_block_def map_idI)
  then show ?thesis by (simp add: rename_def map_idI)
qed

lemma rename_rename: "rename g' k' (rename g k f) = rename (g' \<circ> g) (k' \<circ> k) f"
  by (simp add: rename_def rename_block_def rename_statement_def rename_terminator_def)

text \<open>A renaming that keeps the values of defined uses.\<close>

definition keeps ::
  "('v, 'w) opt_sem \<Rightarrow> (operand \<Rightarrow> operand) \<Rightarrow> (local_ref \<Rightarrow> local_ref) \<Rightarrow> 'v opt_env \<Rightarrow> bool" where
  "keeps sem g k env \<longleftrightarrow>
     (\<forall>op v. operand_value sem env op = Some v \<longrightarrow> operand_value sem env (g op) = Some v) \<and>
     (\<forall>x v. env x = Some v \<longrightarrow> env (k x) = Some v) \<and> k no_local = no_local \<and> env no_local = None"

lemma keeps_comp:
  "keeps sem g k env \<Longrightarrow> keeps sem g' k' env \<Longrightarrow> keeps sem (g' \<circ> g) (k' \<circ> k) env"
  by (simp add: keeps_def)

lemma keeps_operands:
  "keeps sem g k env \<Longrightarrow> operand_values sem env ops = Some vs \<Longrightarrow>
   operand_values sem env (map g ops) = Some vs"
  by (induction ops arbitrary: vs) (auto simp: keeps_def split: option.splits)

lemma keeps_statement:
  assumes "keeps sem g k env" "exec_opt_statement sem s (env, w) = Some st"
  shows "exec_opt_statement sem (rename_statement g s) (env, w) = Some st"
  using assms(2) keeps_operands [OF assms(1)]
  by (auto simp: rename_statement_def rvalue_result_def split: option.splits if_splits list.splits)

lemma keeps_terminator:
  assumes k: "keeps sem g k env" and ex: "terminator_step sem t (env, w) = Some res"
  shows "terminator_step sem (rename_terminator g k t) (env, w) = Some res"
proof -
  have "env (k x) = Some v" if "env x = Some v" for x v
    using k that by (simp add: keeps_def)
  moreover have "k x \<noteq> no_local" if "env x = Some v" for x v
    using k that by (auto simp: keeps_def) (metis option.distinct(1))
  moreover have "k no_local = no_local" using k by (simp add: keeps_def)
  ultimately show ?thesis
    using ex keeps_operands [OF k, of "tm_args t"]
    by (auto simp: rename_terminator_def bind_eq_Some_conv split: terminator_kind.splits option.splits
        bool.splits if_splits)
qed

lemma rename_statements:
  assumes f: "ssa f" "b < length (of_blocks f)"
    and ss: "bb_statements (of_blocks f ! b) = pre @ ss"
    and inv: "run_inv sem rnk f b ss env"
    and keeps: "\<And>env'. uses_agree sem f env' \<Longrightarrow> env' no_local = None \<Longrightarrow> keeps sem g k env'"
    and ex: "exec_opt_statements sem ss (env, w) = Some (env', w')"
  shows "exec_opt_statements sem (map (rename_statement g) ss) (env, w) = Some (env', w') \<and>
    run_inv sem rnk f b [] env'"
  using ss inv ex
proof (induction ss arbitrary: pre env w)
  case (Cons s ss)
  obtain env1 w1 where 1: "exec_opt_statement sem s (env, w) = Some (env1, w1)"
    and 2: "exec_opt_statements sem ss (env1, w1) = Some (env', w')"
    using Cons.prems(3) by (auto split: option.splits)
  have "exec_opt_statement sem (rename_statement g s) (env, w) = Some (env1, w1)"
    using keeps_statement [OF keeps 1] Cons.prems(2) by (simp add: run_inv_def)
  moreover have "run_inv sem rnk f b ss env1"
    by (rule run_inv_statement [OF f Cons.prems(1,2) 1])
  ultimately show ?case
    using Cons.IH [of "pre @ [s]" env1 w1] Cons.prems(1) 2 by simp
qed simp

lemma rename_run:
  assumes f: "ssa f" "ranked_blocks rnk f"
    and keeps: "\<And>env. uses_agree sem f env \<Longrightarrow> env no_local = None \<Longrightarrow> keeps sem g k env"
    and run: "opt_run sem f b st res"
    and inv: "run_inv sem rnk f b (bb_statements (of_blocks f ! b)) (fst st)"
  shows "opt_run sem (rename g k f) b st res"
  using run inv
proof (induction rule: opt_run.induct)
  case (run_ends b st res)
  obtain env w where st: "st = (env, w)" by force
  obtain env1 w1 where 1: "exec_opt_statements sem (bb_statements (of_blocks f ! b)) (env, w) = Some (env1, w1)"
    and 2: "terminator_step sem (bb_terminator (of_blocks f ! b)) (env1, w1) = Some (Inr res)"
    using run_ends.hyps(2) by (auto simp: exec_opt_block_def st split: option.splits)
  have 3: "exec_opt_statements sem (map (rename_statement g) (bb_statements (of_blocks f ! b))) (env, w) =
      Some (env1, w1) \<and> run_inv sem rnk f b [] env1"
    by (rule rename_statements [OF f(1) run_ends.hyps(1) _ _ keeps 1, where pre = "[]"])
       (use run_ends.prems st in simp_all)
  then have "terminator_step sem (rename_terminator g k (bb_terminator (of_blocks f ! b))) (env1, w1) = Some (Inr res)"
    by (intro keeps_terminator [OF keeps 2]) (simp_all add: run_inv_def)
  then show ?case
    using 3 run_ends.hyps(1) by (intro opt_run.run_ends) (simp_all add: exec_opt_block_def rename_block_def st)
next
  case (run_goes_on b st b' st' res)
  obtain env w where st: "st = (env, w)" by force
  obtain env' w' where st': "st' = (env', w')" by force
  obtain env1 w1 where 1: "exec_opt_statements sem (bb_statements (of_blocks f ! b)) (env, w) = Some (env1, w1)"
    and 2: "terminator_step sem (bb_terminator (of_blocks f ! b)) (env1, w1) = Some (Inl (b', env', w'))"
    using run_goes_on.hyps(2) by (auto simp: exec_opt_block_def st st' split: option.splits)
  have 3: "exec_opt_statements sem (map (rename_statement g) (bb_statements (of_blocks f ! b))) (env, w) =
      Some (env1, w1) \<and> run_inv sem rnk f b [] env1"
    by (rule rename_statements [OF f(1) run_goes_on.hyps(1) _ _ keeps 1, where pre = "[]"])
       (use run_goes_on.prems st in simp_all)
  then have 4: "terminator_step sem (rename_terminator g k (bb_terminator (of_blocks f ! b))) (env1, w1) =
      Some (Inl (b', env', w'))"
    by (intro keeps_terminator [OF keeps 2]) (simp_all add: run_inv_def)
  have "b' < length (of_blocks f)"
    using run_goes_on.hyps(3) by (cases rule: opt_run.cases) auto
  then have "run_inv sem rnk f b' (bb_statements (of_blocks f ! b')) env'"
    using run_inv_terminator [OF f run_goes_on.hyps(1) _ _ 2] 3 by simp
  then have "opt_run sem (rename g k f) b' st' res"
    using run_goes_on.IH by (simp add: st')
  then show ?case
    using 3 4 run_goes_on.hyps(1)
    by (intro opt_run.run_goes_on [of b _ _ _ b' st']) (simp_all add: exec_opt_block_def rename_block_def st st')
qed

lemma rename_result:
  assumes f: "ssa f" "ranked_blocks rnk f"
    and keeps: "\<And>env. uses_agree sem f env \<Longrightarrow> env no_local = None \<Longrightarrow> keeps sem g k env"
    and run: "opt_result sem f vs w res"
  shows "opt_result sem (rename g k f) vs w res"
proof -
  have r: "opt_run sem f 0 (arguments_env vs, w) res" and len: "length vs = of_arg_count f"
    using run by (simp_all add: opt_result_def)
  have "of_blocks f \<noteq> []"
    using r by (cases rule: opt_run.cases) auto
  then have "run_inv sem rnk f 0 (bb_statements (of_blocks f ! 0)) (fst (arguments_env vs, w))"
    using run_inv_start [OF f(1) _ len] by simp
  from rename_run [OF f keeps r this] show ?thesis
    using len by (simp add: opt_result_def rename_def)
qed

subsection \<open>Propagation renames\<close>

lemma fst_statement_operands [simp]: "fst (statement_operands h s) = rename_statement (fst \<circ> h) s"
  by (simp add: statement_operands_def map_flag_def rename_statement_def)

lemma constant_propagation_rename:
  "fst (constant_propagation f) = rename (fst \<circ> constant_operand (known_constants f)) id f"
  by (simp add: constant_propagation_def map_flag_def rename_def rename_block_def rename_terminator_def
      constants_in_block_def comp_def)

definition subst_operand :: "local_ref \<Rightarrow> local_ref \<Rightarrow> operand \<Rightarrow> operand" where
  "subst_operand d y op = (if op = LocalOperand d then LocalOperand y else op)"

definition subst_local :: "local_ref \<Rightarrow> local_ref \<Rightarrow> local_ref \<Rightarrow> local_ref" where
  "subst_local d y x = (if x = d then y else x)"

lemma replace_all_uses_rename:
  "fst (replace_all_uses f d (LocalOperand y)) = rename (subst_operand d y) (subst_local d y) f"
proof -
  have "fst \<circ> replace_operand d (LocalOperand y) = subst_operand d y"
    by (auto simp: replace_operand_def subst_operand_def operand_uses_local_def)
  moreover have "fst (replace_local d (LocalOperand y) x) = subst_local d y x" for x
    by (simp add: replace_local_def subst_local_def)
  ultimately show ?thesis
    by (simp add: replace_all_uses_def map_flag_def rename_def rename_block_def rename_terminator_def
        replace_in_block_def replace_in_terminator_def case_prod_beta comp_def)
qed

lemma known_constantsD:
  assumes "known_constants f x = Some c"
  shows "\<exists>s \<in> set (function_statements f). os_kind s = StAssign \<and> os_dest s = x \<and>
    rv_kind (os_rvalue s) = RvUse \<and> rv_operands (os_rvalue s) = [ConstOperand c]"
proof -
  have "fold note_constant ss known x = Some c \<Longrightarrow>
      known x = Some c \<or> (\<exists>s \<in> set ss. os_kind s = StAssign \<and> os_dest s = x \<and>
        rv_kind (os_rvalue s) = RvUse \<and> rv_operands (os_rvalue s) = [ConstOperand c])" for ss known
  proof (induction ss arbitrary: known)
    case (Cons s ss)
    from Cons.IH [of "note_constant s known"] Cons.prems show ?case
      by (auto simp: note_constant_def is_constant_use_def split: if_splits option.splits list.splits operand.splits)
  qed simp
  from this [of "function_statements f" Map.empty] show ?thesis
    using assms by (simp add: known_constants_def)
qed

lemma is_local_copy_iff:
  "is_local_copy rv = Some y \<longleftrightarrow> rv_kind rv = RvUse \<and> rv_operands rv = [LocalOperand y]"
  by (auto simp: is_local_copy_def split: list.splits operand.splits)

definition is_copy :: "opt_function \<Rightarrow> local_ref \<Rightarrow> local_ref \<Rightarrow> bool" where
  "is_copy f x y \<longleftrightarrow> (\<exists>s \<in> set (function_statements f). os_kind s = StAssign \<and> os_dest s = x \<and>
     rv_kind (os_rvalue s) = RvUse \<and> rv_operands (os_rvalue s) = [LocalOperand y])"

lemma find_copies_iff: "(x, y) \<in> set (find_copies f) \<longleftrightarrow> is_copy f x y"
proof
  assume "(x, y) \<in> set (find_copies f)"
  then obtain s where "s \<in> set (function_statements f)" "os_kind s = StAssign"
    "is_local_copy (os_rvalue s) = Some y" "os_dest s = x"
    by (auto simp: find_copies_def split: if_splits option.splits)
  then show "is_copy f x y" by (auto simp: is_copy_def is_local_copy_iff)
next
  assume "is_copy f x y"
  then show "(x, y) \<in> set (find_copies f)"
    by (force simp: is_copy_def find_copies_def simp flip: is_local_copy_iff)
qed

lemma constants_keep:
  assumes "uses_agree sem f env" "env no_local = None"
  shows "keeps sem (fst \<circ> constant_operand (known_constants f)) id env"
proof -
  have "Some (sem_const sem c) = env x" if "known_constants f x = Some c" "env x = Some v" for x c v
    using known_constantsD [OF that(1)] assms(1) that(2) by (fastforce simp: uses_agree_def)
  then show ?thesis
    using assms(2)
    by (auto simp: keeps_def constant_operand_def split: operand.splits option.splits)
qed

lemma copy_keeps:
  assumes "uses_agree sem f env" "env no_local = None" "(d, y) \<in> set (find_copies f)" "d \<noteq> no_local"
  shows "keeps sem (subst_operand d y) (subst_local d y) env"
proof -
  have "env y = Some v" if "env d = Some v" for v
    using assms(1,3) that by (fastforce simp: uses_agree_def find_copies_iff is_copy_def)
  then show ?thesis
    using assms(2,4) by (auto simp: keeps_def subst_operand_def subst_local_def)
qed

lemma fold_replace_copy_rename:
  assumes "set cs \<subseteq> set (find_copies f0)" "\<And>d y. (d, y) \<in> set cs \<Longrightarrow> d \<noteq> no_local"
  shows "\<exists>g k. fst (fold replace_copy cs (f, c)) = rename g k f \<and>
    (\<forall>sem env. uses_agree sem f0 env \<longrightarrow> env no_local = None \<longrightarrow>
       keeps (sem :: ('v, 'w) opt_sem) g k env)"
  using assms
proof (induction cs arbitrary: f c)
  case Nil
  show ?case
    using rename_id [of f, symmetric] by (intro exI [of _ id]) (auto simp: keeps_def id_def)
next
  case (Cons dy cs)
  obtain d y where dy: "dy = (d, y)" by force
  obtain f1 c1 where 1: "replace_copy dy (f, c) = (f1, c1)" by force
  have f1: "f1 = rename (subst_operand d y) (subst_local d y) f"
    using 1 replace_all_uses_rename [of f d y] by (simp add: replace_copy_def dy case_prod_beta Let_def)
  obtain g k where 2: "fst (fold replace_copy cs (f1, c1)) = rename g k f1"
    and keep: "\<And>(sem :: ('v, 'w) opt_sem) env. uses_agree sem f0 env \<Longrightarrow> env no_local = None \<Longrightarrow> keeps sem g k env"
    using Cons.IH [of f1 c1] Cons.prems by auto
  have "fst (fold replace_copy (dy # cs) (f, c)) = rename g k f1"
    using 2 by (simp add: 1)
  then have "fst (fold replace_copy (dy # cs) (f, c)) =
      rename (g \<circ> subst_operand d y) (k \<circ> subst_local d y) f"
    unfolding f1 rename_rename .
  moreover have "keeps sem (g \<circ> subst_operand d y) (k \<circ> subst_local d y) env"
    if "uses_agree sem f0 env" "env no_local = None" for sem :: "('v, 'w) opt_sem" and env
    using keeps_comp [OF copy_keeps [OF that, of d y] keep [OF that]] Cons.prems dy by auto
  ultimately show ?case by blast
qed

lemma find_copies_dest:
  assumes "ssa f" "(d, y) \<in> set (find_copies f)"
  shows "d \<noteq> no_local"
proof -
  have "d \<in> set (function_dests f)"
    using assms(2) unfolding find_copies_iff is_copy_def
    by (fastforce simp: function_statements_def function_dests_def block_dests_def statement_dests_def)
  then show ?thesis using ssa_dest [OF assms(1)] by simp
qed

lemma constant_propagation_result:
  assumes "ssa f" "ranked_blocks rnk f" "opt_result sem f vs w res"
  shows "opt_result sem (fst (constant_propagation f)) vs w res"
  unfolding constant_propagation_rename
  by (rule rename_result [OF assms(1,2) constants_keep assms(3)])

lemma copy_propagation_rename:
  assumes "ssa f"
  shows "\<exists>g k. fst (copy_propagation f) = rename g k f \<and>
    (\<forall>sem env. uses_agree sem f env \<longrightarrow> env no_local = None \<longrightarrow> keeps (sem :: ('v, 'w) opt_sem) g k env)"
  unfolding copy_propagation_def
  using fold_replace_copy_rename [of "find_copies f" f f False] find_copies_dest [OF assms] by blast

lemma copy_propagation_result:
  assumes "ssa f" "ranked_blocks rnk f" "opt_result (sem :: ('v, 'w) opt_sem) f vs w res"
  shows "opt_result sem (fst (copy_propagation f)) vs w res"
proof -
  obtain g k where eq: "fst (copy_propagation f) = rename g k f"
    and keep: "\<And>(sem :: ('v, 'w) opt_sem) env. uses_agree sem f env \<Longrightarrow> env no_local = None \<Longrightarrow> keeps sem g k env"
    using copy_propagation_rename [OF assms(1), where 'v = 'v and 'w = 'w] by blast
  show ?thesis
    unfolding eq by (rule rename_result [OF assms(1,2) keep assms(3)])
qed

subsection \<open>Dead stores\<close>

lemma operand_values_agree:
  "(\<And>x. x \<in> set (concat (map operand_locals ops)) \<Longrightarrow> env x = env' x) \<Longrightarrow>
   operand_values sem env ops = operand_values sem env' ops"
proof (induction ops)
  case (Cons op ops)
  have "operand_value sem env op = operand_value sem env' op"
    using Cons.prems by (cases op) auto
  then show ?case using Cons by (simp split: option.split)
qed simp

lemma rvalue_result_agree:
  "(\<And>x. x \<in> set (concat (map operand_locals (rv_operands rv))) \<Longrightarrow> env x = env' x) \<Longrightarrow>
   rvalue_result sem env w rv = rvalue_result sem env' w rv"
  using operand_values_agree [of "rv_operands rv" env env' sem] by (simp add: rvalue_result_def)

definition env_agree :: "local_ref set \<Rightarrow> 'v opt_env \<Rightarrow> 'v opt_env \<Rightarrow> bool" where
  "env_agree used env env' \<longleftrightarrow> (\<forall>x \<in> insert no_local used. env x = env' x)"

lemma env_agree_update: "env_agree used env env' \<Longrightarrow> env_agree used (env(x \<mapsto> v)) (env'(x \<mapsto> v))"
  by (simp add: env_agree_def)

lemma rvalue_pure:
  assumes "effects_in_calls sem" "rv_kind rv \<noteq> RvCall" "rvalue_result sem env w rv = Some (v, w')"
  shows "w' = w"
proof -
  have "w' = w" if "sem_rvalue sem (rv\<lparr>rv_operands := []\<rparr>) vs w = Some (v, w')" for vs
    using assms(1) [unfolded effects_in_calls_def, rule_format, of "rv\<lparr>rv_operands := []\<rparr>"] assms(2) that
    by simp
  then show ?thesis
    using assms(3) by (auto simp: rvalue_result_def split: option.splits if_splits list.splits)
qed

lemma dead_statements:
  assumes eff: "effects_in_calls sem"
    and used: "\<And>s. s \<in> set ss \<Longrightarrow> set (statement_uses s) \<subseteq> used"
    and dead: "\<And>s. s \<in> set ss \<Longrightarrow> p s \<Longrightarrow> os_kind s = StAssign \<and> os_dest s \<notin> insert no_local used \<and>
      rv_kind (os_rvalue s) \<noteq> RvCall"
    and agree: "env_agree used env env1"
    and ex: "exec_opt_statements sem ss (env, w) = Some (env', w')"
  shows "\<exists>env1'. exec_opt_statements sem (filter (\<lambda>s. \<not> p s) ss) (env1, w) = Some (env1', w') \<and>
    env_agree used env' env1'"
  using used dead agree ex
proof (induction ss arbitrary: env env1 w)
  case Nil
  then show ?case by auto
next
  case (Cons s ss)
  obtain env2 w2 where 1: "exec_opt_statement sem s (env, w) = Some (env2, w2)"
    and 2: "exec_opt_statements sem ss (env2, w2) = Some (env', w')"
    using Cons.prems(4) by (auto split: option.splits)
  have r: "rvalue_result sem env1 w (os_rvalue s) = rvalue_result sem env w (os_rvalue s)"
    using Cons.prems(1,3) by (intro rvalue_result_agree) (fastforce simp: env_agree_def statement_uses_def)
  note IH = Cons.IH [OF Cons.prems(1,2) _ 2]
  show ?case
  proof (cases "p s")
    case True
    then have d: "os_kind s = StAssign" "os_dest s \<notin> insert no_local used" "rv_kind (os_rvalue s) \<noteq> RvCall"
      using Cons.prems(2) by auto
    then obtain v where v: "rvalue_result sem env w (os_rvalue s) = Some (v, w2)" "env2 = env(os_dest s \<mapsto> v)"
      using 1 by (auto split: option.splits)
    have "env_agree used env2 env1"
      using Cons.prems(3) d v(2) by (auto simp: env_agree_def)
    moreover have "w2 = w" by (rule rvalue_pure [OF eff d(3) v(1)])
    ultimately show ?thesis
      using IH [of env1] True by simp
  next
    case False
    then obtain env3 where 3: "exec_opt_statement sem s (env1, w) = Some (env3, w2)" "env_agree used env2 env3"
      using 1 r Cons.prems(3) by (auto split: if_splits option.splits intro: env_agree_update)
    then show ?thesis
      using IH [of env3] False by simp
  qed
qed

lemma dead_terminator:
  assumes "env_agree used env env1" "set (terminator_uses t) \<subseteq> used"
    and "terminator_step sem t (env, w) = Some res"
  shows "case res of
      Inr r \<Rightarrow> terminator_step sem t (env1, w) = Some (Inr r)
    | Inl (b, env', w') \<Rightarrow> \<exists>env1'. terminator_step sem t (env1, w) = Some (Inl (b, env1', w')) \<and>
        env_agree used env' env1'"
proof -
  have cond: "env1 (tm_condition t) = env (tm_condition t)" and ret: "env1 (tm_return_value t) = env (tm_return_value t)"
    using assms(1,2) by (auto simp: env_agree_def terminator_uses_def split: if_splits)
  have args: "operand_values sem env1 (tm_args t) = operand_values sem env (tm_args t)"
    using assms(1,2) by (intro operand_values_agree) (auto simp: env_agree_def terminator_uses_def)
  show ?thesis
    using assms(1,3) cond ret args
    by (auto split: terminator_kind.splits option.splits bool.splits if_splits intro: env_agree_update)
qed

lemma function_uses_block:
  assumes "b < length (of_blocks f)"
  shows "s \<in> set (bb_statements (of_blocks f ! b)) \<Longrightarrow> set (statement_uses s) \<subseteq> set (function_uses f)"
    "set (terminator_uses (bb_terminator (of_blocks f ! b))) \<subseteq> set (function_uses f)"
  using nth_mem [OF assms] by (auto simp: function_uses_def block_uses_def)

lemma dead_block:
  assumes eff: "effects_in_calls sem" and b: "b < length (of_blocks f)"
    and agree: "env_agree (set (function_uses f)) env env1"
    and ex: "exec_opt_block sem (of_blocks f ! b) (env, w) = Some res"
  shows "case res of
      Inr r \<Rightarrow> exec_opt_block sem (of_blocks (fst (dead_store_elimination f)) ! b) (env1, w) = Some (Inr r)
    | Inl (b', env', w') \<Rightarrow>
        \<exists>env1'. exec_opt_block sem (of_blocks (fst (dead_store_elimination f)) ! b) (env1, w) =
            Some (Inl (b', env1', w')) \<and> env_agree (set (function_uses f)) env' env1'"
proof -
  let ?blk = "of_blocks f ! b"
  obtain env2 w2 where 1: "exec_opt_statements sem (bb_statements ?blk) (env, w) = Some (env2, w2)"
    and 2: "terminator_step sem (bb_terminator ?blk) (env2, w2) = Some res"
    using ex by (auto simp: exec_opt_block_def split: option.splits)
  obtain env3 where 3: "exec_opt_statements sem (filter (\<lambda>s. \<not> removable f s) (bb_statements ?blk)) (env1, w) =
      Some (env3, w2)" "env_agree (set (function_uses f)) env2 env3"
    using dead_statements [OF eff function_uses_block(1) [OF b] _ agree 1, of "removable f"]
    by (auto simp: removable_def build_use_counts_def count_list_0_iff)
  have blk: "of_blocks (fst (dead_store_elimination f)) ! b =
      ?blk\<lparr>bb_statements := filter (\<lambda>s. \<not> removable f s) (bb_statements ?blk)\<rparr>"
    using b by (simp add: dead_store_elimination_def)
  show ?thesis
    using dead_terminator [OF 3(2) function_uses_block(2) [OF b] 2] 3(1)
    by (auto simp: exec_opt_block_def blk simp del: terminator_step.simps split: sum.splits)
qed

lemma dead_run:
  assumes eff: "effects_in_calls sem" and run: "opt_run sem f b st res"
    and agree: "env_agree (set (function_uses f)) (fst st) env1"
  shows "opt_run sem (fst (dead_store_elimination f)) b (env1, snd st) res"
  using run agree
proof (induction arbitrary: env1 rule: opt_run.induct)
  case (run_ends b st res)
  then show ?case
    using dead_block [OF eff run_ends.hyps(1) run_ends.prems, of "snd st" "Inr res"]
    by (intro opt_run.run_ends) (simp_all add: dead_store_elimination_def)
next
  case (run_goes_on b st b' st' res)
  obtain env' w' where st': "st' = (env', w')" by force
  obtain env1' where 1: "exec_opt_block sem (of_blocks (fst (dead_store_elimination f)) ! b) (env1, snd st) =
      Some (Inl (b', env1', w'))" "env_agree (set (function_uses f)) env' env1'"
    using dead_block [OF eff run_goes_on.hyps(1) run_goes_on.prems, of "snd st" "Inl (b', env', w')"]
      run_goes_on.hyps(2) st' by auto
  have "opt_run sem (fst (dead_store_elimination f)) b' (env1', w') res"
    using run_goes_on.IH [of env1'] 1(2) st' by simp
  then show ?case
    using 1(1) run_goes_on.hyps(1)
    by (intro opt_run.run_goes_on [of b _ _ _ b']) (simp_all add: dead_store_elimination_def)
qed

lemma dead_store_elimination_result:
  assumes "effects_in_calls sem" "opt_result sem f vs w res"
  shows "opt_result sem (fst (dead_store_elimination f)) vs w res"
  using assms dead_run [OF assms(1), of f 0 "(arguments_env vs, w)" res "arguments_env vs"]
  by (simp add: opt_result_def env_agree_def dead_store_elimination_def)

subsection \<open>What the passes keep of the shape\<close>

lemma rename_dests [simp]: "function_dests (rename g k f) = function_dests f"
proof -
  have "statement_dests (map (rename_statement g) ss) = statement_dests ss" for ss
    by (induction ss) (simp_all add: rename_statement_def)
  then have "block_dests (rename_block g k b) = block_dests b" for b
    by (simp add: block_dests_def rename_block_def terminator_dests_def rename_terminator_def)
  then show ?thesis by (simp add: function_dests_def comp_def)
qed

lemma rename_ssa [simp]: "ssa (rename g k f) = ssa f"
  by (simp add: ssa_def) (simp add: rename_def)

lemma rename_ranked [simp]: "ranked_blocks rnk (rename g k f) = ranked_blocks rnk f"
proof -
  have "terminator_targets (rename_terminator g k t) = terminator_targets t" for t
    by (simp add: terminator_targets.simps rename_terminator_def split: terminator_kind.split)
  then show ?thesis by (simp add: ranked_blocks_def rename_block_def)
qed

lemma filter_dests_subseq: "subseq (statement_dests (filter p ss)) (statement_dests ss)"
  unfolding statement_dests_def by (intro subseq_map) (simp add: filter_filter conj_commute flip: filter_filter)

lemma subseq_concat_map:
  "(\<And>x. subseq (g x) (h x)) \<Longrightarrow> subseq (concat (map g xs)) (concat (map h xs))"
  by (induction xs) (auto intro: list_emb_append_mono)

lemma dead_dests: "subseq (function_dests (fst (dead_store_elimination f))) (function_dests f)"
proof -
  have "subseq (block_dests (b\<lparr>bb_statements := filter p (bb_statements b)\<rparr>)) (block_dests b)" for b p
    by (auto simp: block_dests_def intro: list_emb_append_mono filter_dests_subseq)
  then show ?thesis
    by (auto simp: function_dests_def dead_store_elimination_def comp_def intro: subseq_concat_map)
qed

lemma dead_ssa:
  assumes "ssa f"
  shows "ssa (fst (dead_store_elimination f))"
proof -
  obtain ns where ns: "function_dests (fst (dead_store_elimination f)) = nths (function_dests f) ns"
    using dead_dests [of f] by (auto simp: subseq_conv_nths)
  have "set (nths (function_dests f) ns) \<subseteq> set (function_dests f)"
    by (rule set_nths_subset)
  then show ?thesis
    using assms unfolding ssa_def ns by (auto simp: distinct_nthsI dead_store_elimination_def)
qed

lemma dead_ranked: "ranked_blocks rnk f \<Longrightarrow> ranked_blocks rnk (fst (dead_store_elimination f))"
  by (simp add: ranked_blocks_def dead_store_elimination_def)

subsection \<open>Every change lowers a measure\<close>

definition lowers :: "('a \<Rightarrow> nat) \<Rightarrow> ('a \<Rightarrow> 'a \<times> bool) \<Rightarrow> bool" where
  "lowers m h \<longleftrightarrow> (\<forall>x. m (fst (h x)) \<le> m x \<and> (snd (h x) \<longrightarrow> m (fst (h x)) < m x))"

lemma lowersD: "lowers m h \<Longrightarrow> m (fst (h x)) \<le> m x" "lowers m h \<Longrightarrow> snd (h x) \<Longrightarrow> m (fst (h x)) < m x"
  by (simp_all add: lowers_def)

lemma lowers_map_flag:
  assumes "lowers m h"
  shows "lowers (\<lambda>xs. sum_list (map m xs)) (map_flag h)"
proof -
  have "sum_list (map m (map (fst \<circ> h) xs)) \<le> sum_list (map m xs) \<and>
      (list_ex (snd \<circ> h) xs \<longrightarrow> sum_list (map m (map (fst \<circ> h) xs)) < sum_list (map m xs))" for xs
  proof (induction xs)
    case (Cons x xs)
    then show ?case using lowersD [OF assms, of x] by auto
  qed simp
  then show ?thesis by (simp add: lowers_def map_flag_def)
qed

definition local_weight :: "(local_ref \<Rightarrow> nat) \<Rightarrow> local_ref \<Rightarrow> nat" where
  "local_weight rnk x = (if x = no_local then 0 else rnk x + 1)"

fun operand_weight :: "(local_ref \<Rightarrow> nat) \<Rightarrow> operand \<Rightarrow> nat" where
  "operand_weight rnk (LocalOperand x) = rnk x + 1"
| "operand_weight rnk _ = 0"

definition statement_weight :: "(local_ref \<Rightarrow> nat) \<Rightarrow> opt_statement \<Rightarrow> nat" where
  "statement_weight rnk s = sum_list (map (operand_weight rnk) (rv_operands (os_rvalue s)))"

definition terminator_weight :: "(local_ref \<Rightarrow> nat) \<Rightarrow> terminator \<Rightarrow> nat" where
  "terminator_weight rnk t = local_weight rnk (tm_condition t) + local_weight rnk (tm_return_value t) +
     sum_list (map (operand_weight rnk) (tm_args t))"

definition block_weight :: "(local_ref \<Rightarrow> nat) \<Rightarrow> basic_block \<Rightarrow> nat" where
  "block_weight rnk b = sum_list (map (statement_weight rnk) (bb_statements b)) +
     terminator_weight rnk (bb_terminator b)"

definition function_weight :: "(local_ref \<Rightarrow> nat) \<Rightarrow> opt_function \<Rightarrow> nat" where
  "function_weight rnk f = sum_list (map (block_weight rnk) (of_blocks f))"

lemma lowers_statement:
  assumes "lowers (operand_weight rnk) h"
  shows "lowers (statement_weight rnk) (statement_operands h)"
proof -
  have "statement_weight rnk (fst (statement_operands h s)) \<le> statement_weight rnk s \<and>
      (snd (statement_operands h s) \<longrightarrow>
        statement_weight rnk (fst (statement_operands h s)) < statement_weight rnk s)" for s
    using lowersD [OF lowers_map_flag [OF assms], of "rv_operands (os_rvalue s)"]
    by (simp add: statement_weight_def statement_operands_def case_prod_beta Let_def)
  then show ?thesis unfolding lowers_def by blast
qed

lemma lowers_constant: "lowers (operand_weight rnk) (constant_operand known)"
  by (auto simp: lowers_def constant_operand_def split: operand.split option.split)

lemma lowers_constants_in_block: "lowers (block_weight rnk) (constants_in_block known)"
  unfolding lowers_def
proof
  fix b
  show "block_weight rnk (fst (constants_in_block known b)) \<le> block_weight rnk b \<and>
      (snd (constants_in_block known b) \<longrightarrow>
        block_weight rnk (fst (constants_in_block known b)) < block_weight rnk b)"
    using lowersD [OF lowers_map_flag [OF lowers_statement [OF lowers_constant]], where x = "bb_statements b"]
      lowersD [OF lowers_map_flag [OF lowers_constant], where x = "tm_args (bb_terminator b)"]
    by (auto simp: constants_in_block_def block_weight_def terminator_weight_def case_prod_beta Let_def
        intro: add_less_le_mono add_le_less_mono add_le_mono)
qed

lemma lowers_constant_propagation: "lowers (function_weight rnk) constant_propagation"
  using lowersD [OF lowers_map_flag [OF lowers_constants_in_block]]
  unfolding lowers_def constant_propagation_def function_weight_def
  by (simp add: case_prod_beta Let_def)

lemma lowers_replace:
  assumes "rnk y < rnk d" "d \<noteq> no_local"
  shows "lowers (operand_weight rnk) (replace_operand d (LocalOperand y))"
    and "lowers (local_weight rnk) (replace_local d (LocalOperand y))"
  using assms
  by (auto simp: lowers_def replace_operand_def replace_local_def operand_uses_local_def local_weight_def)

lemma lowers_replace_block:
  assumes "rnk y < rnk d" "d \<noteq> no_local"
  shows "lowers (block_weight rnk) (replace_in_block d (LocalOperand y))"
proof -
  note o = lowers_replace [OF assms]
  have t: "lowers (terminator_weight rnk) (replace_in_terminator d (LocalOperand y))"
    unfolding lowers_def
  proof
    fix t
    show "terminator_weight rnk (fst (replace_in_terminator d (LocalOperand y) t)) \<le> terminator_weight rnk t \<and>
        (snd (replace_in_terminator d (LocalOperand y) t) \<longrightarrow>
          terminator_weight rnk (fst (replace_in_terminator d (LocalOperand y) t)) < terminator_weight rnk t)"
      using lowersD [OF lowers_map_flag [OF o(1)], of "tm_args t"] lowersD [OF o(2), of "tm_condition t"]
        lowersD [OF o(2), of "tm_return_value t"]
      unfolding replace_in_terminator_def terminator_weight_def
      by (simp add: case_prod_beta Let_def) linarith
  qed
  show ?thesis
    unfolding lowers_def
  proof
    fix b
    show "block_weight rnk (fst (replace_in_block d (LocalOperand y) b)) \<le> block_weight rnk b \<and>
        (snd (replace_in_block d (LocalOperand y) b) \<longrightarrow>
          block_weight rnk (fst (replace_in_block d (LocalOperand y) b)) < block_weight rnk b)"
      using lowersD [OF lowers_map_flag [OF lowers_statement [OF o(1)]], of "bb_statements b"]
        lowersD [OF t, of "bb_terminator b"]
      unfolding replace_in_block_def block_weight_def
      by (simp add: case_prod_beta Let_def) linarith
  qed
qed

lemma replace_all_uses_weight:
  assumes "rnk y < rnk d" "d \<noteq> no_local" "replace_all_uses f d (LocalOperand y) = (f', c)"
  shows "function_weight rnk f' \<le> function_weight rnk f" "c \<Longrightarrow> function_weight rnk f' < function_weight rnk f"
  using lowersD [OF lowers_map_flag [OF lowers_replace_block [OF assms(1,2)]], of "of_blocks f"] assms(3)
  by (auto simp: replace_all_uses_def function_weight_def case_prod_beta Let_def)
subsection \<open>The loop ends at a fixed point\<close>

definition ranked_copies :: "(local_ref \<Rightarrow> nat) \<Rightarrow> opt_function \<Rightarrow> bool" where
  "ranked_copies crk f \<longleftrightarrow> (\<forall>x y. is_copy f x y \<longrightarrow> crk y < crk x)"

lemma function_statements_rename:
  "function_statements (rename g k f) = map (rename_statement g) (function_statements f)"
  by (simp add: function_statements_def rename_block_def comp_def map_concat)

lemma is_copy_rename:
  "is_copy (rename g k f) x y \<longleftrightarrow>
     (\<exists>s \<in> set (function_statements f). \<exists>op. os_kind s = StAssign \<and> os_dest s = x \<and>
        rv_kind (os_rvalue s) = RvUse \<and> rv_operands (os_rvalue s) = [op] \<and> g op = LocalOperand y)"
  by (auto simp: is_copy_def function_statements_rename rename_statement_def map_eq_Cons_conv)

lemma constant_propagation_copies:
  "ranked_copies crk f \<Longrightarrow> ranked_copies crk (fst (constant_propagation f))"
proof -
  have "op = LocalOperand y" if "fst (constant_operand known op) = LocalOperand y" for op known y
    using that by (auto simp: constant_operand_def split: operand.splits option.splits)
  then show "ranked_copies crk f \<Longrightarrow> ranked_copies crk (fst (constant_propagation f))"
    unfolding ranked_copies_def constant_propagation_rename is_copy_rename
    by (auto simp: is_copy_def) blast
qed

lemma replace_all_uses_copies:
  assumes "ranked_copies crk f" "crk y < crk d"
  shows "ranked_copies crk (fst (replace_all_uses f d (LocalOperand y)))"
  unfolding ranked_copies_def replace_all_uses_rename is_copy_rename
proof (intro allI impI, elim bexE exE conjE)
  fix x z s op
  assume s: "s \<in> set (function_statements f)" "os_kind s = StAssign" "os_dest s = x"
    "rv_kind (os_rvalue s) = RvUse" "rv_operands (os_rvalue s) = [op]" and z: "subst_operand d y op = LocalOperand z"
  then obtain u where u: "op = LocalOperand u" "z = (if u = d then y else u)"
    by (auto simp: subst_operand_def split: if_splits)
  then have "crk u < crk x"
    using assms(1) s unfolding ranked_copies_def is_copy_def by blast
  then show "crk z < crk x"
    using assms(2) u(2) by (auto split: if_splits)
qed

lemma fold_replace_copy_lowers:
  assumes "\<And>d y. (d, y) \<in> set cs \<Longrightarrow> crk y < crk d \<and> d \<noteq> no_local" "ranked_copies crk f"
    and "fold replace_copy cs (f, c) = (f', c')"
  shows "ranked_copies crk f' \<and> function_weight crk f' \<le> function_weight crk f \<and>
    (c' \<and> \<not> c \<longrightarrow> function_weight crk f' < function_weight crk f) \<and>
    length (function_statements f') = length (function_statements f)"
  using assms
proof (induction cs arbitrary: f c)
  case (Cons dy cs)
  obtain d y where dy: "dy = (d, y)" by force
  have r: "crk y < crk d" "d \<noteq> no_local" using Cons.prems(1) dy by auto
  obtain f1 c1 where 1: "replace_all_uses f d (LocalOperand y) = (f1, c1)" by force
  have f1: "f1 = rename (subst_operand d y) (subst_local d y) f"
    using replace_all_uses_rename [of f d y] 1 by simp
  have "ranked_copies crk f1"
    using replace_all_uses_copies [OF Cons.prems(2) r(1)] 1 by simp
  then have IH: "ranked_copies crk f' \<and> function_weight crk f' \<le> function_weight crk f1 \<and>
      (c' \<and> \<not> (c \<or> c1) \<longrightarrow> function_weight crk f' < function_weight crk f1) \<and>
      length (function_statements f') = length (function_statements f1)"
    using Cons.prems by (intro Cons.IH) (auto simp: replace_copy_def dy 1)
  show ?case
    using IH replace_all_uses_weight [where rnk = crk, OF r 1] by (auto simp: f1 function_statements_rename)
qed simp

lemma copy_propagation_lowers:
  assumes "ssa f" "ranked_copies crk f"
  shows "ranked_copies crk (fst (copy_propagation f)) \<and>
    function_weight crk (fst (copy_propagation f)) \<le> function_weight crk f \<and>
    (snd (copy_propagation f) \<longrightarrow> function_weight crk (fst (copy_propagation f)) < function_weight crk f) \<and>
    length (function_statements (fst (copy_propagation f))) = length (function_statements f)"
proof -
  obtain f' c' where 1: "fold replace_copy (find_copies f) (f, False) = (f', c')" by force
  have "crk y < crk d \<and> d \<noteq> no_local" if "(d, y) \<in> set (find_copies f)" for d y
    using find_copies_dest [OF assms(1) that] assms(2) that by (auto simp: ranked_copies_def find_copies_iff)
  then show ?thesis
    using fold_replace_copy_lowers [OF _ assms(2) 1] 1 by (auto simp: copy_propagation_def)
qed

lemma sum_list_filter_le: "sum_list (map m (filter p xs)) \<le> sum_list (map (m :: 'a \<Rightarrow> nat) xs)"
  by (induction xs) auto

lemma function_statements_dead:
  "function_statements (fst (dead_store_elimination f)) = filter (\<lambda>s. \<not> removable f s) (function_statements f)"
  by (simp add: function_statements_def dead_store_elimination_def comp_def filter_concat)

lemma dead_store_lowers:
  shows "function_weight crk (fst (dead_store_elimination f)) \<le> function_weight crk f"
    and "length (function_statements (fst (dead_store_elimination f))) \<le> length (function_statements f)"
    and "snd (dead_store_elimination f) \<Longrightarrow>
      length (function_statements (fst (dead_store_elimination f))) < length (function_statements f)"
    and "ranked_copies crk f \<Longrightarrow> ranked_copies crk (fst (dead_store_elimination f))"
proof -
  have "block_weight crk (b\<lparr>bb_statements := filter p (bb_statements b)\<rparr>) \<le> block_weight crk b" for p b
    by (simp add: block_weight_def sum_list_filter_le)
  then show "function_weight crk (fst (dead_store_elimination f)) \<le> function_weight crk f"
    by (auto simp: function_weight_def dead_store_elimination_def comp_def intro: sum_list_mono)
next
  assume "snd (dead_store_elimination f)"
  then obtain s where "s \<in> set (function_statements f)" "removable f s"
    by (auto simp: dead_store_elimination_def list_ex_iff)
  then show "length (function_statements (fst (dead_store_elimination f))) < length (function_statements f)"
    unfolding function_statements_dead by (intro length_filter_less [of s]) auto
qed (auto simp: function_statements_dead ranked_copies_def is_copy_def)

definition opt_ok :: "(local_ref \<Rightarrow> nat) \<Rightarrow> opt_function \<Rightarrow> bool" where
  "opt_ok crk f \<longleftrightarrow> ssa f \<and> ranked_copies crk f"

definition opt_measure :: "(local_ref \<Rightarrow> nat) \<Rightarrow> opt_function \<Rightarrow> nat" where
  "opt_measure crk f = function_weight crk f + length (function_statements f)"

lemma constant_propagation_ok:
  assumes "opt_ok crk f"
  shows "opt_ok crk (fst (constant_propagation f)) \<and>
    opt_measure crk (fst (constant_propagation f)) \<le> opt_measure crk f \<and>
    (snd (constant_propagation f) \<longrightarrow> opt_measure crk (fst (constant_propagation f)) < opt_measure crk f)"
  using assms constant_propagation_copies [of crk f] lowersD [OF lowers_constant_propagation [of crk], of f]
  by (auto simp: opt_ok_def opt_measure_def constant_propagation_rename function_statements_rename)

lemma copy_propagation_ok:
  assumes "opt_ok crk f"
  shows "opt_ok crk (fst (copy_propagation f)) \<and>
    opt_measure crk (fst (copy_propagation f)) \<le> opt_measure crk f \<and>
    (snd (copy_propagation f) \<longrightarrow> opt_measure crk (fst (copy_propagation f)) < opt_measure crk f)"
proof -
  have ok: "ssa f" "ranked_copies crk f" using assms by (simp_all add: opt_ok_def)
  obtain g k where "fst (copy_propagation f) = rename g k f"
    using copy_propagation_rename [OF ok(1)] by blast
  then have "ssa (fst (copy_propagation f))"
    using ok by simp
  then show ?thesis
    using copy_propagation_lowers [OF ok] by (simp add: opt_ok_def opt_measure_def)
qed

lemma dead_store_elimination_ok:
  assumes "opt_ok crk f"
  shows "opt_ok crk (fst (dead_store_elimination f)) \<and>
    opt_measure crk (fst (dead_store_elimination f)) \<le> opt_measure crk f \<and>
    (snd (dead_store_elimination f) \<longrightarrow> opt_measure crk (fst (dead_store_elimination f)) < opt_measure crk f)"
  using assms dead_ssa dead_store_lowers(1,4) [of crk f] dead_store_lowers(2,3) [of f]
  by (auto simp: opt_ok_def opt_measure_def intro: add_mono add_le_less_mono)

lemma optimize_once_eq:
  "optimize_once f =
     (fst (dead_store_elimination (fst (copy_propagation (fst (constant_propagation f))))),
      snd (constant_propagation f) \<or> snd (copy_propagation (fst (constant_propagation f))) \<or>
      snd (dead_store_elimination (fst (copy_propagation (fst (constant_propagation f))))))"
  by (simp add: optimize_once_def case_prod_beta Let_def)

lemma optimize_once_ok:
  assumes "opt_ok crk f"
  shows "opt_ok crk (fst (optimize_once f)) \<and>
    (snd (optimize_once f) \<longrightarrow> opt_measure crk (fst (optimize_once f)) < opt_measure crk f)"
proof -
  note 1 = constant_propagation_ok [OF assms]
  note 2 = copy_propagation_ok [OF conjunct1 [OF 1]]
  note 3 = dead_store_elimination_ok [OF conjunct1 [OF 2]]
  show ?thesis
    unfolding optimize_once_eq using 1 2 3 by auto
qed

subsection \<open>The contract of a pass\<close>

text \<open>
  What the loop relies on: a pass keeps the form of a function, and on functions of that form the
  results of runs. Each pass satisfies it, and so does a round of the three.
\<close>

locale function_pass =
  fixes sem :: "('v, 'w) opt_sem" and pass :: "opt_function \<Rightarrow> opt_function \<times> bool"
  assumes pass_ssa: "ssa f \<Longrightarrow> ssa (fst (pass f))"
    and pass_ranked: "ssa f \<Longrightarrow> ranked_blocks rnk f \<Longrightarrow> ranked_blocks rnk (fst (pass f))"
    and pass_result: "ssa f \<Longrightarrow> ranked_blocks rnk f \<Longrightarrow> effects_in_calls sem \<Longrightarrow> opt_result sem f vs w res \<Longrightarrow>
      opt_result sem (fst (pass f)) vs w res"
begin

lemma followed_by:
  assumes "function_pass sem q" "\<And>f. fst (r f) = fst (q (fst (pass f)))"
  shows "function_pass sem r"
proof
  show "ssa (fst (r f))" if "ssa f" for f
    by (simp add: assms(2) function_pass.pass_ssa [OF assms(1)] pass_ssa that)
  show "ranked_blocks rnk (fst (r f))" if "ssa f" "ranked_blocks rnk f" for f rnk
    by (simp add: assms(2) function_pass.pass_ranked [OF assms(1)] pass_ssa pass_ranked that)
  show "opt_result sem (fst (r f)) vs w res"
    if "ssa f" "ranked_blocks rnk f" "effects_in_calls sem" "opt_result sem f vs w res" for f rnk vs w res
    unfolding assms(2)
    by (rule function_pass.pass_result [OF assms(1) pass_ssa [OF that(1)] pass_ranked [OF that(1,2)] that(3)
        pass_result [OF that]])
qed

lemma pass_keeps_runs:
  assumes "effects_in_calls sem" "ssa f" "ranked_blocks rnk f \<and> (\<forall>vs w res. Q vs w res \<longrightarrow> opt_result sem f vs w res)"
  shows "ranked_blocks rnk (fst (pass f)) \<and> (\<forall>vs w res. Q vs w res \<longrightarrow> opt_result sem (fst (pass f)) vs w res)"
proof -
  have r: "ranked_blocks rnk f" using assms(3) by blast
  show ?thesis
    using assms(3) pass_ranked [OF assms(2) r] pass_result [OF assms(2) r assms(1)] by blast
qed

end

interpretation constant_pass: function_pass sem constant_propagation for sem
  by unfold_locales (simp_all add: constant_propagation_rename, metis constant_propagation_rename constant_propagation_result)

interpretation copy_pass: function_pass sem copy_propagation for sem
proof
  fix f and rnk :: "nat \<Rightarrow> nat"
  assume f: "ssa f"
  from copy_propagation_rename [OF f] obtain g k where "fst (copy_propagation f) = rename g k f" by blast
  then show "ssa (fst (copy_propagation f))" "ranked_blocks rnk f \<Longrightarrow> ranked_blocks rnk (fst (copy_propagation f))"
    using f by simp_all
qed (rule copy_propagation_result)

interpretation dead_store_pass: function_pass sem dead_store_elimination for sem
  by unfold_locales (simp_all add: dead_ssa dead_ranked dead_store_elimination_result)

lemma optimize_once_pass: "function_pass sem optimize_once"
proof -
  have "function_pass sem (\<lambda>f. copy_propagation (fst (constant_propagation f)))"
    by (rule constant_pass.followed_by [OF copy_pass.function_pass_axioms]) simp
  from function_pass.followed_by [OF this dead_store_pass.function_pass_axioms] show ?thesis
    by (simp add: optimize_once_eq)
qed

interpretation round_pass: function_pass sem optimize_once for sem
  by (rule optimize_once_pass)

lemma optimize_loop_eq:
  "optimize_loop ch f =
     (if snd (optimize_once f) then optimize_loop True (fst (optimize_once f))
      else Some (fst (optimize_once f), ch))"
  by (subst optimize_loop.simps) (simp add: case_prod_beta Let_def)

text \<open>What every round keeps holds at the end, and with acyclic copies there is an end.\<close>

lemma optimize_loop_ends:
  assumes "opt_ok crk f" "P f" "\<And>g. ssa g \<Longrightarrow> P g \<Longrightarrow> P (fst (optimize_once g))"
  shows "\<exists>g c. optimize_loop ch f = Some (fst (optimize_once g), c) \<and> \<not> snd (optimize_once g) \<and> ssa g \<and> P g"
  using assms(1,2)
proof (induction "opt_measure crk f" arbitrary: f ch rule: less_induct)
  case less
  note ok = optimize_once_ok [OF less.prems(1)]
  have ssa: "ssa f" using less.prems(1) by (simp add: opt_ok_def)
  show ?case
  proof (cases "snd (optimize_once f)")
    case True
    then show ?thesis
      using less.hyps [of "fst (optimize_once f)" True] ok assms(3) [OF ssa less.prems(2)]
      by (simp add: optimize_loop_eq [of ch f])
  next
    case False
    then show ?thesis
      using ssa less.prems(2) optimize_loop_eq [of ch f] by auto
  qed
qed

text \<open>The loop has no end when every round says that it changed something.\<close>

lemma optimize_diverges:
  assumes "P f" "\<And>g. P g \<Longrightarrow> P (fst (optimize_once g)) \<and> snd (optimize_once g)"
  shows "optimize f = None"
proof -
  have "\<not> P g" if "optimize_loop ch g = Some r" for ch g r
    using that
  proof (rule optimize_loop.raw_induct [where P = "\<lambda>ch g r. \<not> P g", rotated])
    fix rec ch' g' r'
    assume IH: "\<And>ch g r. rec ch g = Some r \<Longrightarrow> \<not> P g"
      and ex: "(let (f', changed) = optimize_once g' in if changed then rec True f' else Some (f', ch')) = Some r'"
    show "\<not> P g'"
    proof
      assume "P g'"
      then have "P (fst (optimize_once g')) \<and> snd (optimize_once g')" by (rule assms(2))
      then show False
        using IH [of True "fst (optimize_once g')" r'] ex by (simp add: case_prod_beta Let_def)
    qed
  qed
  then show ?thesis
    using assms(1) by (cases "optimize_loop False f") (auto simp: optimize_def)
qed

end
