(* ===== verification/Opt_Normal.thy ===== *)
theory Opt_Normal
  imports Opt_Correct
begin

section \<open>What optimization leaves\<close>

text \<open>
  A pass that reports no change has made none, so the function that \<open>optimize\<close> returns is one on
  which none of the passes can do anything: no operand is a local with a known constant, no
  copy is left, and no assignment without effects has an unused destination.
\<close>

subsection \<open>Passes report their changes\<close>

definition reports :: "('a \<Rightarrow> 'a \<times> bool) \<Rightarrow> bool" where
  "reports h \<longleftrightarrow> (\<forall>x. \<not> snd (h x) \<longrightarrow> fst (h x) = x)"

lemma reportsD: "reports h \<Longrightarrow> \<not> snd (h x) \<Longrightarrow> fst (h x) = x"
  by (simp add: reports_def)

lemma snd_map_flag: "snd (map_flag h xs) \<longleftrightarrow> (\<exists>x \<in> set xs. snd (h x))"
  by (simp add: map_flag_def list_ex_iff)

lemma reports_map_flag:
  assumes "reports h"
  shows "reports (map_flag h)"
proof -
  have "fst (map_flag h xs) = xs" if "\<not> snd (map_flag h xs)" for xs
    using that reportsD [OF assms] by (auto simp: map_flag_def list_ex_iff map_idI)
  then show ?thesis by (simp add: reports_def)
qed

lemma reports_operands:
  "reports (constant_operand known)" "reports (replace_operand d r)" "reports (replace_local d r)"
  by (auto simp: reports_def constant_operand_def replace_operand_def replace_local_def
      split: operand.split option.split)

lemma reports_statement: "reports h \<Longrightarrow> reports (statement_operands h)"
  using reportsD [OF reports_map_flag, of h]
  by (auto simp: reports_def statement_operands_def case_prod_beta Let_def)

lemma reports_constant_propagation: "reports constant_propagation"
proof -
  have "reports (constants_in_block known)" for known
    using reportsD [OF reports_map_flag [OF reports_statement [OF reports_operands(1)]]]
      reportsD [OF reports_map_flag [OF reports_operands(1)]]
    by (auto simp: reports_def constants_in_block_def case_prod_beta Let_def)
  from reportsD [OF reports_map_flag [OF this]] show ?thesis
    by (auto simp: reports_def constant_propagation_def case_prod_beta Let_def)
qed

lemma reports_replace_all_uses: "reports (\<lambda>f. replace_all_uses f d r)"
proof -
  have "reports (replace_in_terminator d r)"
    using reportsD [OF reports_map_flag [OF reports_operands(2)]] reportsD [OF reports_operands(3)]
    by (auto simp: reports_def replace_in_terminator_def case_prod_beta Let_def)
  then have "reports (replace_in_block d r)"
    using reportsD [OF reports_map_flag [OF reports_statement [OF reports_operands(2)]]]
    by (auto simp: reports_def replace_in_block_def case_prod_beta Let_def)
  from reportsD [OF reports_map_flag [OF this]] show ?thesis
    by (auto simp: reports_def replace_all_uses_def case_prod_beta Let_def)
qed

lemma reports_dead_store_elimination: "reports dead_store_elimination"
proof -
  have "fst (dead_store_elimination f) = f" if "\<not> list_ex (removable f) (function_statements f)" for f
  proof -
    have "filter (\<lambda>s. \<not> removable f s) (bb_statements b) = bb_statements b" if "b \<in> set (of_blocks f)" for b
      using that \<open>\<not> list_ex (removable f) (function_statements f)\<close>
      by (auto simp: list_ex_iff function_statements_def filter_id_conv)
    then show ?thesis by (simp add: dead_store_elimination_def map_idI)
  qed
  then show ?thesis by (simp add: reports_def dead_store_elimination_def)
qed

subsection \<open>Nothing left to do\<close>

definition block_operands :: "basic_block \<Rightarrow> operand list" where
  "block_operands b = concat (map (\<lambda>s. rv_operands (os_rvalue s)) (bb_statements b)) @ tm_args (bb_terminator b)"

definition opt_normal :: "opt_function \<Rightarrow> bool" where
  "opt_normal f \<longleftrightarrow>
     (\<forall>b \<in> set (of_blocks f). \<forall>x. LocalOperand x \<in> set (block_operands b) \<longrightarrow> known_constants f x = None) \<and>
     find_copies f = [] \<and> (\<forall>s \<in> set (function_statements f). \<not> removable f s)"

lemma no_constants_left:
  assumes "\<not> snd (constant_propagation f)" "b \<in> set (of_blocks f)" "LocalOperand x \<in> set (block_operands b)"
  shows "known_constants f x = None"
proof -
  have "\<not> snd (constants_in_block (known_constants f) b)"
    using assms(1,2) by (auto simp: constant_propagation_def snd_map_flag case_prod_beta Let_def)
  then have "\<not> snd (constant_operand (known_constants f) (LocalOperand x))"
    using assms(3) unfolding block_operands_def constants_in_block_def statement_operands_def
    by (auto simp: snd_map_flag case_prod_beta Let_def)
  then show ?thesis
    by (auto simp: constant_operand_def split: option.splits)
qed

lemma no_uses_left:
  assumes "\<not> snd (replace_all_uses f d (LocalOperand y))"
  shows "d \<notin> set (function_uses f)"
proof
  assume "d \<in> set (function_uses f)"
  then obtain b where b: "b \<in> set (of_blocks f)" "d \<in> set (block_uses b)"
    by (auto simp: function_uses_def)
  have no: "\<not> snd (replace_in_block d (LocalOperand y) b)"
    using assms b(1) by (auto simp: replace_all_uses_def snd_map_flag case_prod_beta Let_def)
  have op: "op = LocalOperand d" if "d \<in> set (operand_locals op)" for op
    using that by (cases op) auto
  show False
    using no b(2) unfolding replace_in_block_def block_uses_def statement_uses_def terminator_uses_def
      replace_in_terminator_def statement_operands_def
    by (auto simp: snd_map_flag case_prod_beta Let_def replace_operand_def operand_uses_local_def replace_local_def
        dest!: op split: if_splits)
qed

lemma no_copies_used:
  assumes "\<not> snd (fold replace_copy cs (f, False))"
  shows "fst (fold replace_copy cs (f, False)) = f \<and> (\<forall>c \<in> set cs. fst c \<notin> set (function_uses f))"
  using assms
proof (induction cs)
  case (Cons c cs)
  obtain d y where c: "c = (d, y)" by force
  have changed: "snd (fold replace_copy cs (g, True))" for cs g
    by (induction cs arbitrary: g) (auto simp: replace_copy_def case_prod_beta Let_def)
  have no: "\<not> snd (replace_all_uses f d (LocalOperand y))"
  proof
    assume "snd (replace_all_uses f d (LocalOperand y))"
    then have "replace_copy c (f, False) = (fst (replace_all_uses f d (LocalOperand y)), True)"
      by (cases "replace_all_uses f d (LocalOperand y)") (simp add: replace_copy_def c)
    then show False using Cons.prems changed by simp
  qed
  then have "replace_copy c (f, False) = (f, False)"
    using reportsD [OF reports_replace_all_uses, of f d "LocalOperand y"]
    by (cases "replace_all_uses f d (LocalOperand y)") (simp add: replace_copy_def c)
  then show ?case
    using Cons no_uses_left [OF no] c by auto
qed simp

lemma optimize_once_normal:
  assumes "ssa f" "\<not> snd (optimize_once f)"
  shows "fst (optimize_once f) = f \<and> opt_normal f"
proof -
  have 1: "\<not> snd (constant_propagation f)" "fst (constant_propagation f) = f"
    using assms(2) reportsD [OF reports_constant_propagation, of f]
    by (simp_all add: optimize_once_def case_prod_beta Let_def)
  have 2: "\<not> snd (copy_propagation f)"
    using assms(2) 1 by (simp add: optimize_once_def case_prod_beta Let_def)
  note copies = no_copies_used [OF 2 [unfolded copy_propagation_def]]
  have 3: "\<not> snd (dead_store_elimination f)"
    using assms(2) 1 copies by (simp add: optimize_once_def case_prod_beta Let_def copy_propagation_def)
  have dead: "\<not> removable f s" if "s \<in> set (function_statements f)" for s
    using 3 that by (simp add: dead_store_elimination_def list_ex_iff)
  have "find_copies f = []"
  proof (rule ccontr)
    assume "find_copies f \<noteq> []"
    then obtain d y where dy: "(d, y) \<in> set (find_copies f)" by (cases "find_copies f") auto
    then obtain s where s: "s \<in> set (function_statements f)" "os_kind s = StAssign" "os_dest s = d"
      "rv_kind (os_rvalue s) = RvUse"
      unfolding find_copies_iff is_copy_def by blast
    have "removable f s"
      using s find_copies_dest [OF assms(1) dy] copies dy
      by (auto simp: removable_def build_use_counts_def count_list_0_iff)
    then show False using dead s(1) by blast
  qed
  then show ?thesis
    using 1 copies dead reportsD [OF reports_dead_store_elimination 3] no_constants_left [OF 1(1)]
    by (simp add: opt_normal_def optimize_once_def case_prod_beta Let_def copy_propagation_def)
qed

subsection \<open>Acyclic copies are needed\<close>

definition copy_graph :: "opt_function \<Rightarrow> (local_ref \<times> local_ref) set" where
  "copy_graph f = set (find_copies f)"

definition flow_graph :: "opt_function \<Rightarrow> (nat \<times> nat) set" where
  "flow_graph f = {(b, t). b < length (of_blocks f) \<and>
     t \<in> set (terminator_targets (bb_terminator (of_blocks f ! b)))}"

lemma acyclic_ranked:
  assumes "finite R" "acyclic R"
  obtains rnk :: "'a \<Rightarrow> nat" where "\<And>x y. (x, y) \<in> R \<Longrightarrow> rnk y < rnk x"
proof
  fix x y
  assume xy: "(x, y) \<in> R"
  have "{z. (y, z) \<in> R\<^sup>+} \<subset> {z. (x, z) \<in> R\<^sup>+}"
  proof
    show "{z. (y, z) \<in> R\<^sup>+} \<subseteq> {z. (x, z) \<in> R\<^sup>+}" using xy by (auto intro: trancl_into_trancl2)
    show "{z. (y, z) \<in> R\<^sup>+} \<noteq> {z. (x, z) \<in> R\<^sup>+}" using xy assms(2) by (auto simp: acyclic_def)
  qed
  moreover have "finite {z. (x, z) \<in> R\<^sup>+}"
    by (rule finite_subset [of _ "snd ` (R\<^sup>+)"]) (use assms(1) in \<open>force+\<close>)
  ultimately show "card {z. (y, z) \<in> R\<^sup>+} < card {z. (x, z) \<in> R\<^sup>+}"
    by (rule psubset_card_mono [rotated])
qed

lemma acyclic_copies_ranked:
  assumes "acyclic (copy_graph f)"
  obtains crk where "ranked_copies crk f"
proof -
  obtain crk where "\<And>x y. (x, y) \<in> copy_graph f \<Longrightarrow> crk y < (crk x :: nat)"
    using acyclic_ranked [of "copy_graph f"] assms by (auto simp: copy_graph_def)
  then have "ranked_copies crk f"
    by (auto simp: ranked_copies_def copy_graph_def find_copies_iff)
  then show thesis by (rule that)
qed

lemma acyclic_flow_ranked:
  assumes "acyclic (flow_graph f)"
  obtains rnk where "ranked_blocks rnk f"
proof -
  have "flow_graph f = (\<Union>b < length (of_blocks f). Pair b ` set (terminator_targets (bb_terminator (of_blocks f ! b))))"
    by (auto simp: flow_graph_def)
  then have "finite (flow_graph f)" by simp
  from acyclic_ranked [OF this assms] obtain rnk where "\<And>x y. (x, y) \<in> flow_graph f \<Longrightarrow> rnk y < (rnk x :: nat)"
    by blast
  then have "ranked_blocks rnk f" by (simp add: ranked_blocks_def flow_graph_def)
  then show thesis by (rule that)
qed

text \<open>Locals that are copies of each other, without a beginning: no round can take them away.\<close>

definition endless_copies :: "opt_function \<Rightarrow> local_ref set \<Rightarrow> bool" where
  "endless_copies f S \<longleftrightarrow> S \<noteq> {} \<and> (\<forall>x \<in> S. \<exists>y \<in> S. is_copy f x y)"

lemma endless_copiesD: "endless_copies f S \<Longrightarrow> x \<in> S \<Longrightarrow> \<exists>y \<in> S. is_copy f x y"
  by (simp add: endless_copies_def)

lemma cyclic_endless:
  assumes "\<not> acyclic (copy_graph f)"
  shows "\<exists>S. endless_copies f S"
proof -
  obtain x where x: "(x, x) \<in> (copy_graph f)\<^sup>+" using assms by (auto simp: acyclic_def)
  let ?S = "{z. (x, z) \<in> (copy_graph f)\<^sup>+ \<and> (z, x) \<in> (copy_graph f)\<^sup>+}"
  have "\<exists>y \<in> ?S. is_copy f z y" if z: "z \<in> ?S" for z
  proof -
    obtain y where y: "(z, y) \<in> copy_graph f" "(y, x) \<in> (copy_graph f)\<^sup>*"
      using z by (auto dest: tranclD)
    then have "y \<in> ?S"
      using z x by (auto intro: trancl_into_trancl rtrancl_trancl_trancl)
    then show ?thesis
      using y(1) by (auto simp: copy_graph_def find_copies_iff)
  qed
  then have "endless_copies f ?S"
    using x by (auto simp: endless_copies_def)
  then show ?thesis by blast
qed

lemma is_copy_uses: "is_copy f x y \<Longrightarrow> y \<in> set (function_uses f)"
proof -
  assume "is_copy f x y"
  then obtain b s where "b \<in> set (of_blocks f)" "s \<in> set (bb_statements b)" "rv_operands (os_rvalue s) = [LocalOperand y]"
    by (auto simp: is_copy_def function_statements_def)
  then have "y \<in> set (block_uses b)"
    by (force simp: block_uses_def statement_uses_def)
  then show "y \<in> set (function_uses f)"
    using \<open>b \<in> set (of_blocks f)\<close> by (auto simp: function_uses_def)
qed

lemma ssa_copy_unique: "ssa f \<Longrightarrow> is_copy f x y \<Longrightarrow> is_copy f x z \<Longrightarrow> y = z"
  using ssa_one_statement unfolding is_copy_def by fastforce

lemma endless_constants:
  assumes "ssa f" "endless_copies f S"
  shows "endless_copies (fst (constant_propagation f)) S"
proof -
  have "known_constants f y = None" if "is_copy f y z" for y z
  proof (rule ccontr)
    assume "known_constants f y \<noteq> None"
    then obtain c where "known_constants f y = Some c" by blast
    from known_constantsD [OF this] that show False
      using ssa_one_statement [OF assms(1)] unfolding is_copy_def by fastforce
  qed
  then have "is_copy (fst (constant_propagation f)) x y" if "is_copy f x y" "is_copy f y z" for x y z
    unfolding constant_propagation_rename is_copy_rename
    using that(1,2) by (fastforce simp: is_copy_def constant_operand_def)
  then show ?thesis
    using assms(2) unfolding endless_copies_def by metis
qed

lemma endless_replace:
  assumes "endless_copies f S" "d \<in> S \<Longrightarrow> y \<in> S"
  shows "endless_copies (fst (replace_all_uses f d (LocalOperand y))) S"
proof -
  have "\<exists>z \<in> S. is_copy (rename (subst_operand d y) (subst_local d y) f) x z" if x: "x \<in> S" for x
  proof -
    obtain u where u: "u \<in> S" "is_copy f x u"
      using endless_copiesD [OF assms(1) x] by blast
    have "is_copy (rename (subst_operand d y) (subst_local d y) f) x (if u = d then y else u)"
    proof -
      obtain s where "s \<in> set (function_statements f)" "os_kind s = StAssign" "os_dest s = x"
        "rv_kind (os_rvalue s) = RvUse" "rv_operands (os_rvalue s) = [LocalOperand u]"
        using u(2) unfolding is_copy_def by blast
      moreover have "subst_operand d y (LocalOperand u) = LocalOperand (if u = d then y else u)"
        by (simp add: subst_operand_def)
      ultimately show ?thesis unfolding is_copy_rename by blast
    qed
    then show ?thesis
      using u(1) assms(2) by (intro bexI [of _ "if u = d then y else u"]) auto
  qed
  then show ?thesis
    using assms(1) by (auto simp: endless_copies_def replace_all_uses_rename)
qed

lemma endless_fold:
  assumes "endless_copies f S" "\<And>d y. (d, y) \<in> set cs \<Longrightarrow> d \<in> S \<Longrightarrow> y \<in> S"
  shows "endless_copies (fst (fold replace_copy cs (f, c))) S"
  using assms
proof (induction cs arbitrary: f c)
  case (Cons dy cs)
  obtain d y where dy: "dy = (d, y)" by force
  obtain f1 c1 where 1: "replace_copy dy (f, c) = (f1, c1)" by force
  have "endless_copies f1 S"
    using endless_replace [OF Cons.prems(1), of d y] Cons.prems(2) 1
    by (auto simp: replace_copy_def dy case_prod_beta Let_def)
  from Cons.IH [OF this] have "endless_copies (fst (fold replace_copy cs (f1, c1))) S"
    using Cons.prems(2) by (meson list.set_intros(2))
  then show ?case by (simp add: 1)
qed simp

lemma endless_copy_propagation:
  assumes "ssa f" "endless_copies f S"
  shows "endless_copies (fst (copy_propagation f)) S \<and> snd (copy_propagation f)"
proof
  show "endless_copies (fst (copy_propagation f)) S"
    unfolding copy_propagation_def
  proof (rule endless_fold [OF assms(2)])
    fix d y
    assume "(d, y) \<in> set (find_copies f)" "d \<in> S"
    then show "y \<in> S"
      using endless_copiesD [OF assms(2)] ssa_copy_unique [OF assms(1)] by (metis find_copies_iff)
  qed
  show "snd (copy_propagation f)"
  proof (rule ccontr)
    assume "\<not> snd (copy_propagation f)"
    from no_copies_used [OF this [unfolded copy_propagation_def]]
    have unused: "x \<notin> set (function_uses f)" if "is_copy f x y" for x y
      using that by (force simp flip: find_copies_iff)
    obtain x where "x \<in> S" using assms(2) by (auto simp: endless_copies_def)
    then obtain y z where "is_copy f x y" "is_copy f y z"
      using endless_copiesD [OF assms(2)] by metis
    then show False using unused is_copy_uses by blast
  qed
qed

lemma endless_dead_stores:
  assumes "endless_copies f S"
  shows "endless_copies (fst (dead_store_elimination f)) (S \<inter> set (function_uses f))"
proof -
  have stays: "is_copy (fst (dead_store_elimination f)) x y"
    if "is_copy f x y" "x \<in> set (function_uses f)" for x y
    using that by (auto simp: is_copy_def function_statements_dead removable_def build_use_counts_def count_list_0_iff)
  have succ: "\<exists>y \<in> S \<inter> set (function_uses f). is_copy f x y" if "x \<in> S" for x
    using endless_copiesD [OF assms that] is_copy_uses by blast
  obtain x where "x \<in> S" using assms by (auto simp: endless_copies_def)
  then have "S \<inter> set (function_uses f) \<noteq> {}" using succ by blast
  then show ?thesis
    unfolding endless_copies_def using succ stays by (meson IntD1 IntD2)
qed

lemma endless_round:
  assumes "ssa f" "endless_copies f S"
  shows "\<exists>S'. endless_copies (fst (optimize_once f)) S'" "snd (optimize_once f)"
proof -
  have "ssa (fst (constant_propagation f))" using assms(1) by (simp add: constant_propagation_rename)
  note 1 = endless_copy_propagation [OF this endless_constants [OF assms]]
  from endless_dead_stores [OF conjunct1 [OF 1]]
  show "\<exists>S'. endless_copies (fst (optimize_once f)) S'" by (auto simp: optimize_once_eq)
  show "snd (optimize_once f)" using 1 by (simp add: optimize_once_eq)
qed

lemma optimize_returns_iff:
  assumes "ssa f"
  shows "(\<exists>r. optimize f = Some r) \<longleftrightarrow> acyclic (copy_graph f)"
proof
  assume "acyclic (copy_graph f)"
  then obtain crk where "ranked_copies crk f" by (rule acyclic_copies_ranked)
  then have "opt_ok crk f" using assms by (simp add: opt_ok_def)
  from optimize_loop_ends [OF this, of "\<lambda>_. True" False] show "\<exists>r. optimize f = Some r"
    by (auto simp: optimize_def)
next
  assume r: "\<exists>r. optimize f = Some r"
  show "acyclic (copy_graph f)"
  proof (rule ccontr)
    assume "\<not> acyclic (copy_graph f)"
    then have "ssa f \<and> (\<exists>S. endless_copies f S)" using cyclic_endless assms by blast
    then have "optimize f = None"
      by (rule optimize_diverges) (use endless_round round_pass.pass_ssa in blast)
    then show False using r by simp
  qed
qed

lemma optimize_correct:
  assumes "ssa f" "acyclic (copy_graph f)" "acyclic (flow_graph f)" "effects_in_calls sem"
  shows "\<exists>f' c. optimize f = Some (f', c) \<and> opt_normal f' \<and> ssa f' \<and>
    (\<forall>vs w res. opt_result sem f vs w res \<longrightarrow> opt_result sem f' vs w res)"
proof -
  obtain crk where crk: "ranked_copies crk f" using assms(2) by (rule acyclic_copies_ranked)
  obtain rnk where rnk: "ranked_blocks rnk f" using assms(3) by (rule acyclic_flow_ranked)
  let ?P = "\<lambda>g. ranked_blocks rnk g \<and> (\<forall>vs w res. opt_result sem f vs w res \<longrightarrow> opt_result sem g vs w res)"
  have "\<exists>g c. optimize_loop False f = Some (fst (optimize_once g), c) \<and> \<not> snd (optimize_once g) \<and> ssa g \<and> ?P g"
  proof (rule optimize_loop_ends [of crk])
    show "?P (fst (optimize_once g))" if "ssa g" "?P g" for g
      by (rule round_pass.pass_keeps_runs [OF assms(4) that])
  qed (use assms(1) crk rnk in \<open>simp_all add: opt_ok_def\<close>)
  then obtain g c where g: "optimize f = Some (fst (optimize_once g), c)" "\<not> snd (optimize_once g)" "ssa g" "?P g"
    by (auto simp: optimize_def)
  from optimize_once_normal [OF g(3,2)] g show ?thesis by auto
qed

end
