(* ===== verification/Opt_Verify.thy ===== *)
theory Opt_Verify
  imports Opt_Correct
begin

section \<open>The verifier of the optimization IR\<close>

text \<open>
  \<open>src/compiler/ir/opt/opt_verify.cpp\<close>: the checks of a function in the order of the code, with
  the two bit vectors that record which locals are defined and used, and the search for
  unreachable blocks. The state of \<open>FunctionVerifier\<close> is passed along; a check appends
  diagnostics.

  The theorems state what the verifier decides: it reports an error exactly when the function
  is not well formed (\<open>opt_well_formed\<close>, a predicate without state), and a warning for exactly the blocks
  that cannot be reached from the entry.
\<close>

subsection \<open>State and diagnostics\<close>

datatype verification_severity = VerifyError | VerifyWarning

record verification_diagnostic =
  vd_severity :: verification_severity
  vd_function_name :: string
  vd_block_id :: "nat option"
  vd_message :: string

record verifier =
  vf_diagnostics :: "verification_diagnostic list"
  vf_definitions :: "bool list"
  vf_uses :: "bool list"

definition verification_has_errors :: "verification_diagnostic list \<Rightarrow> bool" where
  "verification_has_errors ds = list_ex (\<lambda>d. vd_severity d = VerifyError) ds"

definition verification_has_warnings :: "verification_diagnostic list \<Rightarrow> bool" where
  "verification_has_warnings ds = list_ex (\<lambda>d. vd_severity d = VerifyWarning) ds"

definition add_verification ::
  "opt_function \<Rightarrow> verification_severity \<Rightarrow> string \<Rightarrow> nat option \<Rightarrow> verifier \<Rightarrow> verifier" where
  "add_verification f severity message block_id st =
     st\<lparr>vf_diagnostics := vf_diagnostics st @
       [\<lparr>vd_severity = severity, vd_function_name = of_name f, vd_block_id = block_id,
         vd_message = message\<rparr>]\<rparr>"

definition add_error :: "opt_function \<Rightarrow> string \<Rightarrow> nat option \<Rightarrow> verifier \<Rightarrow> verifier" where
  "add_error f = add_verification f VerifyError"

definition add_warning :: "opt_function \<Rightarrow> string \<Rightarrow> nat option \<Rightarrow> verifier \<Rightarrow> verifier" where
  "add_warning f = add_verification f VerifyWarning"

text \<open>The common shape \<open>if (!condition) add_error(...)\<close>.\<close>

definition require :: "opt_function \<Rightarrow> bool \<Rightarrow> string \<Rightarrow> nat option \<Rightarrow> verifier \<Rightarrow> verifier" where
  "require f ok message block_id st = (if ok then st else add_error f message block_id st)"

subsection \<open>Types, ranges and references\<close>

definition is_resolved :: "type_ref \<Rightarrow> bool" where
  "is_resolved t \<longleftrightarrow> tr_kind t \<noteq> TyUnresolved"

fun type_refs_compatible :: "type_ref \<Rightarrow> type_ref \<Rightarrow> bool" where
  "type_refs_compatible (TypeRef k d c v b s p q) (TypeRef k' d' c' v' b' s' p' q') =
     (if k = TyUnresolved \<or> k' = TyUnresolved then True
      else if k \<noteq> k' then False
      else if c \<noteq> [] \<and> c' \<noteq> [] \<and> c \<noteq> c' then False
      else if v \<noteq> [] \<and> v' \<noteq> [] \<and> v \<noteq> v' then False
      else if b \<noteq> None \<and> b' \<noteq> None \<and> b \<noteq> b' then False
      else if s \<noteq> None \<and> s' \<noteq> None \<and> s \<noteq> s' then False
      else if (case (p, p') of (Some x, Some y) \<Rightarrow> \<not> type_refs_compatible x y | _ \<Rightarrow> False) then False
      else if (case (q, q') of (Some x, Some y) \<Rightarrow> \<not> type_refs_compatible x y | _ \<Rightarrow> False) then False
      else True)"

definition source_range_has_valid_order :: "source_range \<Rightarrow> bool" where
  "source_range_has_valid_order r \<longleftrightarrow> snd r \<ge> fst r"

definition valid_block_ref :: "opt_function \<Rightarrow> nat \<Rightarrow> bool" where
  "valid_block_ref f b \<longleftrightarrow> b < length (of_blocks f)"

definition valid_local_ref :: "opt_function \<Rightarrow> local_ref \<Rightarrow> bool" where
  "valid_local_ref f x \<longleftrightarrow> x \<noteq> no_local \<and> x < length (of_locals f)"

definition valid_optional_local_ref :: "opt_function \<Rightarrow> local_ref \<Rightarrow> bool" where
  "valid_optional_local_ref f x \<longleftrightarrow> x = no_local \<or> x < length (of_locals f)"

definition local_type :: "opt_function \<Rightarrow> local_ref \<Rightarrow> type_ref option" where
  "local_type f x = (if valid_local_ref f x then Some (ol_type (of_locals f ! x)) else None)"

definition mark_local_definition :: "local_ref \<Rightarrow> verifier \<Rightarrow> verifier" where
  "mark_local_definition x st =
     (if x \<noteq> no_local \<and> x < length (vf_definitions st)
      then st\<lparr>vf_definitions := (vf_definitions st)[x := True]\<rparr> else st)"

definition mark_local_use :: "local_ref \<Rightarrow> verifier \<Rightarrow> verifier" where
  "mark_local_use x st =
     (if x \<noteq> no_local \<and> x < length (vf_uses st)
      then st\<lparr>vf_uses := (vf_uses st)[x := True]\<rparr> else st)"

definition verify_source_range ::
  "opt_function \<Rightarrow> source_range option \<Rightarrow> string \<Rightarrow> nat option \<Rightarrow> verifier \<Rightarrow> verifier" where
  "verify_source_range f span label block_id st =
     (case span of
        None \<Rightarrow> st
      | Some r \<Rightarrow> require f (source_range_has_valid_order r) (label @ '' has end before begin'') block_id st)"

definition verify_block_target :: "opt_function \<Rightarrow> nat \<Rightarrow> string \<Rightarrow> nat \<Rightarrow> verifier \<Rightarrow> verifier" where
  "verify_block_target f target label block_id =
     require f (valid_block_ref f target) (label @ '' is out of range'') (Some block_id)"

definition verify_required_bool_local ::
  "opt_function \<Rightarrow> local_ref \<Rightarrow> string \<Rightarrow> nat \<Rightarrow> verifier \<Rightarrow> verifier" where
  "verify_required_bool_local f x label block_id st =
     (if \<not> valid_local_ref f x then add_error f (label @ '' local is invalid'') (Some block_id) st
      else
        (let st1 = mark_local_use x st; type = ol_type (of_locals f ! x)
         in require f (\<not> (is_resolved type \<and> tr_kind type \<noteq> TyBool)) (label @ '' must have Bool type'')
              (Some block_id) st1))"

definition expect_operand_count ::
  "opt_function \<Rightarrow> rvalue \<Rightarrow> nat \<Rightarrow> string \<Rightarrow> nat \<Rightarrow> verifier \<Rightarrow> verifier" where
  "expect_operand_count f rv expected label block_id =
     require f (length (rv_operands rv) = expected)
       (label @ '' has '' @ nat_to_string (length (rv_operands rv)) @ '' operands; expected '' @
        nat_to_string expected) (Some block_id)"

fun verify_operand :: "opt_function \<Rightarrow> nat \<Rightarrow> operand \<Rightarrow> verifier \<Rightarrow> verifier" where
  "verify_operand f block_id (LocalOperand x) st =
     (if \<not> valid_local_ref f x then add_error f ''operand local is invalid'' (Some block_id) st
      else mark_local_use x st)"
| "verify_operand f block_id (ArgOperand i) st =
     require f (\<not> i \<ge> of_arg_count f) ''argument operand index is out of range'' (Some block_id) st"
| "verify_operand f block_id (ConstOperand c) st = st"

definition verify_rvalue_shape :: "opt_function \<Rightarrow> rvalue \<Rightarrow> nat \<Rightarrow> verifier \<Rightarrow> verifier" where
  "verify_rvalue_shape f rv block_id st =
     (case rv_kind rv of
        RvUse \<Rightarrow> expect_operand_count f rv 1 ''use rvalue'' block_id st
      | RvBinaryOp \<Rightarrow>
          require f (rv_op rv \<noteq> []) ''binary rvalue has no operator'' (Some block_id)
            (expect_operand_count f rv 2 ''binary rvalue'' block_id st)
      | RvUnaryOp \<Rightarrow>
          require f (rv_op rv \<noteq> []) ''unary rvalue has no operator'' (Some block_id)
            (expect_operand_count f rv 1 ''unary rvalue'' block_id st)
      | RvCall \<Rightarrow> require f (rv_callee rv \<noteq> []) ''call rvalue has no callee'' (Some block_id) st
      | RvAggregate \<Rightarrow> st
      | RvField \<Rightarrow>
          require f (rv_field_name rv \<noteq> []) ''field rvalue has no field name'' (Some block_id)
            (expect_operand_count f rv 1 ''field rvalue'' block_id st)
      | RvIndex \<Rightarrow> expect_operand_count f rv 2 ''index rvalue'' block_id st)"

definition verify_rvalue :: "opt_function \<Rightarrow> rvalue \<Rightarrow> nat \<Rightarrow> verifier \<Rightarrow> verifier" where
  "verify_rvalue f rv block_id st =
     fold (verify_operand f block_id) (rv_operands rv) (verify_rvalue_shape f rv block_id st)"

subsection \<open>Statements, terminators, blocks\<close>

definition verify_statement :: "opt_function \<Rightarrow> nat \<Rightarrow> opt_statement \<Rightarrow> verifier \<Rightarrow> verifier" where
  "verify_statement f block_id s st0 =
     (let st = verify_source_range f (os_range s) ''statement source range'' (Some block_id) st0
      in (case os_kind s of
            StAssign \<Rightarrow>
              verify_rvalue f (os_rvalue s) block_id
                (if \<not> valid_local_ref f (os_dest s)
                 then add_error f ''assignment destination local is invalid'' (Some block_id) st
                 else require f
                   (type_refs_compatible (ol_type (of_locals f ! os_dest s)) (rv_result_type (os_rvalue s)))
                   ''assignment result type does not match destination local type'' (Some block_id)
                   (mark_local_definition (os_dest s) st))
          | StStorageLive \<Rightarrow>
              require f (valid_local_ref f (os_dest s)) ''storage statement local is invalid'' (Some block_id) st
          | StStorageDead \<Rightarrow>
              require f (valid_local_ref f (os_dest s)) ''storage statement local is invalid'' (Some block_id) st
          | StNop \<Rightarrow> st))"

definition verify_terminator :: "opt_function \<Rightarrow> nat \<Rightarrow> terminator \<Rightarrow> verifier \<Rightarrow> verifier" where
  "verify_terminator f block_id t st0 =
     (let st = verify_source_range f (tm_range t) ''terminator source range'' (Some block_id) st0
      in (case tm_kind t of
            TmGoto \<Rightarrow> verify_block_target f (tm_target t) ''goto target'' block_id st
          | TmSwitchBool \<Rightarrow>
              verify_block_target f (tm_else_block t) ''switch else target'' block_id
                (verify_block_target f (tm_then_block t) ''switch then target'' block_id
                  (verify_required_bool_local f (tm_condition t) ''switch condition'' block_id st))
          | TmReturn \<Rightarrow>
              if \<not> valid_optional_local_ref f (tm_return_value t)
              then add_error f ''return value local is invalid'' (Some block_id) st
              else if tm_return_value t \<noteq> no_local
              then
                (let st1 = mark_local_use (tm_return_value t) st
                 in (case local_type f (tm_return_value t) of
                       None \<Rightarrow> st1
                     | Some type \<Rightarrow>
                         require f (type_refs_compatible (of_return_type f) type)
                           ''return value type does not match function return type'' (Some block_id) st1))
              else st
          | TmCall \<Rightarrow>
              (let st1 = require f (tm_callee t \<noteq> []) ''call terminator has no callee'' (Some block_id) st;
                   st2 = fold (verify_operand f block_id) (tm_args t) st1;
                   st3 = (if \<not> valid_optional_local_ref f (tm_call_dest t)
                          then add_error f ''call destination local is invalid'' (Some block_id) st2
                          else if tm_call_dest t \<noteq> no_local then mark_local_definition (tm_call_dest t) st2
                          else st2)
               in verify_block_target f (tm_call_resume t) ''call resume target'' block_id st3)
          | TmAssert \<Rightarrow>
              verify_block_target f (tm_target t) ''assert resume target'' block_id
                (verify_required_bool_local f (tm_condition t) ''assert condition'' block_id st)
          | TmUnreachable \<Rightarrow> st))"

definition verify_block :: "opt_function \<Rightarrow> basic_block \<Rightarrow> verifier \<Rightarrow> verifier" where
  "verify_block f b st =
     verify_terminator f (bb_id b) (bb_terminator b)
       (fold (verify_statement f (bb_id b)) (bb_statements b) st)"

text \<open>The loop over the vector of locals: \<open>ids\<close> are the ids met so far.\<close>

fun verify_locals_from :: "opt_function \<Rightarrow> nat \<Rightarrow> nat list \<Rightarrow> opt_local list \<Rightarrow> verifier \<Rightarrow> verifier" where
  "verify_locals_from f i ids [] st = st"
| "verify_locals_from f i ids (l # ls) st =
     verify_locals_from f (i + 1) (ol_id l # ids) ls
       (verify_source_range f (ol_range l) ''local source range'' None
         (require f (ol_id l \<notin> set ids) (''duplicate local id '' @ nat_to_string (ol_id l)) None
           (require f (ol_id l = i) ''local id does not match its vector index'' None st)))"

definition verify_locals :: "opt_function \<Rightarrow> verifier \<Rightarrow> verifier" where
  "verify_locals f = verify_locals_from f 0 [] (of_locals f)"

fun verify_blocks_from :: "opt_function \<Rightarrow> nat \<Rightarrow> nat list \<Rightarrow> basic_block list \<Rightarrow> verifier \<Rightarrow> verifier" where
  "verify_blocks_from f i ids [] st = st"
| "verify_blocks_from f i ids (b # bs) st =
     verify_blocks_from f (i + 1) (bb_id b # ids) bs
       (verify_block f b
         (require f (bb_id b \<notin> set ids) (''duplicate basic block id '' @ nat_to_string (bb_id b)) (Some (bb_id b))
           (require f (bb_id b = i) ''basic block id does not match its vector index'' (Some (bb_id b)) st)))"

definition verify_definition :: "opt_function \<Rightarrow> nat \<Rightarrow> verifier \<Rightarrow> verifier" where
  "verify_definition f i st =
     require f (\<not> (vf_uses st ! i \<and> \<not> vf_definitions st ! i))
       (''local %'' @ nat_to_string i @ '' is used without a definition'') None st"

definition verify_blocks :: "opt_function \<Rightarrow> verifier \<Rightarrow> verifier" where
  "verify_blocks f st =
     (let st1 = verify_blocks_from f 0 [] (of_blocks f) st
      in fold (verify_definition f) [of_arg_count f..<length (vf_uses st1)] st1)"

definition verify_function_shape :: "opt_function \<Rightarrow> verifier \<Rightarrow> verifier" where
  "verify_function_shape f st =
     (let st1 = require f (of_name f \<noteq> []) ''function name is empty'' None st;
          st2 = require f (\<not> of_arg_count f > length (of_locals f)) ''arg_count exceeds local count'' None st1;
          st3 = require f (of_blocks f \<noteq> []) ''function has no entry block'' None st2;
          st4 = verify_source_range f (of_range f) ''function source range'' None st3
      in st4\<lparr>vf_definitions := map (\<lambda>i. i < of_arg_count f) [0..<length (of_locals f)],
             vf_uses := replicate (length (of_locals f)) False\<rparr>)"

subsection \<open>Unreachable blocks\<close>

fun mark_target :: "nat \<Rightarrow> bool list \<times> nat list \<Rightarrow> bool list \<times> nat list" where
  "mark_target t (reachable, worklist) =
     (if t < length reachable \<and> \<not> reachable ! t then (reachable[t := True], t # worklist)
      else (reachable, worklist))"

lemma filter_Not_update:
  "t < length r \<Longrightarrow> \<not> r ! t \<Longrightarrow> length (filter Not (r[t := True])) < length (filter Not r)"
proof (induction r arbitrary: t)
  case (Cons x r)
  then show ?case by (cases t) auto
qed simp

lemma mark_targets_measure:
  "(case fold mark_target ts (r, ws) of (r', ws') \<Rightarrow>
      2 * length (filter Not r') + length ws' \<le> 2 * length (filter Not r) + length ws)"
proof (induction ts arbitrary: r ws)
  case (Cons t ts)
  show ?case
    using Cons [of r ws] Cons [of "r[t := True]" "t # ws"] filter_Not_update [of t r]
    by (auto split: prod.splits)
qed simp

text \<open>The work list is a stack; its top is the head of the list.\<close>

function reach_loop :: "opt_function \<Rightarrow> bool list \<Rightarrow> nat list \<Rightarrow> bool list" where
  "reach_loop f reachable [] = reachable"
| "reach_loop f reachable (b # worklist) =
     (let (reachable', worklist') =
        fold mark_target (terminator_targets (bb_terminator (of_blocks f ! b))) (reachable, worklist)
      in reach_loop f reachable' worklist')"
  by pat_completeness auto
termination
proof (relation "measure (\<lambda>(f, r, ws). 2 * length (filter Not r) + length ws)", goal_cases)
  case (2 f r b ws x r' ws')
  then show ?case
    using mark_targets_measure [where ts = "terminator_targets (bb_terminator (of_blocks f ! b))" and r = r and ws = ws] by auto
qed simp

definition reachable_blocks :: "opt_function \<Rightarrow> bool list" where
  "reachable_blocks f = reach_loop f ((replicate (length (of_blocks f)) False)[0 := True]) [0]"

definition warn_unreachable :: "opt_function \<Rightarrow> bool list \<Rightarrow> nat \<Rightarrow> verifier \<Rightarrow> verifier" where
  "warn_unreachable f reachable i st =
     (if \<not> reachable ! i then add_warning f ''basic block is unreachable'' (Some i) st else st)"

definition verify_unreachable_blocks :: "opt_function \<Rightarrow> verifier \<Rightarrow> verifier" where
  "verify_unreachable_blocks f st =
     (if of_blocks f = [] then st
      else fold (warn_unreachable f (reachable_blocks f)) [0..<length (reachable_blocks f)] st)"

definition verify_opt_function :: "opt_function \<Rightarrow> verification_diagnostic list" where
  "verify_opt_function f =
     vf_diagnostics (verify_unreachable_blocks f (verify_blocks f (verify_locals f
       (verify_function_shape f \<lparr>vf_diagnostics = [], vf_definitions = [], vf_uses = []\<rparr>))))"

subsection \<open>Programs\<close>

record skipped_temporal_fragment =
  sf_scope :: string
  sf_kind :: string
  sf_reason :: string
  sf_range :: "source_range option"

record opt_program =
  op_functions :: "opt_function list"
  op_skipped :: "skipped_temporal_fragment list"
  op_source_version :: string

definition program_error :: "string \<Rightarrow> string \<Rightarrow> verification_diagnostic list" where
  "program_error name message =
     [\<lparr>vd_severity = VerifyError, vd_function_name = name, vd_block_id = None, vd_message = message\<rparr>]"

definition verify_fragment :: "skipped_temporal_fragment \<Rightarrow> verification_diagnostic list" where
  "verify_fragment s =
     (if sf_scope s = [] then program_error ''opt_program'' ''skipped temporal fragment scope is empty'' else []) @
     (if sf_kind s = [] then program_error ''opt_program'' ''skipped temporal fragment kind is empty'' else []) @
     (if sf_reason s = [] then program_error ''opt_program'' ''skipped temporal fragment reason is empty'' else []) @
     (case sf_range s of
        None \<Rightarrow> []
      | Some r \<Rightarrow>
          if \<not> source_range_has_valid_order r
          then program_error (if sf_scope s = [] then ''opt_program'' else sf_scope s)
            ''skipped temporal fragment source range has end before begin''
          else [])"

definition verify_opt_program :: "opt_program \<Rightarrow> verification_diagnostic list" where
  "verify_opt_program p =
     concat (map verify_fragment (op_skipped p)) @ concat (map verify_opt_function (op_functions p))"

subsection \<open>Well-formed functions\<close>

definition range_ok :: "source_range option \<Rightarrow> bool" where
  "range_ok r \<longleftrightarrow> (case r of None \<Rightarrow> True | Some (b, e) \<Rightarrow> b \<le> e)"

fun operand_ok :: "opt_function \<Rightarrow> operand \<Rightarrow> bool" where
  "operand_ok f (LocalOperand x) = valid_local_ref f x"
| "operand_ok f (ArgOperand i) = (i < of_arg_count f)"
| "operand_ok f (ConstOperand c) = True"

definition rvalue_ok :: "opt_function \<Rightarrow> rvalue \<Rightarrow> bool" where
  "rvalue_ok f rv \<longleftrightarrow>
     (case rv_kind rv of
        RvUse \<Rightarrow> length (rv_operands rv) = 1
      | RvBinaryOp \<Rightarrow> length (rv_operands rv) = 2 \<and> rv_op rv \<noteq> []
      | RvUnaryOp \<Rightarrow> length (rv_operands rv) = 1 \<and> rv_op rv \<noteq> []
      | RvCall \<Rightarrow> rv_callee rv \<noteq> []
      | RvAggregate \<Rightarrow> True
      | RvField \<Rightarrow> length (rv_operands rv) = 1 \<and> rv_field_name rv \<noteq> []
      | RvIndex \<Rightarrow> length (rv_operands rv) = 2) \<and>
     (\<forall>op \<in> set (rv_operands rv). operand_ok f op)"

definition statement_ok :: "opt_function \<Rightarrow> opt_statement \<Rightarrow> bool" where
  "statement_ok f s \<longleftrightarrow> range_ok (os_range s) \<and>
     (case os_kind s of
        StAssign \<Rightarrow> valid_local_ref f (os_dest s) \<and>
          type_refs_compatible (ol_type (of_locals f ! os_dest s)) (rv_result_type (os_rvalue s)) \<and>
          rvalue_ok f (os_rvalue s)
      | StNop \<Rightarrow> True
      | _ \<Rightarrow> valid_local_ref f (os_dest s))"

definition bool_local_ok :: "opt_function \<Rightarrow> local_ref \<Rightarrow> bool" where
  "bool_local_ok f x \<longleftrightarrow> valid_local_ref f x \<and> tr_kind (ol_type (of_locals f ! x)) \<in> {TyUnresolved, TyBool}"

definition terminator_ok :: "opt_function \<Rightarrow> terminator \<Rightarrow> bool" where
  "terminator_ok f t \<longleftrightarrow> range_ok (tm_range t) \<and>
     (\<forall>b \<in> set (terminator_targets t). b < length (of_blocks f)) \<and>
     (case tm_kind t of
        TmSwitchBool \<Rightarrow> bool_local_ok f (tm_condition t)
      | TmAssert \<Rightarrow> bool_local_ok f (tm_condition t)
      | TmReturn \<Rightarrow> tm_return_value t = no_local \<or>
          valid_local_ref f (tm_return_value t) \<and>
          type_refs_compatible (of_return_type f) (ol_type (of_locals f ! tm_return_value t))
      | TmCall \<Rightarrow> tm_callee t \<noteq> [] \<and> (\<forall>op \<in> set (tm_args t). operand_ok f op) \<and>
          valid_optional_local_ref f (tm_call_dest t)
      | _ \<Rightarrow> True)"

text \<open>What the verifier counts as a definition and as a use.\<close>

fun operand_reads :: "opt_function \<Rightarrow> operand \<Rightarrow> local_ref list" where
  "operand_reads f (LocalOperand x) = (if valid_local_ref f x then [x] else [])"
| "operand_reads f _ = []"

definition statement_reads :: "opt_function \<Rightarrow> opt_statement \<Rightarrow> local_ref list" where
  "statement_reads f s =
     (if os_kind s = StAssign then concat (map (operand_reads f) (rv_operands (os_rvalue s))) else [])"

definition statement_writes :: "opt_function \<Rightarrow> opt_statement \<Rightarrow> local_ref list" where
  "statement_writes f s = (if os_kind s = StAssign \<and> valid_local_ref f (os_dest s) then [os_dest s] else [])"

definition terminator_reads :: "opt_function \<Rightarrow> terminator \<Rightarrow> local_ref list" where
  "terminator_reads f t =
     (case tm_kind t of
        TmSwitchBool \<Rightarrow> if valid_local_ref f (tm_condition t) then [tm_condition t] else []
      | TmAssert \<Rightarrow> if valid_local_ref f (tm_condition t) then [tm_condition t] else []
      | TmReturn \<Rightarrow> if valid_local_ref f (tm_return_value t) then [tm_return_value t] else []
      | TmCall \<Rightarrow> concat (map (operand_reads f) (tm_args t))
      | _ \<Rightarrow> [])"

definition terminator_writes :: "opt_function \<Rightarrow> terminator \<Rightarrow> local_ref list" where
  "terminator_writes f t = (if tm_kind t = TmCall \<and> valid_local_ref f (tm_call_dest t) then [tm_call_dest t] else [])"

definition block_reads :: "opt_function \<Rightarrow> basic_block \<Rightarrow> local_ref list" where
  "block_reads f b = concat (map (statement_reads f) (bb_statements b)) @ terminator_reads f (bb_terminator b)"

definition block_writes :: "opt_function \<Rightarrow> basic_block \<Rightarrow> local_ref list" where
  "block_writes f b = concat (map (statement_writes f) (bb_statements b)) @ terminator_writes f (bb_terminator b)"

definition block_ok :: "opt_function \<Rightarrow> basic_block \<Rightarrow> bool" where
  "block_ok f b \<longleftrightarrow> (\<forall>s \<in> set (bb_statements b). statement_ok f s) \<and> terminator_ok f (bb_terminator b)"

definition opt_well_formed :: "opt_function \<Rightarrow> bool" where
  "opt_well_formed f \<longleftrightarrow>
     of_name f \<noteq> [] \<and> of_arg_count f \<le> length (of_locals f) \<and> of_blocks f \<noteq> [] \<and> range_ok (of_range f) \<and>
     (\<forall>i < length (of_locals f). ol_id (of_locals f ! i) = i \<and> range_ok (ol_range (of_locals f ! i))) \<and>
     (\<forall>i < length (of_blocks f). bb_id (of_blocks f ! i) = i \<and> block_ok f (of_blocks f ! i)) \<and>
     (\<forall>b \<in> set (of_blocks f). \<forall>x \<in> set (block_reads f b). of_arg_count f \<le> x \<longrightarrow>
        (\<exists>b' \<in> set (of_blocks f). x \<in> set (block_writes f b')))"

subsection \<open>What a check does to the state\<close>

definition marked :: "local_ref list \<Rightarrow> bool list \<Rightarrow> bool list" where
  "marked xs bs = fold (\<lambda>x bs. bs[x := True]) xs bs"

definition check_effect ::
  "bool \<Rightarrow> local_ref list \<Rightarrow> local_ref list \<Rightarrow> (verifier \<Rightarrow> verifier) \<Rightarrow> bool" where
  "check_effect ok ws rs op \<longleftrightarrow>
     (\<forall>st. verification_has_errors (vf_diagnostics (op st)) = (verification_has_errors (vf_diagnostics st) \<or> \<not> ok) \<and>
        vf_definitions (op st) = marked ws (vf_definitions st) \<and> vf_uses (op st) = marked rs (vf_uses st))"

lemma marked_simps [simp]:
  "marked [] bs = bs" "marked (x # xs) bs = marked xs (bs[x := True])"
  "marked (xs @ ys) bs = marked ys (marked xs bs)" "length (marked xs bs) = length bs"
  by (simp_all add: marked_def) (induction xs arbitrary: bs; simp)

lemma marked_nth: "i < length bs \<Longrightarrow> marked xs bs ! i \<longleftrightarrow> bs ! i \<or> i \<in> set xs"
proof (induction xs arbitrary: bs)
  case (Cons x xs)
  then show ?case by (cases "x = i") auto
qed simp

lemma effect_id: "check_effect True [] [] (\<lambda>st. st)"
  by (simp add: check_effect_def)

lemma effect_then:
  assumes "check_effect ok ws rs op" "check_effect ok' ws' rs' op'"
  shows "check_effect (ok \<and> ok') (ws @ ws') (rs @ rs') (\<lambda>st. op' (op st))"
  using assms by (auto simp: check_effect_def)

lemma effect_fold:
  assumes "\<And>x. check_effect (ok x) (ws x) (rs x) (op x)"
  shows "check_effect (\<forall>x \<in> set xs. ok x) (concat (map ws xs)) (concat (map rs xs)) (fold op xs)"
proof (induction xs)
  case (Cons x xs)
  from effect_then [OF assms [of x] Cons] show ?case by (simp add: comp_def)
qed (simp add: effect_id id_def)

lemma has_errors_add [simp]:
  "verification_has_errors (vf_diagnostics (add_error f m b st))"
  "vf_definitions (add_error f m b st) = vf_definitions st" "vf_uses (add_error f m b st) = vf_uses st"
  by (simp_all add: add_error_def add_verification_def verification_has_errors_def)

lemma effect_error: "check_effect False [] [] (add_error f m b)"
  by (simp add: check_effect_def)

lemma effect_require: "check_effect ok [] [] (require f ok m b)"
  by (simp add: check_effect_def require_def)

lemma effect_definition: "x \<noteq> no_local \<Longrightarrow> check_effect True [x] [] (mark_local_definition x)"
  by (auto simp: check_effect_def mark_local_definition_def list_update_beyond)

lemma effect_use: "x \<noteq> no_local \<Longrightarrow> check_effect True [] [x] (mark_local_use x)"
  by (auto simp: check_effect_def mark_local_use_def list_update_beyond)

lemma effect_range: "check_effect (range_ok r) [] [] (verify_source_range f r label b)"
  by (auto simp: verify_source_range_def range_ok_def source_range_has_valid_order_def check_effect_def require_def
      split: option.split)

lemma effect_target: "check_effect (t < length (of_blocks f)) [] [] (verify_block_target f t label b)"
  unfolding verify_block_target_def valid_block_ref_def by (rule effect_require)

lemma effect_bool_local:
  "check_effect (bool_local_ok f x) [] (if valid_local_ref f x then [x] else [])
     (verify_required_bool_local f x label b)"
proof (cases "valid_local_ref f x")
  case True
  then have "x \<noteq> no_local" by (simp add: valid_local_ref_def)
  from effect_then [OF effect_use [OF this] effect_require] True show ?thesis
    by (auto simp: check_effect_def verify_required_bool_local_def bool_local_ok_def is_resolved_def Let_def)
qed (simp add: check_effect_def verify_required_bool_local_def bool_local_ok_def)

lemma effect_operand: "check_effect (operand_ok f op) [] (operand_reads f op) (verify_operand f b op)"
proof (cases op)
  case (LocalOperand x)
  then show ?thesis
    using effect_use [of x] by (auto simp: check_effect_def valid_local_ref_def)
next
  case (ArgOperand i)
  then show ?thesis using effect_require by (simp add: not_le check_effect_def require_def)
qed (simp add: check_effect_def)

lemma concat_nils [simp]: "concat (map (\<lambda>x. []) xs) = []"
  by (induction xs) simp_all

lemma effect_operands:
  "check_effect (\<forall>op \<in> set ops. operand_ok f op) [] (concat (map (operand_reads f) ops))
     (fold (verify_operand f b) ops)"
  using effect_fold [where op = "verify_operand f b" and ws = "\<lambda>_. []", OF effect_operand] by simp

lemma effect_rvalue:
  "check_effect (rvalue_ok f rv) [] (concat (map (operand_reads f) (rv_operands rv))) (verify_rvalue f rv b)"
proof -
  have "check_effect
      (case rv_kind rv of
         RvUse \<Rightarrow> length (rv_operands rv) = 1
       | RvBinaryOp \<Rightarrow> length (rv_operands rv) = 2 \<and> rv_op rv \<noteq> []
       | RvUnaryOp \<Rightarrow> length (rv_operands rv) = 1 \<and> rv_op rv \<noteq> []
       | RvCall \<Rightarrow> rv_callee rv \<noteq> []
       | RvAggregate \<Rightarrow> True
       | RvField \<Rightarrow> length (rv_operands rv) = 1 \<and> rv_field_name rv \<noteq> []
       | RvIndex \<Rightarrow> length (rv_operands rv) = 2) [] [] (verify_rvalue_shape f rv b)"
    by (auto simp: check_effect_def verify_rvalue_shape_def expect_operand_count_def require_def
        split: rvalue_kind.split)
  from effect_then [OF this effect_operands] show ?thesis
    by (simp add: verify_rvalue_def [abs_def] rvalue_ok_def)
qed

lemma effect_statement:
  "check_effect (statement_ok f s) (statement_writes f s) (statement_reads f s) (verify_statement f b s)"
proof (cases "os_kind s = StAssign")
  case False
  then show ?thesis
    using effect_then [OF effect_range effect_require] effect_range
    by (cases "os_kind s")
       (auto simp: check_effect_def verify_statement_def statement_ok_def statement_writes_def
          statement_reads_def Let_def)
next
  case True
  note rv = effect_rvalue [of f "os_rvalue s" b]
  show ?thesis
  proof (cases "valid_local_ref f (os_dest s)")
    case valid: True
    then have "os_dest s \<noteq> no_local" by (simp add: valid_local_ref_def)
    from effect_then [OF effect_range effect_then [OF effect_then [OF effect_definition [OF this] effect_require] rv]]
    show ?thesis
      using True valid
      by (auto simp: check_effect_def verify_statement_def statement_ok_def statement_writes_def
          statement_reads_def Let_def)
  next
    case False
    from effect_then [OF effect_range effect_then [OF effect_error rv]]
    show ?thesis
      using True False
      by (auto simp: check_effect_def verify_statement_def statement_ok_def statement_writes_def
          statement_reads_def Let_def)
  qed
qed

lemma effect_terminator:
  "check_effect (terminator_ok f t) (terminator_writes f t) (terminator_reads f t) (verify_terminator f b t)"
proof (cases "tm_kind t")
  case TmGoto
  from effect_then [OF effect_range effect_target] TmGoto show ?thesis
    by (auto simp: check_effect_def verify_terminator_def terminator_ok_def terminator_writes_def
        terminator_reads_def terminator_targets.simps)
next
  case TmSwitchBool
  from effect_then [OF effect_range effect_then [OF effect_bool_local effect_then [OF effect_target effect_target]]]
    TmSwitchBool show ?thesis
    by (auto simp: check_effect_def verify_terminator_def terminator_ok_def terminator_writes_def
        terminator_reads_def terminator_targets.simps)
next
  case TmReturn
  show ?thesis
  proof (cases "valid_local_ref f (tm_return_value t)")
    case True
    then have "tm_return_value t \<noteq> no_local" by (simp add: valid_local_ref_def)
    from effect_then [OF effect_range effect_then [OF effect_use [OF this] effect_require]] TmReturn True this
    show ?thesis
      by (auto simp: check_effect_def verify_terminator_def terminator_ok_def terminator_writes_def Let_def
          terminator_reads_def terminator_targets.simps local_type_def valid_local_ref_def valid_optional_local_ref_def)
  next
    case False
    from effect_then [OF effect_range effect_error] effect_range TmReturn False show ?thesis
      by (auto simp: check_effect_def verify_terminator_def terminator_ok_def terminator_writes_def Let_def
          terminator_reads_def terminator_targets.simps local_type_def valid_local_ref_def valid_optional_local_ref_def)
  qed
next
  case TmCall
  have dest: "check_effect (valid_optional_local_ref f (tm_call_dest t))
      (if valid_local_ref f (tm_call_dest t) then [tm_call_dest t] else []) []
      (\<lambda>st. if \<not> valid_optional_local_ref f (tm_call_dest t)
        then add_error f ''call destination local is invalid'' (Some b) st
        else if tm_call_dest t \<noteq> no_local then mark_local_definition (tm_call_dest t) st else st)"
    using effect_definition [of "tm_call_dest t"]
    by (auto simp: check_effect_def valid_optional_local_ref_def valid_local_ref_def)
  from effect_then [OF effect_range effect_then [OF effect_require
      effect_then [OF effect_operands effect_then [OF dest effect_target]]]] TmCall
  show ?thesis
    by (auto simp: check_effect_def verify_terminator_def terminator_ok_def terminator_writes_def Let_def
        terminator_reads_def terminator_targets.simps)
next
  case TmAssert
  from effect_then [OF effect_range effect_then [OF effect_bool_local effect_target]] TmAssert show ?thesis
    by (auto simp: check_effect_def verify_terminator_def terminator_ok_def terminator_writes_def
        terminator_reads_def terminator_targets.simps)
next
  case TmUnreachable
  from effect_range TmUnreachable show ?thesis
    by (auto simp: check_effect_def verify_terminator_def terminator_ok_def terminator_writes_def
        terminator_reads_def terminator_targets.simps)
qed

lemma effect_block: "check_effect (block_ok f b) (block_writes f b) (block_reads f b) (verify_block f b)"
  using effect_then [OF effect_fold [OF effect_statement] effect_terminator]
  by (simp add: verify_block_def [abs_def] block_ok_def block_writes_def block_reads_def)

text \<open>The loops over locals and blocks: with the ids right so far, no id is a duplicate.\<close>

fun ids_ok :: "nat \<Rightarrow> nat list \<Rightarrow> nat list \<Rightarrow> bool" where
  "ids_ok i seen [] = True"
| "ids_ok i seen (x # xs) = (x = i \<and> x \<notin> set seen \<and> ids_ok (i + 1) (x # seen) xs)"

lemma ids_ok_iff:
  "\<forall>x \<in> set seen. x < i \<Longrightarrow> ids_ok i seen xs \<longleftrightarrow> (\<forall>j < length xs. xs ! j = i + j)"
proof (induction xs arbitrary: i seen)
  case (Cons x xs)
  show ?case
  proof (cases "x = i")
    case True
    then show ?thesis
      using Cons.IH [of "x # seen" "i + 1"] Cons.prems unfolding length_Cons All_less_Suc2 by fastforce
  next
    case False
    then have "\<not> (\<forall>j < length (x # xs). (x # xs) ! j = i + j)" by (intro notI) (drule spec [of _ 0], simp)
    then show ?thesis using False by simp
  qed
qed simp

lemma effect_locals:
  "check_effect (ids_ok i seen (map ol_id ls) \<and> (\<forall>l \<in> set ls. range_ok (ol_range l))) [] []
     (verify_locals_from f i seen ls)"
proof (induction ls arbitrary: i seen)
  case (Cons l ls)
  have "check_effect ((ol_id l = i \<and> ol_id l \<notin> set seen) \<and> range_ok (ol_range l)) [] []
      (\<lambda>st. verify_source_range f (ol_range l) ''local source range'' None
         (require f (ol_id l \<notin> set seen) (''duplicate local id '' @ nat_to_string (ol_id l)) None
           (require f (ol_id l = i) ''local id does not match its vector index'' None st)))"
    using effect_then [OF effect_then [OF effect_require effect_require] effect_range] by simp
  from effect_then [OF this Cons] show ?case
    by (auto simp: check_effect_def)
qed (simp add: check_effect_def)

lemma effect_blocks:
  "check_effect (ids_ok i seen (map bb_id bs) \<and> (\<forall>b \<in> set bs. block_ok f b))
     (concat (map (block_writes f) bs)) (concat (map (block_reads f) bs)) (verify_blocks_from f i seen bs)"
proof (induction bs arbitrary: i seen)
  case (Cons b bs)
  have "check_effect ((bb_id b = i \<and> bb_id b \<notin> set seen) \<and> block_ok f b) (block_writes f b) (block_reads f b)
      (\<lambda>st. verify_block f b
         (require f (bb_id b \<notin> set seen) (''duplicate basic block id '' @ nat_to_string (bb_id b)) (Some (bb_id b))
           (require f (bb_id b = i) ''basic block id does not match its vector index'' (Some (bb_id b)) st)))"
    using effect_then [OF effect_then [OF effect_require effect_require] effect_block] by simp
  from effect_then [OF this Cons] show ?case
    by (auto simp: check_effect_def)
qed (simp add: check_effect_def)

lemma verify_definitions:
  "verification_has_errors (vf_diagnostics (fold (verify_definition f) is st)) \<longleftrightarrow>
     verification_has_errors (vf_diagnostics st) \<or> (\<exists>i \<in> set is. vf_uses st ! i \<and> \<not> vf_definitions st ! i)"
proof (induction "is" arbitrary: st)
  case (Cons i "is")
  have "vf_uses (verify_definition f i st) = vf_uses st" "vf_definitions (verify_definition f i st) = vf_definitions st"
    "verification_has_errors (vf_diagnostics (verify_definition f i st)) \<longleftrightarrow>
       verification_has_errors (vf_diagnostics st) \<or> vf_uses st ! i \<and> \<not> vf_definitions st ! i"
    by (auto simp: verify_definition_def require_def)
  then show ?case using Cons by auto
qed simp

lemma verify_shape:
  "verification_has_errors (vf_diagnostics (verify_function_shape f st)) \<longleftrightarrow> verification_has_errors (vf_diagnostics st) \<or>
     \<not> (of_name f \<noteq> [] \<and> of_arg_count f \<le> length (of_locals f) \<and> of_blocks f \<noteq> [] \<and> range_ok (of_range f))"
proof -
  have "check_effect (of_name f \<noteq> [] \<and> (\<not> of_arg_count f > length (of_locals f) \<and>
      (of_blocks f \<noteq> [] \<and> range_ok (of_range f)))) [] []
      (\<lambda>st. verify_source_range f (of_range f) ''function source range'' None
        (require f (of_blocks f \<noteq> []) ''function has no entry block'' None
          (require f (\<not> of_arg_count f > length (of_locals f)) ''arg_count exceeds local count'' None
            (require f (of_name f \<noteq> []) ''function name is empty'' None st))))"
    using effect_then [OF effect_require effect_then [OF effect_require effect_then [OF effect_require effect_range]]]
    unfolding append_Nil .
  then show ?thesis
    unfolding verify_function_shape_def check_effect_def Let_def not_less by simp
qed

lemma warnings_no_errors:
  "verification_has_errors (vf_diagnostics (verify_unreachable_blocks f st)) = verification_has_errors (vf_diagnostics st)"
proof -
  have "verification_has_errors (vf_diagnostics (warn_unreachable f r i st)) = verification_has_errors (vf_diagnostics st)" for r i st
    by (simp add: warn_unreachable_def add_warning_def add_verification_def verification_has_errors_def)
  then have "verification_has_errors (vf_diagnostics (fold (warn_unreachable f r) is st)) = verification_has_errors (vf_diagnostics st)" for r "is" st
    by (induction "is" arbitrary: st) simp_all
  then show ?thesis by (simp add: verify_unreachable_blocks_def)
qed

lemma block_reads_valid:
  assumes "x \<in> set (block_reads f b)"
  shows "valid_local_ref f x"
proof -
  have op: "valid_local_ref f x" if "x \<in> set (operand_reads f op)" for op
    using that by (cases op) (auto split: if_splits)
  have "valid_local_ref f x" if "x \<in> set (statement_reads f s)" for s
    using that op by (auto simp: statement_reads_def split: if_splits)
  moreover have "valid_local_ref f x" if "x \<in> set (terminator_reads f t)" for t
    using that op by (auto simp: terminator_reads_def split: terminator_kind.splits if_splits)
  ultimately show ?thesis
    using assms by (auto simp: block_reads_def)
qed

lemma verify_opt_function_errors: "verification_has_errors (verify_opt_function f) \<longleftrightarrow> \<not> opt_well_formed f"
proof -
  define st0 where "st0 = verify_function_shape f \<lparr>vf_diagnostics = [], vf_definitions = [], vf_uses = []\<rparr>"
  define st1 where "st1 = verify_locals f st0"
  define st2 where "st2 = verify_blocks_from f 0 [] (of_blocks f) st1"
  let ?n = "length (of_locals f)"
  let ?ws = "concat (map (block_writes f) (of_blocks f))" and ?rs = "concat (map (block_reads f) (of_blocks f))"
  have e0: "verification_has_errors (vf_diagnostics st0) \<longleftrightarrow>
      \<not> (of_name f \<noteq> [] \<and> of_arg_count f \<le> ?n \<and> of_blocks f \<noteq> [] \<and> range_ok (of_range f))"
    unfolding st0_def verify_shape by (simp add: verification_has_errors_def)
  have v0: "vf_definitions st0 = map (\<lambda>i. i < of_arg_count f) [0..<?n]" "vf_uses st0 = replicate ?n False"
    by (simp_all add: st0_def verify_function_shape_def Let_def)
  have l: "check_effect (ids_ok 0 [] (map ol_id (of_locals f)) \<and> (\<forall>l \<in> set (of_locals f). range_ok (ol_range l)))
      [] [] (verify_locals f)"
    unfolding verify_locals_def by (rule effect_locals)
  have e1: "verification_has_errors (vf_diagnostics st1) \<longleftrightarrow> verification_has_errors (vf_diagnostics st0) \<or>
      \<not> (\<forall>i < ?n. ol_id (of_locals f ! i) = i \<and> range_ok (ol_range (of_locals f ! i)))"
    using l by (auto simp: st1_def check_effect_def ids_ok_iff all_set_conv_all_nth)
  have e2: "verification_has_errors (vf_diagnostics st2) \<longleftrightarrow> verification_has_errors (vf_diagnostics st1) \<or>
      \<not> (\<forall>i < length (of_blocks f). bb_id (of_blocks f ! i) = i \<and> block_ok f (of_blocks f ! i))"
    using effect_blocks [of 0 "[]" "of_blocks f" f]
    by (auto simp: st2_def check_effect_def ids_ok_iff all_set_conv_all_nth)
  have v2: "vf_definitions st2 = marked ?ws (map (\<lambda>i. i < of_arg_count f) [0..<?n])"
    "vf_uses st2 = marked ?rs (replicate ?n False)"
    using effect_blocks [of 0 "[]" "of_blocks f" f] l v0
    by (simp_all add: st2_def st1_def check_effect_def)
  have reads: "x < ?n" if "x \<in> set ?rs" for x
    using that block_reads_valid by (fastforce simp: valid_local_ref_def)
  have "vf_uses st2 ! i \<and> \<not> vf_definitions st2 ! i \<longleftrightarrow> i \<in> set ?rs \<and> i \<notin> set ?ws"
    if "i \<in> set [of_arg_count f..<?n]" for i
    using that by (simp add: v2 marked_nth del: set_concat)
  then have "(\<exists>i \<in> set [of_arg_count f..<?n]. vf_uses st2 ! i \<and> \<not> vf_definitions st2 ! i) \<longleftrightarrow>
      (\<exists>i \<in> set [of_arg_count f..<?n]. i \<in> set ?rs \<and> i \<notin> set ?ws)"
    by (rule bex_cong [OF refl])
  also have "\<dots> \<longleftrightarrow> \<not> (\<forall>x \<in> set ?rs. of_arg_count f \<le> x \<longrightarrow> x \<in> set ?ws)"
    using reads unfolding atLeastLessThan_upt [symmetric] atLeastLessThan_iff Bex_def Ball_def by blast
  finally have "(\<exists>i \<in> set [of_arg_count f..<?n]. vf_uses st2 ! i \<and> \<not> vf_definitions st2 ! i) \<longleftrightarrow>
      \<not> (\<forall>x \<in> set ?rs. of_arg_count f \<le> x \<longrightarrow> x \<in> set ?ws)" .
  then have e3: "verification_has_errors (vf_diagnostics (verify_blocks f st1)) \<longleftrightarrow> verification_has_errors (vf_diagnostics st2) \<or>
      \<not> (\<forall>b \<in> set (of_blocks f). \<forall>x \<in> set (block_reads f b). of_arg_count f \<le> x \<longrightarrow>
        (\<exists>b' \<in> set (of_blocks f). x \<in> set (block_writes f b')))"
    unfolding verify_blocks_def st2_def [symmetric] Let_def verify_definitions v2(2) by simp
  show ?thesis
    unfolding verify_opt_function_def warnings_no_errors st0_def [symmetric] st1_def [symmetric] e3 e2 e1 e0
      opt_well_formed_def by blast
qed

subsection \<open>The warnings\<close>

definition flow_edges :: "opt_function \<Rightarrow> (nat \<times> nat) set" where
  "flow_edges f = {(b, t). b < length (of_blocks f) \<and> t < length (of_blocks f) \<and>
     t \<in> set (terminator_targets (bb_terminator (of_blocks f ! b)))}"

definition true_at :: "bool list \<Rightarrow> nat set" where
  "true_at bs = {i. i < length bs \<and> bs ! i}"

lemma true_at_update: "t < length r \<Longrightarrow> true_at (r[t := True]) = insert t (true_at r)"
  by (auto simp: true_at_def nth_list_update)

lemma mark_targets_marks:
  "fold mark_target ts (r, ws) = (r', ws') \<Longrightarrow>
   length r' = length r \<and> true_at r' = true_at r \<union> {t \<in> set ts. t < length r} \<and>
   set ws' = set ws \<union> (true_at r' - true_at r)"
proof (induction ts arbitrary: r ws)
  case (Cons t ts)
  show ?case
  proof (cases "t < length r \<and> \<not> r ! t")
    case True
    then have "fold mark_target ts (r[t := True], t # ws) = (r', ws')" "t \<notin> true_at r"
      using Cons.prems by (auto simp: true_at_def)
    then show ?thesis
      using Cons.IH [of "r[t := True]" "t # ws"] True by (auto simp: true_at_update)
  next
    case False
    then have "fold mark_target ts (r, ws) = (r', ws')" "t < length r \<Longrightarrow> t \<in> true_at r"
      using Cons.prems by (auto simp: true_at_def)
    then show ?thesis
      using Cons.IH [of r ws] by auto
  qed
qed simp

lemma reach_loop_closure:
  assumes "length r = length (of_blocks f)" "set ws \<subseteq> true_at r"
    and "\<And>b t. b \<in> true_at r - set ws \<Longrightarrow> (b, t) \<in> flow_edges f \<Longrightarrow> t \<in> true_at r"
  shows "true_at (reach_loop f r ws) = (flow_edges f)\<^sup>* `` true_at r \<and>
    length (reach_loop f r ws) = length (of_blocks f)"
  using assms
proof (induction f r ws rule: reach_loop.induct)
  case (1 f r)
  have "flow_edges f `` true_at r \<subseteq> true_at r" using 1(3) by auto
  then show ?case using 1(1) by (simp add: Image_closed_trancl)
next
  case (2 f r b ws)
  obtain r' ws' where m: "fold mark_target (terminator_targets (bb_terminator (of_blocks f ! b))) (r, ws) = (r', ws')"
    by force
  note marks = mark_targets_marks [OF m]
  have b: "b \<in> true_at r" "b < length (of_blocks f)"
    using 2(2,3) by (auto simp: true_at_def)
  then have succ: "true_at r' = true_at r \<union> flow_edges f `` {b}"
    using marks 2(2) by (auto simp: flow_edges_def)
  have "true_at (reach_loop f r' ws') = (flow_edges f)\<^sup>* `` true_at r' \<and>
      length (reach_loop f r' ws') = length (of_blocks f)"
  proof (rule 2(1) [OF m [symmetric] refl])
    show "length r' = length (of_blocks f)" using marks 2(2) by simp
    show "set ws' \<subseteq> true_at r'" using marks 2(3) by auto
    show "t \<in> true_at r'" if "x \<in> true_at r' - set ws'" "(x, t) \<in> flow_edges f" for x t
    proof (cases "x = b")
      case False
      then show ?thesis using that marks succ 2(4) [of x t] by auto
    qed (use that succ in auto)
  qed
  moreover have "(flow_edges f)\<^sup>* `` true_at r' = (flow_edges f)\<^sup>* `` true_at r"
    unfolding succ using b(1) by (auto intro: converse_rtrancl_into_rtrancl)
  ultimately show ?case using m by simp
qed

lemma reachable_blocks_exact:
  assumes "of_blocks f \<noteq> []"
  shows "true_at (reachable_blocks f) = {b. (0, b) \<in> (flow_edges f)\<^sup>*}"
    and "length (reachable_blocks f) = length (of_blocks f)"
proof -
  have "true_at ((replicate (length (of_blocks f)) False)[0 := True]) = {0}"
    using assms by (auto simp: true_at_def nth_list_update)
  then show "true_at (reachable_blocks f) = {b. (0, b) \<in> (flow_edges f)\<^sup>*}"
      "length (reachable_blocks f) = length (of_blocks f)"
    using reach_loop_closure [of "(replicate (length (of_blocks f)) False)[0 := True]" f "[0]"]
    by (auto simp: reachable_blocks_def)
qed

definition warning_blocks :: "verification_diagnostic list \<Rightarrow> nat option list" where
  "warning_blocks ds = map vd_block_id (filter (\<lambda>d. vd_severity d = VerifyWarning) ds)"

lemma warn_unreachable_blocks:
  "warning_blocks (vf_diagnostics (fold (warn_unreachable f r) is st)) =
     warning_blocks (vf_diagnostics st) @ map Some (filter (\<lambda>i. \<not> r ! i) is)"
  by (induction "is" arbitrary: st)
     (auto simp: warn_unreachable_def add_warning_def add_verification_def warning_blocks_def)

text \<open>The other checks report errors only.\<close>

definition warns_not :: "(verifier \<Rightarrow> verifier) \<Rightarrow> bool" where
  "warns_not op \<longleftrightarrow> (\<forall>st. warning_blocks (vf_diagnostics (op st)) = warning_blocks (vf_diagnostics st))"

lemma warns_not_simp: "warns_not op \<Longrightarrow> warning_blocks (vf_diagnostics (op st)) = warning_blocks (vf_diagnostics st)"
  by (simp add: warns_not_def)

lemma warns_not_error [simp]:
  "warning_blocks (vf_diagnostics (add_error f m b st)) = warning_blocks (vf_diagnostics st)"
  by (simp add: add_error_def add_verification_def warning_blocks_def)

lemma warns_not_require [simp]:
  "warning_blocks (vf_diagnostics (require f ok m b st)) = warning_blocks (vf_diagnostics st)"
  by (simp add: require_def)

lemma warns_not_marks [simp]:
  "vf_diagnostics (mark_local_use x st) = vf_diagnostics st"
  "vf_diagnostics (mark_local_definition x st) = vf_diagnostics st"
  by (simp_all add: mark_local_use_def mark_local_definition_def)

lemma warns_not_fold: "(\<And>x. warns_not (op x)) \<Longrightarrow> warns_not (fold op xs)"
  by (induction xs) (simp_all add: warns_not_def)

lemma warns_not_range [simp]:
  "warning_blocks (vf_diagnostics (verify_source_range f r l b st)) = warning_blocks (vf_diagnostics st)"
  by (simp add: verify_source_range_def split: option.split)

lemma warns_not_operands: "warns_not (fold (verify_operand f b) ops)"
proof (rule warns_not_fold)
  show "warns_not (verify_operand f b op)" for op by (cases op) (simp_all add: warns_not_def)
qed

lemma warns_not_statement: "warns_not (verify_statement f b s)"
proof -
  have "warns_not (verify_rvalue_shape f rv b)" for rv
    by (simp add: warns_not_def verify_rvalue_shape_def expect_operand_count_def split: rvalue_kind.split)
  then have "warns_not (verify_rvalue f rv b)" for rv
    using warns_not_operands by (simp add: warns_not_def verify_rvalue_def)
  then show ?thesis
    by (simp add: warns_not_def verify_statement_def Let_def split: opt_statement_kind.split)
qed

lemma warns_not_bool_target [simp]:
  "warning_blocks (vf_diagnostics (verify_required_bool_local f x l b st)) = warning_blocks (vf_diagnostics st)"
  "warning_blocks (vf_diagnostics (verify_block_target f t l b st)) = warning_blocks (vf_diagnostics st)"
  by (simp_all add: verify_required_bool_local_def verify_block_target_def Let_def)

lemma warns_not_terminator: "warns_not (verify_terminator f b t)"
  by (simp add: warns_not_def verify_terminator_def Let_def warns_not_simp [OF warns_not_operands]
      split: terminator_kind.split option.split)

lemma warns_not_block: "warns_not (verify_block f b)"
  using warns_not_fold [OF warns_not_statement] warns_not_terminator by (simp add: warns_not_def verify_block_def)

lemma warns_not_locals: "warns_not (verify_locals_from f i ids ls)"
  by (induction ls arbitrary: i ids) (simp_all add: warns_not_def)

lemma warns_not_blocks: "warns_not (verify_blocks_from f i ids bs)"
  by (induction bs arbitrary: i ids) (simp_all add: warns_not_def warns_not_simp [OF warns_not_block])

lemma verify_opt_function_warnings:
  "warning_blocks (verify_opt_function f) =
     map Some (filter (\<lambda>b. (0, b) \<notin> (flow_edges f)\<^sup>*) [0..<length (of_blocks f)])"
proof -
  have "warns_not (verify_definition f i)" for i by (simp add: warns_not_def verify_definition_def)
  then have none: "warning_blocks (vf_diagnostics (verify_blocks f (verify_locals f
      (verify_function_shape f \<lparr>vf_diagnostics = [], vf_definitions = [], vf_uses = []\<rparr>)))) = []"
    by (simp add: verify_blocks_def verify_locals_def verify_function_shape_def Let_def
        warns_not_simp [OF warns_not_locals] warns_not_simp [OF warns_not_blocks]
        warns_not_simp [OF warns_not_fold [of "verify_definition f"]]) (simp add: warning_blocks_def)
  show ?thesis
  proof (cases "of_blocks f = []")
    case False
    have "reachable_blocks f ! b \<longleftrightarrow> (0, b) \<in> (flow_edges f)\<^sup>*" if "b < length (of_blocks f)" for b
      using reachable_blocks_exact [OF False] that by (auto simp: true_at_def)
    then show ?thesis
      using False reachable_blocks_exact(2) [OF False]
      by (auto simp: verify_opt_function_def verify_unreachable_blocks_def warn_unreachable_blocks none intro!: filter_cong)
  qed (simp add: verify_opt_function_def verify_unreachable_blocks_def none)
qed

end
