(* ===== verification/Demo_Opt.thy ===== *)
theory Demo_Opt
  imports Opt_Normal Opt_Verify
begin

section \<open>Functions of the optimization IR\<close>

text \<open>
  A function with a constant, a chain of copies and an unused store, and one with a local that is
  copied to itself, for the witnesses. Nothing here models code.
\<close>

definition int_type :: type_ref where
  "int_type = TypeRef TyInt ''Int'' [] [] None None None None"

definition demo_local :: "nat \<Rightarrow> opt_local" where
  "demo_local i = \<lparr>ol_id = i, ol_name = [], ol_type = int_type, ol_is_temp = True, ol_range = None\<rparr>"

definition demo_rvalue :: "rvalue_kind \<Rightarrow> string \<Rightarrow> operand list \<Rightarrow> rvalue" where
  "demo_rvalue k operator ops =
     \<lparr>rv_kind = k, rv_op = operator, rv_callee = [], rv_field_name = [], rv_operands = ops,
      rv_result_type = int_type\<rparr>"

definition demo_assign :: "local_ref \<Rightarrow> rvalue \<Rightarrow> opt_statement" where
  "demo_assign x rv = \<lparr>os_kind = StAssign, os_dest = x, os_rvalue = rv, os_range = None\<rparr>"

definition demo_terminator :: "terminator_kind \<Rightarrow> local_ref \<Rightarrow> nat \<Rightarrow> terminator" where
  "demo_terminator k result target =
     \<lparr>tm_kind = k, tm_condition = no_local, tm_return_value = result, tm_target = target,
      tm_then_block = 0, tm_else_block = 0, tm_callee = [], tm_args = [], tm_call_dest = no_local,
      tm_call_resume = 0, tm_range = None\<rparr>"

definition demo_block :: "nat \<Rightarrow> opt_statement list \<Rightarrow> terminator \<Rightarrow> basic_block" where
  "demo_block i ss t = \<lparr>bb_id = i, bb_label = [], bb_statements = ss, bb_terminator = t\<rparr>"

definition demo_function :: "nat \<Rightarrow> basic_block list \<Rightarrow> opt_function" where
  "demo_function locals bs =
     \<lparr>of_name = ''f'', of_locals = map demo_local [0..<locals], of_arg_count = 1, of_blocks = bs,
      of_return_type = int_type, of_range = None\<rparr>"

definition adds_two :: opt_function where
  "adds_two = demo_function 5
     [demo_block 0
        [demo_assign 1 (demo_rvalue RvUse [] [ConstOperand (ConstInt 2)]),
         demo_assign 2 (demo_rvalue RvUse [] [LocalOperand 1]),
         demo_assign 3 (demo_rvalue RvBinaryOp ''+'' [LocalOperand 0, LocalOperand 2])]
        (demo_terminator TmGoto no_local 1),
      demo_block 1
        [demo_assign 4 (demo_rvalue RvUse [] [LocalOperand 3])]
        (demo_terminator TmReturn 4 0),
      demo_block 2 [] (demo_terminator TmGoto no_local 1)]"

definition self_copy :: opt_function where
  "self_copy = demo_function 2
     [demo_block 0
        [demo_assign 1 (demo_rvalue RvUse [] [LocalOperand 1])]
        (demo_terminator TmReturn 0 0)]"

definition int_sem :: "(int, unit) opt_sem" where
  "int_sem =
     \<lparr>sem_const = (\<lambda>c. case c of ConstInt i \<Rightarrow> i | _ \<Rightarrow> 0), sem_arg = (\<lambda>_. None),
      sem_rvalue = (\<lambda>rv vs w. if rv_op rv = ''+'' then Some (sum_list vs, w) else None),
      sem_call = (\<lambda>_ _ _. None), sem_truth = (\<lambda>v. Some (v \<noteq> 0))\<rparr>"

lemmas demo_opt_defs = demo_function_def demo_block_def demo_assign_def demo_rvalue_def
  demo_terminator_def demo_local_def int_type_def

lemma acyclic_smaller:
  assumes "\<And>x y. (x, y) \<in> R \<Longrightarrow> rnk y < (rnk x :: nat)"
  shows "acyclic R"
proof -
  have "rnk y < rnk x" if "(x, y) \<in> R\<^sup>+" for x y
    using that by (induction rule: trancl_induct) (use assms in \<open>force+\<close>)
  then show ?thesis by (auto simp: acyclic_def)
qed

lemma adds_two_ssa: "ssa adds_two"
  by (simp add: ssa_def function_dests_def block_dests_def terminator_dests_def adds_two_def demo_opt_defs no_local_def)

lemma adds_two_flow: "acyclic (flow_graph adds_two)"
  by (rule acyclic_smaller [of _ "\<lambda>b. 5 - (if b = 1 then 5 else b)"])
     (auto simp: flow_graph_def adds_two_def demo_opt_defs terminator_targets.simps less_Suc_eq numeral_3_eq_3)

lemma adds_two_copies: "acyclic (copy_graph adds_two)"
  by (rule acyclic_smaller [of _ id])
     (auto simp: copy_graph_def find_copies_def is_local_copy_def function_statements_def adds_two_def demo_opt_defs)

lemma int_sem_pure: "effects_in_calls int_sem"
  by (simp add: effects_in_calls_def int_sem_def)

lemma adds_two_blocks:
  "exec_opt_block int_sem (of_blocks adds_two ! 0) ([0 \<mapsto> 5], ()) =
     Some (Inl (1, [0 \<mapsto> 5, 1 \<mapsto> 2, 2 \<mapsto> 2, 3 \<mapsto> 7], ()))"
  "exec_opt_block int_sem (of_blocks adds_two ! 1) ([0 \<mapsto> 5, 1 \<mapsto> 2, 2 \<mapsto> 2, 3 \<mapsto> 7], ()) =
     Some (Inr (Returned (Some 7), ()))"
  by (simp_all add: adds_two_def demo_opt_defs exec_opt_block_def rvalue_result_def int_sem_def no_local_def)

lemma adds_two_result: "opt_result int_sem adds_two [5] () (Returned (Some 7), ())"
proof -
  have len: "length (of_blocks adds_two) = 3" "of_arg_count adds_two = 1"
    by (simp_all add: adds_two_def demo_function_def)
  have "opt_run int_sem adds_two 1 ([0 \<mapsto> 5, 1 \<mapsto> 2, 2 \<mapsto> 2, 3 \<mapsto> 7], ()) (Returned (Some 7), ())"
    by (rule opt_run.run_ends [OF _ adds_two_blocks(2)]) (simp add: len)
  then have "opt_run int_sem adds_two 0 ([0 \<mapsto> 5], ()) (Returned (Some 7), ())"
    by (intro opt_run.run_goes_on [OF _ adds_two_blocks(1)]) (simp_all add: len)
  moreover have "arguments_env [5] = [0 \<mapsto> (5 :: int)]"
    by (auto simp: arguments_env_def)
  ultimately show ?thesis
    by (simp add: opt_result_def len)
qed

lemma self_copy_ssa: "ssa self_copy"
  by (simp add: ssa_def function_dests_def block_dests_def terminator_dests_def self_copy_def demo_opt_defs no_local_def)

lemma self_copy_cyclic: "\<not> acyclic (copy_graph self_copy)"
  by (auto simp: acyclic_def copy_graph_def find_copies_def is_local_copy_def function_statements_def self_copy_def
      demo_opt_defs)

lemma self_copy_well_formed: "opt_well_formed self_copy"
  by (auto simp: opt_well_formed_def range_ok_def block_ok_def statement_ok_def terminator_ok_def rvalue_ok_def
      valid_local_ref_def block_reads_def block_writes_def statement_reads_def statement_writes_def
      terminator_reads_def terminator_writes_def terminator_targets.simps self_copy_def demo_opt_defs no_local_def
      less_Suc_eq numeral_2_eq_2)

end
