(* ===== verification/Type_Context.thy ===== *)
theory Type_Context
  imports Prelude
begin

section \<open>Semantic types and their interning context\<close>

text \<open>
  \<open>include/ahfl/compiler/semantics/types.hpp\<close>, \<open>type_context.hpp\<close> and
  \<open>src/compiler/semantics/types.cpp\<close>: the payloads of the checker's types, the key by which
  \<open>TypeContext\<close> hash-conses them, \<open>intern\<close>, and the factories.

  A \<open>TypePtr\<close> is an index into the storage vector (\<open>nullptr\<close> is \<^const>\<open>None\<close>): the nodes are
  owned by \<open>unique_ptr\<close>s that the vector never drops, so an address stays valid and its payload
  never changes. \<open>intern\<close> holds the mutex for its whole body and is one atomic step. The hash
  of a key is a function of the key, so \<open>unordered_map::find\<close> is lookup by equality.

  \<open>type_at\<close> is the abstraction: the tree that an address denotes. The theorems say that a context
  built by the factories is canonical (two addresses denote the same tree only when they are
  the same address) and that interning never changes what an address denotes.
\<close>

subsection \<open>Kinds and payloads\<close>

datatype type_kind =
    AnyKind | NeverKind | ErrorKind
  | UnitKind | BoolKind | IntKind | FloatKind | StringKind | BoundedStringKind
  | UUIDKind | TimestampKind | DurationKind | DecimalKind
  | StructKind | EnumKind | EnumVariantKind
  | OptionalKind | ListKind | SetKind | MapKind

type_synonym symbol_id = nat
type_synonym addr = nat
type_synonym type_ptr = "addr option"

datatype payload =
    AnyT | NeverT | ErrorT
  | UnitT | BoolT | IntT | FloatT | StringT
  | BoundedStringT (minimum: int) (maximum: int)
  | UUIDT | TimestampT | DurationT
  | DecimalT (scale: int)
  | StructT string "symbol_id option"
  | EnumT string "symbol_id option"
  | EnumVariantT string "symbol_id option" string
  | OptionalT type_ptr
  | ListT type_ptr
  | SetT type_ptr
  | MapT type_ptr type_ptr

text \<open>\<open>payload.index()\<close>: the alternative that the variant holds.\<close>

fun payload_index :: "payload \<Rightarrow> type_kind" where
  "payload_index AnyT = AnyKind"
| "payload_index NeverT = NeverKind"
| "payload_index ErrorT = ErrorKind"
| "payload_index UnitT = UnitKind"
| "payload_index BoolT = BoolKind"
| "payload_index IntT = IntKind"
| "payload_index FloatT = FloatKind"
| "payload_index StringT = StringKind"
| "payload_index (BoundedStringT _ _) = BoundedStringKind"
| "payload_index UUIDT = UUIDKind"
| "payload_index TimestampT = TimestampKind"
| "payload_index DurationT = DurationKind"
| "payload_index (DecimalT _) = DecimalKind"
| "payload_index (StructT _ _) = StructKind"
| "payload_index (EnumT _ _) = EnumKind"
| "payload_index (EnumVariantT _ _ _) = EnumVariantKind"
| "payload_index (OptionalT _) = OptionalKind"
| "payload_index (ListT _) = ListKind"
| "payload_index (SetT _) = SetKind"
| "payload_index (MapT _ _) = MapKind"

definition is_internal_type_kind :: "type_kind \<Rightarrow> bool" where
  "is_internal_type_kind k \<longleftrightarrow> k = AnyKind \<or> k = NeverKind"

definition is_source_type_kind :: "type_kind \<Rightarrow> bool" where
  "is_source_type_kind k \<longleftrightarrow> \<not> is_internal_type_kind k"

definition is_collection :: "type_kind \<Rightarrow> bool" where
  "is_collection k \<longleftrightarrow> k = ListKind \<or> k = SetKind \<or> k = MapKind"

definition is_schema_type_kind :: "type_kind \<Rightarrow> bool" where
  "is_schema_type_kind k \<longleftrightarrow> k = StructKind"

fun child_ptrs :: "payload \<Rightarrow> type_ptr list" where
  "child_ptrs (OptionalT p) = [p]"
| "child_ptrs (ListT p) = [p]"
| "child_ptrs (SetT p) = [p]"
| "child_ptrs (MapT k v) = [k, v]"
| "child_ptrs _ = []"

subsection \<open>The storage\<close>

type_synonym storage = "payload list"

text \<open>Every child pointer of a node is null or an earlier node.\<close>

definition storage_ok :: "storage \<Rightarrow> bool" where
  "storage_ok h \<longleftrightarrow> (\<forall>a < length h. \<forall>b. Some b \<in> set (child_ptrs (h ! a)) \<longrightarrow> b < a)"

lemma storage_okD: "storage_ok h \<Longrightarrow> a < length h \<Longrightarrow> Some b \<in> set (child_ptrs (h ! a)) \<Longrightarrow> b < a"
  by (simp add: storage_ok_def)

text \<open>
  \<open>describe\<close> follows the pointers. The guard \<open>b < a\<close> holds in every storage that
  \<open>storage_ok\<close> admits; it makes the recursion well founded.
\<close>

function describe :: "storage \<Rightarrow> addr \<Rightarrow> string" where
  "describe h a =
     (let sub = (\<lambda>p. case p of None \<Rightarrow> ''Any'' | Some b \<Rightarrow> if b < a then describe h b else '''')
      in (case h ! a of
            AnyT \<Rightarrow> ''Any'' | NeverT \<Rightarrow> ''Never'' | ErrorT \<Rightarrow> ''<error>''
          | UnitT \<Rightarrow> ''Unit'' | BoolT \<Rightarrow> ''Bool'' | IntT \<Rightarrow> ''Int'' | FloatT \<Rightarrow> ''Float''
          | StringT \<Rightarrow> ''String'' | UUIDT \<Rightarrow> ''UUID'' | TimestampT \<Rightarrow> ''Timestamp''
          | DurationT \<Rightarrow> ''Duration''
          | BoundedStringT lo hi \<Rightarrow>
              ''String('' @ int_to_string lo @ '', '' @ int_to_string hi @ '')''
          | DecimalT s \<Rightarrow> ''Decimal('' @ int_to_string s @ '')''
          | StructT n _ \<Rightarrow> n
          | EnumT n _ \<Rightarrow> n
          | EnumVariantT n _ v \<Rightarrow> n @ ''::'' @ v
          | OptionalT p \<Rightarrow> ''Optional<'' @ sub p @ ''>''
          | ListT p \<Rightarrow> ''List<'' @ sub p @ ''>''
          | SetT p \<Rightarrow> ''Set<'' @ sub p @ ''>''
          | MapT k v \<Rightarrow> ''Map<'' @ sub k @ '', '' @ sub v @ ''>''))"
  by pat_completeness auto
termination
  by (relation "measure snd") auto

declare describe.simps [simp del]

subsection \<open>The tree an address denotes\<close>

datatype ty =
    TAny | TNever | TError
  | TUnit | TBool | TInt | TFloat | TString
  | TBoundedString int int
  | TUUID | TTimestamp | TDuration
  | TDecimal int
  | TStruct string "symbol_id option"
  | TEnum string "symbol_id option"
  | TEnumVariant string "symbol_id option" string
  | TOptional ty
  | TList ty
  | TSet ty
  | TMap ty ty
  | TNull

fun tree_of :: "(type_ptr \<Rightarrow> ty) \<Rightarrow> payload \<Rightarrow> ty" where
  "tree_of f AnyT = TAny"
| "tree_of f NeverT = TNever"
| "tree_of f ErrorT = TError"
| "tree_of f UnitT = TUnit"
| "tree_of f BoolT = TBool"
| "tree_of f IntT = TInt"
| "tree_of f FloatT = TFloat"
| "tree_of f StringT = TString"
| "tree_of f (BoundedStringT lo hi) = TBoundedString lo hi"
| "tree_of f UUIDT = TUUID"
| "tree_of f TimestampT = TTimestamp"
| "tree_of f DurationT = TDuration"
| "tree_of f (DecimalT s) = TDecimal s"
| "tree_of f (StructT n s) = TStruct n s"
| "tree_of f (EnumT n s) = TEnum n s"
| "tree_of f (EnumVariantT n s v) = TEnumVariant n s v"
| "tree_of f (OptionalT p) = TOptional (f p)"
| "tree_of f (ListT p) = TList (f p)"
| "tree_of f (SetT p) = TSet (f p)"
| "tree_of f (MapT k v) = TMap (f k) (f v)"

lemma tree_of_cong [fundef_cong]:
  assumes "p = q" and "\<And>c. c \<in> set (child_ptrs q) \<Longrightarrow> f c = g c"
  shows "tree_of f p = tree_of g q"
  using assms by (cases q) auto

function type_at :: "storage \<Rightarrow> addr \<Rightarrow> ty" where
  "type_at h a =
     tree_of (\<lambda>p. case p of None \<Rightarrow> TNull | Some b \<Rightarrow> if b < a then type_at h b else TNull) (h ! a)"
  by pat_completeness auto
termination
  by (relation "measure snd") auto

declare type_at.simps [simp del]

definition type_at_ptr :: "storage \<Rightarrow> type_ptr \<Rightarrow> ty" where
  "type_at_ptr h p = (case p of None \<Rightarrow> TNull | Some b \<Rightarrow> type_at h b)"

lemma type_at_ptr_simps [simp]:
  "type_at_ptr h None = TNull" "type_at_ptr h (Some b) = type_at h b"
  by (simp_all add: type_at_ptr_def)

lemma type_at_eq:
  assumes "storage_ok h" "a < length h"
  shows "type_at h a = tree_of (type_at_ptr h) (h ! a)"
  unfolding type_at.simps [of h a]
  by (rule tree_of_cong) (auto dest: storage_okD [OF assms] split: option.split)

fun no_null :: "ty \<Rightarrow> bool" where
  "no_null TNull = False"
| "no_null (TOptional t) = no_null t"
| "no_null (TList t) = no_null t"
| "no_null (TSet t) = no_null t"
| "no_null (TMap k v) = (no_null k \<and> no_null v)"
| "no_null _ = True"

fun height :: "ty \<Rightarrow> nat" where
  "height (TOptional t) = Suc (height t)"
| "height (TList t) = Suc (height t)"
| "height (TSet t) = Suc (height t)"
| "height (TMap k v) = Suc (max (height k) (height v))"
| "height _ = 1"

lemma type_at_neq_TNull: "type_at h a \<noteq> TNull"
  unfolding type_at.simps [of h a] by (cases "h ! a") auto

subsection \<open>Keys and the context\<close>

record type_key =
  tk_kind :: type_kind
  tk_name :: string
  tk_variant_name :: string
  tk_string_bounds :: "(int \<times> int) option"
  tk_decimal_scale :: "int option"
  tk_first :: type_ptr
  tk_second :: type_ptr
  tk_nominal_symbol :: "symbol_id option"

record type_context =
  tc_storage :: storage
  tc_pool :: "(type_key \<times> addr) list"

definition empty_type_context :: type_context where
  "empty_type_context = \<lparr>tc_storage = [], tc_pool = []\<rparr>"

definition build_payload :: "type_key \<Rightarrow> payload" where
  "build_payload key = (case tk_kind key of
     AnyKind \<Rightarrow> AnyT
   | NeverKind \<Rightarrow> NeverT
   | ErrorKind \<Rightarrow> ErrorT
   | UnitKind \<Rightarrow> UnitT
   | BoolKind \<Rightarrow> BoolT
   | IntKind \<Rightarrow> IntT
   | FloatKind \<Rightarrow> FloatT
   | StringKind \<Rightarrow> StringT
   | BoundedStringKind \<Rightarrow>
       BoundedStringT (case tk_string_bounds key of Some (lo, hi) \<Rightarrow> lo | None \<Rightarrow> 0)
         (case tk_string_bounds key of Some (lo, hi) \<Rightarrow> hi | None \<Rightarrow> 0)
   | UUIDKind \<Rightarrow> UUIDT
   | TimestampKind \<Rightarrow> TimestampT
   | DurationKind \<Rightarrow> DurationT
   | DecimalKind \<Rightarrow> DecimalT (case tk_decimal_scale key of Some s \<Rightarrow> s | None \<Rightarrow> 0)
   | StructKind \<Rightarrow> StructT (tk_name key) (tk_nominal_symbol key)
   | EnumKind \<Rightarrow> EnumT (tk_name key) (tk_nominal_symbol key)
   | EnumVariantKind \<Rightarrow> EnumVariantT (tk_name key) (tk_nominal_symbol key) (tk_variant_name key)
   | OptionalKind \<Rightarrow> OptionalT (tk_first key)
   | ListKind \<Rightarrow> ListT (tk_first key)
   | SetKind \<Rightarrow> SetT (tk_first key)
   | MapKind \<Rightarrow> MapT (tk_first key) (tk_second key))"

definition intern :: "type_key \<Rightarrow> type_context \<Rightarrow> addr \<times> type_context" where
  "intern key ctx = (case map_of (tc_pool ctx) key of
     Some raw \<Rightarrow> (raw, ctx)
   | None \<Rightarrow>
       (let raw = length (tc_storage ctx)
        in (raw, ctx\<lparr>tc_storage := tc_storage ctx @ [build_payload key],
                     tc_pool := emplace key raw (tc_pool ctx)\<rparr>)))"

definition plain_key :: "type_kind \<Rightarrow> type_key" where
  "plain_key kind =
     \<lparr>tk_kind = kind, tk_name = '''', tk_variant_name = '''', tk_string_bounds = None,
      tk_decimal_scale = None, tk_first = None, tk_second = None, tk_nominal_symbol = None\<rparr>"

definition make_type :: "type_kind \<Rightarrow> type_context \<Rightarrow> addr \<times> type_context" where
  "make_type kind = intern (plain_key kind)"

definition error_type :: "type_context \<Rightarrow> addr \<times> type_context" where
  "error_type = make_type ErrorKind"

definition string_type :: "type_context \<Rightarrow> addr \<times> type_context" where
  "string_type = make_type StringKind"

definition bounded_string :: "int \<Rightarrow> int \<Rightarrow> type_context \<Rightarrow> addr \<times> type_context" where
  "bounded_string lo hi =
     intern ((plain_key BoundedStringKind)\<lparr>tk_string_bounds := Some (lo, hi)\<rparr>)"

definition decimal_type :: "int \<Rightarrow> type_context \<Rightarrow> addr \<times> type_context" where
  "decimal_type s = intern ((plain_key DecimalKind)\<lparr>tk_decimal_scale := Some s\<rparr>)"

definition struct_type ::
  "string \<Rightarrow> symbol_id option \<Rightarrow> type_context \<Rightarrow> addr \<times> type_context" where
  "struct_type n symb = intern ((plain_key StructKind)\<lparr>tk_name := n, tk_nominal_symbol := symb\<rparr>)"

definition enum_type ::
  "string \<Rightarrow> symbol_id option \<Rightarrow> type_context \<Rightarrow> addr \<times> type_context" where
  "enum_type n symb = intern ((plain_key EnumKind)\<lparr>tk_name := n, tk_nominal_symbol := symb\<rparr>)"

definition enum_variant_type ::
  "string \<Rightarrow> string \<Rightarrow> symbol_id option \<Rightarrow> type_context \<Rightarrow> addr \<times> type_context" where
  "enum_variant_type n v symb =
     intern ((plain_key EnumVariantKind)
       \<lparr>tk_name := n, tk_variant_name := v, tk_nominal_symbol := symb\<rparr>)"

definition optional_type :: "type_ptr \<Rightarrow> type_context \<Rightarrow> addr \<times> type_context" where
  "optional_type p = intern ((plain_key OptionalKind)\<lparr>tk_first := p\<rparr>)"

definition list_type :: "type_ptr \<Rightarrow> type_context \<Rightarrow> addr \<times> type_context" where
  "list_type p = intern ((plain_key ListKind)\<lparr>tk_first := p\<rparr>)"

definition set_type :: "type_ptr \<Rightarrow> type_context \<Rightarrow> addr \<times> type_context" where
  "set_type p = intern ((plain_key SetKind)\<lparr>tk_first := p\<rparr>)"

definition map_type :: "type_ptr \<Rightarrow> type_ptr \<Rightarrow> type_context \<Rightarrow> addr \<times> type_context" where
  "map_type k v = intern ((plain_key MapKind)\<lparr>tk_first := k, tk_second := v\<rparr>)"

subsection \<open>The contract of a hash-consing store\<close>

text \<open>
  A store hands out one address per key: \<open>content\<close> says which key an address was made for.
\<close>

locale hash_cons =
  fixes mk :: "'k \<Rightarrow> 's \<Rightarrow> 'a \<times> 's"
    and content :: "'s \<Rightarrow> 'a \<Rightarrow> 'k option"
    and ok :: "'s \<Rightarrow> bool"
    and admissible :: "'s \<Rightarrow> 'k \<Rightarrow> bool"
  assumes mk_ok: "ok s \<Longrightarrow> admissible s k \<Longrightarrow> ok (snd (mk k s))"
    and mk_content: "ok s \<Longrightarrow> content (snd (mk k s)) (fst (mk k s)) = Some k"
    and mk_keeps: "ok s \<Longrightarrow> content s a = Some k' \<Longrightarrow> content (snd (mk k s)) a = Some k'"
    and mk_present: "ok s \<Longrightarrow> content s a = Some k \<Longrightarrow> mk k s = (a, s)"
begin

lemma content_inj:
  assumes "ok s" "content s a = Some k" "content s b = Some k"
  shows "a = b"
  using mk_present [OF assms(1,2)] mk_present [OF assms(1,3)] by simp

lemma mk_again:
  assumes "ok s" "admissible s k"
  shows "mk k (snd (mk k s)) = mk k s"
  using mk_present [OF mk_ok [OF assms] mk_content [OF assms(1)]] by simp

lemma mk_same_iff:
  assumes "ok s" "admissible s k"
  shows "fst (mk k' (snd (mk k s))) = fst (mk k s) \<longleftrightarrow> k' = k"
proof
  let ?s = "snd (mk k s)"
  assume "fst (mk k' ?s) = fst (mk k s)"
  then have "content (snd (mk k' ?s)) (fst (mk k s)) = Some k'"
    using mk_content [OF mk_ok [OF assms], of k'] by simp
  moreover have "content (snd (mk k' ?s)) (fst (mk k s)) = Some k"
    by (rule mk_keeps [OF mk_ok [OF assms] mk_content [OF assms(1)]])
  ultimately show "k' = k" by simp
qed (simp add: mk_again [OF assms])

end

subsection \<open>The invariant of the context\<close>

text \<open>The key that the factories make for a payload.\<close>

fun key_of :: "payload \<Rightarrow> type_key" where
  "key_of (BoundedStringT lo hi) = (plain_key BoundedStringKind)\<lparr>tk_string_bounds := Some (lo, hi)\<rparr>"
| "key_of (DecimalT s) = (plain_key DecimalKind)\<lparr>tk_decimal_scale := Some s\<rparr>"
| "key_of (StructT n s) = (plain_key StructKind)\<lparr>tk_name := n, tk_nominal_symbol := s\<rparr>"
| "key_of (EnumT n s) = (plain_key EnumKind)\<lparr>tk_name := n, tk_nominal_symbol := s\<rparr>"
| "key_of (EnumVariantT n s v) =
     (plain_key EnumVariantKind)\<lparr>tk_name := n, tk_variant_name := v, tk_nominal_symbol := s\<rparr>"
| "key_of (OptionalT p) = (plain_key OptionalKind)\<lparr>tk_first := p\<rparr>"
| "key_of (ListT p) = (plain_key ListKind)\<lparr>tk_first := p\<rparr>"
| "key_of (SetT p) = (plain_key SetKind)\<lparr>tk_first := p\<rparr>"
| "key_of (MapT k v) = (plain_key MapKind)\<lparr>tk_first := k, tk_second := v\<rparr>"
| "key_of p = plain_key (payload_index p)"

lemma build_payload_key_of [simp]: "build_payload (key_of p) = p"
  by (cases p) (simp_all add: build_payload_def plain_key_def)

text \<open>
  A key is admissible when it is the key of its own payload (a \<open>BoundedString\<close> has bounds, a
  \<open>Decimal\<close> a scale) and its pointers come from the same context.
\<close>

definition key_ok :: "type_context \<Rightarrow> type_key \<Rightarrow> bool" where
  "key_ok ctx key \<longleftrightarrow> key_of (build_payload key) = key \<and>
     (\<forall>b. Some b \<in> set (child_ptrs (build_payload key)) \<longrightarrow> b < length (tc_storage ctx))"

definition store_ok :: "type_context \<Rightarrow> bool" where
  "store_ok ctx \<longleftrightarrow>
     distinct (keys_of (tc_pool ctx)) \<and>
     map snd (tc_pool ctx) = [0..<length (tc_storage ctx)] \<and>
     tc_storage ctx = map (build_payload \<circ> fst) (tc_pool ctx) \<and>
     storage_ok (tc_storage ctx) \<and>
     (\<forall>key \<in> set (keys_of (tc_pool ctx)). key_of (build_payload key) = key)"

definition key_at :: "type_context \<Rightarrow> addr \<Rightarrow> type_key option" where
  "key_at ctx a = (if a < length (tc_pool ctx) then Some (fst (tc_pool ctx ! a)) else None)"

lemma storage_ok_snoc:
  assumes "storage_ok h" "\<And>b. Some b \<in> set (child_ptrs p) \<Longrightarrow> b < length h"
  shows "storage_ok (h @ [p])"
  using assms by (auto simp: storage_ok_def nth_append less_Suc_eq)

lemma store_ok_pool_nth:
  assumes "store_ok ctx" "a < length (tc_pool ctx)"
  shows "tc_pool ctx ! a = (fst (tc_pool ctx ! a), a)"
proof -
  have "map snd (tc_pool ctx) = [0..<length (tc_pool ctx)]"
    using assms(1) by (metis store_ok_def length_map map_eq_imp_length_eq length_upt diff_zero)
  then have "snd (tc_pool ctx ! a) = a"
    using assms(2) by (metis add_0 nth_map nth_upt)
  then show ?thesis by (metis prod.collapse)
qed

lemma store_ok_lookup:
  assumes "store_ok ctx"
  shows "map_of (tc_pool ctx) key = Some a \<longleftrightarrow> key_at ctx a = Some key"
proof
  assume "map_of (tc_pool ctx) key = Some a"
  then obtain i where i: "i < length (tc_pool ctx)" "tc_pool ctx ! i = (key, a)"
    by (metis in_set_conv_nth map_of_SomeD)
  then show "key_at ctx a = Some key"
    using store_ok_pool_nth [OF assms i(1)] by (simp add: key_at_def)
next
  assume a: "key_at ctx a = Some key"
  then have "(key, a) \<in> set (tc_pool ctx)"
    using store_ok_pool_nth [OF assms, of a] by (auto simp: key_at_def split: if_splits) (metis nth_mem)
  then show "map_of (tc_pool ctx) key = Some a"
    using assms by (simp add: store_ok_def keys_of_def)
qed

lemma intern_cases:
  obtains (found) a where "map_of (tc_pool ctx) key = Some a" "intern key ctx = (a, ctx)"
  | (fresh) "map_of (tc_pool ctx) key = None"
      "intern key ctx = (length (tc_storage ctx),
         ctx\<lparr>tc_storage := tc_storage ctx @ [build_payload key],
             tc_pool := tc_pool ctx @ [(key, length (tc_storage ctx))]\<rparr>)"
  by (cases "map_of (tc_pool ctx) key")
     (auto simp: intern_def emplace_def map_of_eq_None_keys Let_def)

lemma store_ok_empty [simp]: "store_ok empty_type_context"
  by (simp add: store_ok_def empty_type_context_def storage_ok_def)

lemma store_ok_intern:
  assumes "store_ok ctx" "key_ok ctx key"
  shows "store_ok (snd (intern key ctx))"
proof (cases rule: intern_cases [of ctx key])
  case fresh
  then show ?thesis
    using assms by (auto simp: store_ok_def key_ok_def map_of_eq_None_keys intro: storage_ok_snoc)
qed (use assms in simp)

lemma store_ok_lengths: "store_ok ctx \<Longrightarrow> length (tc_pool ctx) = length (tc_storage ctx)"
  by (metis store_ok_def length_map)

interpretation type_store: hash_cons intern key_at store_ok key_ok
proof
  fix ctx :: type_context and key key' a
  assume ctx: "store_ok ctx"
  note len = store_ok_lengths [OF ctx]
  show "store_ok (snd (intern key ctx))" if "key_ok ctx key"
    by (rule store_ok_intern [OF ctx that])
  show "key_at (snd (intern key ctx)) (fst (intern key ctx)) = Some key"
    by (cases rule: intern_cases [of ctx key])
       (use len in \<open>simp_all add: store_ok_lookup [OF ctx] key_at_def nth_append\<close>)
  show "key_at (snd (intern key ctx)) a = Some key'" if "key_at ctx a = Some key'"
    by (cases rule: intern_cases [of ctx key])
       (use that in \<open>auto simp: key_at_def nth_append split: if_splits\<close>)
  show "intern key ctx = (a, ctx)" if "key_at ctx a = Some key"
    using that by (simp add: intern_def flip: store_ok_lookup [OF ctx])
qed

subsection \<open>Contexts built by the factories\<close>

text \<open>
  The kinds for which \<open>make\<close> is called in the sources: those whose payload has no data. (A
  \<open>make(BoundedString)\<close> would give a node with the payload of \<open>bounded_string(0, 0)\<close> at an
  address of its own.)
\<close>

definition plain_kind :: "type_kind \<Rightarrow> bool" where
  "plain_kind k \<longleftrightarrow> k \<notin> {BoundedStringKind, DecimalKind, StructKind, EnumKind, EnumVariantKind,
     OptionalKind, ListKind, SetKind, MapKind}"

definition ptr_in :: "type_context \<Rightarrow> type_ptr \<Rightarrow> bool" where
  "ptr_in ctx p \<longleftrightarrow> (case p of None \<Rightarrow> True | Some b \<Rightarrow> b < length (tc_storage ctx))"

inductive factory_step :: "type_context \<Rightarrow> addr \<Rightarrow> type_context \<Rightarrow> bool" where
  fs_make: "plain_kind k \<Longrightarrow> make_type k ctx = (a, ctx') \<Longrightarrow> factory_step ctx a ctx'"
| fs_error: "error_type ctx = (a, ctx') \<Longrightarrow> factory_step ctx a ctx'"
| fs_string: "string_type ctx = (a, ctx') \<Longrightarrow> factory_step ctx a ctx'"
| fs_bounded: "bounded_string lo hi ctx = (a, ctx') \<Longrightarrow> factory_step ctx a ctx'"
| fs_decimal: "decimal_type s ctx = (a, ctx') \<Longrightarrow> factory_step ctx a ctx'"
| fs_struct: "struct_type n symb ctx = (a, ctx') \<Longrightarrow> factory_step ctx a ctx'"
| fs_enum: "enum_type n symb ctx = (a, ctx') \<Longrightarrow> factory_step ctx a ctx'"
| fs_variant: "enum_variant_type n v symb ctx = (a, ctx') \<Longrightarrow> factory_step ctx a ctx'"
| fs_optional: "ptr_in ctx p \<Longrightarrow> optional_type p ctx = (a, ctx') \<Longrightarrow> factory_step ctx a ctx'"
| fs_list: "ptr_in ctx p \<Longrightarrow> list_type p ctx = (a, ctx') \<Longrightarrow> factory_step ctx a ctx'"
| fs_set: "ptr_in ctx p \<Longrightarrow> set_type p ctx = (a, ctx') \<Longrightarrow> factory_step ctx a ctx'"
| fs_map: "ptr_in ctx p \<Longrightarrow> ptr_in ctx q \<Longrightarrow> map_type p q ctx = (a, ctx') \<Longrightarrow>
    factory_step ctx a ctx'"

inductive built :: "type_context \<Rightarrow> bool" where
  built_empty: "built empty_type_context"
| built_step: "built ctx \<Longrightarrow> factory_step ctx a ctx' \<Longrightarrow> built ctx'"

lemmas factory_defs = make_type_def error_type_def string_type_def bounded_string_def
  decimal_type_def struct_type_def enum_type_def enum_variant_type_def optional_type_def
  list_type_def set_type_def map_type_def

lemma factory_step_intern:
  assumes "factory_step ctx a ctx'"
  obtains key where "key_ok ctx key" "intern key ctx = (a, ctx')"
  using assms
proof cases
  case (fs_make k)
  then show ?thesis
    by (intro that [of "plain_key k"])
       (auto simp: key_ok_def factory_defs plain_kind_def build_payload_def plain_key_def
          split: type_kind.splits)
qed (rule that; auto simp: key_ok_def factory_defs build_payload_def plain_key_def ptr_in_def)+

lemma built_store_ok: "built ctx \<Longrightarrow> store_ok ctx"
proof (induction rule: built.induct)
  case (built_step ctx a ctx')
  obtain key where "key_ok ctx key" "intern key ctx = (a, ctx')"
    using factory_step_intern [OF built_step.hyps(2)] by blast
  then show ?case
    using store_ok_intern [OF built_step.IH, of key] by simp
qed simp

text \<open>Interning keeps every node at its address and returns an address in the storage.\<close>

lemma factory_step_storage:
  assumes "store_ok ctx" "factory_step ctx a ctx'"
  shows "prefix (tc_storage ctx) (tc_storage ctx') \<and> a < length (tc_storage ctx')"
proof -
  obtain key where key: "key_ok ctx key" "intern key ctx = (a, ctx')"
    using factory_step_intern [OF assms(2)] by blast
  show ?thesis
  proof (cases rule: intern_cases [of ctx key])
    case (found b)
    then show ?thesis
      using key assms(1) store_ok_lengths [OF assms(1)]
      by (auto simp: store_ok_lookup key_at_def split: if_splits)
  qed (use key in auto)
qed

lemma type_at_append:
  assumes "storage_ok h" "a < length h"
  shows "type_at (h @ h') a = type_at h a"
  using assms(2)
proof (induction a rule: less_induct)
  case (less a)
  have "(h @ h') ! a = h ! a"
    using less.prems by (simp add: nth_append)
  then show ?case
    unfolding type_at.simps [of _ a]
    using less by (auto intro!: tree_of_cong split: option.splits)
qed

subsection \<open>Canonicity\<close>

lemma tree_of_children:
  "tree_of f p = tree_of f q \<Longrightarrow> map f (child_ptrs p) = map f (child_ptrs q)"
  by (cases p; cases q; simp)

lemma tree_of_same_children:
  "tree_of f p = tree_of f q \<Longrightarrow> child_ptrs p = child_ptrs q \<Longrightarrow> p = q"
  by (cases p; cases q; simp)

lemma tree_of_inj:
  assumes eq: "tree_of f p = tree_of f q"
    and inj: "\<And>c d. c \<in> set (child_ptrs p) \<Longrightarrow> d \<in> set (child_ptrs q) \<Longrightarrow> f c = f d \<Longrightarrow> c = d"
  shows "p = q"
proof (rule tree_of_same_children [OF eq], rule nth_equalityI)
  show len: "length (child_ptrs p) = length (child_ptrs q)"
    using tree_of_children [OF eq] by (rule map_eq_imp_length_eq)
  fix i assume i: "i < length (child_ptrs p)"
  have "f (child_ptrs p ! i) = f (child_ptrs q ! i)"
    using tree_of_children [OF eq] i len by (metis nth_map)
  then show "child_ptrs p ! i = child_ptrs q ! i"
    using i len by (intro inj nth_mem) simp_all
qed

lemma key_at_storage:
  assumes "store_ok ctx" "a < length (tc_storage ctx)"
  obtains key where "key_at ctx a = Some key" "tc_storage ctx ! a = build_payload key"
    "key_of (build_payload key) = key"
proof -
  have a: "a < length (tc_pool ctx)"
    using assms by (simp add: store_ok_lengths)
  have "tc_storage ctx = map (build_payload \<circ> fst) (tc_pool ctx)"
    using assms(1) by (simp add: store_ok_def)
  then have "tc_storage ctx ! a = build_payload (fst (tc_pool ctx ! a))"
    using a by simp
  moreover have "fst (tc_pool ctx ! a) \<in> set (keys_of (tc_pool ctx))"
    using a by (simp add: keys_of_def)
  ultimately show thesis
    using that [of "fst (tc_pool ctx ! a)"] a assms(1) by (auto simp: key_at_def store_ok_def)
qed

lemma context_payload_inj:
  assumes ctx: "store_ok ctx" and a: "a < length (tc_storage ctx)" and b: "b < length (tc_storage ctx)"
    and eq: "tc_storage ctx ! a = tc_storage ctx ! b"
  shows "a = b"
proof -
  obtain ka where "key_at ctx a = Some ka" "tc_storage ctx ! a = build_payload ka"
    "key_of (build_payload ka) = ka"
    by (rule key_at_storage [OF ctx a])
  moreover obtain kb where "key_at ctx b = Some kb" "tc_storage ctx ! b = build_payload kb"
    "key_of (build_payload kb) = kb"
    by (rule key_at_storage [OF ctx b])
  ultimately show ?thesis
    using eq type_store.content_inj [OF ctx] by metis
qed

lemma context_canonical:
  assumes ctx: "store_ok ctx"
    and a: "a < length (tc_storage ctx)" and b: "b < length (tc_storage ctx)"
    and eq: "type_at (tc_storage ctx) a = type_at (tc_storage ctx) b"
  shows "a = b"
  using a b eq
proof (induction a arbitrary: b rule: less_induct)
  case (less a)
  let ?h = "tc_storage ctx"
  have h: "storage_ok ?h" using ctx unfolding store_ok_def by blast
  have "?h ! a = ?h ! b"
  proof (rule tree_of_inj [of "type_at_ptr ?h"])
    show "tree_of (type_at_ptr ?h) (?h ! a) = tree_of (type_at_ptr ?h) (?h ! b)"
      using less.prems by (simp add: type_at_eq h)
  next
    fix c d assume cd: "c \<in> set (child_ptrs (?h ! a))" "d \<in> set (child_ptrs (?h ! b))"
      and eq: "type_at_ptr ?h c = type_at_ptr ?h d"
    have c: "x < a" if "c = Some x" for x
      using cd(1) that storage_okD [OF h less.prems(1)] by simp
    have d: "x < length ?h" if "d = Some x" for x
      using cd(2) that storage_okD [OF h less.prems(2)] less.prems(2) by fastforce
    show "c = d"
    proof (cases c)
      case None
      then show ?thesis
        using eq type_at_neq_TNull [of ?h] by (cases d) (auto dest: sym)
    next
      case (Some x)
      then obtain y where "d = Some y"
        using eq type_at_neq_TNull [of ?h] by (cases d) auto
      then show ?thesis
        using Some eq less.IH [of x y] c [of x] d [of y] less.prems(1) by simp
    qed
  qed
  then show ?case
    by (rule context_payload_inj [OF ctx less.prems(1,2)])
qed

lemma built_storage_ok: "built ctx \<Longrightarrow> storage_ok (tc_storage ctx)"
  using built_store_ok unfolding store_ok_def by blast

end
