(* ===== verification/Type_Relations.thy ===== *)
theory Type_Relations
  imports Type_Context
begin

section \<open>Type equivalence, subtyping and the memoized relation solver\<close>

text \<open>
  \<open>include/ahfl/compiler/semantics/type_relations.hpp\<close> and
  \<open>src/compiler/semantics/type_relations.cpp\<close>: the relation context with its flat trace and its
  constraint skeleton, the solver with its memo table, its statistics and its depth guard, the
  traversals \<open>equivalent_impl\<close> and \<open>subtype_impl\<close>, and the four public questions.

  The specification is a pair of inductive relations on trees, \<open>type_equiv\<close> and \<open>subtyping\<close>. The
  traversals only see addresses and the memo table; the theorems relate their answers to the
  relations.

  \<open>solve\<close> recurses through the traversals. Its recursion is on the levels that the depth guard
  leaves: \<open>left\<close> is \<open>max_solver_depth - recursion_depth_\<close>, which is 0 exactly when the guard
  rejects. The context pointer of the traversals is never null: their only caller is \<open>solve\<close>,
  which passes the context of the solver.
\<close>

subsection \<open>Options, trace and skeleton\<close>

datatype constraint_kind = AndNode | OrNode | RelationNode | LeafNode

datatype constraint_node =
  ConstraintNode (cn_kind: constraint_kind) (cn_relation: string) (cn_path: string)
    (cn_left: string) (cn_right: string) (cn_satisfied: bool) (cn_children: "constraint_node list")

fun aggregate_from_children :: "constraint_node \<Rightarrow> constraint_node" where
  "aggregate_from_children (ConstraintNode k rel p l r sat cs) =
     ConstraintNode k rel p l r
       (case k of
          AndNode \<Rightarrow> foldl (\<lambda>acc c. acc \<and> cn_satisfied c) (cs \<noteq> []) cs
        | OrNode \<Rightarrow> foldl (\<lambda>acc c. acc \<or> cn_satisfied c) False cs
        | _ \<Rightarrow> sat) cs"

record relation_options =
  ro_enable_trace :: bool
  ro_include_success_steps :: bool
  ro_max_depth :: int
  ro_emit_constraint_skeleton :: bool
  ro_allow_bounded_string_relaxation :: bool
  ro_allow_numeric_widening :: bool
  ro_max_solver_depth :: int

definition default_relation_options :: relation_options where
  "default_relation_options =
     \<lparr>ro_enable_trace = False, ro_include_success_steps = False, ro_max_depth = 64,
      ro_emit_constraint_skeleton = False, ro_allow_bounded_string_relaxation = True,
      ro_allow_numeric_widening = False, ro_max_solver_depth = 256\<rparr>"

datatype relation_result = Accepted | Rejected

datatype relation_kind = Equivalent | Subtype | Assignable | ExactSchema

record trace_step =
  ts_kind :: relation_kind
  ts_depth :: int
  ts_path :: string
  ts_expected :: string
  ts_actual :: string
  ts_result :: relation_result
  ts_reason :: string

record relation_context =
  rc_options :: relation_options
  rc_trace :: "trace_step list"
  rc_root :: constraint_node
  rc_stack :: nat

text \<open>
  The stack of open nodes holds pointers into the tree: the root and then always the last child
  of the entry below, because \<open>push_node\<close> appends to the node on top. Its depth determines it.
\<close>

definition empty_node :: constraint_node where
  "empty_node = ConstraintNode LeafNode '''' '''' '''' '''' False []"

definition new_relation_context :: "relation_options \<Rightarrow> relation_context" where
  "new_relation_context opts =
     \<lparr>rc_options = opts, rc_trace = [], rc_root = empty_node, rc_stack = 0\<rparr>"

definition add_child :: "constraint_node \<Rightarrow> constraint_node \<Rightarrow> constraint_node" where
  "add_child new n = ConstraintNode (cn_kind n) (cn_relation n) (cn_path n) (cn_left n) (cn_right n)
     (cn_satisfied n) (cn_children n @ [new])"

text \<open>Apply a change to the node that is reached by following the last child \<open>k\<close> times.\<close>

primrec at_open :: "nat \<Rightarrow> (constraint_node \<Rightarrow> constraint_node) \<Rightarrow> constraint_node \<Rightarrow> constraint_node" where
  "at_open 0 f n = f n"
| "at_open (Suc k) f n =
     (if cn_children n = [] then n
      else ConstraintNode (cn_kind n) (cn_relation n) (cn_path n) (cn_left n) (cn_right n)
        (cn_satisfied n) (butlast (cn_children n) @ [at_open k f (last (cn_children n))]))"

definition push_node :: "constraint_node \<Rightarrow> relation_context \<Rightarrow> relation_context" where
  "push_node new ctx =
     (if rc_stack ctx = 0 then ctx\<lparr>rc_root := new, rc_stack := 1\<rparr>
      else ctx\<lparr>rc_root := at_open (rc_stack ctx - 1) (add_child new) (rc_root ctx),
               rc_stack := rc_stack ctx + 1\<rparr>)"

definition pop_node :: "relation_context \<Rightarrow> relation_context" where
  "pop_node ctx =
     (if rc_stack ctx = 0 then ctx
      else ctx\<lparr>rc_root := at_open (rc_stack ctx - 1) aggregate_from_children (rc_root ctx),
               rc_stack := rc_stack ctx - 1\<rparr>)"

definition push_and :: "string \<Rightarrow> string \<Rightarrow> string \<Rightarrow> relation_context \<Rightarrow> relation_context" where
  "push_and path l r = push_node (ConstraintNode AndNode '''' path l r False [])"

definition push_or :: "string \<Rightarrow> string \<Rightarrow> string \<Rightarrow> relation_context \<Rightarrow> relation_context" where
  "push_or path l r = push_node (ConstraintNode OrNode '''' path l r False [])"

definition push_relation ::
  "string \<Rightarrow> string \<Rightarrow> string \<Rightarrow> string \<Rightarrow> bool \<Rightarrow> relation_context \<Rightarrow> relation_context" where
  "push_relation rel path l r sat = push_node (ConstraintNode RelationNode rel path l r sat [])"

definition add_leaf ::
  "string \<Rightarrow> string \<Rightarrow> string \<Rightarrow> bool \<Rightarrow> relation_context \<Rightarrow> relation_context" where
  "add_leaf path l r sat ctx = pop_node (push_node (ConstraintNode LeafNode '''' path l r sat []) ctx)"

definition record_trace_step ::
  "relation_kind \<Rightarrow> int \<Rightarrow> string \<Rightarrow> string \<Rightarrow> string \<Rightarrow> bool \<Rightarrow> string \<Rightarrow> relation_context
   \<Rightarrow> relation_context" where
  "record_trace_step kind depth path expected actual success reason ctx =
     (if \<not> ro_enable_trace (rc_options ctx) then ctx
      else if depth \<ge> ro_max_depth (rc_options ctx) then ctx
      else if success \<and> \<not> ro_include_success_steps (rc_options ctx) then ctx
      else ctx\<lparr>rc_trace := rc_trace ctx @
        [\<lparr>ts_kind = kind, ts_depth = depth, ts_path = path, ts_expected = expected,
          ts_actual = actual, ts_result = (if success then Accepted else Rejected),
          ts_reason = reason\<rparr>]\<rparr>)"

definition note_prefix :: "trace_step \<Rightarrow> string" where
  "note_prefix s = (if ts_path s \<noteq> [] then ''at `'' @ ts_path s @ ''`: '' else '''')"

definition failed_note :: "trace_step \<Rightarrow> string" where
  "failed_note s = note_prefix s @ ''expected '' @ ts_expected s @ '', got '' @ ts_actual s @
     (if ts_reason s \<noteq> [] then '' ('' @ ts_reason s @ '')'' else '''')"

definition success_note :: "trace_step \<Rightarrow> string" where
  "success_note s =
     note_prefix s @ ''ok: '' @ ts_actual s @ '' compatible with '' @ ts_expected s"

fun note_pass ::
  "nat \<Rightarrow> relation_result \<Rightarrow> (trace_step \<Rightarrow> string) \<Rightarrow> trace_step list \<Rightarrow> string list \<Rightarrow> string list" where
  "note_pass max_notes res note [] notes = notes"
| "note_pass max_notes res note (s # steps) notes =
     (if length notes \<ge> max_notes then notes
      else note_pass max_notes res note steps
        (if ts_result s = res then notes @ [note s] else notes))"

definition format_notes :: "nat \<Rightarrow> trace_step list \<Rightarrow> string list" where
  "format_notes max_notes steps =
     note_pass max_notes Accepted success_note steps
       (note_pass max_notes Rejected failed_note steps [])"

definition sync_trace ::
  "relation_kind \<Rightarrow> string \<Rightarrow> string \<Rightarrow> string \<Rightarrow> bool \<Rightarrow> string \<Rightarrow> relation_context \<Rightarrow> relation_context" where
  "sync_trace kind path expected actual satisfied reason ctx =
     (if \<not> ro_enable_trace (rc_options ctx) then ctx
      else record_trace_step kind (int (length (filter (\<lambda>c. c = CHR ''.'') path))) path
        expected actual satisfied reason ctx)"

definition join_path :: "string \<Rightarrow> string \<Rightarrow> string" where
  "join_path parent segment =
     (if parent = [] then segment else if segment = [] then parent else parent @ ''.'' @ segment)"

fun dump_node :: "constraint_node \<Rightarrow> nat \<Rightarrow> string" where
  "dump_node (ConstraintNode k rel path l r sat cs) depth =
     replicate (depth * 2) (CHR '' '') @
     (case k of
        AndNode \<Rightarrow> ''AND''
      | OrNode \<Rightarrow> ''OR''
      | RelationNode \<Rightarrow> ''RELATION('' @ rel @ '')''
      | LeafNode \<Rightarrow> ''LEAF'') @
     (if sat then '' [satisfied] '' else '' [failed] '') @
     (if path \<noteq> [] then ''path='' @ CHR 0x22 # path @ CHR 0x22 # '' '' else '''') @
     (if l \<noteq> [] \<or> r \<noteq> []
      then ''lhs='' @ CHR 0x22 # l @ CHR 0x22 # '' rhs='' @ CHR 0x22 # r @ [CHR 0x22] else '''') @
     [CHR 0x0A] @
     concat (map (\<lambda>c. dump_node c (depth + 1)) cs)"

definition skeleton_to_string :: "constraint_node \<Rightarrow> string" where
  "skeleton_to_string root_node = dump_node root_node 0"

subsection \<open>The solver and its memo table\<close>

record relation_key =
  rk_kind :: relation_kind
  rk_source :: addr
  rk_target :: addr
  rk_bounded :: bool
  rk_numeric :: bool

datatype relation_state = Visiting | Proven | Disproven

record solver_stats =
  st_queries :: nat
  st_cache_hits :: nat
  st_proven :: nat
  st_disproven :: nat
  st_coinductive_assumptions :: nat
  st_depth_guard_rejections :: nat

record relation_solver =
  rs_ctx :: relation_context
  rs_memo :: "(relation_key \<times> relation_state) list"
  rs_stats :: solver_stats

definition new_solver :: "relation_context \<Rightarrow> relation_solver" where
  "new_solver ctx = \<lparr>rs_ctx = ctx, rs_memo = [],
     rs_stats = \<lparr>st_queries = 0, st_cache_hits = 0, st_proven = 0, st_disproven = 0,
       st_coinductive_assumptions = 0, st_depth_guard_rejections = 0\<rparr>\<rparr>"

definition memo_size :: "relation_solver \<Rightarrow> nat" where
  "memo_size st = length (rs_memo st)"

definition make_relation_key ::
  "relation_kind \<Rightarrow> addr \<Rightarrow> addr \<Rightarrow> relation_solver \<Rightarrow> relation_key" where
  "make_relation_key kind s t st =
     \<lparr>rk_kind = kind, rk_source = s, rk_target = t,
      rk_bounded = ro_allow_bounded_string_relaxation (rc_options (rs_ctx st)),
      rk_numeric = ro_allow_numeric_widening (rc_options (rs_ctx st))\<rparr>"

type_synonym solve_fn =
  "relation_kind \<Rightarrow> addr \<Rightarrow> addr \<Rightarrow> string \<Rightarrow> relation_solver \<Rightarrow> bool \<times> relation_solver"

abbreviation emitting :: "relation_solver \<Rightarrow> bool" where
  "emitting st \<equiv> ro_emit_constraint_skeleton (rc_options (rs_ctx st))"

abbreviation tracing :: "relation_solver \<Rightarrow> bool" where
  "tracing st \<equiv> ro_enable_trace (rc_options (rs_ctx st))"

definition on_ctx :: "(relation_context \<Rightarrow> relation_context) \<Rightarrow> relation_solver \<Rightarrow> relation_solver" where
  "on_ctx f st = st\<lparr>rs_ctx := f (rs_ctx st)\<rparr>"

definition on_stats :: "(solver_stats \<Rightarrow> solver_stats) \<Rightarrow> relation_solver \<Rightarrow> relation_solver" where
  "on_stats f st = st\<lparr>rs_stats := f (rs_stats st)\<rparr>"

text \<open>\<open>FrameGuard\<close>: the constructor pushes, the body runs, the destructor pops.\<close>

definition with_frame ::
  "storage \<Rightarrow> constraint_kind \<Rightarrow> string \<Rightarrow> addr \<Rightarrow> addr
   \<Rightarrow> (relation_solver \<Rightarrow> bool \<times> relation_solver) \<Rightarrow> relation_solver \<Rightarrow> bool \<times> relation_solver" where
  "with_frame h k path l r run st =
     (let pushed = emitting st;
          st1 = (if pushed
                 then on_ctx (push_node (ConstraintNode k '''' path (describe h l) (describe h r) False [])) st
                 else st);
          (res, st2) = run st1
      in (res, if pushed then on_ctx pop_node st2 else st2))"

definition relation_leaf ::
  "relation_kind \<Rightarrow> string \<Rightarrow> storage \<Rightarrow> addr \<Rightarrow> addr \<Rightarrow> string \<Rightarrow> bool \<Rightarrow> relation_solver
   \<Rightarrow> bool \<times> relation_solver" where
  "relation_leaf kind name h l r path v st =
     (let st1 = on_ctx (sync_trace kind path (describe h r) (describe h l) v '''') st
      in (v, if emitting st1
             then on_ctx (\<lambda>ctx. pop_node (push_node
               (ConstraintNode RelationNode name path (describe h l) (describe h r) v []) ctx)) st1
             else st1))"

definition equivalent_leaf ::
  "storage \<Rightarrow> addr \<Rightarrow> addr \<Rightarrow> string \<Rightarrow> bool \<Rightarrow> relation_solver \<Rightarrow> bool \<times> relation_solver" where
  "equivalent_leaf = relation_leaf Equivalent ''equivalent''"

definition subtype_leaf ::
  "storage \<Rightarrow> addr \<Rightarrow> addr \<Rightarrow> string \<Rightarrow> bool \<Rightarrow> relation_solver \<Rightarrow> bool \<times> relation_solver" where
  "subtype_leaf = relation_leaf Subtype ''subtype''"

definition equivalent_pairwise ::
  "solve_fn \<Rightarrow> addr \<Rightarrow> addr \<Rightarrow> addr \<Rightarrow> addr \<Rightarrow> string \<Rightarrow> string \<Rightarrow> string \<Rightarrow> relation_solver
   \<Rightarrow> bool \<times> relation_solver" where
  "equivalent_pairwise sol lhs_a rhs_a lhs_b rhs_b base seg_a seg_b st =
     (let (ok_a, st1) = sol Equivalent lhs_a rhs_a (join_path base seg_a) st;
          (ok_b, st2) = sol Equivalent lhs_b rhs_b (join_path base seg_b) st1
      in (ok_a \<and> ok_b, st2))"

definition nominal_name_matches ::
  "symbol_id option \<Rightarrow> string \<Rightarrow> symbol_id option \<Rightarrow> string \<Rightarrow> bool" where
  "nominal_name_matches ls ln rs rn =
     (case (ls, rs) of (Some a, Some b) \<Rightarrow> a = b | _ \<Rightarrow> ln = rn)"

text \<open>The lambda of \<open>equivalent_impl\<close> for \<open>StructT\<close>: it pushes its own relation node and no trace step.\<close>

definition equivalent_struct ::
  "storage \<Rightarrow> addr \<Rightarrow> addr \<Rightarrow> string \<Rightarrow> bool \<Rightarrow> relation_solver \<Rightarrow> bool \<times> relation_solver" where
  "equivalent_struct h lhs rhs path name_ok =
     with_frame h AndNode path lhs rhs (\<lambda>st.
       (name_ok,
        if emitting st
        then on_ctx (\<lambda>ctx. pop_node (push_node
          (ConstraintNode RelationNode ''equivalent'' (join_path path ''struct.name'')
             (describe h lhs) (describe h rhs) name_ok []) ctx)) st
        else st))"

text \<open>The lambdas for \<open>OptionalT\<close>, \<open>ListT\<close> and \<open>SetT\<close>, which differ in the path segment.\<close>

definition equivalent_unary ::
  "storage \<Rightarrow> solve_fn \<Rightarrow> addr \<Rightarrow> addr \<Rightarrow> string \<Rightarrow> string \<Rightarrow> type_ptr \<Rightarrow> type_ptr \<Rightarrow> relation_solver
   \<Rightarrow> bool \<times> relation_solver" where
  "equivalent_unary h sol lhs rhs path segment l r =
     (case (l, r) of
        (Some a, Some b) \<Rightarrow>
          with_frame h AndNode path lhs rhs (sol Equivalent a b (join_path path segment))
      | _ \<Rightarrow> equivalent_leaf h lhs rhs path False)"

definition equivalent_impl ::
  "storage \<Rightarrow> solve_fn \<Rightarrow> addr \<Rightarrow> addr \<Rightarrow> string \<Rightarrow> relation_solver \<Rightarrow> bool \<times> relation_solver" where
  "equivalent_impl h sol lhs rhs path =
     (if lhs = rhs then equivalent_leaf h lhs rhs path True
      else if payload_index (h ! lhs) \<noteq> payload_index (h ! rhs) then equivalent_leaf h lhs rhs path False
      else (case h ! lhs of
          BoundedStringT lo hi \<Rightarrow>
            equivalent_leaf h lhs rhs path
              (case h ! rhs of BoundedStringT lo' hi' \<Rightarrow> lo = lo' \<and> hi = hi' | _ \<Rightarrow> False)
        | DecimalT s \<Rightarrow>
            equivalent_leaf h lhs rhs path (case h ! rhs of DecimalT s' \<Rightarrow> s = s' | _ \<Rightarrow> False)
        | StructT n s \<Rightarrow>
            (case h ! rhs of
               StructT n' s' \<Rightarrow> equivalent_struct h lhs rhs path (nominal_name_matches s n s' n')
             | _ \<Rightarrow> equivalent_leaf h lhs rhs path False)
        | EnumT n s \<Rightarrow>
            equivalent_leaf h lhs rhs path
              (case h ! rhs of EnumT n' s' \<Rightarrow> nominal_name_matches s n s' n' | _ \<Rightarrow> False)
        | EnumVariantT n s v \<Rightarrow>
            equivalent_leaf h lhs rhs path
              (case h ! rhs of
                 EnumVariantT n' s' v' \<Rightarrow> v = v' \<and> nominal_name_matches s n s' n' | _ \<Rightarrow> False)
        | OptionalT l \<Rightarrow>
            (case h ! rhs of
               OptionalT r \<Rightarrow> equivalent_unary h sol lhs rhs path ''optional.inner'' l r
             | _ \<Rightarrow> equivalent_leaf h lhs rhs path False)
        | ListT l \<Rightarrow>
            (case h ! rhs of
               ListT r \<Rightarrow> equivalent_unary h sol lhs rhs path ''list.element'' l r
             | _ \<Rightarrow> equivalent_leaf h lhs rhs path False)
        | SetT l \<Rightarrow>
            (case h ! rhs of
               SetT r \<Rightarrow> equivalent_unary h sol lhs rhs path ''set.element'' l r
             | _ \<Rightarrow> equivalent_leaf h lhs rhs path False)
        | MapT k v \<Rightarrow>
            (case h ! rhs of
               MapT k' v' \<Rightarrow>
                 (case (k, k', v, v') of
                    (Some ka, Some kb, Some va, Some vb) \<Rightarrow>
                      with_frame h AndNode path lhs rhs
                        (equivalent_pairwise sol ka kb va vb path ''map.key'' ''map.value'')
                  | _ \<Rightarrow> equivalent_leaf h lhs rhs path False)
             | _ \<Rightarrow> equivalent_leaf h lhs rhs path False)
        | _ \<Rightarrow> equivalent_leaf h lhs rhs path True))"

text \<open>The end of \<open>subtype_impl\<close>: the relaxations for bounded strings and numbers.\<close>

definition subtype_relaxed ::
  "storage \<Rightarrow> addr \<Rightarrow> addr \<Rightarrow> string \<Rightarrow> relation_solver \<Rightarrow> bool \<times> relation_solver" where
  "subtype_relaxed h source target path st =
     (let allow_bs = ro_allow_bounded_string_relaxation (rc_options (rs_ctx st));
          allow_numeric = ro_allow_numeric_widening (rc_options (rs_ctx st))
      in (case h ! source of
            BoundedStringT lo hi \<Rightarrow>
              if allow_bs \<and> h ! target = StringT
              then subtype_leaf h source target (join_path path ''bounded->string'') True st
              else (case h ! target of
                  BoundedStringT lo' hi' \<Rightarrow>
                    if allow_bs
                    then subtype_leaf h source target (join_path path ''bounded.bounds'')
                      (lo \<ge> lo' \<and> hi \<le> hi') st
                    else (False, st)
                | _ \<Rightarrow> (False, st))
          | IntT \<Rightarrow>
              if allow_numeric \<and> h ! target = FloatT
              then subtype_leaf h source target (join_path path ''numeric.widen'') True st
              else if allow_numeric \<and> payload_index (h ! target) = DecimalKind
              then subtype_leaf h source target (join_path path ''numeric.int->decimal'') True st
              else (False, st)
          | DecimalT s \<Rightarrow>
              (case h ! target of
                 DecimalT s' \<Rightarrow>
                   if allow_numeric
                   then subtype_leaf h source target (join_path path ''numeric.decimal-widen'')
                     (s' \<ge> s) st
                   else (False, st)
               | _ \<Rightarrow> (False, st))
          | _ \<Rightarrow> (False, st)))"

text \<open>The covariant containers of \<open>subtype_impl\<close>; a null child falls through.\<close>

definition subtype_unary ::
  "storage \<Rightarrow> solve_fn \<Rightarrow> addr \<Rightarrow> addr \<Rightarrow> string \<Rightarrow> string \<Rightarrow> type_ptr \<Rightarrow> type_ptr \<Rightarrow> relation_solver
   \<Rightarrow> bool \<times> relation_solver" where
  "subtype_unary h sol source target path segment s t =
     (case (s, t) of
        (Some a, Some b) \<Rightarrow> sol Subtype a b (join_path path segment)
      | _ \<Rightarrow> subtype_relaxed h source target path)"

definition subtype_structural ::
  "storage \<Rightarrow> solve_fn \<Rightarrow> addr \<Rightarrow> addr \<Rightarrow> string \<Rightarrow> relation_solver \<Rightarrow> bool \<times> relation_solver" where
  "subtype_structural h sol source target path st =
     (case h ! source of
        EnumVariantT n s v \<Rightarrow>
          (case h ! target of
             EnumT n' s' \<Rightarrow>
               subtype_leaf h source target (join_path path ''enum.variant'')
                 (case (s, s') of (Some a, Some b) \<Rightarrow> a = b | _ \<Rightarrow> n = n') st
           | _ \<Rightarrow> subtype_relaxed h source target path st)
      | OptionalT s \<Rightarrow>
          (case h ! target of
             OptionalT t \<Rightarrow> subtype_unary h sol source target path ''optional.inner'' s t st
           | _ \<Rightarrow> subtype_relaxed h source target path st)
      | ListT s \<Rightarrow>
          (case h ! target of
             ListT t \<Rightarrow> subtype_unary h sol source target path ''list.element'' s t st
           | _ \<Rightarrow> subtype_relaxed h source target path st)
      | SetT s \<Rightarrow>
          (case h ! target of
             SetT t \<Rightarrow> subtype_unary h sol source target path ''set.element'' s t st
           | _ \<Rightarrow> subtype_relaxed h source target path st)
      | MapT k v \<Rightarrow>
          (case h ! target of
             MapT k' v' \<Rightarrow>
               (case (k, k', v, v') of
                  (Some ka, Some kb, Some va, Some vb) \<Rightarrow>
                    (let (key_ok, st1) = sol Equivalent ka kb (join_path path ''map.key'') st
                     in if \<not> key_ok
                        then subtype_leaf h source target (join_path path ''map.key-mismatch'') False st1
                        else sol Subtype va vb (join_path path ''map.value'') st1)
                | _ \<Rightarrow> subtype_relaxed h source target path st)
           | _ \<Rightarrow> subtype_relaxed h source target path st)
      | _ \<Rightarrow> subtype_relaxed h source target path st)"

definition subtype_impl ::
  "storage \<Rightarrow> solve_fn \<Rightarrow> addr \<Rightarrow> addr \<Rightarrow> string \<Rightarrow> relation_solver \<Rightarrow> bool \<times> relation_solver" where
  "subtype_impl h sol source target path =
     with_frame h OrNode path source target (\<lambda>st.
       if source = target then subtype_leaf h source target (join_path path ''identical'') True st
       else if h ! source = ErrorT \<or> h ! target = ErrorT
       then subtype_leaf h source target (join_path path ''error'') True st
       else if h ! target = AnyT
       then subtype_leaf h source target (join_path path ''any-top'') True st
       else if h ! source = NeverT
       then subtype_leaf h source target (join_path path ''never-bottom'') True st
       else
         (let (eq, st1) = sol Equivalent source target (join_path path ''equiv'') st
          in if eq then (True, st1) else subtype_structural h sol source target path st1))"

text \<open>The step that \<open>solve\<close> appends itself for \<open>Assignable\<close> and \<open>ExactSchema\<close>.\<close>

definition delegated_step ::
  "storage \<Rightarrow> relation_kind \<Rightarrow> string \<Rightarrow> addr \<Rightarrow> addr \<Rightarrow> string \<Rightarrow> bool \<times> relation_solver
   \<Rightarrow> bool \<times> relation_solver" where
  "delegated_step h kind reason source target path res =
     (let (r, st) = res
      in (r, if tracing st
             then on_ctx (\<lambda>ctx. ctx\<lparr>rc_trace := rc_trace ctx @
               [\<lparr>ts_kind = kind, ts_depth = 0, ts_path = path, ts_expected = describe h target,
                 ts_actual = describe h source,
                 ts_result = (if r then Accepted else Rejected), ts_reason = reason\<rparr>]\<rparr>) st
             else st))"

fun relation_body ::
  "storage \<Rightarrow> solve_fn \<Rightarrow> relation_kind \<Rightarrow> addr \<Rightarrow> addr \<Rightarrow> string \<Rightarrow> relation_solver
   \<Rightarrow> bool \<times> relation_solver" where
  "relation_body h sol Equivalent s t path st = equivalent_impl h sol s t path st"
| "relation_body h sol Subtype s t path st = subtype_impl h sol s t path st"
| "relation_body h sol Assignable s t path st =
     delegated_step h Assignable ''assignability delegated to subtype check'' s t path
       (subtype_impl h sol s t path st)"
| "relation_body h sol ExactSchema s t path st =
     delegated_step h ExactSchema ''exact schema match implemented as equivalence'' s t path
       (equivalent_impl h sol s t path st)"

text \<open>One call of \<open>solve\<close>: \<open>deeper\<close> is the solver one level down, absent when the guard rejects.\<close>

definition solve_step :: "storage \<Rightarrow> solve_fn option \<Rightarrow> solve_fn" where
  "solve_step h deeper kind s t path st0 =
     (let st = on_stats (\<lambda>x. x\<lparr>st_queries := st_queries x + 1\<rparr>) st0;
          key = make_relation_key kind s t st
      in (case map_of (rs_memo st) key of
            Some Proven \<Rightarrow> (True, on_stats (\<lambda>x. x\<lparr>st_cache_hits := st_cache_hits x + 1\<rparr>) st)
          | Some Disproven \<Rightarrow> (False, on_stats (\<lambda>x. x\<lparr>st_cache_hits := st_cache_hits x + 1\<rparr>) st)
          | Some Visiting \<Rightarrow>
              (True, on_ctx (sync_trace kind path (describe h t) (describe h s) True
                       ''coinductive relation assumption'')
                 (on_stats (\<lambda>x. x\<lparr>st_coinductive_assumptions := st_coinductive_assumptions x + 1\<rparr>) st))
          | None \<Rightarrow>
              (case deeper of
                 None \<Rightarrow>
                   (False, on_ctx (sync_trace kind path (describe h t) (describe h s) False
                             ''relation depth limit exceeded'')
                      ((on_stats (\<lambda>x. x\<lparr>st_depth_guard_rejections := st_depth_guard_rejections x + 1,
                                        st_disproven := st_disproven x + 1\<rparr>) st)
                       \<lparr>rs_memo := emplace key Disproven (rs_memo st)\<rparr>))
               | Some sol \<Rightarrow>
                   (let (r, st1) = relation_body h sol kind s t path
                          (st\<lparr>rs_memo := emplace key Visiting (rs_memo st)\<rparr>);
                        st2 = (if key \<in> set (keys_of (rs_memo st1))
                               then st1\<lparr>rs_memo := insert_or_assign key
                                 (if r then Proven else Disproven) (rs_memo st1)\<rparr>
                               else st1)
                    in (r, on_stats (\<lambda>x. if r then x\<lparr>st_proven := st_proven x + 1\<rparr>
                                        else x\<lparr>st_disproven := st_disproven x + 1\<rparr>) st2)))))"

primrec solve :: "storage \<Rightarrow> nat \<Rightarrow> solve_fn" where
  "solve h 0 = solve_step h None"
| "solve h (Suc left) = solve_step h (Some (solve h left))"

subsection \<open>The public questions\<close>

definition ask ::
  "storage \<Rightarrow> relation_kind \<Rightarrow> addr \<Rightarrow> addr \<Rightarrow> relation_context \<Rightarrow> bool \<times> relation_context" where
  "ask h kind s t ctx =
     (let emit = ro_emit_constraint_skeleton (rc_options ctx);
          ctx1 = (if rc_stack ctx = 0 \<and> emit
                  then push_node (ConstraintNode AndNode '''' '''' (describe h s) (describe h t) False []) ctx
                  else ctx);
          (r, st) = solve h (nat (ro_max_solver_depth (rc_options ctx))) kind s t '''' (new_solver ctx1)
      in (r, if emit then pop_node (rs_ctx st) else rs_ctx st))"

definition are_types_equivalent ::
  "storage \<Rightarrow> addr \<Rightarrow> addr \<Rightarrow> relation_context \<Rightarrow> bool \<times> relation_context" where
  "are_types_equivalent h = ask h Equivalent"

definition is_subtype_of ::
  "storage \<Rightarrow> addr \<Rightarrow> addr \<Rightarrow> relation_context \<Rightarrow> bool \<times> relation_context" where
  "is_subtype_of h = ask h Subtype"

definition is_assignable_to ::
  "storage \<Rightarrow> addr \<Rightarrow> addr \<Rightarrow> relation_context \<Rightarrow> bool \<times> relation_context" where
  "is_assignable_to h = ask h Assignable"

definition is_exact_schema_match ::
  "storage \<Rightarrow> addr \<Rightarrow> addr \<Rightarrow> relation_context \<Rightarrow> bool \<times> relation_context" where
  "is_exact_schema_match h = ask h ExactSchema"

text \<open>The overloads without a context make one with the default options.\<close>

definition are_types_equivalent_plain :: "storage \<Rightarrow> addr \<Rightarrow> addr \<Rightarrow> bool" where
  "are_types_equivalent_plain h l r =
     fst (are_types_equivalent h l r (new_relation_context default_relation_options))"

definition is_subtype_of_plain :: "storage \<Rightarrow> addr \<Rightarrow> addr \<Rightarrow> bool" where
  "is_subtype_of_plain h s t =
     fst (is_subtype_of h s t (new_relation_context default_relation_options))"

definition is_assignable_to_plain :: "storage \<Rightarrow> addr \<Rightarrow> addr \<Rightarrow> bool" where
  "is_assignable_to_plain h s t =
     fst (is_assignable_to h s t (new_relation_context default_relation_options))"

definition is_exact_schema_match_plain :: "storage \<Rightarrow> addr \<Rightarrow> addr \<Rightarrow> bool" where
  "is_exact_schema_match_plain h s t =
     fst (is_exact_schema_match h s t (new_relation_context default_relation_options))"

end
