(* ===== verification/Subtyping.thy ===== *)
theory Subtyping
  imports Type_Relations
begin

section \<open>The type relations as judgements\<close>

text \<open>
  The specification of the relation solver: equivalence and subtyping as inductive relations on
  the trees of types, one rule per rule of the language. The flags are the two options that
  change the relation: \<open>bs\<close> admits bounded strings where a wider string is expected, \<open>num\<close>
  admits numeric widening.

  Nominal types carry an optional symbol; two of them match by symbol when both have one and by
  name otherwise. In a program every symbol has one name (\<open>consistent\<close>), and there equivalence is
  equality up to symbols and subtyping is a partial order up to equivalence. The error type,
  which is compatible with everything in both directions, is left out of the order.
\<close>

inductive type_equiv :: "ty \<Rightarrow> ty \<Rightarrow> bool" where
  te_refl: "type_equiv t t"
| te_struct: "nominal_name_matches s n s' n' \<Longrightarrow> type_equiv (TStruct n s) (TStruct n' s')"
| te_enum: "nominal_name_matches s n s' n' \<Longrightarrow> type_equiv (TEnum n s) (TEnum n' s')"
| te_variant: "nominal_name_matches s n s' n' \<Longrightarrow>
    type_equiv (TEnumVariant n s v) (TEnumVariant n' s' v)"
| te_optional: "type_equiv a b \<Longrightarrow> type_equiv (TOptional a) (TOptional b)"
| te_list: "type_equiv a b \<Longrightarrow> type_equiv (TList a) (TList b)"
| te_set: "type_equiv a b \<Longrightarrow> type_equiv (TSet a) (TSet b)"
| te_map: "type_equiv k k' \<Longrightarrow> type_equiv v v' \<Longrightarrow> type_equiv (TMap k v) (TMap k' v')"

inductive subtyping :: "bool \<Rightarrow> bool \<Rightarrow> ty \<Rightarrow> ty \<Rightarrow> bool" for bs num where
  sb_error_source: "subtyping bs num TError t"
| sb_error_target: "subtyping bs num s TError"
| sb_any: "subtyping bs num s TAny"
| sb_never: "subtyping bs num TNever t"
| sb_equiv: "type_equiv s t \<Longrightarrow> subtyping bs num s t"
| sb_variant: "nominal_name_matches s n s' n' \<Longrightarrow>
    subtyping bs num (TEnumVariant n s v) (TEnum n' s')"
| sb_optional: "subtyping bs num a b \<Longrightarrow> subtyping bs num (TOptional a) (TOptional b)"
| sb_list: "subtyping bs num a b \<Longrightarrow> subtyping bs num (TList a) (TList b)"
| sb_set: "subtyping bs num a b \<Longrightarrow> subtyping bs num (TSet a) (TSet b)"
| sb_map: "type_equiv k k' \<Longrightarrow> subtyping bs num v v' \<Longrightarrow>
    subtyping bs num (TMap k v) (TMap k' v')"
| sb_bounded_string: "bs \<Longrightarrow> subtyping bs num (TBoundedString lo hi) TString"
| sb_bounds: "bs \<Longrightarrow> lo' \<le> lo \<Longrightarrow> hi \<le> hi' \<Longrightarrow>
    subtyping bs num (TBoundedString lo hi) (TBoundedString lo' hi')"
| sb_float: "num \<Longrightarrow> subtyping bs num TInt TFloat"
| sb_int_decimal: "num \<Longrightarrow> subtyping bs num TInt (TDecimal s)"
| sb_decimal: "num \<Longrightarrow> s \<le> s' \<Longrightarrow> subtyping bs num (TDecimal s) (TDecimal s')"

declare te_refl [simp, intro]

lemma nominal_name_matches_refl [simp]: "nominal_name_matches s n s n"
  by (cases s) (simp_all add: nominal_name_matches_def)

inductive_simps te_struct_simps: "type_equiv (TStruct n s) t"
inductive_simps te_enum_simps: "type_equiv (TEnum n s) t"
inductive_simps te_variant_simps: "type_equiv (TEnumVariant n s v) t"
inductive_simps te_optional_simps: "type_equiv (TOptional a) t"
inductive_simps te_list_simps: "type_equiv (TList a) t"
inductive_simps te_set_simps: "type_equiv (TSet a) t"
inductive_simps te_map_simps: "type_equiv (TMap k v) t"

lemma type_equiv_simps [simp]:
  "type_equiv TAny t \<longleftrightarrow> t = TAny" "type_equiv TNever t \<longleftrightarrow> t = TNever"
  "type_equiv TError t \<longleftrightarrow> t = TError" "type_equiv TUnit t \<longleftrightarrow> t = TUnit"
  "type_equiv TBool t \<longleftrightarrow> t = TBool" "type_equiv TInt t \<longleftrightarrow> t = TInt"
  "type_equiv TFloat t \<longleftrightarrow> t = TFloat" "type_equiv TString t \<longleftrightarrow> t = TString"
  "type_equiv (TBoundedString lo hi) t \<longleftrightarrow> t = TBoundedString lo hi"
  "type_equiv TUUID t \<longleftrightarrow> t = TUUID" "type_equiv TTimestamp t \<longleftrightarrow> t = TTimestamp"
  "type_equiv TDuration t \<longleftrightarrow> t = TDuration" "type_equiv (TDecimal d) t \<longleftrightarrow> t = TDecimal d"
  "type_equiv (TStruct n s) t \<longleftrightarrow> (\<exists>n' s'. t = TStruct n' s' \<and> nominal_name_matches s n s' n')"
  "type_equiv (TEnum n s) t \<longleftrightarrow> (\<exists>n' s'. t = TEnum n' s' \<and> nominal_name_matches s n s' n')"
  "type_equiv (TEnumVariant n s vn) t \<longleftrightarrow>
     (\<exists>n' s'. t = TEnumVariant n' s' vn \<and> nominal_name_matches s n s' n')"
  "type_equiv (TOptional a) t \<longleftrightarrow> (\<exists>b. t = TOptional b \<and> type_equiv a b)"
  "type_equiv (TList a) t \<longleftrightarrow> (\<exists>b. t = TList b \<and> type_equiv a b)"
  "type_equiv (TSet a) t \<longleftrightarrow> (\<exists>b. t = TSet b \<and> type_equiv a b)"
  "type_equiv (TMap k v) t \<longleftrightarrow> (\<exists>k' v'. t = TMap k' v' \<and> type_equiv k k' \<and> type_equiv v v')"
  "type_equiv TNull t \<longleftrightarrow> t = TNull"
  by (auto elim: type_equiv.cases
      simp: te_struct_simps te_enum_simps te_variant_simps te_optional_simps te_list_simps
        te_set_simps te_map_simps)

lemma type_equiv_sym: "type_equiv s t \<Longrightarrow> type_equiv t s"
  by (induction rule: type_equiv.induct) (auto simp: nominal_name_matches_def split: option.splits)

subsection \<open>Equivalence is equality up to symbols\<close>

fun erase :: "ty \<Rightarrow> ty" where
  "erase (TStruct n s) = TStruct n None"
| "erase (TEnum n s) = TEnum n None"
| "erase (TEnumVariant n s v) = TEnumVariant n None v"
| "erase (TOptional t) = TOptional (erase t)"
| "erase (TList t) = TList (erase t)"
| "erase (TSet t) = TSet (erase t)"
| "erase (TMap k v) = TMap (erase k) (erase v)"
| "erase t = t"

definition symbol_ok :: "(string \<Rightarrow> symbol_id) \<Rightarrow> string \<Rightarrow> symbol_id option \<Rightarrow> bool" where
  "symbol_ok name_symbol n s \<longleftrightarrow> s = None \<or> s = Some (name_symbol n)"

fun consistent :: "(string \<Rightarrow> symbol_id) \<Rightarrow> ty \<Rightarrow> bool" where
  "consistent ns (TStruct n s) = symbol_ok ns n s"
| "consistent ns (TEnum n s) = symbol_ok ns n s"
| "consistent ns (TEnumVariant n s v) = symbol_ok ns n s"
| "consistent ns (TOptional t) = consistent ns t"
| "consistent ns (TList t) = consistent ns t"
| "consistent ns (TSet t) = consistent ns t"
| "consistent ns (TMap k v) = (consistent ns k \<and> consistent ns v)"
| "consistent ns _ = True"

lemma nominal_matches_consistent:
  assumes "inj ns" "symbol_ok ns n s" "symbol_ok ns n' s'"
  shows "nominal_name_matches s n s' n' \<longleftrightarrow> n = n'"
  using assms by (auto simp: nominal_name_matches_def symbol_ok_def dest: injD)

lemma type_equiv_iff_erase:
  assumes "inj ns" "consistent ns s" "consistent ns t"
  shows "type_equiv s t \<longleftrightarrow> erase s = erase t"
  using assms(2,3)
proof (induction s arbitrary: t)
  case (TStruct n s) then show ?case
    by (cases t) (simp_all add: nominal_matches_consistent [OF assms(1)])
next
  case (TEnum n s) then show ?case
    by (cases t) (simp_all add: nominal_matches_consistent [OF assms(1)])
next
  case (TEnumVariant n s v) then show ?case
    by (cases t) (auto simp: nominal_matches_consistent [OF assms(1)])
qed (case_tac t; auto)+

subsection \<open>Subtyping is a partial order\<close>

text \<open>Subtyping inverted by the source: the rules are directed by its constructor.\<close>

inductive_simps sb_struct_simps: "subtyping bs num (TStruct n s) t"
inductive_simps sb_enum_simps: "subtyping bs num (TEnum n s) t"
inductive_simps sb_optional_simps: "subtyping bs num (TOptional a) t"
inductive_simps sb_list_simps: "subtyping bs num (TList a) t"
inductive_simps sb_set_simps: "subtyping bs num (TSet a) t"
inductive_simps sb_map_simps: "subtyping bs num (TMap k v) t"

lemma subtyping_simps [simp]:
  "subtyping bs num TError t"
  "subtyping bs num TNever t"
  "subtyping bs num TAny t \<longleftrightarrow> t \<in> {TError, TAny}"
  "subtyping bs num TUnit t \<longleftrightarrow> t \<in> {TError, TAny, TUnit}"
  "subtyping bs num TBool t \<longleftrightarrow> t \<in> {TError, TAny, TBool}"
  "subtyping bs num TFloat t \<longleftrightarrow> t \<in> {TError, TAny, TFloat}"
  "subtyping bs num TString t \<longleftrightarrow> t \<in> {TError, TAny, TString}"
  "subtyping bs num TUUID t \<longleftrightarrow> t \<in> {TError, TAny, TUUID}"
  "subtyping bs num TTimestamp t \<longleftrightarrow> t \<in> {TError, TAny, TTimestamp}"
  "subtyping bs num TDuration t \<longleftrightarrow> t \<in> {TError, TAny, TDuration}"
  "subtyping bs num TNull t \<longleftrightarrow> t \<in> {TError, TAny, TNull}"
  "subtyping bs num TInt t \<longleftrightarrow>
     t \<in> {TError, TAny, TInt} \<or> num \<and> (t = TFloat \<or> (\<exists>d. t = TDecimal d))"
  "subtyping bs num (TDecimal d) t \<longleftrightarrow>
     t \<in> {TError, TAny, TDecimal d} \<or> num \<and> (\<exists>d'. t = TDecimal d' \<and> d \<le> d')"
  "subtyping bs num (TBoundedString lo hi) t \<longleftrightarrow>
     t \<in> {TError, TAny, TBoundedString lo hi} \<or>
     bs \<and> (t = TString \<or> (\<exists>lo' hi'. t = TBoundedString lo' hi' \<and> lo' \<le> lo \<and> hi \<le> hi'))"
  "subtyping bs num (TStruct n s) t \<longleftrightarrow> t \<in> {TError, TAny} \<or> type_equiv (TStruct n s) t"
  "subtyping bs num (TEnum n s) t \<longleftrightarrow> t \<in> {TError, TAny} \<or> type_equiv (TEnum n s) t"
  "subtyping bs num (TEnumVariant n s vn) t \<longleftrightarrow>
     t \<in> {TError, TAny} \<or> type_equiv (TEnumVariant n s vn) t \<or> type_equiv (TEnum n s) t"
  "subtyping bs num (TOptional a) t \<longleftrightarrow>
     t \<in> {TError, TAny} \<or> (\<exists>b. t = TOptional b \<and> subtyping bs num a b)"
  "subtyping bs num (TList a) t \<longleftrightarrow>
     t \<in> {TError, TAny} \<or> (\<exists>b. t = TList b \<and> subtyping bs num a b)"
  "subtyping bs num (TSet a) t \<longleftrightarrow>
     t \<in> {TError, TAny} \<or> (\<exists>b. t = TSet b \<and> subtyping bs num a b)"
  "subtyping bs num (TMap k v) t \<longleftrightarrow>
     t \<in> {TError, TAny} \<or> (\<exists>k' v'. t = TMap k' v' \<and> type_equiv k k' \<and> subtyping bs num v v')"
  by (auto elim: subtyping.cases intro: subtyping.intros
      simp: sb_struct_simps sb_enum_simps sb_optional_simps sb_list_simps sb_set_simps sb_map_simps)

lemma subtyping_refl [simp, intro]: "subtyping bs num t t"
  by (simp add: sb_equiv)

fun no_error :: "ty \<Rightarrow> bool" where
  "no_error TError = False"
| "no_error (TOptional t) = no_error t"
| "no_error (TList t) = no_error t"
| "no_error (TSet t) = no_error t"
| "no_error (TMap k v) = (no_error k \<and> no_error v)"
| "no_error _ = True"

lemma type_equiv_trans:
  assumes "inj ns" "consistent ns a" "consistent ns b" "consistent ns c"
    and "type_equiv a b" "type_equiv b c"
  shows "type_equiv a c"
  using assms(5,6) by (simp add: type_equiv_iff_erase [OF assms(1)] assms(2-4))

lemma subtyping_trans:
  assumes "inj ns" "consistent ns a" "consistent ns b" "consistent ns c" "no_error b"
    and "subtyping bs num a b" "subtyping bs num b c"
  shows "subtyping bs num a c"
  using assms(2-7)
proof (induction a arbitrary: b c)
  case (TMap k v)
  show ?case
  proof (cases "b = TAny")
    case False
    then obtain k' v' where b: "b = TMap k' v'" and k: "type_equiv k k'" and v: "subtyping bs num v v'"
      using TMap.prems(4,5) by auto
    show ?thesis
    proof (cases "c \<in> {TError, TAny}")
      case False
      then obtain k'' v'' where c: "c = TMap k'' v''" "type_equiv k' k''" "subtyping bs num v' v''"
        using TMap.prems(6) b by auto
      then have "type_equiv k k''"
        using TMap.prems(1-3) b k by (auto intro: type_equiv_trans [OF assms(1), of k k' k''])
      moreover have "subtyping bs num v v''"
        using TMap.prems(1-4) unfolding b c(1)
        by (intro TMap.IH(2) [OF _ _ _ _ v c(3)]) simp_all
      ultimately show ?thesis
        using c by simp
    qed auto
  qed (use TMap.prems(6) in auto)
next
  case (TOptional a)
  from TOptional.prems show ?case by auto (metis TOptional.IH)+
next
  case (TList a)
  from TList.prems show ?case by auto (metis TList.IH)+
next
  case (TSet a)
  from TSet.prems show ?case by auto (metis TSet.IH)+
next
  case (TBoundedString lo hi)
  from TBoundedString.prems show ?case by auto (metis order_trans)+
qed (auto simp: nominal_matches_consistent [OF assms(1)])

lemma subtyping_antisym:
  assumes "inj ns" "consistent ns a" "consistent ns b" "no_error a" "no_error b"
    and "subtyping bs num a b" "subtyping bs num b a"
  shows "type_equiv a b"
  using assms(2-7)
proof (induction a arbitrary: b)
  case TNever
  then show ?case by (cases b) auto
qed auto

text \<open>Without the two relaxations only variants, the top and the bottom type are left.\<close>

lemma subtyping_mono:
  "subtyping bs num a b \<Longrightarrow> (bs \<Longrightarrow> bs') \<Longrightarrow> (num \<Longrightarrow> num') \<Longrightarrow> subtyping bs' num' a b"
  by (induction rule: subtyping.induct) (auto intro: subtyping.intros)

end
