(* ===== verification/Relation_Solver.thy ===== *)
theory Relation_Solver
  imports Subtyping
begin

section \<open>The memoized solver decides the judgements\<close>

text \<open>
  The solver of \<open>Type_Relations\<close> answers from a memo table that also holds the queries under way,
  for which it assumes the answer yes. On the storage of a \<open>TypeContext\<close> a query only asks queries
  of lower rank, so the assumption is never used. What follows holds for every depth limit and
  every setting of the trace and skeleton options:

    \<^item> a yes is always derivable in the judgements of \<open>Subtyping\<close> (\<open>exact\<close> false);
    \<^item> when the types are not nested more deeply than the limit, a no means that there is no
      derivation (\<open>exact\<close> true).

  Both come from one induction over the levels that the depth guard leaves.
\<close>

subsection \<open>What a query means\<close>

fun related :: "bool \<Rightarrow> bool \<Rightarrow> relation_kind \<Rightarrow> ty \<Rightarrow> ty \<Rightarrow> bool" where
  "related bs num Equivalent s t = type_equiv s t"
| "related bs num ExactSchema s t = type_equiv s t"
| "related bs num Subtype s t = subtyping bs num s t"
| "related bs num Assignable s t = subtyping bs num s t"

fun directed :: "relation_kind \<Rightarrow> nat" where
  "directed Equivalent = 0"
| "directed ExactSchema = 0"
| "directed Subtype = 1"
| "directed Assignable = 1"

definition rank :: "relation_kind \<Rightarrow> addr \<Rightarrow> addr \<Rightarrow> nat" where
  "rank kind s t = 2 * (s + t) + directed kind"

definition levels :: "storage \<Rightarrow> relation_kind \<Rightarrow> addr \<Rightarrow> addr \<Rightarrow> nat" where
  "levels h kind s t = min (height (type_at h s)) (height (type_at h t)) + directed kind"

definition valid_addr :: "storage \<Rightarrow> addr \<Rightarrow> bool" where
  "valid_addr h a \<longleftrightarrow> a < length h \<and> no_null (type_at h a)"

definition options_of :: "relation_solver \<Rightarrow> relation_options" where
  "options_of st = rc_options (rs_ctx st)"

abbreviation bounded_on :: "relation_solver \<Rightarrow> bool" where
  "bounded_on st \<equiv> ro_allow_bounded_string_relaxation (options_of st)"

abbreviation numeric_on :: "relation_solver \<Rightarrow> bool" where
  "numeric_on st \<equiv> ro_allow_numeric_widening (options_of st)"

text \<open>The memo table is sound; when \<open>e\<close> is set, its negative entries are right too.\<close>

definition key_related :: "storage \<Rightarrow> relation_key \<Rightarrow> bool" where
  "key_related h k = related (rk_bounded k) (rk_numeric k) (rk_kind k)
     (type_at h (rk_source k)) (type_at h (rk_target k))"

definition memo_ok :: "storage \<Rightarrow> bool \<Rightarrow> relation_solver \<Rightarrow> bool" where
  "memo_ok h e st \<longleftrightarrow>
     (\<forall>k. (map_of (rs_memo st) k = Some Proven \<longrightarrow> key_related h k) \<and>
          (e \<and> map_of (rs_memo st) k = Some Disproven \<longrightarrow> \<not> key_related h k))"

text \<open>Every query under way has at least this rank.\<close>

definition under_way :: "nat \<Rightarrow> relation_solver \<Rightarrow> bool" where
  "under_way n st \<longleftrightarrow>
     (\<forall>k. map_of (rs_memo st) k = Some Visiting \<longrightarrow> n \<le> rank (rk_kind k) (rk_source k) (rk_target k))"

definition solver_frame :: "relation_solver \<Rightarrow> relation_solver \<Rightarrow> bool" where
  "solver_frame st st' \<longleftrightarrow> options_of st' = options_of st \<and>
     st_coinductive_assumptions (rs_stats st') = st_coinductive_assumptions (rs_stats st) \<and>
     (\<forall>k. map_of (rs_memo st') k = Some Visiting \<longrightarrow> map_of (rs_memo st) k = Some Visiting)"

definition agrees :: "bool \<Rightarrow> bool \<Rightarrow> bool \<Rightarrow> bool" where
  "agrees e r holds \<longleftrightarrow> (r \<longrightarrow> holds) \<and> (e \<longrightarrow> holds \<longrightarrow> r)"

definition answered ::
  "storage \<Rightarrow> bool \<Rightarrow> relation_solver \<Rightarrow> bool \<Rightarrow> bool \<times> relation_solver \<Rightarrow> bool" where
  "answered h e st holds res \<longleftrightarrow>
     memo_ok h e (snd res) \<and> solver_frame st (snd res) \<and> agrees e (fst res) holds"

definition query_ok ::
  "storage \<Rightarrow> bool \<Rightarrow> nat \<Rightarrow> relation_kind \<Rightarrow> addr \<Rightarrow> addr \<Rightarrow> bool" where
  "query_ok h e left kind s t \<longleftrightarrow>
     valid_addr h s \<and> valid_addr h t \<and> (e \<longrightarrow> levels h kind s t \<le> left)"

definition solver_ok :: "storage \<Rightarrow> bool \<Rightarrow> nat \<Rightarrow> solve_fn \<Rightarrow> bool" where
  "solver_ok h e left sol \<longleftrightarrow>
     (\<forall>kind s t path st. query_ok h e left kind s t \<longrightarrow> memo_ok h e st \<longrightarrow>
        under_way (Suc (rank kind s t)) st \<longrightarrow>
        answered h e st (related (bounded_on st) (numeric_on st) kind (type_at h s) (type_at h t))
          (sol kind s t path st))"

lemma solver_okD:
  assumes "solver_ok h e left sol" "query_ok h e left kind s t" "memo_ok h e st"
    and "under_way n st" "rank kind s t < n"
  shows "answered h e st (related (bounded_on st) (numeric_on st) kind (type_at h s) (type_at h t))
    (sol kind s t path st)"
proof -
  have "under_way (Suc (rank kind s t)) st"
    using assms(4,5) by (fastforce simp: under_way_def)
  then show ?thesis
    using assms(1-3) by (simp add: solver_ok_def)
qed

subsection \<open>What the context operations leave alone\<close>

definition core ::
  "relation_solver \<Rightarrow> (relation_key \<times> relation_state) list \<times> relation_options \<times> nat" where
  "core st = (rs_memo st, options_of st, st_coinductive_assumptions (rs_stats st))"

lemma ctx_options [simp]:
  "rc_options (push_node n ctx) = rc_options ctx"
  "rc_options (pop_node ctx) = rc_options ctx"
  "rc_options (record_trace_step kind d p ex ac ok re ctx) = rc_options ctx"
  "rc_options (sync_trace kind p ex ac ok re ctx) = rc_options ctx"
  by (simp_all add: push_node_def pop_node_def record_trace_step_def sync_trace_def)

lemma core_on_ctx [simp]:
  "(\<And>ctx. rc_options (f ctx) = rc_options ctx) \<Longrightarrow> core (on_ctx f st) = core st"
  by (simp add: core_def on_ctx_def options_of_def)

lemma core_on_stats [simp]:
  "(\<And>x. st_coinductive_assumptions (f x) = st_coinductive_assumptions x) \<Longrightarrow> core (on_stats f st) = core st"
  by (simp add: core_def on_stats_def options_of_def)

lemma core_leaf [simp]:
  "fst (relation_leaf kind name h l r path v st) = v"
  "core (snd (relation_leaf kind name h l r path v st)) = core st"
  by (simp_all add: relation_leaf_def Let_def)

lemma core_cong:
  assumes "core st = core st'"
  shows "memo_ok h e st \<longleftrightarrow> memo_ok h e st'" "under_way n st \<longleftrightarrow> under_way n st'"
    "options_of st = options_of st'" "solver_frame st0 st \<longleftrightarrow> solver_frame st0 st'"
    "solver_frame st st0 \<longleftrightarrow> solver_frame st' st0"
  using assms by (simp_all add: core_def memo_ok_def under_way_def solver_frame_def)

lemma solver_frame_refl [simp]: "solver_frame st st"
  by (simp add: solver_frame_def)

lemma solver_frame_trans: "solver_frame st st1 \<Longrightarrow> solver_frame st1 st2 \<Longrightarrow> solver_frame st st2"
  by (simp add: solver_frame_def)

lemma solver_frame_under_way: "solver_frame st st' \<Longrightarrow> under_way n st \<Longrightarrow> under_way n st'"
  by (simp add: solver_frame_def under_way_def)

lemma solver_frame_core: "core st' = core st \<Longrightarrow> solver_frame st st'"
  by (simp add: core_def solver_frame_def)

lemma answered_core:
  assumes "memo_ok h e st" "core (snd res) = core st" "agrees e (fst res) holds"
  shows "answered h e st holds res"
  using assms core_cong [OF assms(2)] by (simp add: answered_def solver_frame_core)

lemma answered_leaf:
  assumes "memo_ok h e st" "agrees e v holds"
  shows "answered h e st holds (relation_leaf kind name h l r path v st)"
  using assms by (intro answered_core) simp_all

lemma answered_then:
  assumes "answered h e st holds (r, st1)"
    and "memo_ok h e st1 \<Longrightarrow> solver_frame st st1 \<Longrightarrow> agrees e r holds \<Longrightarrow> answered h e st1 holds' res"
  shows "answered h e st holds' res"
  using assms by (auto simp: answered_def intro: solver_frame_trans)

lemma answered_core_cong:
  assumes "core st = core st'" "core (snd res) = core (snd res')" "fst res = fst res'"
  shows "answered h e st holds res \<longleftrightarrow> answered h e st' holds res'"
  using core_cong [OF assms(1)] core_cong [OF assms(2)] assms(3) by (simp add: answered_def)

lemma answered_frame:
  assumes "\<And>st1. core st1 = core st \<Longrightarrow> answered h e st1 holds (run st1)"
  shows "answered h e st holds (with_frame h k path l r run st)"
proof -
  define st1 where "st1 = (if emitting st
    then on_ctx (push_node (ConstraintNode k '''' path (describe h l) (describe h r) False [])) st
    else st)"
  have st1: "core st1 = core st" by (simp add: st1_def)
  have "with_frame h k path l r run st =
      (fst (run st1), if emitting st then on_ctx pop_node (snd (run st1)) else snd (run st1))"
    by (simp add: with_frame_def st1_def Let_def case_prod_beta)
  moreover have "core (if emitting st then on_ctx pop_node (snd (run st1)) else snd (run st1)) =
      core (snd (run st1))" by simp
  ultimately show ?thesis
    using assms [OF st1] answered_core_cong [OF st1] by (metis fst_conv snd_conv)
qed

subsection \<open>Children of a node\<close>

lemma valid_child:
  assumes "storage_ok h" "valid_addr h a" "p \<in> set (child_ptrs (h ! a))"
  obtains b where "p = Some b" "b < a" "valid_addr h b" "height (type_at h b) < height (type_at h a)"
proof -
  have a: "a < length h" and nn: "no_null (tree_of (type_at_ptr h) (h ! a))"
    using assms(2) type_at_eq [OF assms(1), of a] by (simp_all add: valid_addr_def)
  have "no_null (type_at_ptr h p) \<and>
      height (type_at_ptr h p) < height (tree_of (type_at_ptr h) (h ! a))"
    using assms(3) nn by (cases "h ! a") auto
  moreover from this obtain b where b: "p = Some b" by (cases p) auto
  moreover have "b < a"
    using storage_okD [OF assms(1) a] assms(3) b by simp
  ultimately show thesis
    using that a by (simp add: valid_addr_def type_at_eq [OF assms(1) a])
qed

lemma query_child:
  assumes h: "storage_ok h" and q: "query_ok h e (Suc left) kind s t"
    and s: "Some a \<in> set (child_ptrs (h ! s))" and t: "Some b \<in> set (child_ptrs (h ! t))"
    and kind': "directed kind' \<le> directed kind"
  shows "query_ok h e left kind' a b \<and> rank kind' a b < rank kind s t"
proof -
  have v: "valid_addr h s" "valid_addr h t" using q by (simp_all add: query_ok_def)
  obtain "a < s" "valid_addr h a" "height (type_at h a) < height (type_at h s)"
    using valid_child [OF h v(1) s] by auto
  moreover obtain "b < t" "valid_addr h b" "height (type_at h b) < height (type_at h t)"
    using valid_child [OF h v(2) t] by auto
  ultimately show ?thesis
    using q kind' by (auto simp: query_ok_def levels_def rank_def)
qed

subsection \<open>Equivalence\<close>

lemma type_equiv_index:
  "type_equiv (tree_of f p) (tree_of f q) \<Longrightarrow> payload_index p = payload_index q"
  by (cases p; cases q; simp)

lemma agrees_iff [simp]: "agrees e r r"
  by (simp add: agrees_def)

lemma answered_equivalent_unary:
  assumes h: "storage_ok h" and sol: "solver_ok h e left sol"
    and q: "query_ok h e (Suc left) kind s t"
    and st: "memo_ok h e st" "under_way (rank kind s t) st"
    and p: "p \<in> set (child_ptrs (h ! s))" and p': "p' \<in> set (child_ptrs (h ! t))"
  shows "answered h e st (type_equiv (type_at_ptr h p) (type_at_ptr h p'))
    (equivalent_unary h sol s t path seg p p' st)"
proof -
  have v: "valid_addr h s" "valid_addr h t" using q by (simp_all add: query_ok_def)
  obtain a where a: "p = Some a" using valid_child [OF h v(1) p] by auto
  obtain b where b: "p' = Some b" using valid_child [OF h v(2) p'] by auto
  have "query_ok h e left Equivalent a b \<and> rank Equivalent a b < rank kind s t"
    using query_child [OF h q] p p' a b by simp
  then have "answered h e st1 (type_equiv (type_at h a) (type_at h b)) (sol Equivalent a b pa st1)"
    if "core st1 = core st" for st1 pa
    using solver_okD [OF sol, of Equivalent a b st1 "rank kind s t" pa] st core_cong [OF that]
    by simp
  then show ?thesis
    unfolding equivalent_unary_def a b by (auto intro: answered_frame)
qed

lemma answered_equivalent_map:
  assumes h: "storage_ok h" and sol: "solver_ok h e left sol"
    and q: "query_ok h e (Suc left) kind s t"
    and st: "memo_ok h e st" "under_way (rank kind s t) st"
    and m: "h ! s = MapT (Some k) (Some v)" "h ! t = MapT (Some k') (Some v')"
  shows "answered h e st (type_equiv (type_at h k) (type_at h k') \<and> type_equiv (type_at h v) (type_at h v'))
    (equivalent_pairwise sol k k' v v' path sa sb st)"
proof -
  have k: "query_ok h e left Equivalent k k'" "rank Equivalent k k' < rank kind s t"
    and v: "query_ok h e left Equivalent v v'" "rank Equivalent v v' < rank kind s t"
    using query_child [OF h q, of _ _ Equivalent] m by simp_all
  obtain ok_a st1 where 1: "sol Equivalent k k' (join_path path sa) st = (ok_a, st1)" by force
  have o1: "answered h e st (type_equiv (type_at h k) (type_at h k')) (ok_a, st1)"
    using solver_okD [OF sol k(1) st k(2), of "join_path path sa"] 1 by simp
  obtain ok_b st2 where 2: "sol Equivalent v v' (join_path path sb) st1 = (ok_b, st2)" by force
  have o2: "answered h e st1 (type_equiv (type_at h v) (type_at h v')) (ok_b, st2)"
    using solver_okD [OF sol v(1) _ _ v(2), of st1 "join_path path sb"] o1 2
      solver_frame_under_way [OF _ st(2)] by (simp add: answered_def)
  show ?thesis
    unfolding equivalent_pairwise_def 1 2 Let_def prod.case
    using o1 o2 by (auto simp: answered_def agrees_def intro: solver_frame_trans)
qed

lemma answered_equivalent_struct:
  assumes "memo_ok h e st"
  shows "answered h e st ok (equivalent_struct h s t path ok st)"
  unfolding equivalent_struct_def
proof (rule answered_frame)
  fix st1 assume 1: "core st1 = core st"
  show "answered h e st1 ok (ok, if emitting st1
      then on_ctx (\<lambda>ctx. pop_node (push_node (ConstraintNode RelationNode ''equivalent''
        (join_path path ''struct.name'') (describe h s) (describe h t) ok []) ctx)) st1 else st1)"
    by (rule answered_core) (simp_all add: core_cong(1) [OF 1] assms)
qed

lemma answered_equivalent:
  assumes h: "storage_ok h" and sol: "solver_ok h e left sol"
    and q: "query_ok h e (Suc left) kind s t"
    and st: "memo_ok h e st" "under_way (rank kind s t) st"
  shows "answered h e st (type_equiv (type_at h s) (type_at h t)) (equivalent_impl h sol s t path st)"
proof -
  have v: "valid_addr h s" "valid_addr h t" using q by (simp_all add: query_ok_def)
  then have T: "type_at h s = tree_of (type_at_ptr h) (h ! s)" "type_at h t = tree_of (type_at_ptr h) (h ! t)"
    using type_at_eq [OF h] by (simp_all add: valid_addr_def)
  note unary = answered_equivalent_unary [OF h sol q st]
  note leaf = answered_leaf [OF st(1)]
  consider (same) "s = t" | (index) "s \<noteq> t" "payload_index (h ! s) \<noteq> payload_index (h ! t)"
    | (data) "s \<noteq> t" "payload_index (h ! s) = payload_index (h ! t)" by blast
  then show ?thesis
  proof cases
    case same
    then show ?thesis
      by (simp add: equivalent_impl_def equivalent_leaf_def leaf agrees_def)
  next
    case index
    then show ?thesis
      using type_equiv_index [of "type_at_ptr h" "h ! s" "h ! t"] T
      by (auto simp: equivalent_impl_def equivalent_leaf_def agrees_def intro!: leaf)
  next
    case data
    show ?thesis
    proof (cases "h ! s")
      case (MapT k m)
      then obtain k' m' where t: "h ! t = MapT k' m'"
        using data by (cases "h ! t") simp_all
      obtain a b where s': "h ! s = MapT (Some a) (Some b)" "k = Some a" "m = Some b"
        using valid_child [OF h v(1)] MapT by (metis child_ptrs.simps(4) list.set_intros)
      obtain a' b' where t': "h ! t = MapT (Some a') (Some b')" "k' = Some a'" "m' = Some b'"
        using valid_child [OF h v(2)] t by (metis child_ptrs.simps(4) list.set_intros)
      have "answered h e st1 (type_equiv (type_at h s) (type_at h t))
          (equivalent_pairwise sol a a' b b' path ''map.key'' ''map.value'' st1)"
        if "core st1 = core st" for st1
        using answered_equivalent_map [OF h sol q, of st1 a b a' b'] st core_cong [OF that] s'(1) t'(1)
        by (simp add: T)
      then show ?thesis
        using data s' t' by (auto simp: equivalent_impl_def intro: answered_frame)
    next
      case (StructT n y)
      then obtain n' y' where t: "h ! t = StructT n' y'"
        using data by (cases "h ! t") simp_all
      show ?thesis
        using data StructT t answered_equivalent_struct [OF st(1)] by (simp add: equivalent_impl_def T)
    next
      case (OptionalT p)
      then obtain p' where "h ! t = OptionalT p'" using data by (cases "h ! t") simp_all
      then show ?thesis
        using data OptionalT unary [of p p'] by (simp add: equivalent_impl_def T)
    next
      case (ListT p)
      then obtain p' where "h ! t = ListT p'" using data by (cases "h ! t") simp_all
      then show ?thesis
        using data ListT unary [of p p'] by (simp add: equivalent_impl_def T)
    next
      case (SetT p)
      then obtain p' where "h ! t = SetT p'" using data by (cases "h ! t") simp_all
      then show ?thesis
        using data SetT unary [of p p'] by (simp add: equivalent_impl_def T)
    qed (use data in \<open>cases "h ! t"; simp add: equivalent_impl_def equivalent_leaf_def T\<close>;
         rule leaf; auto simp: agrees_def)+
  qed
qed

subsection \<open>Subtyping\<close>

lemma answered_no:
  assumes "memo_ok h e st" "e \<Longrightarrow> \<not> holds"
  shows "answered h e st holds (False, st)"
  using assms by (intro answered_core) (auto simp: agrees_def)

text \<open>The relaxations decide every pair that is not settled before.\<close>

lemma answered_relaxed:
  assumes st: "memo_ok h e st" and neq: "e \<Longrightarrow> \<not> type_equiv (tree_of f (h ! s)) (tree_of f (h ! t))"
    and t: "h ! t \<noteq> ErrorT" "h ! t \<noteq> AnyT" and s: "h ! s \<noteq> ErrorT" "h ! s \<noteq> NeverT"
    and rest: "child_ptrs (h ! s) = [] \<or> payload_index (h ! s) \<noteq> payload_index (h ! t)"
      "payload_index (h ! s) = EnumVariantKind \<longrightarrow> payload_index (h ! t) \<noteq> EnumKind"
  shows "answered h e st (subtyping (bounded_on st) (numeric_on st) (tree_of f (h ! s)) (tree_of f (h ! t)))
    (subtype_relaxed h s t path st)"
proof -
  note leaf = answered_leaf [OF st] and no = answered_no [OF st]
  have opts: "rc_options (rs_ctx st) = options_of st" by (simp add: options_of_def)
  show ?thesis
  proof (cases "h ! s")
    case (BoundedStringT lo hi)
    then show ?thesis
      using t neq
      by (cases "h ! t")
         (auto simp: subtype_relaxed_def subtype_leaf_def opts Let_def agrees_def intro!: leaf no)
  next
    case IntT
    then show ?thesis
      using t neq
      by (cases "h ! t")
         (auto simp: subtype_relaxed_def subtype_leaf_def opts Let_def agrees_def intro!: leaf no)
  next
    case (DecimalT d)
    then show ?thesis
      using t neq
      by (cases "h ! t")
         (auto simp: subtype_relaxed_def subtype_leaf_def opts Let_def agrees_def intro!: leaf no)
  qed (use s t neq rest in \<open>cases "h ! t"; simp add: subtype_relaxed_def Let_def\<close>;
       rule no; simp)+
qed

lemma answered_subtype_unary:
  assumes h: "storage_ok h" and sol: "solver_ok h e left sol"
    and q: "query_ok h e (Suc left) kind s t" and kind: "directed kind = 1"
    and st: "memo_ok h e st" "under_way (rank kind s t) st"
    and p: "p \<in> set (child_ptrs (h ! s))" and p': "p' \<in> set (child_ptrs (h ! t))"
  shows "answered h e st (subtyping (bounded_on st) (numeric_on st) (type_at_ptr h p) (type_at_ptr h p'))
    (subtype_unary h sol s t path seg p p' st)"
proof -
  have v: "valid_addr h s" "valid_addr h t" using q by (simp_all add: query_ok_def)
  obtain a where a: "p = Some a" using valid_child [OF h v(1) p] by auto
  obtain b where b: "p' = Some b" using valid_child [OF h v(2) p'] by auto
  have "query_ok h e left Subtype a b \<and> rank Subtype a b < rank kind s t"
    using query_child [OF h q] p p' a b kind by simp
  then show ?thesis
    unfolding subtype_unary_def a b
    using solver_okD [OF sol, of Subtype a b st "rank kind s t"] st by simp
qed

lemma answered_subtype_map:
  assumes h: "storage_ok h" and sol: "solver_ok h e left sol"
    and q: "query_ok h e (Suc left) kind s t" and kind: "directed kind = 1"
    and st: "memo_ok h e st" "under_way (rank kind s t) st"
    and m: "h ! s = MapT (Some k) (Some v)" "h ! t = MapT (Some k') (Some v')"
  shows "answered h e st
    (type_equiv (type_at h k) (type_at h k') \<and>
     subtyping (bounded_on st) (numeric_on st) (type_at h v) (type_at h v'))
    (subtype_structural h sol s t path st)"
proof -
  have k: "query_ok h e left Equivalent k k'" "rank Equivalent k k' < rank kind s t"
    using query_child [OF h q, of _ _ Equivalent] m by simp_all
  have v: "query_ok h e left Subtype v v'" "rank Subtype v v' < rank kind s t"
    using query_child [OF h q, of _ _ Subtype] m kind by simp_all
  obtain ok_k st1 where 1: "sol Equivalent k k' (join_path path ''map.key'') st = (ok_k, st1)" by force
  have o1: "answered h e st (type_equiv (type_at h k) (type_at h k')) (ok_k, st1)"
    using solver_okD [OF sol k(1) st k(2), of "join_path path ''map.key''"] 1 by simp
  show ?thesis
  proof (cases ok_k)
    case False
    have "subtype_structural h sol s t path st =
        subtype_leaf h s t (join_path path ''map.key-mismatch'') False st1"
      using False by (simp add: subtype_structural_def m 1)
    then show ?thesis
      using False by (auto simp: subtype_leaf_def agrees_def intro!: answered_then [OF o1] answered_leaf)
  next
    case True
    have eq: "subtype_structural h sol s t path st = sol Subtype v v' (join_path path ''map.value'') st1"
      using True by (simp add: subtype_structural_def m 1)
    show ?thesis
      unfolding eq
    proof (rule answered_then [OF o1])
      assume 2: "memo_ok h e st1" "solver_frame st st1"
        and "agrees e ok_k (type_equiv (type_at h k) (type_at h k'))"
      then show "answered h e st1 (type_equiv (type_at h k) (type_at h k') \<and>
          subtyping (bounded_on st) (numeric_on st) (type_at h v) (type_at h v'))
          (sol Subtype v v' (join_path path ''map.value'') st1)"
        using solver_okD [OF sol v(1) 2(1) solver_frame_under_way [OF 2(2) st(2)] v(2)] True
        by (simp add: agrees_def solver_frame_def)
    qed
  qed
qed

lemma answered_structural:
  assumes h: "storage_ok h" and sol: "solver_ok h e left sol"
    and q: "query_ok h e (Suc left) kind s t" and kind: "directed kind = 1"
    and st: "memo_ok h e st" "under_way (rank kind s t) st"
    and neq: "e \<Longrightarrow> \<not> type_equiv (type_at h s) (type_at h t)"
    and t: "h ! t \<noteq> ErrorT" "h ! t \<noteq> AnyT" and s: "h ! s \<noteq> ErrorT" "h ! s \<noteq> NeverT"
  shows "answered h e st (subtyping (bounded_on st) (numeric_on st) (type_at h s) (type_at h t))
    (subtype_structural h sol s t path st)"
proof -
  have v: "valid_addr h s" "valid_addr h t" using q by (simp_all add: query_ok_def)
  then have T: "type_at h s = tree_of (type_at_ptr h) (h ! s)" "type_at h t = tree_of (type_at_ptr h) (h ! t)"
    using type_at_eq [OF h] by (simp_all add: valid_addr_def)
  note unary = answered_subtype_unary [OF h sol q kind st]
  note rest = answered_relaxed [OF st(1) neq [unfolded T] t s]
  show ?thesis
  proof (cases "child_ptrs (h ! s) \<noteq> [] \<and> payload_index (h ! s) = payload_index (h ! t)")
    case True
    then consider p p' where "h ! s = OptionalT p" "h ! t = OptionalT p'"
      | p p' where "h ! s = ListT p" "h ! t = ListT p'"
      | p p' where "h ! s = SetT p" "h ! t = SetT p'"
      | (map) k m k' m' where "h ! s = MapT k m" "h ! t = MapT k' m'"
      by (cases "h ! s"; cases "h ! t"; simp)
    then show ?thesis
    proof cases
      case (map k m k' m')
      obtain a b where s': "h ! s = MapT (Some a) (Some b)"
        using valid_child [OF h v(1)] map by (metis child_ptrs.simps(4) list.set_intros)
      obtain a' b' where t': "h ! t = MapT (Some a') (Some b')"
        using valid_child [OF h v(2)] map by (metis child_ptrs.simps(4) list.set_intros)
      show ?thesis
        using answered_subtype_map [OF h sol q kind st s' t'] by (simp add: T s' t')
    qed (use unary in \<open>simp add: subtype_structural_def T\<close>)+
  next
    case container: False
    show ?thesis
    proof (cases "payload_index (h ! s) = EnumVariantKind \<and> payload_index (h ! t) = EnumKind")
      case True
      then obtain n y vn n' y' where "h ! s = EnumVariantT n y vn" "h ! t = EnumT n' y'"
        by (cases "h ! s"; cases "h ! t"; simp)
      then show ?thesis
        by (auto simp: subtype_structural_def subtype_leaf_def T nominal_name_matches_def
            intro!: answered_leaf [OF st(1)] split: option.splits)
    next
      case False
      then have "subtype_structural h sol s t path st = subtype_relaxed h s t path st"
        using container by (cases "h ! s"; cases "h ! t"; simp add: subtype_structural_def)
      then show ?thesis
        using rest [of path] container False by (simp add: T)
    qed
  qed
qed

lemma answered_subtype:
  assumes h: "storage_ok h" and sol: "solver_ok h e left sol"
    and q: "query_ok h e (Suc left) kind s t" and kind: "directed kind = 1"
    and st0: "memo_ok h e st0" "under_way (rank kind s t) st0"
  shows "answered h e st0 (subtyping (bounded_on st0) (numeric_on st0) (type_at h s) (type_at h t))
    (subtype_impl h sol s t path st0)"
  unfolding subtype_impl_def
proof (rule answered_frame)
  fix st assume core: "core st = core st0"
  have opts: "options_of st0 = options_of st" using core_cong(3) [OF core] by simp
  have st: "memo_ok h e st" "under_way (rank kind s t) st"
    using st0 core_cong [OF core] by simp_all
  have T: "type_at h s = tree_of (type_at_ptr h) (h ! s)" "type_at h t = tree_of (type_at_ptr h) (h ! t)"
    using q type_at_eq [OF h] by (simp_all add: query_ok_def valid_addr_def)
  have yes: "answered h e st holds (subtype_leaf h s t pa True st)" if holds for holds pa
    using that answered_leaf [OF st(1)] by (simp add: subtype_leaf_def agrees_def)
  consider (top) "s = t \<or> h ! s = ErrorT \<or> h ! t = ErrorT \<or> h ! t = AnyT \<or> h ! s = NeverT"
    | (deep) "s \<noteq> t" "h ! s \<noteq> ErrorT" "h ! t \<noteq> ErrorT" "h ! t \<noteq> AnyT" "h ! s \<noteq> NeverT" by blast
  then show "answered h e st (subtyping (bounded_on st0) (numeric_on st0) (type_at h s) (type_at h t))
    (if s = t then subtype_leaf h s t (join_path path ''identical'') True st
     else if h ! s = ErrorT \<or> h ! t = ErrorT then subtype_leaf h s t (join_path path ''error'') True st
     else if h ! t = AnyT then subtype_leaf h s t (join_path path ''any-top'') True st
     else if h ! s = NeverT then subtype_leaf h s t (join_path path ''never-bottom'') True st
     else let (eq, st1) = sol Equivalent s t (join_path path ''equiv'') st
          in if eq then (True, st1) else subtype_structural h sol s t path st1)"
  proof cases
    case top
    then have "subtyping (bounded_on st0) (numeric_on st0) (type_at h s) (type_at h t)"
      by (auto simp: T intro: sb_error_target sb_any)
    note y = yes [OF this]
    show ?thesis
    proof (cases "s = t")
      case True
      show ?thesis unfolding if_P [OF True] by (rule y)
    next
      case False
      then show ?thesis using top y by auto
    qed
  next
    case deep
    obtain eq st1 where 1: "sol Equivalent s t (join_path path ''equiv'') st = (eq, st1)" by force
    have o1: "answered h e st (type_equiv (type_at h s) (type_at h t)) (eq, st1)"
      using solver_okD [OF sol _ st, of Equivalent s t "join_path path ''equiv''"] q kind 1
      by (simp add: query_ok_def levels_def rank_def)
    have "answered h e st (subtyping (bounded_on st0) (numeric_on st0) (type_at h s) (type_at h t))
        (if eq then (True, st1) else subtype_structural h sol s t path st1)"
    proof (rule answered_then [OF o1])
      assume 2: "memo_ok h e st1" "solver_frame st st1"
        and "agrees e eq (type_equiv (type_at h s) (type_at h t))"
      moreover have "options_of st1 = options_of st0" using 2(2) opts by (simp add: solver_frame_def)
      ultimately show "answered h e st1 (subtyping (bounded_on st0) (numeric_on st0) (type_at h s) (type_at h t))
        (if eq then (True, st1) else subtype_structural h sol s t path st1)"
        using answered_structural [OF h sol q kind 2(1) solver_frame_under_way [OF 2(2) st(2)] _ deep(3,4,2,5)]
        by (auto simp: agrees_def answered_def intro: sb_equiv)
    qed
    then show ?thesis
      using deep 1 by simp
  qed
qed

subsection \<open>The solver\<close>

lemma answered_delegated:
  "answered h e st holds (delegated_step h k reason s t path res) \<longleftrightarrow> answered h e st holds res"
  by (rule answered_core_cong) (simp_all add: delegated_step_def case_prod_beta Let_def)

lemma answered_body:
  assumes "storage_ok h" "solver_ok h e left sol" "query_ok h e (Suc left) kind s t"
    and "memo_ok h e st" "under_way (rank kind s t) st"
  shows "answered h e st (related (bounded_on st) (numeric_on st) kind (type_at h s) (type_at h t))
    (relation_body h sol kind s t path st)"
  using answered_equivalent [OF assms] answered_subtype [OF assms(1-3) _ assms(4,5)]
  by (cases kind) (simp_all add: answered_delegated)

definition key_for :: "relation_kind \<Rightarrow> addr \<Rightarrow> addr \<Rightarrow> relation_solver \<Rightarrow> relation_key" where
  "key_for kind s t st =
     \<lparr>rk_kind = kind, rk_source = s, rk_target = t,
      rk_bounded = bounded_on st, rk_numeric = numeric_on st\<rparr>"

lemma make_relation_key_core: "make_relation_key kind s t st = key_for kind s t st"
  by (simp add: make_relation_key_def key_for_def options_of_def)

lemma key_related_for:
  "key_related h (key_for kind s t st) \<longleftrightarrow>
     related (bounded_on st) (numeric_on st) kind (type_at h s) (type_at h t)"
  by (simp add: key_related_def key_for_def)

text \<open>Entering a query, and leaving it with an answer.\<close>

lemma memo_enter:
  assumes "memo_ok h e st" "under_way (Suc (rank kind s t)) st"
    and "key_for kind s t st \<notin> set (keys_of (rs_memo st))"
  shows "memo_ok h e (st\<lparr>rs_memo := emplace (key_for kind s t st) Visiting (rs_memo st)\<rparr>) \<and>
    under_way (rank kind s t) (st\<lparr>rs_memo := emplace (key_for kind s t st) Visiting (rs_memo st)\<rparr>)"
  using assms by (auto simp: memo_ok_def under_way_def map_of_emplace key_for_def)

lemma memo_leave:
  assumes st: "memo_ok h e st"
    and inner: "answered h e (st\<lparr>rs_memo := emplace k Visiting (rs_memo st)\<rparr>) (key_related h k) (r, st1)"
    and st2: "st2 = (if k \<in> set (keys_of (rs_memo st1))
      then st1\<lparr>rs_memo := insert_or_assign k (if r then Proven else Disproven) (rs_memo st1)\<rparr> else st1)"
  shows "answered h e st (key_related h k) (r, st2)"
proof -
  have 1: "memo_ok h e st1" "agrees e r (key_related h k)" "options_of st1 = options_of st"
    "st_coinductive_assumptions (rs_stats st1) = st_coinductive_assumptions (rs_stats st)"
    "\<And>k'. map_of (rs_memo st1) k' = Some Visiting \<Longrightarrow> k' = k \<or> map_of (rs_memo st) k' = Some Visiting"
    using inner
    by (auto simp: answered_def solver_frame_def map_of_emplace options_of_def split: if_splits)
  show ?thesis
    using 1 unfolding st2
    by (auto simp: answered_def memo_ok_def solver_frame_def agrees_def options_of_def
        dest: map_of_SomeD_keys)
qed

lemma height_pos: "0 < height t"
  by (cases t) simp_all

text \<open>A memo hit answers right: the query itself cannot be under way.\<close>

lemma answered_hit:
  assumes st: "memo_ok h e st" "under_way (Suc (rank kind s t)) st"
    and core: "v \<noteq> Visiting \<Longrightarrow> core st' = core st"
    and hit: "map_of (rs_memo st) (key_for kind s t st) = Some v"
  shows "answered h e st (key_related h (key_for kind s t st)) (v \<noteq> Disproven, st')"
proof -
  have v: "v \<noteq> Visiting"
    using st(2) hit by (auto simp: under_way_def key_for_def)
  then have "agrees e (v \<noteq> Disproven) (key_related h (key_for kind s t st))"
    using st(1) hit by (cases v) (auto simp: memo_ok_def agrees_def)
  then show ?thesis
    using st core v by (intro answered_core) simp_all
qed

lemma answered_guard:
  assumes "memo_ok h e st" "core st' = (emplace k Disproven (rs_memo st), snd (core st))"
    and "\<not> e" "k \<notin> set (keys_of (rs_memo st))"
  shows "answered h e st (key_related h k) (False, st')"
  using assms
  by (auto simp: answered_def memo_ok_def solver_frame_def agrees_def core_def map_of_emplace)

lemma solve_step_cases:
  obtains (hit) v st' where "map_of (rs_memo st) (key_for kind s t st) = Some v"
      "v \<noteq> Visiting \<Longrightarrow> core st' = core st"
      "solve_step h deeper kind s t path st = (v \<noteq> Disproven, st')"
  | (guard) st' where "key_for kind s t st \<notin> set (keys_of (rs_memo st))" "deeper = None"
      "core st' = (emplace (key_for kind s t st) Disproven (rs_memo st), snd (core st))"
      "solve_step h deeper kind s t path st = (False, st')"
  | (deeper) sol st0 r st1 st2 st3 where "key_for kind s t st \<notin> set (keys_of (rs_memo st))"
      "deeper = Some sol" "core st0 = core st"
      "relation_body h sol kind s t path
         (st0\<lparr>rs_memo := emplace (key_for kind s t st) Visiting (rs_memo st0)\<rparr>) = (r, st1)"
      "st2 = (if key_for kind s t st \<in> set (keys_of (rs_memo st1))
        then st1\<lparr>rs_memo := insert_or_assign (key_for kind s t st)
          (if r then Proven else Disproven) (rs_memo st1)\<rparr> else st1)"
      "core st3 = core st2" "solve_step h deeper kind s t path st = (r, st3)"
proof -
  define st0 where "st0 = on_stats (\<lambda>x. x\<lparr>st_queries := st_queries x + 1\<rparr>) st"
  have core: "core st0 = core st" by (simp add: st0_def)
  have key: "make_relation_key kind s t st0 = key_for kind s t st"
    unfolding make_relation_key_core key_for_def by (simp add: core_cong(3) [OF core])
  have memo: "rs_memo st0 = rs_memo st" using core by (simp add: core_def)
  note step = solve_step_def [of h deeper kind s t path st, unfolded Let_def, folded st0_def, unfolded key memo]
  show thesis
  proof (cases "map_of (rs_memo st) (key_for kind s t st)")
    case (Some v)
    then show thesis
      using step core
      by (intro hit [OF Some, of "snd (solve_step h deeper kind s t path st)"]; cases v; simp)
  next
    case None
    then have fresh: "key_for kind s t st \<notin> set (keys_of (rs_memo st))"
      by (simp add: map_of_eq_None_keys)
    show thesis
    proof (cases deeper)
      case d: None
      show thesis
        using step None d fresh
        by (intro guard) (auto simp: core_def on_ctx_def on_stats_def options_of_def st0_def)
    next
      case (Some sol)
      obtain r st1 where body: "relation_body h sol kind s t path
          (st0\<lparr>rs_memo := emplace (key_for kind s t st) Visiting (rs_memo st)\<rparr>) = (r, st1)" by force
      show thesis
        by (rule deeper [OF fresh Some core _ refl]) (use step None Some body memo in auto)
    qed
  qed
qed

lemma solver_ok_step:
  assumes h: "storage_ok h"
    and deeper: "case deeper of None \<Rightarrow> left = 0 | Some sol \<Rightarrow> \<exists>n. left = Suc n \<and> solver_ok h e n sol"
  shows "solver_ok h e left (solve_step h deeper)"
  unfolding solver_ok_def key_related_for [symmetric]
proof (intro allI impI)
  fix kind s t path st
  assume q: "query_ok h e left kind s t" and st: "memo_ok h e st" "under_way (Suc (rank kind s t)) st"
  show "answered h e st (key_related h (key_for kind s t st)) (solve_step h deeper kind s t path st)"
  proof (cases rule: solve_step_cases [of st kind s t h deeper path])
    case (hit v st')
    then show ?thesis using answered_hit [OF st] by simp
  next
    case (guard st')
    have "\<not> e"
      using q deeper guard(2) height_pos [of "type_at h s"] height_pos [of "type_at h t"]
      by (auto simp: query_ok_def levels_def min_def split: if_splits)
    then show ?thesis
      using answered_guard [OF st(1) guard(3)] guard by simp
  next
    case (deeper sol st0 r st1 st2 st3)
    then obtain n where n: "left = Suc n" "solver_ok h e n sol" using assms(2) by auto
    have st0: "memo_ok h e st0" "under_way (Suc (rank kind s t)) st0" "options_of st0 = options_of st"
      "rs_memo st0 = rs_memo st"
      using st core_cong [OF deeper(3)] deeper(3) by (simp_all add: core_def)
    have key: "key_for kind s t st0 = key_for kind s t st" by (simp add: key_for_def st0)
    let ?st = "st0\<lparr>rs_memo := emplace (key_for kind s t st0) Visiting (rs_memo st0)\<rparr>"
    have "key_related h (key_for kind s t ?st) \<longleftrightarrow> key_related h (key_for kind s t st0)"
      by (simp add: key_for_def options_of_def)
    then have "answered h e ?st (key_related h (key_for kind s t st0)) (r, st1)"
      using answered_body [OF h n(2), of kind s t ?st path] q memo_enter [OF st0(1,2)] deeper(1,4)
      by (simp add: n(1) key st0(4) key_related_for)
    then have "answered h e st0 (key_related h (key_for kind s t st0)) (r, st2)"
      by (rule memo_leave [OF st0(1)]) (simp add: deeper(5) key)
    then have "answered h e st (key_related h (key_for kind s t st)) (r, st3)"
      using answered_core_cong [of st0 st "(r, st2)" "(r, st3)"] deeper(3,6) key by simp
    then show ?thesis
      using deeper(7) by simp
  qed
qed

lemma solver_ok_solve:
  assumes "storage_ok h"
  shows "solver_ok h e left (solve h left)"
  by (induction left) (simp_all add: solver_ok_step assms)

subsection \<open>The public questions\<close>

lemma answered_ask:
  assumes "storage_ok h" "valid_addr h s" "valid_addr h t"
    and "e \<Longrightarrow> int (levels h kind s t) \<le> ro_max_solver_depth (rc_options ctx)"
  shows "agrees e (fst (ask h kind s t ctx))
    (related (ro_allow_bounded_string_relaxation (rc_options ctx))
       (ro_allow_numeric_widening (rc_options ctx)) kind (type_at h s) (type_at h t))"
proof -
  define ctx1 where "ctx1 = (if rc_stack ctx = 0 \<and> ro_emit_constraint_skeleton (rc_options ctx)
    then push_node (ConstraintNode AndNode '''' '''' (describe h s) (describe h t) False []) ctx else ctx)"
  define n where "n = nat (ro_max_solver_depth (rc_options ctx))"
  have opts: "options_of (new_solver ctx1) = rc_options ctx"
    by (simp add: ctx1_def new_solver_def options_of_def)
  have "fst (ask h kind s t ctx) = fst (solve h n kind s t '''' (new_solver ctx1))"
    by (simp add: ask_def ctx1_def n_def Let_def case_prod_beta)
  moreover have "query_ok h e n kind s t"
    using assms by (auto simp: query_ok_def n_def)
  then have "answered h e (new_solver ctx1) (related (bounded_on (new_solver ctx1))
      (numeric_on (new_solver ctx1)) kind (type_at h s) (type_at h t))
      (solve h n kind s t '''' (new_solver ctx1))"
    by (rule solver_okD [OF solver_ok_solve [OF assms(1)] _ _ _ lessI])
       (simp_all add: memo_ok_def under_way_def new_solver_def)
  ultimately show ?thesis
    by (simp add: answered_def opts)
qed

lemma ask_sound:
  assumes "storage_ok h" "valid_addr h s" "valid_addr h t" "fst (ask h kind s t ctx)"
  shows "related (ro_allow_bounded_string_relaxation (rc_options ctx))
    (ro_allow_numeric_widening (rc_options ctx)) kind (type_at h s) (type_at h t)"
  using answered_ask [OF assms(1-3), of False kind ctx] assms(4) by (simp add: agrees_def)

lemma ask_decides:
  assumes "storage_ok h" "valid_addr h s" "valid_addr h t"
    and "int (levels h kind s t) \<le> ro_max_solver_depth (rc_options ctx)"
  shows "fst (ask h kind s t ctx) \<longleftrightarrow>
    related (ro_allow_bounded_string_relaxation (rc_options ctx))
      (ro_allow_numeric_widening (rc_options ctx)) kind (type_at h s) (type_at h t)"
  using answered_ask [OF assms(1-3), of True kind ctx] assms(4) by (auto simp: agrees_def)

text \<open>The solver never answers from the assumption that a query under way holds.\<close>

lemma no_coinductive_assumption:
  assumes "storage_ok h" "valid_addr h s" "valid_addr h t"
  shows "st_coinductive_assumptions (rs_stats (snd (solve h left kind s t path (new_solver ctx)))) = 0"
proof -
  have "answered h False (new_solver ctx) (related (bounded_on (new_solver ctx))
      (numeric_on (new_solver ctx)) kind (type_at h s) (type_at h t))
      (solve h left kind s t path (new_solver ctx))"
    using solver_ok_solve [OF assms(1), of False left] assms
    by (simp add: solver_ok_def query_ok_def memo_ok_def under_way_def new_solver_def)
  then show ?thesis
    by (simp add: answered_def solver_frame_def new_solver_def)
qed

subsection \<open>The constraint skeleton\<close>

text \<open>Every traversal closes the nodes it opens.\<close>

abbreviation open_nodes :: "relation_solver \<Rightarrow> nat" where
  "open_nodes st \<equiv> rc_stack (rs_ctx st)"

lemma ctx_stack [simp]:
  "rc_stack (push_node n ctx) = Suc (rc_stack ctx)"
  "rc_stack (pop_node ctx) = rc_stack ctx - 1"
  "rc_stack (sync_trace kind p ex ac ok re ctx) = rc_stack ctx"
  by (simp_all add: push_node_def pop_node_def sync_trace_def record_trace_step_def)

lemma open_leaf [simp]: "open_nodes (snd (relation_leaf kind name h l r path v st)) = open_nodes st"
  by (simp add: relation_leaf_def on_ctx_def Let_def)

lemma open_frame:
  assumes "\<And>st. open_nodes (snd (run st)) = open_nodes st"
  shows "open_nodes (snd (with_frame h k path l r run st)) = open_nodes st"
  using assms by (simp add: with_frame_def on_ctx_def Let_def case_prod_beta)

lemma open_relaxed [simp]: "open_nodes (snd (subtype_relaxed h s t path st)) = open_nodes st"
proof (cases "h ! s")
  case (BoundedStringT lo hi)
  then show ?thesis
    by (cases "h ! t") (simp_all add: subtype_relaxed_def subtype_leaf_def Let_def)
next
  case (DecimalT d)
  then show ?thesis
    by (cases "h ! t") (simp_all add: subtype_relaxed_def subtype_leaf_def Let_def)
qed (simp_all add: subtype_relaxed_def subtype_leaf_def Let_def)

lemma open_structural:
  assumes sol: "\<And>kind s t path st. open_nodes (snd (sol kind s t path st)) = open_nodes st"
  shows "open_nodes (snd (subtype_structural h sol s t path st)) = open_nodes st"
proof (cases "child_ptrs (h ! s) = []")
  case True
  then show ?thesis
    by (cases "h ! s") (simp_all add: subtype_structural_def subtype_leaf_def split: payload.split)
next
  case False
  then show ?thesis
    by (cases "h ! s"; cases "h ! t")
       (simp_all add: subtype_structural_def subtype_unary_def subtype_leaf_def sol case_prod_beta Let_def
          split: option.split)
qed

lemma open_equivalent:
  assumes sol: "\<And>kind s t path st. open_nodes (snd (sol kind s t path st)) = open_nodes st"
  shows "open_nodes (snd (equivalent_impl h sol s t path st)) = open_nodes st"
proof -
  have struct: "open_nodes (snd (equivalent_struct h s t path ok st)) = open_nodes st" for ok
    unfolding equivalent_struct_def by (rule open_frame) (simp add: on_ctx_def)
  have unary: "open_nodes (snd (equivalent_unary h sol s t path seg p p' st)) = open_nodes st" for seg p p'
    by (auto simp: equivalent_unary_def equivalent_leaf_def sol split: option.split intro!: open_frame)
  have pairwise: "open_nodes (snd (with_frame h AndNode path s t
      (equivalent_pairwise sol a b c d path x y) st)) = open_nodes st" for a b c d x y
    by (rule open_frame) (simp add: equivalent_pairwise_def case_prod_beta Let_def sol)
  show ?thesis
  proof (cases "s = t \<or> payload_index (h ! s) \<noteq> payload_index (h ! t)")
    case True
    then show ?thesis by (auto simp: equivalent_impl_def equivalent_leaf_def)
  next
    case False
    then show ?thesis
      by (cases "h ! s"; cases "h ! t")
         (simp_all add: equivalent_impl_def equivalent_leaf_def struct unary pairwise split: option.split)
  qed
qed

lemma open_subtype:
  assumes sol: "\<And>kind s t path st. open_nodes (snd (sol kind s t path st)) = open_nodes st"
  shows "open_nodes (snd (subtype_impl h sol s t path st)) = open_nodes st"
  unfolding subtype_impl_def
  by (rule open_frame) (simp add: subtype_leaf_def sol open_structural [OF sol] case_prod_beta Let_def)

lemma open_body:
  assumes sol: "\<And>kind s t path st. open_nodes (snd (sol kind s t path st)) = open_nodes st"
  shows "open_nodes (snd (relation_body h sol kind s t path st)) = open_nodes st"
  by (cases kind)
     (simp_all add: open_equivalent [OF sol] open_subtype [OF sol] delegated_step_def on_ctx_def
        case_prod_beta Let_def)

lemma open_step:
  assumes "\<And>sol kind s t path st. deeper = Some sol \<Longrightarrow> open_nodes (snd (sol kind s t path st)) = open_nodes st"
  shows "open_nodes (snd (solve_step h deeper kind s t path st)) = open_nodes st"
proof (cases deeper)
  case None
  then show ?thesis
    by (simp add: solve_step_def on_ctx_def on_stats_def Let_def split: option.split relation_state.split)
next
  case (Some sol)
  have "open_nodes (snd (relation_body h sol kind s t path st1)) = open_nodes st1" for st1
    by (rule open_body) (rule assms [OF Some])
  then show ?thesis
    by (simp add: solve_step_def Some on_ctx_def on_stats_def case_prod_beta Let_def
        split: option.split relation_state.split)
qed

lemma open_solve: "open_nodes (snd (solve h left kind s t path st)) = open_nodes st"
  by (induction left arbitrary: kind s t path st) (auto intro!: open_step)

text \<open>
  A question closes the node it opened for itself. It also closes one when it opened none,
  because the caller already had a node open.
\<close>

lemma ask_stack:
  "rc_stack (snd (ask h kind s t ctx)) =
     (if ro_emit_constraint_skeleton (rc_options ctx) then rc_stack ctx - 1 else rc_stack ctx)"
  using open_solve [of h "nat (ro_max_solver_depth (rc_options ctx))" kind s t "''''"]
  by (simp add: ask_def new_solver_def case_prod_beta Let_def)

end
