(* ===== verification/Demo_Types.thy ===== *)
theory Demo_Types
  imports Relation_Solver
begin

section \<open>A type context\<close>

text \<open>
  A context with a string, a bounded string and the lists of both, for the witnesses of the
  type relations. Nothing here models code.
\<close>

definition demo_types :: type_context where
  "demo_types =
     snd (list_type (Some 1) (snd (list_type (Some 0)
       (snd (bounded_string 1 10 (snd (string_type empty_type_context)))))))"

lemma demo_types_storage:
  "tc_storage demo_types = [StringT, BoundedStringT 1 10, ListT (Some 0), ListT (Some 1)]"
  by (simp add: demo_types_def factory_defs intern_def plain_key_def build_payload_def emplace_def
      empty_type_context_def)

lemma demo_types_at:
  "type_at (tc_storage demo_types) 0 = TString"
  "type_at (tc_storage demo_types) (Suc 0) = TBoundedString 1 10"
  "type_at (tc_storage demo_types) 2 = TList TString"
  "type_at (tc_storage demo_types) 3 = TList (TBoundedString 1 10)"
  by (simp_all add: demo_types_storage type_at.simps)

lemma demo_types_valid:
  "valid_addr (tc_storage demo_types) 2" "valid_addr (tc_storage demo_types) 3"
  "valid_addr (tc_storage demo_types) 0" "valid_addr (tc_storage demo_types) (Suc 0)"
  by (simp_all add: valid_addr_def demo_types_at) (simp_all add: demo_types_storage)

lemma demo_types_built: "built demo_types"
proof -
  have 1: "built (snd (string_type empty_type_context))"
    by (rule built_step [OF built_empty fs_string]) (rule surjective_pairing)
  have 2: "built (snd (bounded_string 1 10 (snd (string_type empty_type_context))))"
    by (rule built_step [OF 1 fs_bounded]) (rule surjective_pairing)
  have 3: "built (snd (list_type (Some 0) (snd (bounded_string 1 10 (snd (string_type empty_type_context))))))"
    by (rule built_step [OF 2 fs_list [OF _ surjective_pairing]])
       (simp add: ptr_in_def factory_defs intern_def plain_key_def emplace_def empty_type_context_def)
  show ?thesis
    unfolding demo_types_def
    by (rule built_step [OF 3 fs_list [OF _ surjective_pairing]])
       (simp add: ptr_in_def factory_defs intern_def plain_key_def emplace_def empty_type_context_def)
qed

end
