(* ===== verification/Diagnostics.thy ===== *)
theory Diagnostics
  imports Prelude
begin

section \<open>Diagnostic bags\<close>

text \<open>
  \<open>include/ahfl/base/support/diagnostics.hpp\<close>: a bag is the vector of its diagnostics and two
  counters, which \<open>add_diagnostic\<close> and \<open>append\<close> maintain and \<open>has_error\<close> reads. The
  source position of a diagnostic (range, source name, notes) is left out: no code modelled
  here sets it. The invariant \<open>bag_ok\<close> says that the counters count.
\<close>

datatype diagnostic_severity = Note | Warning | Error

record diagnostic =
  severity :: diagnostic_severity
  message :: string
  code :: "string option"

record diagnostic_bag =
  diagnostics :: "diagnostic list"
  error_count :: nat
  warning_count :: nat

definition empty_bag :: diagnostic_bag where
  "empty_bag = \<lparr>diagnostics = [], error_count = 0, warning_count = 0\<rparr>"

definition has_error :: "diagnostic_bag \<Rightarrow> bool" where
  "has_error b \<longleftrightarrow> error_count b > 0"

definition has_warning :: "diagnostic_bag \<Rightarrow> bool" where
  "has_warning b \<longleftrightarrow> warning_count b > 0"

definition bag_append :: "diagnostic_bag \<Rightarrow> diagnostic_bag \<Rightarrow> diagnostic_bag" where
  "bag_append b other =
     \<lparr>diagnostics = diagnostics b @ diagnostics other,
      error_count = error_count b + error_count other,
      warning_count = warning_count b + warning_count other\<rparr>"

definition add_diagnostic :: "diagnostic_bag \<Rightarrow> diagnostic \<Rightarrow> diagnostic_bag" where
  "add_diagnostic b d =
     (let b' = (if severity d = Error then b\<lparr>error_count := error_count b + 1\<rparr>
                else if severity d = Warning then b\<lparr>warning_count := warning_count b + 1\<rparr>
                else b)
      in b'\<lparr>diagnostics := diagnostics b' @ [d]\<rparr>)"

text \<open>\<open>bag.error().message(m).emit()\<close>, and the same with a code.\<close>

definition emit_error :: "diagnostic_bag \<Rightarrow> string \<Rightarrow> diagnostic_bag" where
  "emit_error b m = add_diagnostic b \<lparr>severity = Error, message = m, code = None\<rparr>"

definition emit_error_code :: "diagnostic_bag \<Rightarrow> string \<Rightarrow> string \<Rightarrow> diagnostic_bag" where
  "emit_error_code b c m = add_diagnostic b \<lparr>severity = Error, message = m, code = Some c\<rparr>"

definition bag_ok :: "diagnostic_bag \<Rightarrow> bool" where
  "bag_ok b \<longleftrightarrow>
     error_count b = length (filter (\<lambda>d. severity d = Error) (diagnostics b)) \<and>
     warning_count b = length (filter (\<lambda>d. severity d = Warning) (diagnostics b))"

lemma has_error_simps [simp, bag_simps]:
  "\<not> has_error empty_bag"
  "has_error (bag_append a b) \<longleftrightarrow> has_error a \<or> has_error b"
  "has_error (emit_error b m)"
  "has_error (emit_error_code b c m)"
  by (auto simp: has_error_def empty_bag_def bag_append_def emit_error_def emit_error_code_def
      add_diagnostic_def)

lemma bag_ok_empty [simp]: "bag_ok empty_bag"
  by (simp add: bag_ok_def empty_bag_def)

lemma bag_ok_append [simp, intro]: "bag_ok a \<Longrightarrow> bag_ok b \<Longrightarrow> bag_ok (bag_append a b)"
  by (simp add: bag_ok_def bag_append_def)

lemma bag_ok_add [simp, intro]: "bag_ok b \<Longrightarrow> bag_ok (add_diagnostic b d)"
  by (auto simp: bag_ok_def add_diagnostic_def Let_def)

lemma bag_ok_emit [simp, intro]:
  "bag_ok b \<Longrightarrow> bag_ok (emit_error b m)" "bag_ok b \<Longrightarrow> bag_ok (emit_error_code b c m)"
  by (simp_all add: emit_error_def emit_error_code_def)

lemma has_error_iff: "bag_ok b \<Longrightarrow> has_error b \<longleftrightarrow> (\<exists>d \<in> set (diagnostics b). severity d = Error)"
  by (auto simp: bag_ok_def has_error_def filter_empty_conv)

end
