(* ===== verification/Values.thy ===== *)
theory Values
  imports Cxx_Double
begin

section \<open>Runtime values\<close>

text \<open>
  \<open>src/runtime/evaluator/value.hpp\<close> and \<open>value.cpp\<close>. The variant is a datatype with the
  source's alternatives; a \<open>unique_ptr<Value>\<close> may be null and is an option; the field map
  of a struct is an association list. \<open>value_ok\<close> is the invariant of the values the program
  builds: integers in range, distinct field names, no null pointer inside. \<open>clone_value\<close> drops
  null entries and is the identity on values that satisfy it.
\<close>

datatype val =
    NoneValue
  | BoolValue bool
  | IntValue int
  | FloatValue double
  | StringValue string
  | DecimalValue string
  | DurationValue string
  | StructValue string "(string \<times> val option) list"
  | ListValue "val option list"
  | EnumValue string string
  | OptionalValue "val option"

datatype value_kind =
    KNone | KBool | KInt | KFloat | KString | KDecimal | KDuration | KStruct | KList | KEnum
  | KOptional

fun value_kind_of :: "val \<Rightarrow> value_kind" where
  "value_kind_of NoneValue = KNone"
| "value_kind_of (BoolValue _) = KBool"
| "value_kind_of (IntValue _) = KInt"
| "value_kind_of (FloatValue _) = KFloat"
| "value_kind_of (StringValue _) = KString"
| "value_kind_of (DecimalValue _) = KDecimal"
| "value_kind_of (DurationValue _) = KDuration"
| "value_kind_of (StructValue _ _) = KStruct"
| "value_kind_of (ListValue _) = KList"
| "value_kind_of (EnumValue _ _) = KEnum"
| "value_kind_of (OptionalValue _) = KOptional"

definition is_none :: "val \<Rightarrow> bool" where
  "is_none v \<longleftrightarrow> v = NoneValue"

subsection \<open>Constructors\<close>

definition make_optional_some :: "val \<Rightarrow> val" where
  "make_optional_some v = OptionalValue (Some v)"

definition make_optional_none :: val where
  "make_optional_none = OptionalValue None"

text \<open>\<open>make_struct\<close> moves the entries of the map one by one into \<open>fields\<close> (\<open>emplace\<close>).\<close>

definition make_struct :: "string \<Rightarrow> (string \<times> val) list \<Rightarrow> val" where
  "make_struct type_name fields =
     StructValue type_name (foldl (\<lambda>acc (k, v). emplace k (Some v) acc) [] fields)"

definition make_list :: "val list \<Rightarrow> val" where
  "make_list items = ListValue (map Some items)"

subsection \<open>Deep copy\<close>

fun clone_value :: "val \<Rightarrow> val"
  and clone_fields :: "(string \<times> val option) list \<Rightarrow> (string \<times> val option) list"
  and clone_items :: "val option list \<Rightarrow> val option list" where
  "clone_value NoneValue = NoneValue"
| "clone_value (BoolValue b) = BoolValue b"
| "clone_value (IntValue i) = IntValue i"
| "clone_value (FloatValue d) = FloatValue d"
| "clone_value (StringValue s) = StringValue s"
| "clone_value (DecimalValue s) = DecimalValue s"
| "clone_value (DurationValue s) = DurationValue s"
| "clone_value (StructValue n fs) = StructValue n (clone_fields fs)"
| "clone_value (ListValue xs) = ListValue (clone_items xs)"
| "clone_value (EnumValue e v) = EnumValue e v"
| "clone_value (OptionalValue None) = make_optional_none"
| "clone_value (OptionalValue (Some v)) = make_optional_some (clone_value v)"
| "clone_fields [] = []"
| "clone_fields ((k, None) # fs) = clone_fields fs"
| "clone_fields ((k, Some v) # fs) = (k, Some (clone_value v)) # clone_fields fs"
| "clone_items [] = []"
| "clone_items (None # xs) = clone_items xs"
| "clone_items (Some v # xs) = Some (clone_value v) # clone_items xs"

subsection \<open>The invariant\<close>

fun value_ok :: "val \<Rightarrow> bool"
  and fields_ok :: "(string \<times> val option) list \<Rightarrow> bool"
  and items_ok :: "val option list \<Rightarrow> bool" where
  "value_ok (IntValue i) = in_int64 i"
| "value_ok (StructValue n fs) = (distinct (keys_of fs) \<and> fields_ok fs)"
| "value_ok (ListValue xs) = items_ok xs"
| "value_ok (OptionalValue (Some v)) = value_ok v"
| "value_ok v = True"
| "fields_ok [] = True"
| "fields_ok ((k, None) # fs) = False"
| "fields_ok ((k, Some v) # fs) = (value_ok v \<and> fields_ok fs)"
| "items_ok [] = True"
| "items_ok (None # xs) = False"
| "items_ok (Some v # xs) = (value_ok v \<and> items_ok xs)"

lemma clone_value_ok:
  "value_ok v \<Longrightarrow> clone_value v = v"
  "fields_ok fs \<Longrightarrow> clone_fields fs = fs"
  "items_ok xs \<Longrightarrow> clone_items xs = xs"
  by (induction v and fs and xs rule: value_ok_fields_ok_items_ok.induct)
    (simp_all add: make_optional_some_def make_optional_none_def)

lemma clone_value_idem:
  "clone_value (clone_value v) = clone_value v"
  "clone_fields (clone_fields fs) = clone_fields fs"
  "clone_items (clone_items xs) = clone_items xs"
  by (induction v and fs and xs rule: clone_value_clone_fields_clone_items.induct)
    (simp_all add: make_optional_some_def make_optional_none_def)

lemma fields_ok_iff:
  "fields_ok fs \<longleftrightarrow> (\<forall>(k, p) \<in> set fs. \<exists>v. p = Some v \<and> value_ok v)"
proof (induction fs)
  case (Cons f fs)
  then show ?case by (cases f; cases "snd f") auto
qed simp

lemma items_ok_iff: "items_ok xs \<longleftrightarrow> (\<forall>p \<in> set xs. \<exists>v. p = Some v \<and> value_ok v)"
proof (induction xs)
  case (Cons x xs)
  then show ?case by (cases x) auto
qed simp

lemma fields_ok_lookup: "fields_ok fs \<Longrightarrow> map_of fs k = Some p \<Longrightarrow> \<exists>v. p = Some v \<and> value_ok v"
  by (auto simp: fields_ok_iff dest!: map_of_SomeD)

lemma clone_value_value_ok: "value_ok v \<Longrightarrow> value_ok (clone_value v)"
  by (simp add: clone_value_ok)

lemma fields_ok_clone: "fields_ok fs \<Longrightarrow> map_of fs k = Some (Some v) \<Longrightarrow> value_ok (clone_value v)"
  by (auto dest: fields_ok_lookup intro: clone_value_value_ok)

lemma items_ok_nth: "items_ok xs \<Longrightarrow> i < length xs \<Longrightarrow> xs ! i = Some v \<Longrightarrow> value_ok v"
  by (auto simp: items_ok_iff dest!: nth_mem)

lemma make_list_ok: "value_ok (make_list vs) \<longleftrightarrow> (\<forall>v \<in> set vs. value_ok v)"
  by (auto simp: make_list_def items_ok_iff)

lemma foldl_emplace_props:
  assumes "distinct (keys_of acc)" "fields_ok acc" "\<forall>(k, v) \<in> set fields. value_ok v"
  defines "r \<equiv> foldl (\<lambda>acc (k, v). emplace k (Some v) acc) acc fields"
  shows "distinct (keys_of r) \<and> fields_ok r"
  using assms(1-3) unfolding r_def
proof (induction fields arbitrary: acc)
  case (Cons f fields)
  obtain k v where f: "f = (k, v)" by (cases f)
  have "fields_ok (emplace k (Some v) acc)"
    using Cons.prems f by (auto simp: fields_ok_iff emplace_def)
  with Cons.prems f show ?case
    by (simp add: Cons.IH distinct_emplace)
qed simp

lemma make_struct_ok: "\<forall>(k, v) \<in> set fields. value_ok v \<Longrightarrow> value_ok (make_struct n fields)"
  using foldl_emplace_props [of "[]" fields] by (simp add: make_struct_def)

text \<open>On a map (distinct keys) \<open>make_struct\<close> keeps every entry.\<close>

lemma foldl_emplace_distinct:
  assumes "distinct (keys_of acc @ keys_of fields)"
  shows "foldl (\<lambda>acc (k, v). emplace k (Some v) acc) acc fields =
    acc @ map (\<lambda>(k, v). (k, Some v)) fields"
  using assms
proof (induction fields arbitrary: acc)
  case (Cons f fields)
  obtain k v where f: "f = (k, v)" by (cases f)
  with Cons.prems have "emplace k (Some v) acc = acc @ [(k, Some v)]"
    by (auto simp: emplace_def)
  with Cons f show ?case by simp
qed simp

lemma make_struct_lookup:
  "distinct (keys_of fields) \<Longrightarrow>
    make_struct n fields = StructValue n (map (\<lambda>(k, v). (k, Some v)) fields)"
  by (simp add: make_struct_def foldl_emplace_distinct)

end
