(* ===== verification/Eval_Context.thy ===== *)
theory Eval_Context
  imports Values
begin

section \<open>Evaluation contexts\<close>

text \<open>
  \<open>src/runtime/evaluator/eval_context.hpp\<close> and \<open>eval_context.cpp\<close>: four scopes, each a map
  from names to values; the node output scope maps a node to the map of its fields. The
  getters copy the value they return. The locale \<open>scope\<close> is the contract the callers rely on
  (what a lookup returns after a store, and that the other scopes keep their contents); it
  is interpreted for the three flat scopes and for the node output scope.
\<close>

record eval_context =
  input_scope :: "string \<rightharpoonup> val"
  ctx_scope :: "string \<rightharpoonup> val"
  node_output_scope :: "string \<rightharpoonup> (string \<rightharpoonup> val)"
  local_scope :: "string \<rightharpoonup> val"

definition empty_context :: eval_context where
  "empty_context =
     \<lparr>input_scope = Map.empty, ctx_scope = Map.empty, node_output_scope = Map.empty,
      local_scope = Map.empty\<rparr>"

definition set_input :: "string \<Rightarrow> val \<Rightarrow> eval_context \<Rightarrow> eval_context" where
  "set_input n v c = c\<lparr>input_scope := (input_scope c)(n \<mapsto> v)\<rparr>"

definition get_input :: "eval_context \<Rightarrow> string \<Rightarrow> val option" where
  "get_input c n = map_option clone_value (input_scope c n)"

definition set_ctx :: "string \<Rightarrow> val \<Rightarrow> eval_context \<Rightarrow> eval_context" where
  "set_ctx n v c = c\<lparr>ctx_scope := (ctx_scope c)(n \<mapsto> v)\<rparr>"

definition get_ctx :: "eval_context \<Rightarrow> string \<Rightarrow> val option" where
  "get_ctx c n = map_option clone_value (ctx_scope c n)"

text \<open>\<open>node_output_scope_[node]\<close> creates an empty field map for a new node.\<close>

definition set_node_output :: "string \<Rightarrow> string \<Rightarrow> val \<Rightarrow> eval_context \<Rightarrow> eval_context" where
  "set_node_output node field v c =
     (let fields = (case node_output_scope c node of None \<Rightarrow> Map.empty | Some m \<Rightarrow> m)
      in c\<lparr>node_output_scope := (node_output_scope c)(node \<mapsto> fields(field \<mapsto> v))\<rparr>)"

definition get_node_output :: "eval_context \<Rightarrow> string \<Rightarrow> string \<Rightarrow> val option" where
  "get_node_output c node field =
     (case node_output_scope c node of
        None \<Rightarrow> None
      | Some m \<Rightarrow> map_option clone_value (m field))"

definition bind_local :: "string \<Rightarrow> val \<Rightarrow> eval_context \<Rightarrow> eval_context" where
  "bind_local n v c = c\<lparr>local_scope := (local_scope c)(n \<mapsto> v)\<rparr>"

definition get_local :: "eval_context \<Rightarrow> string \<Rightarrow> val option" where
  "get_local c n = map_option clone_value (local_scope c n)"

definition lookup_path :: "eval_context \<Rightarrow> string \<Rightarrow> string \<Rightarrow> val option" where
  "lookup_path c root member =
     (if root = ''input'' then get_input c member
      else if root = ''ctx'' then get_ctx c member
      else get_node_output c root member)"

definition context_ok :: "eval_context \<Rightarrow> bool" where
  "context_ok c \<longleftrightarrow>
     (\<forall>v \<in> ran (input_scope c). value_ok v) \<and> (\<forall>v \<in> ran (ctx_scope c). value_ok v) \<and>
     (\<forall>m \<in> ran (node_output_scope c). \<forall>v \<in> ran m. value_ok v) \<and>
     (\<forall>v \<in> ran (local_scope c). value_ok v)"

subsection \<open>The contract of a scope\<close>

text \<open>
  \<open>store k v c\<close> and \<open>fetch c k\<close>: fetching the stored key gives a copy of the value, every
  other key is untouched, and everything observed by \<open>others\<close> (the remaining scopes) is
  untouched. \<open>good\<close> is the invariant of the contexts.
\<close>

locale scope =
  fixes store :: "'k \<Rightarrow> val \<Rightarrow> eval_context \<Rightarrow> eval_context"
    and fetch :: "eval_context \<Rightarrow> 'k \<Rightarrow> val option"
    and others :: "eval_context \<Rightarrow> 'o"
    and good :: "eval_context \<Rightarrow> bool"
  assumes fetch_store: "fetch (store k v c) k' = (if k' = k then Some (clone_value v) else fetch c k')"
    and others_store: "others (store k v c) = others c"
    and good_store: "good c \<Longrightarrow> value_ok v \<Longrightarrow> good (store k v c)"
    and fetch_good: "good c \<Longrightarrow> fetch c k = Some v \<Longrightarrow> value_ok v"
begin

lemma fetch_store_ok: "value_ok v \<Longrightarrow> fetch (store k v c) k = Some v"
  by (simp add: fetch_store clone_value_ok)

lemma store_store: "fetch (store k w (store k v c)) k' = fetch (store k w c) k'"
  by (simp add: fetch_store)

lemma store_commute:
  "k \<noteq> l \<Longrightarrow> fetch (store k v (store l w c)) k' = fetch (store l w (store k v c)) k'"
  by (simp add: fetch_store)

text \<open>Storing a list of entries: the last entry of a key wins.\<close>

lemma fetch_fold:
  "fetch (fold (\<lambda>(k, v). store k v) kvs c) k =
    (case map_of (rev kvs) k of None \<Rightarrow> fetch c k | Some v \<Rightarrow> Some (clone_value v))"
proof (induction kvs arbitrary: c)
  case (Cons kv kvs)
  obtain l v where "kv = (l, v)" by (cases kv)
  then show ?case
    by (simp add: Cons.IH fetch_store map_add_def split: option.splits)
qed simp

lemma others_fold: "others (fold (\<lambda>(k, v). store k v) kvs c) = others c"
  by (induction kvs arbitrary: c) (auto simp: others_store)

lemma good_fold:
  "good c \<Longrightarrow> \<forall>(k, v) \<in> set kvs. value_ok v \<Longrightarrow> good (fold (\<lambda>(k, v). store k v) kvs c)"
  by (induction kvs arbitrary: c) (auto simp: good_store)

end

lemma ran_updD: "v \<in> ran (m(k \<mapsto> w)) \<Longrightarrow> v = w \<or> v \<in> ran m"
  by (auto simp: ran_def split: if_splits)

interpretation input: scope set_input get_input
  "\<lambda>c. (ctx_scope c, node_output_scope c, local_scope c)" context_ok
proof unfold_locales
  show "context_ok c \<Longrightarrow> value_ok v \<Longrightarrow> context_ok (set_input k v c)" for c v k
    by (auto simp: context_ok_def set_input_def dest!: ran_updD)
  show "context_ok c \<Longrightarrow> get_input c k = Some v \<Longrightarrow> value_ok v" for c k v
    by (auto simp: context_ok_def get_input_def intro: clone_value_value_ok ranI)
qed (auto simp: set_input_def get_input_def)

interpretation ctx: scope set_ctx get_ctx
  "\<lambda>c. (input_scope c, node_output_scope c, local_scope c)" context_ok
proof unfold_locales
  show "context_ok c \<Longrightarrow> value_ok v \<Longrightarrow> context_ok (set_ctx k v c)" for c v k
    by (auto simp: context_ok_def set_ctx_def dest!: ran_updD)
  show "context_ok c \<Longrightarrow> get_ctx c k = Some v \<Longrightarrow> value_ok v" for c k v
    by (auto simp: context_ok_def get_ctx_def intro: clone_value_value_ok ranI)
qed (auto simp: set_ctx_def get_ctx_def)

interpretation local_var: scope bind_local get_local
  "\<lambda>c. (input_scope c, ctx_scope c, node_output_scope c)" context_ok
proof unfold_locales
  show "context_ok c \<Longrightarrow> value_ok v \<Longrightarrow> context_ok (bind_local k v c)" for c v k
    by (auto simp: context_ok_def bind_local_def dest!: ran_updD)
  show "context_ok c \<Longrightarrow> get_local c k = Some v \<Longrightarrow> value_ok v" for c k v
    by (auto simp: context_ok_def get_local_def intro: clone_value_value_ok ranI)
qed (auto simp: bind_local_def get_local_def)

interpretation node_output: scope "\<lambda>(n, f). set_node_output n f" "\<lambda>c (n, f). get_node_output c n f"
  "\<lambda>c. (input_scope c, ctx_scope c, local_scope c)" context_ok
proof unfold_locales
  show "context_ok c \<Longrightarrow> value_ok v \<Longrightarrow> context_ok ((case k of (n, f) \<Rightarrow> set_node_output n f) v c)"
    for c v and k :: "string \<times> string"
    by (cases k) (auto 4 4 simp: context_ok_def set_node_output_def Let_def ran_def
        split: option.splits if_splits)
  show "context_ok c \<Longrightarrow> (case k of (n, f) \<Rightarrow> get_node_output c n f) = Some v \<Longrightarrow> value_ok v"
    for c v and k :: "string \<times> string"
    by (cases k) (auto simp: context_ok_def get_node_output_def intro!: clone_value_value_ok
        split: option.splits, metis ranI)
qed (auto simp: set_node_output_def get_node_output_def Let_def split: option.splits if_splits)

lemma context_ok_empty [simp]: "context_ok empty_context"
  by (simp add: context_ok_def empty_context_def ran_def)

lemma lookup_path_ok: "context_ok c \<Longrightarrow> lookup_path c r m = Some v \<Longrightarrow> value_ok v"
  using node_output.fetch_good [of c "(r, m)" v] input.fetch_good ctx.fetch_good
  by (auto simp: lookup_path_def split: if_splits)

lemma get_input_empty [simp, ctx_simps]: "get_input empty_context n = None"
  and get_ctx_empty [simp, ctx_simps]: "get_ctx empty_context n = None"
  and get_local_empty [simp, ctx_simps]: "get_local empty_context n = None"
  and get_node_output_empty [simp, ctx_simps]: "get_node_output empty_context n f = None"
  by (simp_all add: get_input_def get_ctx_def get_local_def get_node_output_def empty_context_def)

end
