(* ===== verification/Evaluator.thy ===== *)
theory Evaluator
  imports IR Diagnostics Eval_Context
begin

section \<open>The expression evaluator\<close>

text \<open>
  \<open>src/runtime/evaluator/evaluator.cpp\<close>, one definition per function. An evaluation runs in
  a world \<open>'s\<close> that capability calls may change, and returns the result with the new world;
  \<^const>\<open>None\<close> stands for undefined behaviour (a signed overflow, which the code does not
  exclude). A \<open>CallEvalFn\<close> receives the callee and, for each argument expression, its
  evaluation in the current context with the same call evaluator: the only one the program
  builds (\<open>capability_eval.cpp\<close>) uses the call expression in no other way.
\<close>

record eval_result =
  eval_value :: val
  eval_diags :: diagnostic_bag

type_synonym 's eval_m = "'s \<Rightarrow> (eval_result \<times> 's) option"
type_synonym 's call_eval = "string \<Rightarrow> 's eval_m option list \<Rightarrow> 's eval_m"

definition has_errors :: "eval_result \<Rightarrow> bool" where
  "has_errors r = has_error (eval_diags r)"

definition ok_result :: "val \<Rightarrow> eval_result" where
  "ok_result v = \<lparr>eval_value = v, eval_diags = empty_bag\<rparr>"

definition make_error :: "string \<Rightarrow> eval_result" where
  "make_error m = \<lparr>eval_value = NoneValue, eval_diags = emit_error empty_bag m\<rparr>"

subsection \<open>Literals, paths, qualified values\<close>

definition eval_integer_literal :: "string \<Rightarrow> eval_result" where
  "eval_integer_literal spelling =
     (case stoll spelling of
        ScanValue v \<Rightarrow> ok_result (IntValue v)
      | ScanInvalid \<Rightarrow> make_error (''invalid integer format: '' @ spelling)
      | ScanOutOfRange \<Rightarrow> make_error (''integer out of range: '' @ spelling))"

definition eval_float_literal :: "string \<Rightarrow> eval_result" where
  "eval_float_literal spelling =
     (case stod spelling of
        ScanValue v \<Rightarrow> ok_result (FloatValue v)
      | ScanInvalid \<Rightarrow> make_error (''invalid float format: '' @ spelling)
      | ScanOutOfRange \<Rightarrow> make_error (''float out of range: '' @ spelling))"

text \<open>The member walk that both loops of \<open>eval_path_expr\<close> run.\<close>

fun walk_members :: "val \<Rightarrow> string list \<Rightarrow> eval_result" where
  "walk_members v [] = ok_result v"
| "walk_members v (m # ms) =
     (case v of
        StructValue n fs \<Rightarrow>
          (case map_of fs m of
             Some (Some f) \<Rightarrow> walk_members (clone_value f) ms
           | _ \<Rightarrow> make_error (''struct has no field: '' @ m))
      | _ \<Rightarrow> make_error (''cannot access member '' @ quoted m @ '' on non-struct value''))"

definition eval_path_expr :: "path \<Rightarrow> eval_context \<Rightarrow> eval_result" where
  "eval_path_expr p c =
     (case members p of
        [] \<Rightarrow>
          (case get_local c (root_name p) of
             Some v \<Rightarrow> ok_result v
           | None \<Rightarrow> make_error (''unresolved path: '' @ root_name p))
      | m # ms \<Rightarrow>
          (case get_local c (root_name p) of
             Some v \<Rightarrow> walk_members v (m # ms)
           | None \<Rightarrow>
               (case lookup_path c (root_name p) m of
                  None \<Rightarrow> make_error (''unresolved path: '' @ root_name p @ ''.'' @ m)
                | Some v \<Rightarrow> walk_members v ms)))"

definition eval_qualified_value_expr :: "string \<Rightarrow> eval_result" where
  "eval_qualified_value_expr s =
     (case rfind ''::'' s of
        None \<Rightarrow> ok_result (EnumValue [] s)
      | Some pos \<Rightarrow> ok_result (EnumValue (take pos s) (drop (pos + 2) s)))"

subsection \<open>Operators on values\<close>

definition eval_unary_op :: "expr_unary_op \<Rightarrow> eval_result \<Rightarrow> eval_result option" where
  "eval_unary_op op operand =
     (case op of
        OpNot \<Rightarrow>
          (case eval_value operand of
             BoolValue b \<Rightarrow> Some (ok_result (BoolValue (\<not> b)))
           | _ \<Rightarrow> Some (make_error (quoted ''not'' @ '' operator requires Bool operand'')))
      | OpNegate \<Rightarrow>
          (case eval_value operand of
             IntValue i \<Rightarrow> map_option (\<lambda>j. ok_result (IntValue j)) (int64_result (- i))
           | FloatValue d \<Rightarrow> Some (ok_result (FloatValue (double_neg d)))
           | _ \<Rightarrow> Some (make_error (quoted ''negate'' @ '' operator requires Int or Float operand'')))
      | OpPositive \<Rightarrow>
          (case eval_value operand of
             IntValue i \<Rightarrow> Some operand
           | FloatValue d \<Rightarrow> Some operand
           | _ \<Rightarrow> Some (make_error (quoted ''+'' @ '' operator requires Int or Float operand''))))"

datatype numeric_pair = BothInt int int | BothFloat double double

definition extract_numeric :: "val \<Rightarrow> val \<Rightarrow> numeric_pair option" where
  "extract_numeric l r =
     (case (l, r) of
        (IntValue a, IntValue b) \<Rightarrow> Some (BothInt a b)
      | (IntValue a, FloatValue b) \<Rightarrow> Some (BothFloat (double_of_int a) b)
      | (FloatValue a, IntValue b) \<Rightarrow> Some (BothFloat a (double_of_int b))
      | (FloatValue a, FloatValue b) \<Rightarrow> Some (BothFloat a b)
      | _ \<Rightarrow> None)"

definition eval_logical :: "string \<Rightarrow> (bool \<Rightarrow> bool \<Rightarrow> bool) \<Rightarrow> val \<Rightarrow> val \<Rightarrow> eval_result" where
  "eval_logical name f l r =
     (case (l, r) of
        (BoolValue a, BoolValue b) \<Rightarrow> ok_result (BoolValue (f a b))
      | _ \<Rightarrow> make_error (quoted name @ '' requires Bool operands''))"

definition eval_equal :: "val \<Rightarrow> val \<Rightarrow> bool" where
  "eval_equal l r =
     (case extract_numeric l r of
        Some (BothInt a b) \<Rightarrow> a = b
      | Some (BothFloat a b) \<Rightarrow> double_eq a b
      | None \<Rightarrow>
          (case (l, r) of
             (BoolValue a, BoolValue b) \<Rightarrow> a = b
           | (StringValue a, StringValue b) \<Rightarrow> a = b
           | (EnumValue e a, EnumValue f b) \<Rightarrow> e = f \<and> a = b
           | _ \<Rightarrow> is_none l \<and> is_none r))"

definition eval_not_equal :: "val \<Rightarrow> val \<Rightarrow> bool" where
  "eval_not_equal l r =
     (case extract_numeric l r of
        Some (BothInt a b) \<Rightarrow> a \<noteq> b
      | Some (BothFloat a b) \<Rightarrow> \<not> double_eq a b
      | None \<Rightarrow>
          (case (l, r) of
             (BoolValue a, BoolValue b) \<Rightarrow> a \<noteq> b
           | (StringValue a, StringValue b) \<Rightarrow> a \<noteq> b
           | (EnumValue e a, EnumValue f b) \<Rightarrow> e \<noteq> f \<or> a \<noteq> b
           | _ \<Rightarrow> \<not> (is_none l \<and> is_none r)))"

definition eval_compare ::
  "string \<Rightarrow> (int \<Rightarrow> int \<Rightarrow> bool) \<Rightarrow> (double \<Rightarrow> double \<Rightarrow> bool) \<Rightarrow> val \<Rightarrow> val \<Rightarrow> eval_result" where
  "eval_compare name fi fd l r =
     (case extract_numeric l r of
        None \<Rightarrow> make_error (quoted name @ '' requires numeric operands'')
      | Some (BothInt a b) \<Rightarrow> ok_result (BoolValue (fi a b))
      | Some (BothFloat a b) \<Rightarrow> ok_result (BoolValue (fd a b)))"

definition eval_arith ::
  "string \<Rightarrow> (int \<Rightarrow> int \<Rightarrow> int) \<Rightarrow> (double \<Rightarrow> double \<Rightarrow> double) \<Rightarrow> val \<Rightarrow> val \<Rightarrow> eval_result option" where
  "eval_arith name fi fd l r =
     (case extract_numeric l r of
        None \<Rightarrow> Some (make_error (quoted name @ '' requires numeric operands''))
      | Some (BothInt a b) \<Rightarrow> map_option (\<lambda>j. ok_result (IntValue j)) (int64_result (fi a b))
      | Some (BothFloat a b) \<Rightarrow> Some (ok_result (FloatValue (fd a b))))"

text \<open>
  Division and remainder check the divisor; \<open>INT64_MIN / -1\<close> and \<open>INT64_MIN % -1\<close> remain
  undefined (the quotient is not representable).
\<close>

definition eval_div_mod ::
  "string \<Rightarrow> string \<Rightarrow> (int \<Rightarrow> int \<Rightarrow> int) \<Rightarrow> (double \<Rightarrow> double \<Rightarrow> double) \<Rightarrow> val \<Rightarrow> val \<Rightarrow>
    eval_result option" where
  "eval_div_mod name zero fi fd l r =
     (case extract_numeric l r of
        None \<Rightarrow> Some (make_error (quoted name @ '' requires numeric operands''))
      | Some (BothInt a b) \<Rightarrow>
          if b = 0 then Some (make_error zero)
          else if in_int64 (trunc_div a b) then Some (ok_result (IntValue (fi a b))) else None
      | Some (BothFloat a b) \<Rightarrow>
          if double_eq b double_zero then Some (make_error zero)
          else Some (ok_result (FloatValue (fd a b))))"

definition eval_binary_op :: "expr_binary_op \<Rightarrow> val \<Rightarrow> val \<Rightarrow> eval_result option" where
  "eval_binary_op op l r =
     (case op of
        OpAnd \<Rightarrow> Some (eval_logical ''and'' (\<and>) l r)
      | OpOr \<Rightarrow> Some (eval_logical ''or'' (\<or>) l r)
      | OpImplies \<Rightarrow> Some (eval_logical ''implies'' (\<longrightarrow>) l r)
      | OpEqual \<Rightarrow> Some (ok_result (BoolValue (eval_equal l r)))
      | OpNotEqual \<Rightarrow> Some (ok_result (BoolValue (eval_not_equal l r)))
      | OpLess \<Rightarrow> Some (eval_compare ''<'' (<) double_less l r)
      | OpLessEqual \<Rightarrow> Some (eval_compare ''<='' (\<le>) double_le l r)
      | OpGreater \<Rightarrow> Some (eval_compare ''>'' (>) (\<lambda>a b. double_less b a) l r)
      | OpGreaterEqual \<Rightarrow> Some (eval_compare ''>='' (\<ge>) (\<lambda>a b. double_le b a) l r)
      | OpAdd \<Rightarrow> eval_arith ''+'' (+) double_add l r
      | OpSubtract \<Rightarrow> eval_arith ''-'' (-) double_sub l r
      | OpMultiply \<Rightarrow> eval_arith ''*'' (*) double_mul l r
      | OpDivide \<Rightarrow> eval_div_mod ''/'' ''division by zero'' trunc_div double_div l r
      | OpModulo \<Rightarrow> eval_div_mod ''%'' ''modulo by zero'' trunc_mod double_fmod l r)"

subsection \<open>Member and index access on values\<close>

definition eval_member_op :: "val \<Rightarrow> string \<Rightarrow> eval_result" where
  "eval_member_op v member =
     (case v of
        StructValue n fs \<Rightarrow>
          (case map_of fs member of
             Some (Some f) \<Rightarrow> ok_result (clone_value f)
           | _ \<Rightarrow> make_error (''struct has no field: '' @ member))
      | ListValue xs \<Rightarrow>
          if member = ''length'' then ok_result (IntValue (to_int64 (int (length xs))))
          else make_error (''list has no member: '' @ member)
      | _ \<Rightarrow> make_error (''cannot access member '' @ quoted member @ '' on this value''))"

definition eval_index_op :: "val \<Rightarrow> val \<Rightarrow> eval_result" where
  "eval_index_op v i =
     (case v of
        ListValue xs \<Rightarrow>
          (case i of
             IntValue idx \<Rightarrow>
               if idx < 0 \<or> int (length xs) \<le> idx
               then make_error (''index out of bounds: '' @ int_to_string idx)
               else (case xs ! nat idx of
                       None \<Rightarrow> make_error ''list item at index is null''
                     | Some x \<Rightarrow> ok_result (clone_value x))
           | _ \<Rightarrow> make_error ''index must be an integer'')
      | _ \<Rightarrow> make_error ''index access requires list base'')"

subsection \<open>The dispatcher\<close>

lemma size_mem_list_option: "x \<in> set xs \<Longrightarrow> e \<in> set_option x \<Longrightarrow> size e < size_list (size_option size) xs"
  by (induction xs) auto

text \<open>
  \<open>eval_struct_literal\<close> and \<open>eval_list_literal\<close> evaluate every entry, collect the diagnostics
  of all of them, and give the struct or the list only when none is an error.
\<close>

function (sequential) eval_expr_impl ::
    "'s call_eval option \<Rightarrow> eval_context \<Rightarrow> expr \<Rightarrow> 's \<Rightarrow> (eval_result \<times> 's) option"
  and eval_fields ::
    "'s call_eval option \<Rightarrow> eval_context \<Rightarrow> (string \<times> expr option) list \<Rightarrow>
      (string \<times> val) list \<Rightarrow> diagnostic_bag \<Rightarrow> 's \<Rightarrow>
      (((string \<times> val) list \<times> diagnostic_bag) \<times> 's) option"
  and eval_items ::
    "'s call_eval option \<Rightarrow> eval_context \<Rightarrow> expr option list \<Rightarrow> val list \<Rightarrow> diagnostic_bag \<Rightarrow> 's \<Rightarrow>
      ((val list \<times> diagnostic_bag) \<times> 's) option" where
  "eval_expr_impl h c NoneLiteralExpr s = Some (ok_result NoneValue, s)"
| "eval_expr_impl h c (BoolLiteralExpr b) s = Some (ok_result (BoolValue b), s)"
| "eval_expr_impl h c (IntegerLiteralExpr t) s = Some (eval_integer_literal t, s)"
| "eval_expr_impl h c (FloatLiteralExpr t) s = Some (eval_float_literal t, s)"
| "eval_expr_impl h c (DecimalLiteralExpr t) s = Some (ok_result (DecimalValue t), s)"
| "eval_expr_impl h c (StringLiteralExpr t) s = Some (ok_result (StringValue t), s)"
| "eval_expr_impl h c (DurationLiteralExpr t) s = Some (ok_result (DurationValue t), s)"
| "eval_expr_impl h c (SomeExpr None) s = Some (make_error ''SomeExpr has null inner expression'', s)"
| "eval_expr_impl h c (SomeExpr (Some e)) s =
     (case eval_expr_impl h c e s of
        None \<Rightarrow> None
      | Some (r, s') \<Rightarrow>
          if has_errors r then Some (r, s')
          else Some (ok_result (make_optional_some (eval_value r)), s'))"
| "eval_expr_impl h c (PathExpr p) s = Some (eval_path_expr p c, s)"
| "eval_expr_impl h c (QualifiedValueExpr t) s = Some (eval_qualified_value_expr t, s)"
| "eval_expr_impl h c (CallExpr callee args) s =
     (case h of
        None \<Rightarrow> Some (make_error ''CallExpr not supported in v0.51'', s)
      | Some call_eval \<Rightarrow> call_eval callee (map (map_option (\<lambda>e s. eval_expr_impl h c e s)) args) s)"
| "eval_expr_impl h c (StructLiteralExpr type_name fs) s =
     (case eval_fields h c fs [] empty_bag s of
        None \<Rightarrow> None
      | Some ((flds, d), s') \<Rightarrow>
          if has_error d then Some (\<lparr>eval_value = NoneValue, eval_diags = d\<rparr>, s')
          else Some (\<lparr>eval_value = make_struct type_name flds, eval_diags = d\<rparr>, s'))"
| "eval_expr_impl h c (ListLiteralExpr es) s =
     (case eval_items h c es [] empty_bag s of
        None \<Rightarrow> None
      | Some ((items, d), s') \<Rightarrow>
          if has_error d then Some (\<lparr>eval_value = NoneValue, eval_diags = d\<rparr>, s')
          else Some (\<lparr>eval_value = make_list items, eval_diags = d\<rparr>, s'))"
| "eval_expr_impl h c (SetLiteralExpr es) s =
     Some (make_error ''SetLiteralExpr not supported in v0.51'', s)"
| "eval_expr_impl h c (MapLiteralExpr es) s =
     Some (make_error ''MapLiteralExpr not supported in v0.51'', s)"
| "eval_expr_impl h c (UnaryExpr op None) s = Some (make_error ''UnaryExpr has null operand'', s)"
| "eval_expr_impl h c (UnaryExpr op (Some e)) s =
     (case eval_expr_impl h c e s of
        None \<Rightarrow> None
      | Some (r, s') \<Rightarrow>
          if has_errors r then Some (r, s')
          else map_option (\<lambda>r'. (r', s')) (eval_unary_op op r))"
| "eval_expr_impl h c (BinaryExpr op (Some l) (Some r)) s =
     (case eval_expr_impl h c l s of
        None \<Rightarrow> None
      | Some (lr, s1) \<Rightarrow>
          if has_errors lr then Some (lr, s1)
          else
            (case eval_expr_impl h c r s1 of
               None \<Rightarrow> None
             | Some (rr, s2) \<Rightarrow>
                 if has_errors rr then Some (rr, s2)
                 else map_option (\<lambda>r'. (r', s2))
                        (eval_binary_op op (eval_value lr) (eval_value rr))))"
| "eval_expr_impl h c (BinaryExpr op l r) s = Some (make_error ''BinaryExpr has null operand'', s)"
| "eval_expr_impl h c (MemberAccessExpr None m) s =
     Some (make_error ''MemberAccessExpr has null base'', s)"
| "eval_expr_impl h c (MemberAccessExpr (Some e) m) s =
     (case eval_expr_impl h c e s of
        None \<Rightarrow> None
      | Some (r, s') \<Rightarrow>
          if has_errors r then Some (r, s') else Some (eval_member_op (eval_value r) m, s'))"
| "eval_expr_impl h c (IndexAccessExpr (Some b) (Some i)) s =
     (case eval_expr_impl h c b s of
        None \<Rightarrow> None
      | Some (br, s1) \<Rightarrow>
          if has_errors br then Some (br, s1)
          else
            (case eval_expr_impl h c i s1 of
               None \<Rightarrow> None
             | Some (ir, s2) \<Rightarrow>
                 if has_errors ir then Some (ir, s2)
                 else Some (eval_index_op (eval_value br) (eval_value ir), s2)))"
| "eval_expr_impl h c (IndexAccessExpr b i) s =
     Some (make_error ''IndexAccessExpr has null operand'', s)"
| "eval_fields h c [] acc d s = Some ((acc, d), s)"
| "eval_fields h c ((n, None) # fs) acc d s =
     eval_fields h c fs acc
       (emit_error d (''struct field '' @ quoted n @ '' has null initializer'')) s"
| "eval_fields h c ((n, Some e) # fs) acc d s =
     (case eval_expr_impl h c e s of
        None \<Rightarrow> None
      | Some (r, s') \<Rightarrow>
          eval_fields h c fs (if has_errors r then acc else emplace n (eval_value r) acc)
            (bag_append d (eval_diags r)) s')"
| "eval_items h c [] acc d s = Some ((acc, d), s)"
| "eval_items h c (None # es) acc d s =
     eval_items h c es acc (emit_error d ''list item has null expression'') s"
| "eval_items h c (Some e # es) acc d s =
     (case eval_expr_impl h c e s of
        None \<Rightarrow> None
      | Some (r, s') \<Rightarrow>
          eval_items h c es (if has_errors r then acc else acc @ [eval_value r])
            (bag_append d (eval_diags r)) s')"
  by pat_completeness auto

termination
  by (relation "measure (case_sum (\<lambda>(h, c, e, s). size e)
      (case_sum (\<lambda>(h, c, fs, acc, d, s). size_list (size_prod (\<lambda>_. 0) (size_option size)) fs)
        (\<lambda>(h, c, es, acc, d, s). size_list (size_option size) es)))")
    (auto dest: size_mem_list_option)

definition eval_expr :: "'s call_eval option \<Rightarrow> expr \<Rightarrow> eval_context \<Rightarrow> 's eval_m" where
  "eval_expr h e c = eval_expr_impl h c e"

subsection \<open>Results\<close>

lemma result_simps [simp, bag_simps]:
  "\<not> has_errors (ok_result v)" "eval_value (ok_result v) = v" "eval_diags (ok_result v) = empty_bag"
  "has_errors (make_error m)" "eval_value (make_error m) = NoneValue"
  by (simp_all add: has_errors_def ok_result_def make_error_def)

text \<open>
  The invariant of results: the value satisfies \<open>value_ok\<close>, the bag counts correctly, and a
  result with an error carries the value none.
\<close>

definition result_ok :: "eval_result \<Rightarrow> bool" where
  "result_ok r \<longleftrightarrow> value_ok (eval_value r) \<and> bag_ok (eval_diags r) \<and>
     (has_errors r \<longrightarrow> eval_value r = NoneValue)"

text \<open>An evaluation gives such a result, and keeps an invariant \<open>I\<close> of the world.\<close>

definition eval_m_ok :: "('s \<Rightarrow> bool) \<Rightarrow> 's eval_m \<Rightarrow> bool" where
  "eval_m_ok I m \<longleftrightarrow> (\<forall>s r s'. I s \<longrightarrow> m s = Some (r, s') \<longrightarrow> result_ok r \<and> I s')"

text \<open>A call evaluator keeps the invariants when its arguments do.\<close>

definition call_eval_ok :: "('s \<Rightarrow> bool) \<Rightarrow> 's call_eval option \<Rightarrow> bool" where
  "call_eval_ok I h \<longleftrightarrow>
     (case h of
        None \<Rightarrow> True
      | Some ce \<Rightarrow> \<forall>f args. (\<forall>m. Some m \<in> set args \<longrightarrow> eval_m_ok I m) \<longrightarrow> eval_m_ok I (ce f args))"

lemma result_ok_ok_result [simp]: "result_ok (ok_result v) \<longleftrightarrow> value_ok v"
  by (simp add: result_ok_def)

lemma result_ok_make_error [simp]: "result_ok (make_error m)"
  by (simp add: result_ok_def make_error_def has_errors_def)

lemma eval_integer_literal_ok: "result_ok (eval_integer_literal t)"
  by (auto simp: eval_integer_literal_def dest: stoll_in_range split: scan_result.split)

lemma eval_float_literal_ok: "result_ok (eval_float_literal t)"
  by (auto simp: eval_float_literal_def split: scan_result.split)

lemma walk_members_ok: "value_ok v \<Longrightarrow> result_ok (walk_members v ms)"
proof (induction v ms rule: walk_members.induct)
  case (2 v m ms)
  show ?case
  proof (cases v)
    case (StructValue n fs)
    with "2.prems" have "fields_ok fs" by simp
    then have "map_of fs m = Some (Some f) \<Longrightarrow> value_ok (clone_value f)" for f
      by (rule fields_ok_clone)
    with "2.IH" StructValue show ?thesis by (auto split: option.splits)
  qed simp_all
qed simp

lemma eval_path_expr_ok: "context_ok c \<Longrightarrow> result_ok (eval_path_expr p c)"
  by (auto simp: eval_path_expr_def simp del: walk_members.simps
      intro!: walk_members_ok dest: local_var.fetch_good lookup_path_ok
      split: list.splits option.splits)

lemma eval_qualified_value_expr_ok: "result_ok (eval_qualified_value_expr t)"
  by (auto simp: eval_qualified_value_expr_def split: option.split)

lemma eval_unary_op_ok: "result_ok r \<Longrightarrow> eval_unary_op op r = Some r' \<Longrightarrow> result_ok r'"
  by (auto simp: eval_unary_op_def split: expr_unary_op.splits val.splits)

lemma extract_numeric_ok:
  "value_ok l \<Longrightarrow> value_ok r \<Longrightarrow> extract_numeric l r = Some (BothInt a b) \<Longrightarrow> in_int64 a \<and> in_int64 b"
  by (auto simp: extract_numeric_def split: val.splits)

lemma eval_binary_op_ok:
  assumes "value_ok l" "value_ok r" "eval_binary_op op l r = Some r'"
  shows "result_ok r'"
proof -
  have "eval_div_mod n z trunc_mod fd l r = Some r' \<Longrightarrow> result_ok r'" for n z fd
    using extract_numeric_ok [OF assms(1,2)]
    by (auto simp: eval_div_mod_def trunc_mod_in_int64
        split: option.splits numeric_pair.splits if_splits)
  moreover have "eval_div_mod n z trunc_div fd l r = Some r' \<Longrightarrow> result_ok r'" for n z fd
    by (auto simp: eval_div_mod_def split: option.splits numeric_pair.splits if_splits)
  moreover have "eval_arith n fi fd l r = Some r' \<Longrightarrow> result_ok r'" for n fi fd
    by (auto simp: eval_arith_def split: option.splits numeric_pair.splits)
  moreover have "result_ok (eval_compare n fi fd l r)" for n fi fd
    by (auto simp: eval_compare_def split: option.splits numeric_pair.splits)
  moreover have "result_ok (eval_logical n f l r)" for n f
    by (auto simp: eval_logical_def split: val.splits)
  ultimately show ?thesis
    using assms(3) by (auto simp: eval_binary_op_def split: expr_binary_op.splits)
qed

lemma eval_member_op_ok: "value_ok v \<Longrightarrow> result_ok (eval_member_op v m)"
  by (auto simp: eval_member_op_def intro: fields_ok_clone split: val.split option.splits)

lemma eval_index_op_ok: "value_ok v \<Longrightarrow> result_ok (eval_index_op v i)"
proof (cases v; cases i)
  fix xs idx
  assume "value_ok v" and v: "v = ListValue xs" "i = IntValue idx"
  then have "items_ok xs" by simp
  then show ?thesis
    by (auto simp: v eval_index_op_def intro!: clone_value_value_ok split: option.split
        dest: items_ok_nth [of xs "nat idx"])
qed (auto simp: eval_index_op_def)

lemma has_errors_fold: "has_error (eval_diags r) = has_errors r"
  by (simp add: has_errors_def)

lemma eval_m_okD: "eval_m_ok I m \<Longrightarrow> I s \<Longrightarrow> m s = Some (r, s') \<Longrightarrow> result_ok r \<and> I s'"
  by (auto simp: eval_m_ok_def)

lemma eval_fields_ok:
  "\<forall>e. Some e \<in> snd ` set fs \<longrightarrow> eval_m_ok I (eval_expr_impl h c e) \<Longrightarrow>
    eval_fields h c fs acc d s = Some ((flds, d'), s2) \<Longrightarrow> I s \<Longrightarrow> bag_ok d \<Longrightarrow>
    \<forall>v \<in> snd ` set acc. value_ok v \<Longrightarrow> bag_ok d' \<and> (\<forall>v \<in> snd ` set flds. value_ok v) \<and> I s2"
proof (induction fs arbitrary: acc d s)
  case (Cons f fs)
  obtain n x where f: "f = (n, x)" by fastforce
  show ?case
  proof (cases x)
    case None
    with f Cons.prems show ?thesis
      by (intro Cons.IH [where d = "emit_error d (''struct field '' @ quoted n @ '' has null initializer'')" and s = s]) auto
  next
    case (Some e)
    with f Cons.prems(2) obtain r s' where r: "eval_expr_impl h c e s = Some (r, s')"
      and rest: "eval_fields h c fs (if has_errors r then acc else emplace n (eval_value r) acc)
        (bag_append d (eval_diags r)) s' = Some ((flds, d'), s2)"
      by (auto simp: run_simps)
    have "result_ok r \<and> I s'" using Cons.prems(1,3) f Some r by (auto dest: eval_m_okD)
    then show ?thesis
      using Cons.prems by (intro Cons.IH [OF _ rest]) (auto simp: result_ok_def emplace_def)
  qed
qed auto

lemma eval_items_ok:
  "\<forall>e. Some e \<in> set es \<longrightarrow> eval_m_ok I (eval_expr_impl h c e) \<Longrightarrow>
    eval_items h c es acc d s = Some ((items, d'), s2) \<Longrightarrow> I s \<Longrightarrow> bag_ok d \<Longrightarrow>
    \<forall>v \<in> set acc. value_ok v \<Longrightarrow> bag_ok d' \<and> (\<forall>v \<in> set items. value_ok v) \<and> I s2"
proof (induction es arbitrary: acc d s)
  case (Cons x es)
  show ?case
  proof (cases x)
    case None
    with Cons.prems show ?thesis
      by (intro Cons.IH [where d = "emit_error d ''list item has null expression''" and s = s]) auto
  next
    case (Some e)
    with Cons.prems(2) obtain r s' where r: "eval_expr_impl h c e s = Some (r, s')"
      and rest: "eval_items h c es (if has_errors r then acc else acc @ [eval_value r])
        (bag_append d (eval_diags r)) s' = Some ((items, d'), s2)"
      by (auto simp: run_simps)
    have "result_ok r \<and> I s'" using Cons.prems(1,3) Some r by (auto dest: eval_m_okD)
    then show ?thesis
      using Cons.prems by (intro Cons.IH [OF _ rest]) (auto simp: result_ok_def)
  qed
qed auto

text \<open>The evaluators of the arguments, as a call evaluator receives them.\<close>

abbreviation arg_evals ::
  "'s call_eval option \<Rightarrow> eval_context \<Rightarrow> expr option list \<Rightarrow> 's eval_m option list" where
  "arg_evals h c args \<equiv> map (map_option (\<lambda>e s. eval_expr_impl h c e s)) args"

lemma arg_evalsD: "Some m \<in> set (arg_evals h c args) \<Longrightarrow> \<exists>e. Some e \<in> set args \<and> m = eval_expr_impl h c e"
  by (auto simp: eq_commute [of "Some _"])

lemma eval_m_ok_return: "result_ok r \<Longrightarrow> eval_m_ok I (\<lambda>s. Some (r, s))"
  by (simp add: eval_m_ok_def)

lemma eval_m_ok_lift:
  "(\<And>r. x = Some r \<Longrightarrow> result_ok r) \<Longrightarrow> eval_m_ok I (\<lambda>s. map_option (\<lambda>r. (r, s)) x)"
  by (auto simp: eval_m_ok_def)

lemma eval_m_ok_bind:
  assumes "eval_m_ok I m" "\<And>r. result_ok r \<Longrightarrow> eval_m_ok I (k r)"
  shows "eval_m_ok I (\<lambda>s. case m s of
      None \<Rightarrow> None | Some (r, s') \<Rightarrow> if has_errors r then Some (r, s') else k r s')"
  unfolding eval_m_ok_def
proof (intro allI impI)
  fix s r s'
  assume "I s" and run: "(case m s of
      None \<Rightarrow> None | Some (r, s') \<Rightarrow> if has_errors r then Some (r, s') else k r s') = Some (r, s')"
  then obtain r1 s1 where m: "m s = Some (r1, s1)" by (auto simp: run_simps)
  with assms(1) \<open>I s\<close> have "result_ok r1" "I s1" by (auto dest: eval_m_okD)
  with m run assms(2) show "result_ok r \<and> I s'" by (auto dest: eval_m_okD split: if_splits)
qed

lemma result_ok_value: "result_ok r \<Longrightarrow> value_ok (eval_value r)"
  by (simp add: result_ok_def)

lemma eval_struct_ok:
  assumes "\<forall>e. Some e \<in> snd ` set fs \<longrightarrow> eval_m_ok I (eval_expr_impl h c e)"
  shows "eval_m_ok I (eval_expr_impl h c (StructLiteralExpr n fs))"
  unfolding eval_m_ok_def
proof (intro allI impI)
  fix s r s' assume "I s" "eval_expr_impl h c (StructLiteralExpr n fs) s = Some (r, s')"
  then obtain flds d where run: "eval_fields h c fs [] empty_bag s = Some ((flds, d), s')"
    and r: "r = (if has_error d then \<lparr>eval_value = NoneValue, eval_diags = d\<rparr>
            else \<lparr>eval_value = make_struct n flds, eval_diags = d\<rparr>)"
    by (auto simp: run_simps)
  from eval_fields_ok [OF assms run \<open>I s\<close>] show "result_ok r \<and> I s'"
    by (force simp: r result_ok_def has_errors_def intro!: make_struct_ok)
qed

lemma eval_list_ok:
  assumes "\<forall>e. Some e \<in> set es \<longrightarrow> eval_m_ok I (eval_expr_impl h c e)"
  shows "eval_m_ok I (eval_expr_impl h c (ListLiteralExpr es))"
  unfolding eval_m_ok_def
proof (intro allI impI)
  fix s r s' assume "I s" "eval_expr_impl h c (ListLiteralExpr es) s = Some (r, s')"
  then obtain items d where run: "eval_items h c es [] empty_bag s = Some ((items, d), s')"
    and r: "r = (if has_error d then \<lparr>eval_value = NoneValue, eval_diags = d\<rparr>
            else \<lparr>eval_value = make_list items, eval_diags = d\<rparr>)"
    by (auto simp: run_simps)
  from eval_items_ok [OF assms run \<open>I s\<close>] show "result_ok r \<and> I s'"
    by (force simp: r result_ok_def has_errors_def make_list_ok)
qed

lemma eval_expr_impl_ok:
  assumes h: "call_eval_ok I h" and c: "context_ok c"
  shows "eval_m_ok I (eval_expr_impl h c e)"
proof (induction e rule: expr_sub_induct)
  case (expr e)
  show ?case
  proof (cases e rule: expr_shape)
    case (SomeOf x)
    with expr show ?thesis
      by (auto simp: make_optional_some_def intro!: eval_m_ok_bind eval_m_ok_return result_ok_value)
  next
    case (Call f args)
    have "eval_m_ok I m" if "Some m \<in> set (arg_evals h c args)" for m
      using arg_evalsD [OF that] expr Call by auto
    then have "eval_m_ok I (ce f (arg_evals h c args))" if "h = Some ce" for ce
      using h that unfolding call_eval_ok_def by auto
    then show ?thesis by (cases h) (auto simp: Call eval_m_ok_def)
  next
    case (Struct n fs)
    then show ?thesis using expr.IH by (auto intro!: eval_struct_ok simp del: eval_expr_impl.simps)
  next
    case (ListLit es)
    then show ?thesis using expr.IH by (auto intro!: eval_list_ok simp del: eval_expr_impl.simps)
  next
    case (Unary op x)
    with expr show ?thesis
      by (auto intro!: eval_m_ok_bind eval_m_ok_lift dest: eval_unary_op_ok)
  next
    case (Binary op l r)
    with expr show ?thesis
      by (auto intro!: eval_m_ok_bind eval_m_ok_lift dest: eval_binary_op_ok [OF result_ok_value result_ok_value])
  next
    case (Member x m)
    with expr show ?thesis
      by (auto intro!: eval_m_ok_bind eval_m_ok_return eval_member_op_ok result_ok_value)
  next
    case (Index b i)
    with expr show ?thesis
      by (auto intro!: eval_m_ok_bind eval_m_ok_return eval_index_op_ok result_ok_value)
  qed (use c in \<open>auto intro!: eval_m_ok_return simp: eval_integer_literal_ok eval_float_literal_ok
        eval_path_expr_ok eval_qualified_value_expr_ok\<close>)
qed

subsection \<open>Undefined behaviour\<close>

text \<open>
  The only undefined behaviour of the evaluator is signed overflow in an arithmetic operator:
  an expression without one is always defined, whatever the values are.
\<close>

definition arithmetic_unary :: "expr_unary_op \<Rightarrow> bool" where
  "arithmetic_unary op \<longleftrightarrow> op = OpNegate"

definition arithmetic_binary :: "expr_binary_op \<Rightarrow> bool" where
  "arithmetic_binary op \<longleftrightarrow> op \<in> {OpAdd, OpSubtract, OpMultiply, OpDivide, OpModulo}"

fun arithmetic_free :: "expr \<Rightarrow> bool" where
  "arithmetic_free (SomeExpr e) = pred_option arithmetic_free e"
| "arithmetic_free (CallExpr f args) = list_all (pred_option arithmetic_free) args"
| "arithmetic_free (StructLiteralExpr n fs) = list_all (\<lambda>f. pred_option arithmetic_free (snd f)) fs"
| "arithmetic_free (ListLiteralExpr es) = list_all (pred_option arithmetic_free) es"
| "arithmetic_free (UnaryExpr op e) = (\<not> arithmetic_unary op \<and> pred_option arithmetic_free e)"
| "arithmetic_free (BinaryExpr op l r) =
     (\<not> arithmetic_binary op \<and> pred_option arithmetic_free l \<and> pred_option arithmetic_free r)"
| "arithmetic_free (MemberAccessExpr e m) = pred_option arithmetic_free e"
| "arithmetic_free (IndexAccessExpr b i) = (pred_option arithmetic_free b \<and> pred_option arithmetic_free i)"
| "arithmetic_free e = True"

definition eval_m_defined :: "'s eval_m \<Rightarrow> bool" where
  "eval_m_defined m \<longleftrightarrow> (\<forall>s. m s \<noteq> None)"

definition call_eval_defined :: "'s call_eval option \<Rightarrow> bool" where
  "call_eval_defined h \<longleftrightarrow>
     (case h of
        None \<Rightarrow> True
      | Some ce \<Rightarrow>
          \<forall>f args. (\<forall>m. Some m \<in> set args \<longrightarrow> eval_m_defined m) \<longrightarrow> eval_m_defined (ce f args))"

lemma eval_unary_op_defined: "\<not> arithmetic_unary op \<Longrightarrow> eval_unary_op op r \<noteq> None"
  by (cases op) (auto simp: eval_unary_op_def arithmetic_unary_def split: val.split)

lemma eval_binary_op_defined: "\<not> arithmetic_binary op \<Longrightarrow> eval_binary_op op l r \<noteq> None"
  by (cases op) (auto simp: eval_binary_op_def arithmetic_binary_def)

lemma eval_fields_defined:
  "\<forall>e. Some e \<in> snd ` set fs \<longrightarrow> eval_m_defined (eval_expr_impl h c e) \<Longrightarrow> eval_fields h c fs acc d s \<noteq> None"
proof (induction fs arbitrary: acc d s)
  case (Cons f fs)
  then show ?case by (cases f; cases "snd f") (auto simp: run_simps eval_m_defined_def)
qed simp

lemma eval_items_defined:
  "\<forall>e. Some e \<in> set es \<longrightarrow> eval_m_defined (eval_expr_impl h c e) \<Longrightarrow> eval_items h c es acc d s \<noteq> None"
proof (induction es arbitrary: acc d s)
  case (Cons x es)
  then show ?case by (cases x) (auto simp: run_simps eval_m_defined_def)
qed simp

lemma eval_expr_impl_defined:
  assumes "call_eval_defined h"
  shows "arithmetic_free e \<Longrightarrow> eval_m_defined (eval_expr_impl h c e)"
proof (induction e rule: expr_sub_induct)
  case (expr e)
  show ?case
  proof (cases e rule: expr_shape)
    case (Call f args)
    have "eval_m_defined m" if "Some m \<in> set (arg_evals h c args)" for m
      using arg_evalsD [OF that] expr Call by (fastforce simp: list_all_iff)
    then have "eval_m_defined (ce f (arg_evals h c args))" if "h = Some ce" for ce
      using assms that unfolding call_eval_defined_def by auto
    then show ?thesis by (cases h) (auto simp: Call eval_m_defined_def)
  next
    case (Struct n fs)
    with expr have "\<forall>x. Some x \<in> snd ` set fs \<longrightarrow> eval_m_defined (eval_expr_impl h c x)"
      by (auto simp: list_all_iff image_iff) (metis option.pred_inject(2) snd_conv)
    from eval_fields_defined [OF this] Struct show ?thesis
      by (simp add: eval_m_defined_def run_simps)
  next
    case (ListLit es)
    with expr have "\<forall>x. Some x \<in> set es \<longrightarrow> eval_m_defined (eval_expr_impl h c x)"
      by (fastforce simp: list_all_iff)
    from eval_items_defined [OF this] ListLit show ?thesis
      by (simp add: eval_m_defined_def run_simps)
  next
    case (Unary op x)
    with expr show ?thesis by (auto simp: eval_m_defined_def run_simps dest: eval_unary_op_defined)
  next
    case (Binary op l r)
    with expr show ?thesis by (auto simp: eval_m_defined_def run_simps dest: eval_binary_op_defined)
  qed (use expr in \<open>auto simp: eval_m_defined_def run_simps\<close>)
qed

subsection \<open>Overflow is the only undefined behaviour\<close>

text \<open>
  The exact result that an integer operator has to represent; none for the other operators and
  for a division by zero, which is an error. Of \<open>%\<close> it is the quotient (its operands overflow as
  those of \<open>/\<close> do).
\<close>

definition exact_result :: "expr_binary_op \<Rightarrow> int \<Rightarrow> int \<Rightarrow> int option" where
  "exact_result op a b =
     (case op of
        OpAdd \<Rightarrow> Some (a + b)
      | OpSubtract \<Rightarrow> Some (a - b)
      | OpMultiply \<Rightarrow> Some (a * b)
      | OpDivide \<Rightarrow> if b = 0 then None else Some (trunc_div a b)
      | OpModulo \<Rightarrow> if b = 0 then None else Some (trunc_div a b)
      | _ \<Rightarrow> None)"

text \<open>The expression is an operator whose operands evaluate, from the state \<open>s\<close> on, to integers with a result that does not fit.\<close>

fun overflow_at :: "'s call_eval option \<Rightarrow> eval_context \<Rightarrow> expr \<Rightarrow> 's \<Rightarrow> bool" where
  "overflow_at h c (UnaryExpr op (Some x)) s \<longleftrightarrow>
     op = OpNegate \<and>
     (\<exists>r s' i. eval_expr h x c s = Some (r, s') \<and> \<not> has_errors r \<and> eval_value r = IntValue i \<and> \<not> in_int64 (- i))"
| "overflow_at h c (BinaryExpr op (Some x) (Some y)) s \<longleftrightarrow>
     (\<exists>r s1 a q s2 b v. eval_expr h x c s = Some (r, s1) \<and> \<not> has_errors r \<and> eval_value r = IntValue a \<and>
        eval_expr h y c s1 = Some (q, s2) \<and> \<not> has_errors q \<and> eval_value q = IntValue b \<and>
        exact_result op a b = Some v \<and> \<not> in_int64 v)"
| "overflow_at h c e s \<longleftrightarrow> False"

definition expr_parts :: "expr \<Rightarrow> expr set" where
  "expr_parts e = {x. (x, e) \<in> {(x, e). x \<in> set (subexprs e)}\<^sup>*}"

lemma expr_parts_sub: "x \<in> set (subexprs e) \<Longrightarrow> expr_parts x \<subseteq> expr_parts e"
  by (auto simp: expr_parts_def intro: rtrancl_into_rtrancl)

lemma expr_parts_self: "e \<in> expr_parts e"
  by (simp add: expr_parts_def)

lemma eval_unary_op_undefined:
  "eval_unary_op op r = None \<longleftrightarrow> op = OpNegate \<and> (\<exists>i. eval_value r = IntValue i \<and> \<not> in_int64 (- i))"
  by (auto simp: eval_unary_op_def int64_result_def split: expr_unary_op.split val.split)

lemma eval_binary_op_undefined:
  "eval_binary_op op l r = None \<longleftrightarrow>
     (\<exists>a b v. l = IntValue a \<and> r = IntValue b \<and> exact_result op a b = Some v \<and> \<not> in_int64 v)"
  by (cases op; cases l; cases r)
     (auto simp: eval_binary_op_def eval_arith_def eval_div_mod_def extract_numeric_def exact_result_def int64_result_def)

lemma overflow_at_undefined: "overflow_at h c e s \<Longrightarrow> eval_expr h e c s = None"
proof (cases e rule: expr_shape)
  case (Unary op x)
  assume "overflow_at h c e s"
  with Unary have "\<exists>r s'. eval_expr_impl h c x s = Some (r, s') \<and> \<not> has_errors r \<and> eval_unary_op op r = None"
    by (auto simp: eval_expr_def eval_unary_op_undefined)
  with Unary show ?thesis by (auto simp: eval_expr_def)
next
  case (Binary op x y)
  assume "overflow_at h c e s"
  with Binary have "\<exists>r s1 q s2. eval_expr_impl h c x s = Some (r, s1) \<and> \<not> has_errors r \<and>
      eval_expr_impl h c y s1 = Some (q, s2) \<and> \<not> has_errors q \<and> eval_binary_op op (eval_value r) (eval_value q) = None"
    by (simp add: eval_expr_def eval_binary_op_undefined) metis
  with Binary show ?thesis by (auto simp: eval_expr_def)
next
  case (BinaryNull op x y)
  assume "overflow_at h c e s"
  with BinaryNull show ?thesis by (cases x; cases y) simp_all
qed simp_all

lemma no_overflow_defined:
  assumes "call_eval_defined h"
  shows "(\<And>x s. x \<in> expr_parts e \<Longrightarrow> \<not> overflow_at h c x s) \<Longrightarrow> eval_m_defined (eval_expr_impl h c e)"
proof (induction e rule: expr_sub_induct)
  case (expr e)
  have sub: "eval_m_defined (eval_expr_impl h c x)" if "x \<in> set (subexprs e)" for x
    by (rule expr.IH [OF that]) (use expr.prems expr_parts_sub [OF that] in blast)
  have here: "\<not> overflow_at h c e s" for s by (rule expr.prems [OF expr_parts_self])
  show ?case
  proof (cases e rule: expr_shape)
    case (Call f args)
    have "eval_m_defined m" if "Some m \<in> set (arg_evals h c args)" for m
      using arg_evalsD [OF that] sub Call by fastforce
    then have "eval_m_defined (ce f (arg_evals h c args))" if "h = Some ce" for ce
      using assms that unfolding call_eval_defined_def by auto
    then show ?thesis by (cases h) (auto simp: Call eval_m_defined_def)
  next
    case (Struct n fs)
    with sub have "\<forall>x. Some x \<in> snd ` set fs \<longrightarrow> eval_m_defined (eval_expr_impl h c x)" by simp
    from eval_fields_defined [OF this] Struct show ?thesis
      by (simp add: eval_m_defined_def run_simps)
  next
    case (ListLit es)
    with sub have "\<forall>x. Some x \<in> set es \<longrightarrow> eval_m_defined (eval_expr_impl h c x)" by simp
    from eval_items_defined [OF this] ListLit show ?thesis
      by (simp add: eval_m_defined_def run_simps)
  next
    case (Unary op x)
    with sub have x: "eval_expr_impl h c x s \<noteq> None" for s by (simp add: eval_m_defined_def)
    have "eval_expr_impl h c e s \<noteq> None" for s
    proof
      assume "eval_expr_impl h c e s = None"
      with x [of s] Unary obtain r s' where
        "eval_expr_impl h c x s = Some (r, s')" "\<not> has_errors r" "eval_unary_op op r = None"
        by (auto split: option.splits prod.splits if_splits)
      with here [of s] Unary show False by (auto simp: eval_unary_op_undefined eval_expr_def)
    qed
    then show ?thesis by (simp add: eval_m_defined_def)
  next
    case (Binary op x y)
    with sub have xy: "eval_expr_impl h c x s \<noteq> None" "eval_expr_impl h c y s \<noteq> None" for s
      by (simp_all add: eval_m_defined_def)
    have "eval_expr_impl h c e s \<noteq> None" for s
    proof
      assume none: "eval_expr_impl h c e s = None"
      obtain r s1 where r: "eval_expr_impl h c x s = Some (r, s1)" using xy(1) [of s] by auto
      obtain q s2 where q: "eval_expr_impl h c y s1 = Some (q, s2)" using xy(2) [of s1] by auto
      have "\<not> has_errors r" "\<not> has_errors q" "eval_binary_op op (eval_value r) (eval_value q) = None"
        using none r q Binary by (auto split: if_splits)
      with here [of s] r q Binary show False
        by (simp add: eval_binary_op_undefined eval_expr_def) metis
    qed
    then show ?thesis by (simp add: eval_m_defined_def)
  qed (use sub in \<open>auto simp: eval_m_defined_def run_simps\<close>)
qed

text \<open>Evaluation is undefined at an overflow, and only because a part of the expression overflows.\<close>

lemma undefined_iff_overflow:
  assumes "call_eval_defined h"
  shows "(overflow_at h c e s \<longrightarrow> eval_expr h e c s = None) \<and>
    (eval_expr h e c s = None \<longrightarrow> (\<exists>x \<in> expr_parts e. \<exists>s'. overflow_at h c x s'))"
proof (intro conjI impI overflow_at_undefined)
  assume "eval_expr h e c s = None"
  then have "\<not> eval_m_defined (eval_expr_impl h c e)" unfolding eval_m_defined_def eval_expr_def by blast
  with no_overflow_defined [OF assms] show "\<exists>x \<in> expr_parts e. \<exists>s'. overflow_at h c x s'" by blast
qed

subsection \<open>Evaluation without capabilities is pure\<close>

definition eval_m_pure :: "'s eval_m \<Rightarrow> bool" where
  "eval_m_pure m \<longleftrightarrow> (\<forall>s r s'. m s = Some (r, s') \<longrightarrow> s' = s)"

lemma eval_fields_pure:
  "\<forall>e. Some e \<in> snd ` set fs \<longrightarrow> eval_m_pure (eval_expr_impl h c e) \<Longrightarrow>
    eval_fields h c fs acc d s = Some (x, s') \<Longrightarrow> s' = s"
proof (induction fs arbitrary: acc d s)
  case (Cons f fs)
  then show ?case by (cases f; cases "snd f") (fastforce simp: run_simps eval_m_pure_def)+
qed simp

lemma eval_items_pure:
  "\<forall>e. Some e \<in> set es \<longrightarrow> eval_m_pure (eval_expr_impl h c e) \<Longrightarrow>
    eval_items h c es acc d s = Some (x, s') \<Longrightarrow> s' = s"
proof (induction es arbitrary: acc d s)
  case (Cons y es)
  then show ?case by (cases y) (fastforce simp: run_simps eval_m_pure_def)+
qed simp

lemma eval_expr_impl_pure:
  assumes h: "h = None"
  shows "eval_m_pure (eval_expr_impl h c e)"
proof (induction e rule: expr_sub_induct)
  case (expr e)
  show ?case
  proof (cases e rule: expr_shape)
    case (Struct n fs)
    have "\<forall>x. Some x \<in> snd ` set fs \<longrightarrow> eval_m_pure (eval_expr_impl h c x)"
      using expr.IH Struct by (intro allI impI) simp
    from eval_fields_pure [OF this] Struct show ?thesis
      by (auto simp: eval_m_pure_def run_simps)
  next
    case (ListLit es)
    have "\<forall>x. Some x \<in> set es \<longrightarrow> eval_m_pure (eval_expr_impl h c x)"
      using expr.IH ListLit by (intro allI impI) simp
    from eval_items_pure [OF this] ListLit show ?thesis
      by (auto simp: eval_m_pure_def run_simps)
  next
    case (Binary op l r)
    with expr show ?thesis by (auto simp: eval_m_pure_def run_simps) metis+
  next
    case (Index b i)
    with expr show ?thesis by (auto simp: eval_m_pure_def run_simps) metis+
  qed (use expr in \<open>auto simp: h eval_m_pure_def run_simps\<close>)
qed

lemma eval_pureD: "eval_expr_impl None c e s = Some (r, s') \<Longrightarrow> s' = s"
  by (drule eval_expr_impl_pure [OF refl, unfolded eval_m_pure_def, rule_format])

subsection \<open>Operators\<close>

lemma eval_not_equal_iff: "eval_not_equal l r \<longleftrightarrow> \<not> eval_equal l r"
  by (auto simp: eval_not_equal_def eval_equal_def split: option.split numeric_pair.split val.split)

lemma eval_div_mod_identity:
  assumes "eval_binary_op OpDivide (IntValue a) (IntValue b) = Some q" "\<not> has_errors q"
    and "eval_binary_op OpModulo (IntValue a) (IntValue b) = Some m"
  shows "\<exists>x y. eval_value q = IntValue x \<and> eval_value m = IntValue y \<and> a = x * b + y \<and> \<bar>y\<bar> < \<bar>b\<bar>"
  using assms trunc_div_mod_eq [of a b] trunc_mod_bound [of b a]
  by (auto simp: eval_binary_op_def eval_div_mod_def extract_numeric_def split: if_splits)

lemma eval_index_success:
  "\<not> has_errors (eval_index_op v i) \<longleftrightarrow>
    (\<exists>xs n x. v = ListValue xs \<and> i = IntValue (int n) \<and> n < length xs \<and> xs ! n = Some x)"
proof (cases v; cases i)
  fix xs k assume v: "v = ListValue xs" "i = IntValue k"
  show ?thesis
  proof (cases "k < 0 \<or> int (length xs) \<le> k")
    case False
    then obtain n where "k = int n" "n < length xs" by (metis int_nat_eq not_le nat_less_iff)
    then show ?thesis by (auto simp: v eval_index_op_def split: option.split)
  qed (auto simp: v eval_index_op_def)
qed (auto simp: eval_index_op_def)

subsection \<open>Literals and access\<close>

lemma eval_integer_literal_int_to_string:
  "in_int64 i \<Longrightarrow> eval_integer_literal (int_to_string i) = ok_result (IntValue i)"
  by (simp add: eval_integer_literal_def stoll_int_to_string)

lemma eval_qualified_value_expr_join:
  assumes "CHR '':'' \<notin> set variant"
  shows "eval_qualified_value_expr (enum @ ''::'' @ variant) = ok_result (EnumValue enum variant)"
proof -
  let ?s = "enum @ ''::'' @ variant"
  have "rfind ''::'' variant = None" if "CHR '':'' \<notin> set variant" for variant
    using that by (induction variant) auto
  with assms have tail: "rfind ''::'' (CHR '':'' # variant) = None" by (cases variant) auto
  have "rfind ''::'' ?s = Some (length enum)"
    by (induction enum) (use tail in auto)
  then show ?thesis by (simp add: eval_qualified_value_expr_def)
qed

text \<open>An error in the accumulated bag stays; without one every entry evaluated to its value.\<close>

lemma eval_items_error_mono:
  "eval_items h c es acc d s = Some ((items, d'), s') \<Longrightarrow> has_error d \<Longrightarrow> has_error d'"
proof (induction es arbitrary: acc d s)
  case (Cons x es)
  then show ?case by (cases x) (auto simp: run_simps)
qed simp

lemma eval_fields_error_mono:
  "eval_fields h c fs acc d s = Some ((flds, d'), s') \<Longrightarrow> has_error d \<Longrightarrow> has_error d'"
proof (induction fs arbitrary: acc d s)
  case (Cons f fs)
  then show ?case by (cases f; cases "snd f") (auto simp: run_simps)
qed simp

text \<open>\<open>evaluates c e s v\<close>: without capabilities, \<open>e\<close> evaluates to \<open>v\<close> with no error.\<close>

definition evaluates :: "eval_context \<Rightarrow> 's \<Rightarrow> expr option \<Rightarrow> val \<Rightarrow> bool" where
  "evaluates c s e v \<longleftrightarrow>
     (case e of
        None \<Rightarrow> False
      | Some x \<Rightarrow> (case eval_expr_impl None c x s of
                    None \<Rightarrow> False
                  | Some (r, s') \<Rightarrow> \<not> has_errors r \<and> eval_value r = v))"

lemma eval_items_values:
  assumes "eval_items None c es acc d s = Some ((items, d'), s')" "\<not> has_error d'"
  shows "\<exists>vs. items = acc @ vs \<and> list_all2 (evaluates c s) es vs"
  using assms
proof (induction es arbitrary: acc d)
  case (Cons x es)
  show ?case
  proof (cases x)
    case None
    with Cons.prems eval_items_error_mono show ?thesis by fastforce
  next
    case (Some e)
    with Cons.prems(1) obtain r s1 where r: "eval_expr_impl None c e s = Some (r, s1)"
      and rest: "eval_items None c es (if has_errors r then acc else acc @ [eval_value r])
        (bag_append d (eval_diags r)) s1 = Some ((items, d'), s')"
      by (auto simp: run_simps)
    have s1: "s1 = s" by (rule eval_pureD [OF r])
    have "\<not> has_errors r"
      using eval_items_error_mono [OF rest] Cons.prems(2) by (auto simp: has_errors_def)
    with Cons.IH rest Cons.prems(2) s1 obtain vs
      where "items = (acc @ [eval_value r]) @ vs" "list_all2 (evaluates c s) es vs" by fastforce
    with r Some \<open>\<not> has_errors r\<close> show ?thesis
      by (intro exI [of _ "eval_value r # vs"]) (simp, simp add: evaluates_def)
  qed
qed simp

lemma eval_fields_values:
  assumes "eval_fields None c fs acc d s = Some ((flds, d'), s')" "\<not> has_error d'"
    and "distinct (keys_of acc @ keys_of fs)"
  shows "\<exists>vs. flds = acc @ vs \<and> list_all2 (\<lambda>(n, e) (m, v). n = m \<and> evaluates c s e v) fs vs"
  using assms
proof (induction fs arbitrary: acc d)
  case (Cons f fs)
  obtain n x where f: "f = (n, x)" by fastforce
  show ?case
  proof (cases x)
    case None
    with f Cons.prems eval_fields_error_mono show ?thesis by fastforce
  next
    case (Some e)
    with f Cons.prems(1) obtain r s1 where r: "eval_expr_impl None c e s = Some (r, s1)"
      and rest: "eval_fields None c fs (if has_errors r then acc else emplace n (eval_value r) acc)
        (bag_append d (eval_diags r)) s1 = Some ((flds, d'), s')"
      by (auto simp: run_simps)
    have s1: "s1 = s" by (rule eval_pureD [OF r])
    have r_ok: "\<not> has_errors r"
      using eval_fields_error_mono [OF rest] Cons.prems(2) by (auto simp: has_errors_def)
    have "emplace n (eval_value r) acc = acc @ [(n, eval_value r)]"
      using Cons.prems(3) f by (auto simp: emplace_def)
    with rest r_ok s1 have "eval_fields None c fs (acc @ [(n, eval_value r)])
        (bag_append d (eval_diags r)) s = Some ((flds, d'), s')" by simp
    from Cons.IH [OF this Cons.prems(2)] Cons.prems(3) f obtain vs
      where "flds = (acc @ [(n, eval_value r)]) @ vs"
        "list_all2 (\<lambda>(n, e) (m, v). n = m \<and> evaluates c s e v) fs vs" by auto
    with r f Some r_ok show ?thesis
      by (intro exI [of _ "(n, eval_value r) # vs"]) (simp, simp add: evaluates_def)
  qed
qed simp

lemma list_literal_value:
  assumes "eval_expr None (ListLiteralExpr es) c s = Some (r, s')" "\<not> has_errors r"
  shows "\<exists>vs. eval_value r = ListValue (map Some vs) \<and> list_all2 (evaluates c s) es vs"
  using assms eval_items_values [of c es "[]" empty_bag s]
  by (auto simp: eval_expr_def run_simps has_errors_def make_list_def)

lemma struct_literal_value:
  assumes "eval_expr None (StructLiteralExpr n fs) c s = Some (r, s')" "\<not> has_errors r"
    and "distinct (keys_of fs)"
  shows "\<exists>vs. eval_value r = StructValue n (map (\<lambda>(k, v). (k, Some v)) vs) \<and>
    list_all2 (\<lambda>(k, e) (k', v). k = k' \<and> evaluates c s e v) fs vs"
proof -
  from assms(1) obtain flds d where
    "eval_fields None c fs [] empty_bag s = Some ((flds, d), s')"
    and r: "r = (if has_error d then \<lparr>eval_value = NoneValue, eval_diags = d\<rparr>
            else \<lparr>eval_value = make_struct n flds, eval_diags = d\<rparr>)"
    by (auto simp: eval_expr_def run_simps)
  moreover from r assms(2) have "\<not> has_error d" by (auto simp: has_errors_def)
  ultimately obtain vs where vs: "flds = vs"
    "list_all2 (\<lambda>(k, e) (k', v). k = k' \<and> evaluates c s e v) fs vs"
    using eval_fields_values [of c fs "[]" empty_bag s] assms(3) by auto
  have "keys_of fs = keys_of vs"
    using vs(2) by (induction rule: list_all2_induct) (auto simp: keys_of_def)
  with assms(3) vs(1) r \<open>\<not> has_error d\<close> have "eval_value r = StructValue n (map (\<lambda>(k, v). (k, Some v)) vs)"
    by (simp add: make_struct_lookup)
  with vs(2) show ?thesis by blast
qed

end
