(* ===== verification/Capability.thy ===== *)
theory Capability
  imports Evaluator
begin

section \<open>The capability bridge\<close>

text \<open>
  \<open>src/runtime/engine/capability_bridge.{hpp,cpp}\<close> and \<open>capability_eval.cpp\<close>: the circuit
  breaker, the registry of capability bindings with the retry loop around a handler, and the
  evaluation of expressions whose calls go to capabilities. Handlers and the steady clock are
  outside the program: a handler is a function on an external world \<open>'w\<close>, and \<open>env\<close> gives the
  clock (nanoseconds; reading it may change the world) and the sleep. The registry owns its
  breakers: \<open>wire_capability.cpp\<close> makes one per binding.
\<close>

record 'w env =
  now :: "'w \<Rightarrow> int \<times> 'w"
  sleep_for :: "int \<Rightarrow> 'w \<Rightarrow> 'w"

datatype call_status = CSuccess | CError | CTimeout | CRetryExhausted | CCircuitOpen

record call_result =
  cr_status :: call_status
  cr_value :: "val option"
  cr_message :: string
  cr_attempts :: nat

definition default_call_result :: call_result where
  "default_call_result =
     \<lparr>cr_status = CError, cr_value = None, cr_message = [], cr_attempts = 1\<rparr>"

record retry_config =
  max_retries :: nat
  initial_delay :: int
  backoff_multiplier :: double

record circuit_breaker_config =
  failure_threshold :: nat
  recovery_window :: int
  cb_enabled :: bool

definition default_retry :: retry_config where
  "default_retry =
     \<lparr>max_retries = 0, initial_delay = 100, backoff_multiplier = double_of_int 2\<rparr>"

definition default_circuit_breaker :: circuit_breaker_config where
  "default_circuit_breaker = \<lparr>failure_threshold = 5, recovery_window = 30, cb_enabled = False\<rparr>"

subsection \<open>The circuit breaker\<close>

datatype breaker_state = Closed | Open | HalfOpen

record circuit_breaker =
  cb_config :: circuit_breaker_config
  cb_state :: breaker_state
  failure_count :: nat
  opened_at :: int

definition new_breaker :: "circuit_breaker_config \<Rightarrow> circuit_breaker" where
  "new_breaker cfg = \<lparr>cb_config = cfg, cb_state = Closed, failure_count = 0, opened_at = 0\<rparr>"

text \<open>
  \<open>now - opened_at_ \<ge> recovery_window\<close> compares nanoseconds with seconds; the seconds are
  converted first, which overflows for a window beyond 292 years.
\<close>

definition current_state ::
  "'w env \<Rightarrow> circuit_breaker \<Rightarrow> 'w \<Rightarrow> ((breaker_state \<times> circuit_breaker) \<times> 'w) option" where
  "current_state env cb w =
     (if cb_state cb = Closed then Some ((Closed, cb), w)
      else
        (case now env w of
           (t, w') \<Rightarrow>
             (case int64_result (recovery_window (cb_config cb) * 1000000000) of
                None \<Rightarrow> None
              | Some window \<Rightarrow>
                  if t - opened_at cb \<ge> window
                  then Some ((HalfOpen, cb\<lparr>cb_state := HalfOpen\<rparr>), w')
                  else Some ((Open, cb), w'))))"

definition record_success :: "circuit_breaker \<Rightarrow> circuit_breaker" where
  "record_success cb = cb\<lparr>failure_count := 0, cb_state := Closed\<rparr>"

definition record_failure :: "'w env \<Rightarrow> circuit_breaker \<Rightarrow> 'w \<Rightarrow> circuit_breaker \<times> 'w" where
  "record_failure env cb w =
     (let cb' = cb\<lparr>failure_count := (failure_count cb + 1) mod 2 ^ 64\<rparr>
      in if failure_count cb' \<ge> failure_threshold (cb_config cb')
         then (case now env w of (t, w') \<Rightarrow> (cb'\<lparr>cb_state := Open, opened_at := t\<rparr>, w'))
         else (cb', w))"

subsection \<open>Bindings and the registry\<close>

type_synonym 'w handler = "val list \<Rightarrow> 'w \<Rightarrow> call_result \<times> 'w"

record 'w binding =
  binding_name :: string
  handler :: "'w handler"
  retry :: retry_config
  circuit_breaker :: circuit_breaker_config
  circuit_state :: "circuit_breaker option"

type_synonym 'w registry = "(string \<times> 'w binding) list"

definition plain_binding :: "string \<Rightarrow> 'w handler \<Rightarrow> 'w binding" where
  "plain_binding name h =
     \<lparr>binding_name = name, handler = h, retry = default_retry,
      circuit_breaker = default_circuit_breaker, circuit_state = None\<rparr>"

definition register_capability :: "'w binding \<Rightarrow> 'w registry \<Rightarrow> 'w registry" where
  "register_capability b reg = emplace (binding_name b) b reg"

definition success_result :: "val \<Rightarrow> call_result" where
  "success_result v =
     \<lparr>cr_status = CSuccess, cr_value = Some v, cr_message = [], cr_attempts = 1\<rparr>"

definition register_function ::
  "string \<Rightarrow> (val list \<Rightarrow> 'w \<Rightarrow> val \<times> 'w) \<Rightarrow> 'w registry \<Rightarrow> 'w registry" where
  "register_function name fn reg =
     emplace name
       (plain_binding name (\<lambda>args w. case fn args w of (v, w') \<Rightarrow> (success_result v, w'))) reg"

definition register_mock :: "string \<Rightarrow> val \<Rightarrow> 'w registry \<Rightarrow> 'w registry" where
  "register_mock name mock_result reg =
     emplace name
       (plain_binding name (\<lambda>args w. (success_result (clone_value mock_result), w))) reg"

definition has_capability :: "'w registry \<Rightarrow> string \<Rightarrow> bool" where
  "has_capability reg name \<longleftrightarrow> map_of reg name \<noteq> None"

definition registered_names :: "'w registry \<Rightarrow> string list" where
  "registered_names reg = keys_of reg"

subsection \<open>Invocation with retries\<close>

text \<open>The delay after \<open>n\<close> multiplications, each through \<open>double\<close> and back.\<close>

fun backoff_delay :: "double \<Rightarrow> nat \<Rightarrow> int \<Rightarrow> int option" where
  "backoff_delay mult 0 delay = Some delay"
| "backoff_delay mult (Suc n) delay =
     (case double_to_int64 (double_mul (double_of_int delay) mult) of
        None \<Rightarrow> None
      | Some delay' \<Rightarrow> backoff_delay mult n delay')"

text \<open>
  The loop over the attempts: \<open>left\<close> is the number of attempts from \<open>attempt\<close> on. The flag says
  that an attempt succeeded.
\<close>

fun retry_loop ::
  "'w env \<Rightarrow> 'w binding \<Rightarrow> val list \<Rightarrow> nat \<Rightarrow> nat \<Rightarrow> call_result \<Rightarrow> 'w \<Rightarrow> ((bool \<times> call_result) \<times> 'w) option"
where
  "retry_loop env b args attempt 0 prev w = Some ((False, prev), w)"
| "retry_loop env b args attempt (Suc left) prev w =
     (case handler b args w of
        (r, w1) \<Rightarrow>
          (let r' = r\<lparr>cr_attempts := attempt\<rparr>
           in if cr_status r' = CSuccess then Some ((True, r'), w1)
              else if left = 0 then retry_loop env b args (attempt + 1) left r' w1
              else
                (case backoff_delay (backoff_multiplier (retry b)) (attempt - 1)
                        (initial_delay (retry b)) of
                   None \<Rightarrow> None
                 | Some delay \<Rightarrow>
                     retry_loop env b args (attempt + 1) left r'
                       (if delay > 0 then sleep_for env delay w1 else w1))))"

text \<open>\<open>binding.circuit_breaker.enabled && binding.circuit_state\<close>\<close>

definition active_breaker :: "'w binding \<Rightarrow> circuit_breaker option" where
  "active_breaker b = (if cb_enabled (circuit_breaker b) then circuit_state b else None)"

definition breaker_check ::
  "'w env \<Rightarrow> 'w binding \<Rightarrow> 'w \<Rightarrow> ((breaker_state \<times> 'w binding) \<times> 'w) option" where
  "breaker_check env b w =
     (case active_breaker b of
        None \<Rightarrow> Some ((Closed, b), w)
      | Some cb \<Rightarrow>
          (case current_state env cb w of
             None \<Rightarrow> None
           | Some ((st, cb'), w') \<Rightarrow> Some ((st, b\<lparr>circuit_state := Some cb'\<rparr>), w')))"

definition breaker_success :: "'w binding \<Rightarrow> 'w binding" where
  "breaker_success b =
     (case active_breaker b of
        None \<Rightarrow> b
      | Some cb \<Rightarrow> b\<lparr>circuit_state := Some (record_success cb)\<rparr>)"

definition breaker_failure :: "'w env \<Rightarrow> 'w binding \<Rightarrow> 'w \<Rightarrow> 'w binding \<times> 'w" where
  "breaker_failure env b w =
     (case active_breaker b of
        None \<Rightarrow> (b, w)
      | Some cb \<Rightarrow>
          (case record_failure env cb w of (cb', w') \<Rightarrow> (b\<lparr>circuit_state := Some cb'\<rparr>, w')))"

text \<open>\<open>max_retries + 1\<close> is a \<open>size_t\<close> and wraps.\<close>

definition max_attempts :: "retry_config \<Rightarrow> nat" where
  "max_attempts rc = (max_retries rc + 1) mod 2 ^ 64"

text \<open>What follows the loop: a success is recorded and returned, a failure recorded once.\<close>

definition finish_invoke ::
  "'w env \<Rightarrow> 'w binding \<Rightarrow> bool \<Rightarrow> call_result \<Rightarrow> 'w \<Rightarrow> (call_result \<times> 'w binding) \<times> 'w" where
  "finish_invoke env b ok prev w =
     (if ok then ((prev, breaker_success b), w)
      else
        (case breaker_failure env b w of
           (b', w') \<Rightarrow>
             ((if max_retries (retry b) > 0 then prev\<lparr>cr_status := CRetryExhausted\<rparr> else prev, b'), w')))"

definition invoke_with_retry ::
  "'w env \<Rightarrow> 'w binding \<Rightarrow> val list \<Rightarrow> 'w \<Rightarrow> ((call_result \<times> 'w binding) \<times> 'w) option" where
  "invoke_with_retry env b args w =
     (case breaker_check env b w of
        None \<Rightarrow> None
      | Some ((st, b1), w1) \<Rightarrow>
          if st = Open then
            Some ((\<lparr>cr_status = CCircuitOpen, cr_value = None,
                    cr_message = ''circuit breaker is open for: '' @ binding_name b,
                    cr_attempts = 0\<rparr>, b1), w1)
          else
            (case retry_loop env b1 args 1 (max_attempts (retry b1)) default_call_result w1 of
               None \<Rightarrow> None
             | Some ((ok, prev), w2) \<Rightarrow> Some (finish_invoke env b1 ok prev w2)))"

definition replace_binding :: "string \<Rightarrow> 'w binding \<Rightarrow> 'w registry \<Rightarrow> 'w registry" where
  "replace_binding name b reg = map (\<lambda>(k, b'). if k = name then (k, b) else (k, b')) reg"

definition invoke ::
  "'w env \<Rightarrow> string \<Rightarrow> val list \<Rightarrow> 'w registry \<times> 'w \<Rightarrow> (call_result \<times> 'w registry \<times> 'w) option" where
  "invoke env name args s =
     (case s of
        (reg, w) \<Rightarrow>
          (case map_of reg name of
             None \<Rightarrow>
               Some (\<lparr>cr_status = CError, cr_value = None,
                      cr_message = ''capability not found: '' @ name, cr_attempts = 0\<rparr>, reg, w)
           | Some b \<Rightarrow>
               (case invoke_with_retry env b args w of
                  None \<Rightarrow> None
                | Some ((r, b'), w') \<Rightarrow> Some (r, replace_binding name b' reg, w'))))"

subsection \<open>Invokers\<close>

record invocation_context =
  ic_workflow_name :: string
  ic_workflow_node_name :: string
  ic_agent_name :: string
  ic_state_name :: string
  ic_execution_index :: nat
  ic_has_node_context :: bool

definition empty_invocation_context :: invocation_context where
  "empty_invocation_context =
     \<lparr>ic_workflow_name = [], ic_workflow_node_name = [], ic_agent_name = [], ic_state_name = [],
      ic_execution_index = 0, ic_has_node_context = False\<rparr>"

type_synonym 's invoker = "string \<Rightarrow> val list \<Rightarrow> 's \<Rightarrow> (call_result \<times> 's) option"
type_synonym 's contextual_invoker = "invocation_context \<Rightarrow> 's invoker"

definition invoke_with_context :: "'w env \<Rightarrow> ('w registry \<times> 'w) contextual_invoker" where
  "invoke_with_context env context name args = invoke env name args"

definition as_invoker :: "'w env \<Rightarrow> ('w registry \<times> 'w) invoker" where
  "as_invoker env = invoke env"

definition as_contextual_invoker :: "'w env \<Rightarrow> ('w registry \<times> 'w) contextual_invoker" where
  "as_contextual_invoker env = invoke_with_context env"

subsection \<open>Evaluation with capabilities\<close>

definition capability_call_status_name :: "call_status \<Rightarrow> string" where
  "capability_call_status_name st =
     (case st of
        CSuccess \<Rightarrow> ''success''
      | CError \<Rightarrow> ''error''
      | CTimeout \<Rightarrow> ''timeout''
      | CRetryExhausted \<Rightarrow> ''retry_exhausted''
      | CCircuitOpen \<Rightarrow> ''circuit_open'')"

definition make_capability_error :: "string \<Rightarrow> eval_result" where
  "make_capability_error m =
     \<lparr>eval_value = NoneValue, eval_diags = emit_error_code empty_bag ''backend.EXECUTION_ERROR'' m\<rparr>"

definition make_unknown_capability_error :: "string \<Rightarrow> eval_result" where
  "make_unknown_capability_error m =
     \<lparr>eval_value = NoneValue,
      eval_diags = emit_error_code empty_bag ''typecheck.UNKNOWN_CAPABILITY'' m\<rparr>"

definition capability_call_result_to_eval_result :: "string \<Rightarrow> call_result \<Rightarrow> eval_result" where
  "capability_call_result_to_eval_result callee r =
     (if cr_status r = CSuccess then
        ok_result (case cr_value r of Some v \<Rightarrow> v | None \<Rightarrow> NoneValue)
      else
        make_capability_error
          (''capability '' @ quoted callee @ '' failed with status '' @
           capability_call_status_name (cr_status r) @
           (if cr_message r \<noteq> [] then '': '' @ cr_message r else []) @
           (if cr_attempts r > 0 then '' (attempts='' @ nat_to_string (cr_attempts r) @ '')'' else [])))"

type_synonym 's invoke_call = "string \<Rightarrow> val list \<Rightarrow> 's eval_m"

text \<open>The argument loop of the call evaluator, left to right, and the call.\<close>

fun capability_call_args ::
  "'s invoke_call \<Rightarrow> string \<Rightarrow> val list \<Rightarrow> 's eval_m option list \<Rightarrow> 's eval_m" where
  "capability_call_args ic callee vals [] s = ic callee vals s"
| "capability_call_args ic callee vals (None # args) s =
     Some (make_capability_error (''capability '' @ quoted callee @ '' has null argument expression''), s)"
| "capability_call_args ic callee vals (Some m # args) s =
     (case m s of
        None \<Rightarrow> None
      | Some (r, s') \<Rightarrow>
          if has_errors r then Some (r, s')
          else capability_call_args ic callee (vals @ [eval_value r]) args s')"

definition capability_call_eval :: "'s invoke_call \<Rightarrow> 's call_eval" where
  "capability_call_eval ic callee args = capability_call_args ic callee [] args"

definition eval_expr_with_capability_call_handler ::
  "'s invoke_call \<Rightarrow> expr \<Rightarrow> eval_context \<Rightarrow> 's eval_m" where
  "eval_expr_with_capability_call_handler ic e c = eval_expr (Some (capability_call_eval ic)) e c"

text \<open>The three overloads: a registry pointer, an invoker, a contextual invoker.\<close>

definition registry_call :: "'w env \<Rightarrow> bool \<Rightarrow> ('w registry \<times> 'w) invoke_call" where
  "registry_call env given callee vals s =
     (if \<not> given then
        Some (make_unknown_capability_error
          (''capability registry is null when invoking '' @ quoted callee), s)
      else if \<not> has_capability (fst s) callee then
        Some (make_unknown_capability_error (''unknown capability '' @ quoted callee), s)
      else
        (case invoke env callee vals s of
           None \<Rightarrow> None
         | Some (r, s') \<Rightarrow> Some (capability_call_result_to_eval_result callee r, s')))"

definition eval_expr_with_registry ::
  "'w env \<Rightarrow> bool \<Rightarrow> expr \<Rightarrow> eval_context \<Rightarrow> ('w registry \<times> 'w) eval_m" where
  "eval_expr_with_registry env given e c =
     eval_expr_with_capability_call_handler (registry_call env given) e c"

definition invoker_call :: "'s invoker option \<Rightarrow> 's invoke_call" where
  "invoker_call invk callee vals s =
     (case invk of
        None \<Rightarrow>
          Some (make_unknown_capability_error
            (''capability invoker is empty when invoking '' @ quoted callee), s)
      | Some f \<Rightarrow>
          (case f callee vals s of
             None \<Rightarrow> None
           | Some (r, s') \<Rightarrow> Some (capability_call_result_to_eval_result callee r, s')))"

definition eval_expr_with_capabilities ::
  "'s invoker option \<Rightarrow> expr \<Rightarrow> eval_context \<Rightarrow> 's eval_m" where
  "eval_expr_with_capabilities invk e c = eval_expr_with_capability_call_handler (invoker_call invk) e c"

definition eval_expr_with_contextual_capabilities ::
  "'s contextual_invoker option \<Rightarrow> invocation_context \<Rightarrow> expr \<Rightarrow> eval_context \<Rightarrow> 's eval_m" where
  "eval_expr_with_contextual_capabilities invk context e c =
     eval_expr_with_capability_call_handler
       (invoker_call (map_option (\<lambda>f. f context) invk)) e c"

subsection \<open>The breaker as a state machine\<close>

text \<open>
  The states a breaker reaches from its construction by the three operations, at whatever
  times the clock gives.
\<close>

definition at_time :: "int \<Rightarrow> unit env" where
  "at_time t = \<lparr>now = (\<lambda>_. (t, ())), sleep_for = (\<lambda>_ _. ())\<rparr>"

inductive breaker_history :: "circuit_breaker_config \<Rightarrow> nat \<Rightarrow> circuit_breaker \<Rightarrow> bool" for cfg where
  init: "breaker_history cfg 0 (new_breaker cfg)"
| check: "breaker_history cfg n cb \<Longrightarrow> current_state (at_time t) cb () = Some ((st, cb'), ()) \<Longrightarrow>
    breaker_history cfg n cb'"
| success: "breaker_history cfg n cb \<Longrightarrow> breaker_history cfg 0 (record_success cb)"
| failure: "breaker_history cfg n cb \<Longrightarrow>
    breaker_history cfg (n + 1) (fst (record_failure (at_time t) cb ()))"

definition breaker_reachable :: "circuit_breaker_config \<Rightarrow> circuit_breaker \<Rightarrow> bool" where
  "breaker_reachable cfg cb \<longleftrightarrow> (\<exists>n. breaker_history cfg n cb)"

lemma breaker_reachable_init: "breaker_reachable cfg (new_breaker cfg)"
  by (auto simp: breaker_reachable_def intro: breaker_history.init)

lemma breaker_reachable_success: "breaker_reachable cfg cb \<Longrightarrow> breaker_reachable cfg (record_success cb)"
  by (auto simp: breaker_reachable_def intro: breaker_history.success)

lemma current_state_history:
  assumes "breaker_history cfg n cb" "current_state env cb w = Some ((st, cb'), w')"
  shows "breaker_history cfg n cb'"
proof -
  obtain t w1 where "now env w = (t, w1)" by fastforce
  with assms(2) have "current_state (at_time t) cb () = Some ((st, cb'), ())"
    by (auto simp: current_state_def at_time_def split: if_splits option.splits)
  with assms(1) show ?thesis by (rule breaker_history.check)
qed

lemma record_failure_history:
  assumes "breaker_history cfg n cb"
  shows "breaker_history cfg (n + 1) (fst (record_failure env cb w))"
proof -
  obtain t w1 where "now env w = (t, w1)" by fastforce
  then have "fst (record_failure env cb w) = fst (record_failure (at_time t) cb ())"
    by (auto simp: record_failure_def at_time_def Let_def)
  with breaker_history.failure [OF assms] show ?thesis by simp
qed

lemma current_state_reachable:
  "breaker_reachable cfg cb \<Longrightarrow> current_state env cb w = Some ((st, cb'), w') \<Longrightarrow> breaker_reachable cfg cb'"
  using current_state_history by (fastforce simp: breaker_reachable_def)

lemma record_failure_reachable:
  "breaker_reachable cfg cb \<Longrightarrow> breaker_reachable cfg (fst (record_failure env cb w))"
  using record_failure_history by (fastforce simp: breaker_reachable_def)

text \<open>
  The breaker counts the failures since the last success, as far as \<open>size_t\<close> reaches, and is
  closed exactly while there are none or fewer than the threshold.
\<close>

lemma breaker_history_config: "breaker_history cfg n cb \<Longrightarrow> cb_config cb = cfg"
  by (induction rule: breaker_history.induct)
    (auto simp: new_breaker_def current_state_def record_success_def record_failure_def Let_def
      split: prod.splits option.splits if_splits)

lemma breaker_history_ok:
  "breaker_history cfg n cb \<Longrightarrow> n < 2 ^ 64 \<Longrightarrow>
     failure_count cb = n \<and> (cb_state cb = Closed \<longleftrightarrow> n < max 1 (failure_threshold cfg))"
proof (induction rule: breaker_history.induct)
  case init
  show ?case by (simp add: new_breaker_def)
next
  case (check n cb t st cb')
  then show ?case
    by (auto simp: current_state_def run_simps split: prod.splits option.splits if_splits)
next
  case (success n cb)
  show ?case by (simp add: record_success_def)
next
  case (failure n cb t)
  then show ?case
    using breaker_history_config [OF failure.hyps]
    by (auto simp: record_failure_def Let_def at_time_def)
qed

text \<open>In the recovery window an open breaker stays open; after it, it lets one call through.\<close>

lemma current_state_open:
  assumes "cb_state cb \<noteq> Closed" "now env w = (t, w')"
    and "in_int64 (recovery_window (cb_config cb) * 1000000000)"
  shows "current_state env cb w =
    (if t - opened_at cb < recovery_window (cb_config cb) * 1000000000
     then Some ((Open, cb), w') else Some ((HalfOpen, cb\<lparr>cb_state := HalfOpen\<rparr>), w'))"
  using assms by (simp add: current_state_def int64_result_def)

text \<open>A failure of a breaker that is not closed opens it again at once.\<close>

lemma half_open_failure:
  assumes "breaker_history cfg n cb" "n + 1 < 2 ^ 64" "cb_state cb \<noteq> Closed"
  shows "cb_state (fst (record_failure env cb w)) = Open"
  using breaker_history_ok [OF assms(1)] breaker_history_config [OF assms(1)] assms(2,3)
  by (auto simp: record_failure_def Let_def split: prod.splits)

subsection \<open>Registration\<close>

lemma register_lookup:
  "map_of (register_capability b reg) n =
    (if n = binding_name b \<and> \<not> has_capability reg n then Some b else map_of reg n)"
  by (auto simp: register_capability_def has_capability_def map_of_emplace map_of_eq_None_keys)

lemma has_capability_keys: "has_capability reg n \<longleftrightarrow> n \<in> set (registered_names reg)"
  by (simp add: has_capability_def registered_names_def map_of_eq_None_keys)

lemma keys_replace_binding [simp]: "keys_of (replace_binding n b reg) = keys_of reg"
  by (induction reg) (auto simp: replace_binding_def)

lemma map_of_replace_binding:
  "map_of (replace_binding n b reg) k =
    (if k = n \<and> n \<in> set (keys_of reg) then Some b else map_of reg k)"
  by (induction reg) (auto simp: replace_binding_def)

subsection \<open>The retry loop\<close>

text \<open>Instrumentation: the world counts the calls of the handler.\<close>

definition counted_handler :: "'w handler \<Rightarrow> (nat \<times> 'w) handler" where
  "counted_handler h args = (\<lambda>(n, w). case h args w of (r, w') \<Rightarrow> (r, (n + 1, w')))"

definition counted_env :: "'w env \<Rightarrow> (nat \<times> 'w) env" where
  "counted_env e =
     \<lparr>now = (\<lambda>(n, w). case now e w of (t, w') \<Rightarrow> (t, (n, w'))),
      sleep_for = (\<lambda>d (n, w). (n, sleep_for e d w))\<rparr>"

definition counted_binding :: "'w binding \<Rightarrow> (nat \<times> 'w) binding" where
  "counted_binding b =
     \<lparr>binding_name = binding_name b, handler = counted_handler (handler b), retry = retry b,
      circuit_breaker = circuit_breaker b, circuit_state = circuit_state b\<rparr>"

lemma retry_loop_count:
  assumes "retry_loop (counted_env env) (counted_binding b) args a left prev (n, w) =
      Some ((ok, r), (n', w'))" "0 < left"
  shows "a \<le> cr_attempts r \<and> cr_attempts r < a + left \<and> n' + a = n + cr_attempts r + 1 \<and>
    (ok \<longleftrightarrow> cr_status r = CSuccess) \<and> (\<not> ok \<longrightarrow> cr_attempts r + 1 = a + left)"
  using assms
proof (induction left arbitrary: a prev n w)
  case (Suc left)
  obtain r1 w1 where h: "handler b args w = (r1, w1)" by fastforce
  then have h': "handler (counted_binding b) args (n, w) = (r1, (n + 1, w1))"
    by (simp add: counted_binding_def counted_handler_def)
  show ?case
  proof (cases "cr_status r1 = CSuccess \<or> left = 0")
    case True
    with Suc.prems h' show ?thesis by (cases left) (auto simp: Let_def split: if_splits)
  next
    case False
    with Suc.prems(1) h' obtain w2 where
      "retry_loop (counted_env env) (counted_binding b) args (a + 1) left (r1\<lparr>cr_attempts := a\<rparr>)
        (n + 1, w2) = Some ((ok, r), (n', w'))"
      by (cases left) (auto simp: Let_def counted_env_def split: option.splits if_splits)
    with Suc.IH False show ?thesis by fastforce
  qed
qed simp

lemma counted_env_now: "now (counted_env env) (n, w) = (t, v) \<longleftrightarrow> (\<exists>w'. v = (n, w') \<and> now env w = (t, w'))"
  by (auto simp: counted_env_def split: prod.splits)

lemma counted_binding_simps [simp]:
  "retry (counted_binding b) = retry b" "circuit_breaker (counted_binding b) = circuit_breaker b"
  "circuit_state (counted_binding b) = circuit_state b" "binding_name (counted_binding b) = binding_name b"
  "active_breaker (counted_binding b) = active_breaker b"
  "(counted_binding b)\<lparr>circuit_state := cs\<rparr> = counted_binding (b\<lparr>circuit_state := cs\<rparr>)"
  by (simp_all add: counted_binding_def active_breaker_def)

lemma breaker_check_counted:
  "breaker_check (counted_env env) (counted_binding b) (n, w) = Some ((st, b1), w1) \<Longrightarrow>
    \<exists>b' w'. b1 = counted_binding b' \<and> w1 = (n, w') \<and> retry b' = retry b \<and>
      breaker_check env b w = Some ((st, b'), w')"
  by (auto simp: breaker_check_def current_state_def run_simps counted_env_now
      split: option.splits prod.splits if_splits)

lemma breaker_failure_counted:
  "breaker_failure (counted_env env) (counted_binding b) (n, w) = (b2, w2) \<Longrightarrow> fst w2 = n"
  by (auto simp: breaker_failure_def record_failure_def Let_def counted_env_now
      split: option.splits prod.splits if_splits)

text \<open>
  The attempts a result reports are the calls the handler received: none when the breaker is
  open, at most \<open>max_retries + 1\<close>, all of them unless one succeeds; a failure after retries is
  \<open>RetryExhausted\<close>.
\<close>

lemma invoke_with_retry_count:
  assumes run: "invoke_with_retry (counted_env env) (counted_binding b) args (n, w) =
      Some ((r, b'), (n', w'))"
    and small: "max_retries (retry b) + 1 < 2 ^ 64"
  shows "n' = n + cr_attempts r \<and> cr_attempts r \<le> max_retries (retry b) + 1 \<and>
    (cr_attempts r = 0 \<longrightarrow> cr_status r = CCircuitOpen) \<and>
    (0 < cr_attempts r \<longrightarrow> cr_attempts r \<le> max_retries (retry b) \<longrightarrow> cr_status r = CSuccess) \<and>
    (0 < cr_attempts r \<longrightarrow> 0 < max_retries (retry b) \<longrightarrow> cr_status r \<in> {CSuccess, CRetryExhausted})"
proof -
  from run obtain st b1 w1 where chk: "breaker_check (counted_env env) (counted_binding b) (n, w) = Some ((st, b1), w1)"
    by (auto simp: invoke_with_retry_def run_simps)
  obtain b0 w0 where b1: "b1 = counted_binding b0" "w1 = (n, w0)" "retry b0 = retry b"
    using breaker_check_counted [OF chk] by blast
  show ?thesis
  proof (cases "st = Open")
    case True
    with run chk b1 show ?thesis by (auto simp: invoke_with_retry_def)
  next
    case False
    have ma: "max_attempts (retry b) = max_retries (retry b) + 1"
      using small by (simp add: max_attempts_def)
    with run chk b1 False obtain ok prev n2 w2 where
      loop: "retry_loop (counted_env env) (counted_binding b0) args 1 (max_retries (retry b) + 1)
        default_call_result (n, w0) = Some ((ok, prev), (n2, w2))"
      and fin: "finish_invoke (counted_env env) (counted_binding b0) ok prev (n2, w2) = ((r, b'), (n', w'))"
      by (auto simp: invoke_with_retry_def run_simps simp del: retry_loop.simps)
    from retry_loop_count [OF loop] have cnt: "1 \<le> cr_attempts prev" "cr_attempts prev \<le> max_retries (retry b) + 1"
      "n2 = n + cr_attempts prev" "ok \<longleftrightarrow> cr_status prev = CSuccess"
      "\<not> ok \<longrightarrow> cr_attempts prev = max_retries (retry b) + 1" by auto
    show ?thesis
    proof (cases ok)
      case True
      with fin cnt show ?thesis by (auto simp: finish_invoke_def)
    next
      case False
      obtain b2 w3 where fail: "breaker_failure (counted_env env) (counted_binding b0) (n2, w2) = (b2, w3)"
        by (metis surj_pair)
      then have "fst w3 = n2" by (rule breaker_failure_counted)
      with fin fail False cnt b1(3) show ?thesis by (auto simp: finish_invoke_def split: if_splits)
    qed
  qed
qed

subsection \<open>The invariant of a registry\<close>

definition handler_ok :: "'w handler \<Rightarrow> bool" where
  "handler_ok h \<longleftrightarrow>
     (\<forall>args w r w' v. h args w = (r, w') \<longrightarrow> cr_value r = Some v \<longrightarrow>
        (\<forall>a \<in> set args. value_ok a) \<longrightarrow> value_ok v)"

definition binding_ok :: "'w binding \<Rightarrow> bool" where
  "binding_ok b \<longleftrightarrow>
     handler_ok (handler b) \<and>
     (\<forall>cb. circuit_state b = Some cb \<longrightarrow> breaker_reachable (circuit_breaker b) cb)"

definition registry_ok :: "'w registry \<Rightarrow> bool" where
  "registry_ok reg \<longleftrightarrow> distinct (keys_of reg) \<and> (\<forall>b \<in> ran (map_of reg). binding_ok b)"

lemma registry_okD: "registry_ok reg \<Longrightarrow> map_of reg n = Some b \<Longrightarrow> binding_ok b"
  by (auto simp: registry_ok_def ran_def)

lemma registry_ok_empty [simp]: "registry_ok []"
  by (simp add: registry_ok_def)

lemma registry_ok_emplace: "registry_ok reg \<Longrightarrow> binding_ok b \<Longrightarrow> registry_ok (emplace n b reg)"
  by (auto simp: registry_ok_def map_of_emplace dest: ran_updD)

lemma registry_ok_register [simp]:
  "registry_ok reg \<Longrightarrow> binding_ok b \<Longrightarrow> registry_ok (register_capability b reg)"
  "registry_ok reg \<Longrightarrow> value_ok v \<Longrightarrow> registry_ok (register_mock n v reg)"
  by (auto simp: register_capability_def register_mock_def binding_ok_def handler_ok_def
      plain_binding_def success_result_def intro!: registry_ok_emplace clone_value_value_ok)

lemma registry_ok_replace: "registry_ok reg \<Longrightarrow> binding_ok b \<Longrightarrow> registry_ok (replace_binding n b reg)"
  by (auto simp: registry_ok_def map_of_replace_binding ran_def split: if_splits)

lemma retry_loop_value_ok:
  "retry_loop env b args a left prev w = Some ((ok, r), w') \<Longrightarrow> handler_ok (handler b) \<Longrightarrow>
    \<forall>x \<in> set args. value_ok x \<Longrightarrow> \<forall>v. cr_value prev = Some v \<longrightarrow> value_ok v \<Longrightarrow>
    \<forall>v. cr_value r = Some v \<longrightarrow> value_ok v"
proof (induction left arbitrary: a prev w)
  case (Suc left)
  obtain r1 w1 where h: "handler b args w = (r1, w1)" by fastforce
  with Suc.prems(2,3) have r1: "\<forall>v. cr_value r1 = Some v \<longrightarrow> value_ok v"
    unfolding handler_ok_def by blast
  show ?case
  proof (cases "cr_status r1 = CSuccess")
    case True
    with Suc.prems h r1 show ?thesis by (auto simp: Let_def)
  next
    case False
    with Suc.prems(1) h obtain w2 where
      "retry_loop env b args (a + 1) left (r1\<lparr>cr_attempts := a\<rparr>) w2 = Some ((ok, r), w')"
      by (auto simp: Let_def split: option.splits if_splits)
    from Suc.IH [OF this] Suc.prems(2,3) r1 show ?thesis by simp
  qed
qed simp

lemma breaker_check_ok:
  assumes "binding_ok b" "breaker_check env b w = Some ((st, b'), w')"
  shows "binding_ok b' \<and> handler b' = handler b \<and> retry b' = retry b"
  using assms
  by (auto simp: breaker_check_def binding_ok_def active_breaker_def run_simps
      dest: current_state_reachable split: option.splits if_splits prod.splits)

lemma breaker_success_ok: "binding_ok b \<Longrightarrow> binding_ok (breaker_success b)"
  by (auto simp: breaker_success_def binding_ok_def active_breaker_def
      intro: breaker_reachable_success split: option.splits if_splits)

lemma breaker_failure_ok: "binding_ok b \<Longrightarrow> binding_ok (fst (breaker_failure env b w))"
  by (auto simp: breaker_failure_def binding_ok_def active_breaker_def
      dest: record_failure_reachable split: option.splits if_splits prod.splits)
    (metis fst_conv record_failure_reachable)

lemma invoke_with_retry_ok:
  assumes "binding_ok b" "\<forall>x \<in> set args. value_ok x"
    and run: "invoke_with_retry env b args w = Some ((r, b'), w')"
  shows "binding_ok b' \<and> (\<forall>v. cr_value r = Some v \<longrightarrow> value_ok v)"
proof -
  from run obtain st b1 w1 where chk: "breaker_check env b w = Some ((st, b1), w1)"
    by (auto simp: invoke_with_retry_def run_simps)
  note b1 = breaker_check_ok [OF assms(1) chk]
  show ?thesis
  proof (cases "st = Open")
    case True
    with run chk b1 show ?thesis by (auto simp: invoke_with_retry_def)
  next
    case False
    with run chk obtain ok prev w2 where
      loop: "retry_loop env b1 args 1 (max_attempts (retry b1)) default_call_result w1 = Some ((ok, prev), w2)"
      and fin: "finish_invoke env b1 ok prev w2 = ((r, b'), w')"
      by (auto simp: invoke_with_retry_def run_simps simp del: retry_loop.simps)
    from fin have r: "cr_value r = cr_value prev"
      and b': "b' = breaker_success b1 \<or> b' = fst (breaker_failure env b1 w2)"
      by (auto simp: finish_invoke_def split: if_splits prod.splits)
    have "\<forall>v. cr_value prev = Some v \<longrightarrow> value_ok v"
      using retry_loop_value_ok [OF loop] b1 assms(2) by (auto simp: binding_ok_def default_call_result_def)
    with r b' b1 show ?thesis by (auto simp: breaker_success_ok breaker_failure_ok)
  qed
qed

lemma invoke_ok:
  assumes "registry_ok reg" "\<forall>x \<in> set args. value_ok x" "invoke env n args (reg, w) = Some (r, reg', w')"
  shows "registry_ok reg' \<and> (\<forall>v. cr_value r = Some v \<longrightarrow> value_ok v) \<and>
    registered_names reg' = registered_names reg"
  using assms invoke_with_retry_ok [of _ args env w]
  by (fastforce simp: invoke_def run_simps registered_names_def registry_ok_replace
      dest: registry_okD split: option.splits)

subsection \<open>What the evaluator relies on\<close>

text \<open>
  The contract of a call provider: given well-formed arguments it gives a well-formed result and
  keeps the invariant of its world. Every evaluation over it then does.
\<close>

locale call_provider =
  fixes ic :: "'s invoke_call" and I :: "'s \<Rightarrow> bool"
  assumes call_ok: "I s \<Longrightarrow> \<forall>x \<in> set vals. value_ok x \<Longrightarrow> ic f vals s = Some (r, s') \<Longrightarrow> result_ok r \<and> I s'"
begin

lemma args_ok:
  "\<forall>m. Some m \<in> set args \<longrightarrow> eval_m_ok I m \<Longrightarrow> \<forall>x \<in> set vals. value_ok x \<Longrightarrow>
    eval_m_ok I (capability_call_args ic f vals args)"
proof (induction args arbitrary: vals)
  case Nil
  then show ?case unfolding eval_m_ok_def by (auto dest: call_ok)
next
  case (Cons a args)
  show ?case
  proof (cases a)
    case None
    then show ?thesis by (simp add: eval_m_ok_def result_ok_def make_capability_error_def has_errors_def)
  next
    case (Some m)
    with Cons have "eval_m_ok I m" by auto
    with Some Cons show ?thesis by (auto intro!: eval_m_ok_bind dest: result_ok_value)
  qed
qed

lemma handler_call_eval_ok: "call_eval_ok I (Some (capability_call_eval ic))"
  by (auto simp: call_eval_ok_def capability_call_eval_def [abs_def] intro: args_ok)

lemma eval_ok: "context_ok c \<Longrightarrow> eval_m_ok I (eval_expr_with_capability_call_handler ic e c)"
  unfolding eval_expr_with_capability_call_handler_def eval_expr_def
  by (rule eval_expr_impl_ok [OF handler_call_eval_ok])

end

lemma capability_call_result_to_eval_result_ok:
  "\<forall>v. cr_value r = Some v \<longrightarrow> value_ok v \<Longrightarrow> result_ok (capability_call_result_to_eval_result f r)"
  by (auto simp: capability_call_result_to_eval_result_def result_ok_def make_capability_error_def
      has_errors_def split: option.split)

lemma unknown_capability_ok: "result_ok (make_unknown_capability_error m)"
  by (simp add: make_unknown_capability_error_def result_ok_def has_errors_def)

interpretation registry: call_provider "registry_call env given" "\<lambda>s. registry_ok (fst s)" for env given
proof
  fix s vals f r s'
  assume I: "registry_ok (fst s)" and vals: "\<forall>x \<in> set vals. value_ok x"
    and run: "registry_call env given f vals s = Some (r, s')"
  obtain reg w where s: "s = (reg, w)" by fastforce
  show "result_ok r \<and> registry_ok (fst s')"
  proof (cases "given \<and> has_capability reg f")
    case True
    with run s obtain cr reg' w' where "invoke env f vals (reg, w) = Some (cr, reg', w')"
      and "r = capability_call_result_to_eval_result f cr" "s' = (reg', w')"
      by (cases s') (auto simp: registry_call_def run_simps)
    with I vals s invoke_ok [of reg vals env f w cr reg' w'] show ?thesis
      by (simp add: capability_call_result_to_eval_result_ok)
  next
    case False
    with run s I show ?thesis by (auto simp: registry_call_def unknown_capability_ok split: if_splits)
  qed
qed

text \<open>An invoker, contextual or not, that gives well-formed values.\<close>

definition invoker_ok :: "('s \<Rightarrow> bool) \<Rightarrow> 's invoker \<Rightarrow> bool" where
  "invoker_ok I f \<longleftrightarrow>
     (\<forall>n vals s r s'. I s \<longrightarrow> (\<forall>x \<in> set vals. value_ok x) \<longrightarrow> f n vals s = Some (r, s') \<longrightarrow>
        (\<forall>v. cr_value r = Some v \<longrightarrow> value_ok v) \<and> I s')"

lemma invoker_okD:
  "invoker_ok I f \<Longrightarrow> I s \<Longrightarrow> \<forall>x \<in> set vals. value_ok x \<Longrightarrow> f n vals s = Some (r, s') \<Longrightarrow>
    (\<forall>v. cr_value r = Some v \<longrightarrow> value_ok v) \<and> I s'"
  unfolding invoker_ok_def by blast

lemma invoker_provider: "pred_option (invoker_ok I) invk \<Longrightarrow> call_provider (invoker_call invk) I"
proof
  fix s vals f r s'
  assume ok: "pred_option (invoker_ok I) invk" "I s" "\<forall>x \<in> set vals. value_ok x"
    and run: "invoker_call invk f vals s = Some (r, s')"
  show "result_ok r \<and> I s'"
  proof (cases invk)
    case None
    with run ok(2) show ?thesis by (auto simp: invoker_call_def unknown_capability_ok)
  next
    case (Some g)
    with run obtain cr where "g f vals s = Some (cr, s')" "r = capability_call_result_to_eval_result f cr"
      by (auto simp: invoker_call_def run_simps)
    with ok Some invoker_okD [of I g s vals f cr s'] show ?thesis
      by (simp add: capability_call_result_to_eval_result_ok)
  qed
qed

lemma as_invoker_ok: "invoker_ok (\<lambda>s. registry_ok (fst s)) (as_invoker env)"
  unfolding invoker_ok_def as_invoker_def
proof (intro allI impI)
  fix n vals s r s'
  assume "registry_ok (fst s)" "\<forall>x\<in>set vals. value_ok x" "invoke env n vals s = Some (r, s')"
  then show "(\<forall>v. cr_value r = Some v \<longrightarrow> value_ok v) \<and> registry_ok (fst s')"
    using invoke_ok [of "fst s" vals env n "snd s" r "fst s'" "snd s'"] by simp
qed

interpretation registry_invoker:
  call_provider "invoker_call (Some (as_invoker env))" "\<lambda>s. registry_ok (fst s)" for env
  by (rule invoker_provider) (simp add: as_invoker_ok)

end
