(* ===== verification/Executor.thy ===== *)
theory Executor
  imports Evaluator
begin

section \<open>The statement executor\<close>

text \<open>
  \<open>src/runtime/evaluator/executor.{hpp,cpp}\<close>. \<open>ExecContext\<close> is the evaluation context, which
  statements change, and the expression evaluator they use; the model passes the evaluator as
  an argument (\<open>eval_expression\<close> falls back to the one without calls). A null statement of a
  block is skipped, a missing block of an if statement does nothing.
\<close>

datatype exec_outcome =
    ExecContinue
  | ExecGoto string
  | ExecReturn val
  | ExecAssertFailed string

record exec_result =
  outcome :: exec_outcome
  exec_diags :: diagnostic_bag

definition exec_has_errors :: "exec_result \<Rightarrow> bool" where
  "exec_has_errors r = has_error (exec_diags r)"

type_synonym 's expr_eval = "expr \<Rightarrow> eval_context \<Rightarrow> 's eval_m"
type_synonym 's exec_m = "eval_context \<Rightarrow> 's \<Rightarrow> ((exec_result \<times> eval_context) \<times> 's) option"

definition eval_expression :: "'s expr_eval option \<Rightarrow> 's expr_eval" where
  "eval_expression ee e c = (case ee of None \<Rightarrow> eval_expr None e c | Some f \<Rightarrow> f e c)"

definition assign_ctx :: "string \<Rightarrow> val \<Rightarrow> eval_context \<Rightarrow> bool \<times> eval_context" where
  "assign_ctx name v c = (True, set_ctx name v c)"

definition exec_ok :: "exec_outcome \<Rightarrow> exec_result" where
  "exec_ok out = \<lparr>outcome = out, exec_diags = empty_bag\<rparr>"

definition make_continue :: exec_result where
  "make_continue = exec_ok ExecContinue"

definition make_exec_error :: "string \<Rightarrow> exec_result" where
  "make_exec_error m = \<lparr>outcome = ExecContinue, exec_diags = emit_error empty_bag m\<rparr>"

text \<open>
  The part every statement with an expression shares: a null expression is an error, an
  evaluation error is passed on with the outcome continue, otherwise \<open>k\<close> goes on.
\<close>

definition with_value ::
  "'s expr_eval option \<Rightarrow> string \<Rightarrow> expr_ref \<Rightarrow> (val \<Rightarrow> 's exec_m) \<Rightarrow> 's exec_m" where
  "with_value ee null_message e k c s =
     (case e of
        None \<Rightarrow> Some ((make_exec_error null_message, c), s)
      | Some x \<Rightarrow>
          (case eval_expression ee x c s of
             None \<Rightarrow> None
           | Some (r, s') \<Rightarrow>
               if has_errors r
               then Some ((\<lparr>outcome = ExecContinue, exec_diags = eval_diags r\<rparr>, c), s')
               else k (eval_value r) c s'))"

fun exec_statement :: "'s expr_eval option \<Rightarrow> statement \<Rightarrow> 's exec_m"
  and exec_block :: "'s expr_eval option \<Rightarrow> block \<Rightarrow> 's exec_m" where
  "exec_statement ee (LetStatement name e) c s =
     with_value ee ''LetStatement has null initializer'' e
       (\<lambda>v c s. Some ((make_continue, bind_local name v c), s)) c s"
| "exec_statement ee (AssignStatement target e) c s =
     (if root_kind target \<noteq> RootContext then
        Some ((make_exec_error ''assignment target must be a ctx field (e.g. ctx.field)'', c), s)
      else if members target = [] then
        Some ((make_exec_error ''assignment target must specify a field (e.g. ctx.field)'', c), s)
      else
        with_value ee ''AssignStatement has null value expression'' e
          (\<lambda>v c s. Some ((make_continue, snd (assign_ctx (members target ! 0) v c)), s)) c s)"
| "exec_statement ee (IfStatement cond then_block else_block) c s =
     with_value ee ''IfStatement has null condition'' cond
       (\<lambda>v c s.
          case v of
            BoolValue b \<Rightarrow>
              if b then (case then_block of
                           Some blk \<Rightarrow> exec_block ee blk c s
                         | None \<Rightarrow> Some ((make_continue, c), s))
              else (case else_block of
                      Some blk \<Rightarrow> exec_block ee blk c s
                    | None \<Rightarrow> Some ((make_continue, c), s))
          | _ \<Rightarrow> Some ((make_exec_error ''if condition must evaluate to Bool'', c), s)) c s"
| "exec_statement ee (GotoStatement target) c s = Some ((exec_ok (ExecGoto target), c), s)"
| "exec_statement ee (ReturnStatement e) c s =
     (if e = None then Some ((exec_ok (ExecReturn NoneValue), c), s)
      else with_value ee [] e (\<lambda>v c s. Some ((exec_ok (ExecReturn v), c), s)) c s)"
| "exec_statement ee (AssertStatement cond) c s =
     with_value ee ''AssertStatement has null condition'' cond
       (\<lambda>v c s.
          case v of
            BoolValue b \<Rightarrow>
              if \<not> b then Some ((exec_ok (ExecAssertFailed ''assertion failed''), c), s)
              else Some ((make_continue, c), s)
          | _ \<Rightarrow> Some ((make_exec_error ''assert condition must evaluate to Bool'', c), s)) c s"
| "exec_statement ee (ExprStatement e) c s =
     with_value ee ''ExprStatement has null expression'' e
       (\<lambda>v c s. Some ((make_continue, c), s)) c s"
| "exec_block ee [] c s = Some ((make_continue, c), s)"
| "exec_block ee (None # stmts) c s = exec_block ee stmts c s"
| "exec_block ee (Some st # stmts) c s =
     (case exec_statement ee st c s of
        None \<Rightarrow> None
      | Some ((r, c'), s') \<Rightarrow>
          if exec_has_errors r \<or> outcome r \<noteq> ExecContinue then Some ((r, c'), s')
          else exec_block ee stmts c' s')"

subsection \<open>The invariant of execution\<close>

text \<open>
  An erroneous result has the outcome continue; a returned value is well-formed; a statement
  changes the context scope and the local scope only.
\<close>

definition exec_result_ok :: "exec_result \<Rightarrow> bool" where
  "exec_result_ok r \<longleftrightarrow>
     bag_ok (exec_diags r) \<and> (exec_has_errors r \<longrightarrow> outcome r = ExecContinue) \<and>
     (\<forall>v. outcome r = ExecReturn v \<longrightarrow> value_ok v)"

definition same_frame :: "eval_context \<Rightarrow> eval_context \<Rightarrow> bool" where
  "same_frame c c' \<longleftrightarrow>
     input_scope c' = input_scope c \<and> node_output_scope c' = node_output_scope c"

definition exec_m_ok :: "('s \<Rightarrow> bool) \<Rightarrow> 's exec_m \<Rightarrow> bool" where
  "exec_m_ok I m \<longleftrightarrow>
     (\<forall>c s r c' s'. context_ok c \<longrightarrow> I s \<longrightarrow> m c s = Some ((r, c'), s') \<longrightarrow>
        exec_result_ok r \<and> context_ok c' \<and> I s' \<and> same_frame c c')"

definition expr_eval_ok :: "('s \<Rightarrow> bool) \<Rightarrow> 's expr_eval option \<Rightarrow> bool" where
  "expr_eval_ok I ee \<longleftrightarrow> (\<forall>e c. context_ok c \<longrightarrow> eval_m_ok I (eval_expression ee e c))"

lemma same_frame_refl [simp]: "same_frame c c"
  by (simp add: same_frame_def)

lemma same_frame_trans: "same_frame a b \<Longrightarrow> same_frame b c \<Longrightarrow> same_frame a c"
  by (simp add: same_frame_def)

lemma exec_result_ok_simps [simp]:
  "exec_result_ok make_continue" "exec_result_ok (make_exec_error m)"
  "exec_result_ok (exec_ok out) \<longleftrightarrow> (\<forall>v. out = ExecReturn v \<longrightarrow> value_ok v)"
  "\<not> exec_has_errors (exec_ok out)" "outcome (exec_ok out) = out"
  "\<not> exec_has_errors make_continue" "outcome make_continue = ExecContinue"
  "exec_has_errors (make_exec_error m)"
  by (auto simp: exec_result_ok_def make_continue_def exec_ok_def make_exec_error_def exec_has_errors_def)

lemma exec_m_okD:
  "exec_m_ok I m \<Longrightarrow> context_ok c \<Longrightarrow> I s \<Longrightarrow> m c s = Some ((r, c'), s') \<Longrightarrow>
    exec_result_ok r \<and> context_ok c' \<and> I s' \<and> same_frame c c'"
  unfolding exec_m_ok_def by blast

lemma exec_m_ok_return: "exec_result_ok r \<Longrightarrow> exec_m_ok I (\<lambda>c s. Some ((r, c), s))"
  by (simp add: exec_m_ok_def)

lemma exec_m_ok_local: "value_ok v \<Longrightarrow> exec_m_ok I (\<lambda>c s. Some ((make_continue, bind_local n v c), s))"
  by (auto simp: exec_m_ok_def same_frame_def local_var.good_store) (auto simp: bind_local_def)

lemma exec_m_ok_ctx: "value_ok v \<Longrightarrow> exec_m_ok I (\<lambda>c s. Some ((make_continue, snd (assign_ctx n v c)), s))"
  by (auto simp: exec_m_ok_def same_frame_def ctx.good_store assign_ctx_def) (auto simp: set_ctx_def)

lemma with_value_ok:
  assumes ee: "expr_eval_ok I ee" and k: "\<And>v. value_ok v \<Longrightarrow> exec_m_ok I (k v)"
  shows "exec_m_ok I (\<lambda>c s. with_value ee m e k c s)"
  unfolding exec_m_ok_def
proof (intro allI impI)
  fix c s r c' s'
  assume c: "context_ok c" "I s" and run: "with_value ee m e k c s = Some ((r, c'), s')"
  show "exec_result_ok r \<and> context_ok c' \<and> I s' \<and> same_frame c c'"
  proof (cases e)
    case None
    with run c show ?thesis by (auto simp: with_value_def)
  next
    case (Some x)
    with run obtain er s1 where ev: "eval_expression ee x c s = Some (er, s1)"
      by (auto simp: with_value_def run_simps)
    with ee c have er: "result_ok er" "I s1"
      unfolding expr_eval_ok_def by (metis eval_m_okD)+
    show ?thesis
    proof (cases "has_errors er")
      case True
      with run Some ev er c show ?thesis
        by (auto simp: with_value_def exec_result_ok_def result_ok_def)
    next
      case False
      with run Some ev have "k (eval_value er) c s1 = Some ((r, c'), s')" by (simp add: with_value_def)
      with k [OF result_ok_value [OF er(1)]] c(1) er(2) show ?thesis by (rule exec_m_okD)
    qed
  qed
qed

lemma exec_block_ok:
  "\<forall>x. Some x \<in> set b \<longrightarrow> exec_m_ok I (exec_statement ee x) \<Longrightarrow> exec_m_ok I (exec_block ee b)"
proof (induction b)
  case Nil
  show ?case by (auto intro: exec_m_ok_return)
next
  case (Cons x b)
  then have IH: "exec_m_ok I (exec_block ee b)" by simp
  show ?case
  proof (cases x)
    case None
    then have "exec_block ee (x # b) = exec_block ee b" by (intro ext) simp
    with IH show ?thesis by simp
  next
    case (Some st)
    with Cons.prems have st: "exec_m_ok I (exec_statement ee st)" by simp
    show ?thesis unfolding exec_m_ok_def
    proof (intro allI impI)
      fix c s r c' s'
      assume c: "context_ok c" "I s" and run: "exec_block ee (x # b) c s = Some ((r, c'), s')"
      from run Some obtain r1 c1 s1 where r1: "exec_statement ee st c s = Some ((r1, c1), s1)"
        by (auto simp: run_simps)
      note ok = exec_m_okD [OF st c r1]
      with run Some r1 show "exec_result_ok r \<and> context_ok c' \<and> I s' \<and> same_frame c c'"
        using exec_m_okD [OF IH, of c1 s1 r c' s'] same_frame_trans by (auto split: if_splits)
    qed
  qed
qed

lemma exec_m_ok_if:
  "exec_m_ok I m \<Longrightarrow> exec_m_ok I m' \<Longrightarrow> exec_m_ok I (\<lambda>c s. if b then m c s else m' c s)"
  by (cases b) simp_all

lemma exec_m_ok_option:
  "(\<And>b. ob = Some b \<Longrightarrow> exec_m_ok I (exec_block ee b)) \<Longrightarrow>
    exec_m_ok I (\<lambda>c s. case ob of Some b \<Rightarrow> exec_block ee b c s | None \<Rightarrow> Some ((make_continue, c), s))"
  by (cases ob) (auto intro: exec_m_ok_return)

lemma exec_statement_ok:
  assumes ee: "expr_eval_ok I ee"
  shows "exec_m_ok I (exec_statement ee st)"
proof (induction st rule: statement_sub_induct)
  case (stmt st)
  show ?case
  proof (cases st)
    case (IfStatement cond t e)
    have blk: "exec_m_ok I (\<lambda>c s. case ob of Some b \<Rightarrow> exec_block ee b c s | None \<Rightarrow> Some ((make_continue, c), s))"
      if "ob = t \<or> ob = e" for ob
      using that stmt IfStatement by (auto intro!: exec_m_ok_option exec_block_ok)
    show ?thesis unfolding IfStatement exec_statement.simps [abs_def]
    proof (rule with_value_ok [OF ee])
      fix v assume "value_ok v"
      show "exec_m_ok I (\<lambda>c s. case v of
            BoolValue b \<Rightarrow>
              if b then (case t of Some blk \<Rightarrow> exec_block ee blk c s | None \<Rightarrow> Some ((make_continue, c), s))
              else (case e of Some blk \<Rightarrow> exec_block ee blk c s | None \<Rightarrow> Some ((make_continue, c), s))
          | _ \<Rightarrow> Some ((make_exec_error ''if condition must evaluate to Bool'', c), s))"
      proof (cases v)
        case (BoolValue b)
        then show ?thesis using blk [of t] blk [of e] by (cases b) simp_all
      qed (auto intro: exec_m_ok_return)
    qed
  next
    case (AssertStatement cond)
    show ?thesis unfolding AssertStatement exec_statement.simps [abs_def]
    proof (rule with_value_ok [OF ee])
      fix v
      show "exec_m_ok I (\<lambda>c s. case v of
            BoolValue b \<Rightarrow>
              if \<not> b then Some ((exec_ok (ExecAssertFailed ''assertion failed''), c), s)
              else Some ((make_continue, c), s)
          | _ \<Rightarrow> Some ((make_exec_error ''assert condition must evaluate to Bool'', c), s))"
        by (cases v) (auto intro: exec_m_ok_return simp: exec_m_ok_def)
    qed
  qed (auto intro!: exec_m_ok_if with_value_ok [OF ee] exec_m_ok_return exec_m_ok_local exec_m_ok_ctx)
qed

text \<open>A block is run statement by statement until one gives an error or leaves the block.\<close>

lemma exec_block_append:
  "exec_block ee (xs @ ys) c s =
    (case exec_block ee xs c s of
       None \<Rightarrow> None
     | Some ((r, c'), s') \<Rightarrow>
         if exec_has_errors r \<or> outcome r \<noteq> ExecContinue then Some ((r, c'), s')
         else exec_block ee ys c' s')"
proof (induction xs arbitrary: c s)
  case (Cons x xs)
  then show ?case by (cases x) (auto split: option.splits)
qed simp

lemma exec_block_after_goto:
  "exec_block ee (xs @ Some (GotoStatement t) # ys) c s = exec_block ee (xs @ [Some (GotoStatement t)]) c s"
  unfolding exec_block_append
  by (auto split: option.split)

lemma default_expr_eval_ok: "expr_eval_ok I None"
  by (auto simp: expr_eval_ok_def eval_expression_def eval_expr_def call_eval_ok_def
      intro: eval_expr_impl_ok)

subsection \<open>Definedness\<close>

text \<open>\<open>P\<close> holds of every expression of a statement.\<close>

fun statement_all :: "(expr \<Rightarrow> bool) \<Rightarrow> statement \<Rightarrow> bool" where
  "statement_all P (LetStatement n e) = pred_option P e"
| "statement_all P (AssignStatement t e) = pred_option P e"
| "statement_all P (IfStatement e t f) =
     (pred_option P e \<and> pred_option (list_all (pred_option (statement_all P))) t \<and>
      pred_option (list_all (pred_option (statement_all P))) f)"
| "statement_all P (GotoStatement t) = True"
| "statement_all P (ReturnStatement e) = pred_option P e"
| "statement_all P (AssertStatement e) = pred_option P e"
| "statement_all P (ExprStatement e) = pred_option P e"

abbreviation block_all :: "(expr \<Rightarrow> bool) \<Rightarrow> block \<Rightarrow> bool" where
  "block_all P b \<equiv> list_all (pred_option (statement_all P)) b"

definition exec_m_defined :: "'s exec_m \<Rightarrow> bool" where
  "exec_m_defined m \<longleftrightarrow> (\<forall>c s. m c s \<noteq> None)"

lemma with_value_defined:
  assumes "pred_option (\<lambda>x. \<forall>c. eval_m_defined (eval_expression ee x c)) e" "\<And>v. exec_m_defined (k v)"
  shows "exec_m_defined (\<lambda>c s. with_value ee m e k c s)"
  unfolding exec_m_defined_def
proof (intro allI)
  fix c s
  show "with_value ee m e k c s \<noteq> None"
  proof (cases e)
    case (Some x)
    with assms(1) obtain r s' where "eval_expression ee x c s = Some (r, s')"
      by (auto simp: eval_m_defined_def) (meson option.exhaust surj_pair)
    with Some assms(2) show ?thesis by (auto simp: with_value_def exec_m_defined_def)
  qed (simp add: with_value_def)
qed

lemma exec_block_defined:
  "\<forall>x. Some x \<in> set b \<longrightarrow> exec_m_defined (exec_statement ee x) \<Longrightarrow> exec_m_defined (exec_block ee b)"
proof (induction b)
  case (Cons x b)
  then have IH: "exec_m_defined (exec_block ee b)" by simp
  show ?case
  proof (cases x)
    case None
    then have "exec_block ee (x # b) = exec_block ee b" by (intro ext) simp
    with IH show ?thesis by simp
  next
    case (Some st)
    with Cons.prems have "exec_m_defined (exec_statement ee st)" by simp
    with IH Some show ?thesis by (simp add: exec_m_defined_def run_simps)
  qed
qed (simp add: exec_m_defined_def)

lemma exec_m_defined_return: "exec_m_defined (\<lambda>c s. Some ((r, g c), s))" "exec_m_defined (\<lambda>c s. Some ((r, c), s))"
  by (simp_all add: exec_m_defined_def)

lemma exec_statement_defined:
  assumes ee: "\<And>x c. P x \<Longrightarrow> eval_m_defined (eval_expression ee x c)"
  shows "statement_all P st \<Longrightarrow> exec_m_defined (exec_statement ee st)"
proof (induction st rule: statement_sub_induct)
  case (stmt st)
  have ev: "pred_option P e \<Longrightarrow> pred_option (\<lambda>x. \<forall>c. eval_m_defined (eval_expression ee x c)) e" for e
    using ee by (cases e) auto
  show ?case
  proof (cases st)
    case (IfStatement cond t e)
    have blk: "exec_m_defined (exec_block ee b)" if "t = Some b \<or> e = Some b" for b
    proof (rule exec_block_defined, intro allI impI)
      fix x assume x: "Some x \<in> set b"
      then have "statement_all P x" using that stmt.prems IfStatement by (auto simp: list_all_iff dest!: bspec [OF _ x])
      with x that stmt.IH IfStatement show "exec_m_defined (exec_statement ee x)" by auto
    qed
    have "pred_option P cond" using stmt.prems IfStatement by simp
    then show ?thesis unfolding IfStatement exec_statement.simps [abs_def]
      by (intro with_value_defined ev) (use blk in \<open>auto simp: exec_m_defined_def split: val.split option.split\<close>)
  next
    case (AssertStatement cond)
    then show ?thesis using stmt.prems unfolding AssertStatement exec_statement.simps [abs_def]
      by (intro with_value_defined ev) (auto simp: exec_m_defined_def split: val.split)
  next
    case (AssignStatement target e)
    then have "exec_m_defined (\<lambda>c s. with_value ee ''AssignStatement has null value expression'' e
          (\<lambda>v c s. Some ((make_continue, snd (assign_ctx (members target ! 0) v c)), s)) c s)"
      using stmt.prems by (intro with_value_defined ev) (auto simp: exec_m_defined_def)
    then show ?thesis by (auto simp: AssignStatement exec_m_defined_def)
  next
    case (ReturnStatement e)
    then have "exec_m_defined (\<lambda>c s. with_value ee [] e (\<lambda>v c s. Some ((exec_ok (ExecReturn v), c), s)) c s)"
      using stmt.prems by (intro with_value_defined ev) (auto simp: exec_m_defined_def)
    then show ?thesis by (auto simp: ReturnStatement exec_m_defined_def)
  qed (use stmt.prems in \<open>auto intro!: with_value_defined ev exec_m_defined_return\<close>)
qed

lemma exec_block_all_defined:
  "(\<And>x c. P x \<Longrightarrow> eval_m_defined (eval_expression ee x c)) \<Longrightarrow> block_all P b \<Longrightarrow>
    exec_m_defined (exec_block ee b)"
  by (rule exec_block_defined) (auto simp: list_all_iff intro!: exec_statement_defined [of P])

end
