(* ===== verification/Program_Index.thy ===== *)
theory Program_Index
  imports IR
begin

section \<open>The program index\<close>

text \<open>
  \<open>include/ahfl/compiler/ir/program_view.hpp\<close> and \<open>src/compiler/ir/program_view.cpp\<close>: the maps
  from canonical names and symbol ids to declarations that \<open>rebuild\<close> fills (the first
  declaration of a name wins), the lookups, and the topological order of the nodes of a
  workflow. A pointer to a declaration is the declaration.
\<close>

record program_index =
  agents_map :: "(string \<times> agent_decl) list"
  flows_by_agent :: "(string \<times> flow_decl) list"
  workflows_map :: "(string \<times> workflow_decl) list"
  capabilities_map :: "(string \<times> named_decl) list"
  structs_map :: "(string \<times> struct_decl) list"
  enums_map :: "(string \<times> enum_decl) list"
  decls_by_id :: "(nat \<times> decl) list"
  agents_in_order :: "agent_decl list"
  flows_in_order :: "flow_decl list"
  workflows_in_order :: "workflow_decl list"
  capabilities_in_order :: "named_decl list"
  structs_in_order :: "struct_decl list"
  enums_in_order :: "enum_decl list"

definition empty_index :: program_index where
  "empty_index =
     \<lparr>agents_map = [], flows_by_agent = [], workflows_map = [], capabilities_map = [],
      structs_map = [], enums_map = [], decls_by_id = [], agents_in_order = [],
      flows_in_order = [], workflows_in_order = [], capabilities_in_order = [],
      structs_in_order = [], enums_in_order = []\<rparr>"

definition index_id :: "symbol_ref \<Rightarrow> decl \<Rightarrow> program_index \<Rightarrow> program_index" where
  "index_id ref d ix =
     (case sym_id ref of
        None \<Rightarrow> ix
      | Some i \<Rightarrow> ix\<lparr>decls_by_id := emplace i d (decls_by_id ix)\<rparr>)"

text \<open>The visitor of one declaration.\<close>

definition index_decl :: "decl \<Rightarrow> program_index \<Rightarrow> program_index" where
  "index_decl d ix =
     (case d of
        AgentDecl a \<Rightarrow>
          index_id (agent_symbol a) d
            (ix\<lparr>agents_map := emplace (symbol_canonical_name (agent_symbol a) (agent_name a)) a (agents_map ix),
                agents_in_order := agents_in_order ix @ [a]\<rparr>)
      | FlowDecl f \<Rightarrow>
          ix\<lparr>flows_by_agent := emplace (symbol_canonical_name (flow_target f) []) f (flows_by_agent ix),
             flows_in_order := flows_in_order ix @ [f]\<rparr>
      | WorkflowDecl w \<Rightarrow>
          index_id (workflow_symbol w) d
            (ix\<lparr>workflows_map :=
                  emplace (symbol_canonical_name (workflow_symbol w) (workflow_name w)) w (workflows_map ix),
                workflows_in_order := workflows_in_order ix @ [w]\<rparr>)
      | CapabilityDecl n \<Rightarrow>
          index_id (decl_symbol n) d
            (ix\<lparr>capabilities_map :=
                  emplace (symbol_canonical_name (decl_symbol n) (decl_name n)) n (capabilities_map ix),
                capabilities_in_order := capabilities_in_order ix @ [n]\<rparr>)
      | StructDecl n \<Rightarrow>
          index_id (decl_symbol n) d
            (ix\<lparr>structs_map :=
                  emplace (symbol_canonical_name (decl_symbol n) (decl_name n)) n (structs_map ix),
                structs_in_order := structs_in_order ix @ [n]\<rparr>)
      | EnumDecl n \<Rightarrow>
          index_id (decl_symbol n) d
            (ix\<lparr>enums_map :=
                  emplace (symbol_canonical_name (decl_symbol n) (decl_name n)) n (enums_map ix),
                enums_in_order := enums_in_order ix @ [n]\<rparr>)
      | ConstDecl n \<Rightarrow> index_id (decl_symbol n) d ix
      | PredicateDecl n \<Rightarrow> index_id (decl_symbol n) d ix
      | TypeAliasDecl n \<Rightarrow> index_id (decl_symbol n) d ix
      | ModuleDecl _ \<Rightarrow> ix
      | ImportDecl _ _ \<Rightarrow> ix
      | ContractDecl _ \<Rightarrow> ix)"

definition rebuild :: "decl list \<Rightarrow> program_index" where
  "rebuild ds = foldl (\<lambda>ix d. index_decl d ix) empty_index ds"

definition find_decl_by_id :: "program_index \<Rightarrow> nat \<Rightarrow> decl option" where
  "find_decl_by_id ix i = map_of (decls_by_id ix) i"

definition find_agent :: "program_index \<Rightarrow> string \<Rightarrow> agent_decl option" where
  "find_agent ix n = map_of (agents_map ix) n"

definition find_flow_for_agent :: "program_index \<Rightarrow> string \<Rightarrow> flow_decl option" where
  "find_flow_for_agent ix n = map_of (flows_by_agent ix) n"

definition find_workflow :: "program_index \<Rightarrow> string \<Rightarrow> workflow_decl option" where
  "find_workflow ix n = map_of (workflows_map ix) n"

definition find_capability :: "program_index \<Rightarrow> string \<Rightarrow> named_decl option" where
  "find_capability ix n = map_of (capabilities_map ix) n"

definition find_struct :: "program_index \<Rightarrow> string \<Rightarrow> struct_decl option" where
  "find_struct ix n = map_of (structs_map ix) n"

definition find_enum :: "program_index \<Rightarrow> string \<Rightarrow> enum_decl option" where
  "find_enum ix n = map_of (enums_map ix) n"

definition find_decl_by_symbol_ref :: "program_index \<Rightarrow> symbol_ref \<Rightarrow> decl option" where
  "find_decl_by_symbol_ref ix ref =
     (case sym_id ref of None \<Rightarrow> None | Some i \<Rightarrow> find_decl_by_id ix i)"

subsection \<open>Topological order\<close>

text \<open>
  \<open>unlock\<close> is the loop over the candidates after a node was processed: it decrements the
  counters of the unprocessed successors and appends those that became ready.
\<close>

definition count_down :: "string \<Rightarrow> string list \<Rightarrow> nat \<Rightarrow> nat" where
  "count_down name deps remaining =
     foldl (\<lambda>r d. if d \<noteq> name then r else if r > 0 then r - 1 else r) remaining deps"

fun unlock ::
  "string \<Rightarrow> (string \<Rightarrow> bool) \<Rightarrow> workflow_node list \<Rightarrow> (string \<Rightarrow> nat) \<Rightarrow> workflow_node list \<Rightarrow>
    (string \<Rightarrow> nat) \<times> workflow_node list" where
  "unlock name processed [] remaining ready = (remaining, ready)"
| "unlock name processed (c # cs) remaining ready =
     (if processed (node_name c) then unlock name processed cs remaining ready
      else
        (let remaining' =
               remaining(node_name c := count_down name (after c) (remaining (node_name c)))
         in unlock name processed cs remaining'
              (if name \<in> set (after c) \<and> remaining' (node_name c) = 0 then ready @ [c] else ready)))"

text \<open>
  The main loop, with the unread part of \<open>ready\<close> as a queue. Every iteration processes a new
  name or shortens the queue.
\<close>

lemma unlock_queue:
  "set (snd (unlock name processed cs remaining ready)) \<subseteq> set ready \<union> set cs"
proof (induction cs arbitrary: remaining ready)
  case (Cons c cs)
  show ?case
  proof (cases "processed (node_name c)")
    case True
    with Cons.IH [of remaining ready] show ?thesis by auto
  next
    case False
    define rem where "rem = remaining(node_name c := count_down name (after c) (remaining (node_name c)))"
    define ready' where "ready' = (if name \<in> set (after c) \<and> rem (node_name c) = 0 then ready @ [c] else ready)"
    from False have "unlock name processed (c # cs) remaining ready = unlock name processed cs rem ready'"
      by (simp add: Let_def rem_def ready'_def)
    moreover have "set ready' \<subseteq> set ready \<union> {c}" by (auto simp: ready'_def)
    ultimately show ?thesis using Cons.IH [of rem ready'] by auto
  qed
qed simp

function topo_loop ::
  "workflow_node list \<Rightarrow> (string \<Rightarrow> nat) \<Rightarrow> workflow_node list \<Rightarrow> workflow_node list \<Rightarrow>
    string list \<Rightarrow> workflow_node list" where
  "topo_loop ns remaining [] order processed = order"
| "topo_loop ns remaining (n # ready) order processed =
     (if node_name n \<in> set processed then topo_loop ns remaining ready order processed
      else
        (case unlock (node_name n) (\<lambda>m. m \<in> set (node_name n # processed)) ns remaining ready of
           (remaining', ready') \<Rightarrow>
             topo_loop ns remaining' ready' (order @ [n]) (node_name n # processed)))"
  by pat_completeness auto
termination
proof (relation "measures [\<lambda>(ns, _, ready, _, processed).
      card (node_name ` (set ns \<union> set ready) - set processed), \<lambda>(_, _, ready, _, _). length ready]",
    goal_cases)
  case 1
  show ?case by simp
next
  case (2 ns remaining n ready order processed)
  then have "node_name ` (set ns \<union> set (n # ready)) - set processed =
      node_name ` (set ns \<union> set ready) - set processed" by auto
  then show ?case by simp
next
  case (3 ns remaining n ready order processed remaining' ready')
  have "set ready' \<subseteq> set ready \<union> set ns"
    using unlock_queue [of "node_name n" "\<lambda>m. m \<in> set (node_name n # processed)" ns remaining ready] 3
    by (metis snd_conv)
  then have "node_name ` (set ns \<union> set ready') - set (node_name n # processed) \<subset>
      node_name ` (set ns \<union> set (n # ready)) - set processed"
    using 3(1) by auto
  then have "card (node_name ` (set ns \<union> set ready') - set (node_name n # processed)) <
      card (node_name ` (set ns \<union> set (n # ready)) - set processed)"
    by (rule psubset_card_mono [rotated]) simp
  then show ?case by simp
qed

definition initial_remaining :: "workflow_node list \<Rightarrow> string \<Rightarrow> nat" where
  "initial_remaining ns m =
     (case map_of (foldl (\<lambda>acc n. emplace (node_name n) (length (after n)) acc) [] ns) m of
        None \<Rightarrow> 0 | Some k \<Rightarrow> k)"

definition topological_order :: "workflow_decl \<Rightarrow> workflow_node list" where
  "topological_order w =
     topo_loop (nodes w) (initial_remaining (nodes w)) (filter (\<lambda>n. after n = []) (nodes w)) [] []"

definition has_unresolved_or_cyclic_dependencies :: "workflow_decl \<Rightarrow> bool" where
  "has_unresolved_or_cyclic_dependencies w \<longleftrightarrow> length (topological_order w) \<noteq> length (nodes w)"

subsection \<open>Lookups\<close>

text \<open>A lookup by name gives the first declaration of that name.\<close>

lemma map_of_foldl_emplace:
  "map_of (foldl (\<lambda>acc x. emplace (f x) (g x) acc) acc xs) k =
    (case map_of acc k of
       Some v \<Rightarrow> Some v
     | None \<Rightarrow> map_option g (find (\<lambda>x. f x = k) xs))"
proof (induction xs arbitrary: acc)
  case (Cons x xs)
  have "k \<in> set (keys_of acc) \<longleftrightarrow> map_of acc k \<noteq> None" by (simp add: map_of_eq_None_keys)
  then show ?case
    by (auto simp: Cons.IH map_of_emplace fun_upd_def split: option.splits)
qed (simp split: option.split)

definition agents_of :: "decl list \<Rightarrow> agent_decl list" where
  "agents_of ds = List.map_filter (\<lambda>d. case d of AgentDecl a \<Rightarrow> Some a | _ \<Rightarrow> None) ds"

definition flows_of :: "decl list \<Rightarrow> flow_decl list" where
  "flows_of ds = List.map_filter (\<lambda>d. case d of FlowDecl f \<Rightarrow> Some f | _ \<Rightarrow> None) ds"

definition workflows_of :: "decl list \<Rightarrow> workflow_decl list" where
  "workflows_of ds = List.map_filter (\<lambda>d. case d of WorkflowDecl w \<Rightarrow> Some w | _ \<Rightarrow> None) ds"

definition structs_of :: "decl list \<Rightarrow> struct_decl list" where
  "structs_of ds = List.map_filter (\<lambda>d. case d of StructDecl n \<Rightarrow> Some n | _ \<Rightarrow> None) ds"

definition enums_of :: "decl list \<Rightarrow> enum_decl list" where
  "enums_of ds = List.map_filter (\<lambda>d. case d of EnumDecl n \<Rightarrow> Some n | _ \<Rightarrow> None) ds"

abbreviation decl_key :: "'a named_decl_scheme \<Rightarrow> string" where
  "decl_key d \<equiv> symbol_canonical_name (decl_symbol d) (decl_name d)"

abbreviation agent_key :: "agent_decl \<Rightarrow> string" where
  "agent_key a \<equiv> symbol_canonical_name (agent_symbol a) (agent_name a)"

abbreviation flow_key :: "flow_decl \<Rightarrow> string" where
  "flow_key f \<equiv> symbol_canonical_name (flow_target f) []"

abbreviation workflow_key :: "workflow_decl \<Rightarrow> string" where
  "workflow_key w \<equiv> symbol_canonical_name (workflow_symbol w) (workflow_name w)"

lemma index_id_maps [simp]:
  "agents_map (index_id r d ix) = agents_map ix" "flows_by_agent (index_id r d ix) = flows_by_agent ix"
  "workflows_map (index_id r d ix) = workflows_map ix"
  "agents_in_order (index_id r d ix) = agents_in_order ix"
  "workflows_in_order (index_id r d ix) = workflows_in_order ix"
  "flows_in_order (index_id r d ix) = flows_in_order ix"
  "structs_map (index_id r d ix) = structs_map ix" "structs_in_order (index_id r d ix) = structs_in_order ix"
  "enums_map (index_id r d ix) = enums_map ix" "enums_in_order (index_id r d ix) = enums_in_order ix"
  by (simp_all add: index_id_def split: option.split)

lemma foldl_index_decl:
  "agents_map (foldl (\<lambda>ix d. index_decl d ix) ix ds) =
    foldl (\<lambda>acc a. emplace (agent_key a) a acc) (agents_map ix) (agents_of ds)"
  "flows_by_agent (foldl (\<lambda>ix d. index_decl d ix) ix ds) =
    foldl (\<lambda>acc f. emplace (flow_key f) f acc) (flows_by_agent ix) (flows_of ds)"
  "workflows_map (foldl (\<lambda>ix d. index_decl d ix) ix ds) =
    foldl (\<lambda>acc w. emplace (workflow_key w) w acc) (workflows_map ix) (workflows_of ds)"
  "structs_map (foldl (\<lambda>ix d. index_decl d ix) ix ds) =
    foldl (\<lambda>acc d. emplace (decl_key d) d acc) (structs_map ix) (structs_of ds)"
  "enums_map (foldl (\<lambda>ix d. index_decl d ix) ix ds) =
    foldl (\<lambda>acc d. emplace (decl_key d) d acc) (enums_map ix) (enums_of ds)"
  "structs_in_order (foldl (\<lambda>ix d. index_decl d ix) ix ds) = structs_in_order ix @ structs_of ds"
  "enums_in_order (foldl (\<lambda>ix d. index_decl d ix) ix ds) = enums_in_order ix @ enums_of ds"
  by (induction ds arbitrary: ix;
      simp add: index_decl_def agents_of_def flows_of_def workflows_of_def structs_of_def enums_of_def
        map_filter_simps split: decl.split)+

lemma find_agent_rebuild: "find_agent (rebuild ds) k = find (\<lambda>a. agent_key a = k) (agents_of ds)"
  and find_flow_rebuild: "find_flow_for_agent (rebuild ds) k = find (\<lambda>f. flow_key f = k) (flows_of ds)"
  and find_workflow_rebuild: "find_workflow (rebuild ds) k = find (\<lambda>w. workflow_key w = k) (workflows_of ds)"
  by (simp_all add: find_agent_def find_flow_for_agent_def find_workflow_def rebuild_def foldl_index_decl
      map_of_foldl_emplace empty_index_def option.map_ident)

lemma find_struct_rebuild: "find_struct (rebuild ds) k = find (\<lambda>d. decl_key d = k) (structs_of ds)"
  and find_enum_rebuild: "find_enum (rebuild ds) k = find (\<lambda>d. decl_key d = k) (enums_of ds)"
  and structs_in_order_rebuild: "structs_in_order (rebuild ds) = structs_of ds"
  and enums_in_order_rebuild: "enums_in_order (rebuild ds) = enums_of ds"
  by (simp_all add: find_struct_def find_enum_def rebuild_def foldl_index_decl
      map_of_foldl_emplace empty_index_def option.map_ident)

subsection \<open>Correctness of the topological order\<close>

lemma count_down_eq: "count_down name deps r = r - count_list deps name"
  unfolding count_down_def by (induction deps arbitrary: r) auto

lemma filter_insert_length:
  "name \<notin> Q \<Longrightarrow> length (filter (\<lambda>d. d \<notin> insert name Q) deps) =
    length (filter (\<lambda>d. d \<notin> Q) deps) - count_list deps name"
proof (induction deps)
  case (Cons d deps)
  moreover have "count_list deps name \<le> length (filter (\<lambda>d. d \<notin> Q) deps)"
    using Cons.prems by (induction deps) auto
  ultimately show ?case by auto
qed simp

lemma unlock_spec:
  assumes "distinct (map node_name cs)" "unlock name P cs rem ready = (rem', ready')"
  shows "(\<forall>m. m \<notin> node_name ` set cs \<longrightarrow> rem' m = rem m) \<and>
    (\<forall>c \<in> set cs. \<not> P (node_name c) \<longrightarrow>
      rem' (node_name c) = count_down name (after c) (rem (node_name c))) \<and>
    ready' = ready @ filter (\<lambda>c. \<not> P (node_name c) \<and> name \<in> set (after c) \<and>
      count_down name (after c) (rem (node_name c)) = 0) cs"
  using assms
proof (induction cs arbitrary: rem ready)
  case (Cons c cs)
  show ?case
  proof (cases "P (node_name c)")
    case True
    with Cons.prems Cons.IH [of rem ready] show ?thesis by auto
  next
    case False
    define rem1 where "rem1 = rem(node_name c := count_down name (after c) (rem (node_name c)))"
    define ready1 where "ready1 = (if name \<in> set (after c) \<and> rem1 (node_name c) = 0 then ready @ [c] else ready)"
    have "unlock name P cs rem1 ready1 = (rem', ready')"
      using Cons.prems(2) False by (simp add: Let_def rem1_def ready1_def)
    note IH = Cons.IH [OF _ this]
    have other: "c' \<in> set cs \<Longrightarrow> rem1 (node_name c') = rem (node_name c')" for c'
      using Cons.prems(1) by (auto simp: rem1_def) (metis imageI)
    have "filter (\<lambda>c. \<not> P (node_name c) \<and> name \<in> set (after c) \<and>
        count_down name (after c) (rem1 (node_name c)) = 0) cs =
      filter (\<lambda>c. \<not> P (node_name c) \<and> name \<in> set (after c) \<and>
        count_down name (after c) (rem (node_name c)) = 0) cs"
      by (rule filter_cong) (auto simp: other)
    with IH Cons.prems(1) False other show ?thesis
      by (auto simp: ready1_def) (auto simp: rem1_def)
  qed
qed simp

definition topo_inv ::
  "workflow_node list \<Rightarrow> (string \<Rightarrow> nat) \<Rightarrow> workflow_node list \<Rightarrow> workflow_node list \<Rightarrow> string list \<Rightarrow> bool" where
  "topo_inv ns rem ready order processed \<longleftrightarrow>
     set processed = node_name ` set order \<and> distinct (map node_name order) \<and> set order \<subseteq> set ns \<and>
     (\<forall>n \<in> set ns. node_name n \<notin> set processed \<longrightarrow>
        rem (node_name n) = length (filter (\<lambda>d. d \<notin> set processed) (after n))) \<and>
     set ready = {n \<in> set ns. node_name n \<notin> set processed \<and> set (after n) \<subseteq> set processed} \<and>
     distinct ready \<and>
     (\<forall>i < length order. set (after (order ! i)) \<subseteq> node_name ` set (take i order))"

lemma topo_inv_step:
  assumes ns: "distinct (map node_name ns)" and inv: "topo_inv ns rem (n # ready) order processed"
    and unl: "unlock (node_name n) (\<lambda>m. m \<in> set (node_name n # processed)) ns rem ready = (rem', ready')"
  shows "node_name n \<notin> set processed \<and> topo_inv ns rem' ready' (order @ [n]) (node_name n # processed)"
proof -
  let ?Q = "set processed" and ?N = "node_name n"
  from inv have n_ready: "insert n (set ready) = {m \<in> set ns. node_name m \<notin> ?Q \<and> set (after m) \<subseteq> ?Q}"
    by (simp add: topo_inv_def)
  then have "n \<in> {m \<in> set ns. node_name m \<notin> ?Q \<and> set (after m) \<subseteq> ?Q}" by auto
  moreover have "n \<notin> set ready" "distinct ready" using inv by (auto simp: topo_inv_def)
  moreover from n_ready \<open>n \<notin> set ready\<close>
  have "set ready = {m \<in> set ns. node_name m \<notin> ?Q \<and> set (after m) \<subseteq> ?Q} - {n}" by auto
  ultimately have new: "?N \<notin> ?Q" and n: "n \<in> set ns" "set (after n) \<subseteq> ?Q" "n \<notin> set ready" "distinct ready"
    and ready: "set ready = {m \<in> set ns. node_name m \<notin> ?Q \<and> set (after m) \<subseteq> ?Q} - {n}"
    by simp_all
  have order: "?Q = node_name ` set order" "distinct (map node_name order)" "set order \<subseteq> set ns"
    and rem: "\<And>m. m \<in> set ns \<Longrightarrow> node_name m \<notin> ?Q \<Longrightarrow>
        rem (node_name m) = length (filter (\<lambda>d. d \<notin> ?Q) (after m))"
    and before: "\<forall>i < length order. set (after (order ! i)) \<subseteq> node_name ` set (take i order)"
    using inv by (auto simp: topo_inv_def)
  have inj: "m \<in> set ns \<Longrightarrow> node_name m = ?N \<longleftrightarrow> m = n" for m
    using ns n(1) by (auto simp: distinct_map dest: inj_onD)
  have cd: "count_down ?N (after m) (rem (node_name m)) = length (filter (\<lambda>d. d \<notin> insert ?N ?Q) (after m))"
    if "m \<in> set ns" "node_name m \<notin> ?Q" for m
    using rem [OF that] filter_insert_length [OF new, of "after m"] by (simp add: count_down_eq)
  note spec = unlock_spec [OF ns unl]
  have rem': "rem' (node_name m) = length (filter (\<lambda>d. d \<notin> insert ?N ?Q) (after m))"
    if "m \<in> set ns" "node_name m \<notin> insert ?N ?Q" for m
    using spec that cd by auto
  let ?F = "filter (\<lambda>c. node_name c \<notin> insert ?N ?Q \<and> ?N \<in> set (after c) \<and>
      count_down ?N (after c) (rem (node_name c)) = 0) ns"
  have ready': "ready' = ready @ ?F" using spec by simp
  have F: "set ?F = {m \<in> set ns. node_name m \<notin> insert ?N ?Q \<and> ?N \<in> set (after m) \<and> set (after m) \<subseteq> insert ?N ?Q}"
    using cd by (auto simp: filter_empty_conv)
  have "set ready' = {m \<in> set ns. node_name m \<notin> insert ?N ?Q \<and> set (after m) \<subseteq> insert ?N ?Q}"
    unfolding ready' set_append F ready using inj new by auto
  moreover have "distinct ready'"
    using n(4) ns new F ready by (auto simp: ready' distinct_map)
  moreover have "distinct (map node_name (order @ [n]))" using order new by auto
  moreover have "\<forall>i < length (order @ [n]). set (after ((order @ [n]) ! i)) \<subseteq> node_name ` set (take i (order @ [n]))"
    using before n(2) order(1) by (auto simp: nth_append less_Suc_eq)
  ultimately show ?thesis
    using new rem' order n(1) unfolding topo_inv_def by auto
qed

lemma topo_loop_inv:
  assumes "distinct (map node_name ns)" "topo_inv ns rem ready order processed"
  shows "\<exists>rem' processed'. topo_inv ns rem' [] (topo_loop ns rem ready order processed) processed'"
  using assms
proof (induction ns rem ready order processed rule: topo_loop.induct)
  case (1 ns rem order processed)
  then show ?case by auto
next
  case (2 ns rem n ready order processed)
  obtain rem' ready' where
    unl: "unlock (node_name n) (\<lambda>m. m \<in> set (node_name n # processed)) ns rem ready = (rem', ready')"
    by (metis surj_pair)
  note step = topo_inv_step [OF "2.prems" unl]
  then have "topo_loop ns rem (n # ready) order processed =
      topo_loop ns rem' ready' (order @ [n]) (node_name n # processed)" using unl by simp
  with "2.IH"(2) step "2.prems"(1) unl show ?case by metis
qed

lemma topo_inv_initial:
  assumes "distinct (map node_name ns)"
  shows "topo_inv ns (initial_remaining ns) (filter (\<lambda>n. after n = []) ns) [] []"
proof -
  have "initial_remaining ns (node_name n) = length (after n)" if "n \<in> set ns" for n
  proof -
    have "find (\<lambda>m. node_name m = node_name n) ns = Some n"
      using assms that by (induction ns) (auto dest: imageI [of n _ node_name])
    then show ?thesis by (simp add: initial_remaining_def map_of_foldl_emplace)
  qed
  then show ?thesis using assms by (auto simp: topo_inv_def distinct_map)
qed

lemma topological_order_inv:
  assumes "distinct (map node_name (nodes w))"
  shows "\<exists>rem processed. topo_inv (nodes w) rem [] (topological_order w) processed"
  using topo_loop_inv [OF assms topo_inv_initial [OF assms]] by (simp add: topological_order_def)

lemma topo_inv_remaining:
  "topo_inv ns rem ready order processed \<Longrightarrow> m \<in> set ns \<Longrightarrow> node_name m \<notin> set processed \<Longrightarrow>
    rem (node_name m) = length (filter (\<lambda>d. d \<notin> set processed) (after m))"
  by (simp add: topo_inv_def)

lemma topo_inv_ready:
  "topo_inv ns rem ready order processed \<Longrightarrow> n \<in> set ready \<Longrightarrow>
    n \<in> set ns \<and> node_name n \<notin> set processed \<and> set (after n) \<subseteq> set processed"
  unfolding topo_inv_def by blast

text \<open>
  A node is resolvable when every dependency names a resolvable node: the nodes the order
  contains. All nodes are when the dependencies are declared nodes and acyclic.
\<close>

inductive resolvable :: "workflow_node list \<Rightarrow> workflow_node \<Rightarrow> bool" for ns where
  resolve: "n \<in> set ns \<Longrightarrow> (\<And>d. d \<in> set (after n) \<Longrightarrow> \<exists>m. resolvable ns m \<and> node_name m = d) \<Longrightarrow> resolvable ns n"

definition depends :: "workflow_node list \<Rightarrow> (string \<times> string) set" where
  "depends ns = {(d, node_name n) |d n. n \<in> set ns \<and> d \<in> set (after n)}"

definition deps_declared :: "workflow_node list \<Rightarrow> bool" where
  "deps_declared ns \<longleftrightarrow> (\<forall>n \<in> set ns. set (after n) \<subseteq> node_name ` set ns)"

lemma topo_inv_resolvable:
  assumes inv: "topo_inv ns rem [] order processed" and ns: "distinct (map node_name ns)"
  shows "set order = {n. resolvable ns n}"
proof (intro equalityI subsetI CollectI)
  have "i < length order \<Longrightarrow> resolvable ns (order ! i)" for i
  proof (induction i rule: less_induct)
    case (less i)
    show ?case
    proof (rule resolvable.resolve)
      show "order ! i \<in> set ns" using inv less.prems by (auto simp: topo_inv_def)
      fix d assume "d \<in> set (after (order ! i))"
      then have "d \<in> node_name ` set (take i order)" using inv less.prems by (auto simp: topo_inv_def)
      then obtain j where "j < i" "j < length order" "d = node_name (order ! j)"
        by (auto simp: in_set_conv_nth)
      then show "\<exists>m. resolvable ns m \<and> node_name m = d" using less.IH by blast
    qed
  qed
  then show "resolvable ns n" if "n \<in> set order" for n using that by (auto simp: in_set_conv_nth)
next
  fix n assume "n \<in> {n. resolvable ns n}"
  then have "resolvable ns n" by simp
  then show "n \<in> set order"
  proof (induction rule: resolvable.induct)
    case (resolve n)
    then have "set (after n) \<subseteq> set processed" using inv by (force simp: topo_inv_def)
    with resolve(1) inv have "node_name n \<in> node_name ` set order" by (auto simp: topo_inv_def)
    then obtain m where "m \<in> set order" "node_name m = node_name n" by auto
    moreover from this have "m \<in> set ns" using inv by (auto simp: topo_inv_def)
    ultimately show ?case using ns resolve(1) by (auto simp: distinct_map dest: inj_onD)
  qed
qed

lemma finite_depends: "finite (depends ns)"
proof -
  have "depends ns = (\<Union>n \<in> set ns. (\<lambda>d. (d, node_name n)) ` set (after n))" by (auto simp: depends_def)
  then show ?thesis by simp
qed

lemma resolvable_iff:
  assumes ns: "distinct (map node_name ns)"
  shows "(\<forall>n \<in> set ns. resolvable ns n) \<longleftrightarrow> deps_declared ns \<and> acyclic (depends ns)"
proof
  assume all: "\<forall>n \<in> set ns. resolvable ns n"
  have "deps_declared ns" unfolding deps_declared_def
  proof (intro ballI subsetI)
    fix n d assume "n \<in> set ns" "d \<in> set (after n)"
    with all obtain m where "resolvable ns m" "node_name m = d" by (metis resolvable.cases)
    then show "d \<in> node_name ` set ns" by (metis imageI resolvable.cases)
  qed
  moreover have "acyclic (depends ns)"
  proof -
    have "(node_name n, node_name n) \<notin> (depends ns)\<^sup>+" if "resolvable ns n" for n
      using that
    proof (induction rule: resolvable.induct)
      case (resolve n)
      show ?case
      proof
        assume "(node_name n, node_name n) \<in> (depends ns)\<^sup>+"
        then obtain d where d: "(node_name n, d) \<in> (depends ns)\<^sup>*" "(d, node_name n) \<in> depends ns"
          by (metis tranclD2)
        then obtain n' where "n' \<in> set ns" "node_name n' = node_name n" "d \<in> set (after n')"
          by (auto simp: depends_def)
        with ns resolve(1) have "d \<in> set (after n)" by (auto simp: distinct_map dest: inj_onD)
        with resolve(2) have "(d, d) \<notin> (depends ns)\<^sup>+" by auto
        moreover have "(d, d) \<in> (depends ns)\<^sup>+" using d by (meson rtrancl_into_trancl2)
        ultimately show False by simp
      qed
    qed
    moreover have "x \<in> node_name ` set ns" if "(y, x) \<in> (depends ns)\<^sup>+" for x y
      using that by (induction rule: trancl.induct) (auto simp: depends_def)
    ultimately show ?thesis using all by (auto simp: acyclic_def) blast
  qed
  ultimately show "deps_declared ns \<and> acyclic (depends ns)" by simp
next
  assume dag: "deps_declared ns \<and> acyclic (depends ns)"
  then have wf: "wf (depends ns)" by (simp add: finite_acyclic_wf finite_depends)
  have "\<forall>n \<in> set ns. node_name n = x \<longrightarrow> resolvable ns n" for x
    using wf
  proof (induction x rule: wf_induct_rule)
    case (less x)
    show ?case
    proof (intro ballI impI)
      fix n assume n: "n \<in> set ns" "node_name n = x"
      show "resolvable ns n"
      proof (rule resolvable.resolve [OF n(1)])
        fix d assume d: "d \<in> set (after n)"
        with n dag obtain m where "m \<in> set ns" "node_name m = d" by (auto simp: deps_declared_def)
        moreover have "(d, x) \<in> depends ns" using n d by (auto simp: depends_def)
        ultimately show "\<exists>m. resolvable ns m \<and> node_name m = d" using less by blast
      qed
    qed
  qed
  then show "\<forall>n \<in> set ns. resolvable ns n" by blast
qed

text \<open>The properties of the order, for a workflow with distinct node names.\<close>

lemma topological_order_props:
  assumes "distinct (map node_name (nodes w))"
  shows "distinct (map node_name (topological_order w))"
    and "set (topological_order w) = {n. resolvable (nodes w) n}"
    and "i < length (topological_order w) \<Longrightarrow>
      set (after (topological_order w ! i)) \<subseteq> node_name ` set (take i (topological_order w))"
proof -
  obtain rem processed where inv: "topo_inv (nodes w) rem [] (topological_order w) processed"
    using topological_order_inv [OF assms] by blast
  show "distinct (map node_name (topological_order w))"
    and "i < length (topological_order w) \<Longrightarrow>
      set (after (topological_order w ! i)) \<subseteq> node_name ` set (take i (topological_order w))"
    using inv unfolding topo_inv_def by blast+
  show "set (topological_order w) = {n. resolvable (nodes w) n}"
    by (rule topo_inv_resolvable [OF inv assms])
qed

lemma has_unresolved_or_cyclic_iff:
  assumes ns: "distinct (map node_name (nodes w))"
  shows "has_unresolved_or_cyclic_dependencies w \<longleftrightarrow>
    \<not> (deps_declared (nodes w) \<and> acyclic (depends (nodes w)))"
proof -
  let ?o = "topological_order w"
  have o: "set ?o = {n. resolvable (nodes w) n}" "distinct ?o"
    using topological_order_props [OF ns] by (auto simp: distinct_map)
  then have sub: "set ?o \<subseteq> set (nodes w)" by (auto elim: resolvable.cases)
  have "length ?o = length (nodes w) \<longleftrightarrow> card (set ?o) = card (set (nodes w))"
    using o(2) ns by (simp add: distinct_card distinct_map)
  also have "\<dots> \<longleftrightarrow> set ?o = set (nodes w)" using sub by (metis List.finite_set card_subset_eq)
  also have "\<dots> \<longleftrightarrow> (\<forall>n \<in> set (nodes w). resolvable (nodes w) n)" using o(1) sub by auto
  finally show ?thesis
    using resolvable_iff [OF ns] by (simp add: has_unresolved_or_cyclic_dependencies_def)
qed

end
