(* ===== verification/Agent_Runtime.thy ===== *)
theory Agent_Runtime
  imports Capability Executor Program_Index
begin

section \<open>The agent runtime\<close>

text \<open>
  \<open>src/runtime/engine/agent_runtime.{hpp,cpp}\<close>: an agent is a declared state machine whose
  states have handlers; the runtime runs the handler of the current state, follows its goto if
  the transition is declared, and stops at a return, an error, an exhausted quota or a state
  visited more than 100 times. The main loop is a total function: only declared targets are
  entered, each at most 100 times. \<open>env\<close> is the steady clock of the world.
\<close>

datatype agent_status =
  AgentRunning | AgentCompleted | AgentFailed | AgentQuotaExceeded | AgentInvalidTransition
| AgentInfiniteLoop

record agent_stats =
  state_transitions :: nat
  tool_calls :: nat
  start_time :: int
  end_time :: int

definition elapsed_ms :: "agent_stats \<Rightarrow> int" where
  "elapsed_ms st = trunc_div (end_time st - start_time st) 1000000"

record agent_result =
  agent_status :: agent_status
  agent_output :: "val option"
  current_state_name :: string
  visited_states :: "string list"
  agent_stats :: agent_stats
  agent_diags :: diagnostic_bag

definition is_terminal :: "agent_result \<Rightarrow> bool" where
  "is_terminal r \<longleftrightarrow> agent_status r \<noteq> AgentRunning"

record quota_config =
  max_state_transitions :: "nat option"
  max_tool_calls :: "nat option"
  max_execution_time :: "int option"

definition empty_quota :: quota_config where
  "empty_quota =
     \<lparr>max_state_transitions = None, max_tool_calls = None, max_execution_time = None\<rparr>"

subsection \<open>Quotas\<close>

text \<open>
  The number of a duration is a \<open>size_t\<close>: seconds are multiplied by 1000 modulo \<open>2^64\<close>, and the
  count becomes the signed count of milliseconds.
\<close>

definition size_to_ms :: "int \<Rightarrow> int" where
  "size_to_ms n = to_int64 (n mod 2 ^ 64)"

definition parse_duration :: "string \<Rightarrow> int option" where
  "parse_duration v =
     (if ends_with v ''ms'' then
        (case from_chars_size (take (length v - 2) v) of
           ScanValue n \<Rightarrow> Some (size_to_ms (int n)) | _ \<Rightarrow> None)
      else if ends_with v ''s'' then
        (case from_chars_size (take (length v - 1) v) of
           ScanValue n \<Rightarrow> Some (size_to_ms (int n * 1000)) | _ \<Rightarrow> None)
      else None)"

definition parse_quota_item :: "quota_config \<Rightarrow> quota_item \<Rightarrow> quota_config" where
  "parse_quota_item q item =
     (if quota_name item = ''max_state_transitions'' then
        (case from_chars_size (quota_value item) of
           ScanValue n \<Rightarrow> q\<lparr>max_state_transitions := Some n\<rparr> | _ \<Rightarrow> q)
      else if quota_name item = ''max_tool_calls'' then
        (case from_chars_size (quota_value item) of
           ScanValue n \<Rightarrow> q\<lparr>max_tool_calls := Some n\<rparr> | _ \<Rightarrow> q)
      else if quota_name item = ''max_execution_time'' then
        (case parse_duration (quota_value item) of
           Some ms \<Rightarrow> q\<lparr>max_execution_time := Some ms\<rparr> | None \<Rightarrow> q)
      else q)"

definition parse_quota :: "quota_item list \<Rightarrow> quota_config" where
  "parse_quota items = foldl parse_quota_item empty_quota items"

subsection \<open>Construction\<close>

record 's agent_runtime =
  rt_agent :: agent_decl
  rt_flow :: flow_decl
  rt_quota :: quota_config
  capability_invoker :: "'s invoker option"
  contextual_capability_invoker :: "'s contextual_invoker option"
  rt_invocation_context :: invocation_context

definition or_else :: "'a option \<Rightarrow> 'a option \<Rightarrow> 'a option" where
  "or_else x y = (case x of None \<Rightarrow> y | Some _ \<Rightarrow> x)"

definition make_agent_runtime :: "agent_decl \<Rightarrow> flow_decl \<Rightarrow> quota_config \<Rightarrow> 's agent_runtime" where
  "make_agent_runtime agent flow q =
     (let parsed = parse_quota (quota agent)
      in \<lparr>rt_agent = agent, rt_flow = flow,
          rt_quota =
            \<lparr>max_state_transitions = or_else (max_state_transitions q) (max_state_transitions parsed),
             max_tool_calls = or_else (max_tool_calls q) (max_tool_calls parsed),
             max_execution_time = or_else (max_execution_time q) (max_execution_time parsed)\<rparr>,
          capability_invoker = None, contextual_capability_invoker = None,
          rt_invocation_context = empty_invocation_context\<rparr>)"

text \<open>An empty \<open>std::function\<close> is \<^const>\<open>None\<close>.\<close>

definition set_capability_invoker :: "'s invoker option \<Rightarrow> 's agent_runtime \<Rightarrow> 's agent_runtime" where
  "set_capability_invoker f rt = rt\<lparr>capability_invoker := f\<rparr>"

definition set_contextual_capability_invoker ::
  "'s contextual_invoker option \<Rightarrow> 's agent_runtime \<Rightarrow> 's agent_runtime" where
  "set_contextual_capability_invoker f rt = rt\<lparr>contextual_capability_invoker := f\<rparr>"

definition set_invocation_context :: "invocation_context \<Rightarrow> 's agent_runtime \<Rightarrow> 's agent_runtime" where
  "set_invocation_context ctx rt = rt\<lparr>rt_invocation_context := ctx\<rparr>"

definition build_agent_runtime ::
  "decl list \<Rightarrow> string \<Rightarrow> quota_config \<Rightarrow> 's agent_runtime option" where
  "build_agent_runtime ds name q =
     (let index = rebuild ds
      in case (find_agent index name, find_flow_for_agent index name) of
           (Some agent, Some flow) \<Rightarrow> Some (make_agent_runtime agent flow q)
         | _ \<Rightarrow> None)"

subsection \<open>Helpers of the loop\<close>

definition find_handler :: "flow_decl \<Rightarrow> string \<Rightarrow> state_handler option" where
  "find_handler flow st = find (\<lambda>h. handler_state h = st) (state_handlers flow)"

definition is_valid_transition :: "agent_decl \<Rightarrow> string \<Rightarrow> string \<Rightarrow> bool" where
  "is_valid_transition agent f t \<longleftrightarrow>
     transitions agent \<noteq> [] \<and>
     list_ex (\<lambda>tr. from_state tr = f \<and> to_state tr = t) (transitions agent)"

definition is_final_state :: "agent_decl \<Rightarrow> string \<Rightarrow> bool" where
  "is_final_state agent st \<longleftrightarrow> st \<in> set (final_states agent)"

text \<open>The expression evaluator a run installs, in the current state.\<close>

definition run_expr_eval :: "'s agent_runtime \<Rightarrow> string \<Rightarrow> 's expr_eval option" where
  "run_expr_eval rt st =
     (case contextual_capability_invoker rt of
        Some f \<Rightarrow>
          Some (\<lambda>e c. eval_expr_with_contextual_capabilities (Some f)
            ((rt_invocation_context rt)\<lparr>ic_agent_name := agent_name (rt_agent rt), ic_state_name := st\<rparr>) e c)
      | None \<Rightarrow>
          (case capability_invoker rt of
             Some f \<Rightarrow> Some (\<lambda>e c. eval_expr_with_capabilities (Some f) e c)
           | None \<Rightarrow> None))"

text \<open>The fields of a struct become the input scope.\<close>

definition inject_input :: "val \<Rightarrow> eval_context" where
  "inject_input v =
     (case v of
        StructValue _ fs \<Rightarrow>
          foldl (\<lambda>c (k, p). case p of None \<Rightarrow> c | Some f \<Rightarrow> set_input k (clone_value f) c) empty_context fs
      | _ \<Rightarrow> empty_context)"

definition stop_with :: "agent_result \<Rightarrow> agent_status \<Rightarrow> string \<Rightarrow> agent_result" where
  "stop_with res st msg =
     res\<lparr>agent_status := st, agent_diags := emit_error (agent_diags res) msg\<rparr>"

subsection \<open>The main loop\<close>

definition transitions_exhausted :: "quota_config \<Rightarrow> agent_result \<Rightarrow> bool" where
  "transitions_exhausted q res \<longleftrightarrow>
     (case max_state_transitions q of
        None \<Rightarrow> False
      | Some n \<Rightarrow> n \<le> state_transitions (agent_stats res))"

text \<open>
  The check of the execution time reads the clock only when there is such a quota; the
  comparison converts the milliseconds to nanoseconds.
\<close>

definition time_exhausted :: "'s env \<Rightarrow> quota_config \<Rightarrow> agent_result \<Rightarrow> 's \<Rightarrow> (bool \<times> 's) option" where
  "time_exhausted env q res s =
     (case max_execution_time q of
        None \<Rightarrow> Some (False, s)
      | Some ms \<Rightarrow>
          (case now env s of
             (t, s') \<Rightarrow>
               (case int64_result (ms * 1000000) of
                  None \<Rightarrow> None
                | Some limit \<Rightarrow> Some (t - start_time (agent_stats res) > limit, s'))))"

text \<open>What the loop does with the outcome of a handler: stop, or go on with new counters.\<close>

definition handle_outcome ::
  "agent_decl \<Rightarrow> (string \<Rightarrow> nat) \<Rightarrow> agent_result \<Rightarrow> exec_outcome \<Rightarrow> agent_result \<times> (string \<Rightarrow> nat) option" where
  "handle_outcome agent counts res out =
     (let st = current_state_name res
      in case out of
           ExecContinue \<Rightarrow>
             if is_final_state agent st then (res\<lparr>agent_status := AgentCompleted\<rparr>, None)
             else (stop_with res AgentFailed
                     (''state '' @ quoted st @ '' handler completed without goto or return''), None)
         | ExecGoto target \<Rightarrow>
             if \<not> is_valid_transition agent st target then
               (stop_with res AgentInvalidTransition
                  (''invalid transition from '' @ quoted st @ '' to '' @ quoted target), None)
             else
               (let res' = res\<lparr>agent_stats :=
                      (agent_stats res)\<lparr>state_transitions := state_transitions (agent_stats res) + 1\<rparr>,
                      current_state_name := target,
                      visited_states := List.insert target (visited_states res)\<rparr>;
                    counts' = counts(target := counts target + 1)
                in if counts' target > 100 then
                     (stop_with res' AgentInfiniteLoop
                        (''infinite loop detected: state '' @ quoted target @
                         '' visited more than 100 times''), None)
                   else (res', Some counts'))
         | ExecReturn v \<Rightarrow>
             if \<not> is_final_state agent st then
               (stop_with res AgentFailed (''return statement in non-final state '' @ quoted st), None)
             else (res\<lparr>agent_status := AgentCompleted, agent_output := Some v\<rparr>, None)
         | ExecAssertFailed m \<Rightarrow>
             (stop_with res AgentFailed (''assertion failed in state '' @ quoted st @ '': '' @ m), None))"

text \<open>One iteration: the quotas, the handler, its outcome.\<close>

definition agent_iteration ::
  "'s env \<Rightarrow> 's agent_runtime \<Rightarrow> (string \<Rightarrow> nat) \<Rightarrow> agent_result \<Rightarrow> eval_context \<Rightarrow> 's \<Rightarrow>
    ((agent_result \<times> ((string \<Rightarrow> nat) \<times> eval_context) option) \<times> 's) option" where
  "agent_iteration env rt counts res c s =
     (if transitions_exhausted (rt_quota rt) res then
        Some ((stop_with res AgentQuotaExceeded ''quota exceeded: max_state_transitions reached'', None), s)
      else
        (case time_exhausted env (rt_quota rt) res s of
           None \<Rightarrow> None
         | Some (late, s1) \<Rightarrow>
             if late then
               Some ((stop_with res AgentQuotaExceeded ''quota exceeded: max_execution_time reached'', None), s1)
             else
               (case find_handler (rt_flow rt) (current_state_name res) of
                  None \<Rightarrow>
                    Some ((stop_with res AgentFailed
                      (''no handler found for state '' @ quoted (current_state_name res)), None), s1)
                | Some h \<Rightarrow>
                    (case exec_block (run_expr_eval rt (current_state_name res)) (body h) c s1 of
                       None \<Rightarrow> None
                     | Some ((r, c'), s2) \<Rightarrow>
                         (let res' = res\<lparr>agent_diags := bag_append (agent_diags res) (exec_diags r)\<rparr>
                          in if exec_has_errors r then
                               Some ((res'\<lparr>agent_status := AgentFailed\<rparr>, None), s2)
                             else
                               (let next = handle_outcome (rt_agent rt) counts res' (outcome r)
                                in Some ((fst next, map_option (\<lambda>counts'. (counts', c')) (snd next)), s2)))))))"

text \<open>The visits that are left: every iteration that goes on uses one.\<close>

definition visits_left :: "agent_decl \<Rightarrow> (string \<Rightarrow> nat) \<Rightarrow> nat" where
  "visits_left agent counts = (\<Sum>t \<in> set (map to_state (transitions agent)). 100 - counts t)"

lemma handle_outcome_goes_on:
  assumes "handle_outcome agent counts res out = (res', Some counts')"
  obtains t where "out = ExecGoto t" "is_valid_transition agent (current_state_name res) t"
    "counts' = counts(t := counts t + 1)" "counts t < 100" "current_state_name res' = t"
    "res' = res\<lparr>agent_stats :=
                      (agent_stats res)\<lparr>state_transitions := state_transitions (agent_stats res) + 1\<rparr>,
                      current_state_name := t,
                      visited_states := List.insert t (visited_states res)\<rparr>"
  using assms by (auto simp: handle_outcome_def Let_def split: exec_outcome.splits if_splits)

lemma valid_transition_target:
  "is_valid_transition agent f t \<Longrightarrow> t \<in> set (map to_state (transitions agent))"
  by (auto simp: is_valid_transition_def list_ex_iff)

lemma visits_left_less:
  assumes "t \<in> set (map to_state (transitions agent))" "counts t < 100"
  shows "visits_left agent (counts(t := counts t + 1)) < visits_left agent counts"
  unfolding visits_left_def
  by (rule sum_strict_mono_ex1) (use assms in auto)

lemma agent_iteration_cases:
  assumes "agent_iteration env rt counts res c s = Some ((res', go), s')"
  obtains (quota) msg where "go = None" "res' = stop_with res AgentQuotaExceeded msg"
      "s' = s \<or> time_exhausted env (rt_quota rt) res s = Some (True, s')"
  | (no_handler) msg where "go = None" "res' = stop_with res AgentFailed msg"
      "time_exhausted env (rt_quota rt) res s = Some (False, s')"
  | (exec) h s1 r c' res1 where
      "\<not> transitions_exhausted (rt_quota rt) res" "time_exhausted env (rt_quota rt) res s = Some (False, s1)"
      "find_handler (rt_flow rt) (current_state_name res) = Some h"
      "exec_block (run_expr_eval rt (current_state_name res)) (body h) c s1 = Some ((r, c'), s')"
      "res1 = res\<lparr>agent_diags := bag_append (agent_diags res) (exec_diags r)\<rparr>"
      "exec_has_errors r \<and> go = None \<and> res' = res1\<lparr>agent_status := AgentFailed\<rparr> \<or>
       \<not> exec_has_errors r \<and> res' = fst (handle_outcome (rt_agent rt) counts res1 (outcome r)) \<and>
         go = map_option (\<lambda>counts'. (counts', c')) (snd (handle_outcome (rt_agent rt) counts res1 (outcome r)))"
  using assms
  by (auto simp: agent_iteration_def run_simps Let_def split: if_splits option.splits)

lemma agent_iteration_goes_on:
  assumes "agent_iteration env rt counts res c s = Some ((res', Some (counts', c')), s')"
  obtains t where "is_valid_transition (rt_agent rt) (current_state_name res) t"
    "counts' = counts(t := counts t + 1)" "counts t < 100"
  using assms
proof (cases rule: agent_iteration_cases)
  case (exec h s1 r c1 res1)
  then have "handle_outcome (rt_agent rt) counts res1 (outcome r) = (res', Some counts')"
    by (cases "handle_outcome (rt_agent rt) counts res1 (outcome r)") (auto simp: eq_commute [of "Some _"])
  then show ?thesis
  proof (rule handle_outcome_goes_on)
    fix t assume "is_valid_transition (rt_agent rt) (current_state_name res1) t"
      "counts' = counts(t := counts t + 1)" "counts t < 100"
    with exec(5) that [of t] show ?thesis by simp
  qed
qed auto

function agent_loop ::
  "'s env \<Rightarrow> 's agent_runtime \<Rightarrow> (string \<Rightarrow> nat) \<Rightarrow> agent_result \<Rightarrow> eval_context \<Rightarrow> 's \<Rightarrow>
    (agent_result \<times> 's) option" where
  "agent_loop env rt counts res c s =
     (case agent_iteration env rt counts res c s of
        None \<Rightarrow> None
      | Some ((res', None), s') \<Rightarrow> Some (res', s')
      | Some ((res', Some (counts', c')), s') \<Rightarrow> agent_loop env rt counts' res' c' s')"
  by pat_completeness auto
termination
  by (relation "measure (\<lambda>(env, rt, counts, res, c, s). visits_left (rt_agent rt) counts)")
    (auto elim!: agent_iteration_goes_on
      intro!: visits_left_less [OF valid_transition_target, simplified])

declare agent_loop.simps [simp del]

definition initial_agent_result :: "string \<Rightarrow> int \<Rightarrow> agent_result" where
  "initial_agent_result st t =
     \<lparr>agent_status = AgentRunning, agent_output = None, current_state_name = st,
      visited_states = [st],
      agent_stats = \<lparr>state_transitions = 0, tool_calls = 0, start_time = t, end_time = 0\<rparr>,
      agent_diags = empty_bag\<rparr>"

definition run_from_state ::
  "'s env \<Rightarrow> 's agent_runtime \<Rightarrow> val \<Rightarrow> string \<Rightarrow> 's \<Rightarrow> (agent_result \<times> 's) option" where
  "run_from_state env rt input_value st s =
     (case now env s of
        (t0, s0) \<Rightarrow>
          (case agent_loop env rt ((\<lambda>_. 0)(st := 1)) (initial_agent_result st t0)
                  (inject_input input_value) s0 of
             None \<Rightarrow> None
           | Some (res, s1) \<Rightarrow>
               (case now env s1 of
                  (t1, s2) \<Rightarrow> Some (res\<lparr>agent_stats := (agent_stats res)\<lparr>end_time := t1\<rparr>\<rparr>, s2))))"

definition run_agent ::
  "'s env \<Rightarrow> 's agent_runtime \<Rightarrow> val \<Rightarrow> 's \<Rightarrow> (agent_result \<times> 's) option" where
  "run_agent env rt input_value s =
     run_from_state env rt input_value (initial_state (rt_agent rt)) s"

subsection \<open>Reasoning about the loop\<close>

lemma agent_loop_rule:
  assumes "agent_loop env rt counts res c s = Some (res', s')" "Inv counts res c s"
    and go: "\<And>counts res c s res' counts' c' s'. Inv counts res c s \<Longrightarrow>
      agent_iteration env rt counts res c s = Some ((res', Some (counts', c')), s') \<Longrightarrow> Inv counts' res' c' s'"
    and stop: "\<And>counts res c s res' s'. Inv counts res c s \<Longrightarrow>
      agent_iteration env rt counts res c s = Some ((res', None), s') \<Longrightarrow> Q res' s'"
  shows "Q res' s'"
  using assms
proof (induction env rt counts res c s rule: agent_loop.induct)
  case (1 env rt counts res c s)
  from "1.prems"(1) obtain res1 go s1 where it: "agent_iteration env rt counts res c s = Some ((res1, go), s1)"
    by (subst (asm) agent_loop.simps) (auto split: option.splits)
  show ?case
  proof (cases go)
    case None
    with "1.prems"(1) it have "res1 = res'" "s1 = s'" by (subst (asm) agent_loop.simps; simp)+
    with None it "1.prems"(4) [OF "1.prems"(2)] show ?thesis by simp
  next
    case (Some p)
    obtain counts1 c1 where p: "p = (counts1, c1)" by fastforce
    from "1.prems"(1) it Some p have "agent_loop env rt counts1 res1 c1 s1 = Some (res', s')"
      by (subst (asm) agent_loop.simps) simp
    moreover have "Inv counts1 res1 c1 s1" using "1.prems"(2,3) it Some p by blast
    ultimately show ?thesis
      using "1.IH" [OF it refl refl Some p [symmetric]] "1.prems"(3,4) by blast
  qed
qed

definition valid_steps :: "agent_decl \<Rightarrow> (string \<times> string) set" where
  "valid_steps agent = {(f, t). is_valid_transition agent f t}"

definition env_ok :: "('s \<Rightarrow> bool) \<Rightarrow> 's env \<Rightarrow> bool" where
  "env_ok I env \<longleftrightarrow> (\<forall>s t s'. I s \<longrightarrow> now env s = (t, s') \<longrightarrow> I s')"

definition runtime_ok :: "('s \<Rightarrow> bool) \<Rightarrow> 's agent_runtime \<Rightarrow> bool" where
  "runtime_ok I rt \<longleftrightarrow>
     pred_option (invoker_ok I) (capability_invoker rt) \<and>
     pred_option (\<lambda>f. \<forall>context. invoker_ok I (f context)) (contextual_capability_invoker rt)"

lemma run_expr_eval_ok:
  assumes "runtime_ok I rt"
  shows "expr_eval_ok I (run_expr_eval rt st)"
proof -
  have "eval_m_ok I (eval_expr_with_capability_call_handler (invoker_call (Some f)) e c)"
    if "invoker_ok I f" "context_ok c" for f e c
    using call_provider.eval_ok [OF invoker_provider [of I "Some f"] that(2)] that(1) by simp
  then show ?thesis
    using assms default_expr_eval_ok [of I]
    by (auto simp: expr_eval_ok_def run_expr_eval_def runtime_ok_def eval_expression_def
        eval_expr_with_contextual_capabilities_def eval_expr_with_capabilities_def split: option.splits)
qed

text \<open>
  The invariant of the loop: while it runs there is no error and no output, the states visited
  are reached by declared transitions, the quota is respected, and every transition has used
  up a visit.
\<close>

definition agent_inv ::
  "('s \<Rightarrow> bool) \<Rightarrow> 's agent_runtime \<Rightarrow> string \<Rightarrow> nat \<Rightarrow> (string \<Rightarrow> nat) \<Rightarrow> agent_result \<Rightarrow> eval_context \<Rightarrow> 's \<Rightarrow> bool" where
  "agent_inv I rt start left counts res c s \<longleftrightarrow>
     agent_status res = AgentRunning \<and> agent_output res = None \<and>
     bag_ok (agent_diags res) \<and> \<not> has_error (agent_diags res) \<and>
     (start, current_state_name res) \<in> (valid_steps (rt_agent rt))\<^sup>* \<and>
     set (visited_states res) \<subseteq> (valid_steps (rt_agent rt))\<^sup>* `` {start} \<and>
     current_state_name res \<in> set (visited_states res) \<and>
     state_transitions (agent_stats res) + visits_left (rt_agent rt) counts \<le> left \<and>
     (\<forall>n. max_state_transitions (rt_quota rt) = Some n \<longrightarrow> state_transitions (agent_stats res) \<le> n) \<and>
     tool_calls (agent_stats res) = 0 \<and>
     context_ok c \<and> I s"

text \<open>What holds of the result when the loop ends.\<close>

definition agent_result_ok ::
  "'s agent_runtime \<Rightarrow> string \<Rightarrow> nat \<Rightarrow> agent_result \<Rightarrow> bool" where
  "agent_result_ok rt start left res \<longleftrightarrow>
     is_terminal res \<and> bag_ok (agent_diags res) \<and>
     (agent_status res = AgentCompleted \<longleftrightarrow> \<not> has_error (agent_diags res)) \<and>
     (agent_status res = AgentCompleted \<longrightarrow> is_final_state (rt_agent rt) (current_state_name res)) \<and>
     (\<forall>v. agent_output res = Some v \<longrightarrow> agent_status res = AgentCompleted \<and> value_ok v) \<and>
     (start, current_state_name res) \<in> (valid_steps (rt_agent rt))\<^sup>* \<and>
     set (visited_states res) \<subseteq> (valid_steps (rt_agent rt))\<^sup>* `` {start} \<and>
     current_state_name res \<in> set (visited_states res) \<and>
     state_transitions (agent_stats res) \<le> left + 1 \<and>
     (\<forall>n. max_state_transitions (rt_quota rt) = Some n \<longrightarrow> state_transitions (agent_stats res) \<le> n) \<and>
     tool_calls (agent_stats res) = 0"

lemma time_exhausted_ok:
  "env_ok I env \<Longrightarrow> I s \<Longrightarrow> time_exhausted env q res s = Some (b, s') \<Longrightarrow> I s'"
  by (auto simp: time_exhausted_def env_ok_def run_simps split: option.splits prod.splits)

lemma transitions_not_exhausted:
  "\<not> transitions_exhausted q res \<Longrightarrow> max_state_transitions q = Some n \<Longrightarrow> state_transitions (agent_stats res) < n"
  by (simp add: transitions_exhausted_def)

text \<open>The executed handler keeps the contexts and the world well-formed.\<close>

lemma agent_exec_ok:
  assumes "agent_inv I rt start left counts res c s" "runtime_ok I rt" "env_ok I env"
    and "time_exhausted env (rt_quota rt) res s = Some (late, s1)"
    and "exec_block (run_expr_eval rt st) b c s1 = Some ((r, c'), s')"
  shows "exec_result_ok r \<and> context_ok c' \<and> I s'"
proof -
  have blk: "exec_m_ok I (exec_block (run_expr_eval rt st) b)"
    using run_expr_eval_ok [OF assms(2)] by (auto intro: exec_block_ok exec_statement_ok)
  have cs: "context_ok c" "I s1"
    using assms(1) time_exhausted_ok [OF assms(3) _ assms(4)] by (auto simp: agent_inv_def)
  show ?thesis using exec_m_okD [OF blk cs assms(5)] by blast
qed

lemma agent_inv_go:
  assumes inv: "agent_inv I rt start left counts res c s" and ok: "runtime_ok I rt" "env_ok I env"
    and run: "agent_iteration env rt counts res c s = Some ((res', Some (counts', c')), s')"
  shows "agent_inv I rt start left counts' res' c' s'"
  using run
proof (cases rule: agent_iteration_cases)
  case (exec h s1 r c1 res1)
  then have c1: "c1 = c'" and ho: "handle_outcome (rt_agent rt) counts res1 (outcome r) = (res', Some counts')"
    and err: "\<not> exec_has_errors r"
    by (cases "handle_outcome (rt_agent rt) counts res1 (outcome r)"; auto simp: eq_commute [of "Some _"])+
  note ex = agent_exec_ok [OF inv ok exec(2,4)]
  from ho show ?thesis
  proof (rule handle_outcome_goes_on)
    fix t
    assume t: "is_valid_transition (rt_agent rt) (current_state_name res1) t"
      "counts' = counts(t := counts t + 1)" "counts t < 100"
      and res': "res' = res1\<lparr>agent_stats :=
                      (agent_stats res1)\<lparr>state_transitions := state_transitions (agent_stats res1) + 1\<rparr>,
                      current_state_name := t,
                      visited_states := List.insert t (visited_states res1)\<rparr>"
    have "visits_left (rt_agent rt) counts' < visits_left (rt_agent rt) counts"
      using visits_left_less [OF valid_transition_target [OF t(1)], of counts] t(2,3) by simp
    moreover have step: "(current_state_name res, t) \<in> valid_steps (rt_agent rt)"
      using t(1) exec(5) by (simp add: valid_steps_def)
    then have "(start, t) \<in> (valid_steps (rt_agent rt))\<^sup>*"
      using inv by (auto simp: agent_inv_def intro: rtrancl.rtrancl_into_rtrancl)
    ultimately show ?thesis
      using inv ex err c1 transitions_not_exhausted [OF exec(1)] unfolding agent_inv_def res' exec(5)
      by (auto simp: exec_result_ok_def exec_has_errors_def Suc_le_eq)
  qed
qed auto

lemma stop_with_ok:
  assumes "agent_inv I rt start left counts res c s" "st \<noteq> AgentRunning" "st \<noteq> AgentCompleted"
  shows "agent_result_ok rt start left (stop_with res st msg)"
  using assms by (auto simp: agent_inv_def agent_result_ok_def stop_with_def is_terminal_def)

lemma handle_outcome_stop_ok:
  assumes inv: "agent_inv I rt start left counts res c s" and r: "exec_result_ok r" "\<not> exec_has_errors r"
    and ne: "\<not> transitions_exhausted (rt_quota rt) res"
    and ho: "handle_outcome (rt_agent rt) counts
      (res\<lparr>agent_diags := bag_append (agent_diags res) (exec_diags r)\<rparr>) (outcome r) = (res', None)"
  shows "agent_result_ok rt start left res'"
proof -
  define res1 where "res1 = res\<lparr>agent_diags := bag_append (agent_diags res) (exec_diags r)\<rparr>"
  have inv1: "agent_inv I rt start left counts res1 c s"
    using inv r by (auto simp: agent_inv_def res1_def exec_result_ok_def exec_has_errors_def)
  have st1: "agent_stats res1 = agent_stats res" by (simp add: res1_def)
  show ?thesis
  proof (cases "outcome r")
    case (ExecGoto t)
    show ?thesis
    proof (cases "is_valid_transition (rt_agent rt) (current_state_name res1) t")
      case True
      define res2 where "res2 = res1\<lparr>agent_stats :=
                      (agent_stats res1)\<lparr>state_transitions := state_transitions (agent_stats res1) + 1\<rparr>,
                      current_state_name := t,
                      visited_states := List.insert t (visited_states res1)\<rparr>"
      from True ExecGoto ho obtain msg where "res' = stop_with res2 AgentInfiniteLoop msg"
        by (auto simp: handle_outcome_def res1_def res2_def Let_def split: if_splits)
      moreover have "(start, t) \<in> (valid_steps (rt_agent rt))\<^sup>*"
        using inv1 True by (auto simp: agent_inv_def valid_steps_def intro: rtrancl.rtrancl_into_rtrancl)
      ultimately show ?thesis
        using inv1 transitions_not_exhausted [OF ne] st1 unfolding agent_inv_def agent_result_ok_def
        by (auto simp: res2_def stop_with_def is_terminal_def Suc_le_eq)
    next
      case False
      with ExecGoto ho obtain msg where "res' = stop_with res1 AgentInvalidTransition msg"
        by (auto simp: handle_outcome_def res1_def Let_def)
      with stop_with_ok [OF inv1] show ?thesis by simp
    qed
  next
    case ExecContinue
    then show ?thesis
    proof (cases "is_final_state (rt_agent rt) (current_state_name res1)")
      case True
      with ho ExecContinue have "res' = res1\<lparr>agent_status := AgentCompleted\<rparr>"
        by (simp add: handle_outcome_def Let_def flip: res1_def)
      with True inv1 show ?thesis by (auto simp: agent_inv_def agent_result_ok_def is_terminal_def)
    qed (use ho stop_with_ok [OF inv1] in \<open>auto simp: handle_outcome_def Let_def simp flip: res1_def\<close>)
  next
    case (ExecReturn v)
    then show ?thesis
    proof (cases "is_final_state (rt_agent rt) (current_state_name res1)")
      case True
      with ho ExecReturn have "res' = res1\<lparr>agent_status := AgentCompleted, agent_output := Some v\<rparr>"
        by (simp add: handle_outcome_def Let_def flip: res1_def)
      with True ExecReturn r(1) inv1 show ?thesis
        by (auto simp: agent_inv_def agent_result_ok_def is_terminal_def exec_result_ok_def)
    qed (use ho stop_with_ok [OF inv1] in \<open>auto simp: handle_outcome_def Let_def simp flip: res1_def\<close>)
  next
    case (ExecAssertFailed m)
    with ho stop_with_ok [OF inv1] show ?thesis
      by (auto simp: handle_outcome_def Let_def simp flip: res1_def)
  qed
qed

lemma agent_inv_stop:
  assumes inv: "agent_inv I rt start left counts res c s" and ok: "runtime_ok I rt" "env_ok I env"
    and run: "agent_iteration env rt counts res c s = Some ((res', None), s')"
  shows "agent_result_ok rt start left res' \<and> I s'"
  using run
proof (cases rule: agent_iteration_cases)
  case (exec h s1 r c1 res1)
  note ex = agent_exec_ok [OF inv ok exec(2,4)]
  show ?thesis
  proof (cases "exec_has_errors r")
    case True
    with exec(5,6) ex inv show ?thesis
      by (auto simp: agent_inv_def agent_result_ok_def is_terminal_def exec_result_ok_def exec_has_errors_def)
  next
    case False
    with exec(5,6) have "handle_outcome (rt_agent rt) counts res1 (outcome r) = (res', None)"
      by (cases "handle_outcome (rt_agent rt) counts res1 (outcome r)") auto
    with handle_outcome_stop_ok [OF inv _ False exec(1)] ex exec(5) show ?thesis by simp
  qed
next
  case (quota msg)
  with inv stop_with_ok [OF inv] time_exhausted_ok [OF ok(2), of s] show ?thesis
    by (auto simp: agent_inv_def)
next
  case (no_handler msg)
  with inv stop_with_ok [OF inv] time_exhausted_ok [OF ok(2), of s] show ?thesis
    by (auto simp: agent_inv_def)
qed

lemma inject_input_ok: "value_ok v \<Longrightarrow> context_ok (inject_input v)"
proof (cases v)
  case (StructValue n fs)
  have "fields_ok fs \<Longrightarrow> context_ok c \<Longrightarrow>
      context_ok (foldl (\<lambda>c (k, p). case p of None \<Rightarrow> c | Some f \<Rightarrow> set_input k (clone_value f) c) c fs)" for c
  proof (induction fs arbitrary: c)
    case (Cons f fs)
    then show ?case
      by (cases f; cases "snd f") (auto simp: input.good_store clone_value_value_ok)
  qed simp
  then show "value_ok v \<Longrightarrow> ?thesis" by (simp add: StructValue inject_input_def)
qed (simp_all add: inject_input_def)

lemma visits_left_bound: "visits_left agent counts \<le> 100 * length (transitions agent)"
proof -
  have "visits_left agent counts \<le> (\<Sum>t \<in> set (map to_state (transitions agent)). 100)"
    unfolding visits_left_def by (rule sum_mono) simp
  also have "\<dots> = 100 * card (set (map to_state (transitions agent)))" by simp
  also have "\<dots> \<le> 100 * length (transitions agent)"
    using card_length [of "map to_state (transitions agent)"] by simp
  finally show ?thesis .
qed

text \<open>Every run ends in a result with these properties.\<close>

lemma run_from_state_ok:
  assumes run: "run_from_state env rt input_value st s = Some (res, s')"
    and ok: "runtime_ok I rt" "env_ok I env" "I s" "value_ok input_value"
  shows "agent_result_ok rt st (100 * length (transitions (rt_agent rt))) res \<and> I s'"
proof -
  obtain t0 s0 where t0: "now env s = (t0, s0)" by fastforce
  with ok(2,3) have "I s0" by (auto simp: env_ok_def)
  let ?counts = "(\<lambda>_. 0)(st := 1)"
  from run t0 obtain res1 s1 where
    loop: "agent_loop env rt ?counts (initial_agent_result st t0) (inject_input input_value) s0 = Some (res1, s1)"
    and fin: "(case now env s1 of (t1, s2) \<Rightarrow>
      Some (res1\<lparr>agent_stats := (agent_stats res1)\<lparr>end_time := t1\<rparr>\<rparr>, s2)) = Some (res, s')"
    by (auto simp: run_from_state_def run_simps)
  then have res: "agent_diags res = agent_diags res1" "agent_status res = agent_status res1"
      "agent_output res = agent_output res1" "current_state_name res = current_state_name res1"
      "visited_states res = visited_states res1"
      "state_transitions (agent_stats res) = state_transitions (agent_stats res1)"
      "tool_calls (agent_stats res) = tool_calls (agent_stats res1)"
    by (auto split: prod.splits)
  let ?left = "visits_left (rt_agent rt) ?counts"
  have init: "agent_inv I rt st ?left ?counts (initial_agent_result st t0) (inject_input input_value) s0"
    using \<open>I s0\<close> inject_input_ok [OF ok(4)] by (simp add: agent_inv_def initial_agent_result_def)
  have "agent_result_ok rt st ?left res1 \<and> I s1"
    by (rule agent_loop_rule [where Inv = "agent_inv I rt st ?left" and Q = "\<lambda>r s'. agent_result_ok rt st ?left r \<and> I s'",
          OF loop init])
      (rule agent_inv_go [OF _ ok(1,2)] agent_inv_stop [OF _ ok(1,2)]; assumption)+
  moreover from this fin ok(2) have "I s'" by (auto simp: env_ok_def split: prod.splits)
  ultimately show ?thesis
    using visits_left_bound [of "rt_agent rt" ?counts]
    unfolding agent_result_ok_def is_terminal_def res by force
qed

subsection \<open>The quota of tool calls\<close>

text \<open>The loop never looks at \<open>max_tool_calls\<close>.\<close>

lemma agent_iteration_tool_quota:
  "agent_iteration env (rt\<lparr>rt_quota := (rt_quota rt)\<lparr>max_tool_calls := x\<rparr>\<rparr>) counts res c s =
    agent_iteration env rt counts res c s"
proof -
  let ?rt = "rt\<lparr>rt_quota := (rt_quota rt)\<lparr>max_tool_calls := x\<rparr>\<rparr>"
  have sel: "rt_agent ?rt = rt_agent rt" "rt_flow ?rt = rt_flow rt"
    "contextual_capability_invoker ?rt = contextual_capability_invoker rt"
    "capability_invoker ?rt = capability_invoker rt"
    "rt_invocation_context ?rt = rt_invocation_context rt"
    "max_state_transitions (rt_quota ?rt) = max_state_transitions (rt_quota rt)"
    "max_execution_time (rt_quota ?rt) = max_execution_time (rt_quota rt)" by simp_all
  show ?thesis
    unfolding agent_iteration_def transitions_exhausted_def time_exhausted_def run_expr_eval_def sel ..
qed

lemma agent_loop_tool_quota:
  "agent_loop env (rt\<lparr>rt_quota := (rt_quota rt)\<lparr>max_tool_calls := x\<rparr>\<rparr>) counts res c s =
    agent_loop env rt counts res c s"
proof (induction env rt counts res c s rule: agent_loop.induct)
  case (1 env rt counts res c s)
  show ?case
    by (subst (1 2) agent_loop.simps)
      (auto simp: agent_iteration_tool_quota 1 split: option.split)
qed

subsection \<open>Reading quotas\<close>

lemma parse_duration_ms:
  assumes "int n \<le> int64_max"
  shows "parse_duration (nat_to_string n @ ''ms'') = Some (int n)"
  using assms
  by (simp add: parse_duration_def ends_with_def suffix_def from_chars_nat_to_string size_to_ms_def
      int64_max_def uint64_max_def in_int64_def int64_min_def)

lemma parse_duration_s:
  assumes "int n * 1000 \<le> int64_max"
  shows "parse_duration (nat_to_string n @ ''s'') = Some (int n * 1000)"
proof -
  have "last (nat_to_string n) \<noteq> CHR ''m''"
    using nat_to_string_digits [of n] by (auto simp: list_all_iff is_digit_char_def dest!: bspec [OF _ last_in_set])
  then have "\<not> suffix ''ms'' (nat_to_string n @ ''s'')"
    using nat_to_string_digits [of n] by (cases "nat_to_string n" rule: rev_cases) (auto simp: suffix_def)
  then show ?thesis
    using assms
    by (simp add: parse_duration_def ends_with_def from_chars_nat_to_string size_to_ms_def suffix_def
        int64_max_def uint64_max_def in_int64_def int64_min_def)
qed

subsection \<open>Every run returns\<close>

text \<open>
  Without undefined arithmetic in the handlers, with defined invokers and a time quota below
  292 years, a run is defined: it always returns a result.
\<close>

definition invoker_defined :: "'s invoker \<Rightarrow> bool" where
  "invoker_defined f \<longleftrightarrow> (\<forall>n vals s. f n vals s \<noteq> None)"

definition runtime_defined :: "'s agent_runtime \<Rightarrow> bool" where
  "runtime_defined rt \<longleftrightarrow>
     pred_option invoker_defined (capability_invoker rt) \<and>
     pred_option (\<lambda>f. \<forall>context. invoker_defined (f context)) (contextual_capability_invoker rt) \<and>
     pred_option (\<lambda>ms. in_int64 (ms * 1000000)) (max_execution_time (rt_quota rt)) \<and>
     (\<forall>h \<in> set (state_handlers (rt_flow rt)). block_all arithmetic_free (body h))"

lemma capability_call_args_defined:
  assumes "\<And>f vals. eval_m_defined (ic f vals)"
  shows "\<forall>m. Some m \<in> set args \<longrightarrow> eval_m_defined m \<Longrightarrow> eval_m_defined (capability_call_args ic f vals args)"
proof (induction args arbitrary: vals)
  case (Cons a args)
  show ?case
  proof (cases a)
    case (Some m)
    with Cons have "eval_m_defined m" "\<And>vals. eval_m_defined (capability_call_args ic f vals args)" by auto
    with Some show ?thesis by (auto simp: eval_m_defined_def run_simps)
  qed (simp add: eval_m_defined_def)
qed (use assms in \<open>simp add: eval_m_defined_def\<close>)

lemma eval_with_handler_defined:
  assumes "\<And>f vals. eval_m_defined (ic f vals)" "arithmetic_free e"
  shows "eval_m_defined (eval_expr_with_capability_call_handler ic e c)"
proof -
  have "call_eval_defined (Some (capability_call_eval ic))"
    using capability_call_args_defined [of ic, OF assms(1)]
    by (auto simp: call_eval_defined_def capability_call_eval_def [abs_def])
  then show ?thesis
    unfolding eval_expr_with_capability_call_handler_def eval_expr_def
    by (rule eval_expr_impl_defined [OF _ assms(2)])
qed

lemma invoker_call_defined: "invoker_defined f \<Longrightarrow> eval_m_defined (invoker_call (Some f) n vals)"
  by (auto simp: invoker_defined_def eval_m_defined_def invoker_call_def run_simps)

lemma run_expr_eval_defined:
  assumes "runtime_defined rt" "arithmetic_free e"
  shows "eval_m_defined (eval_expression (run_expr_eval rt st) e c)"
  using assms eval_expr_impl_defined [of None e c]
  by (auto simp: eval_expression_def run_expr_eval_def eval_expr_with_contextual_capabilities_def
      eval_expr_with_capabilities_def runtime_defined_def eval_expr_def call_eval_defined_def
      intro!: eval_with_handler_defined invoker_call_defined split: option.splits)

lemma time_exhausted_defined:
  "runtime_defined rt \<Longrightarrow> time_exhausted env (rt_quota rt) res s \<noteq> None"
  by (auto simp: runtime_defined_def time_exhausted_def run_simps split: option.splits prod.splits)

lemma agent_iteration_defined:
  assumes "runtime_defined rt"
  shows "agent_iteration env rt counts res c s \<noteq> None"
proof -
  have blk: "exec_block (run_expr_eval rt st) (body h) c s \<noteq> None"
    if "find_handler (rt_flow rt) q = Some h" for h q st c s
  proof -
    have "h \<in> set (state_handlers (rt_flow rt))"
      using that by (auto simp: find_handler_def find_Some_iff)
    then have "block_all arithmetic_free (body h)" using assms by (auto simp: runtime_defined_def)
    then show ?thesis
      using exec_block_all_defined [OF run_expr_eval_defined [OF assms]] by (auto simp: exec_m_defined_def)
  qed
  obtain late s1 where te: "time_exhausted env (rt_quota rt) res s = Some (late, s1)"
    using time_exhausted_defined [OF assms, of env res s] by fast
  show ?thesis
  proof (cases "find_handler (rt_flow rt) (current_state_name res)")
    case (Some h)
    with blk obtain r c' s' where
      "exec_block (run_expr_eval rt (current_state_name res)) (body h) c s1 = Some ((r, c'), s')" by fast
    with Some te show ?thesis by (simp add: agent_iteration_def Let_def)
  qed (simp add: agent_iteration_def te)
qed

lemma agent_loop_defined: "runtime_defined rt \<Longrightarrow> agent_loop env rt counts res c s \<noteq> None"
proof (induction env rt counts res c s rule: agent_loop.induct)
  case (1 env rt counts res c s)
  obtain res1 go s1 where it: "agent_iteration env rt counts res c s = Some ((res1, go), s1)"
    using agent_iteration_defined [OF "1.prems"] by fast
  show ?case
  proof (cases go)
    case (Some p)
    obtain counts1 c1 where p: "p = (counts1, c1)" by fastforce
    show ?thesis
      using "1.IH" [OF it refl refl Some p [symmetric] "1.prems"] it Some p
      by (subst agent_loop.simps) simp
  qed (subst agent_loop.simps, simp add: it)
qed

lemma run_from_state_defined:
  "runtime_defined rt \<Longrightarrow> run_from_state env rt v st s \<noteq> None"
  using agent_loop_defined [of rt env "(\<lambda>_. 0)(st := 1)" "initial_agent_result st (fst (now env s))"
      "inject_input v" "snd (now env s)"]
  by (cases "now env s") (auto simp: run_from_state_def case_prod_unfold)

end
