(* ===== verification/Workflow_Runtime.thy ===== *)
theory Workflow_Runtime
  imports Agent_Runtime
begin

section \<open>The workflow runtime\<close>

text \<open>
  \<open>src/runtime/engine/workflow_runtime.{hpp,cpp}\<close>: the nodes of a workflow run one after the
  other in topological order; each evaluates its input expression over the outputs of the
  nodes before it and runs its agent; a node with a failed dependency is skipped and fails too.
  An \<open>std::optional<std::function>\<close> of the configuration is an option of an option.
\<close>

datatype workflow_status = WfCompleted | WfNodeFailed | WfDependencyFailed | WfEvalError

record node_result =
  nr_node_name :: string
  nr_target :: string
  nr_status :: agent_status
  nr_output :: "val option"
  nr_index :: nat

record workflow_result =
  wf_status :: workflow_status
  wf_output :: "val option"
  execution_order :: "string list"
  node_results :: "node_result list"
  wf_diags :: diagnostic_bag

record 's workflow_config =
  default_agent_quota :: quota_config
  wf_capability_invoker :: "'s invoker option option"
  wf_contextual_invoker :: "'s contextual_invoker option option"

definition empty_workflow_result :: workflow_result where
  "empty_workflow_result =
     \<lparr>wf_status = WfCompleted, wf_output = None, execution_order = [], node_results = [],
      wf_diags = empty_bag\<rparr>"

subsection \<open>Workflow expressions\<close>

definition bind_node_output :: "string \<times> val \<Rightarrow> eval_context \<Rightarrow> eval_context" where
  "bind_node_output nv c =
     (case nv of
        (n, v) \<Rightarrow>
          (let c' = bind_local n (clone_value v) c
           in case v of
                StructValue _ fs \<Rightarrow>
                  foldl (\<lambda>c (k, p). case p of None \<Rightarrow> c | Some f \<Rightarrow> set_node_output n k (clone_value f) c) c' fs
              | _ \<Rightarrow> c'))"

definition workflow_context :: "val \<Rightarrow> (string \<times> val) list \<Rightarrow> eval_context" where
  "workflow_context input_value outputs =
     (let c0 = bind_local ''input'' (clone_value input_value) empty_context;
          c1 = (case input_value of
                  StructValue _ fs \<Rightarrow>
                    foldl (\<lambda>c (k, p). case p of None \<Rightarrow> c | Some f \<Rightarrow> set_input k (clone_value f) c) c0 fs
                | _ \<Rightarrow> c0)
      in foldl (\<lambda>c nv. bind_node_output nv c) c1 outputs)"

definition eval_workflow_expression ::
  "'s workflow_config \<Rightarrow> expr \<Rightarrow> val \<Rightarrow> (string \<times> val) list \<Rightarrow> invocation_context \<Rightarrow> 's eval_m" where
  "eval_workflow_expression cfg e input_value outputs context =
     (let c = workflow_context input_value outputs
      in case wf_contextual_invoker cfg of
           Some f \<Rightarrow> eval_expr_with_contextual_capabilities f context e c
         | None \<Rightarrow>
             (case wf_capability_invoker cfg of
                Some f \<Rightarrow> eval_expr_with_capabilities f e c
              | None \<Rightarrow> eval_expr None e c))"

subsection \<open>Running a node\<close>

record workflow_state =
  ws_result :: workflow_result
  node_outputs :: "(string \<times> val) list"
  failed_nodes :: "string list"

definition node_agent_runtime ::
  "'s workflow_config \<Rightarrow> agent_decl \<Rightarrow> flow_decl \<Rightarrow> invocation_context \<Rightarrow> 's agent_runtime" where
  "node_agent_runtime cfg agent flow context =
     (let rt = set_invocation_context context (make_agent_runtime agent flow (default_agent_quota cfg))
      in case wf_contextual_invoker cfg of
           Some f \<Rightarrow> set_contextual_capability_invoker f rt
         | None \<Rightarrow>
             (case wf_capability_invoker cfg of
                Some f \<Rightarrow> set_capability_invoker f rt
              | None \<Rightarrow> rt))"

text \<open>Record a node: its result, its place in the order, the new status and diagnostics.\<close>

definition record_node ::
  "workflow_node \<Rightarrow> nat \<Rightarrow> agent_status \<Rightarrow> val option \<Rightarrow> workflow_status \<Rightarrow> diagnostic_bag \<Rightarrow>
    workflow_state \<Rightarrow> workflow_state" where
  "record_node n idx st out wst diags ws =
     (let res = ws_result ws
      in ws\<lparr>ws_result :=
              res\<lparr>wf_status := wst, wf_diags := diags,
                  execution_order := execution_order res @ [node_name n],
                  node_results := node_results res @
                    [\<lparr>nr_node_name = node_name n, nr_target = symbol_canonical_name (target_ref n) [],
                      nr_status = st, nr_output = out, nr_index = idx\<rparr>]\<rparr>,
            failed_nodes := (if st = AgentCompleted then failed_nodes ws
                             else List.insert (node_name n) (failed_nodes ws))\<rparr>)"

definition node_context :: "string \<Rightarrow> workflow_node \<Rightarrow> nat \<Rightarrow> invocation_context" where
  "node_context wfn n idx =
     \<lparr>ic_workflow_name = wfn, ic_workflow_node_name = node_name n,
      ic_agent_name = symbol_canonical_name (target_ref n) [], ic_state_name = [],
      ic_execution_index = idx, ic_has_node_context = True\<rparr>"

definition eval_node_input ::
  "'s workflow_config \<Rightarrow> string \<Rightarrow> val \<Rightarrow> workflow_node \<Rightarrow> nat \<Rightarrow> workflow_state \<Rightarrow> 's eval_m" where
  "eval_node_input cfg wfn input_value n idx ws s =
     (case node_input n of
        None \<Rightarrow> Some (ok_result NoneValue, s)
      | Some e \<Rightarrow>
          eval_workflow_expression cfg e input_value (node_outputs ws) (node_context wfn n idx) s)"

definition finish_node ::
  "workflow_node \<Rightarrow> nat \<Rightarrow> agent_result \<Rightarrow> workflow_state \<Rightarrow> workflow_state" where
  "finish_node n idx ar ws =
     (let res = ws_result ws; diags = bag_append (wf_diags res) (agent_diags ar)
      in if agent_status ar = AgentCompleted then
           record_node n idx AgentCompleted (agent_output ar) (wf_status res) diags
             (case agent_output ar of
                None \<Rightarrow> ws
              | Some v \<Rightarrow> ws\<lparr>node_outputs := insert_or_assign (node_name n) (clone_value v) (node_outputs ws)\<rparr>)
         else
           record_node n idx (agent_status ar) None
             (if wf_status res = WfCompleted then WfNodeFailed else wf_status res) diags ws)"

definition run_node ::
  "'s env \<Rightarrow> program_index \<Rightarrow> 's workflow_config \<Rightarrow> string \<Rightarrow> val \<Rightarrow> workflow_node \<Rightarrow> nat \<Rightarrow>
    workflow_state \<Rightarrow> 's \<Rightarrow> (workflow_state \<times> 's) option" where
  "run_node env ix cfg wfn input_value n idx ws s =
     (let res = ws_result ws; target = symbol_canonical_name (target_ref n) []
      in if list_ex (\<lambda>d. d \<in> set (failed_nodes ws)) (after n) then
           Some (record_node n idx AgentFailed None
             (if wf_status res = WfCompleted then WfDependencyFailed else wf_status res) (wf_diags res) ws, s)
         else
           (case eval_node_input cfg wfn input_value n idx ws s of
              None \<Rightarrow> None
            | Some (er, s1) \<Rightarrow>
                if has_errors er then
                  Some (record_node n idx AgentFailed None WfEvalError
                    (bag_append (wf_diags res) (eval_diags er)) ws, s1)
                else
                  (case (find_agent ix target, find_flow_for_agent ix target) of
                     (Some agent, Some flow) \<Rightarrow>
                       (case run_agent env (node_agent_runtime cfg agent flow (node_context wfn n idx))
                               (eval_value er) s1 of
                          None \<Rightarrow> None
                        | Some (ar, s2) \<Rightarrow> Some (finish_node n idx ar ws, s2))
                   | _ \<Rightarrow>
                       Some (record_node n idx AgentFailed None WfNodeFailed
                         (emit_error (wf_diags res)
                            (''agent '' @ quoted target @ '' declaration or flow not found'')) ws, s1))))"

fun run_nodes ::
  "'s env \<Rightarrow> program_index \<Rightarrow> 's workflow_config \<Rightarrow> string \<Rightarrow> val \<Rightarrow> workflow_node list \<Rightarrow> nat \<Rightarrow>
    workflow_state \<Rightarrow> 's \<Rightarrow> (workflow_state \<times> 's) option" where
  "run_nodes env ix cfg wfn input_value [] idx ws s = Some (ws, s)"
| "run_nodes env ix cfg wfn input_value (n # ns) idx ws s =
     (case run_node env ix cfg wfn input_value n idx ws s of
        None \<Rightarrow> None
      | Some (ws', s') \<Rightarrow> run_nodes env ix cfg wfn input_value ns (idx + 1) ws' s')"

subsection \<open>Running a workflow\<close>

definition eval_return ::
  "'s workflow_config \<Rightarrow> string \<Rightarrow> workflow_decl \<Rightarrow> val \<Rightarrow> (string \<times> val) list \<Rightarrow> workflow_result \<Rightarrow> 's \<Rightarrow>
    (workflow_result \<times> 's) option" where
  "eval_return cfg wfn w input_value outputs res s =
     (case return_value w of
        None \<Rightarrow> Some (res, s)
      | Some e \<Rightarrow>
          (case eval_workflow_expression cfg e input_value outputs
                  (empty_invocation_context\<lparr>ic_workflow_name := wfn\<rparr>) s of
             None \<Rightarrow> None
           | Some (r, s') \<Rightarrow>
               if has_errors r then
                 Some (res\<lparr>wf_status := WfEvalError, wf_diags := bag_append (wf_diags res) (eval_diags r)\<rparr>, s')
               else Some (res\<lparr>wf_output := Some (eval_value r)\<rparr>, s')))"

definition run_workflow ::
  "'s env \<Rightarrow> decl list \<Rightarrow> 's workflow_config \<Rightarrow> string \<Rightarrow> val \<Rightarrow> 's \<Rightarrow> (workflow_result \<times> 's) option" where
  "run_workflow env ds cfg wfn input_value s =
     (let ix = rebuild ds
      in case find_workflow ix wfn of
           None \<Rightarrow>
             Some (empty_workflow_result\<lparr>wf_status := WfNodeFailed,
               wf_diags := emit_error empty_bag (''workflow '' @ quoted wfn @ '' not found in program'')\<rparr>, s)
         | Some w \<Rightarrow>
             if nodes w = [] then eval_return cfg wfn w input_value [] empty_workflow_result s
             else
               (let sorted = topological_order w
                in if length sorted \<noteq> length (nodes w) then
                     Some (empty_workflow_result\<lparr>wf_status := WfDependencyFailed,
                       wf_diags := emit_error empty_bag
                         (''workflow '' @ quoted wfn @ '' has a dependency cycle or unresolvable node'')\<rparr>, s)
                   else
                     (case run_nodes env ix cfg wfn input_value sorted 0
                             \<lparr>ws_result = empty_workflow_result, node_outputs = [], failed_nodes = []\<rparr> s of
                        None \<Rightarrow> None
                      | Some (ws, s') \<Rightarrow>
                          if wf_status (ws_result ws) = WfCompleted
                          then eval_return cfg wfn w input_value (node_outputs ws) (ws_result ws) s'
                          else Some (ws_result ws, s'))))"

subsection \<open>Well-formedness\<close>

definition config_ok :: "('s \<Rightarrow> bool) \<Rightarrow> 's workflow_config \<Rightarrow> bool" where
  "config_ok I cfg \<longleftrightarrow>
     pred_option (pred_option (invoker_ok I)) (wf_capability_invoker cfg) \<and>
     pred_option (pred_option (\<lambda>f. \<forall>context. invoker_ok I (f context))) (wf_contextual_invoker cfg)"

lemma fold_fields_ok:
  assumes "\<And>k v c. context_ok c \<Longrightarrow> value_ok v \<Longrightarrow> context_ok (st k v c)"
  shows "fields_ok fs \<Longrightarrow> context_ok c \<Longrightarrow>
    context_ok (foldl (\<lambda>c (k, p). case p of None \<Rightarrow> c | Some f \<Rightarrow> st k (clone_value f) c) c fs)"
proof (induction fs arbitrary: c)
  case (Cons f fs)
  then show ?case by (cases f; cases "snd f") (auto simp: assms clone_value_value_ok)
qed simp

lemma set_node_output_ok: "context_ok c \<Longrightarrow> value_ok v \<Longrightarrow> context_ok (set_node_output n k v c)"
  using node_output.good_store [of c v "(n, k)"] by simp

lemma bind_node_output_ok: "context_ok c \<Longrightarrow> value_ok v \<Longrightarrow> context_ok (bind_node_output (n, v) c)"
  by (cases v) (auto simp: bind_node_output_def Let_def local_var.good_store clone_value_ok
      intro!: fold_fields_ok set_node_output_ok)

lemma foldl_outputs_ok:
  "context_ok c \<Longrightarrow> \<forall>v \<in> snd ` set outputs. value_ok v \<Longrightarrow>
    context_ok (foldl (\<lambda>c nv. bind_node_output nv c) c outputs)"
  by (induction outputs arbitrary: c) (auto simp: bind_node_output_ok)

lemma workflow_context_ok:
  assumes "value_ok input_value" "\<forall>v \<in> snd ` set outputs. value_ok v"
  shows "context_ok (workflow_context input_value outputs)"
proof -
  have "context_ok (bind_local ''input'' (clone_value input_value) empty_context)"
    using assms(1) by (simp add: local_var.good_store clone_value_value_ok)
  with assms show ?thesis
    by (cases input_value) (auto simp: workflow_context_def Let_def input.good_store
        intro!: foldl_outputs_ok fold_fields_ok)
qed

lemma eval_workflow_expression_ok:
  assumes "config_ok I cfg" "value_ok input_value" "\<forall>v \<in> snd ` set outputs. value_ok v"
  shows "eval_m_ok I (eval_workflow_expression cfg e input_value outputs context)"
proof -
  note c = workflow_context_ok [OF assms(2,3)]
  have prov: "eval_m_ok I (eval_expr_with_capability_call_handler (invoker_call g) e
      (workflow_context input_value outputs))" if "pred_option (invoker_ok I) g" for g
    by (rule call_provider.eval_ok [OF invoker_provider [OF that] c])
  have "eval_m_ok I (eval_expr None e (workflow_context input_value outputs))"
    unfolding eval_expr_def by (rule eval_expr_impl_ok [OF _ c]) (simp add: call_eval_ok_def)
  moreover have "pred_option (\<lambda>f. \<forall>context. invoker_ok I (f context)) g \<Longrightarrow>
      pred_option (invoker_ok I) (map_option (\<lambda>f. f context) g)" for g by (cases g) auto
  ultimately show ?thesis
    using assms(1)
    by (auto simp: eval_workflow_expression_def Let_def config_ok_def eval_expr_with_capabilities_def
        eval_expr_with_contextual_capabilities_def intro!: prov split: option.splits)
qed

lemma node_agent_runtime_ok: "config_ok I cfg \<Longrightarrow> runtime_ok I (node_agent_runtime cfg a f context)"
  by (auto simp: config_ok_def runtime_ok_def node_agent_runtime_def Let_def set_invocation_context_def
      set_contextual_capability_invoker_def set_capability_invoker_def make_agent_runtime_def
      split: option.splits)

subsection \<open>The invariant of a run\<close>

text \<open>
  After the nodes \<open>done\<close>: one result per node, in that order; the failed nodes are those whose
  result is not completed; the status is completed, and the diagnostics free of errors, exactly
  when no node failed; a node only completed when no dependency failed before it.
\<close>

definition workflow_inv :: "('s \<Rightarrow> bool) \<Rightarrow> workflow_node list \<Rightarrow> workflow_state \<Rightarrow> 's \<Rightarrow> bool" where
  "workflow_inv I done ws s \<longleftrightarrow>
     execution_order (ws_result ws) = map node_name done \<and>
     map nr_node_name (node_results (ws_result ws)) = map node_name done \<and>
     map nr_index (node_results (ws_result ws)) = [0..<length done] \<and>
     set (failed_nodes ws) =
       set (map nr_node_name (filter (\<lambda>r. nr_status r \<noteq> AgentCompleted) (node_results (ws_result ws)))) \<and>
     (wf_status (ws_result ws) = WfCompleted \<longleftrightarrow> failed_nodes ws = []) \<and>
     (wf_status (ws_result ws) = WfCompleted \<longleftrightarrow> \<not> has_error (wf_diags (ws_result ws))) \<and>
     wf_status (ws_result ws) \<noteq> WfDependencyFailed \<and>
     bag_ok (wf_diags (ws_result ws)) \<and> wf_output (ws_result ws) = None \<and>
     (\<forall>v \<in> snd ` set (node_outputs ws). value_ok v) \<and>
     (\<forall>i < length done. nr_status (node_results (ws_result ws) ! i) = AgentCompleted \<longrightarrow>
        (\<forall>j < i. node_name (done ! j) \<in> set (after (done ! i)) \<longrightarrow>
           nr_status (node_results (ws_result ws) ! j) = AgentCompleted)) \<and>
     (\<forall>r \<in> set (node_results (ws_result ws)). \<forall>v. nr_output r = Some v \<longrightarrow>
        nr_status r = AgentCompleted \<and> value_ok v) \<and>
     I s"

lemma record_node_failed_inv:
  assumes inv: "workflow_inv I done ws s" and st: "st \<noteq> AgentCompleted" "wst \<noteq> WfCompleted" "wst \<noteq> WfDependencyFailed"
    and d: "bag_ok d" "has_error d" and I: "I s'"
  shows "workflow_inv I (done @ [n]) (record_node n (length done) st None wst d ws) s'"
proof -
  have len: "length (node_results (ws_result ws)) = length done"
    using inv by (metis workflow_inv_def length_map)
  show ?thesis
    using inv st d I len unfolding workflow_inv_def record_node_def Let_def
    by (auto simp: nth_append less_Suc_eq)
qed

lemma record_node_completed_inv:
  assumes inv: "workflow_inv I done ws s" and dep: "\<forall>d \<in> set (after n). d \<notin> set (failed_nodes ws)"
    and d: "bag_ok d" "has_error d \<longleftrightarrow> has_error (wf_diags (ws_result ws))" and I: "I s'"
    and out: "\<forall>v. out = Some v \<longrightarrow> value_ok v" and outs: "\<forall>v \<in> snd ` set outs. value_ok v"
  shows "workflow_inv I (done @ [n])
    (record_node n (length done) AgentCompleted out (wf_status (ws_result ws)) d (ws\<lparr>node_outputs := outs\<rparr>)) s'"
proof -
  have len: "length (node_results (ws_result ws)) = length done"
    and nm: "\<And>j. j < length done \<Longrightarrow> nr_node_name (node_results (ws_result ws) ! j) = node_name (done ! j)"
    using inv unfolding workflow_inv_def by (metis length_map, metis length_map nth_map)
  have "nr_status (node_results (ws_result ws) ! j) = AgentCompleted"
    if "j < length done" "node_name (done ! j) \<in> set (after n)" for j
  proof (rule ccontr)
    assume "nr_status (node_results (ws_result ws) ! j) \<noteq> AgentCompleted"
    with that(1) len have "nr_node_name (node_results (ws_result ws) ! j) \<in> set (failed_nodes ws)"
      using inv unfolding workflow_inv_def by auto
    with dep that nm show False by simp
  qed
  then show ?thesis
    using inv d I out outs len unfolding workflow_inv_def record_node_def Let_def
    by (auto simp: nth_append less_Suc_eq)
qed

lemma finish_node_inv:
  assumes inv: "workflow_inv I done ws s" and dep: "\<forall>d \<in> set (after n). d \<notin> set (failed_nodes ws)"
    and ar: "agent_result_ok rt st k ar" and I: "I s'"
  shows "workflow_inv I (done @ [n]) (finish_node n (length done) ar ws) s'"
proof -
  have diags: "bag_ok (wf_diags (ws_result ws))" "bag_ok (agent_diags ar)"
    "agent_status ar = AgentCompleted \<longleftrightarrow> \<not> has_error (agent_diags ar)"
    using inv ar by (auto simp: workflow_inv_def agent_result_ok_def)
  show ?thesis
  proof (cases "agent_status ar = AgentCompleted")
    case True
    define outs where "outs = (case agent_output ar of None \<Rightarrow> node_outputs ws
      | Some v \<Rightarrow> insert_or_assign (node_name n) (clone_value v) (node_outputs ws))"
    have "\<forall>v \<in> snd ` set outs. value_ok v"
      using inv ar set_insert_or_assign [of "node_name n" _ "node_outputs ws"] by (fastforce simp: outs_def workflow_inv_def agent_result_ok_def
          intro: clone_value_value_ok split: option.splits)
    moreover have "finish_node n (length done) ar ws =
        record_node n (length done) AgentCompleted (agent_output ar) (wf_status (ws_result ws))
          (bag_append (wf_diags (ws_result ws)) (agent_diags ar)) (ws\<lparr>node_outputs := outs\<rparr>)"
      using True by (auto simp: finish_node_def Let_def outs_def split: option.split)
    moreover have "\<forall>v. agent_output ar = Some v \<longrightarrow> value_ok v" using ar by (auto simp: agent_result_ok_def)
    ultimately show ?thesis
      using record_node_completed_inv [OF inv dep _ _ I] diags True by simp
  next
    case False
    then have "finish_node n (length done) ar ws =
        record_node n (length done) (agent_status ar) None
          (if wf_status (ws_result ws) = WfCompleted then WfNodeFailed else wf_status (ws_result ws))
          (bag_append (wf_diags (ws_result ws)) (agent_diags ar)) ws"
      by (simp add: finish_node_def Let_def)
    moreover have "wf_status (ws_result ws) \<noteq> WfDependencyFailed" using inv by (simp add: workflow_inv_def)
    ultimately show ?thesis
      using record_node_failed_inv [OF inv False _ _ _ _ I] diags False by simp
  qed
qed

lemma run_node_inv:
  assumes inv: "workflow_inv I done ws s" and cfg: "config_ok I cfg" "env_ok I env" "value_ok input_value"
    and run: "run_node env ix cfg wfn input_value n (length done) ws s = Some (ws', s')"
  shows "workflow_inv I (done @ [n]) ws' s'"
proof (cases "list_ex (\<lambda>d. d \<in> set (failed_nodes ws)) (after n)")
  case True
  then have "failed_nodes ws \<noteq> []" by (auto simp: list_ex_iff)
  with inv have st: "wf_status (ws_result ws) \<noteq> WfCompleted" "wf_status (ws_result ws) \<noteq> WfDependencyFailed"
    "has_error (wf_diags (ws_result ws))" "bag_ok (wf_diags (ws_result ws))" "I s"
    by (auto simp: workflow_inv_def)
  with True run have "ws' = record_node n (length done) AgentFailed None (wf_status (ws_result ws))
      (wf_diags (ws_result ws)) ws" "s' = s" by (auto simp: run_node_def Let_def)
  with st show ?thesis by (auto intro!: record_node_failed_inv [OF inv])
next
  case False
  then have dep: "\<forall>d \<in> set (after n). d \<notin> set (failed_nodes ws)" by (auto simp: list_ex_iff)
  from run False obtain er s1 where er: "eval_node_input cfg wfn input_value n (length done) ws s = Some (er, s1)"
    by (auto simp: run_node_def Let_def run_simps)
  have "eval_m_ok I (eval_node_input cfg wfn input_value n (length done) ws)"
    using eval_workflow_expression_ok [OF cfg(1,3), of "node_outputs ws"] inv
    by (cases "node_input n") (simp_all add: eval_node_input_def [abs_def] workflow_inv_def eval_m_ok_return)
  from eval_m_okD [OF this _ er] inv have er_ok: "result_ok er" "I s1" by (auto simp: workflow_inv_def)
  have bag: "bag_ok (wf_diags (ws_result ws))" using inv by (simp add: workflow_inv_def)
  show ?thesis
  proof (cases "has_errors er")
    case True
    with run False er have "ws' = record_node n (length done) AgentFailed None WfEvalError
        (bag_append (wf_diags (ws_result ws)) (eval_diags er)) ws" "s' = s1"
      by (auto simp: run_node_def Let_def)
    with True er_ok bag show ?thesis
      by (auto simp: result_ok_def has_errors_def intro!: record_node_failed_inv [OF inv])
  next
    case ok: False
    let ?t = "symbol_canonical_name (target_ref n) []"
    show ?thesis
    proof (cases "find_agent ix ?t = None \<or> find_flow_for_agent ix ?t = None")
      case True
      with run False er ok have "ws' = record_node n (length done) AgentFailed None WfNodeFailed
          (emit_error (wf_diags (ws_result ws)) (''agent '' @ quoted ?t @ '' declaration or flow not found'')) ws"
        "s' = s1"
        by (auto simp: run_node_def Let_def split: option.splits)
      with er_ok bag show ?thesis by (auto intro!: record_node_failed_inv [OF inv])
    next
      case found: False
      then obtain agent flow where "find_agent ix ?t = Some agent" "find_flow_for_agent ix ?t = Some flow" by auto
      with run False er ok obtain ar where
        ar: "run_agent env (node_agent_runtime cfg agent flow (node_context wfn n (length done)))
            (eval_value er) s1 = Some (ar, s')" and ws': "ws' = finish_node n (length done) ar ws"
        by (auto simp: run_node_def Let_def run_simps)
      from run_from_state_ok [OF ar [unfolded run_agent_def] node_agent_runtime_ok [OF cfg(1)] cfg(2) er_ok(2)
          result_ok_value [OF er_ok(1)]]
      show ?thesis unfolding ws' using finish_node_inv [OF inv dep] by blast
    qed
  qed
qed

lemma run_nodes_inv:
  assumes "config_ok I cfg" "env_ok I env" "value_ok input_value"
  shows "run_nodes env ix cfg wfn input_value ns (length done) ws s = Some (ws', s') \<Longrightarrow>
    workflow_inv I done ws s \<Longrightarrow> workflow_inv I (done @ ns) ws' s'"
proof (induction ns arbitrary: "done" ws s)
  case (Cons n ns)
  from Cons.prems(1) obtain ws1 s1 where
    n: "run_node env ix cfg wfn input_value n (length done) ws s = Some (ws1, s1)"
    and rest: "run_nodes env ix cfg wfn input_value ns (length (done @ [n])) ws1 s1 = Some (ws', s')"
    by (auto simp: run_simps)
  from Cons.IH [OF rest run_node_inv [OF Cons.prems(2) assms n]] show ?case by simp
qed simp

lemma initial_workflow_inv:
  "I s \<Longrightarrow> workflow_inv I [] \<lparr>ws_result = empty_workflow_result, node_outputs = [], failed_nodes = []\<rparr> s"
  by (simp add: workflow_inv_def empty_workflow_result_def)

text \<open>The return expression adds an output, or turns the status into an evaluation error.\<close>

lemma eval_return_ok:
  assumes run: "eval_return cfg wfn w input_value outputs res s = Some (res', s')"
    and cfg: "config_ok I cfg" "value_ok input_value" "\<forall>v \<in> snd ` set outputs. value_ok v" "I s"
    and res: "wf_status res = WfCompleted" "\<not> has_error (wf_diags res)" "bag_ok (wf_diags res)" "wf_output res = None"
  shows "(wf_status res' = WfCompleted \<longleftrightarrow> \<not> has_error (wf_diags res')) \<and> bag_ok (wf_diags res') \<and>
    (\<forall>v. wf_output res' = Some v \<longrightarrow> wf_status res' = WfCompleted \<and> value_ok v) \<and>
    wf_status res' \<in> {WfCompleted, WfEvalError} \<and>
    execution_order res' = execution_order res \<and> node_results res' = node_results res \<and> I s'"
proof (cases "return_value w")
  case None
  with run res cfg(4) show ?thesis by (auto simp: eval_return_def)
next
  case (Some e)
  with run obtain r where r: "eval_workflow_expression cfg e input_value outputs
      (empty_invocation_context\<lparr>ic_workflow_name := wfn\<rparr>) s = Some (r, s')"
    and res': "res' = (if has_errors r then res\<lparr>wf_status := WfEvalError, wf_diags := bag_append (wf_diags res) (eval_diags r)\<rparr>
      else res\<lparr>wf_output := Some (eval_value r)\<rparr>)"
    by (auto simp: eval_return_def run_simps)
  from eval_m_okD [OF eval_workflow_expression_ok [OF cfg(1-3)] cfg(4) r] res show ?thesis
    by (auto simp: res' result_ok_def has_errors_def)
qed

text \<open>
  The run of a workflow: when the topological order is complete every node has one result, in
  that order; the status is completed exactly when there is no error; it is dependency-failed
  only when the order is incomplete.
\<close>

lemma run_workflow_cases:
  assumes run: "run_workflow env ds cfg wfn input_value s = Some (res, s')"
    and w: "find_workflow (rebuild ds) wfn = Some w" "nodes w \<noteq> []" "\<not> has_unresolved_or_cyclic_dependencies w"
    and ok: "config_ok I cfg" "env_ok I env" "value_ok input_value" "I s"
  obtains ws s1 where "workflow_inv I (topological_order w) ws s1"
    "execution_order res = execution_order (ws_result ws)" "node_results res = node_results (ws_result ws)"
    "wf_status res = WfCompleted \<longleftrightarrow> \<not> has_error (wf_diags res)"
    "wf_status res \<noteq> WfDependencyFailed" "bag_ok (wf_diags res)"
    "\<And>v. wf_output res = Some v \<Longrightarrow> wf_status res = WfCompleted \<and> value_ok v" "I s'"
    "wf_status (ws_result ws) \<noteq> WfCompleted \<Longrightarrow> wf_status res = wf_status (ws_result ws)"
proof -
  let ?o = "topological_order w"
  have len: "length ?o = length (nodes w)" using w(3) by (simp add: has_unresolved_or_cyclic_dependencies_def)
  with run w obtain ws s1 where
    nodes: "run_nodes env (rebuild ds) cfg wfn input_value ?o (length ([] :: workflow_node list))
      \<lparr>ws_result = empty_workflow_result, node_outputs = [], failed_nodes = []\<rparr> s = Some (ws, s1)"
    and fin: "(if wf_status (ws_result ws) = WfCompleted
       then eval_return cfg wfn w input_value (node_outputs ws) (ws_result ws) s1
       else Some (ws_result ws, s1)) = Some (res, s')"
    by (auto simp: run_workflow_def Let_def run_eq_Some)
  from run_nodes_inv [OF ok(1-3) nodes initial_workflow_inv] ok(4)
  have inv: "workflow_inv I ?o ws s1" by simp
  show ?thesis
  proof (cases "wf_status (ws_result ws) = WfCompleted")
    case True
    with fin have ret: "eval_return cfg wfn w input_value (node_outputs ws) (ws_result ws) s1 = Some (res, s')"
      by simp
    have "\<forall>v \<in> snd ` set (node_outputs ws). value_ok v" "I s1" "\<not> has_error (wf_diags (ws_result ws))"
      "bag_ok (wf_diags (ws_result ws))" "wf_output (ws_result ws) = None"
      using inv True unfolding workflow_inv_def by simp_all
    note er = eval_return_ok [OF ret ok(1,3) this(1,2) True this(3-5)]
    show ?thesis by (rule that [OF inv]) (use er True in auto)
  next
    case False
    with fin have "res = ws_result ws" "s' = s1" by simp_all
    with inv show ?thesis by (intro that [OF inv]) (auto simp: workflow_inv_def)
  qed
qed

end
