(* ===== verification/Analysis.thy ===== *)
theory Analysis
  imports Program_Index Capability Executor
begin

section \<open>Derived analyses\<close>

text \<open>
  \<open>src/compiler/ir/analysis.cpp\<close> and the observation collector of \<open>src/compiler/ir/ir_lower.cpp\<close>:
  summaries of state handlers (the states a handler may go to, whether it may return or fall
  through, what it assigns and calls), the values a workflow expression reads, the formal
  observations, and the revision that says whether they are up to date. Dereferencing a null
  reference is undefined behaviour and gives \<^const>\<open>None\<close>. The soundness of the summaries is
  stated against the executor.
\<close>

subsection \<open>Traversals\<close>

text \<open>
  Both collectors visit an expression and then its subexpressions in source order, through
  references they do not check.
\<close>

fun fold_refs :: "('b \<Rightarrow> 'a \<Rightarrow> 'a option) \<Rightarrow> 'b option list \<Rightarrow> 'a \<Rightarrow> 'a option" where
  "fold_refs f [] acc = Some acc"
| "fold_refs f (None # rs) acc = None"
| "fold_refs f (Some x # rs) acc =
     (case f x acc of None \<Rightarrow> None | Some acc' \<Rightarrow> fold_refs f rs acc')"

lemma fold_refs_cong [fundef_cong]:
  "rs = rs' \<Longrightarrow> acc = acc' \<Longrightarrow> (\<And>x a. Some x \<in> set rs' \<Longrightarrow> f x a = g x a) \<Longrightarrow>
    fold_refs f rs acc = fold_refs g rs' acc'"
proof (induction rs arbitrary: rs' acc acc')
  case (Cons r rs)
  then show ?case by (cases r) (auto split: option.split)
qed simp

function walk_expr :: "(expr \<Rightarrow> 'a \<Rightarrow> 'a) \<Rightarrow> expr \<Rightarrow> 'a \<Rightarrow> 'a option" where
  "walk_expr visit e acc = fold_refs (\<lambda>x a. walk_expr visit x a) (child_refs e) (visit e acc)"
  by pat_completeness auto
termination
  by (relation "measure (\<lambda>(_, e, _). size e)") (auto simp: set_child_refs size_subexprs)

declare walk_expr.simps [simp del]

definition push_unique :: "'a \<Rightarrow> 'a list \<Rightarrow> 'a list" where
  "push_unique x xs = (if x \<in> set xs then xs else xs @ [x])"

definition collect_called_targets_from_expr :: "expr \<Rightarrow> string list \<Rightarrow> string list option" where
  "collect_called_targets_from_expr e targets =
     walk_expr (\<lambda>x acc. case x of CallExpr callee _ \<Rightarrow> push_unique callee acc | _ \<Rightarrow> acc) e targets"

subsection \<open>State handler summaries\<close>

record summary =
  goto_targets :: "string list"
  may_return :: bool
  may_fallthrough :: bool
  assigned_paths :: "path list"
  called_targets :: "string list"
  assert_count :: nat

definition empty_summary :: summary where
  "empty_summary =
     \<lparr>goto_targets = [], may_return = False, may_fallthrough = True, assigned_paths = [],
      called_targets = [], assert_count = 0\<rparr>"

definition merge_flow_summary :: "summary \<Rightarrow> summary \<Rightarrow> summary" where
  "merge_flow_summary target other =
     target\<lparr>goto_targets := fold push_unique (goto_targets other) (goto_targets target),
            assigned_paths := fold push_unique (assigned_paths other) (assigned_paths target),
            called_targets := fold push_unique (called_targets other) (called_targets target),
            may_return := may_return target \<or> may_return other,
            assert_count := assert_count target + assert_count other\<rparr>"

text \<open>A summary that starts with the calls of an expression.\<close>

definition calls_summary :: "expr_ref \<Rightarrow> summary option" where
  "calls_summary e =
     (case e of
        None \<Rightarrow> None
      | Some x \<Rightarrow>
          map_option (\<lambda>ts. empty_summary\<lparr>called_targets := ts\<rparr>) (collect_called_targets_from_expr x []))"

fun summarize_statement :: "statement \<Rightarrow> summary option"
  and summarize_stmts :: "summary \<Rightarrow> block \<Rightarrow> summary option" where
  "summarize_statement (LetStatement n e) = calls_summary e"
| "summarize_statement (AssignStatement target e) =
     map_option (\<lambda>sm. sm\<lparr>assigned_paths := [target]\<rparr>) (calls_summary e)"
| "summarize_statement (IfStatement cond then_block else_block) =
     (case calls_summary cond of
        None \<Rightarrow> None
      | Some sm \<Rightarrow>
          (case then_block of
             None \<Rightarrow> None
           | Some tb \<Rightarrow>
               (case summarize_stmts empty_summary tb of
                  None \<Rightarrow> None
                | Some ts \<Rightarrow>
                    (case else_block of
                       None \<Rightarrow> Some ((merge_flow_summary sm ts)\<lparr>may_fallthrough := True\<rparr>)
                     | Some eb \<Rightarrow>
                         (case summarize_stmts empty_summary eb of
                            None \<Rightarrow> None
                          | Some es \<Rightarrow>
                              Some ((merge_flow_summary (merge_flow_summary sm ts) es)
                                \<lparr>may_fallthrough := may_fallthrough ts \<or> may_fallthrough es\<rparr>))))))"
| "summarize_statement (GotoStatement t) =
     Some (empty_summary\<lparr>goto_targets := [t], may_fallthrough := False\<rparr>)"
| "summarize_statement (ReturnStatement e) =
     map_option (\<lambda>sm. sm\<lparr>may_return := True, may_fallthrough := False\<rparr>)
       (if e = None then Some empty_summary else calls_summary e)"
| "summarize_statement (AssertStatement e) =
     map_option (\<lambda>sm. sm\<lparr>assert_count := 1\<rparr>) (calls_summary e)"
| "summarize_statement (ExprStatement e) = calls_summary e"
| "summarize_stmts sm [] = Some sm"
| "summarize_stmts sm (x # xs) =
     (if \<not> may_fallthrough sm then Some sm
      else
        (case x of
           None \<Rightarrow> None
         | Some st \<Rightarrow>
             (case summarize_statement st of
                None \<Rightarrow> None
              | Some ss \<Rightarrow>
                  summarize_stmts ((merge_flow_summary sm ss)\<lparr>may_fallthrough := may_fallthrough ss\<rparr>) xs)))"

definition summarize_block :: "block \<Rightarrow> summary option" where
  "summarize_block b = summarize_stmts empty_summary b"

subsection \<open>Workflow expression summaries\<close>

record workflow_value_read =
  read_kind :: workflow_value_source_kind
  read_root :: string
  read_members :: "string list"

definition visit_workflow_read ::
  "string list \<Rightarrow> expr \<Rightarrow> workflow_value_read list \<Rightarrow> workflow_value_read list" where
  "visit_workflow_read node_names e reads =
     (case e of
        PathExpr p \<Rightarrow>
          if root_kind p = RootInput then
            push_unique \<lparr>read_kind = WorkflowInput, read_root = root_name p, read_members = members p\<rparr> reads
          else if root_kind p \<noteq> RootIdentifier then reads
          else if root_name p \<notin> set node_names then reads
          else push_unique \<lparr>read_kind = WorkflowNodeOutput, read_root = root_name p, read_members = members p\<rparr> reads
      | _ \<Rightarrow> reads)"

definition collect_workflow_value_reads ::
  "expr \<Rightarrow> string list \<Rightarrow> workflow_value_read list \<Rightarrow> workflow_value_read list option" where
  "collect_workflow_value_reads e node_names reads = walk_expr (visit_workflow_read node_names) e reads"

definition summarize_workflow_expr :: "expr \<Rightarrow> string list \<Rightarrow> workflow_value_read list option" where
  "summarize_workflow_expr e node_names = collect_workflow_value_reads e node_names []"

subsection \<open>Formal observations\<close>

datatype observation_scope_kind = ContractClause | WorkflowSafetyClause | WorkflowLivenessClause

record observation_scope =
  scope_kind :: observation_scope_kind
  scope_owner :: string
  clause_index :: nat
  atom_index :: nat

datatype observation_node =
    CalledCapabilityObservation string string
  | EmbeddedBoolObservation observation_scope

type_synonym observation = "string \<times> observation_node"

definition is_alnum_char :: "char \<Rightarrow> bool" where
  "is_alnum_char c \<longleftrightarrow>
     is_digit_char c \<or> (65 \<le> (of_char c :: nat) \<and> (of_char c :: nat) \<le> 90) \<or>
     (97 \<le> (of_char c :: nat) \<and> (of_char c :: nat) \<le> 122)"

text \<open>The loop that replaces a double underscore until there is none.\<close>

fun collapse_underscores :: "string \<Rightarrow> string" where
  "collapse_underscores (a # b # cs) =
     (if a = CHR ''_'' \<and> b = CHR ''_'' then collapse_underscores (b # cs)
      else a # collapse_underscores (b # cs))"
| "collapse_underscores cs = cs"

definition sanitize_identifier :: "string \<Rightarrow> string" where
  "sanitize_identifier name =
     (let s = collapse_underscores (map (\<lambda>c. if is_alnum_char c then c else CHR ''_'') name)
      in if s = [] then ''id'' else if is_digit_char (hd s) then ''n_'' @ s else s)"

definition called_observation_symbol :: "string \<Rightarrow> string \<Rightarrow> string" where
  "called_observation_symbol agent capability =
     ''agent__'' @ sanitize_identifier agent @ ''__called__'' @ sanitize_identifier capability"

definition observation_scope_base_name :: "observation_scope \<Rightarrow> string" where
  "observation_scope_base_name sc =
     (case scope_kind sc of
        ContractClause \<Rightarrow> ''contract__'' @ scope_owner sc @ ''__'' @ nat_to_string (clause_index sc)
      | WorkflowSafetyClause \<Rightarrow>
          ''workflow__'' @ scope_owner sc @ ''__safety__'' @ nat_to_string (clause_index sc)
      | WorkflowLivenessClause \<Rightarrow>
          ''workflow__'' @ scope_owner sc @ ''__liveness__'' @ nat_to_string (clause_index sc))"

definition embedded_observation_symbol :: "observation_scope \<Rightarrow> string" where
  "embedded_observation_symbol sc =
     sanitize_identifier (observation_scope_base_name sc @ ''__atom__'' @ nat_to_string (atom_index sc))"

definition add_called_observation :: "string \<Rightarrow> string \<Rightarrow> observation list \<Rightarrow> observation list" where
  "add_called_observation agent capability obs =
     emplace (called_observation_symbol agent capability) (CalledCapabilityObservation agent capability) obs"

definition add_embedded_observation :: "observation_scope \<Rightarrow> observation list \<Rightarrow> observation list" where
  "add_embedded_observation sc obs =
     emplace (embedded_observation_symbol sc) (EmbeddedBoolObservation sc) obs"

definition collect_agent :: "agent_decl \<Rightarrow> observation list \<Rightarrow> observation list" where
  "collect_agent agent obs =
     fold (\<lambda>ref obs.
        let name = symbol_canonical_name ref []
        in if name \<noteq> [] then add_called_observation (agent_name agent) name obs else obs)
       (capability_refs agent) obs"

text \<open>The two formula walks; the atom counter is threaded through.\<close>

fun collect_formula ::
  "(string \<Rightarrow> observation list \<Rightarrow> observation list) \<Rightarrow> observation_scope \<Rightarrow> temporal_expr \<Rightarrow>
    observation list \<times> nat \<Rightarrow> (observation list \<times> nat) option" where
  "collect_formula called sc (EmbeddedTemporalExpr e) (obs, atom) =
     Some (add_embedded_observation (sc\<lparr>atom_index := atom\<rparr>) obs, atom + 1)"
| "collect_formula called sc (CalledTemporalExpr cap) (obs, atom) = Some (called cap obs, atom)"
| "collect_formula called sc (TemporalUnaryExpr op (Some e)) st = collect_formula called sc e st"
| "collect_formula called sc (TemporalBinaryExpr op (Some l) (Some r)) st =
     (case collect_formula called sc l st of
        None \<Rightarrow> None
      | Some st' \<Rightarrow> collect_formula called sc r st')"
| "collect_formula called sc (TemporalUnaryExpr op None) st = None"
| "collect_formula called sc (TemporalBinaryExpr op l r) st = None"
| "collect_formula called sc t st = Some st"

definition collect_contract_formula ::
  "string \<Rightarrow> nat \<Rightarrow> temporal_expr \<Rightarrow> observation list \<Rightarrow> observation list option" where
  "collect_contract_formula agent clause t obs =
     map_option fst
       (collect_formula (add_called_observation agent)
         \<lparr>scope_kind = ContractClause, scope_owner = agent, clause_index = clause, atom_index = 0\<rparr> t (obs, 0))"

definition collect_workflow_formula ::
  "observation_scope_kind \<Rightarrow> string \<Rightarrow> nat \<Rightarrow> temporal_expr \<Rightarrow> observation list \<Rightarrow> observation list option" where
  "collect_workflow_formula kind workflow clause t obs =
     map_option fst
       (collect_formula (\<lambda>cap obs. obs)
         \<lparr>scope_kind = kind, scope_owner = workflow, clause_index = clause, atom_index = 0\<rparr> t (obs, 0))"

fun collect_clauses ::
  "('a \<Rightarrow> nat \<Rightarrow> observation list \<Rightarrow> observation list option) \<Rightarrow> 'a list \<Rightarrow> nat \<Rightarrow> observation list \<Rightarrow>
    observation list option" where
  "collect_clauses f [] i obs = Some obs"
| "collect_clauses f (c # cs) i obs =
     (case f c i obs of None \<Rightarrow> None | Some obs' \<Rightarrow> collect_clauses f cs (i + 1) obs')"

definition collect_contract :: "contract_decl \<Rightarrow> observation list \<Rightarrow> observation list option" where
  "collect_contract contract obs =
     (let target = symbol_canonical_name (contract_target contract) []
      in collect_clauses
           (\<lambda>cl i obs.
              case clause_value cl of
                ClauseExpr _ \<Rightarrow>
                  Some (add_embedded_observation
                    \<lparr>scope_kind = ContractClause, scope_owner = target, clause_index = i, atom_index = 0\<rparr> obs)
              | ClauseTemporal None \<Rightarrow> None
              | ClauseTemporal (Some t) \<Rightarrow> collect_contract_formula target i t obs)
           (clauses contract) 0 obs)"

definition collect_workflow :: "workflow_decl \<Rightarrow> observation list \<Rightarrow> observation list option" where
  "collect_workflow w obs =
     (let formula = (\<lambda>kind t i obs.
            case t of
              None \<Rightarrow> None
            | Some x \<Rightarrow> collect_workflow_formula kind (workflow_name w) i x obs)
      in case collect_clauses (formula WorkflowSafetyClause) (safety w) 0 obs of
           None \<Rightarrow> None
         | Some obs' \<Rightarrow> collect_clauses (formula WorkflowLivenessClause) (liveness w) 0 obs')"

fun collect_decls :: "decl list \<Rightarrow> observation list \<Rightarrow> observation list option" where
  "collect_decls [] obs = Some obs"
| "collect_decls (d # ds) obs =
     (case (case d of
              AgentDecl a \<Rightarrow> Some (collect_agent a obs)
            | ContractDecl c \<Rightarrow> collect_contract c obs
            | WorkflowDecl w \<Rightarrow> collect_workflow w obs
            | _ \<Rightarrow> Some obs) of
        None \<Rightarrow> None
      | Some obs' \<Rightarrow> collect_decls ds obs')"

definition collect_formal_observations :: "decl list \<Rightarrow> observation list option" where
  "collect_formal_observations ds = collect_decls ds []"

subsection \<open>The program and its analyses\<close>

datatype program_phase = Lowered | Analyzed | Optimized

record handler_summary_entry =
  hs_flow_target :: string
  hs_state_name :: string
  hs_handler_index :: nat
  hs_summary :: summary

record node_summary_entry =
  ns_workflow_name :: string
  ns_node_name :: string
  ns_node_index :: nat
  ns_reads :: "workflow_value_read list"

record return_summary_entry =
  rs_workflow_name :: string
  rs_reads :: "workflow_value_read list"

record analysis_bundle =
  source_program_revision :: int
  state_handler_summaries :: "handler_summary_entry list"
  workflow_node_input_summaries :: "node_summary_entry list"
  workflow_return_summaries :: "return_summary_entry list"
  formal_observations :: "observation list"

record program =
  format_version :: string
  phase :: program_phase
  analysis_revision :: int
  declarations :: "decl list"
  analyses :: analysis_bundle

datatype analysis_kind = StateHandlerSummaries | WorkflowExprSummaries | FormalObservations

definition all_derived_analysis_kinds :: "analysis_kind list" where
  "all_derived_analysis_kinds = [StateHandlerSummaries, WorkflowExprSummaries, FormalObservations]"

definition requires_state_handler_summaries :: "program \<Rightarrow> bool" where
  "requires_state_handler_summaries p \<longleftrightarrow>
     list_ex (\<lambda>d. case d of FlowDecl f \<Rightarrow> state_handlers f \<noteq> [] | _ \<Rightarrow> False) (declarations p)"

definition requires_workflow_expr_summaries :: "program \<Rightarrow> bool" where
  "requires_workflow_expr_summaries p \<longleftrightarrow>
     list_ex (\<lambda>d. case d of WorkflowDecl w \<Rightarrow> True | _ \<Rightarrow> False) (declarations p)"

definition has_required_analysis_entries :: "program \<Rightarrow> analysis_kind \<Rightarrow> bool" where
  "has_required_analysis_entries p k =
     (case k of
        StateHandlerSummaries \<Rightarrow>
          \<not> requires_state_handler_summaries p \<or> state_handler_summaries (analyses p) \<noteq> []
      | WorkflowExprSummaries \<Rightarrow>
          \<not> requires_workflow_expr_summaries p \<or> workflow_return_summaries (analyses p) \<noteq> []
      | FormalObservations \<Rightarrow> True)"

text \<open>The revision is a \<open>uint64_t\<close>.\<close>

definition mark_derived_analyses_stale :: "program \<Rightarrow> program" where
  "mark_derived_analyses_stale p = p\<lparr>analysis_revision := (analysis_revision p + 1) mod 2 ^ 64\<rparr>"

definition has_fresh_derived_analyses :: "program \<Rightarrow> analysis_kind list \<Rightarrow> bool" where
  "has_fresh_derived_analyses p required \<longleftrightarrow>
     (if required = [] then True
      else if phase p = Lowered then False
      else if source_program_revision (analyses p) \<noteq> analysis_revision p then False
      else list_all (has_required_analysis_entries p) required)"

definition flow_target_name :: "flow_decl \<Rightarrow> string" where
  "flow_target_name f = symbol_canonical_name (flow_target f) []"

definition workflow_owner_name :: "workflow_decl \<Rightarrow> string" where
  "workflow_owner_name w = symbol_canonical_name (workflow_symbol w) (workflow_name w)"

text \<open>Lookups: a handler or node is given by its position (the code compares addresses).\<close>

definition find_state_handler_summary :: "program \<Rightarrow> flow_decl \<Rightarrow> nat \<Rightarrow> summary option" where
  "find_state_handler_summary p f i =
     map_option hs_summary
       (find (\<lambda>en. hs_flow_target en = flow_target_name f \<and> hs_handler_index en = i \<and>
                  hs_state_name en = handler_state (state_handlers f ! i))
          (state_handler_summaries (analyses p)))"

definition find_workflow_node_input_summary ::
  "program \<Rightarrow> workflow_decl \<Rightarrow> nat \<Rightarrow> workflow_value_read list option" where
  "find_workflow_node_input_summary p w i =
     map_option ns_reads
       (find (\<lambda>en. ns_workflow_name en = workflow_owner_name w \<and> ns_node_index en = i \<and>
                  ns_node_name en = node_name (nodes w ! i))
          (workflow_node_input_summaries (analyses p)))"

definition find_workflow_return_summary :: "program \<Rightarrow> workflow_decl \<Rightarrow> workflow_value_read list option" where
  "find_workflow_return_summary p w =
     map_option rs_reads
       (find (\<lambda>en. rs_workflow_name en = workflow_owner_name w) (workflow_return_summaries (analyses p)))"

text \<open>A list of results, undefined when one is.\<close>

fun sequence :: "'a option list \<Rightarrow> 'a list option" where
  "sequence [] = Some []"
| "sequence (None # xs) = None"
| "sequence (Some x # xs) = map_option (\<lambda>ys. x # ys) (sequence xs)"

definition flow_entries :: "flow_decl \<Rightarrow> handler_summary_entry list option" where
  "flow_entries f =
     sequence (map (\<lambda>(i, h).
       map_option (\<lambda>sm.
         \<lparr>hs_flow_target = flow_target_name f, hs_state_name = handler_state h,
          hs_handler_index = i, hs_summary = sm\<rparr>) (summarize_block (body h)))
       (zip [0..<length (state_handlers f)] (state_handlers f)))"

definition recompute_state_handler_summaries :: "program \<Rightarrow> program option" where
  "recompute_state_handler_summaries p =
     map_option (\<lambda>ess. p\<lparr>analyses := (analyses p)\<lparr>state_handler_summaries := concat ess\<rparr>\<rparr>)
       (sequence (map flow_entries (flows_of (declarations p))))"

definition optional_reads :: "expr_ref \<Rightarrow> string list \<Rightarrow> workflow_value_read list option" where
  "optional_reads e names =
     (case e of None \<Rightarrow> Some [] | Some x \<Rightarrow> summarize_workflow_expr x names)"

definition workflow_entries ::
  "workflow_decl \<Rightarrow> (node_summary_entry list \<times> return_summary_entry) option" where
  "workflow_entries w =
     (let names = map node_name (nodes w); owner = workflow_owner_name w
      in case sequence (map (\<lambda>(i, n).
                map_option (\<lambda>rs.
                  \<lparr>ns_workflow_name = owner, ns_node_name = node_name n, ns_node_index = i, ns_reads = rs\<rparr>)
                  (optional_reads (node_input n) names))
                (zip [0..<length (nodes w)] (nodes w))) of
           None \<Rightarrow> None
         | Some entries \<Rightarrow>
             map_option (\<lambda>rs. (entries, \<lparr>rs_workflow_name = owner, rs_reads = rs\<rparr>))
               (optional_reads (return_value w) names))"

definition recompute_workflow_expr_summaries :: "program \<Rightarrow> program option" where
  "recompute_workflow_expr_summaries p =
     map_option (\<lambda>ess. p\<lparr>analyses := (analyses p)
         \<lparr>workflow_node_input_summaries := concat (map fst ess), workflow_return_summaries := map snd ess\<rparr>\<rparr>)
       (sequence (map workflow_entries (workflows_of (declarations p))))"

definition recompute_formal_observations :: "program \<Rightarrow> program option" where
  "recompute_formal_observations p =
     map_option (\<lambda>obs. p\<lparr>analyses := (analyses p)\<lparr>formal_observations := obs\<rparr>\<rparr>)
       (collect_formal_observations (declarations p))"

definition recompute_derived_analyses :: "program \<Rightarrow> program_phase \<Rightarrow> program option" where
  "recompute_derived_analyses p ph =
     (case recompute_state_handler_summaries p of
        None \<Rightarrow> None
      | Some p1 \<Rightarrow>
          (case recompute_workflow_expr_summaries p1 of
             None \<Rightarrow> None
           | Some p2 \<Rightarrow>
               (case recompute_formal_observations p2 of
                  None \<Rightarrow> None
                | Some p3 \<Rightarrow>
                    Some (p3\<lparr>analyses := (analyses p3)\<lparr>source_program_revision := analysis_revision p3\<rparr>,
                             phase := ph\<rparr>))))"

definition ensure_derived_analyses ::
  "program \<Rightarrow> analysis_kind list \<Rightarrow> program_phase \<Rightarrow> program option" where
  "ensure_derived_analyses p required ph =
     (if has_fresh_derived_analyses p required then Some p else recompute_derived_analyses p ph)"

subsection \<open>Called targets\<close>

text \<open>\<open>calls e f\<close>: somewhere in \<open>e\<close> there is a call of \<open>f\<close>.\<close>

inductive calls :: "expr \<Rightarrow> string \<Rightarrow> bool" where
  here: "calls (CallExpr f args) f"
| sub: "x \<in> set (subexprs e) \<Longrightarrow> calls x f \<Longrightarrow> calls e f"

lemma calls_iff: "calls e f \<longleftrightarrow> (\<exists>args. e = CallExpr f args) \<or> (\<exists>x \<in> set (subexprs e). calls x f)"
  by (subst calls.simps) auto

lemma set_push_unique [simp]: "set (push_unique x xs) = insert x (set xs)"
  by (auto simp: push_unique_def)

lemma set_fold_push_unique [simp]: "set (fold push_unique xs ys) = set xs \<union> set ys"
  by (induction xs arbitrary: ys) auto

lemma fold_refs_set:
  assumes "fold_refs f rs acc = Some acc'"
    and "\<And>x a a'. Some x \<in> set rs \<Longrightarrow> f x a = Some a' \<Longrightarrow> set a' = set a \<union> S x"
  shows "set acc' = set acc \<union> (\<Union>x \<in> {x. Some x \<in> set rs}. S x)"
  using assms
proof (induction rs arbitrary: acc)
  case (Cons r rs)
  then obtain x a where r: "r = Some x" and x: "f x acc = Some a" and rest: "fold_refs f rs a = Some acc'"
    by (cases r) (auto split: option.splits)
  have "set a = set acc \<union> S x" using Cons.prems(2) x r by simp
  moreover have "set acc' = set a \<union> (\<Union>x \<in> {x. Some x \<in> set rs}. S x)"
    using Cons.IH [OF rest] Cons.prems(2) by simp
  ultimately show ?case by (auto simp: r)
qed simp

lemma walk_expr_set:
  assumes visit: "\<And>e acc. set (visit e acc) = set acc \<union> V e"
    and S: "\<And>e. S e = V e \<union> (\<Union>x \<in> set (subexprs e). S x)"
  shows "walk_expr visit e acc = Some acc' \<Longrightarrow> set acc' = set acc \<union> S e"
proof (induction e arbitrary: acc acc' rule: expr_sub_induct)
  case (expr e)
  from expr.prems have "fold_refs (\<lambda>x a. walk_expr visit x a) (child_refs e) (visit e acc) = Some acc'"
    by (subst (asm) walk_expr.simps)
  then have "set acc' = set (visit e acc) \<union> (\<Union>x \<in> {x. Some x \<in> set (child_refs e)}. S x)"
    by (rule fold_refs_set) (simp add: expr.IH set_child_refs)
  then show ?case by (subst S) (auto simp: visit set_child_refs)
qed

lemma collect_called_targets_set:
  "collect_called_targets_from_expr e acc = Some ts \<Longrightarrow> set ts = set acc \<union> {f. calls e f}"
  unfolding collect_called_targets_from_expr_def
proof (rule walk_expr_set [where V = "\<lambda>e. case e of CallExpr f _ \<Rightarrow> {f} | _ \<Rightarrow> {}" and S = "\<lambda>e. {f. calls e f}"])
  show "{f. calls e f} = (case e of CallExpr f _ \<Rightarrow> {f} | _ \<Rightarrow> {}) \<union> (\<Union>x \<in> set (subexprs e). {f. calls x f})" for e
    by (subst calls_iff) (auto split: expr.splits)
qed (auto split: expr.split)

text \<open>Evaluation depends on the call evaluator at the called targets only.\<close>

lemma eval_fields_cong:
  "\<forall>x. Some x \<in> snd ` set fs \<longrightarrow> eval_expr_impl h c x = eval_expr_impl h' c x \<Longrightarrow>
    eval_fields h c fs acc d s = eval_fields h' c fs acc d s"
proof (induction fs arbitrary: acc d s)
  case (Cons f fs)
  then show ?case by (cases f; cases "snd f") (auto split: option.split)
qed simp

lemma eval_items_cong:
  "\<forall>x. Some x \<in> set es \<longrightarrow> eval_expr_impl h c x = eval_expr_impl h' c x \<Longrightarrow>
    eval_items h c es acc d s = eval_items h' c es acc d s"
proof (induction es arbitrary: acc d s)
  case (Cons x es)
  then show ?case by (cases x) (auto split: option.split)
qed simp

lemma eval_expr_impl_agree:
  "(\<And>f. calls e f \<Longrightarrow> ce f = ce' f) \<Longrightarrow> eval_expr_impl (Some ce) c e = eval_expr_impl (Some ce') c e"
proof (induction e rule: expr_sub_induct)
  case (expr e)
  have IH: "x \<in> set (subexprs e) \<Longrightarrow> eval_expr_impl (Some ce) c x = eval_expr_impl (Some ce') c x" for x
    using expr by (meson calls.sub)
  show ?case
  proof (cases e rule: expr_shape)
    case (Call f args)
    have "map (map_option (\<lambda>e s. eval_expr_impl (Some ce) c e s)) args =
        map (map_option (\<lambda>e s. eval_expr_impl (Some ce') c e s)) args"
      using IH Call by (intro map_cong option.map_cong refl) auto
    moreover have "ce f = ce' f" using expr.prems Call by (simp add: calls.here)
    ultimately show ?thesis unfolding Call
      by (intro ext) (simp del: map_map map_eq_conv list.map_cong0)
  next
    case (Struct n fs)
    have "eval_fields (Some ce) c fs = eval_fields (Some ce') c fs"
      by (intro ext eval_fields_cong allI impI IH) (simp add: Struct)
    then show ?thesis unfolding Struct by (intro ext) simp
  next
    case (ListLit es)
    have "eval_items (Some ce) c es = eval_items (Some ce') c es"
      by (intro ext eval_items_cong allI impI IH) (simp add: ListLit)
    then show ?thesis unfolding ListLit by (intro ext) simp
  qed (use IH in \<open>auto intro!: ext split: option.split\<close>)
qed

lemma capability_call_args_agree:
  "ic f = ic' f \<Longrightarrow> capability_call_args ic f vals args = capability_call_args ic' f vals args"
proof (induction args arbitrary: vals)
  case (Cons a args)
  then show ?case by (cases a) (auto intro!: ext split: option.split)
qed (auto intro!: ext)

lemma eval_with_capabilities_agree:
  assumes "\<And>f. calls e f \<Longrightarrow> g f = g' f"
  shows "eval_expr_with_capabilities (Some g) e c = eval_expr_with_capabilities (Some g') e c"
  unfolding eval_expr_with_capabilities_def eval_expr_with_capability_call_handler_def eval_expr_def
proof (rule eval_expr_impl_agree)
  fix f assume "calls e f"
  then have "invoker_call (Some g) f = invoker_call (Some g') f"
    using assms by (intro ext) (simp add: invoker_call_def)
  then show "capability_call_eval (invoker_call (Some g)) f = capability_call_eval (invoker_call (Some g')) f"
    unfolding capability_call_eval_def by (intro ext, subst capability_call_args_agree) auto
qed

subsection \<open>Soundness of the handler summaries\<close>

text \<open>
  What a summary claims of one execution: the goto target, a return, falling through, a failed
  assertion and the assigned fields of the context are all announced.
\<close>

definition assigns :: "summary \<Rightarrow> string \<Rightarrow> bool" where
  "assigns sm k \<longleftrightarrow>
     (\<exists>p \<in> set (assigned_paths sm). root_kind p = RootContext \<and> members p \<noteq> [] \<and> members p ! 0 = k)"

definition announces :: "summary \<Rightarrow> exec_result \<Rightarrow> eval_context \<Rightarrow> eval_context \<Rightarrow> bool" where
  "announces sm r c c' \<longleftrightarrow>
     (\<forall>t. outcome r = ExecGoto t \<longrightarrow> t \<in> set (goto_targets sm)) \<and>
     (\<forall>v. outcome r = ExecReturn v \<longrightarrow> may_return sm) \<and>
     (outcome r = ExecContinue \<and> \<not> exec_has_errors r \<longrightarrow> may_fallthrough sm) \<and>
     (\<forall>m. outcome r = ExecAssertFailed m \<longrightarrow> 0 < assert_count sm) \<and>
     (\<forall>k. ctx_scope c' k \<noteq> ctx_scope c k \<longrightarrow> assigns sm k)"

text \<open>The order on summaries in which merging goes up (falling through apart).\<close>

definition summary_le :: "summary \<Rightarrow> summary \<Rightarrow> bool" where
  "summary_le a b \<longleftrightarrow>
     set (goto_targets a) \<subseteq> set (goto_targets b) \<and> (may_return a \<longrightarrow> may_return b) \<and>
     set (assigned_paths a) \<subseteq> set (assigned_paths b) \<and> set (called_targets a) \<subseteq> set (called_targets b) \<and>
     assert_count a \<le> assert_count b"

lemma summary_le_refl [simp]: "summary_le a a"
  by (simp add: summary_le_def)

lemma summary_le_trans: "summary_le a b \<Longrightarrow> summary_le b c \<Longrightarrow> summary_le a c"
  unfolding summary_le_def by (meson order_trans)

lemma merge_le:
  "summary_le a (merge_flow_summary a b)" "summary_le b (merge_flow_summary a b)"
  "summary_le a ((merge_flow_summary a b)\<lparr>may_fallthrough := x\<rparr>)"
  "summary_le b ((merge_flow_summary a b)\<lparr>may_fallthrough := x\<rparr>)"
  "summary_le c a \<Longrightarrow> summary_le c ((merge_flow_summary a b)\<lparr>may_fallthrough := x\<rparr>)"
  by (auto simp: summary_le_def merge_flow_summary_def)

lemma summarize_stmts_le: "summarize_stmts sm b = Some sm' \<Longrightarrow> summary_le sm sm'"
proof (induction b arbitrary: sm)
  case (Cons x b)
  show ?case
  proof (cases "may_fallthrough sm")
    case True
    with Cons.prems obtain st ss where "x = Some st" "summarize_statement st = Some ss"
      and "summarize_stmts ((merge_flow_summary sm ss)\<lparr>may_fallthrough := may_fallthrough ss\<rparr>) b = Some sm'"
      by (cases x) (auto split: option.splits)
    with Cons.IH merge_le(3) summary_le_trans show ?thesis by blast
  qed (use Cons.prems in simp)
qed simp

lemma assigns_le: "assigns a k \<Longrightarrow> set (assigned_paths a) \<subseteq> set (assigned_paths b) \<Longrightarrow> assigns b k"
  by (auto simp: assigns_def)

lemma announces_le:
  "announces sm r c c' \<Longrightarrow> summary_le sm sm' \<Longrightarrow>
    (outcome r = ExecContinue \<Longrightarrow> \<not> exec_has_errors r \<Longrightarrow> may_fallthrough sm') \<Longrightarrow> announces sm' r c c'"
  unfolding announces_def summary_le_def
  by (intro conjI allI impI) (blast intro: assigns_le | force)+

lemma announces_mono:
  "announces sm r c c' \<Longrightarrow> summary_le sm sm' \<Longrightarrow> may_fallthrough sm \<longrightarrow> may_fallthrough sm' \<Longrightarrow> announces sm' r c c'"
  by (rule announces_le) (auto simp: announces_def)

text \<open>Statements that evaluate an expression and go on: nothing but the named effect.\<close>

lemma with_value_announces:
  assumes run: "with_value ee m e k c s = Some ((r, c'), s')" and ft: "may_fallthrough sm \<or> e \<noteq> None"
    and k: "\<And>v s1. k v c s1 = Some ((r, c'), s') \<Longrightarrow> announces sm r c c'"
  shows "announces sm r c c'"
proof (cases e)
  case None
  with run show ?thesis by (auto simp: with_value_def announces_def make_exec_error_def exec_has_errors_def)
next
  case (Some x)
  with run obtain er s1 where "eval_expression ee x c s = Some (er, s1)"
    and "(if has_errors er then Some ((\<lparr>outcome = ExecContinue, exec_diags = eval_diags er\<rparr>, c), s1)
          else k (eval_value er) c s1) = Some ((r, c'), s')"
    by (auto simp: with_value_def run_eq_Some)
  with k show ?thesis
    by (auto simp: announces_def exec_has_errors_def has_errors_def split: if_splits)
qed

lemma announces_same_ctx:
  "ctx_scope c' = ctx_scope c \<Longrightarrow> may_fallthrough sm \<Longrightarrow> announces sm make_continue c c'"
  "announces sm (make_exec_error m) c c"
  by (simp_all add: announces_def make_exec_error_def exec_has_errors_def)

lemma exec_stmts_announces:
  assumes st: "\<forall>x. Some x \<in> set b \<longrightarrow> (\<forall>sm r c c' s s'. summarize_statement x = Some sm \<longrightarrow>
      exec_statement ee x c s = Some ((r, c'), s') \<longrightarrow> announces sm r c c')"
    and "summarize_stmts sm0 b = Some sm" "may_fallthrough sm0"
    and "exec_block ee b c s = Some ((r, c'), s')"
  shows "announces sm r c c'"
  using assms
proof (induction b arbitrary: sm0 c s)
  case Nil
  then show ?case by (auto simp: announces_same_ctx)
next
  case (Cons x b)
  then obtain st ss where x: "x = Some st" and ss: "summarize_statement st = Some ss"
    and rest: "summarize_stmts ((merge_flow_summary sm0 ss)\<lparr>may_fallthrough := may_fallthrough ss\<rparr>) b = Some sm"
    by (cases x) (auto split: option.splits)
  from Cons.prems(4) x obtain r1 c1 s1 where r1: "exec_statement ee st c s = Some ((r1, c1), s1)"
    and next': "(if exec_has_errors r1 \<or> outcome r1 \<noteq> ExecContinue then Some ((r1, c1), s1)
      else exec_block ee b c1 s1) = Some ((r, c'), s')"
    by (auto simp: run_eq_Some)
  have ann: "announces ss r1 c c1" by (rule Cons.prems(1) [rule_format, OF _ ss r1]) (simp add: x)
  have le: "summary_le ss sm" using summarize_stmts_le [OF rest] merge_le(4) summary_le_trans by blast
  show ?case
  proof (cases "exec_has_errors r1 \<or> outcome r1 \<noteq> ExecContinue")
    case True
    with next' have "r = r1" "c' = c1" by simp_all
    with ann le True show ?thesis by (auto intro: announces_le)
  next
    case False
    then have "may_fallthrough ss" using ann by (simp add: announces_def)
    with False next' Cons.IH [OF _ rest] Cons.prems(1) have "announces sm r c1 c'" by simp
    moreover have "assigns sm k" if "ctx_scope c1 k \<noteq> ctx_scope c k" for k
    proof -
      have "assigns ss k" using ann that by (simp add: announces_def)
      then show ?thesis using le by (auto simp: summary_le_def elim: assigns_le)
    qed
    ultimately show ?thesis unfolding announces_def by metis
  qed
qed

lemma calls_summary_fallthrough: "calls_summary e = Some sm \<Longrightarrow> may_fallthrough sm \<and> e \<noteq> None"
  by (auto simp: calls_summary_def empty_summary_def split: option.splits)

lemma exec_statement_announces:
  "summarize_statement st = Some sm \<Longrightarrow> exec_statement ee st c s = Some ((r, c'), s') \<Longrightarrow> announces sm r c c'"
proof (induction st arbitrary: sm r c c' s s' rule: statement_sub_induct)
  case (stmt st)
  show ?case
  proof (cases st)
    case (LetStatement n e)
    with stmt.prems(1) have ft: "may_fallthrough sm" by (auto dest: calls_summary_fallthrough)
    show ?thesis
      by (rule with_value_announces [OF stmt.prems(2) [unfolded LetStatement exec_statement.simps]])
        (use ft in \<open>auto intro!: announces_same_ctx simp: bind_local_def\<close>)
  next
    case (ExprStatement e)
    with stmt.prems(1) have ft: "may_fallthrough sm" by (auto dest: calls_summary_fallthrough)
    show ?thesis
      by (rule with_value_announces [OF stmt.prems(2) [unfolded ExprStatement exec_statement.simps]])
        (use ft in \<open>auto intro!: announces_same_ctx\<close>)
  next
    case (AssignStatement target e)
    with stmt.prems(1) have ft: "may_fallthrough sm" and p: "assigned_paths sm = [target]"
      by (auto dest: calls_summary_fallthrough)
    show ?thesis
    proof (cases "root_kind target = RootContext \<and> members target \<noteq> []")
      case True
      with stmt.prems(2) AssignStatement have
        "with_value ee ''AssignStatement has null value expression'' e
          (\<lambda>v c s. Some ((make_continue, snd (assign_ctx (members target ! 0) v c)), s)) c s = Some ((r, c'), s')"
        by simp
      then show ?thesis
        by (rule with_value_announces)
          (use ft True p in \<open>auto simp: announces_def assign_ctx_def set_ctx_def assigns_def split: if_splits\<close>)
    next
      case False
      with stmt.prems(2) AssignStatement show ?thesis by (auto simp: announces_same_ctx split: if_splits)
    qed
  next
    case (IfStatement cond t e)
    from stmt.prems(1) IfStatement obtain sm0 tb ts where sm0: "calls_summary cond = Some sm0" and tb: "t = Some tb"
      and ts: "summarize_stmts empty_summary tb = Some ts"
      and sm: "e = None \<and> sm = (merge_flow_summary sm0 ts)\<lparr>may_fallthrough := True\<rparr> \<or>
        (\<exists>eb es. e = Some eb \<and> summarize_stmts empty_summary eb = Some es \<and>
          sm = (merge_flow_summary (merge_flow_summary sm0 ts) es)
                 \<lparr>may_fallthrough := may_fallthrough ts \<or> may_fallthrough es\<rparr>)"
      by (auto split: option.splits)
    have blk: "announces bs r c c'"
      if "t = Some b \<or> e = Some b" "summarize_stmts empty_summary b = Some bs"
        "exec_block ee b c s1 = Some ((r, c'), s')" for b bs s1
    proof (rule exec_stmts_announces [OF _ that(2) _ that(3)])
      show "may_fallthrough empty_summary" by (simp add: empty_summary_def)
      show "\<forall>x. Some x \<in> set b \<longrightarrow> (\<forall>sm r c c' s s'. summarize_statement x = Some sm \<longrightarrow>
          exec_statement ee x c s = Some ((r, c'), s') \<longrightarrow> announces sm r c c')"
        using that(1) stmt.IH [of b] IfStatement by auto
    qed
    have ft: "e = None \<Longrightarrow> may_fallthrough sm" using sm by auto
    show ?thesis
    proof (rule with_value_announces [OF stmt.prems(2) [unfolded IfStatement exec_statement.simps]])
      show "may_fallthrough sm \<or> cond \<noteq> None" using calls_summary_fallthrough [OF sm0] by simp
      fix v s1
      assume run: "(case v of
            BoolValue b \<Rightarrow>
              if b then (case t of Some blk \<Rightarrow> exec_block ee blk c s1 | None \<Rightarrow> Some ((make_continue, c), s1))
              else (case e of Some blk \<Rightarrow> exec_block ee blk c s1 | None \<Rightarrow> Some ((make_continue, c), s1))
          | _ \<Rightarrow> Some ((make_exec_error ''if condition must evaluate to Bool'', c), s1)) = Some ((r, c'), s')"
      show "announces sm r c c'"
      proof (cases v)
        case (BoolValue b)
        show ?thesis
        proof (cases b)
          case True
          with run BoolValue tb have "exec_block ee tb c s1 = Some ((r, c'), s')" by simp
          from blk [OF _ ts this] tb have ann: "announces ts r c c'" by simp
          have "summary_le ts sm" "may_fallthrough ts \<longrightarrow> may_fallthrough sm"
            using sm by (auto simp: merge_le intro: summary_le_trans [OF merge_le(2) merge_le(3)])
          with ann show ?thesis by (rule announces_mono)
        next
          case False
          show ?thesis
          proof (cases e)
            case None
            with run BoolValue False ft show ?thesis by (auto simp: announces_same_ctx)
          next
            case (Some eb)
            with sm obtain es where es: "summarize_stmts empty_summary eb = Some es"
              "sm = (merge_flow_summary (merge_flow_summary sm0 ts) es)
                 \<lparr>may_fallthrough := may_fallthrough ts \<or> may_fallthrough es\<rparr>" by auto
            from run BoolValue False Some have "exec_block ee eb c s1 = Some ((r, c'), s')" by simp
            from blk [OF _ es(1) this] Some have ann: "announces es r c c'" by simp
            have "summary_le es sm" "may_fallthrough es \<longrightarrow> may_fallthrough sm" using es(2) by (auto simp: merge_le)
            with ann show ?thesis by (rule announces_mono)
          qed
        qed
      qed (use run in \<open>auto simp: announces_same_ctx\<close>)
    qed
  next
    case (GotoStatement t)
    with stmt.prems show ?thesis by (auto simp: announces_def)
  next
    case (ReturnStatement e)
    then have mr: "may_return sm" using stmt.prems(1) by auto
    show ?thesis
    proof (cases e)
      case None
      with stmt.prems(2) ReturnStatement mr show ?thesis by (auto simp: announces_def)
    next
      case (Some x)
      with stmt.prems(2) ReturnStatement have
        "with_value ee [] e (\<lambda>v c s. Some ((exec_ok (ExecReturn v), c), s)) c s = Some ((r, c'), s')" by simp
      then show ?thesis
        by (rule with_value_announces) (use mr Some in \<open>auto simp: announces_def\<close>)
    qed
  next
    case (AssertStatement e)
    with stmt.prems(1) have ft: "may_fallthrough sm" and ac: "0 < assert_count sm"
      by (auto dest: calls_summary_fallthrough)
    show ?thesis
      by (rule with_value_announces [OF stmt.prems(2) [unfolded AssertStatement exec_statement.simps]])
        (use ft ac in \<open>auto simp: announces_same_ctx announces_def [of _ "exec_ok _"] split: val.splits if_splits\<close>)
  qed
qed

lemma exec_block_announces:
  assumes "summarize_block b = Some sm" "exec_block ee b c s = Some ((r, c'), s')"
  shows "announces sm r c c'"
  by (rule exec_stmts_announces [OF _ assms(1) [unfolded summarize_block_def] _ assms(2)])
    (auto intro: exec_statement_announces simp: empty_summary_def)

text \<open>
  The called targets are complete: invokers that agree on them give the same execution. A call
  that the summary leaves out stands after a statement that always leaves the block.
\<close>

abbreviation invoker_eval :: "'s invoker \<Rightarrow> 's expr_eval option" where
  "invoker_eval g \<equiv> Some (\<lambda>e c. eval_expr_with_capabilities (Some g) e c)"

lemma calls_summary_calls: "calls_summary (Some e) = Some sm \<Longrightarrow> set (called_targets sm) = {f. calls e f}"
  by (auto simp: calls_summary_def dest: collect_called_targets_set)

lemma with_value_agree:
  assumes sm: "e = None \<or> calls_summary e = Some sm" "\<And>f. f \<in> set (called_targets sm) \<Longrightarrow> g f = g' f"
    and k: "\<And>v s1. k v c s1 = k' v c s1"
  shows "with_value (invoker_eval g) m e k c s = with_value (invoker_eval g') m e k' c s"
proof (cases e)
  case (Some x)
  with sm have "eval_expr_with_capabilities (Some g) x c = eval_expr_with_capabilities (Some g') x c"
    by (intro eval_with_capabilities_agree) (auto dest: calls_summary_calls)
  then show ?thesis
    using k by (auto simp: with_value_def Some eval_expression_def split: option.split)
qed (simp add: with_value_def)

lemma exec_stmts_agree:
  assumes "\<forall>x. Some x \<in> set b \<longrightarrow> (\<forall>sm c s. summarize_statement x = Some sm \<longrightarrow>
      (\<forall>f \<in> set (called_targets sm). g f = g' f) \<longrightarrow>
      exec_statement (invoker_eval g) x c s = exec_statement (invoker_eval g') x c s)"
    and "summarize_stmts sm0 b = Some sm" "may_fallthrough sm0" "\<forall>f \<in> set (called_targets sm). g f = g' f"
  shows "exec_block (invoker_eval g) b c s = exec_block (invoker_eval g') b c s"
  using assms
proof (induction b arbitrary: sm0 c s)
  case (Cons x b)
  then obtain st ss where x: "x = Some st" and ss: "summarize_statement st = Some ss"
    and rest: "summarize_stmts ((merge_flow_summary sm0 ss)\<lparr>may_fallthrough := may_fallthrough ss\<rparr>) b = Some sm"
    by (cases x) (auto split: option.splits)
  have "summary_le ss sm" using summarize_stmts_le [OF rest] merge_le(4) summary_le_trans by blast
  then have "\<forall>f \<in> set (called_targets ss). g f = g' f" using Cons.prems(4) by (auto simp: summary_le_def)
  then have st: "exec_statement (invoker_eval g) st c s = exec_statement (invoker_eval g') st c s"
    using Cons.prems(1) x ss by auto
  show ?case
  proof (cases "exec_statement (invoker_eval g') st c s")
    case (Some p)
    obtain r c1 s1 where p: "p = ((r, c1), s1)" by (metis surj_pair)
    show ?thesis
    proof (cases "exec_has_errors r \<or> outcome r \<noteq> ExecContinue")
      case False
      then have "may_fallthrough ss"
        using exec_statement_announces [OF ss Some [unfolded p]] by (simp add: announces_def)
      then have "exec_block (invoker_eval g) b c1 s1 = exec_block (invoker_eval g') b c1 s1"
        using Cons.IH [OF _ rest] Cons.prems(1,4) by simp
      then show ?thesis by (simp add: x st Some p)
    qed (simp add: x st Some p)
  qed (simp add: x st)
qed simp

lemma exec_statement_agree:
  "summarize_statement st = Some sm \<Longrightarrow> \<forall>f \<in> set (called_targets sm). g f = g' f \<Longrightarrow>
    exec_statement (invoker_eval g) st c s = exec_statement (invoker_eval g') st c s"
proof (induction st arbitrary: sm c s rule: statement_sub_induct)
  case (stmt st)
  show ?case
  proof (cases st)
    case (IfStatement cond t e)
    from stmt.prems(1) IfStatement obtain sm0 tb ts where sm0: "calls_summary cond = Some sm0" and tb: "t = Some tb"
      and ts: "summarize_stmts empty_summary tb = Some ts"
      and sm: "e = None \<and> sm = (merge_flow_summary sm0 ts)\<lparr>may_fallthrough := True\<rparr> \<or>
        (\<exists>eb es. e = Some eb \<and> summarize_stmts empty_summary eb = Some es \<and>
          sm = (merge_flow_summary (merge_flow_summary sm0 ts) es)
                 \<lparr>may_fallthrough := may_fallthrough ts \<or> may_fallthrough es\<rparr>)"
      by (auto split: option.splits)
    have blk: "exec_block (invoker_eval g) b c s = exec_block (invoker_eval g') b c s"
      if "t = Some b \<or> e = Some b" "summarize_stmts empty_summary b = Some bs" "summary_le bs sm" for b bs c s
    proof (rule exec_stmts_agree [OF _ that(2)])
      show "may_fallthrough empty_summary" by (simp add: empty_summary_def)
      show "\<forall>f \<in> set (called_targets bs). g f = g' f" using that(3) stmt.prems(2) by (auto simp: summary_le_def)
      show "\<forall>x. Some x \<in> set b \<longrightarrow> (\<forall>sm c s. summarize_statement x = Some sm \<longrightarrow>
          (\<forall>f \<in> set (called_targets sm). g f = g' f) \<longrightarrow>
          exec_statement (invoker_eval g) x c s = exec_statement (invoker_eval g') x c s)"
        using that(1) stmt.IH [of b] IfStatement by auto
    qed
    have le: "summary_le sm0 sm" "summary_le ts sm"
      using sm by (auto simp: merge_le intro: summary_le_trans [OF merge_le(1) merge_le(3)]
          summary_le_trans [OF merge_le(2) merge_le(3)])
    have t: "exec_block (invoker_eval g) tb = exec_block (invoker_eval g') tb"
      using blk [OF _ ts le(2)] tb by (intro ext) simp
    have e: "exec_block (invoker_eval g) eb = exec_block (invoker_eval g') eb" if "e = Some eb" for eb
      using sm that blk [of eb] by (intro ext) (auto simp: merge_le)
    show ?thesis unfolding IfStatement exec_statement.simps
    proof (rule with_value_agree [OF disjI2 [OF sm0]])
      show "f \<in> set (called_targets sm0) \<Longrightarrow> g f = g' f" for f
        using le(1) stmt.prems(2) by (auto simp: summary_le_def)
    qed (auto simp: tb t e split: val.split option.split)
  next
    case (ReturnStatement x)
    show ?thesis
    proof (cases x)
      case (Some y)
      with stmt.prems(1) ReturnStatement obtain sm1 where "calls_summary x = Some sm1"
        "called_targets sm = called_targets sm1" by auto
      with stmt.prems(2) Some show ?thesis unfolding ReturnStatement exec_statement.simps
        by (simp del: not_None_eq not_Some_eq) (rule with_value_agree [where sm = sm1], auto)
    qed (simp add: ReturnStatement)
  next
    case (AssignStatement target x)
    with stmt.prems(1) obtain sm1 where sm1: "calls_summary x = Some sm1" "called_targets sm = called_targets sm1" by auto
    have "with_value (invoker_eval g) m x k c s = with_value (invoker_eval g') m x k c s" for m k
      by (rule with_value_agree [where sm = sm1]) (use sm1 stmt.prems(2) in auto)
    then show ?thesis by (simp add: AssignStatement)
  next
    case (AssertStatement x)
    with stmt.prems(1) obtain sm1 where sm1: "calls_summary x = Some sm1" "called_targets sm = called_targets sm1" by auto
    show ?thesis unfolding AssertStatement exec_statement.simps
      by (rule with_value_agree [where sm = sm1]) (use sm1 stmt.prems(2) in auto)
  next
    case (LetStatement n x)
    then show ?thesis unfolding LetStatement exec_statement.simps
      by (intro with_value_agree [where sm = sm]) (use stmt.prems LetStatement in auto)
  next
    case (ExprStatement x)
    then show ?thesis unfolding ExprStatement exec_statement.simps
      by (intro with_value_agree [where sm = sm]) (use stmt.prems ExprStatement in auto)
  qed simp
qed

lemma exec_block_agree:
  assumes "summarize_block b = Some sm" "\<forall>f \<in> set (called_targets sm). g f = g' f"
  shows "exec_block (invoker_eval g) b c s = exec_block (invoker_eval g') b c s"
  by (rule exec_stmts_agree [OF _ assms(1) [unfolded summarize_block_def] _ assms(2)])
    (auto intro: exec_statement_agree simp: empty_summary_def)

end
