(* ===== verification/Demo_Program.thy ===== *)
theory Demo_Program
  imports Workflow_Runtime Analysis
begin

section \<open>A concrete program\<close>

text \<open>
  A small program on which the witnesses of the properties evaluate the definitions: an agent
  with two states, its flow, which calls the capability \<open>echo\<close>, and a workflow of two nodes,
  the second after the first. Nothing here models code.
\<close>

definition demo_symbol :: "symbol_ref_kind \<Rightarrow> string \<Rightarrow> symbol_ref" where
  "demo_symbol k n = \<lparr>sym_kind = k, canonical_name = n, local_name = n, sym_module = [], sym_id = None\<rparr>"

definition demo_path :: "path_root_kind \<Rightarrow> string \<Rightarrow> string list \<Rightarrow> expr" where
  "demo_path k r ms = PathExpr \<lparr>root_kind = k, root_name = r, members = ms\<rparr>"

definition demo_agent :: agent_decl where
  "demo_agent =
     \<lparr>agent_name = ''A'', states = [''Init'', ''Done''], initial_state = ''Init'', final_states = [''Done''],
      quota = [\<lparr>quota_name = ''max_state_transitions'', quota_value = ''5''\<rparr>],
      transitions = [\<lparr>from_state = ''Init'', to_state = ''Done''\<rparr>],
      capability_refs = [demo_symbol SymCapability ''echo''], agent_symbol = demo_symbol SymAgent ''A''\<rparr>"

definition demo_body :: block where
  "demo_body =
     [Some (LetStatement ''x'' (Some (demo_path RootInput ''input'' [''q'']))),
      Some (GotoStatement ''Done'')]"

definition demo_flow :: flow_decl where
  "demo_flow =
     \<lparr>state_handlers =
        [\<lparr>handler_state = ''Init'', body = demo_body\<rparr>,
         \<lparr>handler_state = ''Done'',
          body = [Some (ReturnStatement (Some (StructLiteralExpr ''R''
             [(''q'', Some (CallExpr ''echo'' [Some (demo_path RootIdentifier ''x'' [])]))])))]\<rparr>],
      flow_target = demo_symbol SymAgent ''A''\<rparr>"

definition demo_node :: "string \<Rightarrow> expr \<Rightarrow> string list \<Rightarrow> workflow_node" where
  "demo_node n e deps =
     \<lparr>node_name = n, node_input = Some e, after = deps, target_ref = demo_symbol SymAgent ''A''\<rparr>"

definition demo_workflow :: workflow_decl where
  "demo_workflow =
     \<lparr>workflow_name = ''W'',
      nodes = [demo_node ''n2'' (demo_path RootIdentifier ''n1'' []) [''n1''],
               demo_node ''n1'' (demo_path RootIdentifier ''input'' []) []],
      safety = [], liveness = [],
      return_value = Some (demo_path RootIdentifier ''n2'' [''q'']),
      workflow_symbol = demo_symbol SymWorkflow ''W''\<rparr>"

definition demo_program :: "decl list" where
  "demo_program = [AgentDecl demo_agent, FlowDecl demo_flow, WorkflowDecl demo_workflow]"

definition demo_echo :: "'s invoker" where
  "demo_echo n args s =
     Some (if n = ''echo'' then (case args of v # _ \<Rightarrow> success_result v | [] \<Rightarrow> default_call_result)
           else default_call_result, s)"

definition demo_config :: "unit workflow_config" where
  "demo_config =
     \<lparr>default_agent_quota = empty_quota, wf_capability_invoker = Some (Some demo_echo),
      wf_contextual_invoker = None\<rparr>"

definition demo_input :: val where
  "demo_input = StructValue ''I'' [(''q'', Some (IntValue 7))]"

lemmas demo_defs = demo_symbol_def demo_path_def demo_agent_def demo_body_def demo_flow_def demo_node_def
  demo_workflow_def demo_program_def demo_echo_def demo_config_def demo_input_def

abbreviation demo_run :: "(workflow_result \<times> unit) option" where
  "demo_run \<equiv> run_workflow (at_time 0) demo_program demo_config ''W'' demo_input ()"

definition demo_result :: workflow_result where
  "demo_result =
     \<lparr>wf_status = WfCompleted, wf_output = Some (IntValue 7), execution_order = [''n1'', ''n2''],
      node_results =
        [\<lparr>nr_node_name = ''n1'', nr_target = ''A'', nr_status = AgentCompleted,
          nr_output = Some (StructValue ''R'' [(''q'', Some (IntValue 7))]), nr_index = 0\<rparr>,
         \<lparr>nr_node_name = ''n2'', nr_target = ''A'', nr_status = AgentCompleted,
          nr_output = Some (StructValue ''R'' [(''q'', Some (IntValue 7))]), nr_index = 1\<rparr>],
      wf_diags = empty_bag\<rparr>"

lemma demo_run_value: "demo_run = Some (demo_result, ())"
  by code_simp

lemma demo_config_ok: "config_ok (\<lambda>_. True) demo_config"
  by (auto simp: config_ok_def demo_config_def invoker_ok_def demo_echo_def success_result_def
      default_call_result_def split: list.splits)

lemma demo_env_ok: "env_ok (\<lambda>_. True) (at_time 0)"
  by (simp add: env_ok_def)

lemma demo_input_ok: "value_ok demo_input"
  by code_simp

lemma demo_find: "find_workflow (rebuild demo_program) ''W'' = Some demo_workflow"
  by code_simp

lemma demo_graph:
  "nodes demo_workflow \<noteq> []" "distinct (map node_name (nodes demo_workflow))"
  "\<not> has_unresolved_or_cyclic_dependencies demo_workflow"
  by code_simp+

text \<open>A breaker opened by one failure, a binding whose first call fails, and a registry.\<close>

definition demo_breaker :: circuit_breaker where
  "demo_breaker = fst (record_failure (at_time 5)
     (new_breaker \<lparr>failure_threshold = 1, recovery_window = 30, cb_enabled = True\<rparr>) ())"

definition demo_binding :: "int binding" where
  "demo_binding = (plain_binding ''echo''
     (\<lambda>args w. if w = 0 then (default_call_result, 1) else (success_result (IntValue w), w)))
       \<lparr>retry := default_retry\<lparr>max_retries := 2, initial_delay := 0\<rparr>\<rparr>"

definition demo_env :: "int env" where
  "demo_env = \<lparr>now = (\<lambda>w. (w, w)), sleep_for = (\<lambda>_ w. w)\<rparr>"

definition demo_registry :: "int registry" where
  "demo_registry = register_mock ''echo'' (IntValue 1) []"

lemma demo_registry_ok: "registry_ok demo_registry"
  by (simp add: demo_registry_def in_int64_def int64_min_def int64_max_def)

lemma demo_max_attempts:
  "max_attempts default_retry = Suc 0" "max_attempts (retry demo_binding) = Suc (Suc (Suc 0))"
  by (simp_all add: max_attempts_def default_retry_def demo_binding_def plain_binding_def)

definition demo_mock :: "int binding" where
  "demo_mock = plain_binding ''echo'' (\<lambda>args w. (success_result (IntValue 1), w))"

lemma demo_mock_simps:
  "active_breaker demo_mock = None" "retry demo_mock = default_retry"
  "handler demo_mock args w = (success_result (IntValue 1), w)" "demo_registry = [(''echo'', demo_mock)]"
  by (simp_all add: demo_mock_def active_breaker_def plain_binding_def default_circuit_breaker_def
      demo_registry_def register_mock_def emplace_def)

lemma demo_invoke:
  "\<exists>reg'. invoke demo_env ''echo'' [] (demo_registry, 0) = Some (success_result (IntValue 1), reg', 0)"
proof -
  have "retry_loop demo_env demo_mock [] (Suc 0) (Suc 0) p 0 = Some ((True, success_result (IntValue 1)), 0)" for p
    by (simp add: demo_mock_simps success_result_def)
  then have "invoke_with_retry demo_env demo_mock [] 0 = Some ((success_result (IntValue 1), demo_mock), 0)"
    by (simp add: invoke_with_retry_def breaker_check_def demo_mock_simps demo_max_attempts finish_invoke_def
        breaker_success_def del: retry_loop.simps)
  then show ?thesis by (simp add: invoke_def demo_mock_simps)
qed

lemma demo_attempts:
  "\<exists>r b' n' w'. invoke_with_retry (counted_env demo_env) (counted_binding demo_binding) [] (0, 0) =
     Some ((r, b'), (n', w')) \<and> cr_attempts r = 2"
proof -
  have "active_breaker demo_binding = None" "backoff_multiplier (retry demo_binding) = double_of_int 2"
    "initial_delay (retry demo_binding) = 0"
    by (simp_all add: active_breaker_def demo_binding_def plain_binding_def default_circuit_breaker_def
      default_retry_def)
  moreover have "handler (counted_binding demo_binding) [] (n, w) =
    (if w = 0 then (default_call_result, (Suc n, 1)) else (success_result (IntValue w), (Suc n, w)))" for n w
    by (simp add: demo_binding_def counted_binding_def counted_handler_def plain_binding_def)
  ultimately show ?thesis
    by (simp add: invoke_with_retry_def breaker_check_def demo_max_attempts default_call_result_def
        success_result_def finish_invoke_def)
qed

definition demo_runtime :: "unit agent_runtime" where
  "demo_runtime = set_capability_invoker (Some demo_echo) (make_agent_runtime demo_agent demo_flow empty_quota)"

lemma demo_runtime_ok: "runtime_ok (\<lambda>_. True) demo_runtime" "runtime_defined demo_runtime"
proof -
  have inv: "invoker_ok (\<lambda>_. True) demo_echo" "invoker_defined demo_echo"
    by (auto simp: invoker_ok_def invoker_defined_def demo_echo_def success_result_def default_call_result_def
        split: list.splits)
  have "max_execution_time (rt_quota demo_runtime) = None" by code_simp
  with inv show "runtime_ok (\<lambda>_. True) demo_runtime" "runtime_defined demo_runtime"
    by (simp_all add: runtime_ok_def runtime_defined_def demo_runtime_def set_capability_invoker_def
        make_agent_runtime_def Let_def demo_flow_def demo_body_def demo_path_def)
qed

end
