(* ===== verification/Graph_Search.thy ===== *)
theory Graph_Search
  imports Prelude
begin

section \<open>Searching a graph\<close>

text \<open>
  Two work-list searches of the optimization passes: breadth first with a queue, marking when a
  vertex enters the queue (\<open>dead_state_elimination.cpp\<close>), and depth first with a stack, marking
  when it leaves the stack (\<open>workflow_simplification.cpp\<close>). The locale \<open>reachability\<close> is what
  the passes rely on: the marked vertices are those reachable from the starting ones. It is
  interpreted on both searches.
\<close>

locale reachability =
  fixes edges :: "'g \<Rightarrow> ('a \<times> 'a) set" and search :: "'g \<Rightarrow> 'a list \<Rightarrow> 'a list"
  assumes search_set: "set (search g xs) = (edges g)\<^sup>* `` set xs"
begin

lemma start_marked: "x \<in> set xs \<Longrightarrow> x \<in> set (search g xs)"
  by (auto simp: search_set)

lemma marked_closed: "x \<in> set (search g xs) \<Longrightarrow> (x, y) \<in> edges g \<Longrightarrow> y \<in> set (search g xs)"
  by (auto simp: search_set intro: rtrancl_into_rtrancl)

lemma marked_path: "x \<in> set (search g xs) \<Longrightarrow> (x, y) \<in> (edges g)\<^sup>* \<Longrightarrow> y \<in> set (search g xs)"
  by (auto simp: search_set intro: rtrancl_trans)

lemma marked_least: "set xs \<subseteq> S \<Longrightarrow> (\<And>x y. x \<in> S \<Longrightarrow> (x, y) \<in> edges g \<Longrightarrow> y \<in> S) \<Longrightarrow> set (search g xs) \<subseteq> S"
proof
  fix y
  assume S: "set xs \<subseteq> S" "\<And>x y. x \<in> S \<Longrightarrow> (x, y) \<in> edges g \<Longrightarrow> y \<in> S" and "y \<in> set (search g xs)"
  then obtain x where "x \<in> set xs" "(x, y) \<in> (edges g)\<^sup>*" by (auto simp: search_set)
  from this(2) this(1) show "y \<in> S" by (induction rule: rtrancl_induct) (use S in auto)
qed

end

subsection \<open>Breadth first\<close>

text \<open>The loop over the edges leaving the current vertex: targets not marked yet are marked and queued.\<close>

fun bfs_scan :: "'a \<Rightarrow> ('a \<times> 'a) list \<Rightarrow> 'a list \<Rightarrow> 'a list \<Rightarrow> 'a list \<times> 'a list" where
  "bfs_scan current [] work marked = (work, marked)"
| "bfs_scan current ((f, t) # es) work marked =
     (if f = current \<and> t \<notin> set marked then bfs_scan current es (work @ [t]) (t # marked)
      else bfs_scan current es work marked)"

lemma bfs_scan_props:
  assumes "bfs_scan current es work marked = (work', marked')"
  shows "\<exists>new. work' = work @ new \<and> set marked' = set marked \<union> set new \<and> distinct new \<and>
    set new \<inter> set marked = {} \<and> set new \<subseteq> snd ` set es \<and>
    (\<forall>t \<in> set new. (current, t) \<in> set es) \<and> {t. (current, t) \<in> set es} \<subseteq> set marked'"
  using assms
proof (induction es arbitrary: work marked)
  case (Cons e es)
  obtain f t where e: "e = (f, t)" by fastforce
  show ?case
  proof (cases "f = current \<and> t \<notin> set marked")
    case True
    then have "bfs_scan current es (work @ [t]) (t # marked) = (work', marked')" using Cons.prems e by simp
    from Cons.IH [OF this] obtain new where "work' = (work @ [t]) @ new"
      "set marked' = set (t # marked) \<union> set new" "distinct new" "set new \<inter> set (t # marked) = {}"
      "set new \<subseteq> snd ` set es" "\<forall>t \<in> set new. (current, t) \<in> set es"
      "{t. (current, t) \<in> set es} \<subseteq> set marked'" by blast
    with True e show ?thesis by (intro exI [of _ "t # new"]) auto
  next
    case False
    then have "bfs_scan current es work marked = (work', marked')" using Cons.prems e by auto
    from Cons.IH [OF this] obtain new where "work' = work @ new"
      "set marked' = set marked \<union> set new" "distinct new" "set new \<inter> set marked = {}"
      "set new \<subseteq> snd ` set es" "\<forall>t \<in> set new. (current, t) \<in> set es"
      "{t. (current, t) \<in> set es} \<subseteq> set marked'" by blast
    with False e show ?thesis by (intro exI [of _ new]) auto
  qed
qed simp

function bfs :: "('a \<times> 'a) list \<Rightarrow> 'a list \<Rightarrow> 'a list \<Rightarrow> 'a list" where
  "bfs es [] marked = marked"
| "bfs es (current # work) marked =
     (case bfs_scan current es work marked of (work', marked') \<Rightarrow> bfs es work' marked')"
  by pat_completeness auto
termination
proof (relation "measure (\<lambda>(es, work, marked). card (snd ` set es - set marked) + length work)", goal_cases)
  case (2 es current work marked work' marked')
  then have scan: "bfs_scan current es work marked = (work', marked')" by simp
  from bfs_scan_props [OF scan] obtain new where new: "work' = work @ new"
    "set marked' = set marked \<union> set new" "distinct new" "set new \<inter> set marked = {}"
    "set new \<subseteq> snd ` set es" by blast
  let ?A = "snd ` set es - set marked"
  have "card (?A - set new) = card ?A - card (set new)"
    using new by (intro card_Diff_subset) auto
  moreover have "card (set new) \<le> card ?A" using new by (intro card_mono) auto
  moreover have "?A - set new = snd ` set es - set marked'" using new(2) by auto
  ultimately show ?case using new by (simp add: distinct_card)
qed simp

text \<open>
  The invariant of the loop: the marked vertices not in the queue have all their successors
  marked, and everything marked is reachable.
\<close>

lemma bfs_set:
  assumes "\<forall>x \<in> set marked. x \<in> set work \<or> (\<forall>y. (x, y) \<in> set es \<longrightarrow> y \<in> set marked)"
    and "set work \<subseteq> set marked" "set marked \<subseteq> (set es)\<^sup>* `` S" "S \<subseteq> set marked"
  shows "set (bfs es work marked) = (set es)\<^sup>* `` S"
  using assms
proof (induction es work marked rule: bfs.induct)
  case (1 es marked)
  have "y \<in> set marked" if "(x, y) \<in> (set es)\<^sup>*" "x \<in> S" for x y
    using that by (induction rule: rtrancl_induct) (use 1 in auto)
  with 1 show ?case by auto
next
  case (2 es current work marked)
  obtain work' marked' where scan: "bfs_scan current es work marked = (work', marked')" by fastforce
  from bfs_scan_props [OF this] obtain new where new: "work' = work @ new"
    "set marked' = set marked \<union> set new" "\<forall>t \<in> set new. (current, t) \<in> set es"
    "{t. (current, t) \<in> set es} \<subseteq> set marked'" by blast
  have "set new \<subseteq> (set es)\<^sup>* `` S"
  proof
    fix t assume "t \<in> set new"
    with new have "(current, t) \<in> set es" by blast
    moreover obtain x where "x \<in> S" "(x, current) \<in> (set es)\<^sup>*" using 2(3,4) by fastforce
    ultimately show "t \<in> (set es)\<^sup>* `` S" by (meson ImageI rtrancl.rtrancl_into_rtrancl)
  qed
  then have "set (bfs es work' marked') = (set es)\<^sup>* `` S"
    using 2(2-5) new by (intro 2(1) [OF scan [symmetric]]) auto
  with scan show ?case by simp
qed

definition bfs_search :: "('a \<times> 'a) list \<Rightarrow> 'a list \<Rightarrow> 'a list" where
  "bfs_search es starts = bfs es starts starts"

interpretation bfs: reachability set bfs_search
proof
  fix es :: "('a \<times> 'a) list" and xs
  show "set (bfs_search es xs) = (set es)\<^sup>* `` set xs"
    unfolding bfs_search_def by (rule bfs_set) auto
qed

subsection \<open>Depth first\<close>

text \<open>\<open>succs\<close> gives the direct successors of a vertex; the top of the stack is the head of the list.\<close>

type_synonym 'a adjacency = "('a \<times> 'a list) list"

definition successors :: "'a adjacency \<Rightarrow> 'a \<Rightarrow> 'a list" where
  "successors g x = (case map_of g x of None \<Rightarrow> [] | Some ys \<Rightarrow> ys)"

definition adjacency_edges :: "'a adjacency \<Rightarrow> ('a \<times> 'a) set" where
  "adjacency_edges g = {(x, y). y \<in> set (successors g x)}"

lemma successors_subset: "set (successors g x) \<subseteq> (\<Union>p \<in> set g. set (snd p))"
proof (cases "map_of g x")
  case (Some ys)
  then have "(x, ys) \<in> set g" by (rule map_of_SomeD)
  with Some show ?thesis by (force simp: successors_def)
qed (simp add: successors_def)

function dfs :: "'a adjacency \<Rightarrow> 'a list \<Rightarrow> 'a list \<Rightarrow> 'a list" where
  "dfs g [] marked = marked"
| "dfs g (current # stack) marked =
     (if current \<in> set marked then dfs g stack marked
      else dfs g (rev (filter (\<lambda>y. y \<notin> set (current # marked)) (successors g current)) @ stack)
        (current # marked))"
  by pat_completeness auto
termination
proof (relation "measures [\<lambda>(g, stack, marked). card ((set stack \<union> (\<Union>p \<in> set g. set (snd p))) - set marked),
    \<lambda>(g, stack, marked). length stack]", goal_cases)
  case (2 g current stack marked)
  then have "(set (current # stack) \<union> (\<Union>p \<in> set g. set (snd p))) - set marked =
      (set stack \<union> (\<Union>p \<in> set g. set (snd p))) - set marked" by auto
  then show ?case by simp
next
  case (3 g current stack marked)
  let ?U = "\<Union>p \<in> set g. set (snd p)"
  let ?new = "rev (filter (\<lambda>y. y \<notin> set (current # marked)) (successors g current)) @ stack"
  have "(set ?new \<union> ?U) - set (current # marked) \<subset> (set (current # stack) \<union> ?U) - set marked"
    using 3 successors_subset [of g current] by auto
  then have "card ((set ?new \<union> ?U) - set (current # marked)) < card ((set (current # stack) \<union> ?U) - set marked)"
    by (rule psubset_card_mono [rotated]) simp
  then show ?case by simp
qed simp

lemma dfs_set:
  assumes "\<forall>x \<in> set marked. \<forall>y \<in> set (successors g x). y \<in> set marked \<or> y \<in> set stack"
    and "set marked \<union> set stack \<subseteq> (adjacency_edges g)\<^sup>* `` S" "S \<subseteq> set marked \<union> set stack"
  shows "set (dfs g stack marked) = (adjacency_edges g)\<^sup>* `` S"
  using assms
proof (induction g stack marked rule: dfs.induct)
  case (1 g marked)
  have "y \<in> set marked" if "(x, y) \<in> (adjacency_edges g)\<^sup>*" "x \<in> S" for x y
    using that by (induction rule: rtrancl_induct) (use 1 in \<open>auto simp: adjacency_edges_def\<close>)
  with 1 show ?case by auto
next
  case (2 g current stack marked)
  show ?case
  proof (cases "current \<in> set marked")
    case True
    have "set (dfs g stack marked) = (adjacency_edges g)\<^sup>* `` S"
      by (rule 2(1) [OF True]) (use True 2(3-5) in auto)
    with True show ?thesis by simp
  next
    case False
    have cur: "current \<in> (adjacency_edges g)\<^sup>* `` S" using 2(4) by auto
    have succ: "y \<in> (adjacency_edges g)\<^sup>* `` S" if "y \<in> set (successors g current)" for y
    proof -
      have "(current, y) \<in> adjacency_edges g" using that by (simp add: adjacency_edges_def)
      with cur show ?thesis by (meson ImageE ImageI rtrancl.rtrancl_into_rtrancl)
    qed
    have "set (dfs g (rev (filter (\<lambda>y. y \<notin> set (current # marked)) (successors g current)) @ stack)
        (current # marked)) = (adjacency_edges g)\<^sup>* `` S"
      by (rule 2(2) [OF False]) (use 2(3-5) succ cur in auto)
    with False show ?thesis by simp
  qed
qed

definition dfs_search :: "'a adjacency \<Rightarrow> 'a list \<Rightarrow> 'a list" where
  "dfs_search g starts = dfs g (rev starts) []"

interpretation dfs: reachability adjacency_edges dfs_search
proof
  fix g :: "'a adjacency" and xs
  show "set (dfs_search g xs) = (adjacency_edges g)\<^sup>* `` set xs"
    unfolding dfs_search_def by (rule dfs_set) auto
qed

end
