(* ===== verification/Passes.thy ===== *)
theory Passes
  imports Graph_Search Analysis Workflow_Runtime
begin

section \<open>The optimization passes\<close>

text \<open>
  \<open>src/compiler/passes/\<close>: dead state elimination, workflow simplification, canonicalization of
  contract expressions and simplification of temporal formulas, and the capability
  reachability analysis. A pass returns the changed program and whether it reports a change;
  \<^const>\<open>None\<close> is the dereference of a null reference. Expression handles are values: the
  lowering gives every occurrence a node of its own, so the in-place updates of the source are
  updates of a tree.
\<close>

type_synonym pass_fn = "program \<Rightarrow> (program \<times> bool) option"

text \<open>The loop over the declarations that every pass runs.\<close>

fun map_changed :: "('a \<Rightarrow> ('a \<times> bool) option) \<Rightarrow> 'a list \<Rightarrow> ('a list \<times> bool) option" where
  "map_changed f [] = Some ([], False)"
| "map_changed f (x # xs) =
     (case f x of
        None \<Rightarrow> None
      | Some (y, m) \<Rightarrow>
          (case map_changed f xs of
             None \<Rightarrow> None
           | Some (ys, ms) \<Rightarrow> Some (y # ys, m \<or> ms)))"

definition over_declarations :: "(decl \<Rightarrow> (decl \<times> bool) option) \<Rightarrow> pass_fn" where
  "over_declarations f p =
     map_option (\<lambda>(ds, m). (p\<lparr>declarations := ds\<rparr>, m)) (map_changed f (declarations p))"

subsection \<open>Dead state elimination\<close>

definition transition_pairs :: "agent_decl \<Rightarrow> (string \<times> string) list" where
  "transition_pairs a = map (\<lambda>t. (from_state t, to_state t)) (transitions a)"

definition reachable_states :: "agent_decl \<Rightarrow> string list" where
  "reachable_states a =
     fold List.insert (final_states a) (bfs_search (transition_pairs a) [initial_state a])"

definition eliminate_dead_states :: "agent_decl \<Rightarrow> agent_decl \<times> bool" where
  "eliminate_dead_states a =
     (if states a = [] \<or> initial_state a = [] then (a, False)
      else
        (let reachable = reachable_states a
         in if card (set reachable) = length (states a) then (a, False)
            else
              (let a' = a\<lparr>states := filter (\<lambda>s. s \<in> set reachable) (states a),
                         transitions := filter (\<lambda>t. from_state t \<in> set reachable \<and> to_state t \<in> set reachable)
                           (transitions a)\<rparr>
               in (a', length (states a') \<noteq> length (states a)))))"

definition dead_state_decl :: "decl \<Rightarrow> (decl \<times> bool) option" where
  "dead_state_decl d =
     (case d of
        AgentDecl a \<Rightarrow> (case eliminate_dead_states a of (a', m) \<Rightarrow> Some (AgentDecl a', m))
      | _ \<Rightarrow> Some (d, False))"

definition dead_state_elimination :: pass_fn where
  "dead_state_elimination = over_declarations dead_state_decl"

subsection \<open>Workflow simplification\<close>

definition deps_map :: "workflow_node list \<Rightarrow> string adjacency" where
  "deps_map ns = foldl (\<lambda>acc n. insert_or_assign (node_name n) (after n) acc) [] ns"

text \<open>\<open>reachable[n.name]\<close> of a repeated name goes on with the set found before.\<close>

definition compute_transitive_reachable :: "workflow_node list \<Rightarrow> string adjacency" where
  "compute_transitive_reachable ns =
     foldl (\<lambda>acc n. insert_or_assign (node_name n)
         (dfs (deps_map ns) (rev (after n)) (successors acc (node_name n))) acc) [] ns"

definition redundant_dep :: "string adjacency \<Rightarrow> string list \<Rightarrow> string \<Rightarrow> bool" where
  "redundant_dep reach deps dep \<longleftrightarrow> list_ex (\<lambda>other. other \<noteq> dep \<and> dep \<in> set (successors reach other)) deps"

definition simplify_node :: "string adjacency \<Rightarrow> workflow_node \<Rightarrow> workflow_node \<times> bool" where
  "simplify_node reach n =
     (if length (after n) < 2 then (n, False)
      else
        (let reduced = filter (\<lambda>d. \<not> redundant_dep reach (after n) d) (after n)
         in if length reduced < length (after n) then (n\<lparr>after := reduced\<rparr>, True) else (n, False)))"

definition simplify_workflow :: "workflow_decl \<Rightarrow> workflow_decl \<times> bool" where
  "simplify_workflow w =
     (if length (nodes w) < 2 then (w, False)
      else
        (let reach = compute_transitive_reachable (nodes w);
             rs = map (simplify_node reach) (nodes w)
         in (w\<lparr>nodes := map fst rs\<rparr>, list_ex snd rs)))"

definition simplify_workflow_decl :: "decl \<Rightarrow> (decl \<times> bool) option" where
  "simplify_workflow_decl d =
     (case d of
        WorkflowDecl w \<Rightarrow> (case simplify_workflow w of (w', m) \<Rightarrow> Some (WorkflowDecl w', m))
      | _ \<Rightarrow> Some (d, False))"

definition workflow_simplification :: pass_fn where
  "workflow_simplification = over_declarations simplify_workflow_decl"

subsection \<open>Canonicalization of expressions\<close>

definition is_bool_literal :: "expr_ref \<Rightarrow> bool \<Rightarrow> bool" where
  "is_bool_literal e b \<longleftrightarrow> (case e of Some (BoolLiteralExpr v) \<Rightarrow> v = b | _ \<Rightarrow> False)"

definition fold_not :: "expr_ref \<Rightarrow> bool \<Rightarrow> (expr_ref \<times> bool) option" where
  "fold_not x m =
     (case x of
        None \<Rightarrow> None
      | Some (UnaryExpr op y) \<Rightarrow> if op = OpNot then Some (y, True) else Some (Some (UnaryExpr OpNot x), m)
      | Some _ \<Rightarrow> Some (Some (UnaryExpr OpNot x), m))"

definition fold_binary :: "expr_binary_op \<Rightarrow> expr_ref \<Rightarrow> expr_ref \<Rightarrow> bool \<Rightarrow> expr_ref \<times> bool" where
  "fold_binary op l r m =
     (if op = OpAnd then
        if is_bool_literal l True then (r, True)
        else if is_bool_literal r True then (l, True)
        else if is_bool_literal l False then (l, True)
        else if is_bool_literal r False then (r, True)
        else (Some (BinaryExpr op l r), m)
      else if op = OpOr then
        if is_bool_literal l False then (r, True)
        else if is_bool_literal r False then (l, True)
        else if is_bool_literal l True then (l, True)
        else if is_bool_literal r True then (r, True)
        else (Some (BinaryExpr op l r), m)
      else (Some (BinaryExpr op l r), m))"

function canonicalize_expr :: "expr_ref \<Rightarrow> (expr_ref \<times> bool) option" where
  "canonicalize_expr e =
     (case e of
        Some (UnaryExpr op x) \<Rightarrow>
          (case canonicalize_expr x of
             None \<Rightarrow> None
           | Some (x', m) \<Rightarrow> if op = OpNot then fold_not x' m else Some (Some (UnaryExpr op x'), m))
      | Some (BinaryExpr op l r) \<Rightarrow>
          (case canonicalize_expr l of
             None \<Rightarrow> None
           | Some (l', m) \<Rightarrow>
               (case canonicalize_expr r of
                  None \<Rightarrow> None
                | Some (r', m') \<Rightarrow> Some (fold_binary op l' r' (m \<or> m'))))
      | _ \<Rightarrow> Some (e, False))"
  by pat_completeness auto
termination by (relation "measure (size_option size)") auto

declare canonicalize_expr.simps [simp del]

definition canonicalize_clause :: "contract_clause \<Rightarrow> (contract_clause \<times> bool) option" where
  "canonicalize_clause c =
     (case clause_value c of
        ClauseExpr e \<Rightarrow>
          map_option (\<lambda>(e', m). (c\<lparr>clause_value := ClauseExpr e'\<rparr>, m)) (canonicalize_expr e)
      | ClauseTemporal _ \<Rightarrow> Some (c, False))"

definition canonicalize_contract_clauses :: "contract_decl \<Rightarrow> (contract_decl \<times> bool) option" where
  "canonicalize_contract_clauses k =
     map_option (\<lambda>(cs, m). (k\<lparr>clauses := cs\<rparr>, m)) (map_changed canonicalize_clause (clauses k))"

definition canonicalize_decl :: "decl \<Rightarrow> (decl \<times> bool) option" where
  "canonicalize_decl d =
     (case d of
        ContractDecl k \<Rightarrow> map_option (\<lambda>(k', m). (ContractDecl k', m)) (canonicalize_contract_clauses k)
      | _ \<Rightarrow> Some (d, False))"

definition expr_canonicalization :: pass_fn where
  "expr_canonicalization = over_declarations canonicalize_decl"

subsection \<open>Simplification of temporal formulas\<close>

text \<open>What happens at a unary formula after its operand was simplified; the operand is dereferenced.\<close>

definition fold_temporal_unary ::
  "temporal_unary_op \<Rightarrow> temporal_expr option \<Rightarrow> bool \<Rightarrow> (temporal_expr option \<times> bool) option" where
  "fold_temporal_unary op x m =
     (if op = TNext then Some (Some (TemporalUnaryExpr op x), m)
      else
        (case x of
           None \<Rightarrow> None
         | Some (TemporalUnaryExpr op' y) \<Rightarrow>
             if op' = op then
               (if op = TNot then Some (y, True) else Some (Some (TemporalUnaryExpr op y), True))
             else Some (Some (TemporalUnaryExpr op x), m)
         | Some _ \<Rightarrow> Some (Some (TemporalUnaryExpr op x), m)))"

function simplify_temporal :: "temporal_expr option \<Rightarrow> (temporal_expr option \<times> bool) option" where
  "simplify_temporal e =
     (case e of
        Some (TemporalUnaryExpr op x) \<Rightarrow>
          (case simplify_temporal x of
             None \<Rightarrow> None
           | Some (x', m) \<Rightarrow> fold_temporal_unary op x' m)
      | Some (TemporalBinaryExpr op l r) \<Rightarrow>
          (case simplify_temporal l of
             None \<Rightarrow> None
           | Some (l', m) \<Rightarrow>
               (case simplify_temporal r of
                  None \<Rightarrow> None
                | Some (r', m') \<Rightarrow> Some (Some (TemporalBinaryExpr op l' r'), m \<or> m')))
      | _ \<Rightarrow> Some (e, False))"
  by pat_completeness auto
termination by (relation "measure (size_option size)") auto

declare simplify_temporal.simps [simp del]

definition simplify_temporal_clause :: "contract_clause \<Rightarrow> (contract_clause \<times> bool) option" where
  "simplify_temporal_clause c =
     (case clause_value c of
        ClauseExpr _ \<Rightarrow> Some (c, False)
      | ClauseTemporal t \<Rightarrow>
          map_option (\<lambda>(t', m). (c\<lparr>clause_value := ClauseTemporal t'\<rparr>, m)) (simplify_temporal t))"

definition simplify_temporal_workflow :: "workflow_decl \<Rightarrow> (workflow_decl \<times> bool) option" where
  "simplify_temporal_workflow w =
     (case map_changed simplify_temporal (safety w) of
        None \<Rightarrow> None
      | Some (ss, m) \<Rightarrow>
          (case map_changed simplify_temporal (liveness w) of
             None \<Rightarrow> None
           | Some (ls, m') \<Rightarrow> Some (w\<lparr>safety := ss, liveness := ls\<rparr>, m \<or> m')))"

definition simplify_temporal_decl :: "decl \<Rightarrow> (decl \<times> bool) option" where
  "simplify_temporal_decl d =
     (case d of
        ContractDecl k \<Rightarrow>
          map_option (\<lambda>(cs, m). (ContractDecl (k\<lparr>clauses := cs\<rparr>), m))
            (map_changed simplify_temporal_clause (clauses k))
      | WorkflowDecl w \<Rightarrow> map_option (\<lambda>(w', m). (WorkflowDecl w', m)) (simplify_temporal_workflow w)
      | _ \<Rightarrow> Some (d, False))"

definition temporal_simplification :: pass_fn where
  "temporal_simplification = over_declarations simplify_temporal_decl"

subsection \<open>Capability reachability\<close>

definition called_capabilities :: "program \<Rightarrow> string list" where
  "called_capabilities p =
     concat (map (\<lambda>d. case d of
         FlowDecl f \<Rightarrow>
           concat (map (\<lambda>i. case find_state_handler_summary p f i of
               None \<Rightarrow> [] | Some sm \<Rightarrow> called_targets sm) [0..<length (state_handlers f)])
       | _ \<Rightarrow> []) (declarations p))"

definition unused_of_agent :: "string list \<Rightarrow> agent_decl \<Rightarrow> (string \<times> string) list" where
  "unused_of_agent called a =
     map (\<lambda>cap. (agent_name a, cap))
       (filter (\<lambda>cap. cap \<noteq> [] \<and> cap \<notin> set called)
         (map (\<lambda>r. symbol_canonical_name r []) (capability_refs a)))"

definition capability_reachability :: "program \<Rightarrow> (string \<times> string) list" where
  "capability_reachability p =
     (let called = called_capabilities p
      in concat (map (\<lambda>d. case d of AgentDecl a \<Rightarrow> unused_of_agent called a | _ \<Rightarrow> []) (declarations p)))"

subsection \<open>What a change means\<close>

lemma canonicalize_expr_simps [simp]:
  "canonicalize_expr None = Some (None, False)"
  "canonicalize_expr (Some (UnaryExpr uop x)) =
     (case canonicalize_expr x of
        None \<Rightarrow> None
      | Some (x', m) \<Rightarrow> if uop = OpNot then fold_not x' m else Some (Some (UnaryExpr uop x'), m))"
  "canonicalize_expr (Some (BinaryExpr op l r)) =
     (case canonicalize_expr l of
        None \<Rightarrow> None
      | Some (l', m) \<Rightarrow>
          (case canonicalize_expr r of
             None \<Rightarrow> None
           | Some (r', m') \<Rightarrow> Some (fold_binary op l' r' (m \<or> m'))))"
  by (simp_all add: canonicalize_expr.simps)

lemma canonicalize_expr_other:
  "(\<And>op x. e \<noteq> UnaryExpr op x) \<Longrightarrow> (\<And>op l r. e \<noteq> BinaryExpr op l r) \<Longrightarrow>
    canonicalize_expr (Some e) = Some (Some e, False)"
  by (subst canonicalize_expr.simps) (auto split: expr.splits)

lemma canonicalize_expr_induct [case_names Null Unary Binary Other]:
  assumes "P None" "\<And>op x. P x \<Longrightarrow> P (Some (UnaryExpr op x))"
    "\<And>op l r. P l \<Longrightarrow> P r \<Longrightarrow> P (Some (BinaryExpr op l r))"
    "\<And>e. (\<And>op x. e \<noteq> UnaryExpr op x) \<Longrightarrow> (\<And>op l r. e \<noteq> BinaryExpr op l r) \<Longrightarrow> P (Some e)"
  shows "P e"
proof (induction e rule: measure_induct_rule [of "size_option size"])
  case (less e)
  show ?case
  proof (cases e)
    case (Some x)
    then show ?thesis using assms less by (cases x) auto
  qed (use assms in simp)
qed

text \<open>A pass reports a change exactly when the formula got smaller; otherwise it is unchanged.\<close>

abbreviation shrinks :: "('a \<Rightarrow> nat) \<Rightarrow> 'a \<Rightarrow> 'a \<times> bool \<Rightarrow> bool" where
  "shrinks sz x r \<equiv> (if snd r then sz (fst r) < sz x else fst r = x)"

lemma fold_not_shrinks:
  assumes "fold_not x' m = Some r" "shrinks (size_option size) x (x', m)"
  shows "shrinks (size_option size) (Some (UnaryExpr OpNot x)) r"
  using assms by (auto simp: fold_not_def split: option.splits expr.splits if_splits)

lemma fold_binary_shrinks:
  assumes "shrinks (size_option size) l (l', m)" "shrinks (size_option size) r (r', m')"
  shows "shrinks (size_option size) (Some (BinaryExpr op l r)) (fold_binary op l' r' (m \<or> m'))"
proof -
  have "size_option size l' \<le> size_option size l" "size_option size r' \<le> size_option size r"
    using assms by (auto split: if_splits)
  with assms show ?thesis by (auto simp: fold_binary_def split: if_splits)
qed

lemma canonicalize_expr_shrinks:
  "canonicalize_expr e = Some r \<Longrightarrow> shrinks (size_option size) e r"
proof (induction e arbitrary: r rule: canonicalize_expr_induct)
  case (Unary op x)
  then obtain x' m where x: "canonicalize_expr x = Some (x', m)" by (auto split: option.splits)
  show ?case
  proof (cases "op = OpNot")
    case True
    with Unary.prems x have "fold_not x' m = Some r" by simp
    from fold_not_shrinks [OF this Unary.IH [OF x]] show ?thesis unfolding True .
  next
    case False
    then show ?thesis using Unary x by (fastforce split: if_splits)
  qed
next
  case (Binary op l r')
  then obtain l1 m1 r1 m2 where lr: "canonicalize_expr l = Some (l1, m1)" "canonicalize_expr r' = Some (r1, m2)"
    by (auto split: option.splits)
  then have r: "r = fold_binary op l1 r1 (m1 \<or> m2)" using Binary.prems by simp
  show ?case
    unfolding r by (rule fold_binary_shrinks [OF Binary.IH(1) [OF lr(1)] Binary.IH(2) [OF lr(2)]])
qed (auto simp: canonicalize_expr_other)

subsection \<open>Canonicalization refines evaluation\<close>

text \<open>
  A value an expression evaluates to is the value of its canonical form. The canonical form
  may have a value where the expression has an error (\<open>true && 1\<close>).
\<close>

lemma evaluates_Some:
  "evaluates c s (Some x) v \<longleftrightarrow> (\<exists>r s'. eval_expr_impl None c x s = Some (r, s') \<and> \<not> has_errors r \<and> eval_value r = v)"
  by (auto simp: evaluates_def split: option.splits)

lemma evaluates_None [simp]: "\<not> evaluates c s None v"
  by (simp add: evaluates_def)

lemma evaluates_Bool [simp]: "evaluates c s (Some (BoolLiteralExpr b)) v \<longleftrightarrow> v = BoolValue b"
  by (auto simp: evaluates_Some)

lemma eval_unary_op_value:
  assumes "eval_unary_op op r = Some q" "\<not> has_errors q" "eval_value r' = eval_value r" "\<not> has_errors r'"
  shows "\<exists>q'. eval_unary_op op r' = Some q' \<and> \<not> has_errors q' \<and> eval_value q' = eval_value q"
  using assms by (auto simp: eval_unary_op_def split: expr_unary_op.splits val.splits option.splits)

lemma evaluates_Unary_mono:
  assumes "evaluates c s (Some (UnaryExpr op x)) v" "\<And>u. evaluates c s x u \<Longrightarrow> evaluates c s x' u"
  shows "evaluates c s (Some (UnaryExpr op x')) v"
proof -
  obtain y r s1 q where x: "x = Some y" "eval_expr_impl None c y s = Some (r, s1)" "\<not> has_errors r"
    and q: "eval_unary_op op r = Some q" "\<not> has_errors q" "eval_value q = v"
    using assms(1) by (cases x) (auto simp: evaluates_Some run_simps split: if_splits)
  then have "evaluates c s x (eval_value r)" by (simp add: evaluates_Some)
  then have "evaluates c s x' (eval_value r)" by (rule assms(2))
  then obtain y' r' s2 where x': "x' = Some y'" "eval_expr_impl None c y' s = Some (r', s2)" "\<not> has_errors r'"
    "eval_value r' = eval_value r"
    by (cases x') (auto simp: evaluates_Some)
  with eval_unary_op_value [OF q(1,2) x'(4,3)] q(3) show ?thesis
    by (auto simp: evaluates_Some)
qed

lemma evaluates_Not:
  "evaluates c s (Some (UnaryExpr OpNot x)) v \<longleftrightarrow> (\<exists>b. evaluates c s x (BoolValue b) \<and> v = BoolValue (\<not> b))"
proof (cases x)
  case (Some y)
  show ?thesis
  proof (cases "eval_expr_impl None c y s")
    case (Some p)
    obtain r s' where p: "p = (r, s')" by fastforce
    show ?thesis
      using Some p \<open>x = Some y\<close>
      by (cases "eval_value r") (auto simp: evaluates_Some eval_unary_op_def)
  qed (use \<open>x = Some y\<close> in \<open>simp add: evaluates_Some\<close>)
qed (simp add: evaluates_Some)

lemma evaluates_Binary:
  "evaluates c s (Some (BinaryExpr op l r)) v \<longleftrightarrow>
    (\<exists>a b q. evaluates c s l a \<and> evaluates c s r b \<and> eval_binary_op op a b = Some q \<and> \<not> has_errors q \<and>
       eval_value q = v)"
proof (cases "l = None \<or> r = None")
  case False
  then obtain x y where lr: "l = Some x" "r = Some y" by auto
  have pure: "eval_expr_impl None c e s = Some (q, s') \<Longrightarrow> s' = s" for e q s' by (rule eval_pureD)
  show ?thesis
  proof
    assume "evaluates c s (Some (BinaryExpr op l r)) v"
    then obtain ra s1 rb s2 q where run: "eval_expr_impl None c x s = Some (ra, s1)" "\<not> has_errors ra"
      "eval_expr_impl None c y s1 = Some (rb, s2)" "\<not> has_errors rb"
      "eval_binary_op op (eval_value ra) (eval_value rb) = Some q" "\<not> has_errors q" "eval_value q = v"
      using lr by (auto simp: evaluates_Some run_simps split: if_splits)
    have "s1 = s" using run(1) by (rule eval_pureD)
    then have "evaluates c s l (eval_value ra)" "evaluates c s r (eval_value rb)"
      using run lr by (auto simp: evaluates_Some)
    with run(5-7) show "\<exists>a b q. evaluates c s l a \<and> evaluates c s r b \<and> eval_binary_op op a b = Some q \<and>
       \<not> has_errors q \<and> eval_value q = v"
      by blast
  next
    assume "\<exists>a b q. evaluates c s l a \<and> evaluates c s r b \<and> eval_binary_op op a b = Some q \<and> \<not> has_errors q \<and>
       eval_value q = v"
    then obtain ra rb q where "eval_expr_impl None c x s = Some (ra, s)" "\<not> has_errors ra"
      "eval_expr_impl None c y s = Some (rb, s)" "\<not> has_errors rb"
      "eval_binary_op op (eval_value ra) (eval_value rb) = Some q" "\<not> has_errors q" "eval_value q = v"
      using lr by (auto simp: evaluates_Some dest: pure)
    with lr show "evaluates c s (Some (BinaryExpr op l r)) v" by (simp add: evaluates_Some)
  qed
qed (auto simp: evaluates_Some)

lemma fold_not_evaluates:
  assumes "evaluates c s (Some (UnaryExpr OpNot x)) v"
  shows "\<exists>e m'. fold_not x m = Some (e, m') \<and> evaluates c s e v"
proof (cases "\<exists>y. x = Some (UnaryExpr OpNot y)")
  case True
  then obtain y where y: "x = Some (UnaryExpr OpNot y)" by blast
  with assms have "evaluates c s y v" by (auto simp: evaluates_Not)
  with y show ?thesis by (auto simp: fold_not_def)
next
  case False
  moreover have "x \<noteq> None" using assms by (cases x) (auto simp: evaluates_Not)
  ultimately have "fold_not x m = Some (Some (UnaryExpr OpNot x), m)"
    by (auto simp: fold_not_def split: expr.splits)
  with assms show ?thesis by blast
qed

lemma evaluates_And_Or:
  assumes "evaluates c s (Some (BinaryExpr op l r)) v" "op = OpAnd \<or> op = OpOr"
  obtains a b where "evaluates c s l (BoolValue a)" "evaluates c s r (BoolValue b)"
    "v = BoolValue (if op = OpAnd then a \<and> b else a \<or> b)"
  using assms
  by (auto simp: evaluates_Binary eval_binary_op_def eval_logical_def split: val.splits if_splits)

lemma is_bool_literalD: "is_bool_literal e b \<Longrightarrow> e = Some (BoolLiteralExpr b)"
  by (auto simp: is_bool_literal_def split: option.splits expr.splits)

lemma fold_binary_evaluates:
  assumes "evaluates c s (Some (BinaryExpr op l r)) v"
  shows "evaluates c s (fst (fold_binary op l r m)) v"
proof (cases "op = OpAnd \<or> op = OpOr")
  case True
  from evaluates_And_Or [OF assms this] obtain a b where
    ab: "evaluates c s l (BoolValue a)" "evaluates c s r (BoolValue b)"
      "v = BoolValue (if op = OpAnd then a \<and> b else a \<or> b)" .
  have lit: "is_bool_literal l x \<Longrightarrow> a = x" "is_bool_literal r x \<Longrightarrow> b = x" for x
    using ab(1,2) by (auto dest!: is_bool_literalD)
  show ?thesis
    using True ab lit assms by (auto simp: fold_binary_def)
qed (use assms in \<open>simp add: fold_binary_def\<close>)

lemma canonicalize_expr_evaluates:
  "evaluates c s e v \<Longrightarrow> \<exists>e' m. canonicalize_expr e = Some (e', m) \<and> evaluates c s e' v"
proof (induction e arbitrary: v rule: canonicalize_expr_induct)
  case (Unary op x)
  then obtain u where u: "evaluates c s x u"
    by (cases x) (auto simp: evaluates_Some run_simps split: if_splits)
  with Unary.IH obtain x' m where x': "canonicalize_expr x = Some (x', m)" by blast
  have "evaluates c s (Some (UnaryExpr op x')) v"
    using evaluates_Unary_mono [OF Unary.prems] Unary.IH x' by fastforce
  with x' fold_not_evaluates [of c s x' v m] show ?case by auto
next
  case (Binary op l r)
  then obtain a b q where ab: "evaluates c s l a" "evaluates c s r b"
    and q: "eval_binary_op op a b = Some q" "\<not> has_errors q" "eval_value q = v"
    by (auto simp: evaluates_Binary)
  obtain l' m r' m' where lr: "canonicalize_expr l = Some (l', m)" "evaluates c s l' a"
    "canonicalize_expr r = Some (r', m')" "evaluates c s r' b"
    using Binary.IH(1) [OF ab(1)] Binary.IH(2) [OF ab(2)] by blast
  have "evaluates c s (Some (BinaryExpr op l' r')) v" using lr(2,4) q by (auto simp: evaluates_Binary)
  from fold_binary_evaluates [OF this, of "m \<or> m'"] lr show ?case
    by (cases "fold_binary op l' r' (m \<or> m')") simp
qed (auto simp: canonicalize_expr_other)

subsection \<open>Simplification preserves the meaning of formulas\<close>

text \<open>
  Linear temporal logic: \<open>A\<close> says which atoms hold at which moment of an infinite run. A
  missing formula does not hold.
\<close>

fun sat :: "(temporal_expr \<Rightarrow> nat \<Rightarrow> bool) \<Rightarrow> temporal_expr \<Rightarrow> nat \<Rightarrow> bool"
  and sat_ref :: "(temporal_expr \<Rightarrow> nat \<Rightarrow> bool) \<Rightarrow> temporal_expr option \<Rightarrow> nat \<Rightarrow> bool" where
  "sat A (TemporalUnaryExpr op x) i =
     (case op of
        TAlways \<Rightarrow> \<forall>j \<ge> i. sat_ref A x j
      | TEventually \<Rightarrow> \<exists>j \<ge> i. sat_ref A x j
      | TNext \<Rightarrow> sat_ref A x (Suc i)
      | TNot \<Rightarrow> \<not> sat_ref A x i)"
| "sat A (TemporalBinaryExpr op l r) i =
     (case op of
        TImplies \<Rightarrow> sat_ref A l i \<longrightarrow> sat_ref A r i
      | TOr \<Rightarrow> sat_ref A l i \<or> sat_ref A r i
      | TAnd \<Rightarrow> sat_ref A l i \<and> sat_ref A r i
      | TUntil \<Rightarrow> \<exists>j \<ge> i. sat_ref A r j \<and> (\<forall>k. i \<le> k \<and> k < j \<longrightarrow> sat_ref A l k))"
| "sat A f i = A f i"
| "sat_ref A None i = False"
| "sat_ref A (Some f) i = sat A f i"

lemma simplify_temporal_simps [simp]:
  "simplify_temporal None = Some (None, False)"
  "simplify_temporal (Some (TemporalUnaryExpr uop x)) =
     (case simplify_temporal x of None \<Rightarrow> None | Some (x', m) \<Rightarrow> fold_temporal_unary uop x' m)"
  "simplify_temporal (Some (TemporalBinaryExpr op l r)) =
     (case simplify_temporal l of
        None \<Rightarrow> None
      | Some (l', m) \<Rightarrow>
          (case simplify_temporal r of
             None \<Rightarrow> None
           | Some (r', m') \<Rightarrow> Some (Some (TemporalBinaryExpr op l' r'), m \<or> m')))"
  by (simp_all add: simplify_temporal.simps)

lemma simplify_temporal_other:
  "(\<And>op x. e \<noteq> TemporalUnaryExpr op x) \<Longrightarrow> (\<And>op l r. e \<noteq> TemporalBinaryExpr op l r) \<Longrightarrow>
    simplify_temporal (Some e) = Some (Some e, False)"
  by (subst simplify_temporal.simps) (auto split: temporal_expr.splits)

lemma simplify_temporal_induct [case_names Null Unary Binary Other]:
  assumes "P None" "\<And>op x. P x \<Longrightarrow> P (Some (TemporalUnaryExpr op x))"
    "\<And>op l r. P l \<Longrightarrow> P r \<Longrightarrow> P (Some (TemporalBinaryExpr op l r))"
    "\<And>e. (\<And>op x. e \<noteq> TemporalUnaryExpr op x) \<Longrightarrow> (\<And>op l r. e \<noteq> TemporalBinaryExpr op l r) \<Longrightarrow> P (Some e)"
  shows "P e"
proof (induction e rule: measure_induct_rule [of "size_option size"])
  case (less e)
  show ?case
  proof (cases e)
    case (Some x)
    then show ?thesis using assms less by (cases x) auto
  qed (use assms in simp)
qed

lemma collapse_always: "(\<forall>j \<ge> i. \<forall>k \<ge> j. P k) \<longleftrightarrow> (\<forall>j \<ge> i. P j)" for i :: nat
  by (meson order_refl order_trans)

lemma collapse_eventually: "(\<exists>j \<ge> i. \<exists>k \<ge> j. P k) \<longleftrightarrow> (\<exists>j \<ge> i. P j)" for i :: nat
  by (meson order_refl order_trans)

lemma fold_temporal_unary_sat:
  assumes "fold_temporal_unary op x m = Some (f, m')"
  shows "sat_ref A f i \<longleftrightarrow> sat_ref A (Some (TemporalUnaryExpr op x)) i"
proof (cases "\<exists>y. op \<noteq> TNext \<and> x = Some (TemporalUnaryExpr op y)")
  case True
  then obtain y where y: "op \<noteq> TNext" "x = Some (TemporalUnaryExpr op y)" by blast
  then have "f = (if op = TNot then y else Some (TemporalUnaryExpr op y))"
    using assms by (auto simp: fold_temporal_unary_def)
  with y show ?thesis
    by (cases op) (simp_all add: collapse_always collapse_eventually)
next
  case False
  then have "f = Some (TemporalUnaryExpr op x)"
    using assms by (auto simp: fold_temporal_unary_def split: option.splits temporal_expr.splits if_splits)
  then show ?thesis by simp
qed

lemma simplify_temporal_sat:
  "simplify_temporal f = Some (f', m) \<Longrightarrow> sat_ref A f' i \<longleftrightarrow> sat_ref A f i"
proof (induction f arbitrary: f' m i rule: simplify_temporal_induct)
  case (Unary op x)
  then obtain x' m1 where x: "simplify_temporal x = Some (x', m1)" "fold_temporal_unary op x' m1 = Some (f', m)"
    by (auto split: option.splits)
  with fold_temporal_unary_sat [OF x(2)] Unary.IH [OF x(1)] show ?case by (cases op) simp_all
next
  case (Binary op l r)
  from Binary.prems obtain l' m1 r' m2 where "simplify_temporal l = Some (l', m1)" "simplify_temporal r = Some (r', m2)"
    "f' = Some (TemporalBinaryExpr op l' r')"
    by (auto simp: run_simps)
  with Binary.IH show ?case by (cases op) simp_all
qed (auto simp: simplify_temporal_other)

lemma simplify_temporal_shrinks:
  "simplify_temporal f = Some r \<Longrightarrow> shrinks (size_option size) f r"
proof (induction f arbitrary: r rule: simplify_temporal_induct)
  case (Unary op x)
  then obtain x' m1 where x: "simplify_temporal x = Some (x', m1)" "fold_temporal_unary op x' m1 = Some r"
    by (auto split: option.splits)
  from Unary.IH [OF x(1)] x(2) show ?case
    by (auto simp: fold_temporal_unary_def split: option.splits temporal_expr.splits if_splits)
next
  case (Binary op l r')
  then obtain l1 m1 r1 m2 where lr: "simplify_temporal l = Some (l1, m1)" "simplify_temporal r' = Some (r1, m2)"
    "r = (Some (TemporalBinaryExpr op l1 r1), m1 \<or> m2)"
    by (auto split: option.splits)
  from Binary.IH(1) [OF lr(1)] Binary.IH(2) [OF lr(2)] lr(3) show ?case by (auto split: if_splits)
qed (auto simp: simplify_temporal_other)

end
