(* ===== verification/Pass_Soundness.thy ===== *)
theory Pass_Soundness
  imports Passes
begin

section \<open>Passes do not change runs\<close>

text \<open>
  Two programs with matching declarations run every workflow alike. Agents match when they agree
  on the transitions out of every state the run can reach; workflows match when one is obtained
  from the other by dropping dependencies that other dependencies imply. Every pass gives a
  matching program.
\<close>

subsection \<open>Agents\<close>

definition agent_sim :: "agent_decl \<Rightarrow> agent_decl \<Rightarrow> bool" where
  "agent_sim a a' \<longleftrightarrow>
     agent_name a' = agent_name a \<and> agent_symbol a' = agent_symbol a \<and> quota a' = quota a \<and>
     initial_state a' = initial_state a \<and> final_states a' = final_states a \<and>
     (\<forall>f t. (initial_state a, f) \<in> (valid_steps a)\<^sup>* \<longrightarrow> is_valid_transition a' f t = is_valid_transition a f t)"

lemma agent_sim_refl [simp]: "agent_sim a a"
  by (simp add: agent_sim_def)

lemma handle_outcome_sim:
  assumes "agent_sim a a'" "(initial_state a, current_state_name res) \<in> (valid_steps a)\<^sup>*"
  shows "handle_outcome a' counts res out = handle_outcome a counts res out"
  using assms by (cases out) (simp_all add: handle_outcome_def agent_sim_def is_final_state_def Let_def)

lemma agent_iteration_sim:
  assumes "agent_sim (rt_agent rt) a'"
    "(initial_state (rt_agent rt), current_state_name res) \<in> (valid_steps (rt_agent rt))\<^sup>*"
  shows "agent_iteration env (rt\<lparr>rt_agent := a'\<rparr>) counts res c s = agent_iteration env rt counts res c s"
proof -
  have "run_expr_eval (rt\<lparr>rt_agent := a'\<rparr>) st = run_expr_eval rt st" for st
    using assms(1) by (simp add: run_expr_eval_def agent_sim_def split: option.splits)
  moreover have "handle_outcome a' counts (res\<lparr>agent_diags := d\<rparr>) out =
      handle_outcome (rt_agent rt) counts (res\<lparr>agent_diags := d\<rparr>) out" for d out
    by (rule handle_outcome_sim [OF assms(1)]) (use assms(2) in simp)
  ultimately show ?thesis by (simp add: agent_iteration_def Let_def split: option.split prod.split)
qed

lemma agent_iteration_step:
  assumes "agent_iteration env rt counts res c s = Some ((res', Some (counts', c')), s')"
  shows "(current_state_name res, current_state_name res') \<in> valid_steps (rt_agent rt)"
  using assms
proof (cases rule: agent_iteration_cases)
  case (exec h s1 r c1 res1)
  then obtain counts1 where "handle_outcome (rt_agent rt) counts res1 (outcome r) = (res', Some counts1)"
    by (cases "handle_outcome (rt_agent rt) counts res1 (outcome r)"; cases "snd (handle_outcome (rt_agent rt) counts res1 (outcome r))") auto
  then show ?thesis
  proof (cases rule: handle_outcome_goes_on)
    case (1 t)
    with exec show ?thesis by (simp add: valid_steps_def)
  qed
qed auto

lemma agent_loop_sim:
  assumes "agent_sim (rt_agent rt) a'"
    "(initial_state (rt_agent rt), current_state_name res) \<in> (valid_steps (rt_agent rt))\<^sup>*"
  shows "agent_loop env (rt\<lparr>rt_agent := a'\<rparr>) counts res c s = agent_loop env rt counts res c s"
  using assms
proof (induction env rt counts res c s rule: agent_loop.induct)
  case (1 env rt counts res c s)
  note it = agent_iteration_sim [OF "1.prems"]
  show ?case
  proof (cases "\<exists>res' counts' c' s'. agent_iteration env rt counts res c s = Some ((res', Some (counts', c')), s')")
    case True
    then obtain res' counts' c' s' where
      go: "agent_iteration env rt counts res c s = Some ((res', Some (counts', c')), s')" by blast
    have "(initial_state (rt_agent rt), current_state_name res') \<in> (valid_steps (rt_agent rt))\<^sup>*"
      using "1.prems"(2) agent_iteration_step [OF go] by (rule rtrancl_into_rtrancl)
    from "1.IH" [OF go refl refl refl refl "1.prems"(1) this] go it show ?thesis
      by (subst (1 2) agent_loop.simps) simp
  next
    case False
    with it show ?thesis
      by (subst (1 2) agent_loop.simps) (auto split: option.splits prod.splits)
  qed
qed

lemma run_agent_sim:
  assumes "agent_sim (rt_agent rt) a'"
  shows "run_agent env (rt\<lparr>rt_agent := a'\<rparr>) v s = run_agent env rt v s"
proof -
  have "initial_state a' = initial_state (rt_agent rt)" using assms by (simp add: agent_sim_def)
  moreover have "agent_loop env (rt\<lparr>rt_agent := a'\<rparr>) counts (initial_agent_result (initial_state (rt_agent rt)) t) c s =
      agent_loop env rt counts (initial_agent_result (initial_state (rt_agent rt)) t) c s" for counts t c s
    by (rule agent_loop_sim [OF assms]) (simp add: initial_agent_result_def)
  ultimately show ?thesis by (simp add: run_agent_def run_from_state_def)
qed

lemma node_agent_runtime_sim:
  "agent_sim a a' \<Longrightarrow> node_agent_runtime cfg a' flow context =
    (node_agent_runtime cfg a flow context)\<lparr>rt_agent := a'\<rparr>"
  "rt_agent (node_agent_runtime cfg a flow context) = a"
  by (simp_all add: node_agent_runtime_def make_agent_runtime_def agent_sim_def Let_def
      set_invocation_context_def set_contextual_capability_invoker_def set_capability_invoker_def
      split: option.splits)

lemma run_node_agent_sim:
  "agent_sim a a' \<Longrightarrow>
    run_agent env (node_agent_runtime cfg a' flow context) v s = run_agent env (node_agent_runtime cfg a flow context) v s"
  by (simp add: node_agent_runtime_sim run_agent_sim)

text \<open>Dead state elimination gives a matching agent.\<close>

lemma set_fold_insert [simp]: "set (fold List.insert xs ys) = set xs \<union> set ys"
  by (induction xs arbitrary: ys) auto

lemma valid_transition_pairs: "is_valid_transition a f t \<longleftrightarrow> (f, t) \<in> set (transition_pairs a)"
  by (auto simp: is_valid_transition_def transition_pairs_def list_ex_iff)

lemma valid_steps_pairs: "valid_steps a = set (transition_pairs a)"
  by (auto simp: valid_steps_def valid_transition_pairs)

lemma eliminate_dead_states_sim: "agent_sim a (fst (eliminate_dead_states a))"
proof -
  define R where "R = set (reachable_states a)"
  define a1 where "a1 = a\<lparr>states := filter (\<lambda>s. s \<in> R) (states a),
    transitions := filter (\<lambda>t. from_state t \<in> R \<and> to_state t \<in> R) (transitions a)\<rparr>"
  have "is_valid_transition a1 f t = is_valid_transition a f t"
    if "(initial_state a, f) \<in> (valid_steps a)\<^sup>*" for f t
  proof -
    have f: "f \<in> set (bfs_search (transition_pairs a) [initial_state a])"
      using that by (simp add: bfs.search_set valid_steps_pairs)
    then have "t \<in> R" if "(f, t) \<in> set (transition_pairs a)"
      using bfs.marked_closed [OF f that] by (simp add: R_def reachable_states_def)
    moreover have "f \<in> R" using f by (simp add: R_def reachable_states_def)
    ultimately show ?thesis
      by (auto simp: valid_transition_pairs a1_def transition_pairs_def)
  qed
  then have "agent_sim a a1" by (simp add: agent_sim_def a1_def)
  then show ?thesis by (simp add: eliminate_dead_states_def Let_def R_def a1_def)
qed

subsection \<open>Reducing dependencies\<close>

text \<open>
  \<open>g\<close> drops dependencies of nodes, each of them implied by one that is kept.
\<close>

definition node_reduction :: "workflow_node list \<Rightarrow> (workflow_node \<Rightarrow> workflow_node) \<Rightarrow> bool" where
  "node_reduction ns g \<longleftrightarrow>
     (\<forall>n \<in> set ns.
        node_name (g n) = node_name n \<and> node_input (g n) = node_input n \<and> target_ref (g n) = target_ref n \<and>
        set (after (g n)) \<subseteq> set (after n) \<and>
        (\<forall>d \<in> set (after n). \<exists>k \<in> set (after (g n)). (d, k) \<in> (depends ns)\<^sup>*))"

lemma node_reductionD:
  assumes "node_reduction ns g" "n \<in> set ns"
  shows "node_name (g n) = node_name n" "node_input (g n) = node_input n" "target_ref (g n) = target_ref n"
    "set (after (g n)) \<subseteq> set (after n)"
    "d \<in> set (after n) \<Longrightarrow> \<exists>k \<in> set (after (g n)). (d, k) \<in> (depends ns)\<^sup>*"
  using assms by (auto simp: node_reduction_def)

lemma distinct_reduction:
  assumes "distinct (map node_name ns)" "node_reduction ns g"
  shows "distinct (map node_name (map g ns))"
proof -
  have "map node_name (map g ns) = map node_name ns" using assms(2) by (simp add: node_reduction_def)
  with assms(1) show ?thesis by (simp only:)
qed

text \<open>A set of names closed under dependencies is closed under paths.\<close>

definition deps_closed :: "workflow_node list \<Rightarrow> string set \<Rightarrow> bool" where
  "deps_closed ns P \<longleftrightarrow> (\<forall>n \<in> set ns. node_name n \<in> P \<longrightarrow> set (after n) \<subseteq> P)"

lemma deps_closed_path:
  assumes "deps_closed ns P" "(d, k) \<in> (depends ns)\<^sup>*" "k \<in> P"
  shows "d \<in> P"
  using assms(2,3) by (induction rule: converse_rtrancl_induct) (use assms(1) in \<open>auto simp: deps_closed_def depends_def\<close>)

lemma same_node:
  "distinct (map node_name ns) \<Longrightarrow> m \<in> set ns \<Longrightarrow> n \<in> set ns \<Longrightarrow> node_name m = node_name n \<Longrightarrow> m = n"
  by (auto simp: distinct_map dest: inj_onD)

text \<open>Reduced dependencies are met exactly when all of them are, and the last one met is not reduced.\<close>

lemma reduction_met:
  assumes "node_reduction ns g" "n \<in> set ns" "deps_closed ns P"
  shows "set (after (g n)) \<subseteq> P \<longleftrightarrow> set (after n) \<subseteq> P"
  using node_reductionD(4,5) [OF assms(1,2)] deps_closed_path [OF assms(3)] by blast

lemma reduction_last_met:
  assumes "node_reduction ns g" "n \<in> set ns" "deps_closed ns P" "m \<notin> P" "set (after n) \<subseteq> insert m P"
  shows "m \<in> set (after (g n)) \<longleftrightarrow> m \<in> set (after n)"
proof
  assume "m \<in> set (after n)"
  then obtain k where k: "k \<in> set (after (g n))" "(m, k) \<in> (depends ns)\<^sup>*"
    using node_reductionD(5) [OF assms(1,2)] by blast
  then have "k \<in> insert m P" using node_reductionD(4) [OF assms(1,2)] assms(5) by blast
  moreover have "k \<notin> P" using deps_closed_path [OF assms(3) k(2)] assms(4) by blast
  ultimately show "m \<in> set (after (g n))" using k(1) by blast
qed (use node_reductionD(4) [OF assms(1,2)] in blast)

lemma topo_inv_deps_closed:
  assumes "topo_inv ns rem ready order processed" "distinct (map node_name ns)"
  shows "deps_closed ns (set processed)"
  unfolding deps_closed_def
proof (intro ballI impI)
  fix n assume n: "n \<in> set ns" "node_name n \<in> set processed"
  then obtain m where "m \<in> set order" "node_name m = node_name n" using assms(1) by (auto simp: topo_inv_def)
  moreover from this have "m = n"
    using assms n(1) same_node [OF assms(2), of m n] by (auto simp: topo_inv_def)
  ultimately obtain i where "i < length order" "order ! i = n" by (metis in_set_conv_nth)
  then have "set (after n) \<subseteq> node_name ` set (take i order)" using assms(1) by (auto simp: topo_inv_def)
  also have "\<dots> \<subseteq> set processed" using assms(1) set_take_subset [of i order] by (auto simp: topo_inv_def)
  finally show "set (after n) \<subseteq> set processed" .
qed

text \<open>One step of the loop over the ready nodes, on both node lists.\<close>

lemma unlock_reduction:
  assumes ns: "distinct (map node_name ns)" and g: "node_reduction ns g"
    and inv: "topo_inv ns rem (n # ready) order processed"
    and inv': "topo_inv (map g ns) rem' (map g (n # ready)) (map g order) processed"
    and unl: "unlock (node_name n) (\<lambda>m. m \<in> set (node_name n # processed)) ns rem ready = (rem1, ready1)"
    and unl': "unlock (node_name n) (\<lambda>m. m \<in> set (node_name n # processed)) (map g ns) rem' (map g ready) =
      (rem1', ready1')"
  shows "ready1' = map g ready1"
proof -
  have ns': "distinct (map node_name (map g ns))" using ns g by (rule distinct_reduction)
  have n: "n \<in> set ns" "node_name n \<notin> set processed" "set (after n) \<subseteq> set processed"
    using topo_inv_ready [OF inv, of n] by simp_all
  let ?P = "set processed" and ?P1 = "insert (node_name n) (set processed)"
  have P: "deps_closed ns ?P" using topo_inv_deps_closed [OF inv ns] .
  have P1: "deps_closed ns ?P1"
  proof -
    have "m = n" if "m \<in> set ns" "node_name m = node_name n" for m
      using same_node [OF ns that(1) n(1) that(2)] .
    with P n(3) show ?thesis by (auto simp: deps_closed_def)
  qed
  have zero: "count_down (node_name n) (after m) (rem (node_name m)) = 0 \<longleftrightarrow> set (after m) \<subseteq> ?P1"
    if "m \<in> set ns" "node_name m \<notin> ?P" for m
  proof -
    from topo_inv_remaining [OF inv that] filter_insert_length [OF n(2), of "after m"]
    have "count_down (node_name n) (after m) (rem (node_name m)) = length (filter (\<lambda>d. d \<notin> ?P1) (after m))"
      by (simp add: count_down_eq)
    then show ?thesis by (auto simp: filter_empty_conv)
  qed
  have zero': "count_down (node_name n) (after (g m)) (rem' (node_name (g m))) = 0 \<longleftrightarrow> set (after (g m)) \<subseteq> ?P1"
    if "m \<in> set ns" "node_name m \<notin> ?P" for m
  proof -
    from topo_inv_remaining [OF inv', of "g m"] that node_reductionD(1) [OF g that(1)] filter_insert_length [OF n(2), of "after (g m)"]
    have "count_down (node_name n) (after (g m)) (rem' (node_name (g m))) =
        length (filter (\<lambda>d. d \<notin> ?P1) (after (g m)))"
      by (simp add: count_down_eq)
    then show ?thesis by (auto simp: filter_empty_conv)
  qed
  have cond: "(\<not> node_name (g m) \<in> set (node_name n # processed) \<and> node_name n \<in> set (after (g m)) \<and>
      count_down (node_name n) (after (g m)) (rem' (node_name (g m))) = 0) \<longleftrightarrow>
    (\<not> node_name m \<in> set (node_name n # processed) \<and> node_name n \<in> set (after m) \<and>
      count_down (node_name n) (after m) (rem (node_name m)) = 0)" if m: "m \<in> set ns" for m
    using zero [OF m] zero' [OF m] node_reductionD(1) [OF g m] reduction_met [OF g m P1]
      reduction_last_met [OF g m P n(2)] by auto
  have "ready1' = map g ready @ filter (\<lambda>c. \<not> node_name c \<in> set (node_name n # processed) \<and>
      node_name n \<in> set (after c) \<and> count_down (node_name n) (after c) (rem' (node_name c)) = 0) (map g ns)"
    using unlock_spec [OF ns' unl'] by simp
  also have "\<dots> = map g (ready @ filter (\<lambda>c. \<not> node_name c \<in> set (node_name n # processed) \<and>
      node_name n \<in> set (after c) \<and> count_down (node_name n) (after c) (rem (node_name c)) = 0) ns)"
    using cond by (simp add: filter_map o_def cong: filter_cong)
  also have "\<dots> = map g ready1" using unlock_spec [OF ns unl] by simp
  finally show ?thesis .
qed

lemma topo_loop_reduction:
  assumes "distinct (map node_name ns)" "node_reduction ns g"
    "topo_inv ns rem ready order processed" "topo_inv (map g ns) rem' (map g ready) (map g order) processed"
  shows "topo_loop (map g ns) rem' (map g ready) (map g order) processed =
    map g (topo_loop ns rem ready order processed)"
  using assms
proof (induction ns rem ready order processed arbitrary: rem' rule: topo_loop.induct)
  case (1 ns rem order processed)
  then show ?case by simp
next
  case (2 ns rem n ready order processed)
  note ns = "2.prems"(1) and g = "2.prems"(2) and inv = "2.prems"(3) and inv' = "2.prems"(4)
  have ns': "distinct (map node_name (map g ns))" using ns g by (rule distinct_reduction)
  obtain rem1 ready1 where unl:
    "unlock (node_name n) (\<lambda>m. m \<in> set (node_name n # processed)) ns rem ready = (rem1, ready1)" by fastforce
  note step = topo_inv_step [OF ns inv unl]
  have gn: "node_name (g n) = node_name n"
    using node_reductionD(1) [OF g] topo_inv_ready [OF inv, of n] by simp
  obtain rem1' ready1' where unl':
    "unlock (node_name n) (\<lambda>m. m \<in> set (node_name n # processed)) (map g ns) rem' (map g ready) = (rem1', ready1')"
    by fastforce
  have step': "topo_inv (map g ns) rem1' ready1' (map g order @ [g n]) (node_name n # processed)"
    using topo_inv_step [OF ns', of rem' "g n" "map g ready"] inv' unl' gn by simp
  have ready1': "ready1' = map g ready1" by (rule unlock_reduction [OF ns g inv inv' unl unl'])
  have "topo_loop (map g ns) rem1' (map g ready1) (map g (order @ [n])) (node_name n # processed) =
      map g (topo_loop ns rem1 ready1 (order @ [n]) (node_name n # processed))"
    using step step' ready1' by (intro "2.IH"(2) [OF _ unl [symmetric] ns g]) auto
  with step unl unl' ready1' gn show ?case by simp
qed

lemma topological_order_reduction:
  assumes "distinct (map node_name (nodes w))" "node_reduction (nodes w) g" "nodes w' = map g (nodes w)"
  shows "topological_order w' = map g (topological_order w)"
proof -
  have ns': "distinct (map node_name (nodes w'))"
    using distinct_reduction [OF assms(1,2)] by (simp add: assms(3))
  have empty: "after (g n) = [] \<longleftrightarrow> after n = []" if "n \<in> set (nodes w)" for n
    using node_reductionD(4,5) [OF assms(2) that] by (metis empty_iff list.set_intros(1) neq_Nil_conv set_empty subset_empty)
  have ready: "filter (\<lambda>n. after n = []) (nodes w') = map g (filter (\<lambda>n. after n = []) (nodes w))"
    using empty by (simp add: assms(3) filter_map o_def cong: filter_cong)
  have "topo_inv (nodes w) (initial_remaining (nodes w)) (filter (\<lambda>n. after n = []) (nodes w)) [] []"
    by (rule topo_inv_initial [OF assms(1)])
  moreover have "topo_inv (nodes w') (initial_remaining (nodes w')) (filter (\<lambda>n. after n = []) (nodes w')) [] []"
    by (rule topo_inv_initial [OF ns'])
  ultimately show ?thesis
    using topo_loop_reduction [OF assms(1,2), of _ _ "[]" "[]"] ready
    by (simp add: topological_order_def assms(3))
qed

subsection \<open>Workflows\<close>

definition workflow_sim :: "workflow_decl \<Rightarrow> workflow_decl \<Rightarrow> bool" where
  "workflow_sim w w' \<longleftrightarrow>
     workflow_key w' = workflow_key w \<and> return_value w' = return_value w \<and>
     (nodes w' = nodes w \<or>
      distinct (map node_name (nodes w)) \<and> (\<exists>g. node_reduction (nodes w) g \<and> nodes w' = map g (nodes w)))"

lemma workflow_sim_refl [simp]: "workflow_sim w w"
  by (simp add: workflow_sim_def)

text \<open>
  Failures spread along dependencies: of the nodes \<open>done\<close>, one with a failed dependency has
  failed, and only those nodes have failed.
\<close>

definition failures_spread :: "workflow_node list \<Rightarrow> string set \<Rightarrow> bool" where
  "failures_spread ms F \<longleftrightarrow>
     F \<subseteq> node_name ` set ms \<and> (\<forall>m \<in> set ms. set (after m) \<inter> F \<noteq> {} \<longrightarrow> node_name m \<in> F)"

lemma record_node_failed:
  "failed_nodes (record_node n idx st out wst d ws) =
    (if st = AgentCompleted then failed_nodes ws else List.insert (node_name n) (failed_nodes ws))"
  by (simp add: record_node_def Let_def)

lemma finish_node_failed:
  "failed_nodes (finish_node n idx ar ws) =
    (if agent_status ar = AgentCompleted then failed_nodes ws else List.insert (node_name n) (failed_nodes ws))"
  by (simp add: finish_node_def record_node_failed Let_def split: option.split)

lemma run_node_failed:
  assumes "run_node env ix cfg wfn v n idx ws s = Some (ws', s')"
  shows "failed_nodes ws' = List.insert (node_name n) (failed_nodes ws) \<or>
    failed_nodes ws' = failed_nodes ws \<and> set (after n) \<inter> set (failed_nodes ws) = {}"
proof (cases "list_ex (\<lambda>d. d \<in> set (failed_nodes ws)) (after n)")
  case True
  with assms show ?thesis by (auto simp: run_node_def Let_def record_node_failed)
next
  case False
  with assms show ?thesis
    by (cases "find_agent ix (symbol_canonical_name (target_ref n) [])";
        cases "find_flow_for_agent ix (symbol_canonical_name (target_ref n) [])")
      (auto simp: run_node_def Let_def run_simps record_node_failed finish_node_failed list_ex_iff split: if_splits)
qed

lemma failures_spread_step:
  assumes "failures_spread ms F" "run_node env ix cfg wfn v n idx ws s = Some (ws', s')" "set (failed_nodes ws) = F"
    and "\<forall>m \<in> set ms. node_name n \<notin> set (after m)"
  shows "failures_spread (ms @ [n]) (set (failed_nodes ws'))"
  using run_node_failed [OF assms(2)]
proof
  assume "failed_nodes ws' = List.insert (node_name n) (failed_nodes ws)"
  then have F': "set (failed_nodes ws') = insert (node_name n) F" using assms(3) by simp
  have spread: "node_name m \<in> insert (node_name n) F"
    if "m \<in> set (ms @ [n])" "set (after m) \<inter> insert (node_name n) F \<noteq> {}" for m
  proof (cases "m = n")
    case False
    with that have m: "m \<in> set ms" by simp
    with assms(4) that(2) have "set (after m) \<inter> F \<noteq> {}" by blast
    with m assms(1) show ?thesis by (simp add: failures_spread_def)
  qed simp
  have "insert (node_name n) F \<subseteq> node_name ` set (ms @ [n])"
    using assms(1) by (auto simp: failures_spread_def)
  with spread show ?thesis unfolding F' failures_spread_def by blast
next
  assume "failed_nodes ws' = failed_nodes ws \<and> set (after n) \<inter> set (failed_nodes ws) = {}"
  with assms(1,3) show ?thesis by (auto simp: failures_spread_def)
qed

text \<open>With the failures spread, a failed dependency shows in the reduced dependencies too.\<close>

lemma failed_reduction:
  assumes g: "node_reduction ns g" and n: "n \<in> set ns" and ns: "distinct (map node_name ns)"
    and ms: "set ms \<subseteq> set ns" "set (after n) \<subseteq> node_name ` set ms" "deps_closed ns (node_name ` set ms)"
    and F: "failures_spread ms F"
  shows "set (after (g n)) \<inter> F = {} \<longleftrightarrow> set (after n) \<inter> F = {}"
proof -
  have up: "k \<in> F" if "(d, k) \<in> (depends ns)\<^sup>*" "d \<in> F" "k \<in> node_name ` set ms" for d k
    using that
  proof (induction rule: converse_rtrancl_induct)
    case (step d x)
    have x: "x \<in> node_name ` set ms" using deps_closed_path [OF ms(3) step.hyps(2) step.prems(2)] .
    from step.hyps(1) obtain m where m: "m \<in> set ns" "node_name m = x" "d \<in> set (after m)"
      by (auto simp: depends_def)
    from x obtain m' where "m' \<in> set ms" "node_name m' = x" by auto
    then have "m \<in> set ms" using same_node [OF ns m(1), of m'] ms(1) m(2) by auto
    with F m step.prems(1) have "x \<in> F" by (auto simp: failures_spread_def)
    with step show ?case by blast
  qed
  show ?thesis
  proof
    assume no: "set (after (g n)) \<inter> F = {}"
    show "set (after n) \<inter> F = {}"
    proof (rule ccontr)
      assume "set (after n) \<inter> F \<noteq> {}"
      then obtain d where d: "d \<in> set (after n)" "d \<in> F" by auto
      then obtain k where k: "k \<in> set (after (g n))" "(d, k) \<in> (depends ns)\<^sup>*"
        using node_reductionD(5) [OF g n] by blast
      then have "k \<in> node_name ` set ms" using node_reductionD(4) [OF g n] ms(2) by blast
      from up [OF k(2) d(2) this] k(1) no show False by blast
    qed
  qed (use node_reductionD(4) [OF g n] in blast)
qed

lemma run_node_reduction:
  assumes "node_name n' = node_name n" "node_input n' = node_input n" "target_ref n' = target_ref n"
    and "set (after n') \<inter> set (failed_nodes ws) = {} \<longleftrightarrow> set (after n) \<inter> set (failed_nodes ws) = {}"
  shows "run_node env ix cfg wfn v n' idx ws s = run_node env ix cfg wfn v n idx ws s"
proof -
  have dep: "list_ex (\<lambda>d. d \<in> set (failed_nodes ws)) (after n') = list_ex (\<lambda>d. d \<in> set (failed_nodes ws)) (after n)"
    using assms(4) by (auto simp: list_ex_iff)
  have rec: "record_node n' = record_node n"
    using assms(1,3) by (intro ext) (simp add: record_node_def)
  then have fin: "finish_node n' = finish_node n"
    using assms(1) by (intro ext) (simp add: finish_node_def Let_def split: option.split)
  have ctx: "node_context wfn n' idx = node_context wfn n idx"
    using assms(1,3) by (simp add: node_context_def)
  have inp: "eval_node_input cfg wfn v n' idx ws s = eval_node_input cfg wfn v n idx ws s"
    unfolding eval_node_input_def assms(2) ctx ..
  show ?thesis unfolding run_node_def dep rec fin ctx inp assms(3) ..
qed

lemma run_nodes_reduction:
  assumes g: "node_reduction ns g" and ns: "distinct (map node_name ns)"
    and order: "set (ms @ rest) \<subseteq> set ns" "distinct (map node_name (ms @ rest))"
      "\<forall>i < length (ms @ rest). set (after ((ms @ rest) ! i)) \<subseteq> node_name ` set (take i (ms @ rest))"
    and F: "failures_spread ms (set (failed_nodes ws))"
  shows "run_nodes env ix cfg wfn v (map g rest) idx ws s = run_nodes env ix cfg wfn v rest idx ws s"
  using order F
proof (induction rest arbitrary: ms idx ws s)
  case (Cons n rest)
  have n: "n \<in> set ns" using Cons.prems(1) by simp
  have before: "set (after m) \<subseteq> node_name ` set ms" if "m \<in> set (ms @ [n])" for m
  proof -
    from that consider "m \<in> set ms" | "m = n" by auto
    then obtain i where i: "i \<le> length ms" "(ms @ n # rest) ! i = m"
    proof cases
      case 1
      then obtain i where "i < length ms" "ms ! i = m" by (auto simp: in_set_conv_nth)
      then show ?thesis using that [of i] by (simp add: nth_append)
    next
      case 2
      then show ?thesis using that [of "length ms"] by simp
    qed
    then have "set (after m) \<subseteq> node_name ` set (take i (ms @ n # rest))"
      using Cons.prems(3) [rule_format, of i] by simp
    moreover have "set (take i (ms @ n # rest)) \<subseteq> set ms" using i(1) set_take_subset [of i ms] by simp
    ultimately show ?thesis by blast
  qed
  have closed: "deps_closed ns (node_name ` set ms)"
    unfolding deps_closed_def
  proof (intro ballI impI)
    fix m assume m: "m \<in> set ns" "node_name m \<in> node_name ` set ms"
    then obtain m' where "m' \<in> set ms" "node_name m' = node_name m" by auto
    then have "m \<in> set ms" using same_node [OF ns m(1), of m'] Cons.prems(1) by auto
    then show "set (after m) \<subseteq> node_name ` set ms" using before by auto
  qed
  have same: "run_node env ix cfg wfn v (g n) idx ws s = run_node env ix cfg wfn v n idx ws s"
    using node_reductionD(1-3) [OF g n]
      failed_reduction [OF g n ns _ _ closed Cons.prems(4)] before [of n] Cons.prems(1)
    by (intro run_node_reduction) auto
  show ?case
  proof (cases "run_node env ix cfg wfn v n idx ws s")
    case (Some p)
    obtain ws' s' where p: "p = (ws', s')" by fastforce
    have "node_name n \<notin> node_name ` set ms" using Cons.prems(2) by auto
    moreover have "set (after m) \<subseteq> node_name ` set ms" if "m \<in> set ms" for m using before [of m] that by simp
    ultimately have "\<forall>m \<in> set ms. node_name n \<notin> set (after m)" by blast
    from failures_spread_step [OF Cons.prems(4) Some [unfolded p] refl this]
    have "run_nodes env ix cfg wfn v (map g rest) (idx + 1) ws' s' = run_nodes env ix cfg wfn v rest (idx + 1) ws' s'"
      using Cons.prems(1-3) by (intro Cons.IH [of "ms @ [n]"]) simp_all
    with same Some p show ?thesis by simp
  qed (simp add: same)
qed simp

subsection \<open>Transitive reduction\<close>

lemma map_of_foldl_assign:
  "map_of (foldl (\<lambda>acc n. insert_or_assign (k n) (f n) acc) acc ns) = map_of acc ++ map_of (rev (map (\<lambda>n. (k n, f n)) ns))"
  by (induction ns arbitrary: acc) simp_all

lemma successors_foldl_assign:
  assumes "distinct (map k ns)"
  shows "n \<in> set ns \<Longrightarrow> successors (foldl (\<lambda>acc n. insert_or_assign (k n) (f n) acc) [] ns) (k n) = f n"
    and "x \<notin> k ` set ns \<Longrightarrow> successors (foldl (\<lambda>acc n. insert_or_assign (k n) (f n) acc) [] ns) x = []"
proof -
  let ?xs = "map (\<lambda>n. (k n, f n)) ns"
  have d: "distinct (map fst (rev ?xs))" using assms by (simp add: rev_map [symmetric] o_def)
  show "successors (foldl (\<lambda>acc n. insert_or_assign (k n) (f n) acc) [] ns) (k n) = f n" if "n \<in> set ns"
  proof -
    have "(k n, f n) \<in> set (rev ?xs)" using that by simp
    with d have "map_of (rev ?xs) (k n) = Some (f n)" by (rule map_of_is_SomeI)
    then show ?thesis by (simp add: successors_def map_of_foldl_assign)
  qed
  show "successors (foldl (\<lambda>acc n. insert_or_assign (k n) (f n) acc) [] ns) x = []" if "x \<notin> k ` set ns"
  proof -
    have "map_of (rev ?xs) x = None" using that by (auto simp: map_of_eq_None_iff)
    then show ?thesis by (simp add: successors_def map_of_foldl_assign)
  qed
qed

lemma depends_iff:
  assumes "distinct (map node_name ns)" "n \<in> set ns"
  shows "(d, node_name n) \<in> depends ns \<longleftrightarrow> d \<in> set (after n)"
proof
  assume "(d, node_name n) \<in> depends ns"
  then obtain m where "m \<in> set ns" "node_name m = node_name n" "d \<in> set (after m)" by (auto simp: depends_def)
  with same_node [OF assms(1) _ assms(2)] show "d \<in> set (after n)" by blast
qed (use assms(2) in \<open>auto simp: depends_def\<close>)

lemma depends_undeclared: "x \<notin> node_name ` set ns \<Longrightarrow> (d, x) \<notin> depends ns"
  by (auto simp: depends_def)

lemma deps_map_edges:
  assumes "distinct (map node_name ns)"
  shows "adjacency_edges (deps_map ns) = (depends ns)\<inverse>"
proof -
  have "y \<in> set (successors (deps_map ns) x) \<longleftrightarrow> (y, x) \<in> depends ns" for x y
  proof (cases "x \<in> node_name ` set ns")
    case True
    then obtain n where n: "n \<in> set ns" "x = node_name n" by auto
    show ?thesis
      unfolding n(2) depends_iff [OF assms n(1)] deps_map_def
      by (simp only: successors_foldl_assign(1) [OF assms n(1)])
  next
    case False
    then show ?thesis
      unfolding deps_map_def by (simp add: successors_foldl_assign(2) [OF assms] depends_undeclared)
  qed
  then show ?thesis by (auto simp: adjacency_edges_def)
qed

text \<open>A set found before is empty when the names are distinct.\<close>

lemma transitive_reachable_fresh:
  assumes "distinct (map k ns)" "set (keys_of acc) \<inter> k ` set ns = {}"
  shows "foldl (\<lambda>acc n. insert_or_assign (k n) (f n (successors acc (k n))) acc) acc ns =
    foldl (\<lambda>acc n. insert_or_assign (k n) (f n []) acc) acc ns"
  using assms
proof (induction ns arbitrary: acc)
  case (Cons n ns)
  have "map_of acc (k n) = None" using Cons.prems(2) by (auto simp: keys_of_def map_of_eq_None_iff)
  then have "successors acc (k n) = []" by (simp add: successors_def)
  with Cons show ?case by auto
qed simp

text \<open>The sets computed are the transitive dependencies.\<close>

lemma compute_transitive_reachable_iff:
  assumes "distinct (map node_name ns)"
  shows "d \<in> set (successors (compute_transitive_reachable ns) x) \<longleftrightarrow> (d, x) \<in> (depends ns)\<^sup>+"
proof -
  let ?f = "\<lambda>n. dfs_search (deps_map ns) (after n)"
  have reach: "compute_transitive_reachable ns = foldl (\<lambda>acc n. insert_or_assign (node_name n) (?f n) acc) [] ns"
    unfolding compute_transitive_reachable_def dfs_search_def
    by (rule transitive_reachable_fresh [OF assms]) simp
  show ?thesis
  proof (cases "x \<in> node_name ` set ns")
    case True
    then obtain n where n: "n \<in> set ns" "x = node_name n" by auto
    note mem = depends_iff [OF assms n(1), folded n(2)]
    have "set (successors (compute_transitive_reachable ns) x) = ((depends ns)\<^sup>*)\<inverse> `` set (after n)"
      unfolding reach n(2) successors_foldl_assign(1) [OF assms n(1), of ?f] dfs.search_set deps_map_edges [OF assms]
        rtrancl_converse ..
    then have "d \<in> set (successors (compute_transitive_reachable ns) x) \<longleftrightarrow>
        (\<exists>a. (a, x) \<in> depends ns \<and> (d, a) \<in> (depends ns)\<^sup>*)" by (auto simp: mem)
    also have "\<dots> \<longleftrightarrow> (d, x) \<in> (depends ns)\<^sup>+" by (auto dest: tranclD2 rtrancl_into_trancl1)
    finally show ?thesis .
  next
    case False
    then have "(d, x) \<notin> (depends ns)\<^sup>+" by (auto simp: depends_def dest!: tranclD2)
    with False show ?thesis by (simp add: reach successors_foldl_assign(2) [OF assms])
  qed
qed

text \<open>On acyclic dependencies every dropped dependency leads to a kept one.\<close>

lemma kept_dependency:
  assumes "acyclic (depends ns)" "d \<in> set deps"
    and "\<And>d x. d \<in> set (successors reach x) \<longleftrightarrow> (d, x) \<in> (depends ns)\<^sup>+"
  shows "\<exists>k \<in> set deps. \<not> redundant_dep reach deps k \<and> (d, k) \<in> (depends ns)\<^sup>*"
proof -
  have "wf (((depends ns)\<^sup>+)\<inverse>)"
    using assms(1) finite_acyclic_wf_converse [OF finite_depends] by (metis trancl_converse wf_trancl)
  then show ?thesis using assms(2)
  proof (induction d rule: wf_induct_rule)
    case (less d)
    show ?case
    proof (cases "redundant_dep reach deps d")
      case True
      then obtain x where x: "x \<in> set deps" "(d, x) \<in> (depends ns)\<^sup>+"
        by (auto simp: redundant_dep_def list_ex_iff assms(3))
      with less.IH [of x] obtain k where "k \<in> set deps" "\<not> redundant_dep reach deps k" "(x, k) \<in> (depends ns)\<^sup>*" by auto
      with x show ?thesis by (meson rtrancl_trans trancl_into_rtrancl)
    qed (use less.prems in blast)
  qed
qed

lemma simplify_node_reduction:
  assumes "distinct (map node_name ns)" "acyclic (depends ns)"
  shows "node_reduction ns (\<lambda>n. fst (simplify_node (compute_transitive_reachable ns) n))"
  unfolding node_reduction_def
proof (intro ballI)
  fix n assume "n \<in> set ns"
  let ?reach = "compute_transitive_reachable ns"
  have "\<exists>k \<in> set (filter (\<lambda>d. \<not> redundant_dep ?reach (after n) d) (after n)). (d, k) \<in> (depends ns)\<^sup>*"
    if "d \<in> set (after n)" for d
    using kept_dependency [OF assms(2) that compute_transitive_reachable_iff [OF assms(1)]] by auto
  moreover have "\<forall>d \<in> set (after n). \<exists>k \<in> set (after n). (d, k) \<in> (depends ns)\<^sup>*" by blast
  ultimately show "node_name (fst (simplify_node ?reach n)) = node_name n \<and>
      node_input (fst (simplify_node ?reach n)) = node_input n \<and>
      target_ref (fst (simplify_node ?reach n)) = target_ref n \<and>
      set (after (fst (simplify_node ?reach n))) \<subseteq> set (after n) \<and>
      (\<forall>d \<in> set (after n). \<exists>k \<in> set (after (fst (simplify_node ?reach n))). (d, k) \<in> (depends ns)\<^sup>*)"
    by (simp add: simplify_node_def Let_def)
qed

lemma simplify_workflow_sim:
  assumes "distinct (map node_name (nodes w))" "acyclic (depends (nodes w))"
  shows "workflow_sim w (fst (simplify_workflow w))"
  using simplify_node_reduction [OF assms] assms(1)
  by (auto simp: simplify_workflow_def Let_def workflow_sim_def o_def
      intro!: exI [of _ "\<lambda>n. fst (simplify_node (compute_transitive_reachable (nodes w)) n)"])

subsection \<open>Programs\<close>

definition decl_sim :: "decl \<Rightarrow> decl \<Rightarrow> bool" where
  "decl_sim d d' \<longleftrightarrow>
     (case d of
        AgentDecl a \<Rightarrow> (\<exists>a'. d' = AgentDecl a' \<and> agent_sim a a')
      | WorkflowDecl w \<Rightarrow> (\<exists>w'. d' = WorkflowDecl w' \<and> workflow_sim w w')
      | ContractDecl k \<Rightarrow> (\<exists>k'. d' = ContractDecl k')
      | _ \<Rightarrow> d' = d)"

lemma decl_sim_refl [simp]: "decl_sim d d"
  by (simp add: decl_sim_def split: decl.split)

abbreviation program_sim :: "decl list \<Rightarrow> decl list \<Rightarrow> bool" where
  "program_sim ds ds' \<equiv> list_all2 decl_sim ds ds'"

lemma declarations_sim:
  assumes "program_sim ds ds'"
  shows "list_all2 agent_sim (agents_of ds) (agents_of ds')" "flows_of ds' = flows_of ds"
    "list_all2 workflow_sim (workflows_of ds) (workflows_of ds')"
  using assms
  by (induction rule: list_all2_induct;
      auto simp: decl_sim_def agents_of_def flows_of_def workflows_of_def map_filter_simps split: decl.splits)+

lemma find_rel:
  "list_all2 R xs ys \<Longrightarrow> (\<And>x y. R x y \<Longrightarrow> P x \<longleftrightarrow> Q y) \<Longrightarrow> rel_option R (find P xs) (find Q ys)"
  by (induction rule: list_all2_induct) auto

lemma find_sim:
  assumes "program_sim ds ds'"
  shows "rel_option agent_sim (find_agent (rebuild ds) k) (find_agent (rebuild ds') k)"
    "find_flow_for_agent (rebuild ds') k = find_flow_for_agent (rebuild ds) k"
    "rel_option workflow_sim (find_workflow (rebuild ds) k) (find_workflow (rebuild ds') k)"
  using declarations_sim [OF assms]
  by (auto simp: find_agent_rebuild find_flow_rebuild find_workflow_rebuild agent_sim_def workflow_sim_def intro!: find_rel)

lemma run_node_sim:
  assumes "program_sim ds ds'"
  shows "run_node env (rebuild ds') cfg wfn v n idx ws s = run_node env (rebuild ds) cfg wfn v n idx ws s"
proof -
  let ?t = "symbol_canonical_name (target_ref n) []"
  note find = find_sim [OF assms, of ?t]
  show ?thesis
  proof (cases "find_agent (rebuild ds) ?t")
    case None
    with find(1) have None': "find_agent (rebuild ds') ?t = None" by simp
    show ?thesis unfolding run_node_def Let_def None None' find(2) ..
  next
    case (Some a)
    with find obtain a' where a': "find_agent (rebuild ds') ?t = Some a'" "agent_sim a a'" by (auto simp: rel_option_iff split: option.splits)
    note same = run_node_agent_sim [OF a'(2)]
    show ?thesis unfolding run_node_def a'(1) Some find(2) Let_def by (simp add: same split: option.split)
  qed
qed

lemma run_nodes_sim:
  "program_sim ds ds' \<Longrightarrow>
    run_nodes env (rebuild ds') cfg wfn v ns idx ws s = run_nodes env (rebuild ds) cfg wfn v ns idx ws s"
  by (induction ns arbitrary: idx ws s) (simp_all add: run_node_sim split: option.split)

lemma workflow_nodes_sim:
  assumes "workflow_sim w w'"
  shows "length (topological_order w') = length (topological_order w) \<and>
    (failed_nodes ws = [] \<longrightarrow> run_nodes env ix cfg wfn v (topological_order w') 0 ws s =
      run_nodes env ix cfg wfn v (topological_order w) 0 ws s)"
proof (cases "nodes w' = nodes w")
  case False
  with assms obtain g where ns: "distinct (map node_name (nodes w))" and g: "node_reduction (nodes w) g"
    and w': "nodes w' = map g (nodes w)" by (auto simp: workflow_sim_def)
  note order = topological_order_props [OF ns]
  have "set (topological_order w) \<subseteq> set (nodes w)"
    unfolding order(2) by (auto elim: resolvable.cases)
  then have "run_nodes env ix cfg wfn v (map g (topological_order w)) 0 ws s =
      run_nodes env ix cfg wfn v (topological_order w) 0 ws s" if "failed_nodes ws = []"
    using order that by (intro run_nodes_reduction [OF g ns, of "[]"]) (simp_all add: failures_spread_def)
  with topological_order_reduction [OF ns g w'] show ?thesis by simp
qed (simp add: topological_order_def)

text \<open>Matching programs run alike.\<close>

lemma run_workflow_sim:
  assumes "program_sim ds ds'"
  shows "run_workflow env ds' cfg wfn v s = run_workflow env ds cfg wfn v s"
proof (cases "find_workflow (rebuild ds) wfn")
  case None
  with find_sim(3) [OF assms, of wfn] show ?thesis by (simp add: run_workflow_def)
next
  case (Some w)
  with find_sim(3) [OF assms, of wfn] obtain w' where
    w': "find_workflow (rebuild ds') wfn = Some w'" and sim: "workflow_sim w w'"
    by (auto simp: rel_option_iff split: option.splits)
  have ret: "eval_return cfg wfn w' = eval_return cfg wfn w"
    using sim by (intro ext) (simp add: eval_return_def workflow_sim_def)
  have len: "length (nodes w') = length (nodes w)" "nodes w' = [] \<longleftrightarrow> nodes w = []"
    using sim by (auto simp: workflow_sim_def)
  show ?thesis
    unfolding run_workflow_def Some w' Let_def option.case ret len run_nodes_sim [OF assms]
    by (simp add: workflow_nodes_sim [OF sim])
qed

subsection \<open>The passes\<close>

lemma map_changed_rel:
  "map_changed f xs = Some (ys, m) \<Longrightarrow> (\<And>x y b. x \<in> set xs \<Longrightarrow> f x = Some (y, b) \<Longrightarrow> R x y) \<Longrightarrow> list_all2 R xs ys"
  by (induction xs arbitrary: ys m) (fastforce split: option.splits)+

lemma over_declarations_rel:
  assumes "over_declarations f p = Some (p', m)" "\<And>d d' b. d \<in> set (declarations p) \<Longrightarrow> f d = Some (d', b) \<Longrightarrow> R d d'"
  shows "list_all2 R (declarations p) (declarations p')"
  using assms map_changed_rel [of f "declarations p" _ _ R] by (auto simp: over_declarations_def)

definition acyclic_workflow :: "workflow_decl \<Rightarrow> bool" where
  "acyclic_workflow w \<longleftrightarrow> distinct (map node_name (nodes w)) \<and> acyclic (depends (nodes w))"

lemma dead_state_decl_sim: "dead_state_decl d = Some (d', m) \<Longrightarrow> decl_sim d d'"
  using eliminate_dead_states_sim by (cases d) (auto simp: dead_state_decl_def decl_sim_def split: prod.splits; metis fst_conv)+

lemma simplify_workflow_decl_sim:
  "simplify_workflow_decl d = Some (d', m) \<Longrightarrow> (\<And>w. d = WorkflowDecl w \<Longrightarrow> acyclic_workflow w) \<Longrightarrow> decl_sim d d'"
  using simplify_workflow_sim
  by (cases d) (auto simp: simplify_workflow_decl_def decl_sim_def acyclic_workflow_def split: prod.splits; metis fst_conv)+

lemma canonicalize_decl_sim: "canonicalize_decl d = Some (d', m) \<Longrightarrow> decl_sim d d'"
  by (cases d) (auto simp: canonicalize_decl_def decl_sim_def)

lemma simplify_temporal_decl_sim: "simplify_temporal_decl d = Some (d', m) \<Longrightarrow> decl_sim d d'"
  by (cases d) (auto simp: simplify_temporal_decl_def simplify_temporal_workflow_def decl_sim_def workflow_sim_def
      split: option.splits)

lemma in_workflows_of: "w \<in> set (workflows_of ds) \<longleftrightarrow> WorkflowDecl w \<in> set ds"
  by (induction ds) (auto simp: workflows_of_def map_filter_simps split: decl.splits)

lemma passes_program_sim:
  shows "dead_state_elimination p = Some (p', m) \<Longrightarrow> program_sim (declarations p) (declarations p')"
    "expr_canonicalization p = Some (p', m) \<Longrightarrow> program_sim (declarations p) (declarations p')"
    "temporal_simplification p = Some (p', m) \<Longrightarrow> program_sim (declarations p) (declarations p')"
    "workflow_simplification p = Some (p', m) \<Longrightarrow> (\<forall>w \<in> set (workflows_of (declarations p)). acyclic_workflow w) \<Longrightarrow>
      program_sim (declarations p) (declarations p')"
  unfolding dead_state_elimination_def expr_canonicalization_def temporal_simplification_def workflow_simplification_def
  by (auto elim!: over_declarations_rel dest: dead_state_decl_sim canonicalize_decl_sim simplify_temporal_decl_sim)
    (auto elim!: over_declarations_rel simplify_workflow_decl_sim simp: in_workflows_of)

end
