(* ===== verification/Pass_Manager.thy ===== *)
theory Pass_Manager
  imports Pass_Soundness
begin

section \<open>The pass manager\<close>

text \<open>
  \<open>src/compiler/passes/pass_manager.cpp\<close> and \<open>contract_redundancy.cpp\<close>. A \<open>Pass\<close> object is the
  record of what its virtual functions return; a null \<open>unique_ptr\<close> among the analysis results is
  \<^const>\<open>None\<close>. The wall-clock durations of the timings are left out, their names are kept. The
  locale \<open>pass_pipeline\<close> is the contract of a pass: it keeps a relation between programs. What
  the manager does with such passes is proved once and used for the default pipeline.
\<close>

record pass =
  pass_name :: string
  pass_run :: pass_fn
  required_analyses :: "string list"
  required_derived_analyses :: "analysis_kind list"
  invalidated_analyses :: "string list"
  invalidated_derived_analyses :: "analysis_kind list"

record 'r analysis_pass =
  analysis_name :: string
  analysis_run :: "program \<Rightarrow> 'r option"

record 'r pass_manager =
  passes :: "pass list"
  analysis_passes :: "'r analysis_pass list"
  analysis_results :: "'r option list"
  pass_filter :: "string list"
  analysis_index :: "(string \<times> nat) list"

record run_result =
  any_modified :: bool
  executed :: "string list"
  timed :: "string list"

definition empty_pass_manager :: "'r pass_manager" where
  "empty_pass_manager = \<lparr>passes = [], analysis_passes = [], analysis_results = [], pass_filter = [], analysis_index = []\<rparr>"

definition empty_run_result :: run_result where
  "empty_run_result = \<lparr>any_modified = False, executed = [], timed = []\<rparr>"

text \<open>The defaults of the virtual functions of \<open>Pass\<close>.\<close>

definition default_pass :: "string \<Rightarrow> pass_fn \<Rightarrow> pass" where
  "default_pass n f =
     \<lparr>pass_name = n, pass_run = f, required_analyses = [], required_derived_analyses = [],
      invalidated_analyses = [], invalidated_derived_analyses = all_derived_analysis_kinds\<rparr>"

subsection \<open>Registration\<close>

definition add_pass :: "pass \<Rightarrow> 'r pass_manager \<Rightarrow> 'r pass_manager" where
  "add_pass q pm = pm\<lparr>passes := passes pm @ [q]\<rparr>"

definition add_analysis :: "'r analysis_pass \<Rightarrow> 'r pass_manager \<Rightarrow> 'r pass_manager" where
  "add_analysis a pm =
     pm\<lparr>analysis_index := insert_or_assign (analysis_name a) (length (analysis_passes pm)) (analysis_index pm),
        analysis_passes := analysis_passes pm @ [a]\<rparr>"

definition set_pass_filter :: "string list \<Rightarrow> 'r pass_manager \<Rightarrow> 'r pass_manager" where
  "set_pass_filter names pm = pm\<lparr>pass_filter := fold List.insert names []\<rparr>"

definition registered_pass_names :: "'r pass_manager \<Rightarrow> string list" where
  "registered_pass_names pm = map pass_name (passes pm)"

definition registered_analysis_names :: "'r pass_manager \<Rightarrow> string list" where
  "registered_analysis_names pm = map analysis_name (analysis_passes pm)"

subsection \<open>Analysis results\<close>

text \<open>\<open>std::vector::resize\<close> fills with null pointers.\<close>

definition resize :: "nat \<Rightarrow> 'a option list \<Rightarrow> 'a option list" where
  "resize n xs = take n xs @ replicate (n - length xs) None"

definition ensure_analysis :: "string \<Rightarrow> program \<Rightarrow> 'r pass_manager \<Rightarrow> 'r pass_manager" where
  "ensure_analysis name p pm =
     (case map_of (analysis_index pm) name of
        None \<Rightarrow> pm
      | Some idx \<Rightarrow>
          if idx < length (analysis_results pm) \<and> analysis_results pm ! idx \<noteq> None then pm
          else
            (let rs = (if length (analysis_results pm) \<le> idx
                       then resize (length (analysis_passes pm)) (analysis_results pm) else analysis_results pm)
             in pm\<lparr>analysis_results := rs[idx := analysis_run (analysis_passes pm ! idx) p]\<rparr>))"

definition invalidate_analysis :: "string \<Rightarrow> 'r pass_manager \<Rightarrow> 'r pass_manager" where
  "invalidate_analysis name pm =
     (case map_of (analysis_index pm) name of
        None \<Rightarrow> pm
      | Some idx \<Rightarrow>
          if idx < length (analysis_results pm)
          then pm\<lparr>analysis_results := (analysis_results pm)[idx := None]\<rparr> else pm)"

subsection \<open>Running the pipeline\<close>

definition skipped :: "'r pass_manager \<Rightarrow> pass \<Rightarrow> bool" where
  "skipped pm q \<longleftrightarrow> pass_filter pm \<noteq> [] \<and> pass_name q \<notin> set (pass_filter pm)"

definition after_change :: "pass \<Rightarrow> program \<Rightarrow> program option" where
  "after_change q p =
     (if invalidated_derived_analyses q \<noteq> []
      then ensure_derived_analyses (mark_derived_analyses_stale p) (invalidated_derived_analyses q) Optimized
      else Some (p\<lparr>phase := Optimized\<rparr>))"

definition run_pass ::
  "pass \<Rightarrow> 'r pass_manager \<times> program \<times> run_result \<Rightarrow> ('r pass_manager \<times> program \<times> run_result) option" where
  "run_pass q st =
     (case st of (pm, p, r) \<Rightarrow>
        if skipped pm q then Some (pm, p, r)
        else
          (case ensure_derived_analyses p (required_derived_analyses q) Analyzed of
             None \<Rightarrow> None
           | Some p1 \<Rightarrow>
               (let pm1 = fold (\<lambda>n. ensure_analysis n p1) (required_analyses q) pm
                in case pass_run q p1 of
                     None \<Rightarrow> None
                   | Some (p2, modified) \<Rightarrow>
                       (let r1 = r\<lparr>timed := timed r @ [pass_name q]\<rparr>
                        in if modified then
                             (case after_change q p2 of
                                None \<Rightarrow> None
                              | Some p3 \<Rightarrow>
                                  Some (fold invalidate_analysis (invalidated_analyses q) pm1, p3,
                                    r1\<lparr>any_modified := True, executed := executed r @ [pass_name q]\<rparr>))
                           else Some (pm1, p2, r1\<lparr>executed := executed r @ [pass_name q]\<rparr>)))))"

fun run_passes ::
  "pass list \<Rightarrow> 'r pass_manager \<times> program \<times> run_result \<Rightarrow> ('r pass_manager \<times> program \<times> run_result) option" where
  "run_passes [] st = Some st"
| "run_passes (q # qs) st = (case run_pass q st of None \<Rightarrow> None | Some st' \<Rightarrow> run_passes qs st')"

definition run_analysis :: "program \<Rightarrow> nat \<Rightarrow> 'r pass_manager \<times> run_result \<Rightarrow> 'r pass_manager \<times> run_result" where
  "run_analysis p i st =
     (case st of (pm, r) \<Rightarrow>
        if analysis_results pm ! i = None then
          (pm\<lparr>analysis_results := (analysis_results pm)[i := analysis_run (analysis_passes pm ! i) p]\<rparr>,
           r\<lparr>executed := executed r @ [analysis_name (analysis_passes pm ! i)]\<rparr>)
        else (pm, r))"

definition run_pipeline :: "'r pass_manager \<Rightarrow> program \<Rightarrow> ('r pass_manager \<times> program \<times> run_result) option" where
  "run_pipeline pm p =
     (case run_passes (passes pm)
             (pm\<lparr>analysis_results := resize (length (analysis_passes pm)) (analysis_results pm)\<rparr>, p, empty_run_result) of
        None \<Rightarrow> None
      | Some (pm1, p1, r1) \<Rightarrow>
          (case ensure_derived_analyses p1 all_derived_analysis_kinds Analyzed of
             None \<Rightarrow> None
           | Some p2 \<Rightarrow>
               (case fold (run_analysis p2) [0..<length (analysis_passes pm1)] (pm1, r1) of
                  (pm2, r2) \<Rightarrow> Some (pm2, p2, r2))))"

fun fixpoint_loop ::
  "nat \<Rightarrow> 'r pass_manager \<times> program \<times> run_result \<Rightarrow> ('r pass_manager \<times> program \<times> run_result) option" where
  "fixpoint_loop 0 st = Some st"
| "fixpoint_loop (Suc n) (pm, p, combined) =
     (case run_pipeline pm p of
        None \<Rightarrow> None
      | Some (pm', p', r) \<Rightarrow>
          (let combined' = combined\<lparr>executed := executed combined @ executed r, timed := timed combined @ timed r\<rparr>
           in if any_modified r then fixpoint_loop n (pm', p', combined'\<lparr>any_modified := True\<rparr>)
              else Some (pm', p', combined')))"

definition run_to_fixpoint ::
  "'r pass_manager \<Rightarrow> program \<Rightarrow> nat \<Rightarrow> ('r pass_manager \<times> program \<times> run_result) option" where
  "run_to_fixpoint pm p max_iterations = fixpoint_loop max_iterations (pm, p, empty_run_result)"

subsection \<open>Contract redundancy\<close>

text \<open>
  Two clauses are equal when they hold the same pointer. Expressions are values here, so the
  identity of the node is a parameter: \<open>same k i j\<close> says that the values of the clauses \<open>i\<close>
  and \<open>j\<close> of the \<open>k\<close>-th declaration are the same node.
\<close>

definition clauses_structurally_equal :: "bool \<Rightarrow> contract_clause \<Rightarrow> contract_clause \<Rightarrow> bool" where
  "clauses_structurally_equal same_node a b \<longleftrightarrow>
     (if clause_kind a \<noteq> clause_kind b then False
      else
        (case (clause_value a, clause_value b) of
           (ClauseExpr _, ClauseExpr _) \<Rightarrow> same_node
         | (ClauseTemporal _, ClauseTemporal _) \<Rightarrow> same_node
         | _ \<Rightarrow> False))"

definition contract_duplicates :: "(nat \<Rightarrow> nat \<Rightarrow> bool) \<Rightarrow> contract_decl \<Rightarrow> (string \<times> nat \<times> nat) list" where
  "contract_duplicates same k =
     concat (map (\<lambda>i.
       map (\<lambda>j. (symbol_canonical_name (contract_target k) [], i, j))
         (filter (\<lambda>j. clauses_structurally_equal (same i j) (clauses k ! i) (clauses k ! j)) [i + 1..<length (clauses k)]))
       [0..<length (clauses k)])"

definition contract_redundancy :: "(nat \<Rightarrow> nat \<Rightarrow> nat \<Rightarrow> bool) \<Rightarrow> program \<Rightarrow> (string \<times> nat \<times> nat) list" where
  "contract_redundancy same p =
     concat (map (\<lambda>(k, d). case d of ContractDecl c \<Rightarrow> contract_duplicates (same k) c | _ \<Rightarrow> [])
       (zip [0..<length (declarations p)] (declarations p)))"

subsection \<open>The default pipeline\<close>

datatype analysis_result =
    CapabilityReachabilityResult "(string \<times> string) list"
  | ContractRedundancyResult "(string \<times> nat \<times> nat) list"

definition create_default_pipeline :: "(nat \<Rightarrow> nat \<Rightarrow> nat \<Rightarrow> bool) \<Rightarrow> analysis_result pass_manager" where
  "create_default_pipeline same =
     add_analysis \<lparr>analysis_name = ''contract-redundancy'',
         analysis_run = (\<lambda>p. Some (ContractRedundancyResult (contract_redundancy same p)))\<rparr>
       (add_analysis \<lparr>analysis_name = ''capability-reachability'',
           analysis_run = (\<lambda>p. Some (CapabilityReachabilityResult (capability_reachability p)))\<rparr>
         (add_pass (default_pass ''temporal-simplification'' temporal_simplification)
           (add_pass (default_pass ''expr-canonicalization'' expr_canonicalization)
             (add_pass (default_pass ''workflow-simplification'' workflow_simplification)
               (add_pass (default_pass ''dead-state-elimination'' dead_state_elimination)
                 empty_pass_manager)))))"

subsection \<open>What the manager keeps\<close>

lemma ensure_analysis_more [simp]:
  "passes (ensure_analysis n p pm) = passes pm" "analysis_passes (ensure_analysis n p pm) = analysis_passes pm"
  "pass_filter (ensure_analysis n p pm) = pass_filter pm" "analysis_index (ensure_analysis n p pm) = analysis_index pm"
  by (simp_all add: ensure_analysis_def Let_def split: option.split)

lemma invalidate_analysis_more [simp]:
  "passes (invalidate_analysis n pm) = passes pm" "analysis_passes (invalidate_analysis n pm) = analysis_passes pm"
  "pass_filter (invalidate_analysis n pm) = pass_filter pm" "analysis_index (invalidate_analysis n pm) = analysis_index pm"
  by (simp_all add: invalidate_analysis_def split: option.split)

definition same_pipeline :: "'r pass_manager \<Rightarrow> 'r pass_manager \<Rightarrow> bool" where
  "same_pipeline pm pm' \<longleftrightarrow>
     passes pm' = passes pm \<and> analysis_passes pm' = analysis_passes pm \<and>
     pass_filter pm' = pass_filter pm \<and> analysis_index pm' = analysis_index pm"

lemma same_pipeline_refl [simp]: "same_pipeline pm pm"
  and same_pipeline_trans [trans]: "same_pipeline pm pm1 \<Longrightarrow> same_pipeline pm1 pm2 \<Longrightarrow> same_pipeline pm pm2"
  and same_pipeline_results [simp]: "same_pipeline pm (pm'\<lparr>analysis_results := rs\<rparr>) = same_pipeline pm pm'"
  by (simp_all add: same_pipeline_def)

lemma same_pipeline_fold:
  assumes "\<And>x pm. same_pipeline pm (f x pm)"
  shows "same_pipeline pm (fold f xs pm)"
  by (induction xs arbitrary: pm) (auto intro: same_pipeline_trans assms)

lemma same_pipeline_ensure: "same_pipeline pm (fold (\<lambda>n. ensure_analysis n p) ns pm)"
  and same_pipeline_invalidate: "same_pipeline pm (fold invalidate_analysis ns pm)"
  by (rule same_pipeline_fold, simp add: same_pipeline_def)+

lemma run_analysis_same:
  "same_pipeline pm pm0 \<Longrightarrow> fold (run_analysis p) is (pm0, r) = (pm', r') \<Longrightarrow>
    same_pipeline pm pm' \<and> any_modified r' = any_modified r"
proof (induction "is" arbitrary: pm0 r)
  case (Cons i "is")
  obtain pm1 r1 where step: "run_analysis p i (pm0, r) = (pm1, r1)" by fastforce
  then have "same_pipeline pm pm1" "any_modified r1 = any_modified r"
    using Cons.prems(1) by (auto simp: run_analysis_def split: if_splits)
  with Cons step show ?case by simp
qed simp

lemma recompute_declarations:
  "recompute_derived_analyses p ph = Some p' \<Longrightarrow>
    declarations p' = declarations p \<and> analysis_revision p' = analysis_revision p \<and>
    source_program_revision (analyses p') = analysis_revision p' \<and> phase p' = ph \<and> format_version p' = format_version p"
  by (auto simp: recompute_derived_analyses_def recompute_state_handler_summaries_def
      recompute_workflow_expr_summaries_def recompute_formal_observations_def split: option.splits)

lemma ensure_declarations:
  "ensure_derived_analyses p req ph = Some p' \<Longrightarrow> declarations p' = declarations p"
  by (auto simp: ensure_derived_analyses_def recompute_declarations split: if_splits)

lemma after_change_declarations: "after_change q p = Some p' \<Longrightarrow> declarations p' = declarations p"
  by (auto simp: after_change_def mark_derived_analyses_stale_def dest!: ensure_declarations split: if_splits)

text \<open>The runs of a single pass: skipped, without a change, with a change.\<close>

lemma run_pass_cases:
  assumes "run_pass q (pm, p, r) = Some (pm', p', r')"
  obtains (skip) "skipped pm q" "pm' = pm" "p' = p" "r' = r"
  | (same) p1 where "\<not> skipped pm q" "ensure_derived_analyses p (required_derived_analyses q) Analyzed = Some p1"
      "pass_run q p1 = Some (p', False)" "pm' = fold (\<lambda>n. ensure_analysis n p1) (required_analyses q) pm"
      "r' = r\<lparr>timed := timed r @ [pass_name q], executed := executed r @ [pass_name q]\<rparr>"
  | (changed) p1 p2 where "\<not> skipped pm q" "ensure_derived_analyses p (required_derived_analyses q) Analyzed = Some p1"
      "pass_run q p1 = Some (p2, True)" "after_change q p2 = Some p'"
      "pm' = fold invalidate_analysis (invalidated_analyses q)
        (fold (\<lambda>n. ensure_analysis n p1) (required_analyses q) pm)"
      "r' = r\<lparr>timed := timed r @ [pass_name q], any_modified := True, executed := executed r @ [pass_name q]\<rparr>"
  using assms by (auto simp: run_pass_def Let_def split: if_splits option.splits)

lemma run_pass_same: "run_pass q (pm, p, r) = Some (pm', p', r') \<Longrightarrow> same_pipeline pm pm'"
  by (erule run_pass_cases) (auto intro: same_pipeline_ensure same_pipeline_trans [OF same_pipeline_ensure same_pipeline_invalidate])

lemma run_passes_same: "run_passes qs (pm, p, r) = Some (pm', p', r') \<Longrightarrow> same_pipeline pm pm'"
proof (induction qs arbitrary: pm p r)
  case (Cons q qs)
  then obtain pm1 p1 r1 where "run_pass q (pm, p, r) = Some (pm1, p1, r1)" "run_passes qs (pm1, p1, r1) = Some (pm', p', r')"
    by (auto split: option.splits)
  with Cons.IH run_pass_same show ?case by (blast intro: same_pipeline_trans)
qed simp

lemma run_pipeline_cases:
  assumes "run_pipeline pm p = Some (pm', p', r')"
  obtains pm1 p1 r1 where
    "run_passes (passes pm) (pm\<lparr>analysis_results := resize (length (analysis_passes pm)) (analysis_results pm)\<rparr>,
      p, empty_run_result) = Some (pm1, p1, r1)"
    "ensure_derived_analyses p1 all_derived_analysis_kinds Analyzed = Some p'"
    "fold (run_analysis p') [0..<length (analysis_passes pm1)] (pm1, r1) = (pm', r')"
    "same_pipeline pm pm'" "any_modified r' = any_modified r1"
proof -
  from assms obtain pm1 p1 r1 where run: "run_passes (passes pm)
      (pm\<lparr>analysis_results := resize (length (analysis_passes pm)) (analysis_results pm)\<rparr>, p, empty_run_result) = Some (pm1, p1, r1)"
    and rest: "ensure_derived_analyses p1 all_derived_analysis_kinds Analyzed = Some p'"
      "fold (run_analysis p') [0..<length (analysis_passes pm1)] (pm1, r1) = (pm', r')"
    by (auto simp: run_pipeline_def split: option.splits prod.splits)
  have "same_pipeline pm pm1" using run_passes_same [OF run] by (simp add: same_pipeline_def)
  from run_analysis_same [OF this rest(2)] show ?thesis using that [OF run rest] by blast
qed

subsection \<open>The contract of a pass\<close>

definition pass_sound :: "(decl list \<Rightarrow> bool) \<Rightarrow> (decl list \<Rightarrow> decl list \<Rightarrow> bool) \<Rightarrow> pass \<Rightarrow> bool" where
  "pass_sound ok sim q \<longleftrightarrow>
     (\<forall>p p' m. ok (declarations p) \<longrightarrow> pass_run q p = Some (p', m) \<longrightarrow>
        sim (declarations p) (declarations p') \<and> ok (declarations p'))"

lemma pass_soundD:
  "pass_sound ok sim q \<Longrightarrow> ok (declarations p) \<Longrightarrow> pass_run q p = Some (p', m) \<Longrightarrow>
    sim (declarations p) (declarations p') \<and> ok (declarations p')"
  by (simp add: pass_sound_def)

locale pass_pipeline =
  fixes ok :: "decl list \<Rightarrow> bool" and sim :: "decl list \<Rightarrow> decl list \<Rightarrow> bool"
  assumes sim_refl: "sim ds ds"
    and sim_trans: "sim ds ds1 \<Longrightarrow> sim ds1 ds2 \<Longrightarrow> sim ds ds2"
begin

lemma run_pass_sound:
  assumes "run_pass q (pm, p, r) = Some (pm', p', r')" "pass_sound ok sim q" "ok (declarations p)"
  shows "sim (declarations p) (declarations p') \<and> ok (declarations p')"
  using assms(1)
proof (cases rule: run_pass_cases)
  case skip
  then show ?thesis using assms(3) sim_refl by simp
next
  case (same p1)
  then show ?thesis using pass_soundD [OF assms(2) _ same(3)] assms(3) ensure_declarations [OF same(2)] by simp
next
  case (changed p1 p2)
  then show ?thesis
    using pass_soundD [OF assms(2) _ changed(3)] assms(3) ensure_declarations [OF changed(2)]
      after_change_declarations [OF changed(4)] by simp
qed

lemma run_passes_sound:
  assumes "run_passes qs (pm, p, r) = Some (pm', p', r')" "\<forall>q \<in> set qs. pass_sound ok sim q" "ok (declarations p)"
  shows "sim (declarations p) (declarations p') \<and> ok (declarations p')"
  using assms
proof (induction qs arbitrary: pm p r)
  case Nil
  then show ?case using sim_refl by simp
next
  case (Cons q qs)
  then obtain pm1 p1 r1 where run: "run_pass q (pm, p, r) = Some (pm1, p1, r1)" "run_passes qs (pm1, p1, r1) = Some (pm', p', r')"
    by (auto split: option.splits)
  have "sim (declarations p) (declarations p1) \<and> ok (declarations p1)"
    using run_pass_sound [OF run(1)] Cons.prems by simp
  with Cons.IH [OF run(2)] Cons.prems(2) show ?case by (auto intro: sim_trans)
qed

lemma run_pipeline_sound:
  assumes "run_pipeline pm p = Some (pm', p', r')" "\<forall>q \<in> set (passes pm). pass_sound ok sim q" "ok (declarations p)"
  shows "sim (declarations p) (declarations p') \<and> ok (declarations p')"
  using assms(1)
proof (cases rule: run_pipeline_cases)
  case (1 pm1 p1 r1)
  from run_passes_sound [OF 1(1) assms(2,3)] ensure_declarations [OF 1(2)] show ?thesis by simp
qed

lemma fixpoint_loop_sound:
  assumes "fixpoint_loop n (pm, p, c) = Some (pm', p', c')" "\<forall>q \<in> set (passes pm). pass_sound ok sim q" "ok (declarations p)"
  shows "sim (declarations p) (declarations p') \<and> ok (declarations p')"
  using assms
proof (induction n arbitrary: pm p c)
  case 0
  then show ?case using sim_refl by simp
next
  case (Suc n)
  obtain pm1 p1 r where run: "run_pipeline pm p = Some (pm1, p1, r)" using Suc.prems(1) by (auto split: option.splits)
  note step = run_pipeline_sound [OF run Suc.prems(2,3)]
  have pm1: "passes pm1 = passes pm" using run by (cases rule: run_pipeline_cases) (simp add: same_pipeline_def)
  show ?case
  proof (cases "any_modified r")
    case True
    then obtain c1 where "fixpoint_loop n (pm1, p1, c1) = Some (pm', p', c')"
      using Suc.prems(1) run by (auto simp: Let_def)
    from Suc.IH [OF this] pm1 Suc.prems(2) step show ?thesis by (auto intro: sim_trans)
  next
    case False
    with Suc.prems(1) run step show ?thesis by (simp add: Let_def)
  qed
qed

lemma run_to_fixpoint_sound:
  "run_to_fixpoint pm p n = Some (pm', p', r) \<Longrightarrow> \<forall>q \<in> set (passes pm). pass_sound ok sim q \<Longrightarrow> ok (declarations p) \<Longrightarrow>
    sim (declarations p) (declarations p') \<and> ok (declarations p')"
  unfolding run_to_fixpoint_def by (rule fixpoint_loop_sound)

end

subsection \<open>The default pipeline keeps runs\<close>

definition acyclic_program :: "decl list \<Rightarrow> bool" where
  "acyclic_program ds \<longleftrightarrow> (\<forall>w \<in> set (workflows_of ds). acyclic_workflow w)"

definition runs_alike :: "decl list \<Rightarrow> decl list \<Rightarrow> bool" where
  "runs_alike = program_sim\<^sup>*\<^sup>*"

lemma runs_alike_run:
  "runs_alike ds ds' \<Longrightarrow> run_workflow env ds' cfg wfn v s = run_workflow env ds cfg wfn v s"
  unfolding runs_alike_def by (induction rule: rtranclp_induct) (simp_all add: run_workflow_sim)

interpretation default_runs: pass_pipeline acyclic_program runs_alike
  by unfold_locales (auto simp: runs_alike_def)

lemma acyclic_workflow_sim: "workflow_sim w w' \<Longrightarrow> acyclic_workflow w \<Longrightarrow> acyclic_workflow w'"
proof -
  assume sim: "workflow_sim w w'" and w: "acyclic_workflow w"
  show ?thesis
  proof (cases "nodes w' = nodes w")
    case False
    then obtain g where g: "node_reduction (nodes w) g" "nodes w' = map g (nodes w)"
      using sim by (auto simp: workflow_sim_def)
    have "depends (nodes w') \<subseteq> depends (nodes w)"
      using node_reductionD(1,4) [OF g(1)] unfolding depends_def g(2) by force
    with w distinct_reduction [OF _ g(1)] show ?thesis
      unfolding acyclic_workflow_def g(2) by (metis acyclic_subset)
  qed (use w in \<open>simp add: acyclic_workflow_def\<close>)
qed

lemma acyclic_program_sim:
  assumes "program_sim ds ds'" "acyclic_program ds"
  shows "acyclic_program ds'"
proof -
  have "acyclic_workflow w'" if "w' \<in> set (workflows_of ds')" for w'
  proof -
    from declarations_sim(3) [OF assms(1)] that obtain w where "w \<in> set (workflows_of ds)" "workflow_sim w w'"
      by (metis list_all2_conv_all_nth in_set_conv_nth)
    with assms(2) acyclic_workflow_sim show ?thesis by (auto simp: acyclic_program_def)
  qed
  then show ?thesis by (simp add: acyclic_program_def)
qed

lemma default_passes:
  "passes (create_default_pipeline same) =
    [default_pass ''dead-state-elimination'' dead_state_elimination,
     default_pass ''workflow-simplification'' workflow_simplification,
     default_pass ''expr-canonicalization'' expr_canonicalization,
     default_pass ''temporal-simplification'' temporal_simplification]"
  by (simp add: create_default_pipeline_def add_pass_def add_analysis_def empty_pass_manager_def)

lemma default_pass_run [simp]: "pass_run (default_pass n f) = f" "required_derived_analyses (default_pass n f) = []"
  "required_analyses (default_pass n f) = []" "invalidated_analyses (default_pass n f) = []"
  "invalidated_derived_analyses (default_pass n f) = all_derived_analysis_kinds" "pass_name (default_pass n f) = n"
  by (simp_all add: default_pass_def)

lemma default_passes_sound: "\<forall>q \<in> set (passes (create_default_pipeline same)). pass_sound acyclic_program runs_alike q"
proof -
  have "pass_sound acyclic_program runs_alike (default_pass n f)"
    if "\<And>p p' m. acyclic_program (declarations p) \<Longrightarrow> f p = Some (p', m) \<Longrightarrow> program_sim (declarations p) (declarations p')" for n f
    using that acyclic_program_sim by (fastforce simp: pass_sound_def runs_alike_def)
  then show ?thesis
    unfolding default_passes using passes_program_sim by (simp add: acyclic_program_def)
qed

end
