(* ===== verification/Pass_Fixpoint.thy ===== *)
theory Pass_Fixpoint
  imports Pass_Manager
begin

section \<open>The fixed point of the passes\<close>

text \<open>
  Every pass leaves its own result and the results of the other passes alone, so the second
  iteration of \<open>run_to_fixpoint\<close> reports no change. After a run the derived analyses of the
  program are fresh, and they are what the current declarations give.
\<close>

subsection \<open>Every pass is idempotent\<close>

lemma fold_not_idem:
  assumes "fold_not x m = Some (e', b)" "canonicalize_expr x = Some (x, False)"
  shows "canonicalize_expr e' = Some (e', False)"
  using assms by (auto simp: fold_not_def split: option.splits expr.splits if_splits)

lemma fold_binary_idem:
  assumes "fold_binary op l r m = (e', b)" "canonicalize_expr l = Some (l, False)" "canonicalize_expr r = Some (r, False)"
  shows "canonicalize_expr e' = Some (e', False)"
  using assms by (auto simp: fold_binary_def split: if_splits)

lemma canonicalize_expr_idem: "canonicalize_expr e = Some (e', m) \<Longrightarrow> canonicalize_expr e' = Some (e', False)"
proof (induction e arbitrary: e' m rule: canonicalize_expr_induct)
  case (Unary op x)
  from Unary.prems obtain x' m' where x: "canonicalize_expr x = Some (x', m')" by (auto split: option.splits)
  note x' = Unary.IH [OF x]
  show ?case
  proof (cases "op = OpNot")
    case True
    with Unary.prems x have "fold_not x' m' = Some (e', m)" by simp
    from fold_not_idem [OF this x'] show ?thesis .
  next
    case False
    with Unary.prems x x' show ?thesis by auto
  qed
next
  case (Binary op l r)
  from Binary.prems obtain l1 m1 r1 m2 where lr: "canonicalize_expr l = Some (l1, m1)" "canonicalize_expr r = Some (r1, m2)"
    by (auto split: option.splits)
  then have "fold_binary op l1 r1 (m1 \<or> m2) = (e', m)" using Binary.prems by simp
  from fold_binary_idem [OF this Binary.IH(1) [OF lr(1)] Binary.IH(2) [OF lr(2)]] show ?case .
next
  case (Other e)
  then show ?case using canonicalize_expr_other [of e] by (metis option.inject prod.inject)
qed simp

lemma fold_temporal_idem:
  assumes "fold_temporal_unary op x m = Some (e', b)" "simplify_temporal x = Some (x, False)"
  shows "simplify_temporal e' = Some (e', False)"
  using assms
  by (cases op; auto simp: fold_temporal_unary_def split: option.splits temporal_expr.splits if_splits)

lemma simplify_temporal_idem: "simplify_temporal e = Some (e', m) \<Longrightarrow> simplify_temporal e' = Some (e', False)"
proof (induction e arbitrary: e' m rule: simplify_temporal_induct)
  case (Unary op x)
  from Unary.prems obtain x' m' where x: "simplify_temporal x = Some (x', m')" by (auto split: option.splits)
  with Unary.prems have "fold_temporal_unary op x' m' = Some (e', m)" by simp
  from fold_temporal_idem [OF this Unary.IH [OF x]] show ?case .
next
  case (Binary op l r)
  from Binary.prems obtain l1 m1 r1 m2 where lr: "simplify_temporal l = Some (l1, m1)" "simplify_temporal r = Some (r1, m2)"
    and e': "e' = Some (TemporalBinaryExpr op l1 r1)" by (simp split: option.splits prod.splits)
  show ?case by (simp add: e' Binary.IH(1) [OF lr(1)] Binary.IH(2) [OF lr(2)])
next
  case (Other e)
  then show ?case using simplify_temporal_other [of e] by (metis option.inject prod.inject)
qed simp

definition fixed_by :: "('a \<Rightarrow> ('a \<times> bool) option) \<Rightarrow> 'a \<Rightarrow> bool" where
  "fixed_by f x \<longleftrightarrow> f x = Some (x, False)"

lemma stable_map_changed: "fixed_by (map_changed f) xs \<longleftrightarrow> (\<forall>x \<in> set xs. fixed_by f x)"
  unfolding fixed_by_def by (induction xs) (auto split: option.splits)

lemma map_changed_set:
  assumes "map_changed f xs = Some (ys, m)" "y \<in> set ys"
  shows "\<exists>x \<in> set xs. \<exists>b. f x = Some (y, b)"
  using assms by (induction xs arbitrary: ys m) (auto split: option.splits)

lemma map_changed_stable:
  assumes "map_changed f xs = Some (ys, m)" "\<And>x y b. x \<in> set xs \<Longrightarrow> f x = Some (y, b) \<Longrightarrow> fixed_by g y"
  shows "fixed_by (map_changed g) ys"
  unfolding stable_map_changed using assms map_changed_set [OF assms(1)] by blast

lemma canonicalize_clause_idem: "canonicalize_clause c = Some (c', m) \<Longrightarrow> fixed_by canonicalize_clause c'"
  by (auto simp: canonicalize_clause_def fixed_by_def canonicalize_expr_idem split: clause_value.splits)

lemma simplify_temporal_clause_idem: "simplify_temporal_clause c = Some (c', m) \<Longrightarrow> fixed_by simplify_temporal_clause c'"
  by (auto simp: simplify_temporal_clause_def fixed_by_def simplify_temporal_idem split: clause_value.splits)

lemma clause_passes_commute:
  "fixed_by canonicalize_clause c \<Longrightarrow> simplify_temporal_clause c = Some (c', m) \<Longrightarrow> fixed_by canonicalize_clause c'"
  "fixed_by simplify_temporal_clause c \<Longrightarrow> canonicalize_clause c = Some (c', m) \<Longrightarrow> fixed_by simplify_temporal_clause c'"
  by (auto simp: canonicalize_clause_def simplify_temporal_clause_def fixed_by_def split: clause_value.splits)

text \<open>The states found reachable are the same after the unreachable ones are gone.\<close>

lemma restricted_reachable:
  assumes "R = E\<^sup>* `` {x}" "R \<subseteq> S" "E' = E \<inter> S \<times> S"
  shows "E'\<^sup>* `` {x} = R"
proof
  have "E' \<subseteq> E" using assms(3) by blast
  then have "E'\<^sup>* \<subseteq> E\<^sup>*" by (rule rtrancl_mono)
  then show "E'\<^sup>* `` {x} \<subseteq> R" using assms(1) by blast
  have "(x, y) \<in> E'\<^sup>*" if "(x, y) \<in> E\<^sup>*" for y
    using that
  proof (induction rule: rtrancl_induct)
    case (step y z)
    have "y \<in> R" "z \<in> R" using step.hyps assms(1) by (auto intro: rtrancl_into_rtrancl)
    with assms(2,3) step.hyps(2) have "(y, z) \<in> E'" by blast
    with step.IH show ?case by (rule rtrancl_into_rtrancl)
  qed simp
  then show "R \<subseteq> E'\<^sup>* `` {x}" using assms(1) by blast
qed

lemma eliminate_dead_states_idem:
  assumes "eliminate_dead_states a = (a', m)"
  shows "eliminate_dead_states a' = (a', False)"
proof (cases "a' = a \<and> \<not> m")
  case False
  let ?R = "set (reachable_states a)"
  have reach: "\<not> (states a = [] \<or> initial_state a = [])" "card ?R \<noteq> length (states a)"
    using False assms by (auto simp: eliminate_dead_states_def Let_def split: if_splits)
  then have a': "a' = a\<lparr>states := filter (\<lambda>s. s \<in> ?R) (states a),
      transitions := filter (\<lambda>t. from_state t \<in> ?R \<and> to_state t \<in> ?R) (transitions a)\<rparr>"
    using assms by (simp add: eliminate_dead_states_def Let_def)
  have "set (bfs_search (transition_pairs a') [initial_state a']) = set (bfs_search (transition_pairs a) [initial_state a])"
    unfolding bfs.search_set
    by (simp, rule restricted_reachable [where S = ?R])
      (auto simp: a' transition_pairs_def reachable_states_def bfs.search_set)
  then have "set (reachable_states a') = ?R" by (simp add: reachable_states_def a')
  then show ?thesis
    unfolding eliminate_dead_states_def Let_def by (simp add: a')
qed (use assms in simp)

subsection \<open>Transitive reduction twice\<close>

lemma reduction_closure:
  assumes "distinct (map node_name ns)" "acyclic (depends ns)" "node_reduction ns g"
  shows "(depends (map g ns))\<^sup>+ = (depends ns)\<^sup>+"
proof
  have "depends (map g ns) \<subseteq> depends ns"
    using node_reductionD(1,4) [OF assms(3)] unfolding depends_def by force
  then show "(depends (map g ns))\<^sup>+ \<subseteq> (depends ns)\<^sup>+" by (rule trancl_mono_subset)
  have "wf ((depends ns)\<^sup>+)" using assms(2) by (simp add: finite_acyclic_wf finite_depends wf_trancl)
  then have "\<forall>d. (d, x) \<in> (depends ns)\<^sup>+ \<longrightarrow> (d, x) \<in> (depends (map g ns))\<^sup>+" for x
  proof (induction x rule: wf_induct_rule)
    case (less x)
    show ?case
    proof (intro allI impI)
      fix d assume "(d, x) \<in> (depends ns)\<^sup>+"
      then obtain a where a: "(d, a) \<in> (depends ns)\<^sup>*" "(a, x) \<in> depends ns" by (auto dest: tranclD2)
      then obtain n where n: "n \<in> set ns" "x = node_name n" "a \<in> set (after n)" by (auto simp: depends_def)
      obtain k where k: "k \<in> set (after (g n))" "(a, k) \<in> (depends ns)\<^sup>*"
        using node_reductionD(5) [OF assms(3) n(1,3)] by blast
      have "g n \<in> set (map g ns)" "k \<in> set (after n)" using n(1) k(1) node_reductionD(4) [OF assms(3) n(1)] by auto
      with k(1) n(1,2) have kx: "(k, node_name (g n)) \<in> depends (map g ns)" "(k, x) \<in> depends ns"
        unfolding depends_def by blast+
      then have kx: "(k, x) \<in> depends (map g ns)" "(k, x) \<in> depends ns"
        using node_reductionD(1) [OF assms(3) n(1)] n(2) by simp_all
      have "(d, k) \<in> (depends ns)\<^sup>*" using a(1) k(2) by (rule rtrancl_trans)
      then have "d = k \<or> (d, k) \<in> (depends ns)\<^sup>+" by (meson rtranclD)
      then show "(d, x) \<in> (depends (map g ns))\<^sup>+"
      proof
        assume "(d, k) \<in> (depends ns)\<^sup>+"
        with less [of k] kx have "(d, k) \<in> (depends (map g ns))\<^sup>+" by blast
        then show ?thesis using kx(1) by (rule trancl_into_trancl)
      qed (use kx in blast)
    qed
  qed
  then show "(depends ns)\<^sup>+ \<subseteq> (depends (map g ns))\<^sup>+" by auto
qed

lemma simplify_node_idem:
  assumes "\<And>x. set (successors reach' x) \<subseteq> set (successors reach x)"
  shows "simplify_node reach' (fst (simplify_node reach n)) = (fst (simplify_node reach n), False)"
proof -
  let ?n = "fst (simplify_node reach n)"
  have sub: "set (after ?n) \<subseteq> set (after n)" by (simp add: simplify_node_def Let_def)
  have kept: "length (after ?n) < 2 \<or> (\<forall>d \<in> set (after ?n). \<not> redundant_dep reach (after n) d)"
  proof (cases "length (after n) < 2")
    case False
    let ?r = "filter (\<lambda>d. \<not> redundant_dep reach (after n) d) (after n)"
    show ?thesis
    proof (cases "length ?r < length (after n)")
      case True
      with False show ?thesis by (simp add: simplify_node_def Let_def)
    next
      case len: False
      then have "\<not> redundant_dep reach (after n) d" if "d \<in> set (after n)" for d
        using length_filter_less [OF that, of "\<lambda>d. \<not> redundant_dep reach (after n) d"] by blast
      with False len show ?thesis by (simp add: simplify_node_def Let_def)
    qed
  qed (simp add: simplify_node_def)
  have "\<not> redundant_dep reach' (after ?n) d" if "\<not> redundant_dep reach (after n) d" for d
    using that sub assms by (auto simp: redundant_dep_def list_ex_iff)
  with kept have "length (after ?n) < 2 \<or> filter (\<lambda>d. \<not> redundant_dep reach' (after ?n) d) (after ?n) = after ?n"
    by (metis filter_True)
  then show ?thesis by (auto simp: simplify_node_def [of reach'] Let_def)
qed

lemma simplify_workflow_idem:
  assumes "acyclic_workflow w" "simplify_workflow w = (w', m)"
  shows "simplify_workflow w' = (w', False)"
proof (cases "length (nodes w) < 2")
  case False
  let ?reach = "compute_transitive_reachable (nodes w)" and ?g = "\<lambda>n. fst (simplify_node (compute_transitive_reachable (nodes w)) n)"
  have w: "distinct (map node_name (nodes w))" "acyclic (depends (nodes w))"
    using assms(1) by (simp_all add: acyclic_workflow_def)
  note g = simplify_node_reduction [OF w]
  have w': "nodes w' = map ?g (nodes w)" using assms(2) False by (auto simp: simplify_workflow_def Let_def)
  have "set (successors (compute_transitive_reachable (nodes w')) x) = set (successors ?reach x)" for x
    using compute_transitive_reachable_iff [OF w(1)] distinct_reduction [OF w(1) g]
      compute_transitive_reachable_iff [of "nodes w'"] reduction_closure [OF w g] unfolding w' by blast
  then have "simplify_node (compute_transitive_reachable (nodes w')) (?g n) = (?g n, False)" for n
    by (intro simplify_node_idem) simp
  then have "map (simplify_node (compute_transitive_reachable (nodes w'))) (nodes w') = map (\<lambda>n. (n, False)) (nodes w')"
    unfolding w' by simp
  then have "map fst (map (simplify_node (compute_transitive_reachable (nodes w'))) (nodes w')) = nodes w'"
    "\<not> list_ex snd (map (simplify_node (compute_transitive_reachable (nodes w'))) (nodes w'))"
    by (simp_all only: map_map o_def list_ex_iff) simp_all
  then show ?thesis unfolding simplify_workflow_def Let_def by (simp del: map_map)
qed (use assms(2) in \<open>auto simp: simplify_workflow_def\<close>)

lemma simplify_workflow_nodes:
  assumes "nodes w' = nodes w" "simplify_workflow w = (w, False)"
  shows "simplify_workflow w' = (w', False)"
proof (cases "length (nodes w) < 2")
  case False
  let ?rs = "map (simplify_node (compute_transitive_reachable (nodes w))) (nodes w)"
  from False assms(2) have "w\<lparr>nodes := map fst ?rs\<rparr> = w" "\<not> list_ex snd ?rs"
    by (simp_all add: simplify_workflow_def Let_def del: map_map)
  moreover from this(1) have "map fst ?rs = nodes w"
    by (metis workflow_decl.select_convs(2) workflow_decl.surjective workflow_decl.update_convs(2))
  ultimately show ?thesis using False unfolding simplify_workflow_def Let_def assms(1) by (simp flip: assms(1))
qed (use assms in \<open>simp add: simplify_workflow_def\<close>)

subsection \<open>A second run changes nothing\<close>

definition decl_passes :: "(decl \<Rightarrow> (decl \<times> bool) option) set" where
  "decl_passes = {dead_state_decl, simplify_workflow_decl, canonicalize_decl, simplify_temporal_decl}"

lemma stable_contract:
  "fixed_by canonicalize_decl (ContractDecl k) \<longleftrightarrow> (\<forall>c \<in> set (clauses k). fixed_by canonicalize_clause c)"
  "fixed_by simplify_temporal_decl (ContractDecl k) \<longleftrightarrow> (\<forall>c \<in> set (clauses k). fixed_by simplify_temporal_clause c)"
proof -
  have k: "k\<lparr>clauses := cs\<rparr> = k \<longleftrightarrow> cs = clauses k" for cs
    by (metis contract_decl.select_convs(1) contract_decl.surjective contract_decl.update_convs(1))
  show "fixed_by canonicalize_decl (ContractDecl k) \<longleftrightarrow> (\<forall>c \<in> set (clauses k). fixed_by canonicalize_clause c)"
    "fixed_by simplify_temporal_decl (ContractDecl k) \<longleftrightarrow> (\<forall>c \<in> set (clauses k). fixed_by simplify_temporal_clause c)"
    unfolding stable_map_changed [symmetric]
    by (auto simp: fixed_by_def canonicalize_decl_def canonicalize_contract_clauses_def simplify_temporal_decl_def k)
qed

lemma stable_workflow:
  "fixed_by simplify_workflow_decl (WorkflowDecl w) \<longleftrightarrow> simplify_workflow w = (w, False)"
  "fixed_by simplify_temporal_decl (WorkflowDecl w) \<longleftrightarrow>
    (\<forall>t \<in> set (safety w). fixed_by simplify_temporal t) \<and> (\<forall>t \<in> set (liveness w). fixed_by simplify_temporal t)"
proof -
  have w: "w\<lparr>safety := ss, liveness := ls\<rparr> = w \<longleftrightarrow> ss = safety w \<and> ls = liveness w" for ss ls
    by (cases w) auto
  show "fixed_by simplify_workflow_decl (WorkflowDecl w) \<longleftrightarrow> simplify_workflow w = (w, False)"
    by (auto simp: fixed_by_def simplify_workflow_decl_def split: prod.splits)
  show "fixed_by simplify_temporal_decl (WorkflowDecl w) \<longleftrightarrow>
      (\<forall>t \<in> set (safety w). fixed_by simplify_temporal t) \<and> (\<forall>t \<in> set (liveness w). fixed_by simplify_temporal t)"
    unfolding stable_map_changed [symmetric]
    by (auto simp: fixed_by_def simplify_temporal_decl_def simplify_temporal_workflow_def w split: option.splits)
qed

lemma simplify_temporal_workflow_stable:
  assumes "simplify_temporal_workflow w = Some (w', m)"
  shows "nodes w' = nodes w" "fixed_by simplify_temporal_decl (WorkflowDecl w')"
proof -
  from assms obtain ss ls a b where maps: "map_changed simplify_temporal (safety w) = Some (ss, a)"
    "map_changed simplify_temporal (liveness w) = Some (ls, b)" and w': "w' = w\<lparr>safety := ss, liveness := ls\<rparr>"
    by (simp add: simplify_temporal_workflow_def split: option.splits prod.splits)
  have "fixed_by simplify_temporal y" if "simplify_temporal x = Some (y, c)" for x y c
    using simplify_temporal_idem [OF that] by (simp add: fixed_by_def)
  then show "nodes w' = nodes w" "fixed_by simplify_temporal_decl (WorkflowDecl w')"
    using map_changed_stable [OF maps(1)] map_changed_stable [OF maps(2)]
    unfolding stable_workflow w' stable_map_changed [symmetric] by simp_all
qed

lemma contract_pass_stable:
  assumes "map_changed f (clauses k) = Some (cs, m)"
    and "\<And>c c' m. c \<in> set (clauses k) \<Longrightarrow> f c = Some (c', m) \<Longrightarrow> fixed_by g c'"
  shows "\<forall>c \<in> set (clauses (k\<lparr>clauses := cs\<rparr>)). fixed_by g c"
  using map_changed_stable [OF assms] by (simp add: stable_map_changed)

text \<open>A pass gives a declaration it leaves alone, and keeps it so for the others.\<close>

lemma decl_pass_idem:
  assumes "f \<in> decl_passes" "f d = Some (d', m)" "\<And>w. d = WorkflowDecl w \<Longrightarrow> acyclic_workflow w"
  shows "fixed_by f d'"
proof -
  consider (Dead) "f = dead_state_decl" | (Workflow) "f = simplify_workflow_decl" | (Canonical) "f = canonicalize_decl"
    | (Temporal) "f = simplify_temporal_decl" using assms(1) by (auto simp: decl_passes_def)
  then show ?thesis
  proof cases
    case Dead
    with assms(2) eliminate_dead_states_idem show ?thesis
      by (auto simp: dead_state_decl_def fixed_by_def split: decl.splits prod.splits)
  next
    case Workflow
    with assms(2,3) simplify_workflow_idem show ?thesis
      by (auto simp: simplify_workflow_decl_def fixed_by_def split: decl.splits prod.splits)
  next
    case Canonical
    show ?thesis
    proof (cases d)
      case (ContractDecl k)
      with assms(2) Canonical obtain cs where "map_changed canonicalize_clause (clauses k) = Some (cs, m)"
        "d' = ContractDecl (k\<lparr>clauses := cs\<rparr>)" by (auto simp: canonicalize_decl_def canonicalize_contract_clauses_def)
      with contract_pass_stable [OF this(1) canonicalize_clause_idem] Canonical show ?thesis by (simp add: stable_contract)
    qed (use assms(2) Canonical in \<open>auto simp: canonicalize_decl_def fixed_by_def\<close>)
  next
    case Temporal
    show ?thesis
    proof (cases d)
      case (ContractDecl k)
      with assms(2) Temporal obtain cs where "map_changed simplify_temporal_clause (clauses k) = Some (cs, m)"
        "d' = ContractDecl (k\<lparr>clauses := cs\<rparr>)" by (auto simp: simplify_temporal_decl_def)
      with contract_pass_stable [OF this(1) simplify_temporal_clause_idem] Temporal show ?thesis by (simp add: stable_contract)
    next
      case (WorkflowDecl w)
      with assms(2) Temporal simplify_temporal_workflow_stable(2) show ?thesis by (auto simp: simplify_temporal_decl_def)
    qed (use assms(2) Temporal in \<open>auto simp: simplify_temporal_decl_def fixed_by_def\<close>)
  qed
qed

lemma decl_pass_keeps_contract:
  assumes "f \<in> decl_passes" "g \<in> decl_passes" "g (ContractDecl k) = Some (d', m)" "fixed_by f (ContractDecl k)"
  shows "fixed_by f d'"
proof (cases "fixed_by g (ContractDecl k)")
  case True
  with assms(3,4) show ?thesis by (simp add: fixed_by_def)
next
  case False
  then consider (1) "g = canonicalize_decl" | (2) "g = simplify_temporal_decl"
    using assms(2) by (auto simp: decl_passes_def fixed_by_def dead_state_decl_def simplify_workflow_decl_def)
  then show ?thesis
  proof cases
    case 1
    with assms(3) obtain cs where cs: "map_changed canonicalize_clause (clauses k) = Some (cs, m)"
      "d' = ContractDecl (k\<lparr>clauses := cs\<rparr>)" by (auto simp: canonicalize_decl_def canonicalize_contract_clauses_def)
    have "fixed_by simplify_temporal_decl d'" if "fixed_by simplify_temporal_decl (ContractDecl k)"
      using that unfolding cs(2) stable_contract
      by (intro contract_pass_stable [OF cs(1)]) (blast intro: clause_passes_commute(2))
    moreover have "fixed_by canonicalize_decl d'"
      using contract_pass_stable [OF cs(1) canonicalize_clause_idem] by (simp add: cs(2) stable_contract)
    ultimately show ?thesis using assms(1,4)
      by (auto simp: decl_passes_def) (simp_all add: fixed_by_def cs(2) dead_state_decl_def simplify_workflow_decl_def)
  next
    case 2
    with assms(3) obtain cs where cs: "map_changed simplify_temporal_clause (clauses k) = Some (cs, m)"
      "d' = ContractDecl (k\<lparr>clauses := cs\<rparr>)" by (auto simp: simplify_temporal_decl_def)
    have "fixed_by canonicalize_decl d'" if "fixed_by canonicalize_decl (ContractDecl k)"
      using that unfolding cs(2) stable_contract
      by (intro contract_pass_stable [OF cs(1)]) (blast intro: clause_passes_commute(1))
    moreover have "fixed_by simplify_temporal_decl d'"
      using contract_pass_stable [OF cs(1) simplify_temporal_clause_idem] by (simp add: cs(2) stable_contract)
    ultimately show ?thesis using assms(1,4)
      by (auto simp: decl_passes_def) (simp_all add: fixed_by_def cs(2) dead_state_decl_def simplify_workflow_decl_def)
  qed
qed

lemma decl_pass_keeps_workflow:
  assumes "f \<in> decl_passes" "g \<in> decl_passes" "g (WorkflowDecl w) = Some (d', m)" "fixed_by f (WorkflowDecl w)"
  shows "fixed_by f d'"
proof (cases "fixed_by g (WorkflowDecl w)")
  case True
  with assms(3,4) show ?thesis by (simp add: fixed_by_def)
next
  case False
  then have g: "g = simplify_workflow_decl \<or> g = simplify_temporal_decl"
    using assms(2) by (auto simp: decl_passes_def fixed_by_def dead_state_decl_def canonicalize_decl_def)
  then obtain w' where d': "d' = WorkflowDecl w'"
    using assms(3) by (auto simp: simplify_workflow_decl_def simplify_temporal_decl_def split: prod.splits)
  have other: "fixed_by dead_state_decl d'" "fixed_by canonicalize_decl d'"
    by (simp_all add: d' fixed_by_def dead_state_decl_def canonicalize_decl_def)
  from g show ?thesis
  proof
    assume g: "g = simplify_workflow_decl"
    then have f: "f \<noteq> simplify_workflow_decl" using False assms(4) by auto
    have "safety w' = safety w" "liveness w' = liveness w"
      using assms(3) g d' by (auto simp: simplify_workflow_decl_def simplify_workflow_def Let_def split: if_splits)
    then have "fixed_by simplify_temporal_decl d'" if "fixed_by simplify_temporal_decl (WorkflowDecl w)"
      using that by (simp add: d' stable_workflow)
    with f other assms(1,4) show ?thesis by (auto simp: decl_passes_def)
  next
    assume g: "g = simplify_temporal_decl"
    with assms(3) d' have "simplify_temporal_workflow w = Some (w', m)" by (auto simp: simplify_temporal_decl_def)
    note w' = simplify_temporal_workflow_stable [OF this]
    have "fixed_by simplify_workflow_decl d'" if "fixed_by simplify_workflow_decl (WorkflowDecl w)"
      using that simplify_workflow_nodes [OF w'(1)] by (simp add: d' stable_workflow)
    with w'(2) other assms(1,4) show ?thesis by (auto simp: decl_passes_def d')
  qed
qed

lemma decl_pass_keeps:
  assumes "f \<in> decl_passes" "g \<in> decl_passes" "g d = Some (d', m)" "fixed_by f d"
  shows "fixed_by f d'"
proof (cases d)
  case (ContractDecl k)
  with decl_pass_keeps_contract [OF assms(1,2)] assms(3,4) show ?thesis by simp
next
  case (WorkflowDecl w)
  with decl_pass_keeps_workflow [OF assms(1,2)] assms(3,4) show ?thesis by simp
next
  case (AgentDecl a)
  show ?thesis
  proof (cases "g = dead_state_decl \<and> f \<noteq> dead_state_decl")
    case True
    then obtain a' where "d' = AgentDecl a'" using assms(3) AgentDecl by (auto simp: dead_state_decl_def split: prod.splits)
    with True assms(1) show ?thesis
      by (auto simp: decl_passes_def fixed_by_def simplify_workflow_decl_def canonicalize_decl_def simplify_temporal_decl_def)
  next
    case False
    with assms(2-4) AgentDecl show ?thesis
      by (auto simp: decl_passes_def fixed_by_def simplify_workflow_decl_def canonicalize_decl_def simplify_temporal_decl_def)
  qed
qed (use assms(2-4) in \<open>auto simp: decl_passes_def fixed_by_def dead_state_decl_def simplify_workflow_decl_def
    canonicalize_decl_def simplify_temporal_decl_def\<close>)

subsection \<open>Freshness of the derived analyses\<close>

lemma sequence_length: "sequence xs = Some ys \<Longrightarrow> length ys = length xs"
  by (induction xs arbitrary: ys rule: sequence.induct) auto

lemma sequence_member: "sequence xs = Some ys \<Longrightarrow> Some y \<in> set xs \<Longrightarrow> y \<in> set ys"
  by (induction xs arbitrary: ys rule: sequence.induct) auto

lemma sequence_defined: "sequence xs = Some ys \<Longrightarrow> x \<in> set xs \<Longrightarrow> \<exists>y. x = Some y"
  by (induction xs arbitrary: ys rule: sequence.induct) auto

lemma in_flows_of: "f \<in> set (flows_of ds) \<longleftrightarrow> FlowDecl f \<in> set ds"
  by (induction ds) (auto simp: flows_of_def map_filter_simps split: decl.splits)

text \<open>\<open>recompute_derived_analyses\<close> in terms of what it computes from the declarations.\<close>

lemma recompute_derived_iff:
  "recompute_derived_analyses p ph = Some p' \<longleftrightarrow>
    (\<exists>hs ws obs. sequence (map flow_entries (flows_of (declarations p))) = Some hs \<and>
      sequence (map workflow_entries (workflows_of (declarations p))) = Some ws \<and>
      collect_formal_observations (declarations p) = Some obs \<and>
      p' = p\<lparr>phase := ph, analyses := \<lparr>source_program_revision = analysis_revision p,
        state_handler_summaries = concat hs, workflow_node_input_summaries = concat (map fst ws),
        workflow_return_summaries = map snd ws, formal_observations = obs\<rparr>\<rparr>)"
  by (auto simp: recompute_derived_analyses_def recompute_state_handler_summaries_def
      recompute_workflow_expr_summaries_def recompute_formal_observations_def split: option.splits)

definition accurate :: "program \<Rightarrow> bool" where
  "accurate p \<longleftrightarrow> phase p \<noteq> Lowered \<and> recompute_derived_analyses p (phase p) = Some p"

lemma recompute_accurate:
  "recompute_derived_analyses p ph = Some p' \<Longrightarrow> ph \<noteq> Lowered \<Longrightarrow> accurate p'"
  unfolding accurate_def recompute_derived_iff by auto

lemma flow_entries_not_Nil: "flow_entries f = Some es \<Longrightarrow> state_handlers f \<noteq> [] \<Longrightarrow> es \<noteq> []"
  unfolding flow_entries_def by (drule sequence_length) auto

lemma accurate_entries:
  assumes "recompute_derived_analyses p ph = Some p'"
  shows "has_required_analysis_entries p' k"
proof -
  from assms obtain hs ws where hs: "sequence (map flow_entries (flows_of (declarations p'))) = Some hs"
    and ws: "sequence (map workflow_entries (workflows_of (declarations p'))) = Some ws"
    and p': "state_handler_summaries (analyses p') = concat hs" "workflow_return_summaries (analyses p') = map snd ws"
    by (auto simp: recompute_derived_iff)
  have "concat hs \<noteq> []" if "FlowDecl f \<in> set (declarations p')" "state_handlers f \<noteq> []" for f
  proof -
    have f: "flow_entries f \<in> set (map flow_entries (flows_of (declarations p')))" using that(1) by (simp add: in_flows_of)
    from sequence_defined [OF hs f] obtain es where es: "flow_entries f = Some es" by blast
    with sequence_member [OF hs] f have "es \<in> set hs" by simp
    with flow_entries_not_Nil [OF es that(2)] show ?thesis by auto
  qed
  moreover have "ws \<noteq> []" if "WorkflowDecl w \<in> set (declarations p')" for w
    using sequence_length [OF ws] that by (auto simp flip: in_workflows_of)
  ultimately show ?thesis
    by (cases k) (auto simp: has_required_analysis_entries_def p' requires_state_handler_summaries_def
        requires_workflow_expr_summaries_def list_ex_iff split: decl.splits)
qed

lemma recompute_fresh:
  assumes "recompute_derived_analyses p ph = Some p'" "ph \<noteq> Lowered"
  shows "has_fresh_derived_analyses p' req"
  using accurate_entries [OF assms(1)] recompute_declarations [OF assms(1)] assms(2)
  by (auto simp: has_fresh_derived_analyses_def list_all_iff)

lemma ensure_fresh:
  "ensure_derived_analyses p req ph = Some p' \<Longrightarrow> ph \<noteq> Lowered \<Longrightarrow> has_fresh_derived_analyses p' req"
  by (auto simp: ensure_derived_analyses_def recompute_fresh split: if_splits)

lemma run_pipeline_fresh:
  assumes "run_pipeline pm p = Some (pm', p', r)"
  shows "has_fresh_derived_analyses p' all_derived_analysis_kinds"
  using assms by (cases rule: run_pipeline_cases) (simp add: ensure_fresh)

subsection \<open>Stability of whole programs\<close>

definition decl_pass :: "pass \<Rightarrow> bool" where
  "decl_pass q \<longleftrightarrow> (\<exists>f \<in> decl_passes. pass_run q = over_declarations f) \<and> pass_sound acyclic_program runs_alike q \<and>
     required_derived_analyses q = [] \<and> required_analyses q = []"

lemma default_decl_passes: "\<forall>q \<in> set (passes (create_default_pipeline same)). decl_pass q"
  using default_passes_sound [of same]
  by (simp add: default_passes decl_pass_def decl_passes_def dead_state_elimination_def workflow_simplification_def
      expr_canonicalization_def temporal_simplification_def)

lemma over_declarations_stable: "\<forall>d \<in> set (declarations p). fixed_by f d \<Longrightarrow> over_declarations f p = Some (p, False)"
  using stable_map_changed [of f "declarations p"] by (simp add: fixed_by_def over_declarations_def)

lemma over_declarations_makes:
  assumes "over_declarations f p = Some (p', m)" "\<And>d d' b. d \<in> set (declarations p) \<Longrightarrow> f d = Some (d', b) \<Longrightarrow> fixed_by g d'"
  shows "\<forall>d \<in> set (declarations p'). fixed_by g d"
  using assms map_changed_stable [of f "declarations p" _ _ g] by (auto simp: over_declarations_def stable_map_changed)

lemma run_pass_stable:
  assumes "run_pass q (pm, p, r) = Some (pm', p', r')" "pass_run q = over_declarations f" "f \<in> decl_passes"
    "acyclic_program (declarations p)"
  shows "\<not> skipped pm q \<Longrightarrow> \<forall>d \<in> set (declarations p'). fixed_by f d"
    and "g \<in> decl_passes \<Longrightarrow> \<forall>d \<in> set (declarations p). fixed_by g d \<Longrightarrow> \<forall>d \<in> set (declarations p'). fixed_by g d"
proof -
  have run: "\<exists>p1 p2 m. declarations p1 = declarations p \<and> over_declarations f p1 = Some (p2, m) \<and> declarations p' = declarations p2"
    if "\<not> skipped pm q" using assms(1) that
  proof (cases rule: run_pass_cases)
    case (same p1)
    then show ?thesis using ensure_declarations [OF same(2)] assms(2) by auto
  next
    case (changed p1 p2)
    then show ?thesis
      using ensure_declarations [OF changed(2)] after_change_declarations [OF changed(4)] assms(2) by auto
  qed simp
  show "\<forall>d \<in> set (declarations p'). fixed_by f d" if skip: "\<not> skipped pm q"
  proof -
    obtain p1 p2 m where p: "declarations p1 = declarations p" "over_declarations f p1 = Some (p2, m)" "declarations p' = declarations p2"
      using run [OF skip] by blast
    show ?thesis unfolding p(3)
    proof (rule over_declarations_makes [OF p(2)])
      fix d d' b assume d: "d \<in> set (declarations p1)" "f d = Some (d', b)"
      have "acyclic_workflow w" if "d = WorkflowDecl w" for w
        using assms(4) d(1) that by (simp add: p(1) acyclic_program_def in_workflows_of)
      then show "fixed_by f d'" by (rule decl_pass_idem [OF assms(3) d(2)])
    qed
  qed
  show "\<forall>d \<in> set (declarations p'). fixed_by g d" if g: "g \<in> decl_passes" "\<forall>d \<in> set (declarations p). fixed_by g d"
  proof (cases "skipped pm q")
    case True
    with assms(1) g(2) show ?thesis by (simp add: run_pass_def)
  next
    case False
    then obtain p1 p2 m where p: "declarations p1 = declarations p" "over_declarations f p1 = Some (p2, m)" "declarations p' = declarations p2"
      using run by blast
    show ?thesis unfolding p(3)
      by (rule over_declarations_makes [OF p(2)]) (use g(2) decl_pass_keeps [OF g(1) assms(3)] p(1) in auto)
  qed
qed

lemma skipped_same: "same_pipeline pm pm' \<Longrightarrow> skipped pm' q = skipped pm q"
  by (simp add: skipped_def same_pipeline_def)

lemma run_passes_stable:
  assumes "run_passes qs (pm, p, r) = Some (pm', p', r')" "\<forall>q \<in> set qs. decl_pass q" "acyclic_program (declarations p)"
  shows "g \<in> decl_passes \<Longrightarrow> (\<forall>d \<in> set (declarations p). fixed_by g d) \<or>
      (\<exists>q \<in> set qs. \<not> skipped pm q \<and> pass_run q = over_declarations g) \<Longrightarrow> \<forall>d \<in> set (declarations p'). fixed_by g d"
  using assms
proof (induction qs arbitrary: pm p r)
  case (Cons q qs)
  from Cons.prems(3) obtain pm1 p1 r1 where
    run: "run_pass q (pm, p, r) = Some (pm1, p1, r1)" "run_passes qs (pm1, p1, r1) = Some (pm', p', r')"
    by (auto split: option.splits)
  from Cons.prems(4) obtain f where f: "pass_run q = over_declarations f" "f \<in> decl_passes" "pass_sound acyclic_program runs_alike q"
    by (auto simp: decl_pass_def)
  note step = run_pass_stable [OF run(1) f(1,2) Cons.prems(5)]
  have "acyclic_program (declarations p1)"
    using default_runs.run_pass_sound [OF run(1) f(3) Cons.prems(5)] by blast
  moreover have "(\<forall>d \<in> set (declarations p1). fixed_by g d) \<or>
      (\<exists>q \<in> set qs. \<not> skipped pm1 q \<and> pass_run q = over_declarations g)"
    using Cons.prems(1,2)
  proof (elim disjE)
    assume "\<exists>q' \<in> set (q # qs). \<not> skipped pm q' \<and> pass_run q' = over_declarations g"
    then obtain q' where q': "q' = q \<or> q' \<in> set qs" "\<not> skipped pm q'" "pass_run q' = over_declarations g" by auto
    then show ?thesis
      using run_pass_stable(1) [OF run(1) _ Cons.prems(1,5)] skipped_same [OF run_pass_same [OF run(1)]] by blast
  qed (use step(2) in blast)
  ultimately show ?case using Cons.IH [OF Cons.prems(1) _ run(2)] Cons.prems(4) by simp
qed auto

lemma run_passes_quiet:
  assumes "\<forall>q \<in> set qs. decl_pass q" "\<forall>q \<in> set qs. skipped pm q \<or> pass_run q p = Some (p, False)"
  shows "\<exists>r'. run_passes qs (pm, p, r) = Some (pm, p, r') \<and> any_modified r' = any_modified r"
  using assms
proof (induction qs arbitrary: r)
  case (Cons q qs)
  have "\<exists>r1. run_pass q (pm, p, r) = Some (pm, p, r1) \<and> any_modified r1 = any_modified r"
    using Cons.prems by (auto simp: run_pass_def decl_pass_def Let_def ensure_derived_analyses_def has_fresh_derived_analyses_def)
  then obtain r1 where "run_pass q (pm, p, r) = Some (pm, p, r1)" "any_modified r1 = any_modified r" by blast
  with Cons.IH [of r1] Cons.prems show ?case by simp
qed simp

text \<open>A second run of the default passes, any filter set, leaves the program as it is.\<close>

lemma run_pipeline_idem:
  assumes "run_pipeline pm p = Some (pm1, p1, r1)" "\<forall>q \<in> set (passes pm). decl_pass q" "acyclic_program (declarations p)"
  shows "\<exists>pm2 r2. run_pipeline pm1 p1 = Some (pm2, p1, r2) \<and> \<not> any_modified r2"
  using assms(1)
proof (cases rule: run_pipeline_cases)
  case (1 pm0 p0 r0)
  have p1: "declarations p1 = declarations p0" using ensure_declarations [OF 1(2)] .
  have pm1: "passes pm1 = passes pm" "pass_filter pm1 = pass_filter pm" using 1(4) by (simp_all add: same_pipeline_def)
  let ?pm = "pm1\<lparr>analysis_results := resize (length (analysis_passes pm1)) (analysis_results pm1)\<rparr>"
  have "skipped ?pm q \<or> pass_run q p1 = Some (p1, False)" if q: "q \<in> set (passes pm1)" for q
  proof -
    from q assms(2) pm1 obtain f where f: "f \<in> decl_passes" "pass_run q = over_declarations f" by (auto simp: decl_pass_def)
    have "\<forall>d \<in> set (declarations p1). fixed_by f d" if "\<not> skipped ?pm q"
      unfolding p1 using run_passes_stable [OF 1(1) assms(2,3) f(1)] q f(2) that pm1 by (auto simp: skipped_def)
    then show ?thesis using over_declarations_stable f(2) by metis
  qed
  then obtain r' where run: "run_passes (passes pm1) (?pm, p1, empty_run_result) = Some (?pm, p1, r')" "\<not> any_modified r'"
    using run_passes_quiet [of "passes pm1" ?pm p1 empty_run_result] assms(2) pm1 by (auto simp: empty_run_result_def)
  have ens: "ensure_derived_analyses p1 all_derived_analysis_kinds Analyzed = Some p1"
    using ensure_fresh [OF 1(2)] by (simp add: ensure_derived_analyses_def)
  obtain pm2 r2 where fin: "fold (run_analysis p1) [0..<length (analysis_passes ?pm)] (?pm, r') = (pm2, r2)" by fastforce
  then have "\<not> any_modified r2" using run_analysis_same [OF same_pipeline_refl fin] run(2) by simp
  then show ?thesis using run(1) ens fin by (simp add: run_pipeline_def)
qed

lemma run_to_fixpoint_twice:
  assumes "run_pipeline pm p = Some (pm1, p1, r1)" "\<forall>q \<in> set (passes pm). decl_pass q" "acyclic_program (declarations p)"
    and "2 \<le> n"
  shows "\<exists>pm' r'. run_to_fixpoint pm p n = Some (pm', p1, r') \<and> any_modified r' = any_modified r1"
proof -
  obtain pm2 r2 where second: "run_pipeline pm1 p1 = Some (pm2, p1, r2)" "\<not> any_modified r2"
    using run_pipeline_idem [OF assms(1-3)] by blast
  obtain k where n: "n = Suc (Suc k)" using assms(4) by (metis Suc_le_D numeral_2_eq_2 Suc_le_mono)
  show ?thesis using assms(1) second by (simp add: run_to_fixpoint_def n Let_def empty_run_result_def)
qed

subsection \<open>Accuracy of the derived analyses\<close>

lemma accurate_iff:
  "accurate p \<longleftrightarrow> phase p \<noteq> Lowered \<and>
    (\<exists>hs ws obs. sequence (map flow_entries (flows_of (declarations p))) = Some hs \<and>
      sequence (map workflow_entries (workflows_of (declarations p))) = Some ws \<and>
      collect_formal_observations (declarations p) = Some obs \<and>
      analyses p = \<lparr>source_program_revision = analysis_revision p, state_handler_summaries = concat hs,
        workflow_node_input_summaries = concat (map fst ws), workflow_return_summaries = map snd ws, formal_observations = obs\<rparr>)"
proof -
  have "p = p\<lparr>phase := phase p, analyses := a\<rparr> \<longleftrightarrow> analyses p = a" for a by (cases p) auto
  then show ?thesis unfolding accurate_def recompute_derived_iff by simp
qed

text \<open>Two declarations the analyses cannot tell apart.\<close>

definition same_analysis :: "decl \<Rightarrow> decl \<Rightarrow> bool" where
  "same_analysis d d' \<longleftrightarrow> d' = d \<or>
     (\<exists>a a'. d = AgentDecl a \<and> d' = AgentDecl a' \<and> agent_name a' = agent_name a \<and> capability_refs a' = capability_refs a)"

lemma same_analysis_declarations:
  assumes "list_all2 same_analysis ds ds'"
  shows "flows_of ds' = flows_of ds" "workflows_of ds' = workflows_of ds" "collect_decls ds' obs = collect_decls ds obs"
proof -
  have "flows_of ds' = flows_of ds \<and> workflows_of ds' = workflows_of ds"
    using assms
  proof (induction rule: list_all2_induct)
    case (Cons d ds d' ds')
    then show ?case
      by (cases d) (auto simp: same_analysis_def flows_of_def workflows_of_def map_filter_simps)
  qed simp
  then show "flows_of ds' = flows_of ds" "workflows_of ds' = workflows_of ds" by simp_all
  have agent: "collect_agent a' obs = collect_agent a obs"
    if "agent_name a' = agent_name a" "capability_refs a' = capability_refs a" for a a' obs
    unfolding collect_agent_def that ..
  show "collect_decls ds' obs = collect_decls ds obs"
    using assms
  proof (induction arbitrary: obs rule: list_all2_induct)
    case (Cons d ds d' ds')
    from Cons.hyps(1) show ?case unfolding same_analysis_def
    proof (elim disjE exE conjE)
      fix a a' assume d: "d = AgentDecl a" "d' = AgentDecl a'"
        and same: "agent_name a' = agent_name a" "capability_refs a' = capability_refs a"
      show ?thesis by (simp add: d agent [OF same] Cons.IH)
    qed (simp add: Cons.IH split: option.split)
  qed simp
qed

lemma map_changed_quiet:
  "map_changed f xs = Some (ys, False) \<Longrightarrow> list_all2 (\<lambda>x y. f x = Some (y, False)) xs ys"
  by (induction xs arbitrary: ys) (auto split: option.splits)

lemma map_changed_unchanged:
  assumes "map_changed f xs = Some (ys, False)" "\<And>x y. f x = Some (y, False) \<Longrightarrow> y = x"
  shows "ys = xs"
  using map_changed_quiet [OF assms(1)] by (induction rule: list_all2_induct) (auto dest: assms(2))

lemma clause_passes_quiet:
  "canonicalize_clause c = Some (c', False) \<Longrightarrow> c' = c"
  "simplify_temporal_clause c = Some (c', False) \<Longrightarrow> c' = c"
  using canonicalize_expr_shrinks simplify_temporal_shrinks
  by (fastforce simp: canonicalize_clause_def simplify_temporal_clause_def split: clause_value.splits)+

lemma simplify_node_quiet: "simplify_node reach n = (n', False) \<Longrightarrow> n' = n"
  by (auto simp: simplify_node_def Let_def split: if_splits)

lemma simplify_workflow_quiet:
  assumes "simplify_workflow w = (w', False)"
  shows "w' = w"
proof (cases "length (nodes w) < 2")
  case False
  let ?rs = "map (simplify_node (compute_transitive_reachable (nodes w))) (nodes w)"
  have "\<not> list_ex snd ?rs" "w' = w\<lparr>nodes := map fst ?rs\<rparr>"
    using assms False by (auto simp: simplify_workflow_def Let_def)
  moreover have "fst (simplify_node (compute_transitive_reachable (nodes w)) n) = n" if "n \<in> set (nodes w)" for n
    using calculation(1) that simplify_node_quiet [of "compute_transitive_reachable (nodes w)" n] by (simp add: list_ex_iff prod_eq_iff)
  then have "map fst ?rs = nodes w" by (simp add: map_idI)
  ultimately show ?thesis by (simp del: map_map)
qed (use assms in \<open>simp add: simplify_workflow_def\<close>)

lemma simplify_temporal_workflow_quiet:
  assumes "simplify_temporal_workflow w = Some (w', False)"
  shows "w' = w"
proof -
  from assms obtain ss ls where "map_changed simplify_temporal (safety w) = Some (ss, False)"
    "map_changed simplify_temporal (liveness w) = Some (ls, False)" "w' = w\<lparr>safety := ss, liveness := ls\<rparr>"
    by (simp add: simplify_temporal_workflow_def split: option.splits prod.splits)
  moreover have "y = x" if "simplify_temporal x = Some (y, False)" for x y
    using simplify_temporal_shrinks [OF that] by simp
  ultimately show ?thesis using map_changed_unchanged by (metis (no_types, lifting) workflow_decl.surjective workflow_decl.update_convs(3,4))
qed

lemma decl_pass_quiet:
  assumes "f \<in> decl_passes" "f d = Some (d', False)"
  shows "same_analysis d d'"
proof -
  consider (Dead) "f = dead_state_decl" | (Workflow) "f = simplify_workflow_decl" | (Canonical) "f = canonicalize_decl"
    | (Temporal) "f = simplify_temporal_decl" using assms(1) by (auto simp: decl_passes_def)
  then show ?thesis
  proof cases
    case Dead
    with assms(2) show ?thesis
      by (cases d) (auto simp: dead_state_decl_def same_analysis_def eliminate_dead_states_def Let_def split: prod.splits if_splits)
  next
    case Workflow
    with assms(2) simplify_workflow_quiet show ?thesis
      by (cases d) (auto simp: simplify_workflow_decl_def same_analysis_def split: prod.splits)
  next
    case Canonical
    with assms(2) map_changed_unchanged [OF _ clause_passes_quiet(1)] show ?thesis
      by (cases d) (auto simp: canonicalize_decl_def canonicalize_contract_clauses_def same_analysis_def)
  next
    case Temporal
    with assms(2) map_changed_unchanged [OF _ clause_passes_quiet(2)] simplify_temporal_workflow_quiet show ?thesis
      by (cases d) (auto simp: simplify_temporal_decl_def same_analysis_def)
  qed
qed

lemma quiet_pass_accurate:
  assumes "over_declarations f p = Some (p', False)" "f \<in> decl_passes"
  shows "phase p' = phase p \<and> (accurate p \<longrightarrow> accurate p')"
proof -
  obtain ds' where ds': "map_changed f (declarations p) = Some (ds', False)" "p' = p\<lparr>declarations := ds'\<rparr>"
    using assms(1) by (auto simp: over_declarations_def)
  have "list_all2 same_analysis (declarations p) ds'"
    using map_changed_quiet [OF ds'(1)] decl_pass_quiet [OF assms(2)] by (auto elim: list_all2_mono)
  from same_analysis_declarations [OF this] show ?thesis
    by (simp add: ds'(2) accurate_iff collect_formal_observations_def)
qed

lemma stale_not_fresh:
  assumes "accurate p \<or> phase p = Lowered" "declarations p' = ds" "p' = p\<lparr>declarations := ds\<rparr>" "req \<noteq> []"
  shows "\<not> has_fresh_derived_analyses (mark_derived_analyses_stale p') req"
proof -
  have "(r + 1) mod m \<noteq> r" if "\<not> m dvd 1" for r m :: int
  proof
    assume "(r + 1) mod m = r"
    then have "m dvd (r + 1) - r" by (metis mod_eq_dvd_iff mod_mod_trivial)
    with that show False by simp
  qed
  from this [of "2 ^ 64"] have "(r + 1) mod 18446744073709551616 \<noteq> r" for r :: int by simp
  moreover have "source_program_revision (analyses p) = analysis_revision p" if "accurate p"
    using that by (auto simp: accurate_iff)
  ultimately show ?thesis
    using assms by (auto simp: has_fresh_derived_analyses_def mark_derived_analyses_stale_def)
qed

lemma run_pass_accurate:
  assumes "run_pass q (pm, p, r) = Some (pm', p', r')" "decl_pass q" "invalidated_derived_analyses q \<noteq> []"
    "accurate p \<or> phase p = Lowered"
  shows "accurate p' \<or> phase p' = Lowered"
  using assms(1)
proof (cases rule: run_pass_cases)
  case skip
  then show ?thesis using assms(4) by simp
next
  case (same p1)
  with assms(2) obtain f where "f \<in> decl_passes" "over_declarations f p = Some (p', False)"
    by (auto simp: decl_pass_def ensure_derived_analyses_def has_fresh_derived_analyses_def)
  with quiet_pass_accurate assms(4) show ?thesis by metis
next
  case (changed p1 p2)
  with assms(2) obtain f where "over_declarations f p = Some (p2, True)"
    by (auto simp: decl_pass_def ensure_derived_analyses_def has_fresh_derived_analyses_def)
  then have p2: "p2 = p\<lparr>declarations := declarations p2\<rparr>" by (auto simp: over_declarations_def)
  have "\<not> has_fresh_derived_analyses (mark_derived_analyses_stale p2) (invalidated_derived_analyses q)"
    by (rule stale_not_fresh [OF assms(4) refl p2 assms(3)])
  then have "recompute_derived_analyses (mark_derived_analyses_stale p2) Optimized = Some p'"
    using changed(4) assms(3) by (simp add: after_change_def ensure_derived_analyses_def)
  then show ?thesis using recompute_accurate by blast
qed

lemma run_passes_accurate:
  assumes "run_passes qs (pm, p, r) = Some (pm', p', r')"
    "\<forall>q \<in> set qs. decl_pass q \<and> invalidated_derived_analyses q \<noteq> []" "accurate p \<or> phase p = Lowered"
  shows "accurate p' \<or> phase p' = Lowered"
  using assms
proof (induction qs arbitrary: pm p r)
  case (Cons q qs)
  from Cons.prems(1) obtain pm1 p1 r1 where
    run: "run_pass q (pm, p, r) = Some (pm1, p1, r1)" "run_passes qs (pm1, p1, r1) = Some (pm', p', r')"
    by (auto split: option.splits)
  with Cons.IH [OF run(2)] run_pass_accurate [OF run(1)] Cons.prems(2,3) show ?case by simp
qed simp

lemma run_pipeline_accurate:
  assumes "run_pipeline pm p = Some (pm', p', r)"
    "\<forall>q \<in> set (passes pm). decl_pass q \<and> invalidated_derived_analyses q \<noteq> []" "accurate p \<or> phase p = Lowered"
  shows "accurate p'"
  using assms(1)
proof (cases rule: run_pipeline_cases)
  case (1 pm1 p1 r1)
  have p1: "accurate p1 \<or> phase p1 = Lowered" by (rule run_passes_accurate [OF 1(1) assms(2,3)])
  show ?thesis
  proof (cases "has_fresh_derived_analyses p1 all_derived_analysis_kinds")
    case True
    then have "phase p1 \<noteq> Lowered" by (auto simp: has_fresh_derived_analyses_def all_derived_analysis_kinds_def)
    with True 1(2) p1 show ?thesis by (simp add: ensure_derived_analyses_def)
  next
    case False
    with 1(2) have "recompute_derived_analyses p1 Analyzed = Some p'" by (simp add: ensure_derived_analyses_def)
    then show ?thesis by (rule recompute_accurate) simp
  qed
qed

subsection \<open>Analysis results\<close>

text \<open>Without an invalidation a result, once there, stays: only missing results are computed.\<close>

lemma run_analysis_results:
  assumes "fold (run_analysis p) [0..<n] (pm, r) = (pm', r')" "n \<le> length (analysis_results pm)"
  shows "length (analysis_results pm') = length (analysis_results pm) \<and>
    (\<forall>i < length (analysis_results pm). analysis_results pm' ! i =
      (if i < n \<and> analysis_results pm ! i = None then analysis_run (analysis_passes pm ! i) p else analysis_results pm ! i))"
  using assms
proof (induction n arbitrary: pm' r')
  case (Suc n)
  obtain pm1 r1 where step: "fold (run_analysis p) [0..<n] (pm, r) = (pm1, r1)" by fastforce
  have same: "analysis_passes pm1 = analysis_passes pm"
    using run_analysis_same [OF same_pipeline_refl step] by (simp add: same_pipeline_def)
  from Suc.prems(1) step have "run_analysis p n (pm1, r1) = (pm', r')" by simp
  then have pm': "analysis_results pm' = (if analysis_results pm1 ! n = None
      then (analysis_results pm1)[n := analysis_run (analysis_passes pm ! n) p] else analysis_results pm1)"
    by (auto simp: run_analysis_def same split: if_splits)
  from Suc.IH [OF step] Suc.prems(2) have len: "length (analysis_results pm1) = length (analysis_results pm)"
    and at: "\<And>i. i < length (analysis_results pm) \<Longrightarrow> analysis_results pm1 ! i =
      (if i < n \<and> analysis_results pm ! i = None then analysis_run (analysis_passes pm ! i) p else analysis_results pm ! i)"
    by simp_all
  show ?case
    using len Suc.prems(2) by (auto simp: pm' nth_list_update at less_Suc_eq)
qed simp

lemma resize_length [simp]: "length (resize n xs) = n"
  by (simp add: resize_def)

lemma run_passes_results:
  assumes "run_passes qs (pm, p, r) = Some (pm', p', r')"
    "\<forall>q \<in> set qs. required_analyses q = [] \<and> invalidated_analyses q = []"
  shows "pm' = pm"
  using assms
proof (induction qs arbitrary: pm p r)
  case (Cons q qs)
  from Cons.prems(1) obtain pm1 p1 r1 where
    run: "run_pass q (pm, p, r) = Some (pm1, p1, r1)" "run_passes qs (pm1, p1, r1) = Some (pm', p', r')"
    by (auto split: option.splits)
  have "pm1 = pm" using run(1) Cons.prems(2) by (cases rule: run_pass_cases) simp_all
  with Cons.IH [OF run(2)] Cons.prems(2) show ?case by simp
qed simp

lemma run_pipeline_results:
  assumes "run_pipeline pm p = Some (pm', p', r)"
    "\<forall>q \<in> set (passes pm). required_analyses q = [] \<and> invalidated_analyses q = []" "i < length (analysis_passes pm)"
  shows "length (analysis_results pm') = length (analysis_passes pm) \<and> analysis_results pm' ! i =
    (if i < length (analysis_results pm) \<and> analysis_results pm ! i \<noteq> None then analysis_results pm ! i
     else analysis_run (analysis_passes pm ! i) p')"
  using assms(1)
proof (cases rule: run_pipeline_cases)
  case (1 pm1 p1 r1)
  have pm1: "pm1 = pm\<lparr>analysis_results := resize (length (analysis_passes pm)) (analysis_results pm)\<rparr>"
    by (rule run_passes_results [OF 1(1) assms(2)])
  from run_analysis_results [OF 1(3)] assms(3) show ?thesis
    by (auto simp: pm1 resize_def nth_append)
qed

lemma default_analyses:
  "analysis_passes (create_default_pipeline same) =
    [\<lparr>analysis_name = ''capability-reachability'',
      analysis_run = (\<lambda>p. Some (CapabilityReachabilityResult (capability_reachability p)))\<rparr>,
     \<lparr>analysis_name = ''contract-redundancy'',
      analysis_run = (\<lambda>p. Some (ContractRedundancyResult (contract_redundancy same p)))\<rparr>]"
  "analysis_results (create_default_pipeline same) = []"
  by (simp_all add: create_default_pipeline_def add_pass_def add_analysis_def empty_pass_manager_def)

lemma default_analyses_nonnull:
  "\<forall>a \<in> set (analysis_passes (create_default_pipeline same)). \<forall>p. analysis_run a p \<noteq> None"
  by (simp add: default_analyses)

text \<open>When no analysis returns null, the second iteration keeps the results of the first.\<close>

lemma run_to_fixpoint_results:
  assumes "run_pipeline pm p = Some (pm1, p1, r1)" "\<forall>q \<in> set (passes pm). decl_pass q" "acyclic_program (declarations p)"
    "2 \<le> n" "\<forall>a \<in> set (analysis_passes pm). \<forall>p. analysis_run a p \<noteq> None"
    "\<forall>q \<in> set (passes pm). required_analyses q = [] \<and> invalidated_analyses q = []"
  shows "\<exists>pm' r'. run_to_fixpoint pm p n = Some (pm', p1, r') \<and> analysis_results pm' = analysis_results pm1"
proof -
  obtain pm2 r2 where second: "run_pipeline pm1 p1 = Some (pm2, p1, r2)" "\<not> any_modified r2"
    using run_pipeline_idem [OF assms(1-3)] by blast
  have pm1: "passes pm1 = passes pm" "analysis_passes pm1 = analysis_passes pm"
    using assms(1) by (cases rule: run_pipeline_cases, simp add: same_pipeline_def)+
  let ?n = "length (analysis_passes pm)"
  have at: "length (analysis_results pm1) = ?n \<and> analysis_results pm1 ! i \<noteq> None \<and>
      length (analysis_results pm2) = ?n \<and> analysis_results pm2 ! i = analysis_results pm1 ! i" if "i < ?n" for i
    using run_pipeline_results [OF assms(1,6) that] run_pipeline_results [OF second(1), of i] assms(5,6) that
    by (auto simp: pm1)
  have keep: "analysis_results pm2 = analysis_results pm1"
  proof (cases "?n = 0")
    case True
    have "length (analysis_results pm') = length (analysis_passes pm0)"
      if "run_pipeline pm0 q = Some (pm', q', r)" "\<forall>q \<in> set (passes pm0). required_analyses q = [] \<and> invalidated_analyses q = []"
        for pm0 pm' :: "'a pass_manager" and q q' r
      using that(1)
    proof (cases rule: run_pipeline_cases)
      case (1 pm1 p1 r1)
      from run_passes_results [OF 1(1) that(2)] run_analysis_results [OF 1(3)] show ?thesis by simp
    qed
    from this [OF assms(1,6)] this [OF second(1)] pm1 assms(6) True show ?thesis by simp
  next
    case False
    with at show ?thesis by (metis gr_zeroI nth_equalityI)
  qed
  obtain k where n: "n = Suc (Suc k)" using assms(4) by (metis Suc_le_D numeral_2_eq_2 Suc_le_mono)
  show ?thesis using assms(1) second keep by (auto simp: run_to_fixpoint_def n Let_def empty_run_result_def)
qed

end
