(* ===== verification/Demo_Passes.thy ===== *)
theory Demo_Passes
  imports Demo_Program Pass_Fixpoint
begin

section \<open>A program to optimize\<close>

text \<open>
  The program of \<open>Demo_Program\<close> with something for every pass: a state no transition reaches, a
  third node with a redundant dependency, a contract whose expression and formula can be
  simplified. Nothing here models code.
\<close>

definition demo_opt_agent :: agent_decl where
  "demo_opt_agent = demo_agent\<lparr>states := [''Init'', ''Dead'', ''Done''],
     transitions := [\<lparr>from_state = ''Init'', to_state = ''Done''\<rparr>, \<lparr>from_state = ''Dead'', to_state = ''Done''\<rparr>]\<rparr>"

definition demo_opt_workflow :: workflow_decl where
  "demo_opt_workflow = demo_workflow\<lparr>nodes := nodes demo_workflow @
     [demo_node ''n3'' (demo_path RootIdentifier ''n2'' []) [''n1'', ''n2'']]\<rparr>"

definition demo_opt_expr :: expr_ref where
  "demo_opt_expr = Some (BinaryExpr OpAnd (Some (BoolLiteralExpr True))
     (Some (UnaryExpr OpNot (Some (UnaryExpr OpNot (Some (BoolLiteralExpr True)))))))"

definition demo_opt_formula :: temporal_expr where
  "demo_opt_formula =
     TemporalUnaryExpr TAlways (Some (TemporalUnaryExpr TAlways (Some (CalledTemporalExpr ''echo''))))"

definition demo_opt_contract :: contract_decl where
  "demo_opt_contract =
     \<lparr>clauses = [\<lparr>clause_kind = Requires, clause_value = ClauseExpr demo_opt_expr\<rparr>,
                 \<lparr>clause_kind = Invariant, clause_value = ClauseTemporal (Some demo_opt_formula)\<rparr>],
      contract_target = demo_symbol SymAgent ''A''\<rparr>"

definition demo_source :: program where
  "demo_source =
     \<lparr>format_version = ''1'', phase = Lowered, analysis_revision = 0,
      declarations = [AgentDecl demo_opt_agent, FlowDecl demo_flow, ContractDecl demo_opt_contract,
        WorkflowDecl demo_opt_workflow],
      analyses = \<lparr>source_program_revision = 0, state_handler_summaries = [], workflow_node_input_summaries = [],
        workflow_return_summaries = [], formal_observations = []\<rparr>\<rparr>"

abbreviation demo_pipeline :: "analysis_result pass_manager" where
  "demo_pipeline \<equiv> create_default_pipeline (\<lambda>_ _ _. False)"

lemma demo_acyclic: "acyclic_program (declarations demo_source)"
proof -
  have "distinct (map node_name (nodes demo_opt_workflow))" "\<not> has_unresolved_or_cyclic_dependencies demo_opt_workflow"
    by code_simp+
  then have "acyclic_workflow demo_opt_workflow" by (simp add: has_unresolved_or_cyclic_iff acyclic_workflow_def)
  moreover have "workflows_of (declarations demo_source) = [demo_opt_workflow]"
    by (simp add: demo_source_def workflows_of_def map_filter_simps)
  ultimately show ?thesis by (simp add: acyclic_program_def)
qed

lemma demo_pipeline_runs:
  "(case run_pipeline demo_pipeline demo_source of None \<Rightarrow> False | Some (pm, p, r) \<Rightarrow>
     any_modified r \<and> executed r = [''dead-state-elimination'', ''workflow-simplification'', ''expr-canonicalization'',
       ''temporal-simplification'', ''capability-reachability'', ''contract-redundancy''])"
  by code_simp

lemma demo_pipeline_value:
  obtains pm p r where "run_pipeline demo_pipeline demo_source = Some (pm, p, r)" "any_modified r"
  using demo_pipeline_runs by (auto split: option.splits)

lemma demo_fixpoint: "\<exists>pm p r. run_to_fixpoint demo_pipeline demo_source 10 = Some (pm, p, r)"
proof -
  obtain pm p r where "run_pipeline demo_pipeline demo_source = Some (pm, p, r)" by (rule demo_pipeline_value)
  from run_to_fixpoint_twice [OF this default_decl_passes demo_acyclic, of 10] show ?thesis by auto
qed

end
