(* ===== verification/Parallel_Scheduler.thy ===== *)
theory Parallel_Scheduler
  imports Graph_Search "HOL-Library.Multiset"
begin

section \<open>The parallel scheduler\<close>

text \<open>
  \<open>src/runtime/engine/parallel_scheduler.{hpp,cpp}\<close>: validation of a dependency graph by Kahn's
  algorithm and a pool of worker threads that take ready nodes from a shared queue. A step of a
  worker is one critical section of its loop (the sections under the mutex are atomic) or one
  section that touches no shared data; threads interleave freely. A worker that waits on the
  condition variable can go on when the predicate holds: every change of the predicate is
  followed by \<open>notify_all\<close>. What a node's \<open>execute\<close> does is a parameter, one outcome per attempt;
  sleeping between attempts and durations are left out.
\<close>

datatype failure_mode = FailFast | FailGraceful | ContinueOnError

datatype dag_status = DagPending | DagRunning | DagCompleted | DagFailed | DagSkipped

record dag_node =
  dag_id :: string
  dependencies :: "string list"
  has_execute :: bool
  retry_max_attempts :: int

record dag_result =
  result_id :: string
  result_status :: dag_status
  result_output :: string
  result_error :: string
  result_attempts :: nat

subsection \<open>The dependency graph\<close>

type_synonym degrees = "(string \<times> int) list"

definition degree :: "degrees \<Rightarrow> string \<Rightarrow> int" where
  "degree deg x = (case map_of deg x of None \<Rightarrow> 0 | Some d \<Rightarrow> d)"

definition add_dependency :: "string \<Rightarrow> degrees \<times> string adjacency \<Rightarrow> string \<Rightarrow> degrees \<times> string adjacency" where
  "add_dependency x g d =
     (case g of (deg, adj) \<Rightarrow>
        (insert_or_assign x (degree deg x + 1) deg, insert_or_assign d (successors adj d @ [x]) adj))"

definition add_dag_node :: "degrees \<times> string adjacency \<Rightarrow> dag_node \<Rightarrow> degrees \<times> string adjacency" where
  "add_dag_node g n =
     (case g of (deg, adj) \<Rightarrow>
        foldl (add_dependency (dag_id n)) (emplace (dag_id n) 0 deg, adj) (dependencies n))"

definition build_graph :: "dag_node list \<Rightarrow> degrees \<times> string adjacency" where
  "build_graph ns = foldl add_dag_node ([], []) ns"

text \<open>
  The queue starts with the nodes without dependencies, in the order in which the loop over
  \<open>in_degree\<close> meets them. That is an \<open>unordered_map\<close>, whose order is arbitrary: \<open>seeds\<close> admits
  every order, \<open>seed_queue\<close> is the one of the insertions.
\<close>

definition seed_queue :: "degrees \<Rightarrow> string list" where
  "seed_queue deg = map fst (filter (\<lambda>(x, d). d = 0) deg)"

definition seeds :: "degrees \<Rightarrow> string list \<Rightarrow> bool" where
  "seeds deg q \<longleftrightarrow> mset q = mset (seed_queue deg)"

text \<open>The loop over the successors of a finished node.\<close>

fun release :: "string list \<Rightarrow> degrees \<Rightarrow> string list \<Rightarrow> degrees \<times> string list" where
  "release [] deg q = (deg, q)"
| "release (x # xs) deg q =
     (let d = degree deg x - 1
      in release xs (insert_or_assign x d deg) (if d = 0 then q @ [x] else q))"

lemma degree_insert [simp]: "degree (insert_or_assign x d deg) y = (if y = x then d else degree deg y)"
  by (simp add: degree_def)

lemma sum_degree_update:
  assumes "finite A" "x \<in> A"
  shows "(\<Sum>y \<in> A. nat (degree (insert_or_assign x d deg) y)) + nat (degree deg x) =
    (\<Sum>y \<in> A. nat (degree deg y)) + nat d"
proof -
  have "(\<Sum>y \<in> A - {x}. nat (if y = x then d else degree deg y)) = (\<Sum>y \<in> A - {x}. nat (degree deg y))"
    by (intro sum.cong) auto
  then show ?thesis using sum.remove [OF assms, of "\<lambda>y. nat (degree deg y)"]
      sum.remove [OF assms, of "\<lambda>y. nat (if y = x then d else degree deg y)"] by simp
qed

lemma release_measure:
  assumes "release xs deg q = (deg', q')" "set xs \<subseteq> A" "finite A"
  shows "(\<Sum>y \<in> A. nat (degree deg' y)) + length q' \<le> (\<Sum>y \<in> A. nat (degree deg y)) + length q"
  using assms
proof (induction xs arbitrary: deg q)
  case (Cons x xs)
  let ?d = "degree deg x - 1"
  have "(\<Sum>y \<in> A. nat (degree deg' y)) + length q' \<le>
      (\<Sum>y \<in> A. nat (degree (insert_or_assign x ?d deg) y)) + length (if ?d = 0 then q @ [x] else q)"
    using Cons by (intro Cons.IH) (simp_all only: release.simps Let_def set_simps insert_subset)
  also have "\<dots> \<le> (\<Sum>y \<in> A. nat (degree deg y)) + length q"
    using sum_degree_update [of A x ?d deg] Cons.prems(2,3) by (auto simp del: degree_insert)
  finally show ?case .
qed simp

function kahn :: "string adjacency \<Rightarrow> string list \<Rightarrow> degrees \<Rightarrow> nat \<Rightarrow> nat" where
  "kahn adj [] deg visited = visited"
| "kahn adj (x # q) deg visited =
     (case release (successors adj x) deg q of (deg', q') \<Rightarrow> kahn adj q' deg' (visited + 1))"
  by pat_completeness auto
termination
proof (relation "measure (\<lambda>(adj, q, deg, visited). (\<Sum>y \<in> (\<Union>p \<in> set adj. set (snd p)). nat (degree deg y)) + length q)", goal_cases)
  case (2 adj x q deg visited deg' q')
  then have "release (successors adj x) deg q = (deg', q')" by simp
  from release_measure [OF this successors_subset] show ?case by simp
qed simp

text \<open>\<open>validate_dag\<close> from a seed queue; \<open>scheduler_validation\<close> shows that the order does not matter.\<close>

definition validate_from :: "string list \<Rightarrow> dag_node list \<Rightarrow> bool" where
  "validate_from q ns \<longleftrightarrow> (case build_graph ns of (deg, adj) \<Rightarrow> kahn adj q deg 0 = length ns)"

definition validate_dag :: "dag_node list \<Rightarrow> bool" where
  "validate_dag ns \<longleftrightarrow> validate_from (seed_queue (fst (build_graph ns))) ns"

subsection \<open>Workers\<close>

datatype worker =
    Waiting
  | Checking string
  | Skipping string
  | Running string
  | Committing dag_result
  | Exited

record sched_state =
  sched_ready :: "string list"
  sched_degrees :: degrees
  sched_failed :: "string list"
  sched_results :: "(string \<times> dag_result) list"
  completed_count :: nat
  stop_requested :: bool
  workers :: "worker list"

record scheduler =
  sched_nodes :: "dag_node list"
  sched_mode :: failure_mode
  thread_count :: nat

definition new_scheduler :: "nat \<Rightarrow> failure_mode \<Rightarrow> scheduler" where
  "new_scheduler n m = \<lparr>sched_nodes = [], sched_mode = m, thread_count = (if n = 0 then 1 else n)\<rparr>"

definition add_node :: "dag_node \<Rightarrow> scheduler \<Rightarrow> scheduler" where
  "add_node n sc = sc\<lparr>sched_nodes := sched_nodes sc @ [n]\<rparr>"

definition node_count :: "scheduler \<Rightarrow> nat" where
  "node_count sc = length (sched_nodes sc)"

text \<open>
  \<open>node_map[node.id] = &node\<close>: a later node of the same id overwrites. Only ids of nodes enter the
  queue (\<open>sched_inv\<close> below), so the lookup of a worker finds a node.
\<close>

definition find_dag_node :: "dag_node list \<Rightarrow> string \<Rightarrow> dag_node option" where
  "find_dag_node ns x = find (\<lambda>n. dag_id n = x) (rev ns)"

definition dependencies_of :: "dag_node list \<Rightarrow> string \<Rightarrow> string list" where
  "dependencies_of ns x = (case find_dag_node ns x of None \<Rightarrow> [] | Some n \<Rightarrow> dependencies n)"

text \<open>
  The attempts: \<open>outs k\<close> is what \<open>execute\<close> does in attempt \<open>k\<close>, \<^const>\<open>Inl\<close> the text of an
  exception. The error of a failed attempt stays in the result of a later success.
\<close>

fun run_attempts :: "nat \<Rightarrow> nat \<Rightarrow> bool \<Rightarrow> (nat \<Rightarrow> string + string) \<Rightarrow> dag_result \<Rightarrow> dag_result" where
  "run_attempts 0 attempt has_exec outs nr = nr\<lparr>result_status := DagFailed\<rparr>"
| "run_attempts (Suc k) attempt has_exec outs nr =
     (let nr1 = nr\<lparr>result_attempts := attempt + 1\<rparr>
      in if \<not> has_exec then nr1\<lparr>result_status := DagCompleted\<rparr>
         else
           (case outs attempt of
              Inr out \<Rightarrow> nr1\<lparr>result_output := out, result_status := DagCompleted\<rparr>
            | Inl err \<Rightarrow> run_attempts k (attempt + 1) has_exec outs (nr1\<lparr>result_error := err\<rparr>)))"

definition run_dag_node :: "dag_node list \<Rightarrow> string \<Rightarrow> (nat \<Rightarrow> string + string) \<Rightarrow> dag_result" where
  "run_dag_node ns x outs =
     (case find_dag_node ns x of
        None \<Rightarrow> \<lparr>result_id = x, result_status = DagPending, result_output = [], result_error = [], result_attempts = 0\<rparr>
      | Some n \<Rightarrow>
          run_attempts (nat (retry_max_attempts n)) 0 (has_execute n) outs
            \<lparr>result_id = x, result_status = DagPending, result_output = [], result_error = [], result_attempts = 0\<rparr>)"

definition skip_result :: "string \<Rightarrow> string \<Rightarrow> dag_result" where
  "skip_result x err =
     \<lparr>result_id = x, result_status = DagSkipped, result_output = [], result_error = err, result_attempts = 0\<rparr>"

definition record_result :: "string \<Rightarrow> dag_result \<Rightarrow> sched_state \<Rightarrow> sched_state" where
  "record_result x nr st =
     st\<lparr>sched_results := insert_or_assign x nr (sched_results st), completed_count := completed_count st + 1\<rparr>"

definition release_of :: "string adjacency \<Rightarrow> string \<Rightarrow> sched_state \<Rightarrow> sched_state" where
  "release_of adj x st =
     (case release (successors adj x) (sched_degrees st) (sched_ready st) of
        (deg, q) \<Rightarrow> st\<lparr>sched_degrees := deg, sched_ready := q\<rparr>)"

definition set_worker :: "nat \<Rightarrow> worker \<Rightarrow> sched_state \<Rightarrow> sched_state" where
  "set_worker i w st = st\<lparr>workers := (workers st)[i := w]\<rparr>"

definition commit :: "scheduler \<Rightarrow> string adjacency \<Rightarrow> nat \<Rightarrow> dag_result \<Rightarrow> sched_state \<Rightarrow> sched_state" where
  "commit sc adj i nr st =
     (let x = result_id nr; st1 = record_result x nr st
      in if result_status nr \<noteq> DagCompleted then
           (let st2 = st1\<lparr>sched_failed := List.insert x (sched_failed st1)\<rparr>
            in if sched_mode sc = FailFast then set_worker i Exited (st2\<lparr>stop_requested := True\<rparr>)
               else set_worker i Waiting (release_of adj x st2))
         else set_worker i Waiting (release_of adj x st1))"

text \<open>The next step of worker \<open>i\<close>; \<^const>\<open>None\<close> when it waits or has returned.\<close>

definition worker_step ::
  "scheduler \<Rightarrow> string adjacency \<Rightarrow> nat \<Rightarrow> (nat \<Rightarrow> string + string) \<Rightarrow> sched_state \<Rightarrow> sched_state option" where
  "worker_step sc adj i outs st =
     (case workers st ! i of
        Waiting \<Rightarrow>
          if stop_requested st \<or> completed_count st = length (sched_nodes sc) then Some (set_worker i Exited st)
          else (case sched_ready st of
                  [] \<Rightarrow> None
                | x # q \<Rightarrow> Some (set_worker i (Checking x) (st\<lparr>sched_ready := q\<rparr>)))
      | Checking x \<Rightarrow>
          Some (set_worker i
            (if list_ex (\<lambda>d. d \<in> set (sched_failed st)) (dependencies_of (sched_nodes sc) x)
             then Skipping x else Running x) st)
      | Skipping x \<Rightarrow>
          (let st1 = record_result x (skip_result x ''dependency failed'') st;
               st2 = st1\<lparr>sched_failed := List.insert x (sched_failed st1)\<rparr>
           in Some (set_worker i Waiting (release_of adj x st2)))
      | Running x \<Rightarrow> Some (set_worker i (Committing (run_dag_node (sched_nodes sc) x outs)) st)
      | Committing nr \<Rightarrow> Some (commit sc adj i nr st)
      | Exited \<Rightarrow> None)"

definition initial_sched_state :: "scheduler \<Rightarrow> string list \<Rightarrow> sched_state" where
  "initial_sched_state sc q =
     (case build_graph (sched_nodes sc) of (deg, adj) \<Rightarrow>
        \<lparr>sched_ready = q, sched_degrees = deg, sched_failed = [], sched_results = [],
         completed_count = 0, stop_requested = False,
         workers = replicate (min (thread_count sc) (length (sched_nodes sc))) Waiting\<rparr>)"

text \<open>The runs of the worker threads, for every order of the seeds, every interleaving and every
  behaviour of the nodes.\<close>

inductive sched_reachable :: "scheduler \<Rightarrow> sched_state \<Rightarrow> bool" for sc where
  start: "seeds (fst (build_graph (sched_nodes sc))) q \<Longrightarrow> sched_reachable sc (initial_sched_state sc q)"
| step: "sched_reachable sc st \<Longrightarrow> i < length (workers st) \<Longrightarrow>
    worker_step sc (snd (build_graph (sched_nodes sc))) i outs st = Some st' \<Longrightarrow> sched_reachable sc st'"

subsection \<open>The result\<close>

record scheduler_result =
  sched_success :: bool
  dag_results :: "dag_result list"

definition collect_results :: "scheduler \<Rightarrow> sched_state \<Rightarrow> scheduler_result" where
  "collect_results sc st =
     \<lparr>sched_success = (sched_failed st = []),
      dag_results = map (\<lambda>n. case map_of (sched_results st) (dag_id n) of
          Some nr \<Rightarrow> nr
        | None \<Rightarrow> skip_result (dag_id n) ''execution stopped before scheduling'') (sched_nodes sc)\<rparr>"

definition all_exited :: "sched_state \<Rightarrow> bool" where
  "all_exited st \<longleftrightarrow> list_all (\<lambda>w. w = Exited) (workers st)"

text \<open>\<open>execute\<close>: refused graphs give a failure without results; otherwise the joined threads' state is collected.\<close>

inductive executes :: "scheduler \<Rightarrow> scheduler_result \<Rightarrow> bool" where
  invalid: "\<not> validate_dag (sched_nodes sc) \<Longrightarrow> executes sc \<lparr>sched_success = False, dag_results = []\<rparr>"
| joined: "validate_dag (sched_nodes sc) \<Longrightarrow> sched_reachable sc st \<Longrightarrow> all_exited st \<Longrightarrow>
    executes sc (collect_results sc st)"

subsection \<open>The graph that is built\<close>

definition dag_edges :: "dag_node list \<Rightarrow> (string \<times> string) list" where
  "dag_edges ns = concat (map (\<lambda>n. map (\<lambda>d. (d, dag_id n)) (dependencies n)) ns)"

lemma dag_edges_ids: "snd ` set (dag_edges ns) \<subseteq> dag_id ` set ns"
  by (auto simp: dag_edges_def)

definition represents :: "degrees \<times> string adjacency \<Rightarrow> (string \<times> string) list \<Rightarrow> bool" where
  "represents g es \<longleftrightarrow>
     (\<forall>x. degree (fst g) x = int (length (filter (\<lambda>e. snd e = x) es))) \<and>
     (\<forall>d. successors (snd g) d = map snd (filter (\<lambda>e. fst e = d) es)) \<and>
     distinct (keys_of (fst g))"

lemma successors_insert [simp]: "successors (insert_or_assign d ys adj) x = (if x = d then ys else successors adj x)"
  by (simp add: successors_def)

lemma degree_emplace_zero: "degree (emplace x 0 deg) y = degree deg y"
  by (auto simp: degree_def map_of_emplace simp flip: map_of_eq_None_keys)

lemma represents_dependency:
  "represents g es \<Longrightarrow> represents (add_dependency x g d) (es @ [(d, x)])"
  by (auto simp: represents_def add_dependency_def split: prod.split)

lemma represents_dependencies:
  "represents g es \<Longrightarrow> represents (foldl (add_dependency x) g ds) (es @ map (\<lambda>d. (d, x)) ds)"
proof (induction ds arbitrary: g es)
  case (Cons d ds)
  from Cons.IH [OF represents_dependency [OF Cons.prems, of x d]] show ?case by simp
qed simp

lemma keys_dependencies:
  "x \<in> set (keys_of (fst g)) \<Longrightarrow> set (keys_of (fst (foldl (add_dependency x) g ds))) = set (keys_of (fst g))"
proof (induction ds arbitrary: g)
  case (Cons d ds)
  have "set (keys_of (fst (add_dependency x g d))) = set (keys_of (fst g))"
    using Cons.prems by (auto simp: add_dependency_def split: prod.split)
  with Cons show ?case by simp
qed simp

lemma represents_node:
  assumes "represents g es"
  shows "represents (add_dag_node g n) (es @ map (\<lambda>d. (d, dag_id n)) (dependencies n))"
    and "set (keys_of (fst (add_dag_node g n))) = insert (dag_id n) (set (keys_of (fst g)))"
proof -
  obtain deg adj where g: "g = (deg, adj)" by fastforce
  have "represents (emplace (dag_id n) 0 deg, adj) es"
    using assms by (auto simp: represents_def g degree_emplace_zero)
  from represents_dependencies [OF this]
  show "represents (add_dag_node g n) (es @ map (\<lambda>d. (d, dag_id n)) (dependencies n))"
    by (simp add: add_dag_node_def g)
  show "set (keys_of (fst (add_dag_node g n))) = insert (dag_id n) (set (keys_of (fst g)))"
    using keys_dependencies [of "dag_id n" "(emplace (dag_id n) 0 deg, adj)"] by (simp add: add_dag_node_def g keys_emplace)
qed

lemma build_graph_represents:
  "represents (build_graph ns) (dag_edges ns)" "set (keys_of (fst (build_graph ns))) = dag_id ` set ns"
proof -
  have "represents (foldl add_dag_node g ns) (es @ dag_edges ns) \<and>
      set (keys_of (fst (foldl add_dag_node g ns))) = set (keys_of (fst g)) \<union> dag_id ` set ns" if "represents g es" for g es
    using that
  proof (induction ns arbitrary: g es)
    case (Cons n ns)
    from Cons.IH [OF represents_node(1) [OF Cons.prems, of n]] represents_node(2) [OF Cons.prems, of n]
    show ?case by (simp add: dag_edges_def)
  qed (simp add: dag_edges_def)
  from this [of "([], [])" "[]"] show "represents (build_graph ns) (dag_edges ns)"
    "set (keys_of (fst (build_graph ns))) = dag_id ` set ns"
    by (simp_all add: build_graph_def represents_def degree_def successors_def)
qed

subsection \<open>Releasing successors\<close>

lemma release_spec:
  assumes "release xs deg q = (deg', q')" "\<And>y. int (count_list xs y) \<le> degree deg y"
  shows "degree deg' y = degree deg y - int (count_list xs y) \<and>
    (\<exists>new. q' = q @ new \<and> distinct new \<and> set new = {y \<in> set xs. degree deg y = int (count_list xs y)})"
  using assms
proof (induction xs arbitrary: deg q)
  case (Cons x xs)
  let ?deg = "insert_or_assign x (degree deg x - 1) deg" and ?q = "if degree deg x - 1 = 0 then q @ [x] else q"
  have run: "release xs ?deg ?q = (deg', q')" using Cons.prems(1) by (simp add: Let_def)
  have le: "int (count_list xs y) \<le> degree ?deg y" for y
    using Cons.prems(2) [of y] by (auto split: if_splits)
  obtain new where new: "q' = ?q @ new" "distinct new" "set new = {y \<in> set xs. degree ?deg y = int (count_list xs y)}"
    using Cons.IH [OF run le] by blast
  have zero: "count_list xs x = 0 \<and> x \<notin> set new" if "degree deg x = 1"
    using Cons.prems(2) [of x] that new(3) by (auto simp: count_list_0_iff)
  have "degree deg' y = degree deg y - int (count_list (x # xs) y)" using Cons.IH [OF run le] by auto
  moreover have "q' = q @ (if degree deg x = 1 then x # new else new)" using new(1) by simp
  moreover have "distinct (if degree deg x = 1 then x # new else new)" using new(2) zero by simp
  moreover have "set (if degree deg x = 1 then x # new else new) =
      {y \<in> set (x # xs). degree deg y = int (count_list (x # xs) y)}"
  proof (intro set_eqI)
    fix y
    have x: "x \<notin> set xs \<longleftrightarrow> count_list xs x = 0" by (simp add: count_list_0_iff)
    have mem: "y \<in> set new \<longleftrightarrow> y \<in> set xs \<and> degree ?deg y = int (count_list xs y)" unfolding new(3) by simp
    show "y \<in> set (if degree deg x = 1 then x # new else new) \<longleftrightarrow>
        y \<in> {y \<in> set (x # xs). degree deg y = int (count_list (x # xs) y)}"
    proof (cases "y = x")
      case True
      with mem x zero show ?thesis by (cases "degree deg x = 1") auto
    next
      case False
      with mem show ?thesis by simp
    qed
  qed
  ultimately show ?case by blast
qed simp

text \<open>
  \<open>remaining es R x\<close>: the dependencies of \<open>x\<close> not released yet. The ids in play (\<open>toks\<close>: queued,
  being worked on, or finished) are those without remaining dependencies.
\<close>

definition remaining :: "(string \<times> string) list \<Rightarrow> string set \<Rightarrow> string \<Rightarrow> nat" where
  "remaining es R x = length (filter (\<lambda>e. snd e = x \<and> fst e \<notin> R) es)"

lemma remaining_zero: "remaining es R x = 0 \<longleftrightarrow> (\<forall>d. (d, x) \<in> set es \<longrightarrow> d \<in> R)"
  by (force simp: remaining_def filter_empty_conv)

lemma remaining_insert:
  assumes "d \<notin> R"
  shows "remaining es R x = remaining es (insert d R) x + count_list (map snd (filter (\<lambda>e. fst e = d) es)) x"
  using assms by (induction es) (auto simp: remaining_def)

definition wave :: "(string \<times> string) list \<Rightarrow> string set \<Rightarrow> degrees \<Rightarrow> string set \<Rightarrow> string list \<Rightarrow> bool" where
  "wave es ids deg R toks \<longleftrightarrow>
     distinct toks \<and> set toks = {x \<in> ids. remaining es R x = 0} \<and>
     (\<forall>x. degree deg x = int (remaining es R x))"

lemma wave_mset: "mset toks = mset toks' \<Longrightarrow> wave es ids deg R toks \<longleftrightarrow> wave es ids deg R toks'"
  unfolding wave_def by (metis mset_eq_imp_distinct_iff mset_eq_setD)

lemma wave_initial:
  "wave (dag_edges ns) (dag_id ` set ns) (fst (build_graph ns)) {} (seed_queue (fst (build_graph ns)))"
proof -
  obtain deg adj where g: "build_graph ns = (deg, adj)" by fastforce
  note rep = build_graph_represents [of ns, unfolded g]
  have deg: "degree deg x = int (remaining (dag_edges ns) {} x)" for x
    using rep(1) by (simp add: represents_def remaining_def)
  have dist: "distinct (map fst deg)" using rep(1) by (simp add: represents_def keys_of_def)
  have "(x, d) \<in> set deg \<Longrightarrow> d = degree deg x" for x d
    using dist by (simp add: degree_def)
  moreover have "x \<in> dag_id ` set ns \<longleftrightarrow> x \<in> fst ` set deg" for x using rep(2) by (simp add: keys_of_def)
  moreover have "set (seed_queue deg) = {x. (x, 0) \<in> set deg}" by (force simp: seed_queue_def)
  ultimately have "set (seed_queue deg) = {x \<in> dag_id ` set ns. degree deg x = 0}" by force
  then have "set (seed_queue deg) = {x \<in> dag_id ` set ns. remaining (dag_edges ns) {} x = 0}" by (simp add: deg)
  moreover have "distinct (seed_queue deg)" using dist by (simp add: seed_queue_def distinct_map inj_on_def)
  ultimately show ?thesis using deg by (simp add: wave_def g)
qed

lemma wave_seeds:
  "seeds (fst (build_graph ns)) q \<Longrightarrow> wave (dag_edges ns) (dag_id ` set ns) (fst (build_graph ns)) {} q"
  using wave_initial [of ns] wave_mset [of q] by (simp add: seeds_def)

lemma seeds_refl [simp]: "seeds deg (seed_queue deg)"
  by (simp add: seeds_def)

lemma wave_release:
  assumes "wave es ids deg R toks" "d \<notin> R" "snd ` set es \<subseteq> ids"
    and "release (map snd (filter (\<lambda>e. fst e = d) es)) deg q = (deg', q')"
  shows "\<exists>new. q' = q @ new \<and> wave es ids deg' (insert d R) (toks @ new)"
proof -
  let ?ss = "map snd (filter (\<lambda>e. fst e = d) es)"
  note split = remaining_insert [OF assms(2), of es]
  have deg: "degree deg y = int (remaining es R y)" for y using assms(1) by (simp add: wave_def)
  have le: "int (count_list ?ss y) \<le> degree deg y" for y using split [of y] deg by simp
  obtain new where new: "q' = q @ new" "distinct new" "set new = {y \<in> set ?ss. degree deg y = int (count_list ?ss y)}"
    using release_spec [OF assms(4) le] by blast
  have deg': "degree deg' y = int (remaining es (insert d R) y)" for y
    using release_spec [OF assms(4) le, of y] split [of y] deg [of y] by simp
  have fresh: "y \<in> set new \<longleftrightarrow> remaining es R y > 0 \<and> remaining es (insert d R) y = 0" for y
  proof
    assume "y \<in> set new"
    then have "y \<in> set ?ss" "remaining es R y = count_list ?ss y" using new(3) deg by auto
    with split [of y] count_list_0_iff [of ?ss y] show "remaining es R y > 0 \<and> remaining es (insert d R) y = 0" by auto
  next
    assume "remaining es R y > 0 \<and> remaining es (insert d R) y = 0"
    with split [of y] count_list_0_iff [of ?ss y] new(3) deg [of y] show "y \<in> set new" by auto
  qed
  have toks: "distinct toks" "set toks = {x \<in> ids. remaining es R x = 0}" using assms(1) by (simp_all add: wave_def)
  have ids: "set new \<subseteq> ids" using new(3) assms(3) by auto
  have "y \<in> set (toks @ new) \<longleftrightarrow> y \<in> ids \<and> remaining es (insert d R) y = 0" for y
  proof (cases "remaining es R y = 0")
    case True
    then show ?thesis using split [of y] by (simp add: toks(2) fresh)
  next
    case False
    then have "y \<in> set (toks @ new) \<longleftrightarrow> remaining es (insert d R) y = 0" by (simp add: toks(2) fresh)
    moreover have "y \<in> ids" if "remaining es (insert d R) y = 0" using False that fresh [of y] ids by auto
    ultimately show ?thesis by blast
  qed
  then have "set (toks @ new) = {x \<in> ids. remaining es (insert d R) x = 0}" by blast
  moreover have "distinct (toks @ new)" using toks new(2) fresh by auto
  ultimately have "wave es ids deg' (insert d R) (toks @ new)" using deg' by (simp add: wave_def)
  with new(1) show ?thesis by blast
qed

subsection \<open>Validation\<close>

text \<open>The ids all of whose dependencies can be finished before them.\<close>

inductive settled :: "(string \<times> string) list \<Rightarrow> string set \<Rightarrow> string \<Rightarrow> bool" for es ids where
  settle: "x \<in> ids \<Longrightarrow> (\<And>d. (d, x) \<in> set es \<Longrightarrow> settled es ids d) \<Longrightarrow> settled es ids x"

lemma kahn_settled:
  assumes "wave es ids deg (set D) (q @ D)" "\<And>x. successors adj x = map snd (filter (\<lambda>e. fst e = x) es)"
    "snd ` set es \<subseteq> ids" "\<forall>x \<in> set D. settled es ids x"
  shows "kahn adj q deg (length D) = card {x. settled es ids x}"
  using assms
proof (induction adj q deg "length D" arbitrary: D rule: kahn.induct)
  case (1 adj deg)
  have D: "set D = {x \<in> ids. remaining es (set D) x = 0}" "distinct D" using 1(1) by (simp_all add: wave_def)
  have "x \<in> set D" if "settled es ids x" for x
    using that
  proof (induction rule: settled.induct)
    case (settle x)
    then have "remaining es (set D) x = 0" unfolding remaining_zero by blast
    with settle(1) D(1) show ?case by blast
  qed
  with 1(4) have "{x. settled es ids x} = set D" by blast
  with D(2) show ?case by (simp add: distinct_card)
next
  case (2 adj x q deg)
  obtain deg' q' where rel: "release (successors adj x) deg q = (deg', q')" by fastforce
  have toks: "distinct (x # q @ D)" "set (x # q @ D) = {x \<in> ids. remaining es (set D) x = 0}"
    using 2(2) by (simp_all add: wave_def)
  obtain new where new: "q' = q @ new" "wave es ids deg' (insert x (set D)) (((x # q) @ D) @ new)"
    using wave_release [OF 2(2) _ 2(4) rel [unfolded 2(3)]] toks(1) by auto
  have wave: "wave es ids deg' (set (x # D)) (q' @ (x # D))"
    using new(2) wave_mset [of "q' @ (x # D)" "((x # q) @ D) @ new"] by (simp add: new(1))
  have x: "x \<in> ids" "remaining es (set D) x = 0" using toks(2) by auto
  have "settled es ids x"
    using x(1)
  proof (rule settle)
    fix d assume "(d, x) \<in> set es"
    with x(2) 2(5) show "settled es ids d" by (auto simp: remaining_zero)
  qed
  with 2(5) have "kahn adj q' deg' (length (x # D)) = card {x. settled es ids x}"
    by (intro 2(1) [OF rel [symmetric] _ wave 2(3,4)]) simp_all
  with rel show ?case by simp
qed

lemma settled_ids: "settled es ids x \<Longrightarrow> x \<in> ids"
  by (auto elim: settled.cases)

lemma all_settled_iff:
  assumes "snd ` set es \<subseteq> ids"
  shows "(\<forall>x \<in> ids. settled es ids x) \<longleftrightarrow> fst ` set es \<subseteq> ids \<and> acyclic (set es)"
proof
  assume all: "\<forall>x \<in> ids. settled es ids x"
  have "x \<in> Wellfounded.acc (set es)" if "settled es ids x" for x
    using that by (induction rule: settled.induct) (blast intro: acc.accI)
  moreover have "x \<in> Wellfounded.acc (set es)" if "x \<notin> ids" for x
    by (rule acc.accI) (use assms that in force)
  ultimately have "x \<in> Wellfounded.acc (set es)" for x using all by blast
  then have "acyclic (set es)" by (intro wf_acyclic acc_wfI) blast
  moreover have "d \<in> ids" if "(d, x) \<in> set es" for d x
  proof -
    have "settled es ids x" using all assms that by force
    then show ?thesis using that by cases (auto dest: settled_ids)
  qed
  ultimately show "fst ` set es \<subseteq> ids \<and> acyclic (set es)" by auto
next
  assume dag: "fst ` set es \<subseteq> ids \<and> acyclic (set es)"
  then have "wf (set es)" by (simp add: finite_acyclic_wf)
  then have "x \<in> ids \<longrightarrow> settled es ids x" for x
  proof (induction x rule: wf_induct_rule)
    case (less x)
    with dag show ?case by (force intro: settle)
  qed
  then show "\<forall>x \<in> ids. settled es ids x" by blast
qed

text \<open>The graphs that are accepted.\<close>

definition proper_dag :: "dag_node list \<Rightarrow> bool" where
  "proper_dag ns \<longleftrightarrow>
     distinct (map dag_id ns) \<and> (\<forall>n \<in> set ns. set (dependencies n) \<subseteq> dag_id ` set ns) \<and>
     acyclic {(d, dag_id n) |d n. n \<in> set ns \<and> d \<in> set (dependencies n)}"

lemma dag_edges_set: "set (dag_edges ns) = {(d, dag_id n) |d n. n \<in> set ns \<and> d \<in> set (dependencies n)}"
  by (auto simp: dag_edges_def)

lemma proper_dag_settled:
  "proper_dag ns \<longleftrightarrow>
    distinct (map dag_id ns) \<and> (\<forall>x \<in> dag_id ` set ns. settled (dag_edges ns) (dag_id ` set ns) x)"
proof -
  have "fst ` set (dag_edges ns) \<subseteq> dag_id ` set ns \<longleftrightarrow> (\<forall>n \<in> set ns. set (dependencies n) \<subseteq> dag_id ` set ns)"
    unfolding dag_edges_set by force
  then show ?thesis
    unfolding proper_dag_def all_settled_iff [OF dag_edges_ids] dag_edges_set [symmetric] by simp
qed

lemma validate_from_iff:
  assumes "seeds (fst (build_graph ns)) q"
  shows "validate_from q ns \<longleftrightarrow> proper_dag ns"
proof -
  let ?es = "dag_edges ns" and ?ids = "dag_id ` set ns"
  obtain deg adj where g: "build_graph ns = (deg, adj)" by fastforce
  have adj: "successors adj x = map snd (filter (\<lambda>e. fst e = x) ?es)" for x
    using build_graph_represents(1) [of ns] by (simp add: represents_def g)
  have "kahn adj q deg (length ([] :: string list)) = card {x. settled ?es ?ids x}"
    using wave_seeds [OF assms] by (intro kahn_settled [OF _ adj dag_edges_ids]) (simp_all add: g)
  then have valid: "validate_from q ns \<longleftrightarrow> card {x. settled ?es ?ids x} = length ns" by (simp add: validate_from_def g)
  have sub: "{x. settled ?es ?ids x} \<subseteq> ?ids" by (auto dest: settled_ids)
  have "card {x. settled ?es ?ids x} = length ns \<longleftrightarrow> distinct (map dag_id ns) \<and> (\<forall>x \<in> ?ids. settled ?es ?ids x)"
  proof
    assume len: "card {x. settled ?es ?ids x} = length ns"
    have le: "card {x. settled ?es ?ids x} \<le> card ?ids" "card ?ids \<le> length ns"
      using sub card_mono [of ?ids] card_length [of "map dag_id ns"] by simp_all
    then have "card ?ids = length ns" using len by simp
    then have "distinct (map dag_id ns)" by (intro card_distinct) simp
    moreover have "{x. settled ?es ?ids x} = ?ids" using len le by (intro card_subset_eq sub) simp_all
    ultimately show "distinct (map dag_id ns) \<and> (\<forall>x \<in> ?ids. settled ?es ?ids x)" by blast
  next
    assume all: "distinct (map dag_id ns) \<and> (\<forall>x \<in> ?ids. settled ?es ?ids x)"
    then have "{x. settled ?es ?ids x} = ?ids" using sub by blast
    moreover have "card ?ids = length ns" using all distinct_card [of "map dag_id ns"] by simp
    ultimately show "card {x. settled ?es ?ids x} = length ns" by simp
  qed
  with valid show ?thesis by (simp only: proper_dag_settled)
qed

lemma validate_dag_iff: "validate_dag ns \<longleftrightarrow> proper_dag ns"
  by (simp add: validate_dag_def validate_from_iff)

end
