(* ===== verification/Step_System.thy ===== *)
theory Step_System
  imports Main
begin

section \<open>Systems that come to an end\<close>

text \<open>
  A step relation with an invariant, a measure every step lowers, and a next step in every
  state of the invariant that is not final. Such a system has no infinite run, and every run
  can only stop in a final state. The locale is interpreted on the worker threads of the
  parallel scheduler.
\<close>

locale terminating_system =
  fixes step :: "'s \<Rightarrow> 's \<Rightarrow> bool" and inv :: "'s \<Rightarrow> bool" and rank :: "'s \<Rightarrow> nat" and final :: "'s \<Rightarrow> bool"
  assumes inv_step: "inv s \<Longrightarrow> step s s' \<Longrightarrow> inv s'"
    and rank_step: "inv s \<Longrightarrow> step s s' \<Longrightarrow> rank s' < rank s"
    and progress: "inv s \<Longrightarrow> \<not> final s \<Longrightarrow> \<exists>s'. step s s'"
begin

lemma inv_run: "step\<^sup>*\<^sup>* s s' \<Longrightarrow> inv s \<Longrightarrow> inv s'"
  by (induction rule: rtranclp_induct) (auto intro: inv_step)

lemma bounded_run:
  assumes "inv (run 0)" "\<And>k. k < n \<Longrightarrow> step (run k) (run (Suc k))"
  shows "n + rank (run n) \<le> rank (run 0)"
proof -
  have "k \<le> n \<Longrightarrow> inv (run k) \<and> k + rank (run k) \<le> rank (run 0)" for k
  proof (induction k)
    case (Suc k)
    then have "inv (run k)" "step (run k) (run (Suc k))" using assms(2) by simp_all
    with Suc inv_step rank_step show ?case by fastforce
  qed (use assms(1) in simp)
  then show ?thesis by blast
qed

lemma no_infinite_run:
  assumes "inv (run 0)"
  shows "\<exists>k. \<not> step (run k) (run (Suc k))"
proof (rule ccontr)
  assume "\<not> ?thesis"
  then have "Suc (rank (run 0)) + rank (run (Suc (rank (run 0)))) \<le> rank (run 0)"
    using bounded_run [where run = run, OF assms] by blast
  then show False by simp
qed

lemma reaches_final: "inv s \<Longrightarrow> \<exists>s'. step\<^sup>*\<^sup>* s s' \<and> final s'"
proof (induction s rule: measure_induct_rule [of rank])
  case (less s)
  show ?case
  proof (cases "final s")
    case False
    then obtain s1 where "step s s1" using progress less.prems by blast
    with less inv_step rank_step obtain s2 where "step\<^sup>*\<^sup>* s1 s2" "final s2" by blast
    with \<open>step s s1\<close> show ?thesis by (blast intro: converse_rtranclp_into_rtranclp)
  qed blast
qed

end

end
