(* ===== verification/Scheduler_Safety.thy ===== *)
theory Scheduler_Safety
  imports Parallel_Scheduler Step_System
begin

section \<open>Safety and liveness of the parallel scheduler\<close>

text \<open>
  The invariant of the worker threads for every interleaving: no node is queued, worked on or
  finished twice, a node is taken only after its dependencies have results, and a recorded
  status agrees with those of the dependencies. Every step lowers a measure and a step is
  possible until all workers have returned, so the threads always join.
\<close>

subsection \<open>The invariant of the workers\<close>

fun held :: "worker \<Rightarrow> string list" where
  "held (Checking x) = [x]"
| "held (Skipping x) = [x]"
| "held (Running x) = [x]"
| "held (Committing nr) = [result_id nr]"
| "held w = []"

definition inflight :: "worker list \<Rightarrow> string list" where
  "inflight ws = concat (map held ws)"

definition tokens :: "sched_state \<Rightarrow> string list" where
  "tokens st = sched_ready st @ inflight (workers st) @ keys_of (sched_results st)"

definition status_of :: "sched_state \<Rightarrow> string \<Rightarrow> dag_status option" where
  "status_of st x = map_option result_status (map_of (sched_results st) x)"

abbreviation dag_failed :: "sched_state \<Rightarrow> string \<Rightarrow> bool" where
  "dag_failed st x \<equiv> status_of st x = Some DagFailed \<or> status_of st x = Some DagSkipped"

definition released :: "scheduler \<Rightarrow> sched_state \<Rightarrow> string set" where
  "released sc st = {x. status_of st x \<noteq> None \<and> \<not> (sched_mode sc = FailFast \<and> status_of st x = Some DagFailed)}"

abbreviation dag_deps :: "scheduler \<Rightarrow> string \<Rightarrow> string set" where
  "dag_deps sc x \<equiv> set (dependencies_of (sched_nodes sc) x)"

abbreviation dag_ids :: "scheduler \<Rightarrow> string set" where
  "dag_ids sc \<equiv> dag_id ` set (sched_nodes sc)"

text \<open>What a final status says about the dependencies.\<close>

definition outcome_ok :: "scheduler \<Rightarrow> sched_state \<Rightarrow> string \<Rightarrow> dag_status \<Rightarrow> bool" where
  "outcome_ok sc st x s \<longleftrightarrow>
     (case s of
        DagCompleted \<Rightarrow> \<forall>d \<in> dag_deps sc x. status_of st d = Some DagCompleted
      | DagFailed \<Rightarrow> \<forall>d \<in> dag_deps sc x. status_of st d = Some DagCompleted
      | DagSkipped \<Rightarrow> \<exists>d \<in> dag_deps sc x. dag_failed st d
      | _ \<Rightarrow> False)"

fun worker_ok :: "scheduler \<Rightarrow> sched_state \<Rightarrow> worker \<Rightarrow> bool" where
  "worker_ok sc st (Skipping x) = (\<exists>d \<in> dag_deps sc x. dag_failed st d)"
| "worker_ok sc st (Running x) = (\<forall>d \<in> dag_deps sc x. status_of st d = Some DagCompleted)"
| "worker_ok sc st (Committing nr) =
     (result_status nr \<noteq> DagSkipped \<and> outcome_ok sc st (result_id nr) (result_status nr))"
| "worker_ok sc st Exited = (stop_requested st \<or> completed_count st = length (sched_nodes sc))"
| "worker_ok sc st w = True"

definition graph_inv :: "scheduler \<Rightarrow> sched_state \<Rightarrow> bool" where
  "graph_inv sc st \<longleftrightarrow>
     wave (dag_edges (sched_nodes sc)) (dag_ids sc) (sched_degrees st) (released sc st) (tokens st)"

definition result_inv :: "scheduler \<Rightarrow> sched_state \<Rightarrow> bool" where
  "result_inv sc st \<longleftrightarrow>
     completed_count st = length (sched_results st) \<and>
     set (sched_failed st) = {x. dag_failed st x} \<and>
     (stop_requested st \<longleftrightarrow> sched_mode sc = FailFast \<and> (\<exists>x. status_of st x = Some DagFailed)) \<and>
     (\<forall>x nr. map_of (sched_results st) x = Some nr \<longrightarrow> result_id nr = x \<and> outcome_ok sc st x (result_status nr))"

definition sched_inv :: "scheduler \<Rightarrow> sched_state \<Rightarrow> bool" where
  "sched_inv sc st \<longleftrightarrow> graph_inv sc st \<and> result_inv sc st \<and> (\<forall>w \<in> set (workers st). worker_ok sc st w)"

lemma inflight_update:
  assumes "i < length ws"
  shows "mset (inflight (ws[i := w])) + mset (held (ws ! i)) = mset (inflight ws) + mset (held w)"
proof -
  have "inflight ws = inflight (take i ws) @ held (ws ! i) @ inflight (drop (Suc i) ws)"
    by (subst id_take_nth_drop [OF assms]) (simp add: inflight_def)
  moreover have "inflight (ws[i := w]) = inflight (take i ws) @ held w @ inflight (drop (Suc i) ws)"
    by (subst upd_conv_take_nth_drop [OF assms]) (simp add: inflight_def)
  ultimately show ?thesis by simp
qed

lemma held_inflight: "i < length ws \<Longrightarrow> set (held (ws ! i)) \<subseteq> set (inflight ws)"
  by (auto simp: inflight_def dest: nth_mem)

lemma insert_fresh: "x \<notin> set (keys_of xs) \<Longrightarrow> insert_or_assign x v xs = xs @ [(x, v)]"
  by (induction xs) auto

lemma graph_invD:
  assumes "graph_inv sc st"
  shows "distinct (tokens st)" "set (tokens st) \<subseteq> dag_ids sc"
    "x \<in> set (tokens st) \<Longrightarrow> (d, x) \<in> set (dag_edges (sched_nodes sc)) \<Longrightarrow> d \<in> released sc st"
  using assms by (auto simp: graph_inv_def wave_def remaining_zero)

lemma graph_inv_mset:
  assumes "graph_inv sc st" "mset (tokens st') = mset (tokens st)" "sched_degrees st' = sched_degrees st"
    "sched_results st' = sched_results st"
  shows "graph_inv sc st'"
proof -
  have "released sc st' = released sc st" using assms(4) by (simp add: released_def status_of_def)
  with assms(1,3) wave_mset [OF assms(2)] show ?thesis by (simp add: graph_inv_def)
qed

lemma result_inv_cong:
  assumes "result_inv sc st" "sched_results st' = sched_results st" "completed_count st' = completed_count st"
    "sched_failed st' = sched_failed st" "stop_requested st' = stop_requested st"
  shows "result_inv sc st'"
proof -
  have "status_of st' = status_of st" using assms(2) by (intro ext) (simp add: status_of_def)
  then have "outcome_ok sc st' = outcome_ok sc st" "dag_failed st' = dag_failed st" unfolding outcome_ok_def by simp_all
  with assms \<open>status_of st' = status_of st\<close> show ?thesis by (simp add: result_inv_def)
qed

text \<open>A worker stays in order when results are only added.\<close>

lemma outcome_ok_mono:
  assumes "outcome_ok sc st x s" "\<And>y v. status_of st y = Some v \<Longrightarrow> status_of st' y = Some v"
  shows "outcome_ok sc st' x s"
  using assms by (cases s) (auto simp: outcome_ok_def)

lemma worker_ok_mono:
  assumes "worker_ok sc st w" "\<And>y v. status_of st y = Some v \<Longrightarrow> status_of st' y = Some v"
    "stop_requested st \<or> completed_count st = length (sched_nodes sc) \<Longrightarrow>
      stop_requested st' \<or> completed_count st' = length (sched_nodes sc)"
  shows "worker_ok sc st' w"
proof (cases w)
  case (Skipping x)
  with assms(1,2) show ?thesis by auto
next
  case (Committing nr)
  with assms(1) outcome_ok_mono [OF _ assms(2)] show ?thesis by auto
qed (use assms in auto)

lemma find_dag_node_unique:
  assumes "distinct (map dag_id ns)" "n \<in> set ns"
  shows "find_dag_node ns (dag_id n) = Some n"
proof -
  have "find_dag_node ns (dag_id n) \<noteq> None" using assms(2) by (auto simp: find_dag_node_def find_None_iff)
  then obtain m where m: "find_dag_node ns (dag_id n) = Some m" by auto
  then have "m \<in> set ns" "dag_id m = dag_id n"
    by (auto simp: find_dag_node_def find_Some_iff) (metis length_rev nth_mem set_rev)
  with assms have "m = n" by (auto simp: distinct_map dest: inj_onD)
  with m show ?thesis by simp
qed

lemma dependencies_of_node:
  "distinct (map dag_id ns) \<Longrightarrow> n \<in> set ns \<Longrightarrow> set (dependencies_of ns (dag_id n)) = set (dependencies n)"
  by (simp add: dependencies_of_def find_dag_node_unique)

lemma edges_dependencies:
  assumes "distinct (map dag_id ns)" "x \<in> dag_id ` set ns"
  shows "(d, x) \<in> set (dag_edges ns) \<longleftrightarrow> d \<in> set (dependencies_of ns x)"
proof -
  obtain n where n: "n \<in> set ns" "dag_id n = x" using assms(2) by auto
  have uniq: "k = n" if "k \<in> set ns" "dag_id k = x" for k
    using inj_onD [of dag_id "set ns" k n] assms(1) that n by (simp add: distinct_map)
  have "(d, x) \<in> set (dag_edges ns) \<longleftrightarrow> (\<exists>k \<in> set ns. dag_id k = x \<and> d \<in> set (dependencies k))"
    unfolding dag_edges_set by blast
  also have "\<dots> \<longleftrightarrow> d \<in> set (dependencies n)" using uniq n by blast
  finally show ?thesis using dependencies_of_node [OF assms(1) n(1)] n(2) by simp
qed

lemma run_attempts_props:
  "result_id (run_attempts k a h outs nr) = result_id nr"
  "result_status (run_attempts k a h outs nr) \<in> {DagCompleted, DagFailed}"
  by (induction k a h outs nr rule: run_attempts.induct) (auto simp: Let_def split: sum.split)

subsection \<open>Every step keeps the invariant\<close>

text \<open>A step that only changes the state of a worker and the head of the queue.\<close>

lemma sched_inv_move:
  assumes "sched_inv sc st" "i < length (workers st)"
    and st': "st' = st\<lparr>sched_ready := q, workers := (workers st)[i := w]\<rparr>"
    and q: "mset (sched_ready st) + mset (held (workers st ! i)) = mset q + mset (held w)"
    and w: "worker_ok sc st w"
  shows "sched_inv sc st'"
proof -
  have "mset (tokens st') + mset (held (workers st ! i)) = mset (tokens st) + mset (held (workers st ! i))"
    using inflight_update [OF assms(2), of w] q by (simp add: tokens_def st' ac_simps)
  then have toks: "mset (tokens st') = mset (tokens st)" by simp
  have inv: "graph_inv sc st" "result_inv sc st" using assms(1) by (simp_all add: sched_inv_def)
  have "graph_inv sc st'" by (rule graph_inv_mset [OF inv(1) toks]) (simp_all add: st')
  moreover have "result_inv sc st'" by (rule result_inv_cong [OF inv(2)]) (simp_all add: st')
  moreover have "worker_ok sc st' v" if "v \<in> set (workers st')" for v
  proof -
    have "v \<in> insert w (set (workers st))" using that by (auto simp: st' dest: set_update_subset_insert [THEN subsetD])
    then have "worker_ok sc st v" using assms(1) w by (auto simp: sched_inv_def)
    then show ?thesis by (rule worker_ok_mono) (simp_all add: st' status_of_def)
  qed
  ultimately show ?thesis by (simp add: sched_inv_def)
qed

text \<open>A step that records the result of the node a worker holds; \<open>F\<close> is the new list of failed nodes.\<close>

definition recorded :: "nat \<Rightarrow> worker \<Rightarrow> string \<Rightarrow> dag_result \<Rightarrow> string list \<Rightarrow> sched_state \<Rightarrow> sched_state" where
  "recorded i w x nr F st = (record_result x nr st)\<lparr>sched_failed := F, workers := (workers st)[i := w]\<rparr>"

lemma recorded_facts:
  assumes "sched_inv sc st" "i < length (workers st)" "held (workers st ! i) = [x]" "held w = []"
  shows "x \<notin> set (keys_of (sched_results st))" "status_of st x = None" "x \<in> dag_ids sc"
    "d \<in> released sc st \<Longrightarrow> d \<noteq> x" "(d, x) \<in> set (dag_edges (sched_nodes sc)) \<Longrightarrow> d \<in> released sc st"
    "completed_count st < length (sched_nodes sc)"
    "mset (tokens (recorded i w x nr F st)) = mset (tokens st)"
    "status_of (recorded i w x nr F st) = (status_of st)(x \<mapsto> result_status nr)"
proof -
  note g = graph_invD [of sc st]
  have inv: "graph_inv sc st" "result_inv sc st" using assms(1) by (simp_all add: sched_inv_def)
  have x: "x \<in> set (inflight (workers st))" using held_inflight [OF assms(2)] assms(3) by auto
  then have tok: "x \<in> set (tokens st)" by (simp add: tokens_def)
  show fresh: "x \<notin> set (keys_of (sched_results st))" using g(1) [OF inv(1)] x by (auto simp: tokens_def)
  then show none: "status_of st x = None" by (simp add: status_of_def flip: map_of_eq_None_keys)
  show "x \<in> dag_ids sc" using g(2) [OF inv(1)] tok by blast
  show "d \<in> released sc st \<Longrightarrow> d \<noteq> x" using none by (auto simp: released_def)
  show "(d, x) \<in> set (dag_edges (sched_nodes sc)) \<Longrightarrow> d \<in> released sc st" using g(3) [OF inv(1) tok] .
  show "mset (tokens (recorded i w x nr F st)) = mset (tokens st)"
    using inflight_update [OF assms(2), of w] assms(3,4) fresh
    by (simp add: tokens_def recorded_def record_result_def insert_fresh)
  show "status_of (recorded i w x nr F st) = (status_of st)(x \<mapsto> result_status nr)"
    by (intro ext) (simp add: status_of_def recorded_def record_result_def)
  have "set (x # keys_of (sched_results st)) \<subseteq> dag_ids sc" "distinct (x # keys_of (sched_results st))"
    using g(1,2) [OF inv(1)] fresh tok by (auto simp: tokens_def)
  then have "length (x # keys_of (sched_results st)) \<le> card (dag_ids sc)"
    by (metis card_mono distinct_card finite_imageI finite_set)
  also have "\<dots> \<le> length (sched_nodes sc)" by (metis card_length length_map list.set_map)
  finally show "completed_count st < length (sched_nodes sc)"
    using inv(2) by (simp add: result_inv_def keys_of_def)
qed

lemma recorded_result_inv:
  assumes inv: "sched_inv sc st" "i < length (workers st)" "held (workers st ! i) = [x]" "held w = []"
    and nr: "result_id nr = x" "outcome_ok sc st x (result_status nr)"
    and F: "set F = set (sched_failed st) \<union> (if result_status nr = DagCompleted then {} else {x})"
    and stop: "b = (stop_requested st \<or> sched_mode sc = FailFast \<and> result_status nr = DagFailed)"
  shows "result_inv sc ((recorded i w x nr F st)\<lparr>stop_requested := b\<rparr>)" (is "result_inv sc ?st'")
proof -
  note facts = recorded_facts [OF inv]
  have status: "status_of ?st' = (status_of st)(x \<mapsto> result_status nr)"
    using facts(8) by (simp add: status_of_def fun_eq_iff)
  have mono: "status_of st y = Some v \<Longrightarrow> status_of ?st' y = Some v" for y v using facts(2) by (auto simp: status)
  have res: "map_of (sched_results (recorded i w x nr F st)) = (map_of (sched_results st))(x \<mapsto> nr)"
    by (simp add: recorded_def record_result_def)
  have old: "result_inv sc st" using inv(1) by (simp add: sched_inv_def)
  have "completed_count ?st' = length (sched_results ?st')"
    using old facts(1) by (simp add: recorded_def record_result_def result_inv_def insert_fresh)
  moreover have "set (sched_failed ?st') = {y. dag_failed ?st' y}"
  proof -
    have "result_status nr = DagCompleted \<or> result_status nr = DagFailed \<or> result_status nr = DagSkipped"
      using nr(2) by (cases "result_status nr") (simp_all add: outcome_ok_def)
    moreover have "set (sched_failed st) = {y. dag_failed st y}" using old by (simp add: result_inv_def)
    moreover have "dag_failed ?st' y \<longleftrightarrow> (if y = x then result_status nr = DagFailed \<or> result_status nr = DagSkipped else dag_failed st y)" for y
      by (simp add: status)
    moreover have "sched_failed ?st' = F" by (simp add: recorded_def)
    ultimately show ?thesis using F facts(2) by (auto split: if_splits)
  qed
  moreover have "stop_requested ?st' \<longleftrightarrow> sched_mode sc = FailFast \<and> (\<exists>y. status_of ?st' y = Some DagFailed)"
  proof -
    have "(\<exists>y. status_of ?st' y = Some DagFailed) \<longleftrightarrow> result_status nr = DagFailed \<or> (\<exists>y. status_of st y = Some DagFailed)"
      unfolding status using facts(2) by (auto simp: fun_upd_def) (metis option.distinct(1))
    with old show ?thesis by (auto simp: stop result_inv_def)
  qed
  moreover have "result_id r = y \<and> outcome_ok sc ?st' y (result_status r)" if "map_of (sched_results ?st') y = Some r" for y r
  proof (cases "y = x")
    case True
    with that have "r = nr" by (simp add: res)
    with True nr outcome_ok_mono [OF nr(2) mono] show ?thesis by simp
  next
    case False
    with that have "map_of (sched_results st) y = Some r" by (simp add: res)
    with old have r: "result_id r = y" "outcome_ok sc st y (result_status r)" by (simp_all add: result_inv_def)
    from r(1) outcome_ok_mono [OF r(2) mono] show ?thesis by simp
  qed
  ultimately show ?thesis by (simp add: result_inv_def)
qed

lemma recorded_workers:
  assumes inv: "sched_inv sc st" "i < length (workers st)" "held (workers st ! i) = [x]" "held w = []"
    and st': "workers st' = (workers st)[i := w]" "status_of st' = (status_of st)(x \<mapsto> s)"
      "stop_requested st \<longrightarrow> stop_requested st'" "worker_ok sc st' w"
  shows "\<forall>v \<in> set (workers st'). worker_ok sc st' v"
proof
  fix v assume "v \<in> set (workers st')"
  then consider "v = w" | "v \<in> set (workers st)" using set_update_subset_insert [of "workers st" i w] by (auto simp: st'(1))
  then show "worker_ok sc st' v"
  proof cases
    case 2
    then have "worker_ok sc st v" using inv(1) by (simp add: sched_inv_def)
    then show ?thesis
      using recorded_facts(2,6) [OF inv] st'(2,3) by (elim worker_ok_mono) auto
  qed (use st'(4) in simp)
qed

lemma status_final:
  assumes "result_inv sc st" "status_of st x = Some s"
  shows "outcome_ok sc st x s" "s = DagCompleted \<or> s = DagFailed \<or> s = DagSkipped"
proof -
  obtain nr where "map_of (sched_results st) x = Some nr" "s = result_status nr"
    using assms(2) by (auto simp: status_of_def)
  with assms(1) show "outcome_ok sc st x s" by (simp add: result_inv_def)
  then show "s = DagCompleted \<or> s = DagFailed \<or> s = DagSkipped" by (cases s) (simp_all add: outcome_ok_def)
qed

lemma finish_release:
  assumes inv: "sched_inv sc st" "i < length (workers st)" "held (workers st ! i) = [x]"
    and nr: "result_id nr = x" "outcome_ok sc st x (result_status nr)"
    and F: "set F = set (sched_failed st) \<union> (if result_status nr = DagCompleted then {} else {x})"
    and mode: "\<not> (sched_mode sc = FailFast \<and> result_status nr = DagFailed)"
    and adj: "adj = snd (build_graph (sched_nodes sc))"
  shows "sched_inv sc (release_of adj x (recorded i Waiting x nr F st))"
proof -
  let ?st1 = "recorded i Waiting x nr F st" and ?es = "dag_edges (sched_nodes sc)"
  note facts = recorded_facts [OF inv held.simps(5)]
  obtain deg q where rel: "release (successors adj x) (sched_degrees ?st1) (sched_ready ?st1) = (deg, q)" by fastforce
  define st' where "st' = ?st1\<lparr>sched_degrees := deg, sched_ready := q\<rparr>"
  have status: "status_of st' = (status_of st)(x \<mapsto> result_status nr)"
    using facts(8) by (simp add: st'_def status_of_def fun_eq_iff)
  have "successors adj x = map snd (filter (\<lambda>e. fst e = x) ?es)"
    using build_graph_represents(1) by (simp add: represents_def adj)
  with rel have rel': "release (map snd (filter (\<lambda>e. fst e = x) ?es)) (sched_degrees st) (sched_ready st) = (deg, q)"
    by (simp add: recorded_def record_result_def)
  have "wave ?es (dag_ids sc) (sched_degrees st) (released sc st) (tokens ?st1)"
    using inv(1) wave_mset [OF facts(7)] by (simp add: sched_inv_def graph_inv_def)
  from wave_release [OF this _ dag_edges_ids rel'] facts(4) obtain new where
    new: "q = sched_ready st @ new" "wave ?es (dag_ids sc) deg (insert x (released sc st)) (tokens ?st1 @ new)" by blast
  have toks: "mset (tokens st') = mset (tokens ?st1 @ new)"
    by (simp add: tokens_def st'_def new(1) recorded_def record_result_def)
  have rl: "released sc st' = insert x (released sc st)"
    using mode facts(2) by (auto simp: released_def status)
  have deg: "sched_degrees st' = deg" by (simp add: st'_def)
  have "graph_inv sc st'" unfolding graph_inv_def rl deg wave_mset [OF toks] by (rule new(2))
  moreover have "result_inv sc (?st1\<lparr>stop_requested := stop_requested st\<rparr>)"
    by (rule recorded_result_inv [OF inv held.simps(5) nr F]) (use mode in blast)
  then have "result_inv sc st'"
    by (rule result_inv_cong) (simp_all add: st'_def recorded_def record_result_def)
  moreover have "\<forall>v \<in> set (workers st'). worker_ok sc st' v"
    by (rule recorded_workers [OF inv held.simps(5) _ status]) (simp_all add: st'_def recorded_def record_result_def)
  ultimately have "sched_inv sc st'" by (simp add: sched_inv_def)
  then show ?thesis by (simp add: release_of_def rel st'_def)
qed

lemma finish_stop:
  assumes inv: "sched_inv sc st" "i < length (workers st)" "held (workers st ! i) = [x]"
    and nr: "result_id nr = x" "outcome_ok sc st x (result_status nr)"
    and F: "set F = insert x (set (sched_failed st))"
    and mode: "sched_mode sc = FailFast" "result_status nr = DagFailed"
  shows "sched_inv sc ((recorded i Exited x nr F st)\<lparr>stop_requested := True\<rparr>)"
proof -
  let ?st1 = "recorded i Exited x nr F st"
  define st' where "st' = ?st1\<lparr>stop_requested := True\<rparr>"
  note facts = recorded_facts [OF inv held.simps(6)]
  have status: "status_of st' = (status_of st)(x \<mapsto> result_status nr)"
    using facts(8) by (simp add: st'_def status_of_def fun_eq_iff)
  have rl: "released sc st' = released sc st" using mode facts(2) by (auto simp: released_def status)
  have toks: "mset (tokens st') = mset (tokens st)" using facts(7) by (simp add: tokens_def st'_def)
  have deg: "sched_degrees st' = sched_degrees st" by (simp add: st'_def recorded_def record_result_def)
  have "graph_inv sc st'"
    using inv(1) unfolding graph_inv_def rl deg wave_mset [OF toks] by (simp add: sched_inv_def graph_inv_def)
  moreover have "result_inv sc st'"
    unfolding st'_def using F mode by (intro recorded_result_inv [OF inv held.simps(6) nr]) simp_all
  moreover have "\<forall>v \<in> set (workers st'). worker_ok sc st' v"
    by (rule recorded_workers [OF inv held.simps(6) _ status]) (simp_all add: st'_def recorded_def record_result_def)
  ultimately show ?thesis by (simp add: sched_inv_def st'_def)
qed

text \<open>The two critical sections that end the work on a node, in terms of these steps.\<close>

lemma release_recorded:
  "set_worker i Waiting (release_of adj x ((record_result x nr st)\<lparr>sched_failed := F\<rparr>)) =
    release_of adj x (recorded i Waiting x nr F st)"
  "set_worker i Waiting (release_of adj x (record_result x nr st)) =
    release_of adj x (recorded i Waiting x nr (sched_failed st) st)"
  by (simp_all add: set_worker_def release_of_def recorded_def record_result_def split: prod.split)

lemma commit_inv:
  assumes inv: "sched_inv sc st" "i < length (workers st)" "workers st ! i = Committing nr"
    and adj: "adj = snd (build_graph (sched_nodes sc))"
  shows "sched_inv sc (commit sc adj i nr st)"
proof -
  have held: "held (workers st ! i) = [result_id nr]" using inv(3) by simp
  have "worker_ok sc st (Committing nr)" using inv by (metis nth_mem sched_inv_def)
  then have nr: "outcome_ok sc st (result_id nr) (result_status nr)" "result_status nr \<noteq> DagSkipped" by simp_all
  then have st: "result_status nr = DagCompleted \<or> result_status nr = DagFailed"
    by (cases "result_status nr") (simp_all add: outcome_ok_def)
  show ?thesis
  proof (cases "result_status nr = DagCompleted")
    case True
    then show ?thesis
      using finish_release [OF inv(1,2) held refl nr(1) _ _ adj, of "sched_failed st"]
      by (simp add: commit_def Let_def release_recorded)
  next
    case False
    with st have failed: "result_status nr = DagFailed" by simp
    let ?F = "List.insert (result_id nr) (sched_failed st)"
    show ?thesis
    proof (cases "sched_mode sc = FailFast")
      case True
      have "commit sc adj i nr st = (recorded i Exited (result_id nr) nr ?F st)\<lparr>stop_requested := True\<rparr>"
        using True failed by (simp add: commit_def Let_def set_worker_def recorded_def record_result_def)
      then show ?thesis using finish_stop [OF inv(1,2) held refl nr(1) _ True failed, of ?F] by simp
    next
      case mode: False
      have "commit sc adj i nr st = release_of adj (result_id nr) (recorded i Waiting (result_id nr) nr ?F st)"
        using mode failed by (simp add: commit_def Let_def release_recorded [symmetric] record_result_def)
      then show ?thesis using finish_release [OF inv(1,2) held refl nr(1) _ _ adj, of ?F] mode failed by simp
    qed
  qed
qed

lemma worker_step_inv:
  assumes ids: "distinct (map dag_id (sched_nodes sc))" and inv: "sched_inv sc st" "i < length (workers st)"
    and step: "worker_step sc adj i outs st = Some st'" and adj: "adj = snd (build_graph (sched_nodes sc))"
  shows "sched_inv sc st'"
proof (cases "workers st ! i")
  case Waiting
  show ?thesis
  proof (cases "stop_requested st \<or> completed_count st = length (sched_nodes sc)")
    case True
    with Waiting step have "st' = st\<lparr>sched_ready := sched_ready st, workers := (workers st)[i := Exited]\<rparr>"
      by (simp add: worker_step_def set_worker_def)
    then show ?thesis by (rule sched_inv_move [OF inv]) (use True Waiting in simp_all)
  next
    case False
    with Waiting step obtain x q where q: "sched_ready st = x # q"
      and st': "st' = st\<lparr>sched_ready := q, workers := (workers st)[i := Checking x]\<rparr>"
      by (auto simp: worker_step_def set_worker_def split: list.splits)
    from st' show ?thesis by (rule sched_inv_move [OF inv]) (use q Waiting in simp_all)
  qed
next
  case (Checking x)
  let ?w = "if list_ex (\<lambda>d. d \<in> set (sched_failed st)) (dependencies_of (sched_nodes sc) x) then Skipping x else Running x"
  have st': "st' = st\<lparr>sched_ready := sched_ready st, workers := (workers st)[i := ?w]\<rparr>"
    using step Checking by (simp add: worker_step_def set_worker_def)
  have held: "held (workers st ! i) = [x]" using Checking by simp
  note facts = recorded_facts [OF inv held held.simps(6)]
  have "status_of st d = Some DagCompleted \<or> dag_failed st d" if "d \<in> dag_deps sc x" for d
  proof -
    have "status_of st d \<noteq> None"
      using facts(5) [of d] edges_dependencies [OF ids facts(3)] that by (auto simp: released_def)
    then show ?thesis using inv(1) status_final(2) by (fastforce simp: sched_inv_def)
  qed
  moreover have "set (sched_failed st) = {d. dag_failed st d}" using inv(1) by (simp add: sched_inv_def result_inv_def)
  ultimately have ok: "worker_ok sc st ?w" by (auto simp: list_ex_iff)
  show ?thesis by (rule sched_inv_move [OF inv st' _ ok]) (use Checking in simp)
next
  case (Skipping x)
  have held: "held (workers st ! i) = [x]" using Skipping by simp
  have "worker_ok sc st (Skipping x)" using inv Skipping by (metis nth_mem sched_inv_def)
  then have "outcome_ok sc st x (result_status (skip_result x ''dependency failed''))"
    by (simp add: outcome_ok_def skip_result_def)
  moreover have "st' = release_of adj x (recorded i Waiting x (skip_result x ''dependency failed'')
      (List.insert x (sched_failed st)) st)"
    using step Skipping by (simp add: worker_step_def Let_def release_recorded [symmetric] record_result_def)
  ultimately show ?thesis
    using finish_release [OF inv held _ _ _ _ adj, of "skip_result x ''dependency failed''"] by (simp add: skip_result_def)
next
  case (Running x)
  have w: "worker_ok sc st (Running x)" using inv Running by (metis nth_mem sched_inv_def)
  let ?nr = "run_dag_node (sched_nodes sc) x outs"
  have st': "st' = st\<lparr>sched_ready := sched_ready st, workers := (workers st)[i := Committing ?nr]\<rparr>"
    using step Running by (simp add: worker_step_def set_worker_def)
  have held: "held (workers st ! i) = [x]" using Running by simp
  have "x \<in> dag_ids sc" using recorded_facts(3) [OF inv held held.simps(6)] .
  then obtain n where n: "find_dag_node (sched_nodes sc) x = Some n"
    by (cases "find_dag_node (sched_nodes sc) x") (auto simp: find_dag_node_def find_None_iff)
  have nr: "result_id ?nr = x" "result_status ?nr = DagCompleted \<or> result_status ?nr = DagFailed"
    using run_attempts_props(2) [of "nat (retry_max_attempts n)" 0 "has_execute n" outs]
    by (simp_all add: run_dag_node_def n run_attempts_props(1))
  with w have ok: "worker_ok sc st (Committing ?nr)" by (auto simp: outcome_ok_def)
  show ?thesis by (rule sched_inv_move [OF inv st' _ ok]) (use Running nr in simp)
next
  case (Committing nr)
  with step commit_inv [OF inv Committing adj] show ?thesis by (simp add: worker_step_def)
next
  case Exited
  with step show ?thesis by (simp add: worker_step_def)
qed

lemma initial_sched_inv:
  assumes "seeds (fst (build_graph (sched_nodes sc))) q"
  shows "sched_inv sc (initial_sched_state sc q)"
proof -
  obtain deg adj where g: "build_graph (sched_nodes sc) = (deg, adj)" by fastforce
  have "inflight (replicate n Waiting) = []" for n by (induction n) (simp_all add: inflight_def)
  then show ?thesis
    using wave_seeds [OF assms]
    by (auto simp: sched_inv_def graph_inv_def result_inv_def initial_sched_state_def g tokens_def released_def status_of_def)
qed

lemma sched_reachable_inv:
  assumes "sched_reachable sc st" "distinct (map dag_id (sched_nodes sc))"
  shows "sched_inv sc st"
  using assms(1)
proof (induction rule: sched_reachable.induct)
  case (step st i outs st')
  then show ?case using worker_step_inv [OF assms(2) step.IH step.hyps(2,3) refl] by simp
qed (rule initial_sched_inv)

subsection \<open>The workers always come to an end\<close>

definition sched_step :: "scheduler \<Rightarrow> sched_state \<Rightarrow> sched_state \<Rightarrow> bool" where
  "sched_step sc st st' \<longleftrightarrow>
     (\<exists>i < length (workers st). \<exists>outs. worker_step sc (snd (build_graph (sched_nodes sc))) i outs st = Some st')"

fun worker_rank :: "worker \<Rightarrow> nat" where
  "worker_rank Exited = 0"
| "worker_rank Waiting = 1"
| "worker_rank (Committing nr) = 3"
| "worker_rank (Skipping x) = 4"
| "worker_rank (Running x) = 4"
| "worker_rank (Checking x) = 5"

definition sched_measure :: "scheduler \<Rightarrow> sched_state \<Rightarrow> nat" where
  "sched_measure sc st =
     5 * (length (sched_nodes sc) - (length (inflight (workers st)) + length (sched_results st))) +
     sum_list (map worker_rank (workers st))"

lemma rank_update:
  assumes "i < length ws"
  shows "sum_list (map worker_rank (ws[i := w])) + worker_rank (ws ! i) = sum_list (map worker_rank ws) + worker_rank w"
proof -
  have "sum_list (map worker_rank ws) =
      sum_list (map worker_rank (take i ws)) + worker_rank (ws ! i) + sum_list (map worker_rank (drop (Suc i) ws))"
    by (subst id_take_nth_drop [OF assms]) simp
  moreover have "sum_list (map worker_rank (ws[i := w])) =
      sum_list (map worker_rank (take i ws)) + worker_rank w + sum_list (map worker_rank (drop (Suc i) ws))"
    by (subst upd_conv_take_nth_drop [OF assms]) simp
  ultimately show ?thesis by simp
qed

lemma inflight_length:
  "i < length ws \<Longrightarrow> length (inflight (ws[i := w])) + length (held (ws ! i)) = length (inflight ws) + length (held w)"
  using arg_cong [OF inflight_update [of i ws w], of size] by simp

lemma tokens_length:
  assumes "sched_inv sc st"
  shows "length (tokens st) \<le> length (sched_nodes sc)"
proof -
  have "distinct (tokens st)" "set (tokens st) \<subseteq> dag_ids sc"
    using graph_invD(1,2) assms by (auto simp: sched_inv_def)
  then have "length (tokens st) \<le> card (dag_ids sc)" by (metis card_mono distinct_card finite_imageI finite_set)
  also have "\<dots> \<le> length (sched_nodes sc)" by (metis card_length length_map list.set_map)
  finally show ?thesis .
qed

lemma release_of_more [simp]:
  "workers (release_of adj x st) = workers st" "sched_results (release_of adj x st) = sched_results st"
  "completed_count (release_of adj x st) = completed_count st" "stop_requested (release_of adj x st) = stop_requested st"
  by (simp_all add: release_of_def split: prod.split)

lemma measure_finish:
  assumes "sched_inv sc st" "i < length (workers st)" "held (workers st ! i) = [x]" "held w = []"
    "workers st' = (workers st)[i := w]" "sched_results st' = insert_or_assign x nr (sched_results st)"
    "worker_rank w < worker_rank (workers st ! i)"
  shows "sched_measure sc st' < sched_measure sc st"
proof -
  have "length (sched_results st') = length (sched_results st) + 1"
    using recorded_facts(1) [OF assms(1-4)] assms(6) by (simp add: insert_fresh)
  moreover have "length (inflight (workers st')) + 1 = length (inflight (workers st))"
    using inflight_length [OF assms(2), of w] assms(3-5) by simp
  ultimately show ?thesis
    using rank_update [OF assms(2), of w] assms(5,7) by (simp add: sched_measure_def)
qed

lemma measure_move:
  assumes "i < length (workers st)" "workers st' = (workers st)[i := w]" "sched_results st' = sched_results st"
    "length (held w) = length (held (workers st ! i))" "worker_rank w < worker_rank (workers st ! i)"
  shows "sched_measure sc st' < sched_measure sc st"
  using inflight_length [OF assms(1), of w] rank_update [OF assms(1), of w] assms(2-5)
  by (simp add: sched_measure_def)

lemma worker_step_measure:
  assumes inv: "sched_inv sc st" "i < length (workers st)" and step: "worker_step sc adj i outs st = Some st'"
  shows "sched_measure sc st' < sched_measure sc st"
proof (cases "workers st ! i")
  case Waiting
  show ?thesis
  proof (cases "stop_requested st \<or> completed_count st = length (sched_nodes sc)")
    case True
    with Waiting step have "st' = st\<lparr>workers := (workers st)[i := Exited]\<rparr>" by (simp add: worker_step_def set_worker_def)
    then show ?thesis by (intro measure_move [OF inv(2), of _ Exited]) (simp_all add: Waiting)
  next
    case False
    with Waiting step obtain x q where q: "sched_ready st = x # q"
      and st': "workers st' = (workers st)[i := Checking x]" "sched_results st' = sched_results st"
      by (auto simp: worker_step_def set_worker_def split: list.splits)
    have "length (inflight (workers st)) + length (sched_results st) < length (sched_nodes sc)"
      using tokens_length [OF inv(1)] by (simp add: tokens_def q keys_of_def)
    then show ?thesis
      using inflight_length [OF inv(2), of "Checking x"] rank_update [OF inv(2), of "Checking x"] st' Waiting
      by (simp add: sched_measure_def)
  qed
next
  case (Checking x)
  with step obtain w where "st' = st\<lparr>workers := (workers st)[i := w]\<rparr>" "w = Skipping x \<or> w = Running x"
    by (auto simp: worker_step_def set_worker_def split: if_splits)
  then show ?thesis using Checking by (intro measure_move [OF inv(2), of _ w]) auto
next
  case (Skipping x)
  with step show ?thesis
    by (intro measure_finish [OF inv, of x Waiting _ "skip_result x ''dependency failed''"])
      (auto simp: worker_step_def Let_def set_worker_def record_result_def)
next
  case (Running x)
  have "result_id (run_dag_node (sched_nodes sc) x outs) = x"
    by (simp add: run_dag_node_def run_attempts_props(1) split: option.split)
  with Running step show ?thesis
    by (intro measure_move [OF inv(2), of _ "Committing (run_dag_node (sched_nodes sc) x outs)"])
      (auto simp: worker_step_def set_worker_def)
next
  case (Committing nr)
  with step have st': "st' = commit sc adj i nr st" by (simp add: worker_step_def)
  then obtain w where "workers st' = (workers st)[i := w]" "w = Waiting \<or> w = Exited"
    by (auto simp: commit_def Let_def set_worker_def record_result_def split: if_splits)
  moreover have "sched_results st' = insert_or_assign (result_id nr) nr (sched_results st)"
    unfolding st' by (simp add: commit_def Let_def set_worker_def record_result_def)
  ultimately show ?thesis
    using Committing by (intro measure_finish [OF inv, of "result_id nr" w]) auto
next
  case Exited
  with step show ?thesis by (simp add: worker_step_def)
qed

subsection \<open>The workers never block each other\<close>

lemma settled_closed:
  assumes "settled es ids x" "S = {x \<in> ids. remaining es S x = 0}"
  shows "x \<in> S"
  using assms(1)
proof (induction rule: settled.induct)
  case (settle x)
  then have "remaining es S x = 0" unfolding remaining_zero by blast
  with settle(1) assms(2) show ?case by blast
qed

lemma idle_finished:
  assumes "sched_inv sc st" "proper_dag (sched_nodes sc)" "inflight (workers st) = []" "sched_ready st = []"
    "\<not> stop_requested st"
  shows "completed_count st = length (sched_nodes sc)"
proof -
  let ?S = "set (keys_of (sched_results st))" and ?es = "dag_edges (sched_nodes sc)"
  have inv: "graph_inv sc st" "result_inv sc st" using assms(1) by (simp_all add: sched_inv_def)
  have "x \<in> ?S \<longleftrightarrow> status_of st x \<noteq> None" for x by (simp add: status_of_def map_of_eq_None_keys)
  moreover have "\<not> (sched_mode sc = FailFast \<and> status_of st x = Some DagFailed)" for x
    using inv(2) assms(5) by (auto simp: result_inv_def)
  ultimately have "released sc st = ?S" by (auto simp: released_def)
  then have S: "?S = {x \<in> dag_ids sc. remaining ?es ?S x = 0}" "distinct (keys_of (sched_results st))"
    using inv(1) assms(3,4) by (simp_all add: graph_inv_def wave_def tokens_def)
  have "\<forall>x \<in> dag_ids sc. settled ?es (dag_ids sc) x"
    using assms(2) unfolding proper_dag_settled by blast
  then have "?S = dag_ids sc" using settled_closed [OF _ S(1)] S(1) by blast
  then have "length (keys_of (sched_results st)) = card (dag_ids sc)" using S(2) distinct_card by metis
  also have "\<dots> = length (sched_nodes sc)"
    using assms(2) distinct_card [of "map dag_id (sched_nodes sc)"] by (simp add: proper_dag_def)
  finally show ?thesis using inv(2) by (simp add: result_inv_def keys_of_def)
qed

lemma sched_progress:
  assumes "sched_inv sc st" "proper_dag (sched_nodes sc)" "\<not> all_exited st"
  shows "\<exists>st'. sched_step sc st st'"
proof -
  have step: "\<exists>st'. sched_step sc st st'" if "i < length (workers st)" "worker_step sc (snd (build_graph (sched_nodes sc))) i undefined st \<noteq> None" for i
    using that by (auto simp: sched_step_def)
  show ?thesis
  proof (cases "\<exists>w \<in> set (workers st). w \<noteq> Waiting \<and> w \<noteq> Exited")
    case True
    then obtain i where "i < length (workers st)" "workers st ! i \<noteq> Waiting" "workers st ! i \<noteq> Exited"
      by (metis in_set_conv_nth)
    then show ?thesis by (intro step [of i]) (simp_all add: worker_step_def Let_def split: worker.split)
  next
    case False
    then have "inflight (workers st) = []" by (auto simp: inflight_def)
    then have "stop_requested st \<or> completed_count st = length (sched_nodes sc) \<or> sched_ready st \<noteq> []"
      using idle_finished [OF assms(1,2)] by blast
    moreover have "Waiting \<in> set (workers st)" using assms(3) False by (auto simp: all_exited_def list_all_iff)
    then obtain i where "i < length (workers st)" "workers st ! i = Waiting" by (metis in_set_conv_nth)
    ultimately show ?thesis by (intro step [of i]) (auto simp: worker_step_def split: list.split)
  qed
qed

interpretation sched: terminating_system
  "\<lambda>(sc, st) (sc', st'). sc' = sc \<and> sched_step sc st st'"
  "\<lambda>(sc, st). proper_dag (sched_nodes sc) \<and> sched_inv sc st"
  "\<lambda>(sc, st). sched_measure sc st" "\<lambda>(sc, st). all_exited st"
proof (unfold_locales, goal_cases)
  case (1 s s')
  then show ?case by (auto simp: sched_step_def proper_dag_def dest: worker_step_inv [OF _ _ _ _ refl])
next
  case (2 s s')
  then show ?case by (auto simp: sched_step_def dest: worker_step_measure)
next
  case (3 s)
  then show ?case using sched_progress by fastforce
qed

text \<open>Reachable states, as runs of the system.\<close>

lemma sched_reachable_iff:
  "sched_reachable sc st \<longleftrightarrow>
    (\<exists>q. seeds (fst (build_graph (sched_nodes sc))) q \<and> (sched_step sc)\<^sup>*\<^sup>* (initial_sched_state sc q) st)"
proof
  show "sched_reachable sc st \<Longrightarrow>
      \<exists>q. seeds (fst (build_graph (sched_nodes sc))) q \<and> (sched_step sc)\<^sup>*\<^sup>* (initial_sched_state sc q) st"
    by (induction rule: sched_reachable.induct) (auto simp: sched_step_def intro: rtranclp.rtrancl_into_rtrancl)
next
  assume "\<exists>q. seeds (fst (build_graph (sched_nodes sc))) q \<and> (sched_step sc)\<^sup>*\<^sup>* (initial_sched_state sc q) st"
  then obtain q where q: "seeds (fst (build_graph (sched_nodes sc))) q"
    and run: "(sched_step sc)\<^sup>*\<^sup>* (initial_sched_state sc q) st" by blast
  from run show "sched_reachable sc st"
    by (induction rule: rtranclp_induct) (auto simp: sched_step_def intro: sched_reachable.intros q)
qed

lemma sched_run_pair:
  "(\<lambda>(sc, st) (sc', st'). sc' = sc \<and> sched_step sc st st')\<^sup>*\<^sup>* (sc, st) (sc', st') \<Longrightarrow> sc' = sc \<and> (sched_step sc)\<^sup>*\<^sup>* st st'"
  by (induction "(sc', st')" arbitrary: sc' st' rule: rtranclp_induct) (auto intro: rtranclp.rtrancl_into_rtrancl)

lemma sched_joins:
  assumes "proper_dag (sched_nodes sc)" "sched_reachable sc st"
  shows "\<exists>st'. (sched_step sc)\<^sup>*\<^sup>* st st' \<and> all_exited st'"
proof -
  have "sched_inv sc st" using sched_reachable_inv assms by (simp add: proper_dag_def)
  with sched.reaches_final [of "(sc, st)"] assms(1) sched_run_pair show ?thesis by fastforce
qed

lemma sched_no_infinite_run:
  assumes "proper_dag (sched_nodes sc)" "seeds (fst (build_graph (sched_nodes sc))) q" "run 0 = initial_sched_state sc q"
  shows "\<exists>k. \<not> sched_step sc (run k) (run (Suc k))"
  using sched.no_infinite_run [of "\<lambda>k. (sc, run k)"] assms initial_sched_inv [OF assms(2)] by simp

lemma executes_returns: "\<exists>r. executes sc r"
proof (cases "validate_dag (sched_nodes sc)")
  case True
  let ?q = "seed_queue (fst (build_graph (sched_nodes sc)))"
  obtain st where "(sched_step sc)\<^sup>*\<^sup>* (initial_sched_state sc ?q) st" "all_exited st"
    using sched_joins [OF _ sched_reachable.start [of sc ?q]] True by (auto simp: validate_dag_iff)
  moreover from this(1) have "sched_reachable sc st" using seeds_refl unfolding sched_reachable_iff by blast
  ultimately show ?thesis using True executes.joined by blast
qed (blast intro: executes.invalid)

subsection \<open>The result of an execution\<close>

lemma worker_step_length: "worker_step sc adj i outs st = Some st' \<Longrightarrow> length (workers st') = length (workers st)"
  by (auto simp: worker_step_def set_worker_def commit_def record_result_def Let_def split: worker.splits if_splits list.splits)

lemma sched_reachable_workers:
  "sched_reachable sc st \<Longrightarrow> length (workers st) = min (thread_count sc) (length (sched_nodes sc))"
proof (induction rule: sched_reachable.induct)
  case start
  then show ?case by (simp add: initial_sched_state_def split: prod.split)
next
  case (step st i outs st')
  with worker_step_length show ?case by metis
qed

definition final_result :: "sched_state \<Rightarrow> string \<Rightarrow> dag_result" where
  "final_result st x = (case map_of (sched_results st) x of
     Some nr \<Rightarrow> nr | None \<Rightarrow> skip_result x ''execution stopped before scheduling'')"

lemma collect_results_final:
  "dag_results (collect_results sc st) = map (\<lambda>n. final_result st (dag_id n)) (sched_nodes sc)"
  "sched_success (collect_results sc st) = (sched_failed st = [])"
  by (simp_all add: collect_results_def final_result_def)

lemma final_result_id: "sched_inv sc st \<Longrightarrow> result_id (final_result st x) = x"
  by (auto simp: final_result_def skip_result_def sched_inv_def result_inv_def split: option.split)

lemma final_result_status:
  "result_status (final_result st x) = (case status_of st x of Some s \<Rightarrow> s | None \<Rightarrow> DagSkipped)"
  by (simp add: final_result_def status_of_def skip_result_def split: option.split)

lemma result_complete:
  assumes "sched_reachable sc st" "proper_dag (sched_nodes sc)" "all_exited st" "0 < thread_count sc"
    "\<not> stop_requested st" "x \<in> dag_ids sc"
  shows "status_of st x \<noteq> None"
proof -
  have inv: "sched_inv sc st" using sched_reachable_inv assms(1,2) by (simp add: proper_dag_def)
  have "length (workers st) > 0" using sched_reachable_workers [OF assms(1)] assms(4,6) by auto
  then obtain w where "w \<in> set (workers st)" by (meson nth_mem)
  with assms(3,5) inv have "completed_count st = length (sched_nodes sc)"
    by (force simp: all_exited_def list_all_iff sched_inv_def)
  then have len: "length (keys_of (sched_results st)) = length (sched_nodes sc)"
    using inv by (simp add: sched_inv_def result_inv_def keys_of_def)
  have "distinct (keys_of (sched_results st))" "set (keys_of (sched_results st)) \<subseteq> dag_ids sc"
    using graph_invD(1,2) [of sc st] inv by (auto simp: sched_inv_def tokens_def)
  moreover have "card (dag_ids sc) \<le> length (sched_nodes sc)" by (metis card_length length_map list.set_map)
  ultimately have "set (keys_of (sched_results st)) = dag_ids sc"
    using len distinct_card by (metis card_seteq finite_imageI finite_set)
  with assms(6) show ?thesis by (simp add: status_of_def map_of_eq_None_keys)
qed

lemma execution_success:
  assumes "sched_reachable sc st" "proper_dag (sched_nodes sc)" "all_exited st" "0 < thread_count sc"
  shows "sched_failed st = [] \<longleftrightarrow> (\<forall>x \<in> dag_ids sc. result_status (final_result st x) = DagCompleted)"
proof -
  have inv: "sched_inv sc st" using sched_reachable_inv assms(1,2) by (simp add: proper_dag_def)
  then have failed: "set (sched_failed st) = {x. dag_failed st x}" by (simp add: sched_inv_def result_inv_def)
  have known: "x \<in> dag_ids sc" if "status_of st x \<noteq> None" for x
    using that graph_invD(2) [of sc st] inv by (auto simp: sched_inv_def tokens_def status_of_def map_of_eq_None_keys)
  show ?thesis
  proof
    assume "sched_failed st = []"
    then have none: "\<not> dag_failed st x" for x using failed by auto
    then have "\<not> stop_requested st" using inv by (auto simp: sched_inv_def result_inv_def)
    then show "\<forall>x \<in> dag_ids sc. result_status (final_result st x) = DagCompleted"
      using result_complete [OF assms] none status_final(2) inv
      by (fastforce simp: final_result_status sched_inv_def split: option.split)
  next
    assume all: "\<forall>x \<in> dag_ids sc. result_status (final_result st x) = DagCompleted"
    have "\<not> dag_failed st x" for x
    proof
      assume f: "dag_failed st x"
      then have "x \<in> dag_ids sc" using known [of x] by auto
      with all have "result_status (final_result st x) = DagCompleted" by blast
      with f show False by (auto simp: final_result_status)
    qed
    with failed show "sched_failed st = []" by auto
  qed
qed

lemma execution_outcomes:
  assumes "sched_reachable sc st" "proper_dag (sched_nodes sc)" "x \<in> dag_ids sc"
  shows "result_status (final_result st x) = DagCompleted \<Longrightarrow> d \<in> dag_deps sc x \<Longrightarrow>
      result_status (final_result st d) = DagCompleted"
    and "result_status (final_result st x) = DagSkipped \<Longrightarrow> status_of st x \<noteq> None \<Longrightarrow>
      \<exists>d \<in> dag_deps sc x. dag_failed st d"
proof -
  have inv: "result_inv sc st" using sched_reachable_inv assms(1,2) by (simp add: proper_dag_def sched_inv_def)
  show "result_status (final_result st d) = DagCompleted"
    if "result_status (final_result st x) = DagCompleted" "d \<in> dag_deps sc x"
    using that status_final(1) [OF inv, of x DagCompleted]
    by (auto simp: final_result_status outcome_ok_def split: option.splits)
  show "\<exists>d \<in> dag_deps sc x. dag_failed st d" if "result_status (final_result st x) = DagSkipped" "status_of st x \<noteq> None"
    using that status_final(1) [OF inv, of x DagSkipped]
    by (auto simp: final_result_status outcome_ok_def split: option.splits)
qed

text \<open>\<open>FailGraceful\<close> is not told apart from \<open>ContinueOnError\<close>.\<close>

lemma fail_graceful_step:
  "worker_step (sc\<lparr>sched_mode := FailGraceful\<rparr>) adj i outs st = worker_step (sc\<lparr>sched_mode := ContinueOnError\<rparr>) adj i outs st"
  by (simp add: worker_step_def commit_def Let_def split: worker.split)

lemma fail_graceful_reachable:
  "sched_reachable (sc\<lparr>sched_mode := FailGraceful\<rparr>) st \<longleftrightarrow> sched_reachable (sc\<lparr>sched_mode := ContinueOnError\<rparr>) st"
proof -
  have init: "initial_sched_state (sc\<lparr>sched_mode := m\<rparr>) q = initial_sched_state sc q" for m q
    by (simp add: initial_sched_state_def)
  have "sched_reachable (sc\<lparr>sched_mode := m'\<rparr>) st"
    if "sched_reachable (sc\<lparr>sched_mode := m\<rparr>) st" "{m, m'} = {FailGraceful, ContinueOnError}" for m m'
    using that(1)
  proof (induction rule: sched_reachable.induct)
    case (start q)
    then have "sched_reachable (sc\<lparr>sched_mode := m'\<rparr>) (initial_sched_state (sc\<lparr>sched_mode := m'\<rparr>) q)"
      by (intro sched_reachable.start) simp
    then show ?case by (simp only: init)
  next
    case (step st i outs st')
    then have "worker_step (sc\<lparr>sched_mode := m'\<rparr>) (snd (build_graph (sched_nodes sc))) i outs st = Some st'"
      using that(2) fail_graceful_step [of sc] by (auto simp: doubleton_eq_iff)
    then have "worker_step (sc\<lparr>sched_mode := m'\<rparr>) (snd (build_graph (sched_nodes (sc\<lparr>sched_mode := m'\<rparr>)))) i outs st = Some st'"
      by simp
    with step.IH step.hyps(2) show ?case by (rule sched_reachable.step)
  qed
  then show ?thesis by blast
qed

lemma executes_iff:
  "executes sc r \<longleftrightarrow>
    (if validate_dag (sched_nodes sc) then \<exists>st. sched_reachable sc st \<and> all_exited st \<and> r = collect_results sc st
     else r = \<lparr>sched_success = False, dag_results = []\<rparr>)"
  by (auto elim: executes.cases intro: executes.intros)

lemma fail_graceful_executes:
  "executes (sc\<lparr>sched_mode := FailGraceful\<rparr>) r \<longleftrightarrow> executes (sc\<lparr>sched_mode := ContinueOnError\<rparr>) r"
  unfolding executes_iff fail_graceful_reachable by (simp add: collect_results_def)

end
