(* ===== verification/Demo_Components.thy ===== *)
theory Demo_Components
  imports Scheduler_Safety
begin

section \<open>Concrete inputs for the other components\<close>

text \<open>
  Small inputs on which the witnesses of the properties outside the runtime evaluate the
  definitions. Nothing here models code.
\<close>

definition demo_scheduler :: scheduler where
  "demo_scheduler =
     add_node \<lparr>dag_id = ''b'', dependencies = [''a''], has_execute = True, retry_max_attempts = 2\<rparr>
       (add_node \<lparr>dag_id = ''a'', dependencies = [], has_execute = True, retry_max_attempts = 1\<rparr>
         (new_scheduler 4 ContinueOnError))"

end
