(* ===== verification/Double_Rounding.thy ===== *)
theory Double_Rounding
  imports Complex_Main Cxx_Double
begin

section \<open>Correct rounding of the double model\<close>

text \<open>
  \<open>round_quot\<close> returns the double nearest to a positive rational number: whenever the number
  lies strictly inside the rounding interval of a double, that double is the result. The
  interval is half a unit in the last place to both sides, and a quarter of a unit below a
  power of two, where the doubles are twice as dense.
\<close>

lemma bit_len_bounds: "0 < n \<Longrightarrow> 2 ^ (bit_len n - 1) \<le> n \<and> n < 2 ^ bit_len n \<and> 0 < bit_len n"
proof (induction n rule: bit_len.induct)
  case (1 n)
  show ?case
  proof (cases "n = 1")
    case True
    then show ?thesis by (simp add: bit_len.simps [of 1] bit_len.simps [of 0])
  next
    case False
    then have h: "0 < n div 2" using "1.prems" by simp
    have len: "bit_len n = Suc (bit_len (n div 2))"
      using "1.prems" by (simp add: bit_len.simps [of n])
    from "1.IH" h "1.prems"
    have ih: "2 ^ (bit_len (n div 2) - 1) \<le> n div 2" "n div 2 < 2 ^ bit_len (n div 2)"
      "0 < bit_len (n div 2)" by simp_all
    have "2 ^ bit_len (n div 2) = 2 * (2 ^ (bit_len (n div 2) - 1) :: int)"
      using ih(3) by (cases "bit_len (n div 2)") simp_all
    moreover have "2 * (n div 2) \<le> n" "n \<le> 2 * (n div 2) + 1" by presburger+
    ultimately show ?thesis using ih(1,2) by (simp add: len)
  qed
qed

lemma bit_len_real:
  assumes "0 < n"
  shows "2 powi (int (bit_len n) - 1) \<le> real_of_int n" "real_of_int n < 2 powi int (bit_len n)"
proof -
  note b = bit_len_bounds [OF assms]
  have "real_of_int (2 ^ (bit_len n - 1)) \<le> real_of_int n" using b by linarith
  moreover have "2 powi (int (bit_len n) - 1) = (2::real) ^ (bit_len n - 1)"
    using b by (simp add: power_int_def nat_diff_distrib)
  ultimately show "2 powi (int (bit_len n) - 1) \<le> real_of_int n" by simp
  have "real_of_int n < real_of_int (2 ^ bit_len n)" using b by linarith
  then show "real_of_int n < 2 powi int (bit_len n)" by simp
qed

lemma quot_exp_test:
  assumes "0 < b"
  shows "(if 0 \<le> t then b * 2 ^ nat t \<le> a else b \<le> a * 2 ^ nat (- t)) \<longleftrightarrow>
    2 powi t \<le> real_of_int a / real_of_int b"
proof (cases "0 \<le> t")
  case True
  have "2 powi t \<le> real_of_int a / real_of_int b \<longleftrightarrow>
      real_of_int (b * 2 ^ nat t) \<le> real_of_int a"
    using assms True by (simp add: power_int_def pos_le_divide_eq mult.commute)
  then show ?thesis using True by (simp only: of_int_le_iff if_True)
next
  case False
  have "2 powi t \<le> real_of_int a / real_of_int b \<longleftrightarrow>
      real_of_int b \<le> real_of_int (a * 2 ^ nat (- t))"
    using assms False by (simp add: power_int_def pos_le_divide_eq field_simps)
  then show ?thesis using False by (simp only: of_int_le_iff if_False)
qed

lemma quot_exp_bounds:
  assumes "0 < a" "0 < b"
  defines "x \<equiv> real_of_int a / real_of_int b"
  shows "2 powi quot_exp a b \<le> x" "x < 2 powi (quot_exp a b + 1)"
proof -
  define t where "t = int (bit_len a) - int (bit_len b)"
  have q: "quot_exp a b = (if 2 powi t \<le> x then t else t - 1)"
    unfolding quot_exp_def Let_def t_def [symmetric] x_def quot_exp_test [OF assms(2)] ..
  note la = bit_len_real [OF assms(1)] and lb = bit_len_real [OF assms(2)]
  have split: "2 powi (i - j) = 2 powi i / (2::real) powi j" for i j :: int
    by (simp add: power_int_diff)
  have "x < 2 powi int (bit_len a) / 2 powi (int (bit_len b) - 1)"
    unfolding x_def using la lb assms by (intro frac_less) auto
  also have "\<dots> = 2 powi (int (bit_len a) - (int (bit_len b) - 1))" by (simp only: split)
  also have "int (bit_len a) - (int (bit_len b) - 1) = t + 1" by (simp add: t_def)
  finally have hi: "x < 2 powi (t + 1)" .
  have "2 powi (t - 1) = 2 powi (int (bit_len a) - 1) / (2::real) powi int (bit_len b)"
    by (simp only: t_def split [symmetric]) (simp add: algebra_simps)
  also have "\<dots> \<le> x" unfolding x_def using la lb assms by (intro frac_le) auto
  finally have lo: "2 powi (t - 1) \<le> x" .
  show "2 powi quot_exp a b \<le> x" "x < 2 powi (quot_exp a b + 1)"
    using lo hi by (auto simp: q)
qed

lemma pow2_less_imp: "(2::real) powi i < 2 powi j \<Longrightarrow> i < j"
  using power_int_increasing [of j i "2::real"] by (meson linorder_not_less numeral_le_one_iff one_le_numeral)

lemma quot_exp_unique:
  assumes "0 < a" "0 < b"
    and "2 powi t \<le> real_of_int a / real_of_int b" "real_of_int a / real_of_int b < 2 powi (t + 1)"
  shows "quot_exp a b = t"
proof -
  note q = quot_exp_bounds [OF assms(1,2)]
  have "2 powi t < (2::real) powi (quot_exp a b + 1)" using assms(3) q(2) by linarith
  moreover have "2 powi quot_exp a b < (2::real) powi (t + 1)" using assms(4) q(1) by linarith
  ultimately show ?thesis by (auto dest!: pow2_less_imp)
qed

lemma div_half_even_nearest:
  assumes "0 < den" "\<bar>2 * (num - m * den)\<bar> < den"
  shows "div_half_even num den = m"
proof (cases "m * den \<le> num")
  case True
  then have "num div den = m" "num mod den = num - m * den"
    using assms div_pos_pos_trivial [of "num - m * den" den]
      div_mult_self1 [of den "num - m * den" m] mod_pos_pos_trivial [of "num - m * den" den]
      mod_mult_self1 [of "num - m * den" m den]
    by (simp_all add: algebra_simps)
  then show ?thesis using assms True by (simp add: div_half_even_def Let_def)
next
  case False
  define r where "r = num - (m - 1) * den"
  have r: "0 \<le> r" "r < den" "den < 2 * r" using False assms by (simp_all add: r_def algebra_simps)
  have "num = r + (m - 1) * den" by (simp add: r_def)
  then have "num div den = m - 1" "num mod den = r" using r assms by simp_all
  then show ?thesis using r by (simp add: div_half_even_def Let_def)
qed

text \<open>The significand \<open>round_quot\<close> computes at the exponent \<open>e\<close>.\<close>

definition scaled_half_even :: "int \<Rightarrow> int \<Rightarrow> int \<Rightarrow> int" where
  "scaled_half_even a b e =
     (if 0 \<le> e then div_half_even a (b * 2 ^ nat e) else div_half_even (a * 2 ^ nat (- e)) b)"

lemma abs_half_int:
  assumes "\<bar>real_of_int z\<bar> < real_of_int d / 2"
  shows "\<bar>2 * z\<bar> < d"
proof -
  have "real_of_int \<bar>2 * z\<bar> < real_of_int d" using assms by simp
  then show ?thesis by (simp only: of_int_less_iff)
qed

lemma scaled_half_even_nearest:
  assumes "0 < b" "\<bar>real_of_int a / real_of_int b - real_of_int m * 2 powi e\<bar> < 2 powi e / 2"
  shows "scaled_half_even a b e = m"
proof (cases "0 \<le> e")
  case True
  define p where "p = (2::int) ^ nat e"
  have p: "0 < p" "2 powi e = real_of_int p" using True by (simp_all add: p_def power_int_def)
  have "\<bar>real_of_int a / real_of_int b - real_of_int m * real_of_int p\<bar> * real_of_int b
      < real_of_int p / 2 * real_of_int b"
    using assms p by (intro mult_strict_right_mono) auto
  also have "\<bar>real_of_int a / real_of_int b - real_of_int m * real_of_int p\<bar> * real_of_int b =
      \<bar>(real_of_int a / real_of_int b - real_of_int m * real_of_int p) * real_of_int b\<bar>"
    using assms(1) by (simp add: abs_mult)
  also have "(real_of_int a / real_of_int b - real_of_int m * real_of_int p) * real_of_int b =
      real_of_int (a - m * (b * p))"
    using assms(1) by (simp add: field_simps)
  finally have "\<bar>2 * (a - m * (b * p))\<bar> < b * p" by (intro abs_half_int) (simp add: mult.commute)
  then have "div_half_even a (b * p) = m"
    using assms(1) p by (intro div_half_even_nearest) simp_all
  then show ?thesis using True by (simp add: scaled_half_even_def p_def)
next
  case False
  define p where "p = (2::int) ^ nat (- e)"
  have p: "0 < p" "2 powi e = 1 / real_of_int p"
    using False by (simp_all add: p_def power_int_def field_simps)
  have "\<bar>real_of_int a / real_of_int b - real_of_int m * (1 / real_of_int p)\<bar> *
      real_of_int (b * p) < 1 / real_of_int p / 2 * real_of_int (b * p)"
    using assms p by (intro mult_strict_right_mono) auto
  also have "\<bar>real_of_int a / real_of_int b - real_of_int m * (1 / real_of_int p)\<bar> *
      real_of_int (b * p) =
      \<bar>(real_of_int a / real_of_int b - real_of_int m * (1 / real_of_int p)) * real_of_int (b * p)\<bar>"
    using assms(1) p by (simp add: abs_mult)
  also have "(real_of_int a / real_of_int b - real_of_int m * (1 / real_of_int p)) *
      real_of_int (b * p) = real_of_int (a * p - m * b)"
    using assms(1) p by (simp add: field_simps)
  also have "1 / real_of_int p / 2 * real_of_int (b * p) = real_of_int b / 2"
    using p by simp
  finally have "\<bar>2 * (a * p - m * b)\<bar> < b" by (rule abs_half_int)
  then have "div_half_even (a * p) b = m"
    using assms(1) by (intro div_half_even_nearest) simp_all
  then show ?thesis using False by (simp add: scaled_half_even_def p_def)
qed

lemma round_quot_scaled:
  "a \<noteq> 0 \<Longrightarrow> round_quot s a b =
    (let e = max (quot_exp a b - 52) (-1074) in pack_double s (scaled_half_even a b e) e)"
  by (simp add: round_quot_def scaled_half_even_def Let_def)

text \<open>The rounding interval of a positive double.\<close>

definition in_rounding_interval :: "real \<Rightarrow> int \<Rightarrow> int \<Rightarrow> bool" where
  "in_rounding_interval x m e \<longleftrightarrow>
     \<bar>x - real_of_int m * 2 powi e\<bar> < (if m = 2 ^ 52 then 2 powi e / 4 else 2 powi e / 2)"

text \<open>The double whose interval has the number is the result of rounding it.\<close>

lemma round_quot_normal_low:
  assumes "0 < a" "0 < b" "-1074 < e" "e \<le> 971"
    and "real_of_int a / real_of_int b < 2 ^ 52 * 2 powi e"
    and "2 ^ 52 * 2 powi e - 2 powi e / 4 < real_of_int a / real_of_int b"
  shows "round_quot s a b = DFin s (2 ^ 52) e"
proof -
  define x where "x = real_of_int a / real_of_int b"
  define u where "u = (2::real) powi (e - 1)"
  have u: "0 < u" "2 powi e = 2 * u" by (simp_all add: u_def power_int_diff)
  have x: "x < 2 ^ 53 * u" "2 ^ 53 * u - u / 2 < x" using assms(5,6) u by (simp_all add: x_def)
  have p: "2 powi (e + 51) = 2 ^ 52 * u" "2 powi (e + 52) = 2 ^ 53 * u"
    by (simp_all add: u_def power_int_add power_int_diff)
  have "quot_exp a b = e + 51"
    using x u p by (intro quot_exp_unique assms) (simp_all add: x_def [symmetric] add.commute [of 52])
  then have e: "max (quot_exp a b - 52) (-1074) = e - 1" using assms by simp
  have "scaled_half_even a b (e - 1) = 2 ^ 53"
    using x by (intro scaled_half_even_nearest assms) (simp add: x_def [symmetric] u_def [symmetric])
  with assms e show ?thesis by (simp add: round_quot_scaled pack_double_def)
qed

lemma round_quot_at:
  assumes "0 < a" "0 < b" "m < 2 ^ 53" "e \<le> 971"
    and "max (quot_exp a b - 52) (-1074) = e"
    and "in_rounding_interval (real_of_int a / real_of_int b) m e"
  shows "round_quot s a b = DFin s m e"
proof -
  have "(if m = 2 ^ 52 then 2 powi e / 4 else 2 powi e / 2) \<le> 2 powi e / (2::real)" by simp
  then have "\<bar>real_of_int a / real_of_int b - real_of_int m * 2 powi e\<bar> < 2 powi e / 2"
    using assms(6) unfolding in_rounding_interval_def by linarith
  then have "scaled_half_even a b e = m" using assms by (intro scaled_half_even_nearest)
  with assms show ?thesis by (simp add: round_quot_scaled pack_double_def)
qed

theorem round_quot_nearest:
  assumes "0 < a" "0 < b" "double_ok (DFin s m e)" "0 < m"
    and "in_rounding_interval (real_of_int a / real_of_int b) m e"
  shows "round_quot s a b = DFin s m e"
proof -
  define x where "x = real_of_int a / real_of_int b"
  have x0: "0 < x" using assms by (simp add: x_def)
  define u where "u = (2::real) powi e"
  have u: "0 < u" by (simp add: u_def)
  have hi: "x < (real_of_int m + 1 / 2) * u"
    and lo: "(real_of_int m - 1 / 2) * u < x"
    using assms(5) u by (auto simp: in_rounding_interval_def x_def [symmetric] u_def [symmetric]
        algebra_simps abs_less_iff split: if_splits)
  have shift: "2 powi (e + k) = u * 2 powi k" for k by (simp add: u_def power_int_add)
  consider (norm) "2 ^ 52 \<le> m" "m < 2 ^ 53" "-1074 \<le> e" "e \<le> 971" | (sub) "m < 2 ^ 52" "e = -1074"
    using assms(3) by (auto simp: double_ok_def)
  then show ?thesis
  proof cases
    case norm
    have top: "x < 2 ^ 53 * u"
    proof -
      have "real_of_int m + 1 / 2 \<le> 2 ^ 53" using norm by simp
      with hi u show ?thesis by (meson less_le_trans mult_right_mono less_imp_le)
    qed
    show ?thesis
    proof (cases "2 ^ 52 * u \<le> x")
      case True
      have "quot_exp a b = e + 52"
        using True top shift [of 52] shift [of 53]
        by (intro quot_exp_unique assms) (simp_all add: x_def [symmetric] algebra_simps)
      with norm assms show ?thesis by (intro round_quot_at) simp_all
    next
      case False
      have m: "m = 2 ^ 52"
      proof (rule ccontr)
        assume "m \<noteq> 2 ^ 52"
        with norm have "2 ^ 52 \<le> real_of_int m - 1 / 2" by simp
        with lo u False show False by (meson less_le_trans mult_right_mono less_imp_le not_le le_less_trans)
      qed
      have lo': "2 ^ 52 * u - u / 4 < x"
        using assms(5) unfolding in_rounding_interval_def m x_def [symmetric] u_def [symmetric]
        by (simp add: abs_if split: if_splits)
      show ?thesis
      proof (cases "e = -1074")
        case True
        have "x < 2 powi (e + 52)" using False shift [of 52] by (simp add: algebra_simps)
        with quot_exp_bounds(1) [OF assms(1,2)] have "quot_exp a b < e + 52"
          by (intro pow2_less_imp) (simp add: x_def)
        with norm assms True show ?thesis by (intro round_quot_at) simp_all
      next
        case e: False
        have "round_quot s a b = DFin s (2 ^ 52) e"
        proof (rule round_quot_normal_low [OF assms(1,2)])
          show "-1074 < e" "e \<le> 971" using e norm by simp_all
          show "real_of_int a / real_of_int b < 2 ^ 52 * 2 powi e"
            using False unfolding x_def u_def by simp
          show "2 ^ 52 * 2 powi e - 2 powi e / 4 < real_of_int a / real_of_int b"
            using lo' unfolding x_def u_def .
        qed
        with m show ?thesis by simp
      qed
    qed
  next
    case sub
    have "real_of_int m + 1 / 2 \<le> 2 ^ 52" using sub by simp
    with hi u have "x < 2 ^ 52 * u" by (meson less_le_trans mult_right_mono less_imp_le)
    then have "x < 2 powi (e + 52)" using shift [of 52] by (simp add: algebra_simps)
    with quot_exp_bounds(1) [OF assms(1,2)] have "quot_exp a b < e + 52"
      by (intro pow2_less_imp) (simp add: x_def)
    with sub assms show ?thesis by (intro round_quot_at) simp_all
  qed
qed

end
