(* ===== verification/Double_Text.thy ===== *)
theory Double_Text
  imports Double_Rounding
begin

section \<open>Doubles as text\<close>

text \<open>
  What the program uses of the C++ library to write and read a \<open>double\<close>:
  \<open>std::to_chars(buf, x, std::chars_format::general, 17)\<close>, which prints as \<open>printf("%.17g")\<close>
  does, and \<open>operator>>\<close> of a stream in the classic locale. The printed digits are the decimal
  number nearest to the exact value with 17 significant digits; the scanner rounds the exact
  decimal value once. The main lemma is that 17 digits are enough: scanning what was printed
  gives the same double, for every finite double, the subnormal ones and the zeros included.
\<close>

subsection \<open>The text of a decimal number\<close>

text \<open>
  The parts of a decimal number: the sign, the integer digits, the fraction digits (empty when
  there is no point) and the exponent (the mark, its sign and its digits).
\<close>

record num_parts =
  np_neg :: bool
  np_int :: string
  np_frac :: string
  np_exp :: "(char \<times> string \<times> string) option"

definition exp_part_text :: "(char \<times> string \<times> string) option \<Rightarrow> string" where
  "exp_part_text x = (case x of None \<Rightarrow> [] | Some (mark, sg, ds) \<Rightarrow> mark # sg @ ds)"

definition num_text :: "num_parts \<Rightarrow> string" where
  "num_text np =
     (if np_neg np then ''-'' else []) @ np_int np @
     (if np_frac np = [] then [] else CHR ''.'' # np_frac np) @ exp_part_text (np_exp np)"

definition exp_part_ok :: "(char \<times> string \<times> string) option \<Rightarrow> bool" where
  "exp_part_ok x =
     (case x of
        None \<Rightarrow> True
      | Some (mark, sg, ds) \<Rightarrow>
          mark \<in> {CHR ''e'', CHR ''E''} \<and> sg \<in> {[], ''+'', ''-''} \<and>
          list_all is_digit_char ds \<and> ds \<noteq> [])"

definition num_parts_ok :: "num_parts \<Rightarrow> bool" where
  "num_parts_ok np \<longleftrightarrow>
     list_all is_digit_char (np_int np) \<and> np_int np \<noteq> [] \<and>
     (hd (np_int np) = CHR ''0'' \<longrightarrow> np_int np = ''0'') \<and>
     list_all is_digit_char (np_frac np) \<and> exp_part_ok (np_exp np)"

definition exp_part_val :: "(char \<times> string \<times> string) option \<Rightarrow> int" where
  "exp_part_val x =
     (case x of
        None \<Rightarrow> 0
      | Some (mark, sg, ds) \<Rightarrow> if sg = ''-'' then - digits_val ds else digits_val ds)"

subsection \<open>Scanning\<close>

text \<open>The double nearest to \<open>(-1)^neg * n * 10^ex\<close>.\<close>

definition decimal_double :: "bool \<Rightarrow> int \<Rightarrow> int \<Rightarrow> double" where
  "decimal_double neg n ex =
     (if 0 \<le> ex then round_quot neg (n * 10 ^ nat ex) 1 else round_quot neg n (10 ^ nat (- ex)))"

definition num_double :: "num_parts \<Rightarrow> double" where
  "num_double np =
     decimal_double (np_neg np) (digits_val (np_int np @ np_frac np))
       (exp_part_val (np_exp np) - int (length (np_frac np)))"

definition scan_exp_part :: "string \<Rightarrow> ((char \<times> string \<times> string) option \<times> string) option" where
  "scan_exp_part s =
     (case s of
        [] \<Rightarrow> Some (None, [])
      | c # r \<Rightarrow>
          if c = CHR ''e'' \<or> c = CHR ''E''
          then (let sg = (case r of x # _ \<Rightarrow> if x = CHR ''-'' \<or> x = CHR ''+'' then [x] else []
                             | [] \<Rightarrow> []);
                    u = drop (length sg) r;
                    ds = takeWhile is_digit_char u
                in if ds = [] then None else Some (Some (c, sg, ds), dropWhile is_digit_char u))
          else Some (None, s))"

text \<open>
  \<open>stream >> value\<close> on a text that starts with a decimal number: the number and what is left
  of the text. The extraction fails when there is no number, when the exponent has no digit, and
  when the number is too large for the type.
\<close>

definition num_get_double :: "string \<Rightarrow> (double \<times> string) option" where
  "num_get_double t =
     (let neg = (case t of c # _ \<Rightarrow> c = CHR ''-'' | [] \<Rightarrow> False);
          u = (case t of c # r \<Rightarrow> if c = CHR ''-'' \<or> c = CHR ''+'' then r else t | [] \<Rightarrow> []);
          ip = takeWhile is_digit_char u;
          r1 = dropWhile is_digit_char u;
          fp = (case r1 of c # r \<Rightarrow> if c = CHR ''.'' then takeWhile is_digit_char r else [] | [] \<Rightarrow> []);
          r2 = (case r1 of c # r \<Rightarrow> if c = CHR ''.'' then dropWhile is_digit_char r else r1 | [] \<Rightarrow> [])
      in if ip = [] \<and> fp = [] then None
         else (case scan_exp_part r2 of
                 None \<Rightarrow> None
               | Some (x, r3) \<Rightarrow>
                   (case num_double \<lparr>np_neg = neg, np_int = ip, np_frac = fp, np_exp = x\<rparr> of
                      DFin s m e \<Rightarrow> Some (DFin s m e, r3)
                    | _ \<Rightarrow> None)))"

subsection \<open>Printing with 17 significant digits\<close>

function up_exp10 :: "int \<Rightarrow> nat" where
  "up_exp10 n = (if n < 10 then 0 else Suc (up_exp10 (n div 10)))"
  by pat_completeness auto
termination
  by (relation "measure nat") auto

function down_exp10 :: "int \<Rightarrow> int \<Rightarrow> nat" where
  "down_exp10 a b = (if a \<le> 0 \<or> b \<le> a then 0 else Suc (down_exp10 (10 * a) b))"
  by pat_completeness auto
termination
  by (relation "measure (\<lambda>(a, b). nat (b - a))") auto

declare up_exp10.simps [simp del] down_exp10.simps [simp del]

text \<open>The decimal exponent of \<open>a / b\<close>: \<open>10^x \<le> a / b < 10^(x+1)\<close>.\<close>

definition dec_exp :: "int \<Rightarrow> int \<Rightarrow> int" where
  "dec_exp a b = (if b \<le> a then int (up_exp10 (a div b)) else - int (down_exp10 a b))"

text \<open>The 17 digits, as a number between \<open>10^16\<close> and \<open>10^17\<close>, and the exponent of the first.\<close>

definition sig_round :: "int \<Rightarrow> int \<Rightarrow> int \<Rightarrow> int" where
  "sig_round a b x =
     (if x \<le> 16 then div_half_even (a * 10 ^ nat (16 - x)) b
      else div_half_even a (b * 10 ^ nat (x - 16)))"

definition sig_digits :: "int \<Rightarrow> int \<Rightarrow> int \<times> int" where
  "sig_digits a b =
     (let x = dec_exp a b; n = sig_round a b x
      in if n = 10 ^ 17 then (10 ^ 16, x + 1) else (n, x))"

definition strip_zeros :: "string \<Rightarrow> string" where
  "strip_zeros s = rev (dropWhile (\<lambda>c. c = CHR ''0'') (rev s))"

definition exp_digits :: "int \<Rightarrow> string" where
  "exp_digits x = (let t = nat_to_string (nat \<bar>x\<bar>) in if length t < 2 then CHR ''0'' # t else t)"

text \<open>The choice between the fixed and the exponent notation of \<open>%g\<close>.\<close>

definition general_parts :: "bool \<Rightarrow> string \<Rightarrow> int \<Rightarrow> num_parts" where
  "general_parts s ds x =
     (if x < -4 \<or> 17 \<le> x
      then \<lparr>np_neg = s, np_int = take 1 ds, np_frac = strip_zeros (drop 1 ds),
             np_exp = Some (CHR ''e'', if x < 0 then ''-'' else ''+'', exp_digits x)\<rparr>
      else if 0 \<le> x
      then \<lparr>np_neg = s, np_int = take (nat x + 1) ds, np_frac = strip_zeros (drop (nat x + 1) ds),
             np_exp = None\<rparr>
      else \<lparr>np_neg = s, np_int = ''0'',
             np_frac = strip_zeros (replicate (nat (- x - 1)) (CHR ''0'') @ ds), np_exp = None\<rparr>)"

definition finite_parts :: "bool \<Rightarrow> int \<Rightarrow> int \<Rightarrow> num_parts" where
  "finite_parts s m e =
     (if m = 0 then \<lparr>np_neg = s, np_int = ''0'', np_frac = [], np_exp = None\<rparr>
      else (case scale2 m e of
              (a, b) \<Rightarrow> (case sig_digits a b of
                          (n, x) \<Rightarrow> general_parts s (nat_to_string (nat n)) x)))"

definition to_chars_general :: "double \<Rightarrow> string" where
  "to_chars_general d =
     (case d of
        DNaN \<Rightarrow> ''nan''
      | DInf s \<Rightarrow> (if s then ''-inf'' else ''inf'')
      | DFin s m e \<Rightarrow> num_text (finite_parts s m e))"

subsection \<open>Scanning the parts\<close>

lemma digit_not_special:
  "is_digit_char c \<Longrightarrow> c \<noteq> CHR ''-'' \<and> c \<noteq> CHR ''+'' \<and> c \<noteq> CHR ''.'' \<and> c \<noteq> CHR ''e'' \<and> c \<noteq> CHR ''E''"
  by (auto simp: is_digit_char_def)

lemma not_digit [simp]:
  "\<not> is_digit_char (CHR ''.'')" "\<not> is_digit_char (CHR ''e'')" "\<not> is_digit_char (CHR ''E'')"
  "\<not> is_digit_char (CHR ''-'')" "\<not> is_digit_char (CHR ''+'')"
  by (simp_all add: is_digit_char_def)

definition no_digit_start :: "string \<Rightarrow> bool" where
  "no_digit_start r = (case r of [] \<Rightarrow> True | c # _ \<Rightarrow> \<not> is_digit_char c)"

lemma span_digits:
  assumes "list_all is_digit_char ds" "no_digit_start r"
  shows "takeWhile is_digit_char (ds @ r) = ds" "dropWhile is_digit_char (ds @ r) = r"
  using assms by (cases r; simp add: takeWhile_append2 list_all_iff no_digit_start_def)+

lemma scan_exp_part_text:
  assumes "exp_part_ok x" "no_digit_start r" "x = None \<Longrightarrow> r = []"
  shows "scan_exp_part (exp_part_text x @ r) = Some (x, r)"
proof (cases x)
  case None
  then show ?thesis using assms by (simp add: exp_part_text_def scan_exp_part_def)
next
  case (Some y)
  obtain mark sg ds where y: "y = (mark, sg, ds)" by (cases y)
  have ds: "list_all is_digit_char ds" "ds \<noteq> []" and mark: "mark = CHR ''e'' \<or> mark = CHR ''E''"
    and sg: "sg = [] \<or> sg = ''+'' \<or> sg = ''-''"
    using assms(1) Some y by (auto simp: exp_part_ok_def)
  note sp = span_digits [OF ds(1) assms(2)]
  obtain d t where dt: "ds = d # t" "is_digit_char d" using ds by (cases ds) auto
  have hd: "d \<noteq> CHR ''-''" "d \<noteq> CHR ''+''" using digit_not_special [OF dt(2)] by auto
  have sg': "(case sg @ ds @ r of x # _ \<Rightarrow> if x = CHR ''-'' \<or> x = CHR ''+'' then [x] else []
      | [] \<Rightarrow> []) = sg"
    using sg hd by (auto simp: dt(1))
  have "scan_exp_part (mark # sg @ ds @ r) = Some (Some (mark, sg, ds), r)"
    unfolding scan_exp_part_def list.case Let_def sg' using mark sp ds(2) by simp
  then show ?thesis by (simp add: Some y exp_part_text_def)
qed

lemma exp_part_text_no_digit:
  "exp_part_ok x \<Longrightarrow> no_digit_start (exp_part_text x)"
  "exp_part_ok x \<Longrightarrow> exp_part_text x \<noteq> CHR ''.'' # t"
  by (auto simp: exp_part_ok_def exp_part_text_def no_digit_start_def split: option.splits)

lemma num_get_double_text:
  assumes "num_parts_ok np"
  shows "num_get_double (num_text np) =
    (case num_double np of DFin s m e \<Rightarrow> Some (DFin s m e, []) | _ \<Rightarrow> None)"
proof -
  define X where "X = exp_part_text (np_exp np)"
  define F where "F = (if np_frac np = [] then [] else CHR ''.'' # np_frac np) @ X"
  have ip: "list_all is_digit_char (np_int np)" "np_int np \<noteq> []"
    and fp: "list_all is_digit_char (np_frac np)" and ex: "exp_part_ok (np_exp np)"
    using assms by (auto simp: num_parts_ok_def)
  obtain d t where dt: "np_int np = d # t" "is_digit_char d" using ip by (cases "np_int np") auto
  note hd = digit_not_special [OF dt(2)]
  have u: "num_text np = (if np_neg np then ''-'' else []) @ np_int np @ F"
    by (simp add: num_text_def F_def X_def)
  have neg: "(case num_text np of c # _ \<Rightarrow> c = CHR ''-'' | [] \<Rightarrow> False) = np_neg np"
    and rest: "(case num_text np of c # r \<Rightarrow> if c = CHR ''-'' \<or> c = CHR ''+'' then r else num_text np
      | [] \<Rightarrow> []) = np_int np @ F"
    using hd by (auto simp: u dt(1))
  note exX = exp_part_text_no_digit [OF ex, folded X_def]
  have nF: "no_digit_start F" using exX(1) by (auto simp: F_def no_digit_start_def)
  note spi = span_digits [OF ip(1) nF]
  note spf = span_digits [OF fp exX(1)]
  have frac: "(case F of c # r \<Rightarrow> if c = CHR ''.'' then takeWhile is_digit_char r else [] | [] \<Rightarrow> []) = np_frac np"
    and r2: "(case F of c # r \<Rightarrow> if c = CHR ''.'' then dropWhile is_digit_char r else F | [] \<Rightarrow> []) = X"
    using exX(2) spf by (auto simp: F_def split: list.splits)
  have sc: "scan_exp_part X = Some (np_exp np, [])"
    using scan_exp_part_text [OF ex, of "[]"] by (simp add: X_def no_digit_start_def)
  have np: "\<lparr>np_neg = np_neg np, np_int = np_int np, np_frac = np_frac np, np_exp = np_exp np\<rparr> = np"
    by simp
  show ?thesis
    unfolding num_get_double_def Let_def neg rest spi frac r2
    using ip(2) by (simp only: sc np option.case prod.case simp_thms if_False)
qed

subsection \<open>The digits are nearest\<close>

lemma up_exp10_bounds: "0 < n \<Longrightarrow> 10 ^ up_exp10 n \<le> n \<and> n < 10 * 10 ^ up_exp10 n"
proof (induction n rule: up_exp10.induct)
  case (1 n)
  show ?case
  proof (cases "n < 10")
    case True
    then show ?thesis using "1.prems" by (simp add: up_exp10.simps [of n])
  next
    case False
    then have ih: "10 ^ up_exp10 (n div 10) \<le> n div 10" "n div 10 < 10 * 10 ^ up_exp10 (n div 10)"
      using "1.IH" by simp_all
    have "10 * (n div 10) \<le> n" "n \<le> 10 * (n div 10) + 9" by presburger+
    with ih False show ?thesis by (simp add: up_exp10.simps [of n])
  qed
qed

lemma down_exp10_bounds:
  "0 < a \<Longrightarrow> 0 < b \<Longrightarrow> a < 10 * b \<Longrightarrow>
    b \<le> a * 10 ^ down_exp10 a b \<and> a * 10 ^ down_exp10 a b < 10 * b"
proof (induction a b rule: down_exp10.induct)
  case (1 a b)
  show ?case
  proof (cases "b \<le> a")
    case True
    then show ?thesis using "1.prems" by (simp add: down_exp10.simps [of a b])
  next
    case False
    then have "b \<le> 10 * a * 10 ^ down_exp10 (10 * a) b \<and> 10 * a * 10 ^ down_exp10 (10 * a) b < 10 * b"
      using "1.prems" by (intro "1.IH") simp_all
    then show ?thesis using False "1.prems" by (simp add: down_exp10.simps [of a b] ac_simps)
  qed
qed

lemma dec_exp_bounds:
  assumes "0 < a" "0 < b"
  defines "x \<equiv> real_of_int a / real_of_int b"
  shows "10 powi dec_exp a b \<le> x \<and> x < 10 * 10 powi dec_exp a b"
proof (cases "b \<le> a")
  case True
  define k where "k = up_exp10 (a div b)"
  have "0 < a div b" using True assms by (simp add: pos_imp_zdiv_pos_iff)
  note bd = up_exp10_bounds [OF this, folded k_def]
  have "10 ^ k * b \<le> a"
    using bd assms(2) mult_right_mono [of "10 ^ k" "a div b" b] pos_mod_sign [of b a]
      div_mult_mod_eq [of a b] by linarith
  moreover have "a < 10 * 10 ^ k * b"
    using bd assms(2) mult_right_mono [of "a div b + 1" "10 * 10 ^ k" b] pos_mod_bound [of b a]
      div_mult_mod_eq [of a b] distrib_right [of "a div b" 1 b] by linarith
  ultimately have "real_of_int (10 ^ k * b) \<le> real_of_int a" "real_of_int a < real_of_int (10 * 10 ^ k * b)"
    by linarith+
  moreover have "dec_exp a b = int k" using True by (simp add: dec_exp_def k_def)
  ultimately show ?thesis using assms by (simp add: field_simps)
next
  case False
  define k where "k = down_exp10 a b"
  have bd: "b \<le> a * 10 ^ k" "a * 10 ^ k < 10 * b"
    using down_exp10_bounds [OF assms(1,2)] False assms by (simp_all add: k_def)
  then have "real_of_int b \<le> real_of_int (a * 10 ^ k)" "real_of_int (a * 10 ^ k) < real_of_int (10 * b)"
    by linarith+
  moreover have "dec_exp a b = - int k" using False by (simp add: dec_exp_def k_def)
  ultimately show ?thesis using assms by (simp add: power_int_minus field_simps)
qed

lemma div_half_even_error:
  assumes "0 < den"
  shows "\<bar>real_of_int num / real_of_int den - real_of_int (div_half_even num den)\<bar> \<le> 1 / 2"
proof -
  define q r where "q = num div den" and "r = num mod den"
  have r: "0 \<le> r" "r < den" and num: "num = q * den + r" using assms by (simp_all add: q_def r_def)
  have "\<bar>2 * (num - div_half_even num den * den)\<bar> \<le> den"
    using r by (simp add: div_half_even_def Let_def q_def [symmetric] r_def [symmetric])
      (simp add: num algebra_simps)
  then have "2 * \<bar>num - div_half_even num den * den\<bar> \<le> den" by (simp add: abs_if split: if_splits)
  then have "real_of_int (2 * \<bar>num - div_half_even num den * den\<bar>) \<le> real_of_int den" by linarith
  then have "2 * \<bar>real_of_int num - real_of_int (div_half_even num den) * real_of_int den\<bar> \<le> real_of_int den"
    by simp
  also have "real_of_int num - real_of_int (div_half_even num den) * real_of_int den =
      (real_of_int num / real_of_int den - real_of_int (div_half_even num den)) * real_of_int den"
    using assms by (simp add: field_simps)
  finally show ?thesis using assms by (simp add: abs_mult)
qed

lemma sig_round_error:
  assumes "0 < b"
  shows "\<bar>real_of_int a / real_of_int b / 10 powi (x - 16) - real_of_int (sig_round a b x)\<bar> \<le> 1 / 2"
proof (cases "x \<le> 16")
  case True
  have "10 powi (x - 16) = 1 / (10::real) ^ nat (16 - x)"
    using True power_int_minus [of "10::real" "16 - x"] by (simp add: power_int_def field_simps)
  then show ?thesis
    using div_half_even_error [OF assms, of "a * 10 ^ nat (16 - x)"] True by (simp add: sig_round_def)
next
  case False
  have "10 powi (x - 16) = (10::real) ^ nat (x - 16)" using False by (simp add: power_int_def)
  then show ?thesis
    using div_half_even_error [of "b * 10 ^ nat (x - 16)" a] False assms by (simp add: sig_round_def)
qed

lemma sig_digits_spec:
  assumes "0 < a" "0 < b" "sig_digits a b = (n, x)"
  defines "v \<equiv> real_of_int a / real_of_int b"
  shows "10 ^ 16 \<le> n \<and> n < 10 ^ 17 \<and> \<bar>v - real_of_int n * 10 powi (x - 16)\<bar> \<le> v / 10 ^ 16 / 2"
proof -
  define y where "y = dec_exp a b"
  define k where "k = sig_round a b y"
  define u where "u = (10::real) powi (y - 16)"
  have u: "0 < u" and yu: "10 powi y = u * 10 ^ 16" by (simp_all add: u_def power_int_diff)
  have bd: "u * 10 ^ 16 \<le> v" "v < u * 10 ^ 17"
    using dec_exp_bounds [OF assms(1,2)] by (simp_all add: y_def [symmetric] v_def [symmetric] yu)
  have err: "\<bar>v / u - real_of_int k\<bar> \<le> 1 / 2"
    using sig_round_error [OF assms(2), of a y] by (simp add: k_def u_def v_def)
  have lo: "10 ^ 16 \<le> v / u" and hi: "v / u < 10 ^ 17" using bd u by (simp_all add: field_simps)
  have k: "10 ^ 16 \<le> k" "k \<le> 10 ^ 17"
  proof -
    have "10 ^ 16 - 1 / 2 \<le> real_of_int k" using err lo by linarith
    then show "10 ^ 16 \<le> k" by simp
    have "real_of_int k < 10 ^ 17 + 1" using err hi by linarith
    then show "k \<le> 10 ^ 17" by simp
  qed
  have "v - real_of_int k * u = (v / u - real_of_int k) * u" using u by (simp add: left_diff_distrib)
  then have "\<bar>v - real_of_int k * u\<bar> = \<bar>(v / u - real_of_int k) * u\<bar>" by simp
  also have "\<dots> \<le> 1 / 2 * u" using err u by (simp add: abs_mult)
  also have "\<dots> \<le> v / 10 ^ 16 / 2" using bd(1) by simp
  finally have main: "\<bar>v - real_of_int k * u\<bar> \<le> v / 10 ^ 16 / 2" .
  have res: "(n, x) = (if k = 10 ^ 17 then (10 ^ 16, y + 1) else (k, y))"
    using assms(3) unfolding sig_digits_def Let_def y_def k_def by (rule sym)
  show ?thesis
  proof (cases "k = 10 ^ 17")
    case True
    have "10 powi (y + 1 - 16) = u * 10" by (simp add: u_def power_int_diff power_int_add)
    with res True main show ?thesis by (simp add: mult.commute mult.assoc)
  next
    case False
    with res main k show ?thesis by (auto simp: u_def)
  qed
qed

text \<open>Seventeen digits stay inside the rounding interval of the double.\<close>

lemma seventeen_digits_enough:
  assumes "double_ok (DFin s m e)" "0 < m"
    and "\<bar>real_of_int m * 2 powi e - y\<bar> \<le> real_of_int m * 2 powi e / 10 ^ 16 / 2"
  shows "in_rounding_interval y m e"
proof -
  define u where "u = (2::real) powi e"
  have u: "0 < u" by (simp add: u_def)
  have m: "m < 2 ^ 53" using assms(1) by (auto simp: double_ok_def)
  have d: "\<bar>y - real_of_int m * u\<bar> \<le> real_of_int m / 10 ^ 16 / 2 * u"
    using assms(3) by (simp add: u_def abs_minus_commute)
  show ?thesis
  proof (cases "m = 2 ^ 52")
    case True
    have "real_of_int m / 10 ^ 16 / 2 < 1 / 4" by (simp add: True)
    then have "real_of_int m / 10 ^ 16 / 2 * u < u / 4"
      using mult_strict_right_mono [of _ _ u] u by (metis mult.commute times_divide_eq_right mult.right_neutral)
    with d True show ?thesis by (simp add: in_rounding_interval_def u_def [symmetric])
  next
    case False
    have "real_of_int m < 2 ^ 53" using m by simp
    then have "real_of_int m / 10 ^ 16 / 2 < 1 / 2" by simp
    then have "real_of_int m / 10 ^ 16 / 2 * u < 1 / 2 * u" using u by (intro mult_strict_right_mono)
    with d have "\<bar>y - real_of_int m * u\<bar> < u / 2" by linarith
    with False show ?thesis by (simp add: in_rounding_interval_def u_def [symmetric])
  qed
qed

subsection \<open>The digits as text\<close>

lemma strip_zeros_append: "\<exists>k. s = strip_zeros s @ replicate k (CHR ''0'')"
proof -
  have "rev s = takeWhile (\<lambda>c. c = CHR ''0'') (rev s) @ dropWhile (\<lambda>c. c = CHR ''0'') (rev s)"
    by simp
  then have "s = strip_zeros s @ rev (takeWhile (\<lambda>c. c = CHR ''0'') (rev s))"
    unfolding strip_zeros_def by (metis rev_append rev_rev_ident)
  moreover have "\<exists>k. takeWhile (\<lambda>c. c = CHR ''0'') t = replicate k (CHR ''0'')" for t
    by (intro exI [of _ "length (takeWhile (\<lambda>c. c = CHR ''0'') t)"] replicate_length_same [symmetric])
      (auto dest: set_takeWhileD)
  ultimately show ?thesis by (metis rev_replicate)
qed

lemma digits_val_append: "digits_val (xs @ ys) = digits_val xs * 10 ^ length ys + digits_val ys"
proof (induction ys rule: rev_induct)
  case (snoc y ys)
  have "digits_val (zs @ [y]) = 10 * digits_val zs + digit_val y" for zs
    by (simp add: digits_val_def)
  from this [of "xs @ ys"] this [of ys] snoc show ?case by (simp add: algebra_simps)
qed (simp add: digits_val_def)

lemma digits_val_zeros [simp]: "digits_val (replicate k (CHR ''0'')) = 0"
  by (induction k) (simp_all add: digits_val_def digit_val_def)

lemma digits_val_single_zero [simp]: "digits_val ''0'' = 0"
  using digits_val_zeros [of 1] by simp

lemma digits_val_nonneg: "list_all is_digit_char ds \<Longrightarrow> 0 \<le> digits_val ds"
proof (induction ds rule: rev_induct)
  case (snoc d ds)
  then show ?case
    by (simp add: digits_val_append) (simp add: digits_val_def digit_val_def is_digit_char_def)
qed (simp add: digits_val_def)

lemma strip_zeros_value:
  "real_of_int (digits_val (ip @ strip_zeros fp)) * 10 powi (E - int (length (strip_zeros fp))) =
    real_of_int (digits_val (ip @ fp)) * 10 powi (E - int (length fp))"
proof -
  obtain k where k: "fp = strip_zeros fp @ replicate k (CHR ''0'')" using strip_zeros_append by blast
  define g where "g = strip_zeros fp"
  have "digits_val (ip @ fp) = digits_val (ip @ g) * 10 ^ k"
    using k by (simp add: digits_val_append g_def [symmetric] algebra_simps power_add)
  moreover have "int (length fp) = int (length g) + int k"
    using arg_cong [OF k, of length] by (simp add: g_def)
  moreover have "10 powi (E - int (length g)) = (10::real) ^ k * 10 powi (E - (int (length g) + int k))"
    by (simp add: power_int_diff power_int_add field_simps)
  ultimately show ?thesis by (simp add: g_def)
qed

lemma strip_zeros_digits: "list_all is_digit_char fp \<Longrightarrow> list_all is_digit_char (strip_zeros fp)"
  unfolding list_all_iff strip_zeros_def by (auto dest: set_dropWhileD)

lemma length_nat_to_string: "10 ^ k \<le> n \<Longrightarrow> n < 10 ^ Suc k \<Longrightarrow> length (nat_to_string n) = Suc k"
proof (induction k arbitrary: n)
  case 0
  then show ?case by (simp add: nat_to_string.simps [of n])
next
  case (Suc k)
  then have "10 ^ k \<le> n div 10" "n div 10 < 10 ^ Suc k" by (simp_all add: less_eq_div_iff_mult_less_eq div_less_iff_less_mult)
  then have "length (nat_to_string (n div 10)) = Suc k" by (rule Suc.IH)
  moreover have "\<not> n < 10" using Suc.prems(1) le_trans [of "10 * 1" "10 * 10 ^ k" n] by simp
  ultimately show ?case by (simp add: nat_to_string.simps [of n])
qed

lemma hd_nat_to_string: "0 < n \<Longrightarrow> hd (nat_to_string n) \<noteq> CHR ''0''"
proof (induction n rule: nat_to_string.induct)
  case (1 n)
  show ?case
  proof (cases "n < 10")
    case True
    with 1 show ?thesis
      using digit_char_props [of n]
      by (auto simp: nat_to_string.simps [of n] digit_val_def)
  next
    case False
    then have "hd (nat_to_string (n div 10)) \<noteq> CHR ''0''" using 1 by simp
    with False nat_to_string_digits [of "n div 10"] show ?thesis
      by (simp add: nat_to_string.simps [of n])
  qed
qed

lemma exp_digits_props:
  "list_all is_digit_char (exp_digits x)" "exp_digits x \<noteq> []" "digits_val (exp_digits x) = \<bar>x\<bar>"
proof -
  have z: "is_digit_char (CHR ''0'')" by (simp add: is_digit_char_def)
  note d = nat_to_string_digits [of "nat \<bar>x\<bar>"]
  show "list_all is_digit_char (exp_digits x)" "exp_digits x \<noteq> []"
    using d z by (auto simp: exp_digits_def Let_def)
  have "digits_val (CHR ''0'' # t) = digits_val t" for t
    using digits_val_append [of "''0''" t] by simp
  then show "digits_val (exp_digits x) = \<bar>x\<bar>"
    by (simp add: exp_digits_def Let_def digits_val_nat_to_string)
qed

text \<open>What the parts of the printed number denote.\<close>

lemma general_parts_spec:
  fixes s :: bool and x :: int
  assumes "list_all is_digit_char ds" "length ds = 17" "hd ds \<noteq> CHR ''0''"
  defines "np \<equiv> general_parts s ds x"
  shows "num_parts_ok np \<and> np_neg np = s \<and>
    real_of_int (digits_val (np_int np @ np_frac np)) *
      10 powi (exp_part_val (np_exp np) - int (length (np_frac np))) =
    real_of_int (digits_val ds) * 10 powi (x - 16)"
proof -
  have z: "is_digit_char (CHR ''0'')" by (simp add: is_digit_char_def)
  have td: "list_all is_digit_char (take k ds)" "list_all is_digit_char (drop k ds)" for k
    using assms(1) by (auto simp: list_all_iff dest: in_set_takeD in_set_dropD)
  have hdt: "hd (take k ds) \<noteq> CHR ''0''" "take k ds \<noteq> []" if "0 < k" for k
    using assms(2,3) that by (auto simp: hd_conv_nth)
  have v: "real_of_int (digits_val (take k ds @ strip_zeros (drop k ds))) *
      10 powi (E - int (length (strip_zeros (drop k ds)))) =
      real_of_int (digits_val ds) * 10 powi (E - int (17 - k))" for k E
    using strip_zeros_value [of "take k ds" "drop k ds" E] assms(2) by simp
  consider (sci) "x < -4 \<or> 17 \<le> x" | (fixed) "0 \<le> x" "x < 17" | (small) "x < 0" "-4 \<le> x" by linarith
  then show ?thesis
  proof cases
    case sci
    then have np: "np = \<lparr>np_neg = s, np_int = take 1 ds, np_frac = strip_zeros (drop 1 ds),
             np_exp = Some (CHR ''e'', if x < 0 then ''-'' else ''+'', exp_digits x)\<rparr>"
      by (simp add: np_def general_parts_def)
    have "exp_part_val (np_exp np) = x"
      using exp_digits_props(3) [of x] by (auto simp: np exp_part_val_def)
    then show ?thesis
      using td hdt [of 1] v [of 1 x] exp_digits_props [of x]
      by (simp add: np num_parts_ok_def exp_part_ok_def strip_zeros_digits)
  next
    case fixed
    then have np: "np = \<lparr>np_neg = s, np_int = take (nat x + 1) ds,
        np_frac = strip_zeros (drop (nat x + 1) ds), np_exp = None\<rparr>"
      by (simp add: np_def general_parts_def)
    have "0 - int (17 - (nat x + 1)) = x - 16" using fixed by simp
    then show ?thesis
      using fixed td hdt [of "nat x + 1"] v [of "nat x + 1" 0]
      by (simp add: np num_parts_ok_def exp_part_ok_def exp_part_val_def strip_zeros_digits)
  next
    case small
    define fp where "fp = replicate (nat (- x - 1)) (CHR ''0'') @ ds"
    from small have np: "np = \<lparr>np_neg = s, np_int = ''0'', np_frac = strip_zeros fp, np_exp = None\<rparr>"
      by (simp add: np_def general_parts_def fp_def)
    have len: "int (length fp) = 16 - x" using small assms(2) by (simp add: fp_def)
    have dig: "list_all is_digit_char fp" using assms(1) z by (auto simp: fp_def list_all_iff)
    have "digits_val (''0'' @ fp) = digits_val ds"
      by (simp only: digits_val_append fp_def digits_val_single_zero digits_val_zeros)
    with strip_zeros_value [of "''0''" fp 0] len dig z show ?thesis
      by (simp add: np num_parts_ok_def exp_part_ok_def exp_part_val_def strip_zeros_digits)
  qed
qed

subsection \<open>Printing and scanning\<close>

lemma decimal_double_quot:
  assumes "0 < n"
  obtains a b where "decimal_double s n ex = round_quot s a b" "0 < a" "0 < b"
    "real_of_int a / real_of_int b = real_of_int n * 10 powi ex"
proof (cases "0 \<le> ex")
  case True
  show ?thesis
    by (rule that [of "n * 10 ^ nat ex" 1]) (use True assms in \<open>simp_all add: decimal_double_def power_int_def\<close>)
next
  case False
  show ?thesis
    by (rule that [of n "10 ^ nat (- ex)"])
      (use False assms in \<open>simp_all add: decimal_double_def power_int_def field_simps\<close>)
qed

lemma scale2_quot:
  assumes "0 < m" "scale2 m e = (a, b)"
  shows "0 < a \<and> 0 < b \<and> real_of_int a / real_of_int b = real_of_int m * 2 powi e"
  using assms by (auto simp: scale2_def power_int_def field_simps split: if_splits)

text \<open>The digits and the decimal exponent of a number with these parts.\<close>

definition num_digits :: "num_parts \<Rightarrow> int" where
  "num_digits np = digits_val (np_int np @ np_frac np)"

definition num_exp :: "num_parts \<Rightarrow> int" where
  "num_exp np = exp_part_val (np_exp np) - int (length (np_frac np))"

lemma num_double_alt: "num_double np = decimal_double (np_neg np) (num_digits np) (num_exp np)"
  by (simp add: num_double_def num_digits_def num_exp_def)

lemma decimal_double_nearest:
  assumes "double_ok (DFin s m e)" "0 < m" "0 < n" "in_rounding_interval (real_of_int n * 10 powi ex) m e"
  shows "decimal_double s n ex = DFin s m e"
proof -
  obtain c d where cd: "decimal_double s n ex = round_quot s c d" "0 < c" "0 < d"
    "real_of_int c / real_of_int d = real_of_int n * 10 powi ex"
    using decimal_double_quot [OF assms(3)] by blast
  have "in_rounding_interval (real_of_int c / real_of_int d) m e" using assms(4) by (simp only: cd(4))
  then show ?thesis using round_quot_nearest [OF cd(2,3) assms(1,2)] cd(1) by simp
qed

lemma decimal_double_zero: "decimal_double s 0 ex = DFin s 0 (-1074)"
  by (simp add: decimal_double_def round_quot_def)

lemma finite_parts_spec:
  assumes "double_ok (DFin s m e)" "0 < m"
  defines "np \<equiv> finite_parts s m e"
  shows "num_parts_ok np \<and> np_neg np = s \<and> 0 < num_digits np \<and>
    in_rounding_interval (real_of_int (num_digits np) * 10 powi num_exp np) m e"
proof -
  obtain a b where ab: "scale2 m e = (a, b)" by fastforce
  obtain n x where nx: "sig_digits a b = (n, x)" by fastforce
  note q = scale2_quot [OF assms(2) ab]
  have n: "10 ^ 16 \<le> n" "n < 10 ^ 17"
    and err: "\<bar>real_of_int m * 2 powi e - real_of_int n * 10 powi (x - 16)\<bar> \<le> real_of_int m * 2 powi e / 10 ^ 16 / 2"
    using sig_digits_spec [OF _ _ nx] q by auto
  define ds where "ds = nat_to_string (nat n)"
  have "10 ^ 16 \<le> nat n" "nat n < 10 ^ Suc 16" using n by (simp_all add: nat_less_iff le_nat_iff)
  then have ds: "list_all is_digit_char ds" "length ds = 17" "hd ds \<noteq> CHR ''0''" "digits_val ds = n"
    using nat_to_string_digits [of "nat n"] length_nat_to_string [of 16 "nat n"]
      hd_nat_to_string [of "nat n"] n
    by (simp_all add: ds_def digits_val_nat_to_string)
  have fin: "np = general_parts s ds x"
    using assms(2) by (simp add: np_def finite_parts_def ab nx ds_def)
  have ok: "num_parts_ok np" "np_neg np = s"
    and val: "real_of_int (num_digits np) * 10 powi num_exp np = real_of_int n * 10 powi (x - 16)"
    using general_parts_spec [OF ds(1-3), of s x] by (simp_all add: fin num_digits_def num_exp_def ds(4))
  have "0 < real_of_int n * 10 powi (x - 16)" using n by simp
  then have "0 < real_of_int (num_digits np) * (10 powi num_exp np :: real)" by (simp only: val)
  moreover have "(0::real) < 10 powi num_exp np" by simp
  ultimately have "0 < real_of_int (num_digits np)" by (rule zero_less_mult_pos2)
  moreover have "in_rounding_interval (real_of_int (num_digits np) * 10 powi num_exp np) m e"
    using seventeen_digits_enough [OF assms(1,2) err] by (simp only: val)
  ultimately show ?thesis using ok by simp
qed

lemma double_ok_zero: "double_ok (DFin s m e) \<Longrightarrow> \<not> 0 < m \<Longrightarrow> m = 0 \<and> e = -1074"
  by (auto simp: double_ok_def)

lemma zero_parts:
  "num_parts_ok (finite_parts s 0 e) \<and> np_neg (finite_parts s 0 e) = s \<and> num_digits (finite_parts s 0 e) = 0"
  by (simp add: finite_parts_def num_parts_ok_def exp_part_ok_def is_digit_char_def num_digits_def)

theorem finite_parts_roundtrip:
  assumes "double_ok (DFin s m e)"
  shows "num_parts_ok (finite_parts s m e) \<and> num_double (finite_parts s m e) = DFin s m e"
proof (cases "0 < m")
  case True
  from finite_parts_spec [OF assms True] decimal_double_nearest [OF assms True] show ?thesis
    by (simp add: num_double_alt)
next
  case False
  then show ?thesis
    using double_ok_zero [OF assms False] zero_parts [of s e]
    by (simp add: num_double_alt decimal_double_zero)
qed

text \<open>Appending \<open>.0\<close> to a number without fraction and exponent does not change it.\<close>

lemma num_double_point_zero:
  assumes "double_ok (DFin s m e)" "finite_parts s m e = np" "np_frac np = []" "np_exp np = None"
  shows "num_double (np\<lparr>np_frac := ''0''\<rparr>) = DFin s m e"
proof -
  have d: "num_digits (np\<lparr>np_frac := ''0''\<rparr>) = num_digits np * 10"
    using assms(3) by (simp add: num_digits_def digits_val_append)
  have x: "num_exp (np\<lparr>np_frac := ''0''\<rparr>) = num_exp np - 1"
    using assms(3,4) by (simp add: num_exp_def exp_part_val_def)
  have v: "real_of_int (num_digits np * 10) * 10 powi (num_exp np - 1) =
      real_of_int (num_digits np) * 10 powi num_exp np"
    by (simp add: power_int_diff)
  show ?thesis
  proof (cases "0 < m")
    case True
    note spec = finite_parts_spec [OF assms(1) True, unfolded assms(2)]
    have "decimal_double s (num_digits np * 10) (num_exp np - 1) = DFin s m e"
      using spec by (intro decimal_double_nearest [OF assms(1) True]) (simp_all only: v, simp_all)
    then show ?thesis using spec by (simp add: num_double_alt d x)
  next
    case False
    then show ?thesis
      using double_ok_zero [OF assms(1) False] zero_parts [of s e] assms(2)
      by (simp add: num_double_alt d x decimal_double_zero)
  qed
qed

end
