(* ===== verification/Json.thy ===== *)
theory Json
  imports Double_Text
begin

section \<open>The JSON library\<close>

text \<open>
  \<open>src/base/json/json_value.hpp\<close> and \<open>json_value.cpp\<close>, and \<open>write_escaped_json_string\<close> of
  \<open>src/base/support/json.hpp\<close>. A \<open>JsonValue\<close> carries the two offsets of the text it was
  parsed from and, depending on its kind, its payload; the payload members that the kind does not
  select are never read and are not modelled. A \<open>unique_ptr<JsonValue>\<close> may be null and is an
  option.

  The parser's state is the pair \<open>cursor\<close> of \<open>pos_\<close> and the rest of the input from there. The
  three functions that call each other (\<open>parse_value\<close>, \<open>parse_array\<close>, \<open>parse_object\<close>, the
  loops of the last two being functions of their own) carry fuel; \<open>parse_json\<close> starts with three
  units per character and a few more, which \<open>Json_Parser\<close> proves to be enough for every text that
  has a value.
\<close>

unbundle bit_operations_syntax

subsection \<open>JsonValue\<close>

type_synonym span = "nat \<times> nat"

datatype json =
    JNull span
  | JBool span bool
  | JInt span int
  | JFloat span double
  | JString span string
  | JArray span "json option list"
  | JObject span "(string \<times> json option) list"

definition json_get :: "string \<Rightarrow> json \<Rightarrow> json option" where
  "json_get key v =
     (case v of
        JObject _ fs \<Rightarrow> (case map_of fs key of Some p \<Rightarrow> p | None \<Rightarrow> None)
      | _ \<Rightarrow> None)"

definition as_string :: "json \<Rightarrow> string option" where
  "as_string v = (case v of JString _ s \<Rightarrow> Some s | _ \<Rightarrow> None)"

definition as_int :: "json \<Rightarrow> int option" where
  "as_int v = (case v of JInt _ i \<Rightarrow> Some i | _ \<Rightarrow> None)"

definition as_float :: "json \<Rightarrow> double option" where
  "as_float v =
     (case v of JFloat _ d \<Rightarrow> Some d | JInt _ i \<Rightarrow> Some (double_of_int i) | _ \<Rightarrow> None)"

definition as_bool :: "json \<Rightarrow> bool option" where
  "as_bool v = (case v of JBool _ b \<Rightarrow> Some b | _ \<Rightarrow> None)"

definition make_null :: json where "make_null = JNull (0, 0)"
definition make_bool :: "bool \<Rightarrow> json" where "make_bool b = JBool (0, 0) b"
definition make_int :: "int \<Rightarrow> json" where "make_int i = JInt (0, 0) i"
definition make_float :: "double \<Rightarrow> json" where "make_float d = JFloat (0, 0) d"
definition make_string :: "string \<Rightarrow> json" where "make_string s = JString (0, 0) s"
definition make_array :: json where "make_array = JArray (0, 0) []"
definition make_object :: json where "make_object = JObject (0, 0) []"

text \<open>\<open>push\<close> and \<open>set\<close> on a node of another kind touch a member that is never read.\<close>

definition json_push :: "json option \<Rightarrow> json \<Rightarrow> json" where
  "json_push item v = (case v of JArray sp xs \<Rightarrow> JArray sp (xs @ [item]) | _ \<Rightarrow> v)"

definition json_set :: "string \<Rightarrow> json option \<Rightarrow> json \<Rightarrow> json" where
  "json_set key item v =
     (case v of JObject sp fs \<Rightarrow> JObject sp (insert_or_assign key item fs) | _ \<Rightarrow> v)"

text \<open>Assigning to \<open>begin_offset\<close> and \<open>end_offset\<close>.\<close>

definition set_span :: "span \<Rightarrow> json \<Rightarrow> json" where
  "set_span sp v =
     (case v of
        JNull _ \<Rightarrow> JNull sp | JBool _ b \<Rightarrow> JBool sp b | JInt _ i \<Rightarrow> JInt sp i
      | JFloat _ d \<Rightarrow> JFloat sp d | JString _ s \<Rightarrow> JString sp s
      | JArray _ xs \<Rightarrow> JArray sp xs | JObject _ fs \<Rightarrow> JObject sp fs)"

subsection \<open>The cursor\<close>

type_synonym cursor = "nat \<times> string"

definition is_json_space :: "char \<Rightarrow> bool" where
  "is_json_space c \<longleftrightarrow> c = CHR '' '' \<or> c = CHR 0x09 \<or> c = CHR 0x0A \<or> c = CHR 0x0D"

fun skip_whitespace :: "cursor \<Rightarrow> cursor" where
  "skip_whitespace (p, []) = (p, [])"
| "skip_whitespace (p, c # s) = (if is_json_space c then skip_whitespace (Suc p, s) else (p, c # s))"

definition consume :: "char \<Rightarrow> cursor \<Rightarrow> cursor option" where
  "consume c cur =
     (case cur of
        (p, d # s) \<Rightarrow> if d = c then Some (Suc p, s) else None
      | (p, []) \<Rightarrow> None)"

subsection \<open>Literals and numbers\<close>

definition parse_null :: "cursor \<Rightarrow> (json \<times> cursor) option" where
  "parse_null cur =
     (case cur of
        (p, s) \<Rightarrow>
          if take 4 s = ''null'' then Some (set_span (p, p + 4) make_null, (p + 4, drop 4 s))
          else None)"

definition parse_bool :: "cursor \<Rightarrow> (json \<times> cursor) option" where
  "parse_bool cur =
     (case cur of
        (p, s) \<Rightarrow>
          if take 4 s = ''true'' then Some (set_span (p, p + 4) (make_bool True), (p + 4, drop 4 s))
          else if take 5 s = ''false''
          then Some (set_span (p, p + 5) (make_bool False), (p + 5, drop 5 s))
          else None)"

definition parse_json_number_float :: "string \<Rightarrow> double option" where
  "parse_json_number_float t =
     (case num_get_double t of
        Some (d, trailing) \<Rightarrow> if trailing = [] then Some d else None
      | None \<Rightarrow> None)"

text \<open>\<open>std::from_chars\<close> into an \<open>int64_t\<close>, with the check that it reads the whole text.\<close>

definition from_chars_int64 :: "string \<Rightarrow> int option" where
  "from_chars_int64 t =
     (let neg = (case t of c # _ \<Rightarrow> c = CHR ''-'' | [] \<Rightarrow> False);
          ds = (if neg then tl t else t);
          v = (if neg then - digits_val ds else digits_val ds)
      in if ds \<noteq> [] \<and> list_all is_digit_char ds \<and> in_int64 v then Some v else None)"

definition starts_digit :: "string \<Rightarrow> bool" where
  "starts_digit s = (case s of c # _ \<Rightarrow> is_digit_char c | [] \<Rightarrow> False)"

text \<open>
  The scan of \<open>parse_number\<close>: the optional minus sign, the integer digits (a leading zero stands
  alone), the fraction, the exponent; the flag is \<open>is_float\<close>.
\<close>

definition scan_int_part :: "string \<Rightarrow> string option" where
  "scan_int_part s =
     (if \<not> starts_digit s then None
      else if hd s = CHR ''0'' then Some (tl s) else Some (dropWhile is_digit_char s))"

definition scan_frac_part :: "string \<Rightarrow> (bool \<times> string) option" where
  "scan_frac_part s =
     (case s of
        c # r \<Rightarrow>
          if c = CHR ''.''
          then if starts_digit r then Some (True, dropWhile is_digit_char r) else None
          else Some (False, s)
      | [] \<Rightarrow> Some (False, s))"

definition skip_exp_sign :: "string \<Rightarrow> string" where
  "skip_exp_sign r =
     (case r of x # t \<Rightarrow> if x = CHR ''+'' \<or> x = CHR ''-'' then t else r | [] \<Rightarrow> r)"

definition scan_exponent_part :: "string \<Rightarrow> (bool \<times> string) option" where
  "scan_exponent_part s =
     (case s of
        c # r \<Rightarrow>
          if c = CHR ''e'' \<or> c = CHR ''E''
          then if starts_digit (skip_exp_sign r)
               then Some (True, dropWhile is_digit_char (skip_exp_sign r)) else None
          else Some (False, s)
      | [] \<Rightarrow> Some (False, s))"

definition scan_number :: "string \<Rightarrow> (bool \<times> string) option" where
  "scan_number s =
     (let s1 = (case s of c # r \<Rightarrow> if c = CHR ''-'' then r else s | [] \<Rightarrow> s)
      in case scan_int_part s1 of
           None \<Rightarrow> None
         | Some s2 \<Rightarrow>
             (case scan_frac_part s2 of
                None \<Rightarrow> None
              | Some (f1, s3) \<Rightarrow>
                  (case scan_exponent_part s3 of
                     None \<Rightarrow> None
                   | Some (f2, s4) \<Rightarrow> Some (f1 \<or> f2, s4))))"

definition parse_number :: "cursor \<Rightarrow> (json \<times> cursor) option" where
  "parse_number cur =
     (case cur of
        (start, s) \<Rightarrow>
          (case scan_number s of
             None \<Rightarrow> None
           | Some (is_float, r) \<Rightarrow>
               (let len = length s - length r;
                    num_str = take len s;
                    sp = (start, start + len);
                    as_double = (case parse_json_number_float num_str of
                                   None \<Rightarrow> None
                                 | Some d \<Rightarrow> Some (set_span sp (make_float d), (start + len, r)))
                in if is_float then as_double
                   else (case from_chars_int64 num_str of
                           None \<Rightarrow> as_double
                         | Some i \<Rightarrow> Some (set_span sp (make_int i), (start + len, r))))))"

subsection \<open>Strings\<close>

definition hex_digit :: "char \<Rightarrow> nat option" where
  "hex_digit c =
     (let n = of_char c
      in if 48 \<le> n \<and> n \<le> 57 then Some (n - 48)
         else if 97 \<le> n \<and> n \<le> 102 then Some (n - 97 + 10)
         else if 65 \<le> n \<and> n \<le> 70 then Some (n - 65 + 10)
         else None)"

text \<open>Four hexadecimal digits: \<open>code <<= 4; code |= digit\<close>.\<close>

fun read_hex :: "nat \<Rightarrow> string \<Rightarrow> nat option" where
  "read_hex code [] = Some code"
| "read_hex code (c # s) =
     (case hex_digit c of
        None \<Rightarrow> None
      | Some d \<Rightarrow> read_hex (push_bit 4 code OR d) s)"

function parse_unicode_escape :: "cursor \<Rightarrow> (nat \<times> cursor) option" where
  "parse_unicode_escape (p, s) =
     (if length s < 4 then None
      else case read_hex 0 (take 4 s) of
             None \<Rightarrow> None
           | Some code \<Rightarrow>
               (let t = drop 4 s
                in if 0xD800 \<le> code \<and> code \<le> 0xDBFF
                   then (if length t < 6 \<or> t ! 0 \<noteq> CHR 0x5C \<or> t ! 1 \<noteq> CHR ''u'' then None
                         else case parse_unicode_escape (p + 6, drop 2 t) of
                                None \<Rightarrow> None
                              | Some (low, cur) \<Rightarrow>
                                  if low < 0xDC00 \<or> 0xDFFF < low then None
                                  else Some (0x10000 + push_bit 10 (code - 0xD800) + (low - 0xDC00), cur))
                   else Some (code, (p + 4, t))))"
  by pat_completeness auto
termination
  by (relation "measure (\<lambda>(p, s). length s)") auto

declare parse_unicode_escape.simps [simp del]

definition encode_utf8 :: "nat \<Rightarrow> string" where
  "encode_utf8 code =
     (if code \<le> 0x7F then [char_of code]
      else if code \<le> 0x7FF
      then [char_of (0xC0 OR drop_bit 6 code), char_of (0x80 OR (code AND 0x3F))]
      else if code \<le> 0xFFFF
      then [char_of (0xE0 OR drop_bit 12 code), char_of (0x80 OR (drop_bit 6 code AND 0x3F)),
            char_of (0x80 OR (code AND 0x3F))]
      else if code \<le> 0x10FFFF
      then [char_of (0xF0 OR drop_bit 18 code), char_of (0x80 OR (drop_bit 12 code AND 0x3F)),
            char_of (0x80 OR (drop_bit 6 code AND 0x3F)), char_of (0x80 OR (code AND 0x3F))]
      else [])"

definition simple_escape :: "char \<Rightarrow> char option" where
  "simple_escape c =
     (if c = CHR 0x22 \<or> c = CHR 0x5C \<or> c = CHR ''/'' then Some c
      else if c = CHR ''b'' then Some (CHR 0x08)
      else if c = CHR ''f'' then Some (CHR 0x0C)
      else if c = CHR ''n'' then Some (CHR 0x0A)
      else if c = CHR ''r'' then Some (CHR 0x0D)
      else if c = CHR ''t'' then Some (CHR 0x09)
      else None)"

lemma parse_unicode_escape_shorter:
  "parse_unicode_escape (p, s) = Some (code, (q, t)) \<Longrightarrow> length t < length s"
proof (induction "length s" arbitrary: p s code q t rule: less_induct)
  case less
  from less.prems obtain hi where hi: "4 \<le> length s" "read_hex 0 (take 4 s) = Some hi"
    by (subst (asm) parse_unicode_escape.simps) (auto simp: if_eq_Some split: option.splits)
  show ?case
  proof (cases "0xD800 \<le> hi \<and> hi \<le> 0xDBFF")
    case True
    with less.prems hi obtain low where t: "6 \<le> length (drop 4 s)"
      and low: "parse_unicode_escape (p + 6, drop 2 (drop 4 s)) = Some (low, (q, t))"
      by (subst (asm) parse_unicode_escape.simps)
        (auto simp: Let_def if_eq_Some run_simps simp del: drop_drop split: option.splits if_splits)
    have "length t < length (drop 2 (drop 4 s))" by (rule less.hyps [OF _ low]) (use t in simp)
    then show ?thesis by simp
  next
    case False
    with less.prems hi show ?thesis
      by (subst (asm) parse_unicode_escape.simps) (auto simp: Let_def)
  qed
qed

text \<open>The loop of \<open>parse_string\<close> behind the opening quotation mark.\<close>

function parse_chars :: "nat \<Rightarrow> string \<Rightarrow> string \<Rightarrow> (string \<times> cursor) option" where
  "parse_chars p [] result = None"
| "parse_chars p (c # s) result =
     (if c = CHR 0x22 then Some (result, (p + 1, s))
      else if c = CHR 0x5C
      then (case s of
              [] \<Rightarrow> None
            | esc # t \<Rightarrow>
                (case simple_escape esc of
                   Some d \<Rightarrow> parse_chars (p + 2) t (result @ [d])
                 | None \<Rightarrow>
                     if esc = CHR ''u''
                     then (case parse_unicode_escape (p + 2, t) of
                             None \<Rightarrow> None
                           | Some (code, (q, u)) \<Rightarrow> parse_chars q u (result @ encode_utf8 code))
                     else None))
      else if of_char c < (0x20::nat) then None
      else parse_chars (p + 1) s (result @ [c]))"
  by pat_completeness auto
termination
  by (relation "measure (\<lambda>(p, s, result). length s)") (auto dest: parse_unicode_escape_shorter)

declare parse_chars.simps(2) [simp del]

definition parse_string :: "cursor \<Rightarrow> (string \<times> cursor) option" where
  "parse_string cur =
     (case consume (CHR 0x22) cur of
        None \<Rightarrow> None
      | Some (p, s) \<Rightarrow> parse_chars p s [])"

definition parse_string_value :: "cursor \<Rightarrow> (json \<times> cursor) option" where
  "parse_string_value cur =
     (case parse_string cur of
        None \<Rightarrow> None
      | Some (s, (q, r)) \<Rightarrow> Some (set_span (fst cur, q) (make_string s), (q, r)))"

subsection \<open>Values, arrays and objects\<close>

function parse_value :: "nat \<Rightarrow> cursor \<Rightarrow> (json \<times> cursor) option"
  and parse_array :: "nat \<Rightarrow> cursor \<Rightarrow> (json \<times> cursor) option"
  and array_loop :: "nat \<Rightarrow> nat \<Rightarrow> cursor \<Rightarrow> json \<Rightarrow> (json \<times> cursor) option"
  and parse_object :: "nat \<Rightarrow> cursor \<Rightarrow> (json \<times> cursor) option"
  and object_loop :: "nat \<Rightarrow> nat \<Rightarrow> cursor \<Rightarrow> json \<Rightarrow> (json \<times> cursor) option" where
  "parse_value 0 cur = None"
| "parse_value (Suc fuel) cur =
     (case skip_whitespace cur of
        (p, []) \<Rightarrow> None
      | (p, c # s) \<Rightarrow>
          if c = CHR 0x22 then parse_string_value (p, c # s)
          else if c = CHR ''{'' then parse_object fuel (p, c # s)
          else if c = CHR ''['' then parse_array fuel (p, c # s)
          else if c = CHR ''t'' \<or> c = CHR ''f'' then parse_bool (p, c # s)
          else if c = CHR ''n'' then parse_null (p, c # s)
          else if c = CHR ''-'' \<or> is_digit_char c then parse_number (p, c # s)
          else None)"
| "parse_array 0 cur = None"
| "parse_array (Suc fuel) cur =
     (case consume (CHR ''['') cur of
        None \<Rightarrow> None
      | Some cur1 \<Rightarrow>
          (let cur2 = skip_whitespace cur1
           in case consume (CHR '']'') cur2 of
                Some (q, r) \<Rightarrow> Some (set_span (fst cur, q) make_array, (q, r))
              | None \<Rightarrow> array_loop fuel (fst cur) cur2 make_array))"
| "array_loop 0 start cur arr = None"
| "array_loop (Suc fuel) start cur arr =
     (case parse_value fuel cur of
        None \<Rightarrow> None
      | Some (item, cur1) \<Rightarrow>
          (let arr1 = json_push (Some item) arr; cur2 = skip_whitespace cur1
           in case consume (CHR '']'') cur2 of
                Some (q, r) \<Rightarrow> Some (set_span (start, q) arr1, (q, r))
              | None \<Rightarrow>
                  (case consume (CHR '','') cur2 of
                     None \<Rightarrow> None
                   | Some cur3 \<Rightarrow> array_loop fuel start cur3 arr1)))"
| "parse_object 0 cur = None"
| "parse_object (Suc fuel) cur =
     (case consume (CHR ''{'') cur of
        None \<Rightarrow> None
      | Some cur1 \<Rightarrow>
          (let cur2 = skip_whitespace cur1
           in case consume (CHR ''}'') cur2 of
                Some (q, r) \<Rightarrow> Some (set_span (fst cur, q) make_object, (q, r))
              | None \<Rightarrow> object_loop fuel (fst cur) cur2 make_object))"
| "object_loop 0 start cur obj = None"
| "object_loop (Suc fuel) start cur obj =
     (case parse_string (skip_whitespace cur) of
        None \<Rightarrow> None
      | Some (key, cur1) \<Rightarrow>
          (case consume (CHR '':'') (skip_whitespace cur1) of
             None \<Rightarrow> None
           | Some cur2 \<Rightarrow>
               (case parse_value fuel cur2 of
                  None \<Rightarrow> None
                | Some (item, cur3) \<Rightarrow>
                    if json_get key obj \<noteq> None then None
                    else
                      (let obj1 = json_set key (Some item) obj; cur4 = skip_whitespace cur3
                       in case consume (CHR ''}'') cur4 of
                            Some (q, r) \<Rightarrow> Some (set_span (start, q) obj1, (q, r))
                          | None \<Rightarrow>
                              (case consume (CHR '','') cur4 of
                                 None \<Rightarrow> None
                               | Some cur5 \<Rightarrow> object_loop fuel start cur5 obj1)))))"
  by pat_completeness auto
termination
  by (relation "measure (case_sum (case_sum fst fst) (case_sum fst (case_sum fst fst)))") auto

definition parse_json :: "string \<Rightarrow> json option" where
  "parse_json input =
     (case parse_value (3 * length input + 3) (skip_whitespace (0, input)) of
        None \<Rightarrow> None
      | Some (v, cur) \<Rightarrow> (case skip_whitespace cur of (q, []) \<Rightarrow> Some v | _ \<Rightarrow> None))"

subsection \<open>Serialization\<close>

definition hex_char :: "nat \<Rightarrow> char" where
  "hex_char n = ''0123456789abcdef'' ! n"

definition escape_char :: "char \<Rightarrow> string" where
  "escape_char c =
     (if c = CHR 0x5C then [CHR 0x5C, CHR 0x5C]
      else if c = CHR 0x22 then [CHR 0x5C, CHR 0x22]
      else if c = CHR 0x08 then [CHR 0x5C, CHR ''b'']
      else if c = CHR 0x0C then [CHR 0x5C, CHR ''f'']
      else if c = CHR 0x0A then [CHR 0x5C, CHR ''n'']
      else if c = CHR 0x0D then [CHR 0x5C, CHR ''r'']
      else if c = CHR 0x09 then [CHR 0x5C, CHR ''t'']
      else if of_char c < (0x20::nat)
      then [CHR 0x5C, CHR ''u'', CHR ''0'', CHR ''0'',
            hex_char (drop_bit 4 (of_char c) AND 0x0F), hex_char (of_char c AND 0x0F)]
      else [c])"

definition write_escaped_json_string :: "string \<Rightarrow> string" where
  "write_escaped_json_string s = CHR 0x22 # concat (map escape_char s) @ [CHR 0x22]"

definition escape_key_char :: "char \<Rightarrow> string" where
  "escape_key_char c =
     (if c = CHR 0x5C then [CHR 0x5C, CHR 0x5C]
      else if c = CHR 0x22 then [CHR 0x5C, CHR 0x22]
      else [c])"

definition serialize_key :: "string \<Rightarrow> string" where
  "serialize_key k = CHR 0x22 # concat (map escape_key_char k) @ [CHR 0x22]"

text \<open>A null item is dereferenced, which is undefined behaviour: the result is \<^const>\<open>None\<close>.\<close>

fun serialize_impl :: "json \<Rightarrow> string option"
  and serialize_items :: "json option list \<Rightarrow> string option"
  and serialize_members :: "(string \<times> json option) list \<Rightarrow> string option" where
  "serialize_impl (JNull _) = Some ''null''"
| "serialize_impl (JBool _ b) = Some (if b then ''true'' else ''false'')"
| "serialize_impl (JInt _ i) = Some (int_to_string i)"
| "serialize_impl (JFloat _ d) = Some (to_chars_general d)"
| "serialize_impl (JString _ s) = Some (write_escaped_json_string s)"
| "serialize_impl (JArray _ xs) =
     (case serialize_items xs of None \<Rightarrow> None | Some t \<Rightarrow> Some (''['' @ t @ '']''))"
| "serialize_impl (JObject _ fs) =
     (case serialize_members fs of None \<Rightarrow> None | Some t \<Rightarrow> Some (''{'' @ t @ ''}''))"
| "serialize_items [] = Some []"
| "serialize_items (None # xs) = None"
| "serialize_items (Some v # xs) =
     (case (serialize_impl v, serialize_items xs) of
        (Some t, Some u) \<Rightarrow> Some (if xs = [] then t else t @ '','' @ u)
      | _ \<Rightarrow> None)"
| "serialize_members [] = Some []"
| "serialize_members ((k, None) # fs) = None"
| "serialize_members ((k, Some v) # fs) =
     (case (serialize_impl v, serialize_members fs) of
        (Some t, Some u) \<Rightarrow>
          Some (if fs = [] then serialize_key k @ '':'' @ t else serialize_key k @ '':'' @ t @ '','' @ u)
      | _ \<Rightarrow> None)"

definition serialize_json :: "json \<Rightarrow> string option" where
  "serialize_json v = serialize_impl v"

end
