(* ===== verification/Json_Grammar.thy ===== *)
theory Json_Grammar
  imports Json
begin

section \<open>The grammar of JSON\<close>

text \<open>
  The abstract specification of the parser: \<open>json_text p v t\<close> says that the text \<open>t\<close>, standing
  at offset \<open>p\<close> of the input, denotes the value \<open>v\<close>, offsets included. The relation has no
  cursor, no fuel and no look-ahead. This theory has the grammar and the lexical level: strings
  and numbers are scanned exactly as the grammar says.
\<close>

subsection \<open>The grammar\<close>

definition json_space :: "string \<Rightarrow> bool" where
  "json_space w = list_all is_json_space w"

definition is_high_surrogate :: "nat \<Rightarrow> bool" where
  "is_high_surrogate code \<longleftrightarrow> 0xD800 \<le> code \<and> code \<le> 0xDBFF"

definition is_low_surrogate :: "nat \<Rightarrow> bool" where
  "is_low_surrogate code \<longleftrightarrow> 0xDC00 \<le> code \<and> code \<le> 0xDFFF"

definition surrogate_pair :: "nat \<Rightarrow> nat \<Rightarrow> nat" where
  "surrogate_pair hi lo = 0x10000 + push_bit 10 (hi - 0xD800) + (lo - 0xDC00)"

text \<open>\<open>string_body s t\<close>: between quotation marks the text \<open>t\<close> denotes the bytes \<open>s\<close>.\<close>

inductive string_body :: "string \<Rightarrow> string \<Rightarrow> bool" where
  body_nil: "string_body [] []"
| body_plain: "c \<noteq> CHR 0x22 \<Longrightarrow> c \<noteq> CHR 0x5C \<Longrightarrow> \<not> of_char c < (0x20::nat) \<Longrightarrow> string_body s t \<Longrightarrow>
    string_body (c # s) (c # t)"
| body_simple: "simple_escape e = Some d \<Longrightarrow> string_body s t \<Longrightarrow>
    string_body (d # s) (CHR 0x5C # e # t)"
| body_unicode: "length h = 4 \<Longrightarrow> read_hex 0 h = Some code \<Longrightarrow> \<not> is_high_surrogate code \<Longrightarrow>
    string_body s t \<Longrightarrow> string_body (encode_utf8 code @ s) (CHR 0x5C # CHR ''u'' # h @ t)"
| body_pair: "length h = 4 \<Longrightarrow> read_hex 0 h = Some hi \<Longrightarrow> is_high_surrogate hi \<Longrightarrow>
    length l = 4 \<Longrightarrow> read_hex 0 l = Some lo \<Longrightarrow> is_low_surrogate lo \<Longrightarrow> string_body s t \<Longrightarrow>
    string_body (encode_utf8 (surrogate_pair hi lo) @ s)
      (CHR 0x5C # CHR ''u'' # h @ CHR 0x5C # CHR ''u'' # l @ t)"

definition string_text :: "string \<Rightarrow> string \<Rightarrow> bool" where
  "string_text s t \<longleftrightarrow> (\<exists>b. t = CHR 0x22 # b @ [CHR 0x22] \<and> string_body s b)"

text \<open>The value of a number: an integer when it is written as one and fits, a double otherwise.\<close>

definition num_int :: "num_parts \<Rightarrow> int option" where
  "num_int np =
     (if np_frac np = [] \<and> np_exp np = None
      then int64_result (if np_neg np then - digits_val (np_int np) else digits_val (np_int np))
      else None)"

inductive json_text :: "nat \<Rightarrow> json \<Rightarrow> string \<Rightarrow> bool"
  and json_items :: "nat \<Rightarrow> json option list \<Rightarrow> string \<Rightarrow> bool"
  and json_members :: "nat \<Rightarrow> (string \<times> json option) list \<Rightarrow> string \<Rightarrow> bool" where
  text_null: "json_text p (JNull (p, p + 4)) ''null''"
| text_true: "json_text p (JBool (p, p + 4) True) ''true''"
| text_false: "json_text p (JBool (p, p + 5) False) ''false''"
| text_int: "num_parts_ok np \<Longrightarrow> num_int np = Some i \<Longrightarrow>
    json_text p (JInt (p, p + length (num_text np)) i) (num_text np)"
| text_float: "num_parts_ok np \<Longrightarrow> num_int np = None \<Longrightarrow> num_double np = DFin s m e \<Longrightarrow>
    json_text p (JFloat (p, p + length (num_text np)) (DFin s m e)) (num_text np)"
| text_string: "string_text s t \<Longrightarrow> json_text p (JString (p, p + length t) s) t"
| text_array_empty: "json_space w \<Longrightarrow>
    json_text p (JArray (p, p + length w + 2) []) (''['' @ w @ '']'')"
| text_array: "json_items (p + 1) xs t \<Longrightarrow>
    json_text p (JArray (p, p + length t + 2) xs) (''['' @ t @ '']'')"
| text_object_empty: "json_space w \<Longrightarrow>
    json_text p (JObject (p, p + length w + 2) []) (''{'' @ w @ ''}'')"
| text_object: "json_members (p + 1) fs t \<Longrightarrow> distinct (keys_of fs) \<Longrightarrow>
    json_text p (JObject (p, p + length t + 2) fs) (''{'' @ t @ ''}'')"
| items_last: "json_space w1 \<Longrightarrow> json_text (p + length w1) v t \<Longrightarrow> json_space w2 \<Longrightarrow>
    json_items p [Some v] (w1 @ t @ w2)"
| items_more: "json_space w1 \<Longrightarrow> json_text (p + length w1) v t \<Longrightarrow> json_space w2 \<Longrightarrow>
    json_items (p + length w1 + length t + length w2 + 1) xs u \<Longrightarrow>
    json_items p (Some v # xs) (w1 @ t @ w2 @ '','' @ u)"
| members_last: "json_space w1 \<Longrightarrow> string_text k kt \<Longrightarrow> json_space w2 \<Longrightarrow> json_space w3 \<Longrightarrow>
    json_text (p + length w1 + length kt + length w2 + 1 + length w3) v t \<Longrightarrow> json_space w4 \<Longrightarrow>
    json_members p [(k, Some v)] (w1 @ kt @ w2 @ '':'' @ w3 @ t @ w4)"
| members_more: "json_space w1 \<Longrightarrow> string_text k kt \<Longrightarrow> json_space w2 \<Longrightarrow> json_space w3 \<Longrightarrow>
    json_text (p + length w1 + length kt + length w2 + 1 + length w3) v t \<Longrightarrow> json_space w4 \<Longrightarrow>
    json_members (p + length w1 + length kt + length w2 + 1 + length w3 + length t + length w4 + 1) fs u \<Longrightarrow>
    json_members p ((k, Some v) # fs) (w1 @ kt @ w2 @ '':'' @ w3 @ t @ w4 @ '','' @ u)"

text \<open>A document: one value between white space.\<close>

definition json_document :: "json \<Rightarrow> string \<Rightarrow> bool" where
  "json_document v input \<longleftrightarrow>
     (\<exists>w1 t w2. input = w1 @ t @ w2 \<and> json_space w1 \<and> json_space w2 \<and> json_text (length w1) v t)"

subsection \<open>White space and single characters\<close>

definition no_space_start :: "string \<Rightarrow> bool" where
  "no_space_start s = (case s of [] \<Rightarrow> True | c # _ \<Rightarrow> \<not> is_json_space c)"

lemma json_space_simps [simp]:
  "json_space []" "json_space (c # w) \<longleftrightarrow> is_json_space c \<and> json_space w"
  by (simp_all add: json_space_def)

lemma skip_whitespace_space:
  "json_space w \<Longrightarrow> skip_whitespace (p, w @ s) = skip_whitespace (p + length w, s)"
  by (induction w arbitrary: p) auto

lemma skip_whitespace_id: "no_space_start s \<Longrightarrow> skip_whitespace (p, s) = (p, s)"
  by (cases s) (auto simp: no_space_start_def)

lemma skip_whitespace_split:
  "\<exists>w. s = w @ snd (skip_whitespace (p, s)) \<and> json_space w \<and>
    fst (skip_whitespace (p, s)) = p + length w \<and> no_space_start (snd (skip_whitespace (p, s)))"
proof (induction s arbitrary: p)
  case (Cons c s)
  show ?case
  proof (cases "is_json_space c")
    case True
    obtain w where "s = w @ snd (skip_whitespace (Suc p, s))" "json_space w"
      "fst (skip_whitespace (Suc p, s)) = Suc p + length w"
      "no_space_start (snd (skip_whitespace (Suc p, s)))"
      using Cons.IH [of "Suc p"] by blast
    with True show ?thesis by (intro exI [of _ "c # w"]) simp
  qed (simp add: no_space_start_def)
qed (simp add: no_space_start_def)

lemma skip_whitespaceE:
  assumes "skip_whitespace (p, s) = (q, r)"
  obtains w where "s = w @ r" "json_space w" "q = p + length w" "no_space_start r"
  using skip_whitespace_split [of s p] assms by auto

lemma consume_simps [simp]:
  "consume c (p, c # s) = Some (Suc p, s)"
  "consume c (p, []) = None"
  "d \<noteq> c \<Longrightarrow> consume c (p, d # s) = None"
  by (simp_all add: consume_def)

lemma consume_eq_Some: "consume c (p, s) = Some (q, r) \<longleftrightarrow> s = c # r \<and> q = Suc p"
  by (auto simp: consume_def split: list.splits if_splits)

subsection \<open>Strings\<close>

lemma parse_unicode_step:
  "parse_unicode_escape (p, s) =
     (if length s < 4 then None
      else case read_hex 0 (take 4 s) of
             None \<Rightarrow> None
           | Some code \<Rightarrow>
               (if \<not> is_high_surrogate code then Some (code, (p + 4, drop 4 s))
                else if length (drop 4 s) < 6 \<or> drop 4 s ! 0 \<noteq> CHR 0x5C \<or> drop 4 s ! 1 \<noteq> CHR ''u''
                then None
                else case parse_unicode_escape (p + 6, drop 2 (drop 4 s)) of
                       None \<Rightarrow> None
                     | Some (low, cur) \<Rightarrow>
                         if is_low_surrogate low then Some (surrogate_pair code low, cur) else None))"
  by (subst parse_unicode_escape.simps)
    (auto simp: is_high_surrogate_def is_low_surrogate_def surrogate_pair_def Let_def
      split: option.splits)

lemma parse_unicode_single:
  assumes "length h = 4" "read_hex 0 h = Some code" "\<not> is_high_surrogate code"
  shows "parse_unicode_escape (p, h @ r) = Some (code, (p + 4, r))"
  using assms by (simp add: parse_unicode_step [of p "h @ r"])

lemma surrogates_disjoint: "is_low_surrogate code \<Longrightarrow> \<not> is_high_surrogate code"
  by (auto simp: is_high_surrogate_def is_low_surrogate_def)

lemma surrogate_pair_not_low: "\<not> is_low_surrogate (surrogate_pair hi lo)"
  by (simp add: is_low_surrogate_def surrogate_pair_def)

lemma parse_unicode_pair:
  assumes "length h = 4" "read_hex 0 h = Some hi" "is_high_surrogate hi"
    and "length l = 4" "read_hex 0 l = Some lo" "is_low_surrogate lo"
  shows "parse_unicode_escape (p, h @ CHR 0x5C # CHR ''u'' # l @ r) =
    Some (surrogate_pair hi lo, (p + 10, r))"
  using assms parse_unicode_single [OF assms(4,5) surrogates_disjoint [OF assms(6)], of "p + 6" r]
  by (simp add: parse_unicode_step [of p])

lemma parse_unicode_first:
  assumes "parse_unicode_escape (p, s) = Some (code, (q, r))"
  obtains (single) h where "s = h @ r" "length h = 4" "read_hex 0 h = Some code"
      "\<not> is_high_surrogate code" "q = p + 4"
  | (pair) h hi low u where "s = h @ CHR 0x5C # CHR ''u'' # u" "length h = 4"
      "read_hex 0 h = Some hi" "is_high_surrogate hi"
      "parse_unicode_escape (p + 6, u) = Some (low, (q, r))" "is_low_surrogate low"
      "code = surrogate_pair hi low"
proof -
  define h where "h = take 4 s"
  from assms have len: "\<not> length s < 4" by (subst (asm) parse_unicode_step) (simp split: if_splits)
  then have h: "length h = 4" "s = h @ drop 4 s" by (simp_all add: h_def)
  from assms len obtain hi where hi: "read_hex 0 h = Some hi"
    by (subst (asm) parse_unicode_step) (auto simp: h_def split: option.splits)
  show thesis
  proof (cases "is_high_surrogate hi")
    case False
    then have "code = hi" "q = p + 4" "r = drop 4 s"
      using assms len hi by (auto simp: parse_unicode_step [of p s] h_def)
    with False h hi show thesis by (intro single [of h]) simp_all
  next
    case True
    define u where "u = drop 2 (drop 4 s)"
    from assms len hi True have pre: "\<not> length (drop 4 s) < 6" "drop 4 s ! 0 = CHR 0x5C" "drop 4 s ! 1 = CHR ''u''"
      by (auto simp: parse_unicode_step [of p s] h_def split: if_splits)
    obtain a b t where dt: "drop 4 s = a # b # t"
      using pre(1) by (cases "drop 4 s"; cases "tl (drop 4 s)") auto
    then have su: "drop 4 s = CHR 0x5C # CHR ''u'' # u" using pre by (simp add: u_def)
    from assms len hi True pre obtain low where
      "parse_unicode_escape (p + 6, u) = Some (low, (q, r))" "is_low_surrogate low"
      "code = surrogate_pair hi low"
      by (subst (asm) parse_unicode_step)
        (auto simp: h_def u_def simp del: drop_drop split: option.splits if_splits)
    with True h hi su show thesis by (intro pair [of h u hi low]) simp_all
  qed
qed

lemma parse_unicode_body:
  assumes "parse_unicode_escape (p, s) = Some (code, (q, r))" "string_body b t"
  shows "\<exists>h. s = h @ r \<and> q = p + length h \<and>
    string_body (encode_utf8 code @ b) (CHR 0x5C # CHR ''u'' # h @ t)"
  using assms(1)
proof (cases rule: parse_unicode_first)
  case (single h)
  with assms(2) show ?thesis by (auto intro!: body_unicode)
next
  case (pair h hi low u)
  from pair(5) obtain l where l: "u = l @ r" "length l = 4" "read_hex 0 l = Some low" "q = p + 6 + 4"
    using pair(6) surrogate_pair_not_low by (cases rule: parse_unicode_first) auto
  have "string_body (encode_utf8 code @ b) (CHR 0x5C # CHR ''u'' # h @ CHR 0x5C # CHR ''u'' # l @ t)"
    unfolding pair(7) by (rule body_pair [OF pair(2,3,4) l(2,3) pair(6) assms(2)])
  with l pair(1,2) show ?thesis
    by (intro exI [of _ "h @ CHR 0x5C # CHR ''u'' # l"]) simp
qed

lemma parse_chars_complete:
  "string_body s t \<Longrightarrow>
    parse_chars p (t @ CHR 0x22 # r) acc = Some (acc @ s, (p + length t + 1, r))"
proof (induction arbitrary: p acc rule: string_body.induct)
  case body_nil
  then show ?case by (simp add: parse_chars.simps(2))
next
  case (body_plain c s t)
  then show ?case by (simp add: parse_chars.simps(2))
next
  case (body_simple e d s t)
  then show ?case by (simp add: parse_chars.simps(2))
next
  case (body_unicode h code s t)
  have "simple_escape (CHR ''u'') = None" by (simp add: simple_escape_def)
  with body_unicode show ?case
    by (simp add: parse_chars.simps(2) parse_unicode_single)
next
  case (body_pair h hi l lo s t)
  have "simple_escape (CHR ''u'') = None" by (simp add: simple_escape_def)
  with body_pair show ?case
    by (simp add: parse_chars.simps(2) parse_unicode_pair)
qed

lemma parse_chars_sound:
  "parse_chars p u acc = Some (res, (q, r)) \<Longrightarrow>
    \<exists>s t. u = t @ CHR 0x22 # r \<and> res = acc @ s \<and> string_body s t \<and> q = p + length t + 1"
proof (induction p u acc rule: parse_chars.induct)
  case (1 p result)
  then show ?case by simp
next
  case (2 p c s acc)
  consider (quote) "c = CHR 0x22" | (esc) "c = CHR 0x5C" | (ctl) "c \<noteq> CHR 0x22" "c \<noteq> CHR 0x5C"
    "of_char c < (0x20::nat)" | (plain) "c \<noteq> CHR 0x22" "c \<noteq> CHR 0x5C" "\<not> of_char c < (0x20::nat)"
    by blast
  then show ?case
  proof cases
    case quote
    with "2.prems" have "u = [] @ u" "res = acc" "r = s" "q = p + 1" for u
      by (simp_all add: parse_chars.simps(2))
    with quote show ?thesis by (intro exI [of _ "[]"]) (simp add: body_nil)
  next
    case ctl
    with "2.prems" show ?thesis by (simp add: parse_chars.simps(2))
  next
    case plain
    with "2.prems" have "parse_chars (p + 1) s (acc @ [c]) = Some (res, (q, r))"
      by (simp add: parse_chars.simps(2))
    from "2.IH"(3) [OF plain(1,2,3) this] obtain s' t where
      "s = t @ CHR 0x22 # r" "res = (acc @ [c]) @ s'" "string_body s' t" "q = p + 1 + length t + 1"
      by blast
    with plain show ?thesis
      by (intro exI [of _ "c # s'"] exI [of _ "c # t"]) (simp add: body_plain)
  next
      case esc
    from "2.prems" esc obtain e t where s: "s = e # t"
      by (cases s) (auto simp: parse_chars.simps(2))
    show ?thesis
    proof (cases "simple_escape e")
      case (Some d)
      with "2.prems" esc s have "parse_chars (p + 2) t (acc @ [d]) = Some (res, (q, r))"
        by (simp add: parse_chars.simps(2))
      from "2.IH"(2) [OF _ esc s Some this] esc obtain s' b where
        "t = b @ CHR 0x22 # r" "res = (acc @ [d]) @ s'" "string_body s' b" "q = p + 2 + length b + 1"
        by auto
      with esc s Some show ?thesis
        by (intro exI [of _ "d # s'"] exI [of _ "CHR 0x5C # e # b"]) (simp add: body_simple)
    next
      case None
      with "2.prems" esc s obtain code q' u where e: "e = CHR ''u''"
        and u: "parse_unicode_escape (p + 2, t) = Some (code, (q', u))"
        and rest: "parse_chars q' u (acc @ encode_utf8 code) = Some (res, (q, r))"
        by (auto simp: parse_chars.simps(2) split: if_splits option.splits)
      from "2.IH"(1) [OF _ esc s None e u refl refl rest] esc obtain s' b where
        b: "u = b @ CHR 0x22 # r" "res = (acc @ encode_utf8 code) @ s'" "string_body s' b"
        "q = q' + length b + 1"
        by auto
      from parse_unicode_body [OF u b(3)] obtain h where
        "t = h @ u" "q' = p + 2 + length h"
        "string_body (encode_utf8 code @ s') (CHR 0x5C # CHR ''u'' # h @ b)" by blast
      with b esc s e show ?thesis
        by (intro exI [of _ "encode_utf8 code @ s'"] exI [of _ "CHR 0x5C # CHR ''u'' # h @ b"]) simp
    qed
  qed
qed

lemma parse_string_iff:
  "parse_string (p, u) = Some (s, (q, r)) \<longleftrightarrow> (\<exists>t. u = t @ r \<and> string_text s t \<and> q = p + length t)"
proof
  assume "parse_string (p, u) = Some (s, (q, r))"
  then obtain u' where u: "u = CHR 0x22 # u'" and "parse_chars (Suc p) u' [] = Some (s, (q, r))"
    by (auto simp: parse_string_def consume_def split: list.splits if_splits)
  from parse_chars_sound [OF this(2)] obtain b where
    "u' = b @ CHR 0x22 # r" "string_body s b" "q = Suc p + length b + 1" by auto
  with u show "\<exists>t. u = t @ r \<and> string_text s t \<and> q = p + length t"
    by (intro exI [of _ "CHR 0x22 # b @ [CHR 0x22]"]) (simp add: string_text_def)
next
  assume "\<exists>t. u = t @ r \<and> string_text s t \<and> q = p + length t"
  then obtain b where "u = CHR 0x22 # b @ CHR 0x22 # r" "string_body s b" "q = p + length b + 2"
    by (auto simp: string_text_def)
  then show "parse_string (p, u) = Some (s, (q, r))"
    by (simp add: parse_string_def parse_chars_complete)
qed

subsection \<open>Numbers\<close>

text \<open>What may follow a number in a document.\<close>

definition number_end :: "string \<Rightarrow> bool" where
  "number_end r =
     (case r of
        [] \<Rightarrow> True
      | c # _ \<Rightarrow> \<not> is_digit_char c \<and> c \<noteq> CHR ''.'' \<and> c \<noteq> CHR ''e'' \<and> c \<noteq> CHR ''E'')"

lemma number_end_no_digit: "number_end r \<Longrightarrow> no_digit_start r"
  by (auto simp: number_end_def no_digit_start_def split: list.splits)

definition np_is_float :: "num_parts \<Rightarrow> bool" where
  "np_is_float np \<longleftrightarrow> np_frac np \<noteq> [] \<or> np_exp np \<noteq> None"

lemma digits_split:
  assumes "starts_digit s"
  obtains ds r where "s = ds @ r" "list_all is_digit_char ds" "ds \<noteq> []" "dropWhile is_digit_char s = r"
proof
  show "s = takeWhile is_digit_char s @ dropWhile is_digit_char s" by simp
  show "list_all is_digit_char (takeWhile is_digit_char s)"
    by (auto simp: list_all_iff dest: set_takeWhileD)
  show "takeWhile is_digit_char s \<noteq> []" using assms by (cases s) (auto simp: starts_digit_def)
qed simp

lemma starts_digit_append: "list_all is_digit_char ds \<Longrightarrow> ds \<noteq> [] \<Longrightarrow> starts_digit (ds @ r)"
  by (cases ds) (auto simp: starts_digit_def)

lemma scan_int_part_complete:
  assumes "list_all is_digit_char ip" "ip \<noteq> []" "hd ip = CHR ''0'' \<longrightarrow> ip = ''0''" "no_digit_start r"
  shows "scan_int_part (ip @ r) = Some r"
  using assms starts_digit_append [OF assms(1,2)] span_digits(2) [OF assms(1,4)]
  by (auto simp: scan_int_part_def)

lemma scan_int_part_sound:
  assumes "scan_int_part s = Some r"
  shows "\<exists>ip. s = ip @ r \<and> list_all is_digit_char ip \<and> ip \<noteq> [] \<and> (hd ip = CHR ''0'' \<longrightarrow> ip = ''0'')"
proof -
  from assms have d: "starts_digit s" by (auto simp: scan_int_part_def split: if_splits)
  then obtain c t where s: "s = c # t" "is_digit_char c" by (cases s) (auto simp: starts_digit_def)
  show ?thesis
  proof (cases "c = CHR ''0''")
    case True
    with assms d s show ?thesis by (intro exI [of _ "''0''"]) (simp add: scan_int_part_def)
  next
    case False
    obtain ds u where "s = ds @ u" "list_all is_digit_char ds" "ds \<noteq> []" "dropWhile is_digit_char s = u"
      using digits_split [OF d] .
    moreover from this have "hd ds = c" using s by (cases ds) auto
    ultimately show ?thesis
      using assms d s False by (intro exI [of _ ds]) (auto simp: scan_int_part_def)
  qed
qed

definition frac_text :: "string \<Rightarrow> string" where
  "frac_text fp = (if fp = [] then [] else CHR ''.'' # fp)"

lemma scan_frac_part_complete:
  assumes "list_all is_digit_char fp" "no_digit_start r" "fp = [] \<longrightarrow> \<not> prefix ''.'' r"
  shows "scan_frac_part (frac_text fp @ r) = Some (fp \<noteq> [], r)"
  using assms starts_digit_append [OF assms(1), of r] span_digits(2) [OF assms(1,2)]
  by (auto simp: scan_frac_part_def frac_text_def split: list.splits)

lemma scan_frac_part_sound:
  assumes "scan_frac_part s = Some (f, r)"
  shows "\<exists>fp. s = frac_text fp @ r \<and> list_all is_digit_char fp \<and> f = (fp \<noteq> [])"
proof (cases "f")
  case True
  with assms obtain t where s: "s = CHR ''.'' # t" and d: "starts_digit t"
    and r: "dropWhile is_digit_char t = r"
    by (auto simp: scan_frac_part_def split: list.splits if_splits)
  obtain ds u where "t = ds @ u" "list_all is_digit_char ds" "ds \<noteq> []" "dropWhile is_digit_char t = u"
    using digits_split [OF d] .
  with s r True show ?thesis by (intro exI [of _ ds]) (simp add: frac_text_def)
next
  case False
  with assms show ?thesis
    by (intro exI [of _ "[]"])
      (auto simp: scan_frac_part_def frac_text_def split: list.splits if_splits)
qed

lemma scan_exponent_part_complete:
  assumes "exp_part_ok x" "number_end r"
  shows "scan_exponent_part (exp_part_text x @ r) = Some (x \<noteq> None, r)"
proof (cases x)
  case None
  with assms(2) show ?thesis
    by (auto simp: exp_part_text_def scan_exponent_part_def number_end_def split: list.splits)
next
  case (Some y)
  obtain mark sg ds where y: "y = (mark, sg, ds)" by (cases y)
  have ds: "list_all is_digit_char ds" "ds \<noteq> []" and mark: "mark = CHR ''e'' \<or> mark = CHR ''E''"
    and sg: "sg = [] \<or> sg = ''+'' \<or> sg = ''-''"
    using assms(1) Some y by (auto simp: exp_part_ok_def)
  obtain d t where dt: "ds = d # t" "is_digit_char d" using ds by (cases ds) auto
  have u: "skip_exp_sign (sg @ ds @ r) = ds @ r"
    using sg digit_not_special [OF dt(2)] by (auto simp: dt(1) skip_exp_sign_def)
  have "scan_exponent_part (mark # sg @ ds @ r) = Some (True, r)"
    unfolding scan_exponent_part_def list.case u
    using mark starts_digit_append [OF ds, of r]
      span_digits(2) [OF ds(1) number_end_no_digit [OF assms(2)]] by simp
  then show ?thesis by (simp add: Some y exp_part_text_def)
qed

lemma scan_exponent_part_sound:
  assumes "scan_exponent_part s = Some (f, r)"
  shows "\<exists>x. s = exp_part_text x @ r \<and> exp_part_ok x \<and> f = (x \<noteq> None)"
proof (cases f)
  case True
  from True assms obtain mark t where s: "s = mark # t" and mark: "mark = CHR ''e'' \<or> mark = CHR ''E''"
    and d: "starts_digit (skip_exp_sign t)" and r: "dropWhile is_digit_char (skip_exp_sign t) = r"
    by (auto simp: scan_exponent_part_def split: list.splits if_splits)
  obtain sg where sg: "t = sg @ skip_exp_sign t" "sg = [] \<or> sg = ''+'' \<or> sg = ''-''"
    by (rule that [of "take (length t - length (skip_exp_sign t)) t"])
      (auto simp: skip_exp_sign_def split: list.splits)
  obtain ds v where "skip_exp_sign t = ds @ v" "list_all is_digit_char ds" "ds \<noteq> []"
    "dropWhile is_digit_char (skip_exp_sign t) = v"
    using digits_split [OF d] .
  with s sg mark r True show ?thesis
    by (intro exI [of _ "Some (mark, sg, ds)"]) (auto simp: exp_part_text_def exp_part_ok_def)
next
  case False
  with assms show ?thesis
    by (intro exI [of _ None])
      (auto simp: scan_exponent_part_def exp_part_text_def exp_part_ok_def
        split: list.splits if_splits)
qed

lemma scan_number_complete:
  assumes "num_parts_ok np" "number_end r"
  shows "scan_number (num_text np @ r) = Some (np_is_float np, r)"
proof -
  have ok: "list_all is_digit_char (np_int np)" "np_int np \<noteq> []"
    "hd (np_int np) = CHR ''0'' \<longrightarrow> np_int np = ''0''" "list_all is_digit_char (np_frac np)"
    "exp_part_ok (np_exp np)" using assms(1) by (simp_all add: num_parts_ok_def)
  define X where "X = exp_part_text (np_exp np) @ r"
  define F where "F = frac_text (np_frac np) @ X"
  have X: "no_digit_start X" "\<not> prefix ''.'' X"
    using exp_part_text_no_digit [OF ok(5)] assms(2)
    by (auto simp: X_def no_digit_start_def number_end_def split: list.splits)
  have nF: "no_digit_start F" using X(1) by (auto simp: F_def frac_text_def no_digit_start_def)
  have whole: "num_text np @ r = (if np_neg np then ''-'' else []) @ np_int np @ F"
    by (simp add: num_text_def F_def X_def frac_text_def)
  obtain d t where dt: "np_int np = d # t" "is_digit_char d" using ok(1,2) by (cases "np_int np") auto
  have s1: "(case num_text np @ r of c # r' \<Rightarrow> if c = CHR ''-'' then r' else num_text np @ r
      | [] \<Rightarrow> num_text np @ r) = np_int np @ F"
    using digit_not_special [OF dt(2)] by (auto simp: whole dt(1))
  have e3: "scan_exponent_part X = Some (np_exp np \<noteq> None, r)"
    unfolding X_def by (rule scan_exponent_part_complete [OF ok(5) assms(2)])
  have e2: "scan_frac_part F = Some (np_frac np \<noteq> [], X)"
    unfolding F_def by (rule scan_frac_part_complete) (use ok X in auto)
  show ?thesis
    unfolding scan_number_def Let_def s1
    by (simp add: scan_int_part_complete [OF ok(1-3) nF] e2 e3 np_is_float_def)
qed

lemma scan_number_sound:
  assumes "scan_number s = Some (f, r)"
  shows "\<exists>np. num_parts_ok np \<and> s = num_text np @ r \<and> f = np_is_float np"
proof -
  define s1 where "s1 = (case s of c # r \<Rightarrow> if c = CHR ''-'' then r else s | [] \<Rightarrow> s)"
  obtain neg where neg: "s = (if neg then ''-'' else []) @ s1"
  proof (cases "prefix ''-'' s")
    case True
    then show thesis by (intro that [of True]) (auto simp: s1_def prefix_def)
  next
    case False
    then show thesis by (intro that [of False]) (auto simp: s1_def prefix_def split: list.splits)
  qed
  from assms obtain s2 f1 s3 f2 where
    1: "scan_int_part s1 = Some s2" and 2: "scan_frac_part s2 = Some (f1, s3)"
    and 3: "scan_exponent_part s3 = Some (f2, r)" and f: "f = (f1 \<or> f2)"
    unfolding scan_number_def Let_def s1_def [symmetric]
    by (clarsimp split: option.splits)
  from scan_int_part_sound [OF 1] obtain ip where ip: "s1 = ip @ s2" "list_all is_digit_char ip"
    "ip \<noteq> []" "hd ip = CHR ''0'' \<longrightarrow> ip = ''0''" by blast
  from scan_frac_part_sound [OF 2] obtain fp where fp: "s2 = frac_text fp @ s3"
    "list_all is_digit_char fp" "f1 = (fp \<noteq> [])" by blast
  from scan_exponent_part_sound [OF 3] obtain x where x: "s3 = exp_part_text x @ r" "exp_part_ok x"
    "f2 = (x \<noteq> None)" by blast
  define np where "np = \<lparr>np_neg = neg, np_int = ip, np_frac = fp, np_exp = x\<rparr>"
  have "num_parts_ok np" using ip fp x by (simp add: np_def num_parts_ok_def)
  moreover have "s = num_text np @ r"
    using neg ip(1) fp(1) x(1) by (simp add: np_def num_text_def frac_text_def)
  moreover have "f = np_is_float np" using f fp(3) x(3) by (simp add: np_def np_is_float_def)
  ultimately show ?thesis by blast
qed

lemma from_chars_num_int:
  assumes "num_parts_ok np" "\<not> np_is_float np"
  shows "from_chars_int64 (num_text np) = num_int np"
proof -
  have t: "num_text np = (if np_neg np then ''-'' else []) @ np_int np"
    using assms(2) by (cases "np_exp np") (simp_all add: num_text_def np_is_float_def exp_part_text_def)
  obtain d ds where d: "np_int np = d # ds" "is_digit_char d"
    using assms(1) by (cases "np_int np") (auto simp: num_parts_ok_def)
  show ?thesis
    using assms digit_not_special [OF d(2)]
    by (auto simp: from_chars_int64_def Let_def t d(1) num_int_def int64_result_def
        num_parts_ok_def np_is_float_def)
qed

lemma parse_float_num:
  "num_parts_ok np \<Longrightarrow> parse_json_number_float (num_text np) =
    (case num_double np of DFin s m e \<Rightarrow> Some (DFin s m e) | _ \<Rightarrow> None)"
  by (simp add: parse_json_number_float_def num_get_double_text split: double.splits)

text \<open>What \<open>parse_number\<close> returns for a number with these parts at offset \<open>p\<close>.\<close>

definition num_json :: "nat \<Rightarrow> num_parts \<Rightarrow> json option" where
  "num_json p np =
     (let sp = (p, p + length (num_text np))
      in case num_int np of
           Some i \<Rightarrow> Some (JInt sp i)
         | None \<Rightarrow> (case num_double np of DFin s m e \<Rightarrow> Some (JFloat sp (DFin s m e)) | _ \<Rightarrow> None))"

lemma parse_number_parts:
  assumes "num_parts_ok np" "scan_number (num_text np @ r) = Some (np_is_float np, r)"
  shows "parse_number (p, num_text np @ r) =
    (case num_json p np of None \<Rightarrow> None | Some v \<Rightarrow> Some (v, (p + length (num_text np), r)))"
proof (cases "np_is_float np")
  case True
  then have "num_int np = None" by (auto simp: num_int_def np_is_float_def)
  with assms True show ?thesis
    by (simp add: parse_number_def num_json_def Let_def parse_float_num set_span_def make_float_def
        split: double.splits)
next
  case False
  with assms from_chars_num_int [OF assms(1) False] show ?thesis
    by (simp add: parse_number_def num_json_def Let_def parse_float_num set_span_def make_float_def
        make_int_def split: double.splits option.splits)
qed

lemma num_json_text: "num_parts_ok np \<Longrightarrow> num_json p np = Some v \<Longrightarrow> json_text p v (num_text np)"
  by (auto simp: num_json_def Let_def split: option.splits double.splits
      intro: text_int text_float)

lemma parse_number_sound:
  assumes "parse_number (p, s) = Some (v, (q, r))"
  shows "\<exists>t. s = t @ r \<and> json_text p v t \<and> q = p + length t"
proof -
  from assms obtain f r' where sc: "scan_number s = Some (f, r')"
    by (auto simp: parse_number_def split: option.splits)
  from scan_number_sound [OF sc] obtain np where
    np: "num_parts_ok np" "s = num_text np @ r'" "f = np_is_float np" by blast
  with sc have sc': "scan_number (num_text np @ r') = Some (np_is_float np, r')" by simp
  from assms parse_number_parts [OF np(1) sc', of p] np have
    "num_json p np = Some v" "r = r'" "q = p + length (num_text np)"
    by (auto split: option.splits)
  with np num_json_text show ?thesis by blast
qed

end
