(* ===== verification/Json_Parser.thy ===== *)
theory Json_Parser
  imports Json_Grammar
begin

section \<open>The JSON parser implements the grammar\<close>

text \<open>
  The two halves of the refinement: whatever the parser returns is derivable (induction on the
  fuel) and whatever is derivable is what the parser returns, with three units of fuel per
  character (rule induction on the derivation). \<open>parse_json_iff\<close> puts them together.
\<close>

subsection \<open>Soundness\<close>

text \<open>What is promised of each of the five functions at a given fuel.\<close>

definition value_sound :: "nat \<Rightarrow> bool" where
  "value_sound fuel \<longleftrightarrow>
     (\<forall>p s v q r. parse_value fuel (p, s) = Some (v, (q, r)) \<longrightarrow>
        (\<exists>w t. s = w @ t @ r \<and> json_space w \<and> json_text (p + length w) v t \<and>
           q = p + length w + length t))"

definition text_sound :: "(cursor \<Rightarrow> (json \<times> cursor) option) \<Rightarrow> bool" where
  "text_sound f \<longleftrightarrow>
     (\<forall>p s v q r. f (p, s) = Some (v, (q, r)) \<longrightarrow>
        (\<exists>t. s = t @ r \<and> json_text p v t \<and> q = p + length t))"

definition array_loop_sound :: "nat \<Rightarrow> bool" where
  "array_loop_sound fuel \<longleftrightarrow>
     (\<forall>start p s sp ys v q r. array_loop fuel start (p, s) (JArray sp ys) = Some (v, (q, r)) \<longrightarrow>
        (\<exists>xs u. s = u @ CHR '']'' # r \<and> json_items p xs u \<and> v = JArray (start, q) (ys @ xs) \<and>
           q = p + length u + 1))"

definition all_present :: "(string \<times> json option) list \<Rightarrow> bool" where
  "all_present fs = list_all (\<lambda>(k, p). p \<noteq> None) fs"

definition object_loop_sound :: "nat \<Rightarrow> bool" where
  "object_loop_sound fuel \<longleftrightarrow>
     (\<forall>start p s sp ys v q r. object_loop fuel start (p, s) (JObject sp ys) = Some (v, (q, r)) \<longrightarrow>
        all_present ys \<longrightarrow> distinct (keys_of ys) \<longrightarrow>
        (\<exists>fs u. s = u @ CHR ''}'' # r \<and> json_members p fs u \<and> v = JObject (start, q) (ys @ fs) \<and>
           distinct (keys_of (ys @ fs)) \<and> q = p + length u + 1))"

lemma text_soundD:
  "text_sound f \<Longrightarrow> f (p, s) = Some (v, (q, r)) \<Longrightarrow>
    \<exists>t. s = t @ r \<and> json_text p v t \<and> q = p + length t"
  unfolding text_sound_def by blast

lemma parse_null_sound: "text_sound parse_null"
  unfolding text_sound_def
proof (intro allI impI)
  fix p s v q r assume "parse_null (p, s) = Some (v, q, r)"
  then have "take 4 s = ''null''" "v = JNull (p, p + 4)" "q = p + 4" "r = drop 4 s"
    by (auto simp: parse_null_def set_span_def make_null_def split: if_splits)
  then show "\<exists>t. s = t @ r \<and> json_text p v t \<and> q = p + length t"
    using append_take_drop_id [of 4 s] text_null [of p] by (intro exI [of _ "''null''"]) simp
qed

lemma parse_bool_sound: "text_sound parse_bool"
  unfolding text_sound_def
proof (intro allI impI)
  fix p s v q r assume a: "parse_bool (p, s) = Some (v, q, r)"
  show "\<exists>t. s = t @ r \<and> json_text p v t \<and> q = p + length t"
  proof (cases "take 4 s = ''true''")
    case True
    with a have "v = JBool (p, p + 4) True" "q = p + 4" "r = drop 4 s"
      by (auto simp: parse_bool_def set_span_def make_bool_def)
    then show ?thesis
      using True append_take_drop_id [of 4 s] text_true [of p] by (intro exI [of _ "''true''"]) simp
  next
    case False
    with a have "take 5 s = ''false''" "v = JBool (p, p + 5) False" "q = p + 5" "r = drop 5 s"
      by (auto simp: parse_bool_def set_span_def make_bool_def split: if_splits)
    then show ?thesis
      using append_take_drop_id [of 5 s] text_false [of p] by (intro exI [of _ "''false''"]) simp
  qed
qed

lemma parse_string_value_sound: "text_sound parse_string_value"
  unfolding text_sound_def
proof (intro allI impI)
  fix p s v q r assume "parse_string_value (p, s) = Some (v, q, r)"
  then obtain str where str: "parse_string (p, s) = Some (str, (q, r))" and v: "v = JString (p, q) str"
    by (auto simp: parse_string_value_def set_span_def make_string_def split: option.splits)
  then show "\<exists>t. s = t @ r \<and> json_text p v t \<and> q = p + length t"
    using text_string by (auto simp: parse_string_iff)
qed

lemma value_step_sound:
  assumes "text_sound (parse_array fuel)" "text_sound (parse_object fuel)"
  shows "value_sound (Suc fuel)"
  unfolding value_sound_def
proof (intro allI impI)
  fix p s v q r assume a: "parse_value (Suc fuel) (p, s) = Some (v, q, r)"
  obtain p1 s1 where sk: "skip_whitespace (p, s) = (p1, s1)" by fastforce
  obtain w where w: "s = w @ s1" "json_space w" "p1 = p + length w" using sk by (rule skip_whitespaceE)
  note num = parse_number_sound
  have "\<exists>t. s1 = t @ r \<and> json_text p1 v t \<and> q = p1 + length t"
    using a sk assms [THEN text_soundD] parse_null_sound [THEN text_soundD]
      parse_bool_sound [THEN text_soundD] parse_string_value_sound [THEN text_soundD] num
    by (cases s1) (auto split: if_splits)
  with w show "\<exists>w t. s = w @ t @ r \<and> json_space w \<and> json_text (p + length w) v t \<and>
      q = p + length w + length t"
    by auto
qed

lemma consume_cases:
  obtains (some) r where "consume c (p, s) = Some (Suc p, r)" "s = c # r"
  | (none) "consume c (p, s) = None"
  by (cases "consume c (p, s)") (auto simp: consume_eq_Some)

lemma json_space_append [simp]: "json_space (w1 @ w2) \<longleftrightarrow> json_space w1 \<and> json_space w2"
  by (simp add: json_space_def)

lemma items_space:
  assumes "json_space w" "json_items (p + length w) xs u"
  shows "json_items p xs (w @ u)"
  using assms(2)
proof cases
  case (items_last w1 v t w2)
  with assms(1) json_text_json_items_json_members.items_last [of "w @ w1" p v t w2] show ?thesis
    by (simp add: add.assoc)
next
  case (items_more w1 v t w2 ys u')
  with assms(1) json_text_json_items_json_members.items_more [of "w @ w1" p v t w2 ys u'] show ?thesis
    by (simp add: add.assoc)
qed

lemma members_space:
  assumes "json_space w" "json_members (p + length w) fs u"
  shows "json_members p fs (w @ u)"
  using assms(2)
proof cases
  case (members_last w1 k kt w2 w3 v t w4)
  with assms(1) json_text_json_items_json_members.members_last [of "w @ w1" k kt w2 w3 p v t w4]
  show ?thesis by (simp add: add.assoc)
next
  case (members_more w1 k kt w2 w3 v t w4 fs' u')
  with assms(1) json_text_json_items_json_members.members_more [of "w @ w1" k kt w2 w3 p v t w4 fs' u']
  show ?thesis by (simp add: add.assoc)
qed

lemma array_step_sound:
  assumes "array_loop_sound fuel"
  shows "text_sound (parse_array (Suc fuel))"
  unfolding text_sound_def
proof (intro allI impI)
  fix p s v q r assume a: "parse_array (Suc fuel) (p, s) = Some (v, q, r)"
  then obtain s1 where s: "s = CHR ''['' # s1" by (cases rule: consume_cases [of "CHR ''[''" p s]) auto
  obtain p2 s2 where sk: "skip_whitespace (Suc p, s1) = (p2, s2)" by fastforce
  obtain w where w: "s1 = w @ s2" "json_space w" "p2 = Suc p + length w" using sk by (rule skip_whitespaceE)
  show "\<exists>t. s = t @ r \<and> json_text p v t \<and> q = p + length t"
  proof (cases rule: consume_cases [of "CHR '']''" p2 s2])
    case (some r2)
    with a s sk have "v = JArray (p, Suc p2) []" "q = Suc p2" "r = r2"
      by (auto simp: set_span_def make_array_def)
    with s w some text_array_empty [OF w(2), of p] show ?thesis
      by (intro exI [of _ "''['' @ w @ '']''"]) simp
  next
    case none
    with a s sk have "array_loop fuel p (p2, s2) (JArray (0, 0) []) = Some (v, q, r)"
      by (simp add: make_array_def)
    with assms obtain xs u where u: "s2 = u @ CHR '']'' # r" "json_items p2 xs u"
      "v = JArray (p, q) xs" "q = p2 + length u + 1"
      unfolding array_loop_sound_def by (metis append_Nil)
    have "json_items (p + 1) xs (w @ u)" using items_space [OF w(2), of "p + 1"] u(2) w(3) by simp
    from text_array [OF this] s w u show ?thesis
      by (intro exI [of _ "''['' @ (w @ u) @ '']''"]) (simp add: add.assoc)
  qed
qed

lemma array_loop_step_sound:
  assumes "value_sound fuel" "array_loop_sound fuel"
  shows "array_loop_sound (Suc fuel)"
  unfolding array_loop_sound_def
proof (intro allI impI)
  fix start p s sp ys v q r
  assume a: "array_loop (Suc fuel) start (p, s) (JArray sp ys) = Some (v, q, r)"
  then obtain item p1 s1 where item: "parse_value fuel (p, s) = Some (item, (p1, s1))"
    by (auto split: option.splits)
  with assms(1) obtain w1 t where t: "s = w1 @ t @ s1" "json_space w1" "json_text (p + length w1) item t"
    "p1 = p + length w1 + length t" unfolding value_sound_def by blast
  obtain p2 s2 where sk: "skip_whitespace (p1, s1) = (p2, s2)" by fastforce
  obtain w2 where w2: "s1 = w2 @ s2" "json_space w2" "p2 = p1 + length w2" using sk by (rule skip_whitespaceE)
  show "\<exists>xs u. s = u @ CHR '']'' # r \<and> json_items p xs u \<and> v = JArray (start, q) (ys @ xs) \<and>
      q = p + length u + 1"
  proof (cases rule: consume_cases [of "CHR '']''" p2 s2])
    case (some r2)
    with a item sk have "v = JArray (start, q) (ys @ [Some item])" "q = Suc p2" "r = r2"
      by (auto simp: set_span_def json_push_def Let_def)
    with t w2 some show ?thesis
      by (intro exI [of _ "[Some item]"] exI [of _ "w1 @ t @ w2"]) (simp add: items_last)
  next
    case none
    with a item sk obtain s3 where s3: "s2 = CHR '','' # s3"
      and rec: "array_loop fuel start (Suc p2, s3) (JArray sp (ys @ [Some item])) = Some (v, q, r)"
      by (cases rule: consume_cases [of "CHR '',''" p2 s2]) (auto simp: json_push_def Let_def)
    from assms(2) rec obtain xs u where "s3 = u @ CHR '']'' # r" "json_items (Suc p2) xs u"
      "v = JArray (start, q) ((ys @ [Some item]) @ xs)" "q = Suc p2 + length u + 1"
      unfolding array_loop_sound_def by blast
    with t w2 s3 items_more [OF t(2,3) w2(2), of xs u] show ?thesis
      by (intro exI [of _ "Some item # xs"] exI [of _ "w1 @ t @ w2 @ '','' @ u"]) simp
  qed
qed

lemma object_step_sound:
  assumes "object_loop_sound fuel"
  shows "text_sound (parse_object (Suc fuel))"
  unfolding text_sound_def
proof (intro allI impI)
  fix p s v q r assume a: "parse_object (Suc fuel) (p, s) = Some (v, q, r)"
  then obtain s1 where s: "s = CHR ''{'' # s1" by (cases rule: consume_cases [of "CHR ''{''" p s]) auto
  obtain p2 s2 where sk: "skip_whitespace (Suc p, s1) = (p2, s2)" by fastforce
  obtain w where w: "s1 = w @ s2" "json_space w" "p2 = Suc p + length w" using sk by (rule skip_whitespaceE)
  show "\<exists>t. s = t @ r \<and> json_text p v t \<and> q = p + length t"
  proof (cases rule: consume_cases [of "CHR ''}''" p2 s2])
    case (some r2)
    with a s sk have "v = JObject (p, Suc p2) []" "q = Suc p2" "r = r2"
      by (auto simp: set_span_def make_object_def)
    with s w some text_object_empty [OF w(2), of p] show ?thesis
      by (intro exI [of _ "''{'' @ w @ ''}''"]) simp
  next
    case none
    with a s sk have l: "object_loop fuel p (p2, s2) (JObject (0, 0) []) = Some (v, q, r)"
      by (simp add: make_object_def)
    obtain fs u where u: "s2 = u @ CHR ''}'' # r" "json_members p2 fs u"
      "v = JObject (p, q) ([] @ fs)" "distinct (keys_of ([] @ fs))" "q = p2 + length u + 1"
      using assms [unfolded object_loop_sound_def, rule_format, OF l] by (auto simp: all_present_def)
    have m: "json_members (p + 1) fs (w @ u)"
      using members_space [OF w(2), of "p + 1"] u(2) w(3) by simp
    from text_object [OF m] s w u show ?thesis
      by (intro exI [of _ "''{'' @ (w @ u) @ ''}''"]) (simp add: add.assoc)
  qed
qed

lemma insert_or_assign_fresh: "k \<notin> set (keys_of fs) \<Longrightarrow> insert_or_assign k v fs = fs @ [(k, v)]"
proof (induction fs)
  case (Cons f fs)
  then show ?case by (cases f) simp
qed simp

lemma json_get_None:
  assumes "all_present ys"
  shows "json_get k (JObject sp ys) = None \<longleftrightarrow> k \<notin> set (keys_of ys)"
  using assms
  by (auto simp: json_get_def all_present_def list_all_iff map_of_eq_None_keys [symmetric]
      split: option.splits dest!: map_of_SomeD)

lemma object_loop_step_sound:
  assumes "value_sound fuel" "object_loop_sound fuel"
  shows "object_loop_sound (Suc fuel)"
  unfolding object_loop_sound_def
proof (intro allI impI)
  fix start p s sp ys v q r
  assume a: "object_loop (Suc fuel) start (p, s) (JObject sp ys) = Some (v, q, r)"
    and ys: "all_present ys" "distinct (keys_of ys)"
  obtain p0 s0 where sk0: "skip_whitespace (p, s) = (p0, s0)" by fastforce
  obtain w1 where w1: "s = w1 @ s0" "json_space w1" "p0 = p + length w1" using sk0 by (rule skip_whitespaceE)
  from a sk0 obtain k p1 s1 where key: "parse_string (p0, s0) = Some (k, (p1, s1))"
    by (auto split: option.splits)
  then obtain kt where kt: "s0 = kt @ s1" "string_text k kt" "p1 = p0 + length kt"
    by (auto simp: parse_string_iff)
  obtain p2 s2 where sk1: "skip_whitespace (p1, s1) = (p2, s2)" by fastforce
  obtain w2 where w2: "s1 = w2 @ s2" "json_space w2" "p2 = p1 + length w2" using sk1 by (rule skip_whitespaceE)
  from a sk0 key sk1 obtain s3 where s3: "s2 = CHR '':'' # s3"
    by (cases rule: consume_cases [of "CHR '':''" p2 s2]) auto
  from a sk0 key sk1 s3 obtain item p4 s4 where item: "parse_value fuel (Suc p2, s3) = Some (item, (p4, s4))"
    by (auto split: option.splits)
  with assms(1) obtain w3 t where t: "s3 = w3 @ t @ s4" "json_space w3"
    "json_text (Suc p2 + length w3) item t" "p4 = Suc p2 + length w3 + length t"
    unfolding value_sound_def by blast
  obtain p5 s5 where sk2: "skip_whitespace (p4, s4) = (p5, s5)" by fastforce
  obtain w4 where w4: "s4 = w4 @ s5" "json_space w4" "p5 = p4 + length w4" using sk2 by (rule skip_whitespaceE)
  from a sk0 key sk1 s3 item have fresh: "json_get k (JObject sp ys) = None" by (simp split: if_splits)
  then have k: "k \<notin> set (keys_of ys)" using json_get_None [OF ys(1)] by simp
  have set: "json_set k (Some item) (JObject sp ys) = JObject sp (ys @ [(k, Some item)])"
    using k by (simp add: json_set_def insert_or_assign_fresh)
  have pos: "json_text (p + length w1 + length kt + length w2 + 1 + length w3) item t"
    using t(3) w1 kt w2 by (simp add: ac_simps)
  note last = members_last [OF w1(2) kt(2) w2(2) t(2) pos w4(2)]
  note more = members_more [OF w1(2) kt(2) w2(2) t(2) pos w4(2)]
  note eqs = w1(1,3) kt(1,3) w2(1,3) s3 t(1,4) w4(1,3)
  show "\<exists>fs u. s = u @ CHR ''}'' # r \<and> json_members p fs u \<and> v = JObject (start, q) (ys @ fs) \<and>
      distinct (keys_of (ys @ fs)) \<and> q = p + length u + 1"
  proof (cases rule: consume_cases [of "CHR ''}''" p5 s5])
    case (some r2)
    with a sk0 key sk1 s3 item fresh sk2 set
    have "v = JObject (start, q) (ys @ [(k, Some item)])" "q = Suc p5" "r = r2"
      by (auto simp: set_span_def Let_def)
    with eqs some last k ys(2) show ?thesis
      by (intro exI [of _ "[(k, Some item)]"] exI [of _ "w1 @ kt @ w2 @ '':'' @ w3 @ t @ w4"]) simp
  next
    case none
    with a sk0 key sk1 s3 item fresh sk2 set obtain s6 where s6: "s5 = CHR '','' # s6"
      and rec: "object_loop fuel start (Suc p5, s6) (JObject sp (ys @ [(k, Some item)])) = Some (v, q, r)"
      by (cases rule: consume_cases [of "CHR '',''" p5 s5]) (auto simp: Let_def)
    have "all_present (ys @ [(k, Some item)])" "distinct (keys_of (ys @ [(k, Some item)]))"
      using ys k by (simp_all add: all_present_def)
    with assms(2) rec obtain fs u where u: "s6 = u @ CHR ''}'' # r" "json_members (Suc p5) fs u"
      "v = JObject (start, q) ((ys @ [(k, Some item)]) @ fs)"
      "distinct (keys_of ((ys @ [(k, Some item)]) @ fs))" "q = Suc p5 + length u + 1"
      unfolding object_loop_sound_def by blast
    have "json_members p ((k, Some item) # fs) (w1 @ kt @ w2 @ '':'' @ w3 @ t @ w4 @ '','' @ u)"
      by (rule more) (use u(2) eqs in \<open>simp add: ac_simps\<close>)
    with eqs s6 u show ?thesis
      by (intro exI [of _ "(k, Some item) # fs"]
          exI [of _ "w1 @ kt @ w2 @ '':'' @ w3 @ t @ w4 @ '','' @ u"]) simp
  qed
qed

lemma parser_sound:
  "value_sound fuel \<and> text_sound (parse_array fuel) \<and> text_sound (parse_object fuel) \<and>
    array_loop_sound fuel \<and> object_loop_sound fuel"
proof (induction fuel)
  case 0
  show ?case
    by (simp add: value_sound_def text_sound_def array_loop_sound_def object_loop_sound_def)
next
  case (Suc fuel)
  then show ?case
    by (intro conjI value_step_sound array_step_sound object_step_sound array_loop_step_sound
        object_loop_step_sound) blast+
qed

subsection \<open>Completeness\<close>

definition value_end :: "string \<Rightarrow> bool" where
  "value_end r =
     (case r of [] \<Rightarrow> True | c # _ \<Rightarrow> is_json_space c \<or> c = CHR '','' \<or> c = CHR '']'' \<or> c = CHR ''}'')"

lemma value_end_number_end: "value_end r \<Longrightarrow> number_end r"
  by (auto simp: value_end_def number_end_def is_json_space_def is_digit_char_def split: list.splits)

lemma value_end_space: "json_space w \<Longrightarrow> value_end (c # r) \<Longrightarrow> value_end (w @ c # r)"
  by (cases w) (auto simp: value_end_def)

lemma parse_value_space:
  "json_space w \<Longrightarrow> parse_value fuel (p, w @ s) = parse_value fuel (p + length w, s)"
  by (cases fuel) (simp_all add: skip_whitespace_space)

lemma array_loop_space:
  "json_space w \<Longrightarrow> array_loop fuel start (p, w @ s) arr = array_loop fuel start (p + length w, s) arr"
  by (cases fuel) (simp_all add: parse_value_space)

lemma object_loop_space:
  "json_space w \<Longrightarrow> object_loop fuel start (p, w @ s) obj = object_loop fuel start (p + length w, s) obj"
  by (cases fuel) (simp_all add: skip_whitespace_space)

text \<open>The first character of the text of a value.\<close>

definition value_start :: "char \<Rightarrow> bool" where
  "value_start c \<longleftrightarrow>
     c = CHR 0x22 \<or> c = CHR ''{'' \<or> c = CHR ''['' \<or> c = CHR ''t'' \<or> c = CHR ''f'' \<or> c = CHR ''n'' \<or>
     c = CHR ''-'' \<or> is_digit_char c"

lemma value_start_props:
  "value_start c \<Longrightarrow> \<not> is_json_space c \<and> c \<noteq> CHR '']'' \<and> c \<noteq> CHR ''}''"
  by (auto simp: value_start_def is_json_space_def is_digit_char_def)

lemma num_text_start:
  assumes "num_parts_ok np"
  shows "\<exists>c u. num_text np = c # u \<and> (c = CHR ''-'' \<or> is_digit_char c)"
  using assms by (cases "np_int np") (auto simp: num_text_def num_parts_ok_def)

lemma json_text_start: "json_text p v t \<Longrightarrow> \<exists>c u. t = c # u \<and> value_start c"
  by (cases rule: json_text.cases)
    (auto simp: value_start_def string_text_def dest!: num_text_start)

lemma skip_first: "\<not> is_json_space c \<Longrightarrow> skip_whitespace (p, c # s) = (p, c # s)"
  by simp

lemma parse_number_complete:
  assumes "num_parts_ok np" "num_json p np = Some v" "value_end r"
  shows "parse_value (Suc fuel) (p, num_text np @ r) = Some (v, (p + length (num_text np), r))"
proof -
  obtain c u where cu: "num_text np = c # u" "c = CHR ''-'' \<or> is_digit_char c"
    using num_text_start [OF assms(1)] by blast
  have ns: "\<not> is_json_space c" "c \<noteq> CHR 0x22" "c \<noteq> CHR ''{''" "c \<noteq> CHR ''[''" "c \<noteq> CHR ''t''"
    "c \<noteq> CHR ''f''" "c \<noteq> CHR ''n''"
    using cu(2) by (auto simp: is_json_space_def is_digit_char_def)
  have "parse_value (Suc fuel) (p, num_text np @ r) = parse_number (p, num_text np @ r)"
    using ns cu by simp
  also have "\<dots> = Some (v, (p + length (num_text np), r))"
    using parse_number_parts [OF assms(1) scan_number_complete [OF assms(1) value_end_number_end [OF assms(3)]]]
      assms(2) by simp
  finally show ?thesis .
qed

lemma items_start:
  assumes "json_items p xs u"
  obtains w c s where "u = w @ c # s" "json_space w" "value_start c"
  using assms
proof cases
  case (items_last w1 v t w2)
  moreover from items_last obtain c r where "t = c # r" "value_start c" using json_text_start by blast
  ultimately show ?thesis using that [of w1 c "r @ w2"] by simp
next
  case (items_more w1 v t w2 ys u')
  moreover from items_more obtain c r where "t = c # r" "value_start c" using json_text_start by blast
  ultimately show ?thesis using that [of w1 c "r @ w2 @ '','' @ u'"] by simp
qed

lemma members_start:
  assumes "json_members p fs u"
  obtains w s where "u = w @ CHR 0x22 # s" "json_space w"
  using assms
proof cases
  case (members_last w1 k kt w2 w3 v t w4)
  then show ?thesis using that by (auto simp: string_text_def)
next
  case (members_more w1 k kt w2 w3 v t w4 fs' u')
  then show ?thesis using that by (auto simp: string_text_def)
qed

text \<open>The opening bracket: the loop starts behind the white space of the first item.\<close>

lemma parse_array_items:
  assumes "json_items (Suc p) xs u"
  shows "parse_array (Suc fuel) (p, CHR ''['' # u @ CHR '']'' # r) =
    array_loop fuel p (Suc p, u @ CHR '']'' # r) make_array"
proof -
  obtain w c s where u: "u = w @ c # s" "json_space w" "value_start c" using items_start [OF assms] .
  note c = value_start_props [OF u(3)]
  show ?thesis
    using u(1,2) c array_loop_space [OF u(2), of fuel p "Suc p" "c # s @ CHR '']'' # r" make_array]
    by (simp add: skip_whitespace_space Let_def)
qed

lemma parse_object_members:
  assumes "json_members (Suc p) fs u"
  shows "parse_object (Suc fuel) (p, CHR ''{'' # u @ CHR ''}'' # r) =
    object_loop fuel p (Suc p, u @ CHR ''}'' # r) make_object"
proof -
  obtain w s where u: "u = w @ CHR 0x22 # s" "json_space w" using members_start [OF assms] .
  have "\<not> is_json_space (CHR 0x22)" by (simp add: is_json_space_def)
  then show ?thesis
    using u object_loop_space [OF u(2), of fuel p "Suc p" "CHR 0x22 # s @ CHR ''}'' # r" make_object]
    by (simp add: skip_whitespace_space Let_def)
qed

lemma parse_string_text: "string_text k kt \<Longrightarrow> parse_string (p, kt @ r) = Some (k, (p + length kt, r))"
  by (auto simp: parse_string_iff)

lemma skip_string_text: "string_text k kt \<Longrightarrow> skip_whitespace (p, kt @ r) = (p, kt @ r)"
  by (auto simp: string_text_def is_json_space_def)

lemma skip_delim:
  "json_space w \<Longrightarrow> \<not> is_json_space c \<Longrightarrow>
    skip_whitespace (p, w @ c # r) = (p + length w, c # r)"
  by (simp add: skip_whitespace_space)

lemma delims_no_space [simp]:
  "\<not> is_json_space (CHR '','')" "\<not> is_json_space (CHR '']'')" "\<not> is_json_space (CHR ''}'')"
  "\<not> is_json_space (CHR '':'')" "\<not> is_json_space (CHR ''['')" "\<not> is_json_space (CHR ''{'')"
  by (simp_all add: is_json_space_def)

lemma value_end_delims [simp]:
  "value_end (CHR '','' # r)" "value_end (CHR '']'' # r)" "value_end (CHR ''}'' # r)"
  by (simp_all add: value_end_def)

lemma array_loop_item:
  assumes "parse_value fuel (p + length w1, t @ w2 @ c # r) = Some (v, (p + length w1 + length t, w2 @ c # r))"
    and "json_space w1" "json_space w2" "\<not> is_json_space c"
  shows "array_loop (Suc fuel) start (p, w1 @ t @ w2 @ c # r) (JArray sp ys) =
    (let q = p + length w1 + length t + length w2
     in case consume (CHR '']'') (q, c # r) of
          Some (q', r') \<Rightarrow> Some (JArray (start, q') (ys @ [Some v]), (q', r'))
        | None \<Rightarrow> (case consume (CHR '','') (q, c # r) of
                    None \<Rightarrow> None
                  | Some cur \<Rightarrow> array_loop fuel start cur (JArray sp (ys @ [Some v]))))"
  using assms parse_value_space [OF assms(2), of fuel p "t @ w2 @ c # r"]
  by (simp add: skip_delim json_push_def set_span_def Let_def split: option.splits)

lemma object_loop_member:
  assumes "parse_value fuel (p + length w1 + length kt + length w2 + 1 + length w3, t @ w4 @ c # r) =
      Some (v, (p + length w1 + length kt + length w2 + 1 + length w3 + length t, w4 @ c # r))"
    and "json_space w1" "string_text k kt" "json_space w2" "json_space w3" "json_space w4"
    and "\<not> is_json_space c" "k \<notin> set (keys_of ys)"
  shows "object_loop (Suc fuel) start (p, w1 @ kt @ w2 @ CHR '':'' # w3 @ t @ w4 @ c # r) (JObject sp ys) =
    (let q = p + length w1 + length kt + length w2 + 1 + length w3 + length t + length w4
     in case consume (CHR ''}'') (q, c # r) of
          Some (q', r') \<Rightarrow> Some (JObject (start, q') (ys @ [(k, Some v)]), (q', r'))
        | None \<Rightarrow> (case consume (CHR '','') (q, c # r) of
                    None \<Rightarrow> None
                  | Some cur \<Rightarrow> object_loop fuel start cur (JObject sp (ys @ [(k, Some v)]))))"
proof -
  have g: "json_get k (JObject sp ys) = None"
    using assms(8) by (simp add: json_get_def map_of_eq_None_keys [THEN iffD2])
  show ?thesis
    using assms parse_value_space [OF assms(5), of fuel "Suc (p + length w1 + length kt + length w2)" "t @ w4 @ c # r"]
    by (simp add: g skip_whitespace_space skip_string_text parse_string_text skip_delim
        insert_or_assign_fresh json_set_def set_span_def Let_def split: option.splits)
qed

text \<open>What is promised for a derivable text: enough fuel, and the parser returns its value.\<close>

definition value_complete :: "nat \<Rightarrow> json \<Rightarrow> string \<Rightarrow> bool" where
  "value_complete p v t \<longleftrightarrow>
     (\<forall>fuel r. 3 * length t \<le> fuel \<longrightarrow> value_end r \<longrightarrow>
        parse_value fuel (p, t @ r) = Some (v, (p + length t, r)))"

definition items_complete :: "nat \<Rightarrow> json option list \<Rightarrow> string \<Rightarrow> bool" where
  "items_complete p xs u \<longleftrightarrow>
     (\<forall>fuel start sp ys r. 3 * length u + 1 \<le> fuel \<longrightarrow>
        array_loop fuel start (p, u @ CHR '']'' # r) (JArray sp ys) =
          Some (JArray (start, p + length u + 1) (ys @ xs), (p + length u + 1, r)))"

definition members_complete :: "nat \<Rightarrow> (string \<times> json option) list \<Rightarrow> string \<Rightarrow> bool" where
  "members_complete p fs u \<longleftrightarrow>
     (\<forall>fuel start sp gs r. 3 * length u + 1 \<le> fuel \<longrightarrow> distinct (keys_of (gs @ fs)) \<longrightarrow>
        object_loop fuel start (p, u @ CHR ''}'' # r) (JObject sp gs) =
          Some (JObject (start, p + length u + 1) (gs @ fs), (p + length u + 1, r)))"

lemma value_completeI:
  assumes "length t \<noteq> 0"
    and "\<And>f r. 3 * length t \<le> Suc f \<Longrightarrow> value_end r \<Longrightarrow>
      parse_value (Suc f) (p, t @ r) = Some (v, (p + length t, r))"
  shows "value_complete p v t"
  unfolding value_complete_def
proof (intro allI impI)
  fix fuel r assume "3 * length t \<le> fuel" "value_end r"
  then show "parse_value fuel (p, t @ r) = Some (v, (p + length t, r))"
    using assms by (cases fuel) auto
qed

lemma literals_complete:
  "value_complete p (JNull (p, p + 4)) ''null''"
  "value_complete p (JBool (p, p + 4) True) ''true''"
  "value_complete p (JBool (p, p + 5) False) ''false''"
  by (rule value_completeI; simp add: is_json_space_def parse_null_def parse_bool_def set_span_def
      make_null_def make_bool_def)+

lemma number_complete:
  assumes "num_parts_ok np" "num_json p np = Some v"
  shows "value_complete p v (num_text np)"
  using num_text_start [OF assms(1)]
  by (intro value_completeI parse_number_complete [OF assms]) auto

lemma string_complete:
  assumes "string_text s t"
  shows "value_complete p (JString (p, p + length t) s) t"
proof -
  obtain u where u: "t = CHR 0x22 # u" using assms by (auto simp: string_text_def)
  show ?thesis
    by (rule value_completeI; use u parse_string_text [OF assms, of p] in
        \<open>simp add: is_json_space_def parse_string_value_def set_span_def make_string_def\<close>)
qed

lemma array_empty_complete:
  assumes "json_space w"
  shows "value_complete p (JArray (p, p + length w + 2) []) (''['' @ w @ '']'')"
proof (rule value_completeI)
  fix f r assume "3 * length (''['' @ w @ '']'') \<le> Suc f"
  then obtain g where "f = Suc g" by (cases f) auto
  then show "parse_value (Suc f) (p, (''['' @ w @ '']'') @ r) =
      Some (JArray (p, p + length w + 2) [], (p + length (''['' @ w @ '']''), r))"
    using assms by (simp add: skip_delim set_span_def make_array_def)
qed simp

lemma object_empty_complete:
  assumes "json_space w"
  shows "value_complete p (JObject (p, p + length w + 2) []) (''{'' @ w @ ''}'')"
proof (rule value_completeI)
  fix f r assume "3 * length (''{'' @ w @ ''}'') \<le> Suc f"
  then obtain g where "f = Suc g" by (cases f) auto
  then show "parse_value (Suc f) (p, (''{'' @ w @ ''}'') @ r) =
      Some (JObject (p, p + length w + 2) [], (p + length (''{'' @ w @ ''}''), r))"
    using assms by (simp add: skip_delim set_span_def make_object_def)
qed simp

lemma array_complete:
  assumes "json_items (p + 1) xs t" "items_complete (p + 1) xs t"
  shows "value_complete p (JArray (p, p + length t + 2) xs) (''['' @ t @ '']'')"
proof (rule value_completeI)
  fix f r assume "3 * length (''['' @ t @ '']'') \<le> Suc f"
  then obtain g where "f = Suc g" "3 * length t + 1 \<le> g" by (cases f) auto
  then show "parse_value (Suc f) (p, (''['' @ t @ '']'') @ r) =
      Some (JArray (p, p + length t + 2) xs, (p + length (''['' @ t @ '']''), r))"
    using assms parse_array_items [of p xs t g r]
    by (simp add: make_array_def items_complete_def del: parse_array.simps)
qed simp

lemma object_complete:
  assumes "json_members (p + 1) fs t" "members_complete (p + 1) fs t" "distinct (keys_of fs)"
  shows "value_complete p (JObject (p, p + length t + 2) fs) (''{'' @ t @ ''}'')"
proof (rule value_completeI)
  fix f r assume "3 * length (''{'' @ t @ ''}'') \<le> Suc f"
  then obtain g where "f = Suc g" "3 * length t + 1 \<le> g" by (cases f) auto
  then show "parse_value (Suc f) (p, (''{'' @ t @ ''}'') @ r) =
      Some (JObject (p, p + length t + 2) fs, (p + length (''{'' @ t @ ''}''), r))"
    using assms parse_object_members [of p fs t g r]
    by (simp add: make_object_def members_complete_def del: parse_object.simps)
qed simp

text \<open>One item, and the delimiter \<open>c\<close> behind it.\<close>

lemma value_complete_delim:
  assumes "value_complete p v t" "3 * length t \<le> f" "json_space w" "value_end (c # r)"
  shows "parse_value f (p, t @ w @ c # r) = Some (v, (p + length t, w @ c # r))"
  using assms value_end_space [OF assms(3,4)] by (simp add: value_complete_def)

lemma items_last_complete:
  assumes "json_space w1" "value_complete (p + length w1) v t" "json_space w2"
  shows "items_complete p [Some v] (w1 @ t @ w2)"
  unfolding items_complete_def
proof (intro allI impI)
  fix fuel start sp ys r assume "3 * length (w1 @ t @ w2) + 1 \<le> fuel"
  then obtain f where f: "fuel = Suc f" "3 * length t \<le> f" by (cases fuel) auto
  from array_loop_item [OF value_complete_delim [OF assms(2) f(2) assms(3)] assms(1,3)] f(1)
  show "array_loop fuel start (p, (w1 @ t @ w2) @ CHR '']'' # r) (JArray sp ys) =
      Some (JArray (start, p + length (w1 @ t @ w2) + 1) (ys @ [Some v]),
        (p + length (w1 @ t @ w2) + 1, r))"
    by (simp add: add.assoc Let_def del: array_loop.simps)
qed

lemma items_more_complete:
  assumes "json_space w1" "value_complete (p + length w1) v t" "json_space w2"
    and "items_complete (p + length w1 + length t + length w2 + 1) xs u"
  shows "items_complete p (Some v # xs) (w1 @ t @ w2 @ '','' @ u)"
  unfolding items_complete_def
proof (intro allI impI)
  fix fuel start sp ys r assume "3 * length (w1 @ t @ w2 @ '','' @ u) + 1 \<le> fuel"
  then obtain f where f: "fuel = Suc f" "3 * length t \<le> f" "3 * length u + 1 \<le> f" by (cases fuel) auto
  define r' where "r' = u @ CHR '']'' # r"
  from array_loop_item [OF value_complete_delim [OF assms(2) f(2) assms(3)] assms(1,3)] f(1)
  have "array_loop fuel start (p, w1 @ t @ w2 @ CHR '','' # r') (JArray sp ys) =
      array_loop f start (p + length w1 + length t + length w2 + 1, r') (JArray sp (ys @ [Some v]))"
    by (simp add: Let_def del: array_loop.simps)
  with assms(4) [unfolded items_complete_def, rule_format, OF f(3), of start r sp "ys @ [Some v]"]
  show "array_loop fuel start (p, (w1 @ t @ w2 @ '','' @ u) @ CHR '']'' # r) (JArray sp ys) =
      Some (JArray (start, p + length (w1 @ t @ w2 @ '','' @ u) + 1) (ys @ Some v # xs),
        (p + length (w1 @ t @ w2 @ '','' @ u) + 1, r))"
    by (simp add: r'_def add.assoc del: array_loop.simps)
qed

lemma members_last_complete:
  assumes "json_space w1" "string_text k kt" "json_space w2" "json_space w3"
    and "value_complete (p + length w1 + length kt + length w2 + 1 + length w3) v t" "json_space w4"
  shows "members_complete p [(k, Some v)] (w1 @ kt @ w2 @ '':'' @ w3 @ t @ w4)"
  unfolding members_complete_def
proof (intro allI impI)
  fix fuel start sp gs r
  assume "3 * length (w1 @ kt @ w2 @ '':'' @ w3 @ t @ w4) + 1 \<le> fuel"
    and d: "distinct (keys_of (gs @ [(k, Some v)]))"
  then obtain f where f: "fuel = Suc f" "3 * length t \<le> f" by (cases fuel) auto
  from d have k: "k \<notin> set (keys_of gs)" by simp
  from object_loop_member [OF value_complete_delim [OF assms(5) f(2) assms(6)] assms(1-4) assms(6) _ k] f(1)
  show "object_loop fuel start (p, (w1 @ kt @ w2 @ '':'' @ w3 @ t @ w4) @ CHR ''}'' # r) (JObject sp gs) =
      Some (JObject (start, p + length (w1 @ kt @ w2 @ '':'' @ w3 @ t @ w4) + 1) (gs @ [(k, Some v)]),
        (p + length (w1 @ kt @ w2 @ '':'' @ w3 @ t @ w4) + 1, r))"
    by (simp add: add.assoc Let_def del: object_loop.simps)
qed

lemma members_more_complete:
  assumes "json_space w1" "string_text k kt" "json_space w2" "json_space w3"
    and "value_complete (p + length w1 + length kt + length w2 + 1 + length w3) v t" "json_space w4"
    and "members_complete
      (p + length w1 + length kt + length w2 + 1 + length w3 + length t + length w4 + 1) fs u"
  shows "members_complete p ((k, Some v) # fs) (w1 @ kt @ w2 @ '':'' @ w3 @ t @ w4 @ '','' @ u)"
  unfolding members_complete_def
proof (intro allI impI)
  fix fuel start sp gs r
  assume "3 * length (w1 @ kt @ w2 @ '':'' @ w3 @ t @ w4 @ '','' @ u) + 1 \<le> fuel"
    and d: "distinct (keys_of (gs @ (k, Some v) # fs))"
  then obtain f where f: "fuel = Suc f" "3 * length t \<le> f" "3 * length u + 1 \<le> f" by (cases fuel) auto
  from d have k: "k \<notin> set (keys_of gs)" and d': "distinct (keys_of ((gs @ [(k, Some v)]) @ fs))" by auto
  define r' where "r' = u @ CHR ''}'' # r"
  from object_loop_member [OF value_complete_delim [OF assms(5) f(2) assms(6)] assms(1-4) assms(6) _ k] f(1)
  have "object_loop fuel start (p, w1 @ kt @ w2 @ CHR '':'' # w3 @ t @ w4 @ CHR '','' # r') (JObject sp gs) =
      object_loop f start
        (p + length w1 + length kt + length w2 + 1 + length w3 + length t + length w4 + 1, r')
        (JObject sp (gs @ [(k, Some v)]))"
    by (simp add: Let_def del: object_loop.simps)
  with assms(7) [unfolded members_complete_def, rule_format, OF f(3) d', of start r sp]
  show "object_loop fuel start (p, (w1 @ kt @ w2 @ '':'' @ w3 @ t @ w4 @ '','' @ u) @ CHR ''}'' # r)
        (JObject sp gs) =
      Some (JObject (start, p + length (w1 @ kt @ w2 @ '':'' @ w3 @ t @ w4 @ '','' @ u) + 1)
          (gs @ (k, Some v) # fs),
        (p + length (w1 @ kt @ w2 @ '':'' @ w3 @ t @ w4 @ '','' @ u) + 1, r))"
    by (simp add: r'_def add.assoc del: object_loop.simps)
qed

lemma parser_complete:
  "json_text p v t \<Longrightarrow> value_complete p v t"
  "json_items p xs u \<Longrightarrow> items_complete p xs u"
  "json_members p fs u \<Longrightarrow> members_complete p fs u"
proof (induction rule: json_text_json_items_json_members.inducts)
  case (text_int np i p)
  then show ?case by (intro number_complete) (simp_all add: num_json_def)
next
  case (text_float np s m e p)
  then show ?case by (intro number_complete) (simp_all add: num_json_def)
qed (simp_all only: literals_complete string_complete array_empty_complete array_complete
    object_empty_complete object_complete items_last_complete items_more_complete
    members_last_complete members_more_complete)

subsection \<open>The parser implements the grammar\<close>

theorem parse_json_iff: "parse_json input = Some v \<longleftrightarrow> json_document v input"
proof
  assume "parse_json input = Some v"
  then obtain q r where r: "parse_value (3 * length input + 3) (skip_whitespace (0, input)) = Some (v, (q, r))"
    and e: "snd (skip_whitespace (q, r)) = []"
    by (auto simp: parse_json_def split: option.splits list.splits prod.splits)
  obtain p1 s1 where sk: "skip_whitespace (0, input) = (p1, s1)" by fastforce
  obtain w where w: "input = w @ s1" "json_space w" "p1 = 0 + length w" using sk by (rule skip_whitespaceE)
  from parser_sound r sk obtain w' t where t: "s1 = w' @ t @ r" "json_space w'" "json_text (p1 + length w') v t"
    unfolding value_sound_def by (metis (no_types, lifting))
  obtain q' where "skip_whitespace (q, r) = (q', [])" using e by (cases "skip_whitespace (q, r)") simp
  then have "json_space r" by (rule skip_whitespaceE) simp
  with w t show "json_document v input"
    unfolding json_document_def by (intro exI [of _ "w @ w'"] exI [of _ t] exI [of _ r]) simp
next
  assume "json_document v input"
  then obtain w1 t w2 where i: "input = w1 @ t @ w2" "json_space w1" "json_space w2"
    and t: "json_text (length w1) v t" by (auto simp: json_document_def)
  obtain c u where c: "t = c # u" "value_start c" using json_text_start [OF t] by blast
  have sk: "skip_whitespace (0, input) = (length w1, t @ w2)"
    using i c value_start_props [OF c(2)] by (simp add: skip_whitespace_space)
  have "value_end w2" using i(3) by (cases w2) (auto simp: value_end_def)
  then have "parse_value (3 * length input + 3) (length w1, t @ w2) = Some (v, (length w1 + length t, w2))"
    using parser_complete(1) [OF t] i by (simp add: value_complete_def)
  moreover have "skip_whitespace (length w1 + length t, w2) = (length w1 + length t + length w2, [])"
    using skip_whitespace_space [OF i(3), of "length w1 + length t" "[]"] by simp
  ultimately show "parse_json input = Some v" by (simp add: parse_json_def sk)
qed

end
