(* ===== verification/Json_Roundtrip.thy ===== *)
theory Json_Roundtrip
  imports Json_Parser
begin

section \<open>Serialized JSON\<close>

text \<open>
  What the parser makes of the text \<open>serialize_json\<close> writes. \<open>denotes v t\<close> says that the text
  \<open>t\<close> denotes, at every offset, a value that is \<open>v\<close> up to the offsets; the lemmas on it also
  serve the writer of runtime values in \<open>Value_Json\<close>.
\<close>

subsection \<open>Values up to their offsets\<close>

fun erase_spans :: "json \<Rightarrow> json"
  and erase_items :: "json option list \<Rightarrow> json option list"
  and erase_members :: "(string \<times> json option) list \<Rightarrow> (string \<times> json option) list" where
  "erase_spans (JNull _) = JNull (0, 0)"
| "erase_spans (JBool _ b) = JBool (0, 0) b"
| "erase_spans (JInt _ i) = JInt (0, 0) i"
| "erase_spans (JFloat _ d) = JFloat (0, 0) d"
| "erase_spans (JString _ s) = JString (0, 0) s"
| "erase_spans (JArray _ xs) = JArray (0, 0) (erase_items xs)"
| "erase_spans (JObject _ fs) = JObject (0, 0) (erase_members fs)"
| "erase_items [] = []"
| "erase_items (None # xs) = None # erase_items xs"
| "erase_items (Some v # xs) = Some (erase_spans v) # erase_items xs"
| "erase_members [] = []"
| "erase_members ((k, None) # fs) = (k, None) # erase_members fs"
| "erase_members ((k, Some v) # fs) = (k, Some (erase_spans v)) # erase_members fs"

lemma keys_erase_members [simp]: "keys_of (erase_members fs) = keys_of fs"
proof (induction fs)
  case (Cons f fs)
  then show ?case by (cases f; cases "snd f") auto
qed simp

definition denotes :: "json \<Rightarrow> string \<Rightarrow> bool" where
  "denotes e t \<longleftrightarrow> (\<forall>p. \<exists>v. json_text p v t \<and> erase_spans v = e)"

lemma denotes_parse:
  assumes "denotes e t"
  shows "\<exists>v. parse_json t = Some v \<and> erase_spans v = e"
proof -
  from assms obtain v where v: "json_text 0 v t" "erase_spans v = e" by (auto simp: denotes_def)
  then have "json_document v t"
    unfolding json_document_def by (intro exI [of _ "[]"] exI [of _ t]) simp
  with v show ?thesis by (auto simp: parse_json_iff)
qed

lemma denotes_literals:
  "denotes (JNull (0, 0)) ''null''"
  "denotes (JBool (0, 0) b) (if b then ''true'' else ''false'')"
  using text_null text_true text_false by (fastforce simp: denotes_def)+

lemma denotes_string: "string_text s t \<Longrightarrow> denotes (JString (0, 0) s) t"
  using text_string by (fastforce simp: denotes_def)

text \<open>The value a number with these parts is read as.\<close>

lemma denotes_num:
  assumes "num_parts_ok np" "num_json 0 np = Some v"
  shows "denotes (erase_spans v) (num_text np)"
  unfolding denotes_def
proof
  fix p
  from assms(2) obtain v' where "num_json p np = Some v'" "erase_spans v' = erase_spans v"
    by (auto simp: num_json_def Let_def split: option.splits double.splits)
  with assms(1) show "\<exists>v'. json_text p v' (num_text np) \<and> erase_spans v' = erase_spans v"
    using num_json_text by blast
qed

subsection \<open>Arrays and objects without white space\<close>

fun comma_join :: "string list \<Rightarrow> string" where
  "comma_join [] = []"
| "comma_join [t] = t"
| "comma_join (t # ts) = t @ '','' @ comma_join ts"

lemma comma_join_Cons: "comma_join (t # ts) = (if ts = [] then t else t @ '','' @ comma_join ts)"
  by (cases ts) simp_all

lemma items_join:
  assumes "list_all2 denotes es ts" "es \<noteq> []"
  shows "\<exists>xs. json_items p xs (comma_join ts) \<and> erase_items xs = map Some es"
  using assms
proof (induction arbitrary: p rule: list_all2_induct)
  case (Cons e es t ts)
  obtain v where v: "json_text p v t" "erase_spans v = e" using Cons.hyps(1) by (auto simp: denotes_def)
  show ?case
  proof (cases "es = []")
    case True
    then have "ts = []" using Cons.hyps(2) by simp
    with v True items_last [of "[]" p v t "[]"] show ?thesis
      by (intro exI [of _ "[Some v]"]) simp
  next
    case False
    obtain xs where xs: "json_items (p + length t + 1) xs (comma_join ts)" "erase_items xs = map Some es"
      using Cons.IH [OF False] by blast
    have "ts \<noteq> []" using False Cons.hyps(2) by auto
    with v xs items_more [of "[]" p v t "[]" xs "comma_join ts"] show ?thesis
      by (intro exI [of _ "Some v # xs"]) (simp add: comma_join_Cons)
  qed
qed simp

lemma denotes_array:
  assumes "list_all2 denotes es ts"
  shows "denotes (JArray (0, 0) (map Some es)) (''['' @ comma_join ts @ '']'')"
  unfolding denotes_def
proof
  fix p
  show "\<exists>v. json_text p v (''['' @ comma_join ts @ '']'') \<and> erase_spans v = JArray (0, 0) (map Some es)"
  proof (cases "es = []")
    case True
    with assms text_array_empty [of "[]" p] show ?thesis by fastforce
  next
    case False
    from items_join [OF assms False, of "p + 1"] obtain xs where
      "json_items (p + 1) xs (comma_join ts)" "erase_items xs = map Some es" by blast
    with text_array show ?thesis by fastforce
  qed
qed

text \<open>One member of an object.\<close>

definition denotes_member :: "string \<times> json \<Rightarrow> string \<Rightarrow> bool" where
  "denotes_member m t \<longleftrightarrow>
     (\<exists>kt u. t = kt @ '':'' @ u \<and> string_text (fst m) kt \<and> denotes (snd m) u)"

definition some_members :: "(string \<times> json) list \<Rightarrow> (string \<times> json option) list" where
  "some_members ms = map (\<lambda>(k, e). (k, Some e)) ms"

lemma keys_some_members [simp]: "keys_of (some_members ms) = map fst ms"
  by (simp add: some_members_def keys_of_def comp_def split_beta)

lemma members_join:
  assumes "list_all2 denotes_member ms ts" "ms \<noteq> []"
  shows "\<exists>fs. json_members p fs (comma_join ts) \<and> erase_members fs = some_members ms"
  using assms
proof (induction arbitrary: p rule: list_all2_induct)
  case (Cons m ms t ts)
  obtain kt u where t: "t = kt @ '':'' @ u" "string_text (fst m) kt" "denotes (snd m) u"
    using Cons.hyps(1) by (auto simp: denotes_member_def)
  obtain v where v: "json_text (p + length kt + 1) v u" "erase_spans v = snd m"
    using t(3) by (auto simp: denotes_def)
  show ?case
  proof (cases "ms = []")
    case True
    then have "ts = []" using Cons.hyps(2) by simp
    with t v True members_last [of "[]" "fst m" kt "[]" "[]" p v u "[]"] show ?thesis
      by (intro exI [of _ "[(fst m, Some v)]"]) (simp add: some_members_def split_beta)
  next
    case False
    obtain fs where fs: "json_members (p + length t + 1) fs (comma_join ts)"
      "erase_members fs = some_members ms" using Cons.IH [OF False] by blast
    have "ts \<noteq> []" using False Cons.hyps(2) by auto
    with t v fs members_more [of "[]" "fst m" kt "[]" "[]" p v u "[]" fs "comma_join ts"] show ?thesis
      by (intro exI [of _ "(fst m, Some v) # fs"])
        (simp add: comma_join_Cons some_members_def split_beta add.assoc)
  qed
qed simp

lemma denotes_object:
  assumes "list_all2 denotes_member ms ts" "distinct (map fst ms)"
  shows "denotes (JObject (0, 0) (some_members ms)) (''{'' @ comma_join ts @ ''}'')"
  unfolding denotes_def
proof
  fix p
  show "\<exists>v. json_text p v (''{'' @ comma_join ts @ ''}'') \<and>
      erase_spans v = JObject (0, 0) (some_members ms)"
  proof (cases "ms = []")
    case True
    with assms text_object_empty [of "[]" p] show ?thesis by (fastforce simp: some_members_def)
  next
    case False
    from members_join [OF assms(1) False, of "p + 1"] obtain fs where
      fs: "json_members (p + 1) fs (comma_join ts)" "erase_members fs = some_members ms" by blast
    then have "keys_of fs = map fst ms" by (metis keys_erase_members keys_some_members)
    with fs assms(2) text_object [OF fs(1)] show ?thesis by fastforce
  qed
qed

subsection \<open>Strings\<close>

lemma control_escapes:
  assumes "n < 32"
  shows "read_hex 0 [CHR ''0'', CHR ''0'', hex_char (drop_bit 4 n AND 0x0F), hex_char (n AND 0x0F)] = Some n"
proof -
  have "list_all (\<lambda>n. read_hex 0 [CHR ''0'', CHR ''0'', hex_char (drop_bit 4 n AND 0x0F),
      hex_char (n AND 0x0F)] = Some n) [2..<32]"
    by (simp add: hex_char_def hex_digit_def)
  moreover have "n = 0 \<or> n = 1 \<or> n \<in> set [2..<32]"
    using assms unfolding set_upt atLeastLessThan_iff by linarith
  ultimately show ?thesis by (auto simp: list_all_iff hex_char_def hex_digit_def simp del: set_upt)
qed

lemma escape_char_body: "string_body s t \<Longrightarrow> string_body (c # s) (escape_char c @ t)"
proof -
  assume b: "string_body s t"
  define n :: nat where "n = of_char c"
  consider (esc) "c \<in> {CHR 0x5C, CHR 0x22, CHR 0x08, CHR 0x0C, CHR 0x0A, CHR 0x0D, CHR 0x09}"
    | (ctl) "c \<notin> {CHR 0x5C, CHR 0x22, CHR 0x08, CHR 0x0C, CHR 0x0A, CHR 0x0D, CHR 0x09}" "n < 32"
    | (plain) "c \<notin> {CHR 0x5C, CHR 0x22, CHR 0x08, CHR 0x0C, CHR 0x0A, CHR 0x0D, CHR 0x09}" "\<not> n < 32"
    by blast
  then show ?thesis
  proof cases
    case esc
    then show ?thesis by (elim insertE) (auto simp: escape_char_def simple_escape_def intro!: body_simple [OF _ b])
  next
    case ctl
    define h where "h = [CHR ''0'', CHR ''0'', hex_char (drop_bit 4 n AND 0x0F), hex_char (n AND 0x0F)]"
    have "read_hex 0 h = Some n" using control_escapes [OF ctl(2)] by (simp add: h_def)
    then have "string_body (encode_utf8 n @ s) (CHR 0x5C # CHR ''u'' # h @ t)"
      using ctl(2) b by (intro body_unicode) (simp_all add: h_def is_high_surrogate_def)
    moreover have "encode_utf8 n = [c]" using ctl(2) by (simp add: encode_utf8_def n_def)
    ultimately show ?thesis using ctl by (simp add: escape_char_def h_def n_def)
  next
    case plain
    then show ?thesis using b by (simp add: escape_char_def n_def body_plain)
  qed
qed

lemma escaped_string_text: "string_text s (write_escaped_json_string s)"
proof -
  have "string_body s (concat (map escape_char s))"
    by (induction s) (auto intro: body_nil escape_char_body)
  then show ?thesis by (auto simp: string_text_def write_escaped_json_string_def)
qed

definition printable_key :: "string \<Rightarrow> bool" where
  "printable_key k = list_all (\<lambda>c. \<not> of_char c < (0x20::nat)) k"

lemma serialize_key_text:
  assumes "printable_key k"
  shows "string_text k (serialize_key k)"
proof -
  have "simple_escape (CHR 0x5C) = Some (CHR 0x5C)" "simple_escape (CHR 0x22) = Some (CHR 0x22)"
    by (simp_all add: simple_escape_def)
  with assms have "string_body k (concat (map escape_key_char k))"
    by (induction k) (auto simp: printable_key_def escape_key_char_def
        intro: body_nil body_plain body_simple)
  then show ?thesis by (auto simp: string_text_def serialize_key_def)
qed

subsection \<open>Numbers\<close>

definition int_parts :: "int \<Rightarrow> num_parts" where
  "int_parts i = \<lparr>np_neg = i < 0, np_int = nat_to_string (nat \<bar>i\<bar>), np_frac = [], np_exp = None\<rparr>"

lemma int_parts_text: "num_text (int_parts i) = int_to_string i"
  by (simp add: num_text_def int_parts_def exp_part_text_def int_to_string_def)

lemma int_parts_ok: "num_parts_ok (int_parts i)"
proof (cases "i = 0")
  case True
  then show ?thesis
    by (simp add: num_parts_ok_def int_parts_def exp_part_ok_def nat_to_string.simps [of 0]
        digit_char_def is_digit_char_def)
next
  case False
  then show ?thesis
    using nat_to_string_digits [of "nat \<bar>i\<bar>"] hd_nat_to_string [of "nat \<bar>i\<bar>"]
    by (simp add: num_parts_ok_def int_parts_def exp_part_ok_def)
qed

lemma denotes_int:
  assumes "in_int64 i"
  shows "denotes (JInt (0, 0) i) (int_to_string i)"
proof -
  have "num_int (int_parts i) = Some i"
    using assms by (auto simp: num_int_def int_parts_def digits_val_nat_to_string int64_result_def)
  then have "num_json 0 (int_parts i) = Some (JInt (0, length (num_text (int_parts i))) i)"
    by (simp add: num_json_def)
  from denotes_num [OF int_parts_ok this] show ?thesis by (simp add: int_parts_text)
qed

text \<open>A float is read back as the same float, or as an integer when it is printed as one.\<close>

definition float_reread :: "double \<Rightarrow> json" where
  "float_reread d =
     (case d of
        DFin s m e \<Rightarrow>
          (case num_int (finite_parts s m e) of
             Some i \<Rightarrow> JInt (0, 0) i
           | None \<Rightarrow> JFloat (0, 0) d)
      | _ \<Rightarrow> JFloat (0, 0) d)"

definition double_finite :: "double \<Rightarrow> bool" where
  "double_finite d = (case d of DFin _ _ _ \<Rightarrow> True | _ \<Rightarrow> False)"

lemma denotes_float:
  assumes "double_ok d" "double_finite d"
  shows "denotes (float_reread d) (to_chars_general d)"
proof -
  obtain s m e where d: "d = DFin s m e" using assms(2) by (auto simp: double_finite_def split: double.splits)
  define np where "np = finite_parts s m e"
  have np: "num_parts_ok np" "num_double np = DFin s m e"
    using finite_parts_roundtrip assms(1) by (simp_all add: d np_def)
  obtain v where "num_json 0 np = Some v" "erase_spans v = float_reread d"
    using np(2) by (cases "num_int np") (auto simp: num_json_def float_reread_def d np_def [symmetric])
  with denotes_num [OF np(1)] show ?thesis by (force simp: to_chars_general_def d np_def)
qed

subsection \<open>The round trip\<close>

text \<open>
  The values \<open>serialize_json\<close> writes as JSON: no null pointer, integers of the type, finite
  floats, distinct keys without control characters.
\<close>

fun json_printable :: "json \<Rightarrow> bool"
  and items_printable :: "json option list \<Rightarrow> bool"
  and members_printable :: "(string \<times> json option) list \<Rightarrow> bool" where
  "json_printable (JInt _ i) = in_int64 i"
| "json_printable (JFloat _ d) = (double_ok d \<and> double_finite d)"
| "json_printable (JArray _ xs) = items_printable xs"
| "json_printable (JObject _ fs) = (distinct (keys_of fs) \<and> members_printable fs)"
| "json_printable v = True"
| "items_printable [] = True"
| "items_printable (None # xs) = False"
| "items_printable (Some v # xs) = (json_printable v \<and> items_printable xs)"
| "members_printable [] = True"
| "members_printable ((k, None) # fs) = False"
| "members_printable ((k, Some v) # fs) = (printable_key k \<and> json_printable v \<and> members_printable fs)"

text \<open>What is read back.\<close>

fun reread :: "json \<Rightarrow> json"
  and reread_items :: "json option list \<Rightarrow> json option list"
  and reread_members :: "(string \<times> json option) list \<Rightarrow> (string \<times> json option) list" where
  "reread (JNull _) = JNull (0, 0)"
| "reread (JBool _ b) = JBool (0, 0) b"
| "reread (JInt _ i) = JInt (0, 0) i"
| "reread (JFloat _ d) = float_reread d"
| "reread (JString _ s) = JString (0, 0) s"
| "reread (JArray _ xs) = JArray (0, 0) (reread_items xs)"
| "reread (JObject _ fs) = JObject (0, 0) (reread_members fs)"
| "reread_items [] = []"
| "reread_items (None # xs) = None # reread_items xs"
| "reread_items (Some v # xs) = Some (reread v) # reread_items xs"
| "reread_members [] = []"
| "reread_members ((k, None) # fs) = (k, None) # reread_members fs"
| "reread_members ((k, Some v) # fs) = (k, Some (reread v)) # reread_members fs"

lemma serialize_denotes:
  "json_printable v \<Longrightarrow> \<exists>t. serialize_impl v = Some t \<and> denotes (reread v) t"
  "items_printable xs \<Longrightarrow> \<exists>es ts. serialize_items xs = Some (comma_join ts) \<and>
     reread_items xs = map Some es \<and> list_all2 denotes es ts"
  "members_printable fs \<Longrightarrow> \<exists>ms ts. serialize_members fs = Some (comma_join ts) \<and>
     reread_members fs = some_members ms \<and> keys_of fs = map fst ms \<and> list_all2 denotes_member ms ts"
proof (induction v and xs and fs rule: json_printable_items_printable_members_printable.induct)
  case (3 sp xs)
  then obtain es ts where e: "serialize_items xs = Some (comma_join ts)" "reread_items xs = map Some es"
    "list_all2 denotes es ts" by auto
  from denotes_array [OF e(3)] e(1,2) show ?case by simp
next
  case (4 sp fs)
  then obtain ms ts where e: "serialize_members fs = Some (comma_join ts)"
    "reread_members fs = some_members ms" "keys_of fs = map fst ms" "list_all2 denotes_member ms ts" by auto
  from denotes_object [OF e(4)] e(1-3) "4.prems" show ?case by simp
next
  case (8 v xs)
  then obtain t es ts where "serialize_impl v = Some t" "denotes (reread v) t"
    "serialize_items xs = Some (comma_join ts)" "reread_items xs = map Some es" "list_all2 denotes es ts"
    by auto
  moreover from this have "xs = [] \<longleftrightarrow> ts = []"
    by (metis list.map_disc_iff list_all2_Nil list_all2_Nil2 reread_items.simps(1) reread_items.elims list.distinct(1))
  ultimately show ?case
    by (intro exI [of _ "reread v # es"] exI [of _ "t # ts"]) (simp add: comma_join_Cons)
next
  case (11 k v fs)
  then obtain t ms ts where "serialize_impl v = Some t" "denotes (reread v) t"
    "serialize_members fs = Some (comma_join ts)" "reread_members fs = some_members ms"
    "keys_of fs = map fst ms" "list_all2 denotes_member ms ts"
    by auto
  moreover from this have "fs = [] \<longleftrightarrow> ts = []"
    by (metis keys_of_def list.map_disc_iff list_all2_Nil list_all2_Nil2)
  moreover have "denotes_member (k, reread v) (serialize_key k @ '':'' @ t)"
    using 11 calculation serialize_key_text unfolding denotes_member_def by fastforce
  ultimately show ?case
    by (intro exI [of _ "(k, reread v) # ms"] exI [of _ "(serialize_key k @ '':'' @ t) # ts"])
      (simp add: comma_join_Cons some_members_def)
qed (use denotes_literals denotes_string [OF escaped_string_text] denotes_int denotes_float in \<open>auto simp: some_members_def\<close>)

lemma serialize_then_parse:
  assumes "json_printable v"
  shows "\<exists>t w. serialize_json v = Some t \<and> parse_json t = Some w \<and> erase_spans w = reread v"
  using serialize_denotes(1) [OF assms] denotes_parse unfolding serialize_json_def by metis

end
