(* ===== verification/Value_Json.thy ===== *)
theory Value_Json
  imports Json_Roundtrip Values
begin

section \<open>Runtime values as JSON\<close>

text \<open>
  \<open>src/runtime/evaluator/value_json.cpp\<close>: the text of a value, and the value of a text. A null
  pointer inside a value is written as \<open>null\<close>. A struct is an object whose first member \<open>_type\<close>
  holds the name, an enum an object with the members \<open>_enum\<close> and \<open>_variant\<close>; decimals and
  durations are written as strings and optionals as what they hold, so these come back as other
  values (\<open>json_image\<close>).
\<close>

subsection \<open>Serialization\<close>

definition float_json_text :: "double \<Rightarrow> string" where
  "float_json_text d =
     (case d of
        DNaN \<Rightarrow> ''null''
      | DInf _ \<Rightarrow> ''null''
      | DFin _ _ _ \<Rightarrow>
          (let sv = to_chars_general d
           in if CHR ''.'' \<notin> set sv \<and> CHR ''e'' \<notin> set sv \<and> CHR ''E'' \<notin> set sv then sv @ ''.0'' else sv))"

fun write_json_impl :: "val \<Rightarrow> string"
  and write_json_fields :: "(string \<times> val option) list \<Rightarrow> string"
  and write_json_items :: "val option list \<Rightarrow> string" where
  "write_json_impl NoneValue = ''null''"
| "write_json_impl (BoolValue b) = (if b then ''true'' else ''false'')"
| "write_json_impl (IntValue i) = int_to_string i"
| "write_json_impl (FloatValue d) = float_json_text d"
| "write_json_impl (StringValue s) = write_escaped_json_string s"
| "write_json_impl (DecimalValue s) = write_escaped_json_string s"
| "write_json_impl (DurationValue s) = write_escaped_json_string s"
| "write_json_impl (StructValue n fs) =
     ''{'' @ write_escaped_json_string ''_type'' @ '':'' @ write_escaped_json_string n @
     write_json_fields fs @ ''}''"
| "write_json_impl (ListValue xs) = ''['' @ write_json_items xs @ '']''"
| "write_json_impl (EnumValue e v) =
     ''{'' @ write_escaped_json_string ''_enum'' @ '':'' @ write_escaped_json_string e @ '','' @
     write_escaped_json_string ''_variant'' @ '':'' @ write_escaped_json_string v @ ''}''"
| "write_json_impl (OptionalValue None) = ''null''"
| "write_json_impl (OptionalValue (Some v)) = write_json_impl v"
| "write_json_fields [] = []"
| "write_json_fields ((k, None) # fs) =
     '','' @ write_escaped_json_string k @ '':'' @ ''null'' @ write_json_fields fs"
| "write_json_fields ((k, Some v) # fs) =
     '','' @ write_escaped_json_string k @ '':'' @ write_json_impl v @ write_json_fields fs"
| "write_json_items [] = []"
| "write_json_items (None # xs) = ''null'' @ (if xs = [] then [] else '','' @ write_json_items xs)"
| "write_json_items (Some v # xs) =
     write_json_impl v @ (if xs = [] then [] else '','' @ write_json_items xs)"

definition value_to_json :: "val \<Rightarrow> string" where
  "value_to_json v = write_json_impl v"

subsection \<open>Deserialization\<close>

definition string_field_value :: "string \<Rightarrow> json \<Rightarrow> string option" where
  "string_field_value name obj = (case json_get name obj of Some (JString _ s) \<Rightarrow> Some s | _ \<Rightarrow> None)"

text \<open>\<open>struct_value.fields.emplace\<close>, in the order of the members; \<open>acc\<close> are the fields so far.\<close>

fun value_from_json_value :: "json \<Rightarrow> val option"
  and struct_fields_from_json ::
    "(string \<times> json option) list \<Rightarrow> (string \<times> val option) list \<Rightarrow> (string \<times> val option) list option"
  and items_from_json :: "json option list \<Rightarrow> val option list option" where
  "value_from_json_value (JNull _) = Some NoneValue"
| "value_from_json_value (JBool _ b) = Some (BoolValue b)"
| "value_from_json_value (JInt _ i) = Some (IntValue i)"
| "value_from_json_value (JFloat _ d) = Some (FloatValue d)"
| "value_from_json_value (JString _ s) = Some (StringValue s)"
| "value_from_json_value (JArray _ xs) =
     (case items_from_json xs of None \<Rightarrow> None | Some items \<Rightarrow> Some (ListValue items))"
| "value_from_json_value (JObject sp fs) =
     (case (string_field_value ''_enum'' (JObject sp fs), string_field_value ''_variant'' (JObject sp fs)) of
        (Some e, Some v) \<Rightarrow> Some (EnumValue e v)
      | _ \<Rightarrow>
          (case struct_fields_from_json fs [] of
             None \<Rightarrow> None
           | Some gs \<Rightarrow>
               Some (StructValue
                 (case string_field_value ''_type'' (JObject sp fs) of Some n \<Rightarrow> n | None \<Rightarrow> []) gs)))"
| "struct_fields_from_json [] acc = Some acc"
| "struct_fields_from_json ((k, None) # fs) acc =
     (if k = ''_type'' then struct_fields_from_json fs acc else None)"
| "struct_fields_from_json ((k, Some j) # fs) acc =
     (if k = ''_type'' then struct_fields_from_json fs acc
      else case value_from_json_value j of
             None \<Rightarrow> None
           | Some v \<Rightarrow> struct_fields_from_json fs (emplace k (Some v) acc))"
| "items_from_json [] = Some []"
| "items_from_json (None # xs) = None"
| "items_from_json (Some j # xs) =
     (case value_from_json_value j of
        None \<Rightarrow> None
      | Some v \<Rightarrow> (case items_from_json xs of None \<Rightarrow> None | Some vs \<Rightarrow> Some (Some v # vs)))"

definition value_from_json :: "string \<Rightarrow> val option" where
  "value_from_json json =
     (case parse_json json of None \<Rightarrow> None | Some j \<Rightarrow> value_from_json_value j)"

subsection \<open>The value that comes back\<close>

fun json_image :: "val \<Rightarrow> val"
  and image_fields :: "(string \<times> val option) list \<Rightarrow> (string \<times> val option) list"
  and image_items :: "val option list \<Rightarrow> val option list" where
  "json_image NoneValue = NoneValue"
| "json_image (BoolValue b) = BoolValue b"
| "json_image (IntValue i) = IntValue i"
| "json_image (FloatValue d) = (if double_finite d then FloatValue d else NoneValue)"
| "json_image (StringValue s) = StringValue s"
| "json_image (DecimalValue s) = StringValue s"
| "json_image (DurationValue s) = StringValue s"
| "json_image (StructValue n fs) = StructValue n (image_fields fs)"
| "json_image (ListValue xs) = ListValue (image_items xs)"
| "json_image (EnumValue e v) = EnumValue e v"
| "json_image (OptionalValue None) = NoneValue"
| "json_image (OptionalValue (Some v)) = json_image v"
| "image_fields [] = []"
| "image_fields ((k, None) # fs) = (k, Some NoneValue) # image_fields fs"
| "image_fields ((k, Some v) # fs) = (k, Some (json_image v)) # image_fields fs"
| "image_items [] = []"
| "image_items (None # xs) = Some NoneValue # image_items xs"
| "image_items (Some v # xs) = Some (json_image v) # image_items xs"

text \<open>
  What a value needs for it: integers and doubles of their types; in a struct distinct field
  names, none of them \<open>_type\<close>, and not both \<open>_enum\<close> and \<open>_variant\<close>.
\<close>

fun json_writable :: "val \<Rightarrow> bool"
  and fields_writable :: "(string \<times> val option) list \<Rightarrow> bool"
  and items_writable :: "val option list \<Rightarrow> bool" where
  "json_writable (IntValue i) = in_int64 i"
| "json_writable (FloatValue d) = double_ok d"
| "json_writable (StructValue n fs) =
     (distinct (keys_of fs) \<and> ''_type'' \<notin> set (keys_of fs) \<and>
      \<not> (''_enum'' \<in> set (keys_of fs) \<and> ''_variant'' \<in> set (keys_of fs)) \<and> fields_writable fs)"
| "json_writable (ListValue xs) = items_writable xs"
| "json_writable (OptionalValue (Some v)) = json_writable v"
| "json_writable v = True"
| "fields_writable [] = True"
| "fields_writable ((k, None) # fs) = fields_writable fs"
| "fields_writable ((k, Some v) # fs) = (json_writable v \<and> fields_writable fs)"
| "items_writable [] = True"
| "items_writable (None # xs) = items_writable xs"
| "items_writable (Some v # xs) = (json_writable v \<and> items_writable xs)"

text \<open>The JSON document a value is written as, without offsets.\<close>

fun value_dom :: "val \<Rightarrow> json"
  and dom_fields :: "(string \<times> val option) list \<Rightarrow> (string \<times> json) list"
  and dom_items :: "val option list \<Rightarrow> json list" where
  "value_dom NoneValue = JNull (0, 0)"
| "value_dom (BoolValue b) = JBool (0, 0) b"
| "value_dom (IntValue i) = JInt (0, 0) i"
| "value_dom (FloatValue d) = (if double_finite d then JFloat (0, 0) d else JNull (0, 0))"
| "value_dom (StringValue s) = JString (0, 0) s"
| "value_dom (DecimalValue s) = JString (0, 0) s"
| "value_dom (DurationValue s) = JString (0, 0) s"
| "value_dom (StructValue n fs) =
     JObject (0, 0) (some_members ((''_type'', JString (0, 0) n) # dom_fields fs))"
| "value_dom (ListValue xs) = JArray (0, 0) (map Some (dom_items xs))"
| "value_dom (EnumValue e v) =
     JObject (0, 0) (some_members [(''_enum'', JString (0, 0) e), (''_variant'', JString (0, 0) v)])"
| "value_dom (OptionalValue None) = JNull (0, 0)"
| "value_dom (OptionalValue (Some v)) = value_dom v"
| "dom_fields [] = []"
| "dom_fields ((k, None) # fs) = (k, JNull (0, 0)) # dom_fields fs"
| "dom_fields ((k, Some v) # fs) = (k, value_dom v) # dom_fields fs"
| "dom_items [] = []"
| "dom_items (None # xs) = JNull (0, 0) # dom_items xs"
| "dom_items (Some v # xs) = value_dom v # dom_items xs"

subsection \<open>The text denotes the document\<close>

lemma num_text_marks:
  assumes "num_parts_ok np"
  shows "(CHR ''.'' \<notin> set (num_text np) \<and> CHR ''e'' \<notin> set (num_text np) \<and> CHR ''E'' \<notin> set (num_text np))
    \<longleftrightarrow> \<not> np_is_float np"
proof -
  have dig: "CHR ''.'' \<notin> set ds \<and> CHR ''e'' \<notin> set ds \<and> CHR ''E'' \<notin> set ds"
    if "list_all is_digit_char ds" for ds
    using that digit_not_special by (fastforce simp: list_all_iff)
  have "\<not> np_is_float np \<Longrightarrow> num_text np = (if np_neg np then ''-'' else []) @ np_int np"
    by (cases "np_exp np") (simp_all add: num_text_def np_is_float_def exp_part_text_def)
  moreover have "np_frac np \<noteq> [] \<Longrightarrow> CHR ''.'' \<in> set (num_text np)" by (simp add: num_text_def)
  moreover have "np_exp np \<noteq> None \<Longrightarrow> CHR ''e'' \<in> set (num_text np) \<or> CHR ''E'' \<in> set (num_text np)"
    using assms by (auto simp: num_text_def num_parts_ok_def exp_part_ok_def exp_part_text_def)
  moreover have "list_all is_digit_char (np_int np)" using assms by (simp add: num_parts_ok_def)
  ultimately show ?thesis using dig unfolding np_is_float_def by fastforce
qed

lemma denotes_float_parts:
  assumes "num_parts_ok np" "np_is_float np" "num_double np = DFin s m e"
  shows "denotes (JFloat (0, 0) (DFin s m e)) (num_text np)"
proof -
  have "num_int np = None" using assms(2) by (auto simp: num_int_def np_is_float_def)
  with assms(3) have "num_json 0 np = Some (JFloat (0, length (num_text np)) (DFin s m e))"
    by (simp add: num_json_def)
  from denotes_num [OF assms(1) this] show ?thesis by simp
qed

lemma float_json_denotes:
  assumes "double_ok d"
  shows "denotes (value_dom (FloatValue d)) (float_json_text d)"
proof (cases d)
  case (DFin s m e)
  define np where "np = finite_parts s m e"
  have np: "num_parts_ok np" "num_double np = DFin s m e"
    using finite_parts_roundtrip assms by (simp_all add: DFin np_def)
  have t: "to_chars_general d = num_text np" by (simp add: to_chars_general_def DFin np_def)
  show ?thesis
  proof (cases "np_is_float np")
    case True
    with num_text_marks [OF np(1)] have "float_json_text d = num_text np"
      by (auto simp: float_json_text_def DFin t [unfolded DFin] Let_def)
    with denotes_float_parts [OF np(1) True np(2)] show ?thesis by (simp add: DFin double_finite_def)
  next
    case False
    then have f: "np_frac np = []" "np_exp np = None" unfolding np_is_float_def by blast+
    define np' where "np' = np\<lparr>np_frac := ''0''\<rparr>"
    have np': "num_parts_ok np'" "np_is_float np'" "num_double np' = DFin s m e"
      using np f num_double_point_zero [OF assms [unfolded DFin] np_def [symmetric] f]
      by (simp_all add: np'_def num_parts_ok_def np_is_float_def is_digit_char_def)
    have "float_json_text d = num_text np'"
      using num_text_marks [OF np(1)] False f
      by (simp add: float_json_text_def DFin t [unfolded DFin] Let_def np'_def num_text_def exp_part_text_def)
    with denotes_float_parts [OF np'] show ?thesis by (simp add: DFin double_finite_def)
  qed
qed (simp_all add: float_json_text_def double_finite_def denotes_literals(1))

lemma denotes_escaped: "denotes (JString (0, 0) s) (write_escaped_json_string s)"
  by (rule denotes_string [OF escaped_string_text])

lemma denotes_member_escaped:
  "denotes e t \<Longrightarrow> denotes_member (k, e) (write_escaped_json_string k @ '':'' @ t)"
  unfolding denotes_member_def using escaped_string_text by fastforce

lemma keys_dom_fields [simp]: "map fst (dom_fields fs) = keys_of fs"
proof (induction fs)
  case (Cons f fs)
  then show ?case by (cases f; cases "snd f") auto
qed simp

lemma dom_items_Nil [simp]: "dom_items xs = [] \<longleftrightarrow> xs = []"
  by (cases xs; cases "hd xs") simp_all

text \<open>\<open>write_json_fields\<close> puts a comma before every member.\<close>

lemma comma_join_first:
  "comma_join (t # ts) = t @ concat (map (\<lambda>u. '','' @ u) ts)"
  by (induction ts arbitrary: t) (simp_all add: comma_join_Cons)

lemma denotes_enum: "denotes (value_dom (EnumValue e v)) (write_json_impl (EnumValue e v))"
proof -
  have "list_all2 denotes_member [(''_enum'', JString (0, 0) e), (''_variant'', JString (0, 0) v)]
      [write_escaped_json_string ''_enum'' @ '':'' @ write_escaped_json_string e,
       write_escaped_json_string ''_variant'' @ '':'' @ write_escaped_json_string v]"
    using denotes_member_escaped [OF denotes_escaped] by simp
  from denotes_object [OF this] show ?thesis by simp
qed

lemma write_json_denotes:
  "json_writable v \<Longrightarrow> denotes (value_dom v) (write_json_impl v)"
  "fields_writable fs \<Longrightarrow> \<exists>ts. write_json_fields fs = concat (map (\<lambda>u. '','' @ u) ts) \<and>
     list_all2 denotes_member (dom_fields fs) ts"
  "items_writable xs \<Longrightarrow> \<exists>ts. write_json_items xs = comma_join ts \<and> list_all2 denotes (dom_items xs) ts"
proof (induction v and fs and xs rule: json_writable_fields_writable_items_writable.induct)
  case (2 d)
  then show ?case using float_json_denotes by simp
next
  case (3 n fs)
  then obtain ts where ts: "write_json_fields fs = concat (map (\<lambda>u. '','' @ u) ts)"
    "list_all2 denotes_member (dom_fields fs) ts" by auto
  have "list_all2 denotes_member ((''_type'', JString (0, 0) n) # dom_fields fs)
      ((write_escaped_json_string ''_type'' @ '':'' @ write_escaped_json_string n) # ts)"
    using ts(2) denotes_member_escaped [OF denotes_escaped] by simp
  from denotes_object [OF this] "3.prems" ts(1) show ?case
    by (simp add: comma_join_first)
next
  case (4 xs)
  then obtain ts where "write_json_items xs = comma_join ts" "list_all2 denotes (dom_items xs) ts" by auto
  with denotes_array show ?case by fastforce
next
  case "6_6"
  show ?case by (rule denotes_enum)
next
  case (8 k fs)
  then obtain ts where "write_json_fields fs = concat (map (\<lambda>u. '','' @ u) ts)"
    "list_all2 denotes_member (dom_fields fs) ts" by auto
  with denotes_member_escaped [OF denotes_literals(1), of k] show ?case
    by (intro exI [of _ "(write_escaped_json_string k @ '':'' @ ''null'') # ts"]) simp
next
  case (9 k v fs)
  then obtain ts where "write_json_fields fs = concat (map (\<lambda>u. '','' @ u) ts)"
    "list_all2 denotes_member (dom_fields fs) ts" "denotes (value_dom v) (write_json_impl v)" by auto
  with denotes_member_escaped [of "value_dom v" _ k] show ?case
    by (intro exI [of _ "(write_escaped_json_string k @ '':'' @ write_json_impl v) # ts"]) simp
next
  case (11 xs)
  then obtain ts where "write_json_items xs = comma_join ts" "list_all2 denotes (dom_items xs) ts" by auto
  with denotes_literals(1) show ?case
    by (intro exI [of _ "''null'' # ts"]) (cases xs; auto simp: comma_join_Cons elim: dom_items.elims)
next
  case (12 v xs)
  then obtain ts where "write_json_items xs = comma_join ts" "list_all2 denotes (dom_items xs) ts"
    "denotes (value_dom v) (write_json_impl v)" by auto
  then show ?case
    by (intro exI [of _ "write_json_impl v # ts"]) (cases xs; auto simp: comma_join_Cons)
qed (use denotes_literals denotes_escaped denotes_int in simp_all)

subsection \<open>The document is read as the image\<close>

lemma map_of_erase_members:
  "map_of (erase_members fs) k = map_option (map_option erase_spans) (map_of fs k)"
proof (induction fs)
  case (Cons f fs)
  then show ?case by (cases f; cases "snd f") auto
qed simp

lemma string_field_value_erase:
  "string_field_value k (JObject sp' (erase_members fs)) = string_field_value k (JObject sp fs)"
proof -
  have "(case erase_spans j of JString _ s \<Rightarrow> Some s | _ \<Rightarrow> None) = (case j of JString _ s \<Rightarrow> Some s | _ \<Rightarrow> None)"
    for j by (cases j) auto
  then show ?thesis
    unfolding string_field_value_def json_get_def json.case map_of_erase_members
    by (cases "map_of fs k"; cases "the (map_of fs k)") auto
qed

lemma value_from_json_erase:
  "value_from_json_value (erase_spans j) = value_from_json_value j"
  "struct_fields_from_json (erase_members fs) acc = struct_fields_from_json fs acc"
  "items_from_json (erase_items xs) = items_from_json xs"
proof (induction j and fs acc and xs
    rule: value_from_json_value_struct_fields_from_json_items_from_json.induct)
  case (7 sp fs)
  note er = string_field_value_erase [of _ "(0, 0)" fs sp]
  show ?case
    by (cases "string_field_value ''_enum'' (JObject sp fs)";
        cases "string_field_value ''_variant'' (JObject sp fs)") (simp_all add: er 7 split: option.split)
qed (auto split: option.splits)

lemma keys_image_fields [simp]: "keys_of (image_fields fs) = keys_of fs"
proof (induction fs)
  case (Cons f fs)
  then show ?case by (cases f; cases "snd f") auto
qed simp

lemma json_get_absent: "k \<notin> set (map fst ms) \<Longrightarrow> string_field_value k (JObject sp (some_members ms)) = None"
  using map_of_eq_None_keys [of "some_members ms" k] by (simp add: string_field_value_def json_get_def)

lemma string_field_first:
  "string_field_value k (JObject sp (some_members ((k, JString sp' s) # ms))) = Some s"
  by (simp add: string_field_value_def json_get_def some_members_def)

lemma emplace_fresh: "k \<notin> set (keys_of acc) \<Longrightarrow> emplace k v acc = acc @ [(k, v)]"
  by (simp add: emplace_def)

lemma value_from_dom:
  "json_writable v \<Longrightarrow> value_from_json_value (value_dom v) = Some (json_image v)"
  "fields_writable fs \<Longrightarrow> \<forall>acc. distinct (keys_of (acc @ fs)) \<longrightarrow> ''_type'' \<notin> set (keys_of fs) \<longrightarrow>
     struct_fields_from_json (some_members (dom_fields fs)) acc = Some (acc @ image_fields fs)"
  "items_writable xs \<Longrightarrow> items_from_json (map Some (dom_items xs)) = Some (image_items xs)"
proof (induction v and fs and xs rule: json_writable_fields_writable_items_writable.induct)
  case (3 n fs)
  define ms where "ms = (''_type'', JString (0, 0) n) # dom_fields fs"
  have "string_field_value ''_enum'' (JObject (0, 0) (some_members ms)) = None \<or>
      string_field_value ''_variant'' (JObject (0, 0) (some_members ms)) = None"
    using "3.prems" json_get_absent [of _ ms "(0, 0)"] by (auto simp: ms_def)
  moreover have "struct_fields_from_json (some_members ms) [] = Some (image_fields fs)"
    using 3 by (simp add: ms_def some_members_def)
  moreover have "string_field_value ''_type'' (JObject (0, 0) (some_members ms)) = Some n"
    unfolding ms_def by (rule string_field_first)
  ultimately show ?case by (auto simp: ms_def [symmetric] split: option.splits)
next
  case "6_6"
  then show ?case by (simp add: some_members_def string_field_value_def json_get_def)
qed (auto simp: some_members_def emplace_fresh)

theorem value_json_roundtrip:
  assumes "json_writable v"
  shows "value_from_json (value_to_json v) = Some (json_image v)"
proof -
  from denotes_parse [OF write_json_denotes(1) [OF assms]] obtain j where
    j: "parse_json (write_json_impl v) = Some j" "erase_spans j = value_dom v" by blast
  have "value_from_json_value j = value_from_json_value (erase_spans j)"
    by (simp add: value_from_json_erase(1))
  also have "\<dots> = Some (json_image v)" using value_from_dom(1) [OF assms] by (simp add: j(2))
  finally show ?thesis by (simp add: value_from_json_def value_to_json_def j(1))
qed

text \<open>The values that come back unchanged.\<close>

fun json_faithful :: "val \<Rightarrow> bool"
  and fields_faithful :: "(string \<times> val option) list \<Rightarrow> bool"
  and items_faithful :: "val option list \<Rightarrow> bool" where
  "json_faithful (FloatValue d) = double_finite d"
| "json_faithful (DecimalValue _) = False"
| "json_faithful (DurationValue _) = False"
| "json_faithful (OptionalValue _) = False"
| "json_faithful (StructValue n fs) = fields_faithful fs"
| "json_faithful (ListValue xs) = items_faithful xs"
| "json_faithful v = True"
| "fields_faithful [] = True"
| "fields_faithful ((k, None) # fs) = False"
| "fields_faithful ((k, Some v) # fs) = (json_faithful v \<and> fields_faithful fs)"
| "items_faithful [] = True"
| "items_faithful (None # xs) = False"
| "items_faithful (Some v # xs) = (json_faithful v \<and> items_faithful xs)"

lemma json_image_faithful:
  "json_faithful v \<Longrightarrow> json_image v = v"
  "fields_faithful fs \<Longrightarrow> image_fields fs = fs"
  "items_faithful xs \<Longrightarrow> image_items xs = xs"
  by (induction v and fs and xs rule: json_faithful_fields_faithful_items_faithful.induct) simp_all

subsection \<open>What is read is a value of the program\<close>

fun json_wf :: "json \<Rightarrow> bool"
  and members_wf :: "(string \<times> json option) list \<Rightarrow> bool"
  and items_wf :: "json option list \<Rightarrow> bool" where
  "json_wf (JInt _ i) = in_int64 i"
| "json_wf (JArray _ xs) = items_wf xs"
| "json_wf (JObject _ fs) = members_wf fs"
| "json_wf v = True"
| "members_wf [] = True"
| "members_wf ((k, None) # fs) = False"
| "members_wf ((k, Some v) # fs) = (json_wf v \<and> members_wf fs)"
| "items_wf [] = True"
| "items_wf (None # xs) = False"
| "items_wf (Some v # xs) = (json_wf v \<and> items_wf xs)"

lemma json_text_wf:
  "json_text p v t \<Longrightarrow> json_wf v"
  "json_items p xs u \<Longrightarrow> items_wf xs"
  "json_members p fs u \<Longrightarrow> members_wf fs"
  by (induction rule: json_text_json_items_json_members.inducts)
    (auto simp: num_int_def split: if_splits)

lemma fields_ok_emplace:
  "fields_ok acc \<Longrightarrow> value_ok v \<Longrightarrow> fields_ok (emplace k (Some v) acc)"
  by (auto simp: fields_ok_iff emplace_def)

lemma value_from_json_value_ok:
  "json_wf j \<Longrightarrow> value_from_json_value j = Some v \<Longrightarrow> value_ok v"
  "members_wf fs \<Longrightarrow> struct_fields_from_json fs acc = Some gs \<Longrightarrow> distinct (keys_of acc) \<Longrightarrow>
     fields_ok acc \<Longrightarrow> distinct (keys_of gs) \<and> fields_ok gs"
  "items_wf xs \<Longrightarrow> items_from_json xs = Some vs \<Longrightarrow> items_ok vs"
proof (induction j and fs acc and xs arbitrary: v and gs and vs
    rule: value_from_json_value_struct_fields_from_json_items_from_json.induct)
  case (7 sp fs)
  show ?case
    using 7 by (cases "string_field_value ''_enum'' (JObject sp fs)";
        cases "string_field_value ''_variant'' (JObject sp fs)") (auto split: option.splits)
next
  case (10 k j fs acc)
  then show ?case
    by (auto simp: distinct_emplace fields_ok_emplace split: if_splits option.splits)
qed (auto split: option.splits if_splits)

lemma value_from_json_ok:
  assumes "value_from_json t = Some v"
  shows "value_ok v"
proof -
  from assms obtain j where j: "parse_json t = Some j" "value_from_json_value j = Some v"
    by (auto simp: value_from_json_def split: option.splits)
  then have "json_wf j" using json_text_wf(1) by (auto simp: parse_json_iff json_document_def)
  then show ?thesis using value_from_json_value_ok(1) j(2) by blast
qed

end
