(* ===== verification/Schema.thy ===== *)
theory Schema
  imports Values Program_Index
begin

section \<open>Validation of values against types\<close>

text \<open>
  \<open>src/runtime/engine/response_schema_validator.cpp\<close>: \<open>check\<close> compares a value with a type
  reference and returns the first violation with the path to it. The index of the program, when
  there is one, resolves struct and enum types. The loops over the fields of a declaration and
  over the items of a list are functions of their own. The recursion follows a type through
  recursive struct declarations, but every such step goes to a part of the value.

  \<open>conforms\<close> is what the check accepts, without messages, paths or evaluation order
  (\<open>check_conforms\<close>). \<open>has_type\<close> is the specification, the values of a type in the language;
  \<open>exactly_checked\<close> are the types on which the two agree.
\<close>

record schema_result =
  schema_valid :: bool
  schema_error :: string

definition schema_ok :: schema_result where
  "schema_ok = \<lparr>schema_valid = True, schema_error = []\<rparr>"

definition schema_fail :: "string \<Rightarrow> schema_result" where
  "schema_fail msg = \<lparr>schema_valid = False, schema_error = msg\<rparr>"

definition kind_label :: "val \<Rightarrow> string" where
  "kind_label v =
     (case value_kind_of v of
        KNone \<Rightarrow> ''None'' | KBool \<Rightarrow> ''Bool'' | KInt \<Rightarrow> ''Int'' | KFloat \<Rightarrow> ''Float''
      | KString \<Rightarrow> ''String'' | KDecimal \<Rightarrow> ''Decimal'' | KDuration \<Rightarrow> ''Duration''
      | KStruct \<Rightarrow> ''Struct'' | KList \<Rightarrow> ''List'' | KEnum \<Rightarrow> ''Enum'' | KOptional \<Rightarrow> ''Optional'')"

definition type_name :: "type_ref \<Rightarrow> string" where
  "type_name t = (if tr_canonical_name t \<noteq> [] then tr_canonical_name t else tr_display_name t)"

definition type_name_matches :: "string \<Rightarrow> type_ref \<Rightarrow> bool" where
  "type_name_matches actual expected =
     (if tr_canonical_name expected \<noteq> [] \<and> actual = tr_canonical_name expected then True
      else if tr_display_name expected \<noteq> [] \<and> actual = tr_display_name expected then True
      else tr_canonical_name expected = [] \<and> tr_display_name expected = [])"

text \<open>The lookup shared by \<open>find_struct\<close> and \<open>find_enum\<close>: canonical name, display name, local name.\<close>

definition find_schema_struct :: "program_index option \<Rightarrow> type_ref \<Rightarrow> struct_decl option" where
  "find_schema_struct index expected =
     (case index of
        None \<Rightarrow> None
      | Some ix \<Rightarrow>
          (case (if tr_canonical_name expected \<noteq> [] then find_struct ix (tr_canonical_name expected)
                 else None) of
             Some d \<Rightarrow> Some d
           | None \<Rightarrow>
               if tr_display_name expected \<noteq> []
               then (case find_struct ix (tr_display_name expected) of
                       Some d \<Rightarrow> Some d
                     | None \<Rightarrow> find (\<lambda>d. decl_name d = tr_display_name expected) (structs_in_order ix))
               else None))"

definition find_schema_enum :: "program_index option \<Rightarrow> type_ref \<Rightarrow> enum_decl option" where
  "find_schema_enum index expected =
     (case index of
        None \<Rightarrow> None
      | Some ix \<Rightarrow>
          (case (if tr_canonical_name expected \<noteq> [] then find_enum ix (tr_canonical_name expected)
                 else None) of
             Some d \<Rightarrow> Some d
           | None \<Rightarrow>
               if tr_display_name expected \<noteq> []
               then (case find_enum ix (tr_display_name expected) of
                       Some d \<Rightarrow> Some d
                     | None \<Rightarrow> find (\<lambda>d. decl_name d = tr_display_name expected) (enums_in_order ix))
               else None))"

definition at_path :: "string \<Rightarrow> string \<Rightarrow> string" where
  "at_path path message = (if path = [] then message else path @ '': '' @ message)"

definition expected_but_got :: "string \<Rightarrow> string \<Rightarrow> val \<Rightarrow> schema_result" where
  "expected_but_got path name v =
     schema_fail (at_path path (''expected '' @ name @ '' but got '' @ kind_label v))"

text \<open>\<open>std::get_if\<close> on the alternatives that have parts.\<close>

definition get_if_optional :: "val \<Rightarrow> val option option" where
  "get_if_optional v = (case v of OptionalValue p \<Rightarrow> Some p | _ \<Rightarrow> None)"

definition get_if_struct :: "val \<Rightarrow> (string \<times> (string \<times> val option) list) option" where
  "get_if_struct v = (case v of StructValue n fs \<Rightarrow> Some (n, fs) | _ \<Rightarrow> None)"

definition get_if_list :: "val \<Rightarrow> val option list option" where
  "get_if_list v = (case v of ListValue xs \<Rightarrow> Some xs | _ \<Rightarrow> None)"

definition get_if_enum :: "val \<Rightarrow> (string \<times> string) option" where
  "get_if_enum v = (case v of EnumValue e x \<Rightarrow> Some (e, x) | _ \<Rightarrow> None)"

text \<open>The kinds whose check looks at the value only.\<close>

definition check_kind :: "value_kind list \<Rightarrow> string \<Rightarrow> val \<Rightarrow> string \<Rightarrow> schema_result" where
  "check_kind kinds name v path =
     (if value_kind_of v \<in> set kinds then schema_ok else expected_but_got path name v)"

definition check_enum :: "program_index option \<Rightarrow> val \<Rightarrow> type_ref \<Rightarrow> string \<Rightarrow> schema_result" where
  "check_enum index v expected path =
     (case get_if_enum v of
        None \<Rightarrow> expected_but_got path ''Enum'' v
      | Some (name, variant) \<Rightarrow>
          if \<not> type_name_matches name expected
          then schema_fail (at_path path
                 (''expected enum '' @ quoted (type_name expected) @ '' but got '' @ quoted name))
          else (case find_schema_enum index expected of
                  None \<Rightarrow> schema_ok
                | Some d \<Rightarrow>
                    if variant \<notin> set (enum_variants d)
                    then schema_fail (at_path path
                           (''unknown enum variant '' @ quoted variant @ '' for enum '' @ quoted (decl_name d)))
                    else schema_ok))"

definition check_flat :: "program_index option \<Rightarrow> val \<Rightarrow> type_ref \<Rightarrow> string \<Rightarrow> schema_result" where
  "check_flat index v expected path =
     (case tr_kind expected of
        TyUnit \<Rightarrow>
          if is_none v then schema_ok else schema_fail (at_path path ''expected Unit but got a value'')
      | TyBool \<Rightarrow> check_kind [KBool] ''Bool'' v path
      | TyInt \<Rightarrow> check_kind [KInt] ''Int'' v path
      | TyFloat \<Rightarrow> check_kind [KFloat, KInt] ''Float'' v path
      | TyString \<Rightarrow> check_kind [KString] ''String'' v path
      | TyBoundedString \<Rightarrow> check_kind [KString] ''String'' v path
      | TyDecimal \<Rightarrow> check_kind [KDecimal, KFloat, KInt] ''Decimal'' v path
      | TyDuration \<Rightarrow> check_kind [KDuration] ''Duration'' v path
      | TyEnum \<Rightarrow> check_enum index v expected path
      | TyMap \<Rightarrow> check_kind [KStruct] ''Map'' v path
      | _ \<Rightarrow> schema_ok)"

text \<open>The second loop over the fields of a struct value: a field that is not declared.\<close>

definition check_unexpected ::
  "(string \<times> val option) list \<Rightarrow> struct_decl \<Rightarrow> string \<Rightarrow> schema_result" where
  "check_unexpected fs d path =
     (case find (\<lambda>k. k \<notin> set (map field_name (struct_fields d))) (keys_of fs) of
        Some k \<Rightarrow> schema_fail (at_path path
          (''unexpected field '' @ quoted k @ '' for struct '' @ quoted (decl_name d)))
      | None \<Rightarrow> schema_ok)"

definition struct_mismatch :: "string \<Rightarrow> type_ref \<Rightarrow> string \<Rightarrow> schema_result" where
  "struct_mismatch name expected path =
     schema_fail (at_path path
       (''expected struct '' @ quoted (type_name expected) @ '' but got '' @ quoted name))"

lemma size_map_of_field:
  "map_of fs k = Some (Some v) \<Longrightarrow> size v < size_list (size_prod (\<lambda>_. 0) (size_option size)) fs"
  by (induction fs) (auto split: if_splits)

lemma size_get_if:
  "get_if_optional v = Some (Some x) \<Longrightarrow> size x < size v"
  "get_if_struct v = Some (n, fs) \<Longrightarrow> size_list (size_prod (\<lambda>_. 0) (size_option size)) fs < size v"
  "get_if_list v = Some xs \<Longrightarrow> size_list (size_option size) xs < size v"
  by (auto simp: get_if_optional_def get_if_struct_def get_if_list_def split: val.splits)

lemma size_tr_first: "tr_first t = Some u \<Longrightarrow> size u < size t"
  by (cases t) auto

function check :: "program_index option \<Rightarrow> val \<Rightarrow> type_ref \<Rightarrow> string \<Rightarrow> schema_result"
  and check_fields ::
    "program_index option \<Rightarrow> (string \<times> val option) list \<Rightarrow> string \<Rightarrow> field_decl list \<Rightarrow> string \<Rightarrow> schema_result"
  and check_items :: "program_index option \<Rightarrow> val option list \<Rightarrow> nat \<Rightarrow> type_ref \<Rightarrow> string \<Rightarrow> schema_result"
where
  "check index v expected path =
     (if tr_kind expected = TyOptional
      then (if is_none v then schema_ok
            else case get_if_optional v of
                   Some None \<Rightarrow> schema_ok
                 | Some (Some x) \<Rightarrow>
                     (case tr_first expected of Some t \<Rightarrow> check index x t path | None \<Rightarrow> schema_ok)
                 | None \<Rightarrow> (case tr_first expected of Some t \<Rightarrow> check index v t path | None \<Rightarrow> schema_ok))
      else if tr_kind expected = TyStruct
      then (case get_if_struct v of
              None \<Rightarrow> expected_but_got path ''Struct'' v
            | Some (name, fs) \<Rightarrow>
                if \<not> type_name_matches name expected then struct_mismatch name expected path
                else (case find_schema_struct index expected of
                        None \<Rightarrow> schema_ok
                      | Some d \<Rightarrow>
                          (let r = check_fields index fs (decl_name d) (struct_fields d) path
                           in if \<not> schema_valid r then r else check_unexpected fs d path)))
      else if tr_kind expected = TyList \<or> tr_kind expected = TySet
      then (case get_if_list v of
              None \<Rightarrow> expected_but_got path ''List/Set'' v
            | Some items \<Rightarrow>
                (case tr_first expected of
                   Some t \<Rightarrow> check_items index items 0 t path
                 | None \<Rightarrow> schema_ok))
      else check_flat index v expected path)"
| "check_fields index fs dname [] path = schema_ok"
| "check_fields index fs dname (f # decls) path =
     (case map_of fs (field_name f) of
        Some (Some x) \<Rightarrow>
          (let r = check index x (field_type f)
                     (if path = [] then field_name f else path @ ''.'' @ field_name f)
           in if \<not> schema_valid r then r else check_fields index fs dname decls path)
      | _ \<Rightarrow> schema_fail (at_path path
               (''missing field '' @ quoted (field_name f) @ '' for struct '' @ quoted dname)))"
| "check_items index [] i t path = schema_ok"
| "check_items index (x # items) i t path =
     (case x of
        None \<Rightarrow> schema_fail (at_path path (''list item '' @ nat_to_string i @ '' is null''))
      | Some y \<Rightarrow>
          (let r = check index y t (path @ ''['' @ nat_to_string i @ '']'')
           in if \<not> schema_valid r then r else check_items index items (Suc i) t path))"
  by pat_completeness auto
termination
  by (relation "inv_image (less_than <*lex*> less_than)
      (case_sum (\<lambda>(ix, v, t, p). (2 * size v, size t))
        (case_sum (\<lambda>(ix, fs, n, ds, p).
            (2 * size_list (size_prod (\<lambda>_. 0) (size_option size)) fs + 1, length ds))
          (\<lambda>(ix, xs, i, t, p). (2 * size_list (size_option size) xs + 1, 0))))")
    (auto dest: size_map_of_field size_get_if size_tr_first)

declare check.simps [simp del]

definition validate_value_against_schema :: "val \<Rightarrow> type_ref \<Rightarrow> schema_result" where
  "validate_value_against_schema v expected = check None v expected []"

definition validate_value_against_program :: "val \<Rightarrow> type_ref \<Rightarrow> decl list \<Rightarrow> schema_result" where
  "validate_value_against_program v expected program = check (Some (rebuild program)) v expected []"

subsection \<open>What is accepted\<close>

text \<open>Which kinds of values the flat types have; the types not listed accept every value.\<close>

definition flat_kinds :: "type_ref_kind \<Rightarrow> value_kind set" where
  "flat_kinds k =
     (case k of
        TyUnit \<Rightarrow> {KNone} | TyBool \<Rightarrow> {KBool} | TyInt \<Rightarrow> {KInt} | TyFloat \<Rightarrow> {KFloat, KInt}
      | TyString \<Rightarrow> {KString} | TyBoundedString \<Rightarrow> {KString}
      | TyDecimal \<Rightarrow> {KDecimal, KFloat, KInt} | TyDuration \<Rightarrow> {KDuration}
      | TyMap \<Rightarrow> {KStruct} | TyEnum \<Rightarrow> {KEnum} | _ \<Rightarrow> UNIV)"

definition enum_conforms :: "program_index option \<Rightarrow> val \<Rightarrow> type_ref \<Rightarrow> bool" where
  "enum_conforms ix v t \<longleftrightarrow>
     (\<exists>e x. v = EnumValue e x \<and> type_name_matches e t \<and>
        (\<forall>d. find_schema_enum ix t = Some d \<longrightarrow> x \<in> set (enum_variants d)))"

inductive conforms :: "program_index option \<Rightarrow> val \<Rightarrow> type_ref \<Rightarrow> bool" for ix where
  conf_flat: "tr_kind t \<notin> {TyOptional, TyStruct, TyList, TySet} \<Longrightarrow> value_kind_of v \<in> flat_kinds (tr_kind t) \<Longrightarrow>
    (tr_kind t = TyEnum \<Longrightarrow> enum_conforms ix v t) \<Longrightarrow> conforms ix v t"
| conf_none: "tr_kind t = TyOptional \<Longrightarrow> conforms ix NoneValue t"
| conf_empty: "tr_kind t = TyOptional \<Longrightarrow> conforms ix (OptionalValue None) t"
| conf_untyped: "tr_kind t = TyOptional \<Longrightarrow> tr_first t = None \<Longrightarrow> conforms ix v t"
| conf_some: "tr_kind t = TyOptional \<Longrightarrow> tr_first t = Some u \<Longrightarrow> conforms ix x u \<Longrightarrow>
    conforms ix (OptionalValue (Some x)) t"
| conf_plain: "tr_kind t = TyOptional \<Longrightarrow> tr_first t = Some u \<Longrightarrow> value_kind_of v \<noteq> KOptional \<Longrightarrow>
    conforms ix v u \<Longrightarrow> conforms ix v t"
| conf_opaque: "tr_kind t = TyStruct \<Longrightarrow> type_name_matches n t \<Longrightarrow> find_schema_struct ix t = None \<Longrightarrow>
    conforms ix (StructValue n fs) t"
| conf_struct: "tr_kind t = TyStruct \<Longrightarrow> type_name_matches n t \<Longrightarrow> find_schema_struct ix t = Some d \<Longrightarrow>
    set (keys_of fs) \<subseteq> set (map field_name (struct_fields d)) \<Longrightarrow>
    (\<And>f. f \<in> set (struct_fields d) \<Longrightarrow> \<exists>x. map_of fs (field_name f) = Some (Some x) \<and> conforms ix x (field_type f)) \<Longrightarrow>
    conforms ix (StructValue n fs) t"
| conf_list_untyped: "tr_kind t \<in> {TyList, TySet} \<Longrightarrow> tr_first t = None \<Longrightarrow> conforms ix (ListValue xs) t"
| conf_list: "tr_kind t \<in> {TyList, TySet} \<Longrightarrow> tr_first t = Some u \<Longrightarrow>
    (\<And>p. p \<in> set xs \<Longrightarrow> \<exists>x. p = Some x \<and> conforms ix x u) \<Longrightarrow> conforms ix (ListValue xs) t"

lemma schema_simps [simp]:
  "schema_valid schema_ok" "schema_error schema_ok = []" "\<not> schema_valid (schema_fail m)"
  "schema_error (schema_fail m) = m" "\<not> schema_valid (expected_but_got p n v)"
  "\<not> schema_valid (struct_mismatch n t p)"
  by (simp_all add: schema_ok_def schema_fail_def expected_but_got_def struct_mismatch_def)

lemma get_if_iff:
  "get_if_optional v = Some p \<longleftrightarrow> v = OptionalValue p"
  "get_if_optional v = None \<longleftrightarrow> value_kind_of v \<noteq> KOptional"
  "get_if_struct v = Some (n, fs) \<longleftrightarrow> v = StructValue n fs"
  "get_if_list v = Some xs \<longleftrightarrow> v = ListValue xs"
  "get_if_enum v = Some (e, x) \<longleftrightarrow> v = EnumValue e x"
  by (auto simp: get_if_optional_def get_if_struct_def get_if_list_def get_if_enum_def
      split: val.splits)

lemma check_enum_valid: "schema_valid (check_enum ix v t path) \<longleftrightarrow> enum_conforms ix v t"
  by (cases v) (auto simp: check_enum_def enum_conforms_def get_if_enum_def split: option.splits)

lemma enum_conforms_kind: "enum_conforms ix v t \<Longrightarrow> value_kind_of v = KEnum"
  by (auto simp: enum_conforms_def)

lemma check_flat_valid:
  assumes "tr_kind t \<notin> {TyOptional, TyStruct, TyList, TySet}"
  shows "schema_valid (check_flat ix v t path) \<longleftrightarrow>
    value_kind_of v \<in> flat_kinds (tr_kind t) \<and> (tr_kind t = TyEnum \<longrightarrow> enum_conforms ix v t)"
  using assms enum_conforms_kind [of ix v t]
  by (cases "tr_kind t"; cases v)
    (auto simp: check_flat_def flat_kinds_def check_kind_def check_enum_valid is_none_def)

lemma check_unexpected_valid:
  "schema_valid (check_unexpected fs d path) \<longleftrightarrow> set (keys_of fs) \<subseteq> set (map field_name (struct_fields d))"
  by (auto simp: check_unexpected_def find_None_iff find_Some_iff split: option.splits)
    (metis nth_mem subsetD imageI)+

text \<open>One unfolding of \<open>check\<close> per kind of type.\<close>

lemma check_optional:
  assumes "tr_kind t = TyOptional"
  shows "check ix v t path =
    (if v = NoneValue \<or> v = OptionalValue None then schema_ok
     else case tr_first t of
            None \<Rightarrow> schema_ok
          | Some u \<Rightarrow> (case get_if_optional v of
                         Some (Some x) \<Rightarrow> check ix x u path
                       | _ \<Rightarrow> check ix v u path))"
  using assms
  by (subst check.simps) (auto simp: is_none_def get_if_iff split: option.splits)

lemma check_struct:
  assumes "tr_kind t = TyStruct"
  shows "check ix v t path =
    (case get_if_struct v of
       None \<Rightarrow> expected_but_got path ''Struct'' v
     | Some (name, fs) \<Rightarrow>
         if \<not> type_name_matches name t then struct_mismatch name t path
         else (case find_schema_struct ix t of
                 None \<Rightarrow> schema_ok
               | Some d \<Rightarrow>
                   (let r = check_fields ix fs (decl_name d) (struct_fields d) path
                    in if \<not> schema_valid r then r else check_unexpected fs d path)))"
  using assms by (subst check.simps) (simp add: Let_def)

lemma check_list:
  assumes "tr_kind t \<in> {TyList, TySet}"
  shows "check ix v t path =
    (case get_if_list v of
       None \<Rightarrow> expected_but_got path ''List/Set'' v
     | Some items \<Rightarrow>
         (case tr_first t of Some u \<Rightarrow> check_items ix items 0 u path | None \<Rightarrow> schema_ok))"
  using assms by (subst check.simps) auto

lemma check_other:
  assumes "tr_kind t \<notin> {TyOptional, TyStruct, TyList, TySet}"
  shows "check ix v t path = check_flat ix v t path"
  using assms by (subst check.simps) simp

lemma check_sound:
  "schema_valid (check ix v t path) \<Longrightarrow> conforms ix v t"
  "schema_valid (check_fields ix fs dname decls path) \<Longrightarrow>
     \<forall>f \<in> set decls. \<exists>x. map_of fs (field_name f) = Some (Some x) \<and> conforms ix x (field_type f)"
  "schema_valid (check_items ix xs i u path) \<Longrightarrow> \<forall>p \<in> set xs. \<exists>x. p = Some x \<and> conforms ix x u"
proof (induction ix v t path and ix fs dname decls path and ix xs i u path
    rule: check_check_fields_check_items.induct)
  case (1 ix v t path)
  consider (opt) "tr_kind t = TyOptional" | (struct) "tr_kind t = TyStruct"
    | (lst) "tr_kind t \<in> {TyList, TySet}" | (other) "tr_kind t \<notin> {TyOptional, TyStruct, TyList, TySet}"
    by blast
  then show ?case
  proof cases
    case opt
    show ?thesis
    proof (cases "v = NoneValue \<or> v = OptionalValue None \<or> tr_first t = None")
      case True
      with opt show ?thesis by (auto intro: conforms.intros)
    next
      case False
      then obtain u where u: "tr_first t = Some u" and v: "\<not> is_none v" "get_if_optional v \<noteq> Some None"
        by (auto simp: is_none_def get_if_iff)
      show ?thesis
      proof (cases "get_if_optional v")
        case None
        with "1.prems" opt u False have "schema_valid (check ix v u path)"
          by (simp add: check_optional)
        with "1.IH"(1) [OF opt v(1) None u] opt u None show ?thesis
          by (auto simp: get_if_iff intro: conf_plain)
      next
        case (Some p)
        then obtain x where x: "get_if_optional v = Some (Some x)" using v(2) by (cases p) auto
        with "1.prems" opt u False have "schema_valid (check ix x u path)"
          by (simp add: check_optional)
        with "1.IH"(2) [OF opt v(1) x refl u] opt u x show ?thesis
          by (auto simp: get_if_iff intro: conf_some)
      qed
    qed
  next
    case struct
    then obtain n fs where v: "get_if_struct v = Some (n, fs)" and n: "type_name_matches n t"
      using "1.prems" by (auto simp: check_struct split: option.splits if_splits)
    show ?thesis
    proof (cases "find_schema_struct ix t")
      case None
      with struct v n show ?thesis by (auto simp: get_if_iff intro: conf_opaque)
    next
      case (Some d)
      with "1.prems" struct v n have f: "schema_valid (check_fields ix fs (decl_name d) (struct_fields d) path)"
        and u: "schema_valid (check_unexpected fs d path)"
        by (auto simp: check_struct Let_def split: if_splits)
      have "tr_kind t \<noteq> TyOptional" using struct by simp
      from "1.IH"(3) [OF this struct v refl _ Some f] n struct v Some u show ?thesis
        by (auto simp: get_if_iff check_unexpected_valid intro!: conf_struct [of t n ix d fs])
    qed
  next
    case lst
    then obtain xs where v: "get_if_list v = Some xs"
      using "1.prems" by (auto simp: check_list split: option.splits)
    show ?thesis
    proof (cases "tr_first t")
      case None
      with lst v show ?thesis by (auto simp: get_if_iff intro: conf_list_untyped)
    next
      case (Some u)
      with "1.prems" lst v have c: "schema_valid (check_items ix xs 0 u path)" by (simp add: check_list)
      have k: "tr_kind t \<noteq> TyOptional" "tr_kind t \<noteq> TyStruct" "tr_kind t = TyList \<or> tr_kind t = TySet"
        using lst by auto
      from "1.IH"(4) [OF k v Some c] lst v Some show ?thesis
        by (auto simp: get_if_iff intro!: conf_list)
    qed
  next
    case other
    with "1.prems" show ?thesis
      by (auto simp: check_other check_flat_valid intro: conf_flat)
  qed
qed (auto split: option.splits if_splits simp: Let_def)

lemma check_fields_valid:
  assumes "\<And>f. f \<in> set decls \<Longrightarrow> \<exists>x. map_of fs (field_name f) = Some (Some x) \<and>
      (\<forall>path. schema_valid (check ix x (field_type f) path))"
  shows "schema_valid (check_fields ix fs dname decls path)"
  using assms
proof (induction decls)
  case (Cons f decls)
  then obtain x where "map_of fs (field_name f) = Some (Some x)"
    "\<forall>path. schema_valid (check ix x (field_type f) path)" by auto
  with Cons show ?case by (simp add: Let_def)
qed simp

lemma check_items_valid:
  assumes "\<And>p. p \<in> set xs \<Longrightarrow> \<exists>x. p = Some x \<and> (\<forall>path. schema_valid (check ix x u path))"
  shows "schema_valid (check_items ix xs i u path)"
  using assms
proof (induction xs arbitrary: i)
  case (Cons p xs)
  then obtain x where "p = Some x" "\<forall>path. schema_valid (check ix x u path)" by auto
  with Cons show ?case by (simp add: Let_def)
qed simp

lemma check_complete: "conforms ix v t \<Longrightarrow> schema_valid (check ix v t path)"
proof (induction arbitrary: path rule: conforms.induct)
  case (conf_flat t v)
  then show ?case by (simp add: check_other check_flat_valid)
next
  case (conf_struct t n d fs)
  have "schema_valid (check_fields ix fs (decl_name d) (struct_fields d) path)"
    by (rule check_fields_valid) (use conf_struct.IH in blast)
  with conf_struct.hyps show ?case
    by (simp add: check_struct get_if_struct_def Let_def check_unexpected_valid)
next
  case (conf_list t u xs)
  have "schema_valid (check_items ix xs 0 u path)"
    by (rule check_items_valid) (use conf_list.IH in blast)
  with conf_list.hyps show ?case by (simp add: check_list get_if_list_def)
next
  case (conf_plain t u v)
  then show ?case by (auto simp: check_optional get_if_iff(2) [THEN iffD2] split: option.splits)
qed (auto simp: check_optional check_struct check_list get_if_optional_def get_if_struct_def
    get_if_list_def split: option.splits val.splits)

theorem check_conforms: "schema_valid (check ix v t path) \<longleftrightarrow> conforms ix v t"
  using check_sound(1) check_complete by blast

text \<open>Validation without the program asks less: names only, no fields and no variants.\<close>

lemma conforms_without_program: "conforms ix v t \<Longrightarrow> conforms None v t"
proof (induction rule: conforms.induct)
  case (conf_flat t v)
  then show ?case
    by (intro conforms.conf_flat) (auto simp: enum_conforms_def find_schema_enum_def)
next
  case (conf_struct t n d fs)
  then show ?case by (intro conforms.conf_opaque) (simp_all add: find_schema_struct_def)
next
  case (conf_opaque t n fs)
  then show ?case by (intro conforms.conf_opaque) (simp_all add: find_schema_struct_def)
next
  case (conf_list t u xs)
  then show ?case by (intro conforms.conf_list) auto
qed (auto intro: conforms.intros)

lemma program_schema_stronger:
  "schema_valid (validate_value_against_program v t program) \<Longrightarrow>
    schema_valid (validate_value_against_schema v t)"
  by (simp add: validate_value_against_program_def validate_value_against_schema_def check_conforms
      conforms_without_program)

subsection \<open>The types of the language\<close>

text \<open>
  A reference to a struct or an enum means the declaration with that canonical name, or with
  that name as written; \<open>the_struct\<close> and \<open>the_enum\<close> say that there is exactly one.
\<close>

definition refers :: "type_ref \<Rightarrow> string \<Rightarrow> string \<Rightarrow> bool" where
  "refers t key name \<longleftrightarrow>
     (tr_canonical_name t \<noteq> [] \<and> tr_canonical_name t = key) \<or>
     (tr_display_name t \<noteq> [] \<and> tr_display_name t \<in> {key, name})"

definition the_struct :: "decl list \<Rightarrow> type_ref \<Rightarrow> struct_decl \<Rightarrow> bool" where
  "the_struct ds t d \<longleftrightarrow> {e \<in> set (structs_of ds). refers t (decl_key e) (decl_name e)} = {d}"

definition the_enum :: "decl list \<Rightarrow> type_ref \<Rightarrow> enum_decl \<Rightarrow> bool" where
  "the_enum ds t d \<longleftrightarrow> {e \<in> set (enums_of ds). refers t (decl_key e) (decl_name e)} = {d}"

definition spells :: "type_ref \<Rightarrow> string \<Rightarrow> bool" where
  "spells t a \<longleftrightarrow> a \<noteq> [] \<and> a \<in> {tr_canonical_name t, tr_display_name t}"

definition decimal_places :: "string \<Rightarrow> nat" where
  "decimal_places s = length (takeWhile (\<lambda>c. c \<in> set ''0123456789'') (drop 1 (dropWhile (\<lambda>c. c \<noteq> CHR ''.'') s)))"

text \<open>
  The values of a type, after sections 4.1 and 4.10 of \<open>docs/spec/core-language.zh.md\<close>: refinements
  hold, a struct has exactly its declared fields, an enum one of its variants. An optional
  type also has its values without \<open>some\<close>, as JSON writes them. The runtime has no values of the
  types UUID and Timestamp, nor of the compiler's internal types.
\<close>

inductive has_type :: "decl list \<Rightarrow> val \<Rightarrow> type_ref \<Rightarrow> bool" for ds where
  has_unit: "tr_kind t = TyUnit \<Longrightarrow> has_type ds NoneValue t"
| has_bool: "tr_kind t = TyBool \<Longrightarrow> has_type ds (BoolValue b) t"
| has_int: "tr_kind t = TyInt \<Longrightarrow> has_type ds (IntValue i) t"
| has_float: "tr_kind t = TyFloat \<Longrightarrow> has_type ds (FloatValue x) t"
| has_string: "tr_kind t = TyString \<Longrightarrow> has_type ds (StringValue s) t"
| has_bounded_string: "tr_kind t = TyBoundedString \<Longrightarrow> tr_string_bounds t = Some (low, high) \<Longrightarrow>
    low \<le> int (length s) \<Longrightarrow> int (length s) \<le> high \<Longrightarrow> has_type ds (StringValue s) t"
| has_duration: "tr_kind t = TyDuration \<Longrightarrow> has_type ds (DurationValue s) t"
| has_decimal: "tr_kind t = TyDecimal \<Longrightarrow> tr_decimal_scale t = Some (int (decimal_places s)) \<Longrightarrow>
    has_type ds (DecimalValue s) t"
| has_enum: "tr_kind t = TyEnum \<Longrightarrow> spells t e \<Longrightarrow> the_enum ds t d \<Longrightarrow> x \<in> set (enum_variants d) \<Longrightarrow>
    has_type ds (EnumValue e x) t"
| has_struct: "tr_kind t = TyStruct \<Longrightarrow> spells t n \<Longrightarrow> the_struct ds t d \<Longrightarrow>
    set (keys_of fs) = field_name ` set (struct_fields d) \<Longrightarrow>
    (\<And>f. f \<in> set (struct_fields d) \<Longrightarrow> \<exists>x. map_of fs (field_name f) = Some (Some x) \<and> has_type ds x (field_type f)) \<Longrightarrow>
    has_type ds (StructValue n fs) t"
| has_none: "tr_kind t = TyOptional \<Longrightarrow> tr_first t = Some u \<Longrightarrow> v \<in> {NoneValue, OptionalValue None} \<Longrightarrow> has_type ds v t"
| has_some: "tr_kind t = TyOptional \<Longrightarrow> tr_first t = Some u \<Longrightarrow> has_type ds x u \<Longrightarrow>
    has_type ds (OptionalValue (Some x)) t"
| has_plain: "tr_kind t = TyOptional \<Longrightarrow> tr_first t = Some u \<Longrightarrow> value_kind_of v \<noteq> KOptional \<Longrightarrow>
    has_type ds v u \<Longrightarrow> has_type ds v t"
| has_list: "tr_kind t \<in> {TyList, TySet} \<Longrightarrow> tr_first t = Some u \<Longrightarrow>
    (\<And>p. p \<in> set xs \<Longrightarrow> \<exists>x. p = Some x \<and> has_type ds x u) \<Longrightarrow> has_type ds (ListValue xs) t"
| has_map: "tr_kind t = TyMap \<Longrightarrow> tr_first t = Some k \<Longrightarrow> tr_second t = Some u \<Longrightarrow>
    (\<And>a p. (a, p) \<in> set fs \<Longrightarrow> has_type ds (StringValue a) k \<and> (\<exists>x. p = Some x \<and> has_type ds x u)) \<Longrightarrow>
    has_type ds (StructValue n fs) t"

text \<open>
  The types without a part the check leaves out. Struct declarations may be recursive, so the
  definition is coinductive.
\<close>

coinductive exactly_checked :: "decl list \<Rightarrow> type_ref \<Rightarrow> bool" for ds where
  exact_flat: "tr_kind t \<in> {TyUnit, TyBool, TyInt, TyString, TyDuration} \<Longrightarrow> exactly_checked ds t"
| exact_enum: "tr_kind t = TyEnum \<Longrightarrow> the_enum ds t d \<Longrightarrow> exactly_checked ds t"
| exact_struct: "tr_kind t = TyStruct \<Longrightarrow> the_struct ds t d \<Longrightarrow>
    (\<And>f. f \<in> set (struct_fields d) \<Longrightarrow> exactly_checked ds (field_type f)) \<Longrightarrow> exactly_checked ds t"
| exact_parts: "tr_kind t \<in> {TyOptional, TyList, TySet} \<Longrightarrow> tr_first t = Some u \<Longrightarrow> exactly_checked ds u \<Longrightarrow>
    exactly_checked ds t"

lemma find_conv: "find P xs = Some x \<Longrightarrow> P x \<and> x \<in> set xs"
  by (auto simp: find_Some_iff)

lemma find_schema_struct_refers:
  "find_schema_struct (Some (rebuild ds)) t = Some d \<Longrightarrow>
    d \<in> set (structs_of ds) \<and> refers t (decl_key d) (decl_name d)"
  "find_schema_struct (Some (rebuild ds)) t = None \<Longrightarrow> e \<in> set (structs_of ds) \<Longrightarrow>
    \<not> refers t (decl_key e) (decl_name e)"
  by (auto simp: find_schema_struct_def find_struct_rebuild structs_in_order_rebuild refers_def find_None_iff
      dest: find_conv split: option.splits if_splits)

lemma find_schema_enum_refers:
  "find_schema_enum (Some (rebuild ds)) t = Some d \<Longrightarrow>
    d \<in> set (enums_of ds) \<and> refers t (decl_key d) (decl_name d)"
  "find_schema_enum (Some (rebuild ds)) t = None \<Longrightarrow> e \<in> set (enums_of ds) \<Longrightarrow>
    \<not> refers t (decl_key e) (decl_name e)"
  by (auto simp: find_schema_enum_def find_enum_rebuild enums_in_order_rebuild refers_def find_None_iff
      dest: find_conv split: option.splits if_splits)

lemma find_the_struct:
  assumes "the_struct ds t d"
  shows "find_schema_struct (Some (rebuild ds)) t = Some d"
proof (cases "find_schema_struct (Some (rebuild ds)) t")
  case None
  with find_schema_struct_refers(2) assms show ?thesis by (auto simp: the_struct_def)
next
  case (Some e)
  then show ?thesis using find_schema_struct_refers(1) [OF Some] assms by (auto simp: the_struct_def)
qed

lemma find_the_enum:
  assumes "the_enum ds t d"
  shows "find_schema_enum (Some (rebuild ds)) t = Some d"
proof (cases "find_schema_enum (Some (rebuild ds)) t")
  case None
  with find_schema_enum_refers(2) assms show ?thesis by (auto simp: the_enum_def)
next
  case (Some e)
  then show ?thesis using find_schema_enum_refers(1) [OF Some] assms by (auto simp: the_enum_def)
qed

lemma spells_matches: "spells t a \<Longrightarrow> type_name_matches a t"
  by (auto simp: spells_def type_name_matches_def)

lemma matches_spells:
  assumes "type_name_matches a t"
  shows "the_struct ds t d \<Longrightarrow> spells t a" and "the_enum ds t e \<Longrightarrow> spells t a"
  using assms by (auto simp: spells_def type_name_matches_def the_struct_def the_enum_def refers_def split: if_splits)

lemma has_type_conforms: "has_type ds v t \<Longrightarrow> conforms (Some (rebuild ds)) v t"
proof (induction rule: has_type.induct)
  case (has_enum t e d x)
  then show ?case
    by (intro conf_flat) (auto simp: flat_kinds_def enum_conforms_def find_the_enum spells_matches)
next
  case (has_struct t n d fs)
  then show ?case by (intro conf_struct [OF _ spells_matches find_the_struct]) auto
next
  case (has_plain t u v)
  from has_plain.hyps(1-3) has_plain.IH show ?case by (rule conf_plain)
next
  case (has_list t u xs)
  then show ?case by (intro conf_list) auto
next
  case (has_none t u v)
  then show ?case by (auto intro: conf_none conf_empty)
next
  case (has_some t u x)
  from has_some.hyps(1,2) has_some.IH show ?case by (rule conf_some)
qed (rule conf_flat, simp_all add: flat_kinds_def)+

lemma conforms_has_type:
  "conforms (Some (rebuild ds)) v t \<Longrightarrow> exactly_checked ds t \<Longrightarrow> has_type ds v t"
proof (induction rule: conforms.induct)
  case (conf_flat t v)
  from conf_flat.prems conf_flat.hyps show ?case
  proof (cases rule: exactly_checked.cases)
    case (exact_enum d)
    with conf_flat.hyps show ?thesis
      by (auto simp: enum_conforms_def find_the_enum intro: has_enum matches_spells(2))
  qed (cases v; auto simp: flat_kinds_def intro: has_type.intros)+
next
  case (conf_struct t n d fs)
  from conf_struct.prems conf_struct.hyps(1) obtain e where e: "the_struct ds t e"
    and parts: "\<And>f. f \<in> set (struct_fields e) \<Longrightarrow> exactly_checked ds (field_type f)"
    by (cases rule: exactly_checked.cases) auto
  have "e = d" using find_the_struct [OF e] conf_struct.hyps(3) by simp
  moreover have "\<exists>x. map_of fs (field_name f) = Some (Some x) \<and> has_type ds x (field_type f)"
    if "f \<in> set (struct_fields d)" for f
    using conf_struct.IH [OF that] parts that \<open>e = d\<close> by blast
  moreover from this have "field_name ` set (struct_fields d) \<subseteq> set (keys_of fs)"
    by (force simp: keys_of_def dest: map_of_SomeD)
  ultimately show ?case
    using conf_struct.hyps e by (intro has_struct [of t n ds d]) (auto intro: matches_spells(1))
next
  case (conf_opaque t n fs)
  from conf_opaque.prems conf_opaque.hyps obtain e where "the_struct ds t e"
    by (cases rule: exactly_checked.cases) auto
  with find_the_struct conf_opaque.hyps(3) show ?case by fastforce
next
  case (conf_list t u xs)
  from conf_list.prems conf_list.hyps have "exactly_checked ds u"
    by (cases rule: exactly_checked.cases) auto
  with conf_list.IH conf_list.hyps show ?case by (intro has_list) auto
next
  case (conf_some t u x)
  from conf_some.prems conf_some.hyps have "exactly_checked ds u"
    by (cases rule: exactly_checked.cases) auto
  with conf_some.IH conf_some.hyps show ?case by (intro has_some) auto
next
  case (conf_plain t u v)
  from conf_plain.prems conf_plain.hyps have "exactly_checked ds u"
    by (cases rule: exactly_checked.cases) auto
  with conf_plain.IH have "has_type ds v u" by blast
  with conf_plain.hyps(1-3) show ?case by (rule has_plain)
next
  case (conf_none t)
  from conf_none.prems conf_none.hyps show ?case
    by (cases rule: exactly_checked.cases) (auto intro: has_none)
next
  case (conf_empty t)
  from conf_empty.prems conf_empty.hyps show ?case
    by (cases rule: exactly_checked.cases) (auto intro: has_none)
next
  case (conf_untyped t v)
  from conf_untyped.prems conf_untyped.hyps show ?case
    by (cases rule: exactly_checked.cases) auto
next
  case (conf_list_untyped t xs)
  from conf_list_untyped.prems conf_list_untyped.hyps show ?case
    by (cases rule: exactly_checked.cases) auto
qed

end
