(* ===== verification/Connection_Pool.thy ===== *)
theory Connection_Pool
  imports Prelude
begin

section \<open>The connection pool\<close>

text \<open>
  \<open>src/runtime/engine/connection_pool.{hpp,cpp}\<close>: a limiter of concurrent calls, per host and in
  total. Every member function holds the mutex for its whole body, so the threads of a client
  interleave whole operations and a run is a sequence of operations on one state. The steady
  clock is an argument (nanoseconds). A \<open>Lease\<close> is the host it was granted for; a default
  constructed lease, which \<open>acquired\<close> reports as not acquired, is \<^const>\<open>None\<close>.
\<close>

record pool_config =
  max_connections :: nat
  max_per_host :: nat
  idle_timeout :: int

definition default_pool_config :: pool_config where
  "default_pool_config = \<lparr>max_connections = 8, max_per_host = 4, idle_timeout = 60\<rparr>"

record host_entry =
  active_count :: nat
  last_activity :: int

record pool =
  pool_config :: pool_config
  hosts :: "(string \<times> host_entry) list"
  total_active :: nat

definition new_pool :: "pool_config \<Rightarrow> pool" where
  "new_pool cfg = \<lparr>pool_config = cfg, hosts = [], total_active = 0\<rparr>"

definition default_entry :: host_entry where
  "default_entry = \<lparr>active_count = 0, last_activity = 0\<rparr>"

definition active_for_host :: "string \<Rightarrow> pool \<Rightarrow> nat" where
  "active_for_host host p =
     (case map_of (hosts p) host of Some e \<Rightarrow> active_count e | None \<Rightarrow> 0)"

definition can_connect :: "string \<Rightarrow> pool \<Rightarrow> bool" where
  "can_connect host p =
     (if max_connections (pool_config p) \<le> total_active p then False
      else case map_of (hosts p) host of
             Some e \<Rightarrow> \<not> max_per_host (pool_config p) \<le> active_count e
           | None \<Rightarrow> True)"

text \<open>\<open>hosts_[host]\<close> creates the entry; \<open>start_on\<close> is the update that follows.\<close>

definition entry_of :: "string \<Rightarrow> pool \<Rightarrow> host_entry" where
  "entry_of host p = (case map_of (hosts p) host of Some e \<Rightarrow> e | None \<Rightarrow> default_entry)"

definition touch :: "string \<Rightarrow> pool \<Rightarrow> pool" where
  "touch host p = p\<lparr>hosts := emplace host default_entry (hosts p)\<rparr>"

definition start_on :: "string \<Rightarrow> int \<Rightarrow> pool \<Rightarrow> pool" where
  "start_on host t p =
     p\<lparr>hosts := insert_or_assign host
          \<lparr>active_count = active_count (entry_of host p) + 1, last_activity = t\<rparr> (hosts p),
       total_active := total_active p + 1\<rparr>"

definition try_acquire :: "string \<Rightarrow> int \<Rightarrow> pool \<Rightarrow> string option \<times> pool" where
  "try_acquire host t p =
     (if max_connections (pool_config p) \<le> total_active p then (None, p)
      else
        (let p1 = touch host p
         in if max_per_host (pool_config p1) \<le> active_count (entry_of host p1) then (None, p1)
            else (Some host, start_on host t p1)))"

definition record_start :: "string \<Rightarrow> int \<Rightarrow> pool \<Rightarrow> pool" where
  "record_start host t p = start_on host t (touch host p)"

definition record_end :: "string \<Rightarrow> int \<Rightarrow> pool \<Rightarrow> pool" where
  "record_end host t p =
     (case map_of (hosts p) host of
        Some e \<Rightarrow>
          if 0 < active_count e
          then p\<lparr>hosts := insert_or_assign host
                   \<lparr>active_count = active_count e - 1, last_activity = t\<rparr> (hosts p),
                 total_active := total_active p - 1\<rparr>
          else p
      | None \<Rightarrow> p)"

text \<open>\<open>Lease::release\<close>, which the destructor and the move assignment call.\<close>

definition lease_release :: "string option \<Rightarrow> int \<Rightarrow> pool \<Rightarrow> string option \<times> pool" where
  "lease_release lease t p =
     (case lease of None \<Rightarrow> (None, p) | Some host \<Rightarrow> (None, record_end host t p))"

definition evict_idle :: "int \<Rightarrow> pool \<Rightarrow> pool" where
  "evict_idle t p =
     p\<lparr>hosts := filter (\<lambda>(h, e). \<not> (active_count e = 0 \<and>
          idle_timeout (pool_config p) * 1000000000 < t - last_activity e)) (hosts p)\<rparr>"

definition total_connections :: "pool \<Rightarrow> nat" where
  "total_connections p = total_active p"

subsection \<open>Runs\<close>

text \<open>
  The states that clients which hold their slots through leases can reach: the pool and the
  leases that are out. \<open>record_start\<close> and \<open>record_end\<close> are public but only the lease uses them.
\<close>

inductive pool_run :: "pool_config \<Rightarrow> pool \<Rightarrow> string list \<Rightarrow> bool" for cfg where
  run_new: "pool_run cfg (new_pool cfg) []"
| run_granted: "pool_run cfg p ls \<Longrightarrow> try_acquire h t p = (Some h', p') \<Longrightarrow> pool_run cfg p' (h' # ls)"
| run_refused: "pool_run cfg p ls \<Longrightarrow> try_acquire h t p = (None, p') \<Longrightarrow> pool_run cfg p' ls"
| run_released: "pool_run cfg p ls \<Longrightarrow> h \<in> set ls \<Longrightarrow> lease_release (Some h) t p = (l, p') \<Longrightarrow>
    pool_run cfg p' (remove1 h ls)"
| run_evicted: "pool_run cfg p ls \<Longrightarrow> pool_run cfg (evict_idle t p) ls"

subsection \<open>Lemmas\<close>

lemma entry_of_active: "active_count (entry_of h p) = active_for_host h p"
  by (simp add: entry_of_def active_for_host_def default_entry_def split: option.split)

lemma touch_simps [simp]:
  "pool_config (touch h p) = pool_config p" "total_active (touch h p) = total_active p"
  "active_for_host k (touch h p) = active_for_host k p"
  by (auto simp: touch_def active_for_host_def default_entry_def map_of_emplace
      map_of_eq_None_keys [symmetric] split: option.splits)

lemma start_on_simps [simp]:
  "pool_config (start_on h t p) = pool_config p"
  "total_active (start_on h t p) = total_active p + 1"
  "active_for_host k (start_on h t p) = active_for_host k p + (if k = h then 1 else 0)"
  by (auto simp: start_on_def active_for_host_def entry_of_def default_entry_def split: option.splits)

lemma record_end_simps [simp]:
  "pool_config (record_end h t p) = pool_config p"
  "total_active (record_end h t p) = total_active p - (if 0 < active_for_host h p then 1 else 0)"
  "active_for_host k (record_end h t p) = active_for_host k p - (if k = h then 1 else 0)"
  by (auto simp: record_end_def active_for_host_def split: option.splits)

lemma map_of_filter_distinct:
  "distinct (keys_of xs) \<Longrightarrow> map_of (filter P xs) k = (case map_of xs k of Some v \<Rightarrow> if P (k, v) then Some v else None | None \<Rightarrow> None)"
proof (induction xs)
  case (Cons x xs)
  obtain a b where "x = (a, b)" by (cases x)
  moreover have "a \<notin> set (keys_of xs) \<Longrightarrow> map_of (filter P xs) a = None"
    by (auto simp: map_of_eq_None_iff keys_of_def)
  ultimately show ?case using Cons by (auto simp: map_of_eq_None_keys [symmetric] split: option.splits)
qed simp

lemma evict_idle_simps:
  "pool_config (evict_idle t p) = pool_config p" "total_active (evict_idle t p) = total_active p"
  "distinct (keys_of (hosts p)) \<Longrightarrow> active_for_host k (evict_idle t p) = active_for_host k p"
  by (auto simp: evict_idle_def active_for_host_def map_of_filter_distinct split: option.splits)

text \<open>The keys of the hash map stay distinct.\<close>

lemma keys_distinct:
  assumes "distinct (keys_of (hosts p))"
  shows "distinct (keys_of (hosts (touch h p)))" "distinct (keys_of (hosts (start_on h t p)))"
    "distinct (keys_of (hosts (record_end h t p)))" "distinct (keys_of (hosts (evict_idle t p)))"
  using assms
  by (auto simp: touch_def start_on_def record_end_def evict_idle_def keys_of_def distinct_map_filter
      split: option.splits
      intro: distinct_emplace [unfolded keys_of_def] distinct_insert_or_assign [unfolded keys_of_def])

lemma try_acquire_cases:
  obtains (full) "max_connections (pool_config p) \<le> total_active p" "try_acquire h t p = (None, p)"
  | (host_full) "\<not> max_connections (pool_config p) \<le> total_active p"
      "max_per_host (pool_config p) \<le> active_for_host h p" "try_acquire h t p = (None, touch h p)"
  | (granted) "\<not> max_connections (pool_config p) \<le> total_active p"
      "\<not> max_per_host (pool_config p) \<le> active_for_host h p"
      "try_acquire h t p = (Some h, start_on h t (touch h p))"
  by (cases "max_connections (pool_config p) \<le> total_active p";
      cases "max_per_host (pool_config p) \<le> active_for_host h p")
    (auto simp: try_acquire_def Let_def entry_of_active)

text \<open>\<open>can_connect\<close> predicts \<open>try_acquire\<close>, except for a host without entry when no connection per host is allowed.\<close>

lemma can_connect_iff:
  assumes "0 < max_per_host (pool_config p)"
  shows "can_connect h p \<longleftrightarrow> fst (try_acquire h t p) = Some h"
  using assms
  by (cases rule: try_acquire_cases [of p h t])
    (auto simp: can_connect_def active_for_host_def split: option.splits)

definition pool_inv :: "pool_config \<Rightarrow> pool \<Rightarrow> string list \<Rightarrow> bool" where
  "pool_inv cfg p ls \<longleftrightarrow>
     pool_config p = cfg \<and> distinct (keys_of (hosts p)) \<and> total_active p = length ls \<and>
     (\<forall>h. active_for_host h p = count_list ls h) \<and>
     length ls \<le> max_connections cfg \<and> (\<forall>h. count_list ls h \<le> max_per_host cfg)"

lemma count_list_remove1: "count_list (remove1 x xs) y = count_list xs y - (if x = y then 1 else 0)"
  by (induction xs) (auto simp: count_list_0_iff)

lemma pool_run_inv: "pool_run cfg p ls \<Longrightarrow> pool_inv cfg p ls"
proof (induction rule: pool_run.induct)
  case run_new
  show ?case by (simp add: pool_inv_def new_pool_def active_for_host_def)
next
  case (run_granted p ls h t h' p')
  then show ?case
    by (cases rule: try_acquire_cases [of p h t]) (auto simp: pool_inv_def keys_distinct)
next
  case (run_refused p ls h t p')
  then show ?case
    by (cases rule: try_acquire_cases [of p h t]) (auto simp: pool_inv_def keys_distinct)
next
  case (run_released p ls h t l p')
  have p': "p' = record_end h t p" using run_released.hyps(3) by (simp add: lease_release_def)
  have "0 < count_list ls h" using run_released.hyps(2) by (simp add: count_list_0_iff zero_less_iff_neq_zero)
  with run_released.IH run_released.hyps(2) show ?case
    by (auto simp: pool_inv_def p' keys_distinct count_list_remove1 length_remove1)
      (meson diff_le_self le_trans)
next
  case (run_evicted p ls t)
  then show ?case by (simp add: pool_inv_def evict_idle_simps keys_distinct)
qed

end
