(* ===== verification/Secrets.thy ===== *)
theory Secrets
  imports Prelude
begin

section \<open>Secrets and authentication\<close>

text \<open>
  \<open>src/runtime/providers/secret/\<close>: \<open>secret_provider.{hpp,cpp}\<close> (the environment provider, the
  provider chain with prefix routing, the manager with its audit log), \<open>auth_provider.{hpp,cpp}\<close>
  and \<open>key_rotation.{hpp,cpp}\<close>. The interface \<open>SecretProvider\<close> is a record of the two virtual
  functions on a world \<open>'w\<close>, which holds what the providers cache and reach; the environment
  and the system clock are parameters.
\<close>

subsection \<open>Providers\<close>

record 'w secret_provider =
  sp_resolve :: "string \<Rightarrow> 'w \<Rightarrow> string option \<times> 'w"
  sp_refresh :: "string \<Rightarrow> 'w \<Rightarrow> 'w"

text \<open>\<open>std::getenv\<close> takes a C string: the key ends at its first NUL.\<close>

definition env_resolve :: "(string \<Rightarrow> string option) \<Rightarrow> string \<Rightarrow> 'w \<Rightarrow> string option \<times> 'w" where
  "env_resolve getenv key w = (getenv (takeWhile (\<lambda>c. c \<noteq> CHR 0x00) key), w)"

definition env_refresh :: "string \<Rightarrow> 'w \<Rightarrow> 'w" where
  "env_refresh key w = w"

definition env_provider :: "(string \<Rightarrow> string option) \<Rightarrow> 'w secret_provider" where
  "env_provider getenv = \<lparr>sp_resolve = env_resolve getenv, sp_refresh = env_refresh\<rparr>"

subsection \<open>The provider chain\<close>

record 'w chain_entry =
  ce_prefix :: string
  ce_provider :: "'w secret_provider"
  ce_default :: bool

type_synonym 'w chain = "'w chain_entry list"

definition add_provider ::
  "string \<Rightarrow> 'w secret_provider option \<Rightarrow> bool \<Rightarrow> 'w chain \<Rightarrow> 'w chain" where
  "add_provider pfx provider dflt entries =
     (case provider of
        None \<Rightarrow> entries
      | Some p \<Rightarrow>
          if pfx = [] then entries
          else entries @ [\<lparr>ce_prefix = pfx, ce_provider = p, ce_default = dflt\<rparr>])"

text \<open>\<open>key.find(':')\<close>, and the index of the first entry with a prefix (the size when there is none).\<close>

definition find_char :: "char \<Rightarrow> string \<Rightarrow> nat option" where
  "find_char c s = (if c \<in> set s then Some (length (takeWhile (\<lambda>d. d \<noteq> c) s)) else None)"

definition entry_index :: "string \<Rightarrow> 'w chain \<Rightarrow> nat" where
  "entry_index pfx entries = length (takeWhile (\<lambda>e. ce_prefix e \<noteq> pfx) entries)"

definition provider_for_prefixed_key :: "'w chain \<Rightarrow> string \<Rightarrow> (nat \<times> string) option" where
  "provider_for_prefixed_key entries key =
     (case find_char (CHR '':'') key of
        None \<Rightarrow> None
      | Some separator \<Rightarrow>
          if separator = 0 \<or> length key \<le> separator + 1 then None
          else Some (entry_index (take separator key) entries, drop (separator + 1) key))"

fun resolve_defaults :: "'w chain \<Rightarrow> string \<Rightarrow> 'w \<Rightarrow> string option \<times> 'w" where
  "resolve_defaults [] key w = (None, w)"
| "resolve_defaults (e # es) key w =
     (if \<not> ce_default e then resolve_defaults es key w
      else (case sp_resolve (ce_provider e) key w of
              (Some s, w') \<Rightarrow> (Some s, w')
            | (None, w') \<Rightarrow> resolve_defaults es key w'))"

definition chain_resolve :: "'w chain \<Rightarrow> string \<Rightarrow> 'w \<Rightarrow> string option \<times> 'w" where
  "chain_resolve entries key w =
     (case provider_for_prefixed_key entries key of
        Some (index, stripped_key) \<Rightarrow>
          if length entries \<le> index then (None, w)
          else sp_resolve (ce_provider (entries ! index)) stripped_key w
      | None \<Rightarrow> resolve_defaults entries key w)"

definition chain_refresh :: "'w chain \<Rightarrow> string \<Rightarrow> 'w \<Rightarrow> 'w" where
  "chain_refresh entries key w =
     (case provider_for_prefixed_key entries key of
        Some (index, stripped_key) \<Rightarrow>
          if index < length entries then sp_refresh (ce_provider (entries ! index)) stripped_key w else w
      | None \<Rightarrow> foldl (\<lambda>w e. if ce_default e then sp_refresh (ce_provider e) key w else w) w entries)"

definition chain_provider :: "'w chain \<Rightarrow> 'w secret_provider" where
  "chain_provider entries = \<lparr>sp_resolve = chain_resolve entries, sp_refresh = chain_refresh entries\<rparr>"

subsection \<open>The manager and its audit log\<close>

datatype access_kind = AccessResolve | AccessRefresh

record access_event =
  ae_kind :: access_kind
  ae_key :: string
  ae_accessor :: string
  ae_success :: bool
  ae_timestamp :: int

record 'w secret_manager =
  sm_provider :: "'w secret_provider"
  sm_clock :: "'w \<Rightarrow> int \<times> 'w"
  sm_log :: "access_event list"

definition log_event :: "access_event \<Rightarrow> 'w secret_manager \<Rightarrow> 'w secret_manager" where
  "log_event ev m = m\<lparr>sm_log := sm_log m @ [ev]\<rparr>"

definition secret_get ::
  "string \<Rightarrow> string \<Rightarrow> 'w secret_manager \<times> 'w \<Rightarrow> string option \<times> 'w secret_manager \<times> 'w" where
  "secret_get key accessor s =
     (case s of (m, w) \<Rightarrow>
        (case sp_resolve (sm_provider m) key w of (result, w1) \<Rightarrow>
           (case sm_clock m w1 of (t, w2) \<Rightarrow>
              (result,
               log_event \<lparr>ae_kind = AccessResolve, ae_key = key, ae_accessor = accessor,
                 ae_success = (result \<noteq> None), ae_timestamp = t\<rparr> m, w2))))"

definition secret_refresh ::
  "string \<Rightarrow> string \<Rightarrow> 'w secret_manager \<times> 'w \<Rightarrow> 'w secret_manager \<times> 'w" where
  "secret_refresh key accessor s =
     (case s of (m, w) \<Rightarrow>
        (case sm_clock m (sp_refresh (sm_provider m) key w) of (t, w2) \<Rightarrow>
           (log_event \<lparr>ae_kind = AccessRefresh, ae_key = key, ae_accessor = accessor,
              ae_success = True, ae_timestamp = t\<rparr> m, w2)))"

subsection \<open>Authentication\<close>

datatype auth_scheme = AuthNone | BearerToken | OAuth2ClientCredentials | MTLS

record auth_config =
  scheme :: auth_scheme
  token_key :: string
  client_id_key :: string
  cert_path_key :: string
  key_path_key :: string
  token_url :: string

record resolved_auth =
  ra_headers :: "(string \<times> string) list"
  ra_curl_flags :: "string list"
  ra_cert_path :: string
  ra_key_path :: string
  ra_success :: bool
  ra_error :: string

definition empty_auth :: resolved_auth where
  "empty_auth =
     \<lparr>ra_headers = [], ra_curl_flags = [], ra_cert_path = [], ra_key_path = [], ra_success = True,
      ra_error = []\<rparr>"

definition auth_failure :: "string \<Rightarrow> resolved_auth" where
  "auth_failure msg = empty_auth\<lparr>ra_success := False, ra_error := msg\<rparr>"

text \<open>The token branch, which the bearer and the OAuth2 scheme share up to the messages.\<close>

definition resolve_token ::
  "string \<Rightarrow> auth_config \<Rightarrow> 'w secret_manager \<times> 'w \<Rightarrow> resolved_auth \<times> 'w secret_manager \<times> 'w" where
  "resolve_token label config s =
     (if token_key config = [] then (auth_failure (label @ '' token secret key is empty''), s)
      else (case secret_get (token_key config) ''auth_provider'' s of
              (Some token, s') \<Rightarrow>
                (empty_auth\<lparr>ra_headers := [(''Authorization'', ''Bearer '' @ token)]\<rparr>, s')
            | (None, s') \<Rightarrow>
                (auth_failure (label @ '' token secret not found: '' @ token_key config), s')))"

definition resolve_mtls ::
  "auth_config \<Rightarrow> 'w secret_manager \<times> 'w \<Rightarrow> resolved_auth \<times> 'w secret_manager \<times> 'w" where
  "resolve_mtls config s =
     (if cert_path_key config = [] then (auth_failure ''mTLS certificate path secret key is empty'', s)
      else if key_path_key config = [] then (auth_failure ''mTLS private key path secret key is empty'', s)
      else
        (case secret_get (cert_path_key config) ''auth_provider'' s of
           (cert, s1) \<Rightarrow>
             (case secret_get (key_path_key config) ''auth_provider'' s1 of
                (key, s2) \<Rightarrow>
                  (case cert of
                     None \<Rightarrow>
                       (auth_failure (''mTLS certificate path secret not found: '' @ cert_path_key config), s2)
                   | Some c \<Rightarrow>
                       (case key of
                          None \<Rightarrow>
                            (auth_failure (''mTLS private key path secret not found: '' @ key_path_key config), s2)
                        | Some k \<Rightarrow>
                            (empty_auth\<lparr>ra_cert_path := c, ra_key_path := k,
                               ra_curl_flags := [''--cert'', c, ''--key'', k]\<rparr>, s2))))))"

definition resolve_auth ::
  "auth_config \<Rightarrow> 'w secret_manager \<times> 'w \<Rightarrow> resolved_auth \<times> 'w secret_manager \<times> 'w" where
  "resolve_auth config s =
     (case scheme config of
        AuthNone \<Rightarrow> (empty_auth, s)
      | BearerToken \<Rightarrow> resolve_token ''bearer'' config s
      | OAuth2ClientCredentials \<Rightarrow> resolve_token ''OAuth2'' config s
      | MTLS \<Rightarrow> resolve_mtls config s)"

subsection \<open>Routing and auditing\<close>

text \<open>A qualified handle reaches exactly the provider of its prefix, with the prefix stripped.\<close>

lemma find_char_append: "c \<notin> set p \<Longrightarrow> find_char c (p @ c # k) = Some (length p)"
proof -
  assume "c \<notin> set p"
  then have "takeWhile (\<lambda>d. d \<noteq> c) (p @ c # k) = p"
    by (induction p) auto
  then show ?thesis by (simp add: find_char_def)
qed

lemma entry_index_first:
  assumes "entries = es @ e # es'" "ce_prefix e = p" "\<forall>x \<in> set es. ce_prefix x \<noteq> p"
  shows "entry_index p entries = length es"
  using assms by (simp add: entry_index_def takeWhile_append2)

lemma entry_index_none:
  "\<forall>x \<in> set entries. ce_prefix x \<noteq> p \<Longrightarrow> entry_index p entries = length entries"
  by (simp add: entry_index_def takeWhile_eq_all_conv [THEN iffD2])

lemma chain_resolve_qualified:
  assumes "CHR '':'' \<notin> set p" "p \<noteq> []" "k \<noteq> []"
  shows "chain_resolve entries (p @ CHR '':'' # k) w =
    (case find (\<lambda>e. ce_prefix e = p) entries of
       None \<Rightarrow> (None, w)
     | Some e \<Rightarrow> sp_resolve (ce_provider e) k w)"
proof -
  have key: "provider_for_prefixed_key entries (p @ CHR '':'' # k) = Some (entry_index p entries, k)"
    using assms by (auto simp: provider_for_prefixed_key_def find_char_append)
  show ?thesis
  proof (cases "find (\<lambda>e. ce_prefix e = p) entries")
    case None
    then have "entry_index p entries = length entries"
      by (intro entry_index_none) (auto simp: find_None_iff)
    with None show ?thesis by (simp add: chain_resolve_def key)
  next
    case (Some e)
    then obtain i where i: "i < length entries" "ce_prefix (entries ! i) = p" "e = entries ! i"
      "\<forall>j<i. ce_prefix (entries ! j) \<noteq> p"
      by (auto simp: find_Some_iff)
    have "entry_index p entries = length (take i entries)"
      by (rule entry_index_first [where e = e and es' = "drop (Suc i) entries"])
        (use i in \<open>auto simp: id_take_nth_drop [symmetric] in_set_conv_nth\<close>)
    with i Some show ?thesis by (simp add: chain_resolve_def key)
  qed
qed

lemma secret_get_logs:
  assumes "secret_get key accessor (m, w) = (r, m', w')"
  shows "\<exists>t. m' = log_event \<lparr>ae_kind = AccessResolve, ae_key = key, ae_accessor = accessor,
    ae_success = (r \<noteq> None), ae_timestamp = t\<rparr> m"
  using assms by (auto simp: secret_get_def split: prod.splits)

text \<open>The keys a scheme reads, in order.\<close>

definition auth_keys :: "auth_config \<Rightarrow> string list" where
  "auth_keys config =
     (case scheme config of
        AuthNone \<Rightarrow> []
      | MTLS \<Rightarrow> if cert_path_key config = [] \<or> key_path_key config = [] then []
                else [cert_path_key config, key_path_key config]
      | _ \<Rightarrow> if token_key config = [] then [] else [token_key config])"

text \<open>
  Every secret an authentication reads is in the audit log, in order, under the accessor
  \<open>auth_provider\<close>, and nothing in the log is changed.
\<close>

definition audited :: "string list \<Rightarrow> access_event list \<Rightarrow> bool" where
  "audited keys evs \<longleftrightarrow>
     map ae_key evs = keys \<and> list_all (\<lambda>ev. ae_kind ev = AccessResolve \<and> ae_accessor ev = ''auth_provider'') evs"

lemma resolve_token_audited:
  assumes "resolve_token label config (m, w) = (a, m', w')"
  shows "\<exists>evs. sm_log m' = sm_log m @ evs \<and>
    audited (if token_key config = [] then [] else [token_key config]) evs \<and>
    (ra_success a \<longleftrightarrow> evs \<noteq> [] \<and> list_all ae_success evs)"
proof (cases "token_key config = []")
  case True
  with assms show ?thesis by (auto simp: resolve_token_def auth_failure_def empty_auth_def audited_def)
next
  case False
  obtain r m1 w1 where g: "secret_get (token_key config) ''auth_provider'' (m, w) = (r, m1, w1)"
    by (metis prod_cases3)
  with assms False have "m' = m1" "ra_success a \<longleftrightarrow> r \<noteq> None"
    by (auto simp: resolve_token_def auth_failure_def empty_auth_def split: option.splits)
  with secret_get_logs [OF g] False show ?thesis by (auto simp: log_event_def audited_def)
qed

lemma resolve_mtls_audited:
  assumes "resolve_mtls config (m, w) = (a, m', w')"
  shows "\<exists>evs. sm_log m' = sm_log m @ evs \<and>
    audited (if cert_path_key config = [] \<or> key_path_key config = [] then []
             else [cert_path_key config, key_path_key config]) evs \<and>
    (ra_success a \<longleftrightarrow> evs \<noteq> [] \<and> list_all ae_success evs)"
proof (cases "cert_path_key config = [] \<or> key_path_key config = []")
  case True
  with assms show ?thesis
    by (auto simp: resolve_mtls_def auth_failure_def empty_auth_def audited_def split: if_splits)
next
  case False
  obtain c m1 w1 where c: "secret_get (cert_path_key config) ''auth_provider'' (m, w) = (c, m1, w1)"
    by (metis prod_cases3)
  obtain k m2 w2 where k: "secret_get (key_path_key config) ''auth_provider'' (m1, w1) = (k, m2, w2)"
    by (metis prod_cases3)
  from assms False c k have "m' = m2" "ra_success a \<longleftrightarrow> c \<noteq> None \<and> k \<noteq> None"
    by (auto simp: resolve_mtls_def auth_failure_def empty_auth_def split: option.splits)
  with secret_get_logs [OF c] secret_get_logs [OF k] False show ?thesis
    by (auto simp: log_event_def audited_def)
qed

lemma resolve_auth_audited:
  assumes "resolve_auth config (m, w) = (a, m', w')"
  shows "\<exists>evs. sm_log m' = sm_log m @ evs \<and> audited (auth_keys config) evs \<and>
    (ra_success a \<longleftrightarrow> scheme config = AuthNone \<or> evs \<noteq> [] \<and> list_all ae_success evs)"
proof (cases "scheme config")
  case AuthNone
  with assms show ?thesis
    by (auto simp: resolve_auth_def auth_keys_def empty_auth_def audited_def)
next
  case MTLS
  with assms resolve_mtls_audited [of config m w a m' w'] show ?thesis
    by (simp add: resolve_auth_def auth_keys_def)
next
  case BearerToken
  with assms resolve_token_audited [of "''bearer''" config m w a m' w'] show ?thesis
    by (simp add: resolve_auth_def auth_keys_def)
next
  case OAuth2ClientCredentials
  with assms resolve_token_audited [of "''OAuth2''" config m w a m' w'] show ?thesis
    by (simp add: resolve_auth_def auth_keys_def)
qed

subsection \<open>Key rotation\<close>

record rotation_policy =
  rp_key :: string
  rp_interval :: int
  rp_grace_period :: int
  rp_max_retries :: nat

datatype rotation_status = RotIdle | RotScheduled | RotInProgress | RotCompleted | RotFailed

record rotation_event =
  re_key :: string
  re_provider_prefix :: string
  re_key_fingerprint :: string
  re_status :: rotation_status
  re_timestamp :: int
  re_previous_present :: bool
  re_rotated_present :: bool
  re_attempts :: nat
  re_secret_free :: bool
  re_error :: string

record rotation_manager =
  rm_policies :: "(string \<times> rotation_policy) list"
  rm_history :: "rotation_event list"
  rm_last_rotation :: "(string \<times> int) list"

definition add_policy :: "rotation_policy \<Rightarrow> rotation_manager \<Rightarrow> rotation_manager" where
  "add_policy pol m = m\<lparr>rm_policies := insert_or_assign (rp_key pol) pol (rm_policies m)\<rparr>"

definition remove_policy :: "string \<Rightarrow> rotation_manager \<Rightarrow> rotation_manager" where
  "remove_policy key m = m\<lparr>rm_policies := filter (\<lambda>(k, _). k \<noteq> key) (rm_policies m)\<rparr>"

definition get_policy :: "string \<Rightarrow> rotation_manager \<Rightarrow> rotation_policy option" where
  "get_policy key m = map_of (rm_policies m) key"

definition fnv1a_hash :: "string \<Rightarrow> nat" where
  "fnv1a_hash s =
     foldl (\<lambda>hash c. (xor hash (of_char c) * 1099511628211) mod 2 ^ 64) 14695981039346656037 s"

text \<open>\<open>std::hex\<close> with width 16 and fill \<open>0\<close>, of a number below \<open>2^64\<close>.\<close>

definition hex_hash :: "nat \<Rightarrow> string" where
  "hex_hash n = map (\<lambda>i. ''0123456789abcdef'' ! (n div 16 ^ i mod 16)) (rev [0..<16])"

definition provider_prefix :: "string \<Rightarrow> string" where
  "provider_prefix key =
     (case find_char (CHR '':'') key of
        None \<Rightarrow> ''unqualified''
      | Some i \<Rightarrow> if i = 0 then ''unqualified'' else take i key)"

text \<open>The attempts: refresh and resolve until a value is there; the number of attempts made.\<close>

fun rotate_attempts ::
  "'w secret_provider \<Rightarrow> string \<Rightarrow> nat \<Rightarrow> nat \<Rightarrow> 'w \<Rightarrow> (string option \<times> nat) \<times> 'w" where
  "rotate_attempts sp key attempts 0 w = ((None, attempts), w)"
| "rotate_attempts sp key attempts (Suc left) w =
     (case sp_resolve sp key (sp_refresh sp key w) of
        (Some v, w') \<Rightarrow> ((Some v, attempts + 1), w')
      | (None, w') \<Rightarrow> rotate_attempts sp key (attempts + 1) left w')"

text \<open>\<open>max_retries + 1\<close> is a \<open>size_t\<close> and wraps to zero; \<open>std::max\<close> makes it one again.\<close>

definition rotation_attempts :: "rotation_policy option \<Rightarrow> nat" where
  "rotation_attempts pol =
     max 1 (case pol of Some q \<Rightarrow> (rp_max_retries q + 1) mod 2 ^ 64 | None \<Rightarrow> 1)"

definition rotate_key ::
  "'w secret_provider \<Rightarrow> ('w \<Rightarrow> int \<times> 'w) \<Rightarrow> (rotation_event \<Rightarrow> 'w \<Rightarrow> 'w) list \<Rightarrow> string \<Rightarrow>
    rotation_manager \<times> 'w \<Rightarrow> rotation_event \<times> rotation_manager \<times> 'w" where
  "rotate_key sp clock callbacks key s =
     (case s of (m, w) \<Rightarrow>
        (case clock w of (t, w1) \<Rightarrow>
           (case sp_resolve sp key w1 of (old_value, w2) \<Rightarrow>
              (case rotate_attempts sp key 0 (rotation_attempts (get_policy key m)) w2 of
                 ((new_value, attempts), w3) \<Rightarrow>
                   (let ok = (new_value \<noteq> None);
                        ev = \<lparr>re_key = key, re_provider_prefix = provider_prefix key,
                              re_key_fingerprint = hex_hash (fnv1a_hash key),
                              re_status = (if ok then RotCompleted else RotFailed), re_timestamp = t,
                              re_previous_present = (old_value \<noteq> None), re_rotated_present = ok,
                              re_attempts = attempts, re_secret_free = True,
                              re_error = (if ok then [] else ''secret provider returned no value for rotated key'')\<rparr>;
                        m' = m\<lparr>rm_last_rotation :=
                                (if ok then insert_or_assign key t (rm_last_rotation m) else rm_last_rotation m),
                               rm_history := rm_history m @ [ev]\<rparr>
                    in (ev, m', foldl (\<lambda>w cb. cb ev w) w3 callbacks))))))"

text \<open>\<open>now\<close> is read once; \<open>elapsed\<close> is truncated to seconds (the clock counts nanoseconds).\<close>

definition rotation_due :: "int \<Rightarrow> rotation_policy \<Rightarrow> int option \<Rightarrow> bool" where
  "rotation_due t pol prev =
     (case prev of None \<Rightarrow> True | Some l \<Rightarrow> rp_interval pol \<le> trunc_div (t - l) 1000000000)"

fun check_policies ::
  "'w secret_provider \<Rightarrow> ('w \<Rightarrow> int \<times> 'w) \<Rightarrow> (rotation_event \<Rightarrow> 'w \<Rightarrow> 'w) list \<Rightarrow> int \<Rightarrow>
    (string \<times> rotation_policy) list \<Rightarrow> rotation_manager \<times> 'w \<Rightarrow> rotation_event list \<times> rotation_manager \<times> 'w"
where
  "check_policies sp clock callbacks t [] s = ([], s)"
| "check_policies sp clock callbacks t ((key, pol) # ps) s =
     (if rotation_due t pol (map_of (rm_last_rotation (fst s)) key)
      then (case rotate_key sp clock callbacks key s of (ev, s') \<Rightarrow>
              (case check_policies sp clock callbacks t ps s' of (evs, s'') \<Rightarrow> (ev # evs, s'')))
      else check_policies sp clock callbacks t ps s)"

definition check_and_rotate ::
  "'w secret_provider \<Rightarrow> ('w \<Rightarrow> int \<times> 'w) \<Rightarrow> (rotation_event \<Rightarrow> 'w \<Rightarrow> 'w) list \<Rightarrow>
    rotation_manager \<times> 'w \<Rightarrow> rotation_event list \<times> rotation_manager \<times> 'w" where
  "check_and_rotate sp clock callbacks s =
     (case s of (m, w) \<Rightarrow>
        (case clock w of (t, w1) \<Rightarrow> check_policies sp clock callbacks t (rm_policies m) (m, w1)))"

definition history_for :: "string \<Rightarrow> rotation_manager \<Rightarrow> rotation_event list" where
  "history_for key m = filter (\<lambda>ev. re_key ev = key) (rm_history m)"

lemma rotate_attempts_bound:
  assumes "rotate_attempts sp key a n w = ((v, a'), w')"
  shows "a \<le> a' \<and> a' \<le> a + n \<and> (v = None \<longrightarrow> a' = a + n) \<and> (v \<noteq> None \<longrightarrow> a < a')"
  using assms
proof (induction n arbitrary: a w)
  case (Suc n)
  then show ?case by (fastforce split: prod.splits option.splits)
qed auto

text \<open>
  A rotation is recorded once, completed exactly when a value was obtained, within the
  configured number of attempts, and only a completed one moves the time of the last rotation.
\<close>

lemma rotate_key_spec:
  assumes "rotate_key sp clock cbs key (m, w) = (ev, m', w')"
  shows "rm_history m' = rm_history m @ [ev] \<and> rm_policies m' = rm_policies m \<and> re_key ev = key \<and>
    1 \<le> re_attempts ev \<and> re_attempts ev \<le> rotation_attempts (get_policy key m) \<and>
    (re_status ev = RotCompleted \<longleftrightarrow> re_rotated_present ev) \<and>
    map_of (rm_last_rotation m') =
      (if re_status ev = RotCompleted then (map_of (rm_last_rotation m))(key \<mapsto> re_timestamp ev)
       else map_of (rm_last_rotation m))"
proof -
  obtain t w1 where c: "clock w = (t, w1)" by fastforce
  obtain old w2 where o: "sp_resolve sp key w1 = (old, w2)" by fastforce
  obtain v n w3 where r: "rotate_attempts sp key 0 (rotation_attempts (get_policy key m)) w2 = ((v, n), w3)"
    by (metis prod.collapse)
  have "1 \<le> rotation_attempts (get_policy key m)" by (simp add: rotation_attempts_def)
  with rotate_attempts_bound [OF r] have "1 \<le> n" "n \<le> rotation_attempts (get_policy key m)"
    by (auto simp: Suc_le_eq)
  with assms c o r show ?thesis by (auto simp: rotate_key_def Let_def split: if_splits)
qed

end
