(* ===== verification/Curl.thy ===== *)
theory Curl
  imports Prelude
begin

section \<open>HTTP through the curl program\<close>

text \<open>
  \<open>src/base/support/curl.{hpp,cpp}\<close> and \<open>http.{hpp,cpp}\<close>: a request becomes a configuration
  text that the \<open>curl\<close> program reads from its standard input, and the output of the program and
  the header file it wrote become a response. The operating system is a parameter: \<open>curl_os\<close> has
  the temporary files (\<open>TempFile\<close>, which gives the path it chose and the error, if any), the
  launch of a process and the reading of a file. Its field \<open>after_overflow\<close> is what a request
  comes to whose timeout plus 5 is not an \<open>int\<close> (undefined behaviour); nothing is assumed of it.
\<close>

subsection \<open>Text\<close>

definition newline :: char where
  "newline = CHR 0x0A"

text \<open>\<open>std::stoi\<close>: \<open>stoll\<close> at the width of \<open>int\<close>.\<close>

definition stoi :: "string \<Rightarrow> int scan_result" where
  "stoi s =
     (case stoll s of
        ScanValue v \<Rightarrow> if - (2 ^ 31) \<le> v \<and> v < 2 ^ 31 then ScanValue v else ScanOutOfRange
      | r \<Rightarrow> r)"

text \<open>The lines that \<open>std::getline\<close> gives: a last line needs no line end and may not be empty.\<close>

function lines_of :: "string \<Rightarrow> string list" where
  "lines_of [] = []"
| "lines_of (c # s) =
     takeWhile (\<lambda>d. d \<noteq> newline) (c # s) #
     lines_of (drop 1 (dropWhile (\<lambda>d. d \<noteq> newline) (c # s)))"
  by pat_completeness auto

termination lines_of
proof (relation "measure length")
  fix c :: char and s :: string
  have "length (dropWhile (\<lambda>d. d \<noteq> newline) (c # s)) \<le> length (c # s)"
    by (rule length_dropWhile_le)
  then show "(drop 1 (dropWhile (\<lambda>d. d \<noteq> newline) (c # s)), c # s) \<in> measure length"
    by simp
qed simp

text \<open>\<open>std::string::find\<close> of one character, \<open>find_first_not_of(" \t")\<close> and \<open>substr\<close> as a split.\<close>

definition split_at_char :: "char \<Rightarrow> string \<Rightarrow> (string \<times> string) option" where
  "split_at_char c s =
     (if c \<in> set s
      then Some (takeWhile (\<lambda>d. d \<noteq> c) s, drop 1 (dropWhile (\<lambda>d. d \<noteq> c) s))
      else None)"

definition drop_blanks :: "string \<Rightarrow> string" where
  "drop_blanks s = dropWhile (\<lambda>c. c = CHR '' '' \<or> c = CHR 0x09) s"

subsection \<open>Requests and responses\<close>

datatype http_version = HttpDefault | Http2 | Http2PriorKnowledge

record http_request =
  hq_method :: string
  hq_url :: string
  hq_headers :: "(string \<times> string) list"
  hq_body :: "string option"
  hq_timeout_seconds :: int
  hq_version :: http_version
  hq_capture_headers :: bool
  hq_cert_path :: string
  hq_key_path :: string
  hq_ca_path :: string
  hq_verify_tls :: bool

definition default_http_request :: http_request where
  "default_http_request =
     \<lparr>hq_method = ''GET'', hq_url = [], hq_headers = [], hq_body = None, hq_timeout_seconds = 30,
      hq_version = HttpDefault, hq_capture_headers = False, hq_cert_path = [], hq_key_path = [],
      hq_ca_path = [], hq_verify_tls = True\<rparr>"

record header_block =
  has_status_line :: bool
  block_headers :: "(string \<times> string) list"

definition empty_block :: header_block where
  "empty_block = \<lparr>has_status_line = False, block_headers = []\<rparr>"

record http_response =
  hr_status_code :: int
  hr_exit_code :: int
  hr_body :: string
  hr_error :: string
  hr_timed_out :: bool
  hr_response_headers :: "(string \<times> string) list"
  hr_header_blocks :: "header_block list"

definition default_http_response :: http_response where
  "default_http_response =
     \<lparr>hr_status_code = 0, hr_exit_code = -1, hr_body = [], hr_error = [], hr_timed_out = False,
      hr_response_headers = [], hr_header_blocks = []\<rparr>"

record process_config =
  pc_executable :: string
  pc_arguments :: "string list"
  pc_stdin_input :: "string option"
  pc_timeout :: int

record process_result =
  pr_exit_code :: int
  pr_stdout :: string
  pr_stderr :: string
  pr_timed_out :: bool

record 'w curl_os =
  temp_write :: "string \<Rightarrow> string \<Rightarrow> 'w \<Rightarrow> (string \<times> string option) \<times> 'w"
  temp_create :: "string \<Rightarrow> 'w \<Rightarrow> (string \<times> string option) \<times> 'w"
  temp_remove :: "string \<Rightarrow> 'w \<Rightarrow> 'w"
  launch_process :: "process_config \<Rightarrow> 'w \<Rightarrow> process_result \<times> 'w"
  read_file :: "string \<Rightarrow> 'w \<Rightarrow> string option \<times> 'w"
  after_overflow :: "http_request \<Rightarrow> 'w \<Rightarrow> http_response \<times> 'w"

subsection \<open>The configuration of curl\<close>

definition quote_config_char :: "char \<Rightarrow> string" where
  "quote_config_char c =
     (if c = CHR 0x5C then [CHR 0x5C, CHR 0x5C]
      else if c = CHR 0x22 then [CHR 0x5C, CHR 0x22]
      else if c = CHR 0x0A then [CHR 0x5C, CHR ''n'']
      else if c = CHR 0x0D then [CHR 0x5C, CHR ''r'']
      else if c = CHR 0x09 then [CHR 0x5C, CHR ''t'']
      else [c])"

definition quote_config_value :: "string \<Rightarrow> string" where
  "quote_config_value s = [CHR 0x22] @ concat (map quote_config_char s) @ [CHR 0x22]"

text \<open>The two forms of the lines that are written: a flag, and \<open>name = "value"\<close>.\<close>

definition config_flag :: "string \<Rightarrow> string" where
  "config_flag name = name @ [newline]"

definition config_setting :: "string \<Rightarrow> string \<Rightarrow> string" where
  "config_setting name v = name @ '' = '' @ quote_config_value v @ [newline]"

definition build_curl_config :: "http_request \<Rightarrow> string option \<Rightarrow> string option \<Rightarrow> string" where
  "build_curl_config request body_path header_path =
     config_flag ''silent''
     @ config_flag ''show-error''
     @ config_setting ''write-out'' (newline # ''%{http_code}'')
     @ config_setting ''request'' (hq_method request)
     @ config_setting ''url'' (hq_url request)
     @ config_setting ''max-time'' (int_to_string (hq_timeout_seconds request))
     @ (case hq_version request of
          HttpDefault \<Rightarrow> []
        | Http2 \<Rightarrow> config_flag ''http2''
        | Http2PriorKnowledge \<Rightarrow> config_flag ''http2-prior-knowledge'')
     @ concat (map (\<lambda>(key, v). config_setting ''header'' (key @ '': '' @ v)) (hq_headers request))
     @ (case body_path of Some p \<Rightarrow> config_setting ''data-binary'' (''@'' @ p) | None \<Rightarrow> [])
     @ (case header_path of Some p \<Rightarrow> config_setting ''dump-header'' p | None \<Rightarrow> [])
     @ (if hq_cert_path request \<noteq> [] then config_setting ''cert'' (hq_cert_path request) else [])
     @ (if hq_key_path request \<noteq> [] then config_setting ''key'' (hq_key_path request) else [])
     @ (if hq_ca_path request \<noteq> [] then config_setting ''cacert'' (hq_ca_path request) else [])
     @ (if \<not> hq_verify_tls request then config_flag ''insecure'' else [])"

subsection \<open>The output of curl\<close>

text \<open>The loop of \<open>parse_header_blocks\<close>: the blocks read, the current one and whether it counts.\<close>

type_synonym block_state = "header_block list \<times> header_block \<times> bool"

definition flush_current_block :: "block_state \<Rightarrow> block_state" where
  "flush_current_block s =
     (case s of (blocks, current, started) \<Rightarrow>
        if started then (blocks @ [current], empty_block, False) else s)"

definition drop_cr :: "string \<Rightarrow> string" where
  "drop_cr line = (if line \<noteq> [] \<and> last line = CHR 0x0D then butlast line else line)"

definition header_line :: "string \<Rightarrow> block_state \<Rightarrow> block_state" where
  "header_line raw s =
     (let line = drop_cr raw
      in if line = [] then flush_current_block s
         else if take 5 line = ''HTTP/'' then
           (case flush_current_block s of (blocks, current, started) \<Rightarrow>
              (blocks, current\<lparr>has_status_line := True\<rparr>, True))
         else
           (case split_at_char (CHR '':'') line of
              None \<Rightarrow> s
            | Some (key, v) \<Rightarrow>
                (case s of (blocks, current, started) \<Rightarrow>
                   (blocks, current\<lparr>block_headers := block_headers current @ [(key, drop_blanks v)]\<rparr>, True))))"

definition parse_header_blocks :: "string option \<Rightarrow> header_block list" where
  "parse_header_blocks file =
     (case file of
        None \<Rightarrow> []
      | Some text \<Rightarrow> fst (flush_current_block (fold header_line (lines_of text) ([], empty_block, False))))"

definition flatten_header_blocks :: "header_block list \<Rightarrow> (string \<times> string) list" where
  "flatten_header_blocks blocks = concat (map block_headers blocks)"

definition drop_line_ends :: "string \<Rightarrow> string" where
  "drop_line_ends s = rev (dropWhile (\<lambda>c. c = newline \<or> c = CHR 0x0D) (rev s))"

definition parse_curl_output :: "process_result \<Rightarrow> http_response" where
  "parse_curl_output process =
     (let response = default_http_response\<lparr>hr_exit_code := pr_exit_code process,
                       hr_timed_out := pr_timed_out process\<rparr>
      in if pr_timed_out process then response\<lparr>hr_error := ''timeout''\<rparr>
         else
           (let out = drop_line_ends (pr_stdout process);
                parts = (case rfind [newline] out of
                           None \<Rightarrow> ([], out)
                         | Some i \<Rightarrow> (take i out, drop (i + 1) out));
                r1 = (case stoi (snd parts) of
                        ScanValue code \<Rightarrow> response\<lparr>hr_body := fst parts, hr_status_code := code\<rparr>
                      | _ \<Rightarrow> response\<lparr>hr_body := pr_stdout process, hr_status_code := 0\<rparr>)
            in if pr_exit_code process \<noteq> 0
               then r1\<lparr>hr_error :=
                      (if pr_stderr process = []
                       then ''curl failed with exit code '' @ int_to_string (pr_exit_code process)
                       else pr_stderr process)\<rparr>
               else r1))"

subsection \<open>Running it\<close>

text \<open>
  \<open>run_curl\<close> is the body of \<open>execute_curl\<close> once the files are there. The timeout of the process is
  \<open>timeout_seconds + 5\<close>, a sum of type \<open>int\<close>.
\<close>

definition run_curl ::
  "'w curl_os \<Rightarrow> http_request \<Rightarrow> string option \<Rightarrow> string option \<Rightarrow> 'w \<Rightarrow> http_response \<times> 'w" where
  "run_curl os request body_path header_path w =
     (if hq_timeout_seconds request + 5 \<ge> 2 ^ 31 then after_overflow os request w
      else case launch_process os
             \<lparr>pc_executable = ''curl'', pc_arguments = [''--config'', ''-''],
              pc_stdin_input = Some (build_curl_config request body_path header_path),
              pc_timeout = hq_timeout_seconds request + 5\<rparr> w of
        (process, w1) \<Rightarrow>
          (let response = parse_curl_output process
           in case header_path of
                None \<Rightarrow> (response, w1)
              | Some p \<Rightarrow>
                  (case read_file os p w1 of
                     (file, w2) \<Rightarrow>
                       (let blocks = parse_header_blocks file
                        in (response\<lparr>hr_header_blocks := blocks,
                              hr_response_headers := flatten_header_blocks blocks\<rparr>, w2)))))"

definition curl_with_header_file ::
  "'w curl_os \<Rightarrow> http_request \<Rightarrow> string option \<Rightarrow> 'w \<Rightarrow> http_response \<times> 'w" where
  "curl_with_header_file os request body_path w =
     (if hq_capture_headers request
      then (case temp_create os ''ahfl-curl-headers-'' w of
              ((p, Some err), w1) \<Rightarrow>
                (default_http_response\<lparr>hr_error := ''failed to create curl header file: '' @ err\<rparr>,
                 temp_remove os p w1)
            | ((p, None), w1) \<Rightarrow>
                (case run_curl os request body_path (Some p) w1 of
                   (response, w2) \<Rightarrow> (response, temp_remove os p w2)))
      else run_curl os request body_path None w)"

definition execute_curl :: "'w curl_os \<Rightarrow> http_request \<Rightarrow> 'w \<Rightarrow> http_response \<times> 'w" where
  "execute_curl os request w =
     (case hq_body request of
        None \<Rightarrow> curl_with_header_file os request None w
      | Some content \<Rightarrow>
          (case temp_write os ''ahfl-curl-body-'' content w of
             ((p, Some err), w1) \<Rightarrow>
               (default_http_response\<lparr>hr_error := ''failed to write curl body file: '' @ err\<rparr>,
                temp_remove os p w1)
           | ((p, None), w1) \<Rightarrow>
               (case curl_with_header_file os request (Some p) w1 of
                  (response, w2) \<Rightarrow> (response, temp_remove os p w2))))"

definition describe_curl_command :: "http_request \<Rightarrow> string" where
  "describe_curl_command request =
     ''curl --config -'' @ '' # '' @ hq_method request @ '' '' @ hq_url request
     @ '' headers='' @ nat_to_string (length (hq_headers request))
     @ (case hq_body request of Some b \<Rightarrow> '' body_bytes='' @ nat_to_string (length b) | None \<Rightarrow> [])
     @ '' --max-time '' @ int_to_string (hq_timeout_seconds request)"

text \<open>
  \<open>http.cpp\<close> copies its request and its response field by field from and to the records of
  \<open>curl.hpp\<close>, which have the same fields; one record stands for both.
\<close>

definition execute_http :: "'w curl_os \<Rightarrow> http_request \<Rightarrow> 'w \<Rightarrow> http_response \<times> 'w" where
  "execute_http os request w = execute_curl os request w"

definition describe_http_command :: "http_request \<Rightarrow> string" where
  "describe_http_command request = describe_curl_command request"

subsection \<open>The configuration text is unambiguous\<close>

text \<open>
  No quoted value has a line end, and quoting is injective, so the lines of the text, taken by
  the word they begin with, give back every part of the request. \<open>config_lines\<close> are these lines;
  a proof device, which says nothing of what curl makes of them.
\<close>

definition setting_lines :: "string \<Rightarrow> string list \<Rightarrow> string list" where
  "setting_lines name vs = map (\<lambda>v. name @ '' = '' @ quote_config_value v) vs"

definition header_texts :: "http_request \<Rightarrow> string list" where
  "header_texts request = map (\<lambda>(key, v). key @ '': '' @ v) (hq_headers request)"

definition config_lines :: "http_request \<Rightarrow> string option \<Rightarrow> string option \<Rightarrow> string list" where
  "config_lines request body_path header_path =
     [''silent'', ''show-error'']
     @ setting_lines ''write-out'' [newline # ''%{http_code}'']
     @ setting_lines ''request'' [hq_method request]
     @ setting_lines ''url'' [hq_url request]
     @ setting_lines ''max-time'' [int_to_string (hq_timeout_seconds request)]
     @ (case hq_version request of
          HttpDefault \<Rightarrow> [] | Http2 \<Rightarrow> [''http2''] | Http2PriorKnowledge \<Rightarrow> [''http2-prior-knowledge''])
     @ setting_lines ''header'' (header_texts request)
     @ setting_lines ''data-binary'' (case body_path of Some p \<Rightarrow> [''@'' @ p] | None \<Rightarrow> [])
     @ setting_lines ''dump-header'' (case header_path of Some p \<Rightarrow> [p] | None \<Rightarrow> [])
     @ setting_lines ''cert'' (if hq_cert_path request = [] then [] else [hq_cert_path request])
     @ setting_lines ''key'' (if hq_key_path request = [] then [] else [hq_key_path request])
     @ setting_lines ''cacert'' (if hq_ca_path request = [] then [] else [hq_ca_path request])
     @ (if hq_verify_tls request then [] else [''insecure''])"

lemma takeWhile_append_stop: "c \<notin> set p \<Longrightarrow> takeWhile (\<lambda>d. d \<noteq> c) (p @ c # k) = p"
  by (induction p) auto

lemma dropWhile_append_stop: "c \<notin> set p \<Longrightarrow> dropWhile (\<lambda>d. d \<noteq> c) (p @ c # k) = c # k"
  by (induction p) auto

lemma lines_of_line: "newline \<notin> set l \<Longrightarrow> lines_of (l @ newline # t) = l # lines_of t"
proof -
  assume l: "newline \<notin> set l"
  obtain c s where "l @ newline # t = c # s" by (cases l) auto
  then show ?thesis
    using takeWhile_append_stop [OF l, of t] dropWhile_append_stop [OF l, of t] by simp
qed

lemma lines_of_concat:
  "\<forall>l \<in> set ls. newline \<notin> set l \<Longrightarrow> lines_of (concat (map (\<lambda>l. l @ [newline]) ls)) = ls"
  by (induction ls) (auto simp: lines_of_line)

lemma quote_no_newline: "newline \<notin> set (quote_config_value s)"
  by (auto simp: quote_config_value_def quote_config_char_def newline_def split: if_splits)

lemma quote_char_inj: "quote_config_char c @ x = quote_config_char d @ y \<Longrightarrow> c = d \<and> x = y"
  by (auto simp: quote_config_char_def split: if_splits)

lemma quote_chars_inj:
  "concat (map quote_config_char s) @ [CHR 0x22] = concat (map quote_config_char t) @ [CHR 0x22] \<Longrightarrow> s = t"
proof (induction s arbitrary: t)
  case Nil
  then show ?case by (cases t) (auto simp: quote_config_char_def split: if_splits)
next
  case (Cons c s)
  then obtain d u where t: "t = d # u" by (cases t) (auto simp: quote_config_char_def split: if_splits)
  have "c = d \<and> concat (map quote_config_char s) @ [CHR 0x22] = concat (map quote_config_char u) @ [CHR 0x22]"
    using Cons.prems unfolding t by (intro quote_char_inj) simp
  with Cons.IH t show ?case by blast
qed

lemma quote_config_value_eq [simp]: "quote_config_value s = quote_config_value t \<longleftrightarrow> s = t"
  using quote_chars_inj by (auto simp: quote_config_value_def)

lemma setting_lines_no_newline:
  "l \<in> set (setting_lines name vs) \<Longrightarrow> newline \<notin> set name \<Longrightarrow> newline \<notin> set l"
  using quote_no_newline by (auto simp: setting_lines_def newline_def)

lemma config_lines_no_newline: "l \<in> set (config_lines request body header) \<Longrightarrow> newline \<notin> set l"
  unfolding config_lines_def set_append Un_iff
  by (elim disjE; (drule setting_lines_no_newline)?)
    (auto simp: newline_def split: http_version.splits if_splits)

lemma concat_setting_lines:
  "concat (map (\<lambda>l. l @ [newline]) (setting_lines name vs)) = concat (map (config_setting name) vs)"
  by (simp add: setting_lines_def config_setting_def [abs_def] comp_def)

lemma build_config_lines:
  "build_curl_config request body header = concat (map (\<lambda>l. l @ [newline]) (config_lines request body header))"
  unfolding build_curl_config_def config_lines_def map_append concat_append concat_setting_lines
  by (simp add: config_flag_def header_texts_def comp_def case_prod_unfold split: http_version.split option.split)

lemma lines_of_config: "lines_of (build_curl_config request body header) = config_lines request body header"
  using config_lines_no_newline unfolding build_config_lines by (intro lines_of_concat) blast

definition option_lines :: "string \<Rightarrow> string list \<Rightarrow> string list" where
  "option_lines name ls = filter (\<lambda>l. takeWhile (\<lambda>c. c \<noteq> CHR '' '') l = name) ls"

lemma option_lines_simps:
  "option_lines name [] = []"
  "option_lines name (l # ls) =
    (if takeWhile (\<lambda>c. c \<noteq> CHR '' '') l = name then l # option_lines name ls else option_lines name ls)"
  "option_lines name (xs @ ys) = option_lines name xs @ option_lines name ys"
  by (simp_all add: option_lines_def)

lemma option_lines_settings:
  assumes "CHR '' '' \<notin> set name'"
  shows "option_lines name (setting_lines name' vs) = (if name' = name then setting_lines name' vs else [])"
proof -
  have "takeWhile (\<lambda>c. c \<noteq> CHR '' '') (name' @ '' = '' @ quote_config_value v) = name'" for v
    using takeWhile_append_stop [OF assms] by simp
  then show ?thesis by (auto simp: option_lines_def setting_lines_def filter_empty_conv filter_id_conv)
qed

lemma setting_lines_eq [simp]: "setting_lines name vs = setting_lines name ws \<longleftrightarrow> vs = ws"
proof -
  have "inj (\<lambda>v. name @ '' = '' @ quote_config_value v)" by (rule injI) simp
  then show ?thesis unfolding setting_lines_def by (rule inj_map_eq_map)
qed

lemma config_line_parts:
  "option_lines ''request'' (config_lines q b h) = setting_lines ''request'' [hq_method q]"
  "option_lines ''url'' (config_lines q b h) = setting_lines ''url'' [hq_url q]"
  "option_lines ''max-time'' (config_lines q b h) = setting_lines ''max-time'' [int_to_string (hq_timeout_seconds q)]"
  "option_lines ''http2'' (config_lines q b h) = (if hq_version q = Http2 then [''http2''] else [])"
  "option_lines ''http2-prior-knowledge'' (config_lines q b h) =
    (if hq_version q = Http2PriorKnowledge then [''http2-prior-knowledge''] else [])"
  "option_lines ''header'' (config_lines q b h) =
    setting_lines ''header'' (header_texts q)"
  "option_lines ''data-binary'' (config_lines q b h) =
    setting_lines ''data-binary'' (case b of Some p \<Rightarrow> [''@'' @ p] | None \<Rightarrow> [])"
  "option_lines ''dump-header'' (config_lines q b h) =
    setting_lines ''dump-header'' (case h of Some p \<Rightarrow> [p] | None \<Rightarrow> [])"
  "option_lines ''cert'' (config_lines q b h) =
    setting_lines ''cert'' (if hq_cert_path q = [] then [] else [hq_cert_path q])"
  "option_lines ''key'' (config_lines q b h) =
    setting_lines ''key'' (if hq_key_path q = [] then [] else [hq_key_path q])"
  "option_lines ''cacert'' (config_lines q b h) =
    setting_lines ''cacert'' (if hq_ca_path q = [] then [] else [hq_ca_path q])"
  "option_lines ''insecure'' (config_lines q b h) = (if hq_verify_tls q then [] else [''insecure''])"
  unfolding config_lines_def option_lines_simps
  by (simp_all add: option_lines_settings option_lines_simps split: http_version.split)

lemma nat_to_string_no_sign: "nat_to_string n \<noteq> CHR ''-'' # s"
  using nat_to_string_digits [of n] by (auto simp: is_digit_char_def)

lemma int_to_string_inj:
  assumes "int_to_string i = int_to_string j"
  shows "i = j"
proof -
  have inj: "n = m" if "nat_to_string n = nat_to_string m" for n m
    using that digits_val_nat_to_string by (metis of_nat_eq_iff)
  consider "i < 0" "j < 0" | "i < 0" "\<not> j < 0" | "\<not> i < 0" "j < 0" | "\<not> i < 0" "\<not> j < 0" by blast
  then show ?thesis
  proof cases
    case 1
    then have "nat_to_string (nat (- i)) = nat_to_string (nat (- j))"
      using assms unfolding int_to_string_def by (simp only: if_True list.inject)
    from inj [OF this] 1 show ?thesis by simp
  next
    case 2
    then have "nat_to_string (nat j) = CHR ''-'' # nat_to_string (nat (- i))"
      using assms unfolding int_to_string_def by (simp only: if_True if_False)
    with nat_to_string_no_sign show ?thesis by blast
  next
    case 3
    then have "nat_to_string (nat i) = CHR ''-'' # nat_to_string (nat (- j))"
      using assms unfolding int_to_string_def by (simp only: if_True if_False)
    with nat_to_string_no_sign show ?thesis by blast
  next
    case 4
    then have "nat_to_string (nat i) = nat_to_string (nat j)"
      using assms unfolding int_to_string_def by (simp only: if_False)
    from inj [OF this] 4 show ?thesis by simp
  qed
qed

lemma config_text_determines:
  assumes "build_curl_config q b h = build_curl_config q' b' h'"
  shows "hq_method q = hq_method q'" "hq_url q = hq_url q'" "hq_timeout_seconds q = hq_timeout_seconds q'"
    "hq_version q = hq_version q'"
    "map (\<lambda>(key, v). key @ '': '' @ v) (hq_headers q) = map (\<lambda>(key, v). key @ '': '' @ v) (hq_headers q')"
    "b = b'" "h = h'" "hq_cert_path q = hq_cert_path q'" "hq_key_path q = hq_key_path q'"
    "hq_ca_path q = hq_ca_path q'" "hq_verify_tls q = hq_verify_tls q'"
proof -
  have "config_lines q b h = config_lines q' b' h'"
    using lines_of_config [of q b h] lines_of_config [of q' b' h'] assms by simp
  then have part: "option_lines name (config_lines q b h) = option_lines name (config_lines q' b' h')" for name
    by simp
  show "hq_method q = hq_method q'" using part [of "''request''"] by (simp only: config_line_parts setting_lines_eq) simp
  show "hq_url q = hq_url q'" using part [of "''url''"] by (simp only: config_line_parts setting_lines_eq) simp
  show "hq_timeout_seconds q = hq_timeout_seconds q'"
    using part [of "''max-time''"] by (simp only: config_line_parts setting_lines_eq) (simp add: int_to_string_inj)
  show "hq_version q = hq_version q'"
    using part [of "''http2''"] part [of "''http2-prior-knowledge''"]
    by (cases "hq_version q"; cases "hq_version q'") (simp_all add: config_line_parts)
  show "map (\<lambda>(key, v). key @ '': '' @ v) (hq_headers q) = map (\<lambda>(key, v). key @ '': '' @ v) (hq_headers q')"
    using part [of "''header''"] by (simp only: config_line_parts setting_lines_eq header_texts_def)
  show "b = b'" using part [of "''data-binary''"]
    by (simp only: config_line_parts setting_lines_eq) (simp split: option.splits)
  show "h = h'" using part [of "''dump-header''"]
    by (simp only: config_line_parts setting_lines_eq) (simp split: option.splits)
  show "hq_cert_path q = hq_cert_path q'" using part [of "''cert''"]
    by (simp only: config_line_parts setting_lines_eq) (simp split: if_splits)
  show "hq_key_path q = hq_key_path q'" using part [of "''key''"]
    by (simp only: config_line_parts setting_lines_eq) (simp split: if_splits)
  show "hq_ca_path q = hq_ca_path q'" using part [of "''cacert''"]
    by (simp only: config_line_parts setting_lines_eq) (simp split: if_splits)
  show "hq_verify_tls q = hq_verify_tls q'" using part [of "''insecure''"]
    by (simp add: config_line_parts split: if_splits)
qed

text \<open>Conversely the text depends on these parts only.\<close>

lemma config_text_cong:
  assumes "hq_method q = hq_method q'" "hq_url q = hq_url q'" "hq_timeout_seconds q = hq_timeout_seconds q'"
    "hq_version q = hq_version q'"
    "map (\<lambda>(key, v). key @ '': '' @ v) (hq_headers q) = map (\<lambda>(key, v). key @ '': '' @ v) (hq_headers q')"
    "hq_cert_path q = hq_cert_path q'" "hq_key_path q = hq_key_path q'"
    "hq_ca_path q = hq_ca_path q'" "hq_verify_tls q = hq_verify_tls q'"
  shows "build_curl_config q b h = build_curl_config q' b h"
  unfolding build_config_lines config_lines_def header_texts_def assms ..

lemma insecure_line: "''insecure'' \<in> set (lines_of (build_curl_config q b h)) \<longleftrightarrow> \<not> hq_verify_tls q"
proof -
  have "''insecure'' \<in> set ls \<longleftrightarrow> ''insecure'' \<in> set (option_lines ''insecure'' ls)" for ls
    by (simp add: option_lines_def)
  from this [of "config_lines q b h"] show ?thesis by (simp add: lines_of_config config_line_parts)
qed

lemma count_lines: "newline \<notin> set l \<Longrightarrow> count_list (l @ [newline]) newline = 1"
  by (induction l) auto

lemma count_config_lines:
  "count_list (build_curl_config q b h) newline = length (config_lines q b h)"
proof -
  have "\<forall>l \<in> set ls. newline \<notin> set l \<Longrightarrow> count_list (concat (map (\<lambda>l. l @ [newline]) ls)) newline = length ls" for ls
    by (induction ls) (use count_lines in \<open>auto simp: count_list_append\<close>)
  with config_lines_no_newline show ?thesis by (simp add: build_config_lines)
qed

subsection \<open>What curl wrote is what is read\<close>

lemma rfind_newline:
  "newline \<notin> set t \<Longrightarrow> rfind [newline] (b @ newline # t) = Some (length b)"
proof -
  assume t: "newline \<notin> set t"
  then have "rfind [newline] t = None" by (induction t) auto
  then show ?thesis by (induction b) auto
qed

lemma digits_no_line_end: "is_digit_char c \<Longrightarrow> c \<noteq> newline \<and> c \<noteq> CHR 0x0D"
  by (auto simp: is_digit_char_def newline_def)

lemma stoi_nat: "int n < 2 ^ 31 \<Longrightarrow> stoi (nat_to_string n) = ScanValue (int n)"
  using stoll_int_to_string [of "int n"]
  by (simp add: stoi_def int_to_string_def in_int64_def int64_min_def int64_max_def)

lemma nat_to_string_no_line_end: "c \<in> set (nat_to_string n) \<Longrightarrow> c \<noteq> newline \<and> c \<noteq> CHR 0x0D"
  using nat_to_string_digits [of n] digits_no_line_end by (auto simp: list_all_iff)

lemma drop_line_ends_digits: "drop_line_ends (s @ nat_to_string n) = s @ nat_to_string n"
proof -
  obtain c t where ct: "rev (nat_to_string n) = c # t"
    using nat_to_string_digits [of n] by (cases "rev (nat_to_string n)") auto
  then have "c \<in> set (nat_to_string n)" by (metis list.set_intros(1) set_rev)
  from nat_to_string_no_line_end [OF this] ct show ?thesis
    by (simp add: drop_line_ends_def)
qed

text \<open>
  curl writes the body and then, as \<open>write-out\<close> asks, a line end and the status code. Whatever
  the body holds, line ends at its end included, both are recovered.
\<close>

lemma parse_curl_output_ok:
  assumes "\<not> pr_timed_out pr" "pr_stdout pr = content @ newline # nat_to_string code" "code < 2 ^ 31"
  shows "hr_body (parse_curl_output pr) = content \<and> hr_status_code (parse_curl_output pr) = int code \<and>
    (pr_exit_code pr = 0 \<longrightarrow> hr_error (parse_curl_output pr) = [])"
proof -
  have "newline \<notin> set (nat_to_string code)" using nat_to_string_no_line_end by blast
  note r = rfind_newline [OF this, of content]
  have d: "drop_line_ends (pr_stdout pr) = content @ newline # nat_to_string code"
    using drop_line_ends_digits [of "content @ [newline]" code] assms(2) by simp
  show ?thesis
    using assms(1,3) stoi_nat [of code]
    by (simp add: parse_curl_output_def Let_def d r default_http_response_def)
qed

lemma parse_curl_output_timeout:
  "pr_timed_out pr \<Longrightarrow> hr_status_code (parse_curl_output pr) = 0 \<and> hr_error (parse_curl_output pr) = ''timeout''"
  by (simp add: parse_curl_output_def default_http_response_def)

end
