(* ===== verification/Wire.thy ===== *)
theory Wire
  imports Capability Value_Json Schema Connection_Pool Secrets Curl
begin

section \<open>Capabilities over HTTP\<close>

text \<open>
  \<open>src/runtime/engine/wire_capability.cpp\<close>, \<open>wire_value.cpp\<close>, \<open>wire_transport_adapter.cpp\<close>,
  \<open>http_transport.{hpp,cpp}\<close>, \<open>grpc_transport.{hpp,cpp}\<close> and \<open>capability_transport_adapter.cpp\<close>:
  the handlers of the capabilities that call a remote service, over HTTP or over the JSON
  transcoding of gRPC. A handler takes a lease of the connection pool, resolves the
  authentication, sends the arguments as JSON through a transport and reads the response back as
  a value of the expected type. The program's part of its world is the pool and the secret
  managers, which configurations share by pointer: a pointer is a number here. Header maps are
  association lists; the order of \<open>std::unordered_map\<close> is the order of insertion.
\<close>

subsection \<open>Requests, responses and status codes\<close>

record wire_request =
  wq_url :: string
  wq_method :: string
  wq_headers :: "(string \<times> string) list"
  wq_body :: string
  wq_timeout_seconds :: int
  wq_cert_path :: string
  wq_key_path :: string

record wire_response =
  wr_status_code :: int
  wr_body :: string
  wr_error :: string

definition is_success :: "wire_response \<Rightarrow> bool" where
  "is_success r \<longleftrightarrow> 200 \<le> wr_status_code r \<and> wr_status_code r < 300"

definition is_timeout :: "wire_response \<Rightarrow> bool" where
  "is_timeout r \<longleftrightarrow> wr_status_code r = 0 \<and> rfind ''timeout'' (wr_error r) \<noteq> None"

text \<open>
  The enumeration has a fixed underlying type, so \<open>static_cast\<close> keeps every \<open>int\<close>: a code
  without a name is \<open>GrpcOther\<close>.
\<close>

datatype grpc_status_code =
  GrpcOk | GrpcCancelled | GrpcUnknown | GrpcInvalidArgument | GrpcDeadlineExceeded | GrpcNotFound
| GrpcAlreadyExists | GrpcPermissionDenied | GrpcResourceExhausted | GrpcFailedPrecondition
| GrpcAborted | GrpcOutOfRange | GrpcUnimplemented | GrpcInternal | GrpcUnavailable | GrpcDataLoss
| GrpcUnauthenticated | GrpcOther int

definition grpc_named_codes :: "grpc_status_code list" where
  "grpc_named_codes =
     [GrpcOk, GrpcCancelled, GrpcUnknown, GrpcInvalidArgument, GrpcDeadlineExceeded, GrpcNotFound,
      GrpcAlreadyExists, GrpcPermissionDenied, GrpcResourceExhausted, GrpcFailedPrecondition,
      GrpcAborted, GrpcOutOfRange, GrpcUnimplemented, GrpcInternal, GrpcUnavailable, GrpcDataLoss,
      GrpcUnauthenticated]"

definition grpc_status_of_int :: "int \<Rightarrow> grpc_status_code" where
  "grpc_status_of_int i =
     (if 0 \<le> i \<and> i < 17 then grpc_named_codes ! nat i else GrpcOther i)"

definition grpc_status_name :: "grpc_status_code \<Rightarrow> string" where
  "grpc_status_name status =
     (case status of
        GrpcOk \<Rightarrow> ''OK'' | GrpcCancelled \<Rightarrow> ''CANCELLED'' | GrpcUnknown \<Rightarrow> ''UNKNOWN''
      | GrpcInvalidArgument \<Rightarrow> ''INVALID_ARGUMENT'' | GrpcDeadlineExceeded \<Rightarrow> ''DEADLINE_EXCEEDED''
      | GrpcNotFound \<Rightarrow> ''NOT_FOUND'' | GrpcAlreadyExists \<Rightarrow> ''ALREADY_EXISTS''
      | GrpcPermissionDenied \<Rightarrow> ''PERMISSION_DENIED''
      | GrpcResourceExhausted \<Rightarrow> ''RESOURCE_EXHAUSTED''
      | GrpcFailedPrecondition \<Rightarrow> ''FAILED_PRECONDITION'' | GrpcAborted \<Rightarrow> ''ABORTED''
      | GrpcOutOfRange \<Rightarrow> ''OUT_OF_RANGE'' | GrpcUnimplemented \<Rightarrow> ''UNIMPLEMENTED''
      | GrpcInternal \<Rightarrow> ''INTERNAL'' | GrpcUnavailable \<Rightarrow> ''UNAVAILABLE'' | GrpcDataLoss \<Rightarrow> ''DATA_LOSS''
      | GrpcUnauthenticated \<Rightarrow> ''UNAUTHENTICATED'' | GrpcOther _ \<Rightarrow> ''UNKNOWN'')"

definition grpc_status_from_http_status :: "int \<Rightarrow> grpc_status_code" where
  "grpc_status_from_http_status http_code =
     (if 200 \<le> http_code \<and> http_code < 300 then GrpcOk
      else if http_code = 400 then GrpcInvalidArgument
      else if http_code = 401 then GrpcUnauthenticated
      else if http_code = 403 then GrpcPermissionDenied
      else if http_code = 404 then GrpcNotFound
      else if http_code = 409 then GrpcAlreadyExists
      else if http_code = 429 then GrpcResourceExhausted
      else if http_code = 499 then GrpcCancelled
      else if http_code = 500 then GrpcInternal
      else if http_code = 501 then GrpcUnimplemented
      else if http_code = 503 then GrpcUnavailable
      else if http_code = 504 then GrpcDeadlineExceeded
      else if 400 \<le> http_code \<and> http_code < 500 then GrpcFailedPrecondition
      else GrpcInternal)"

record grpc_endpoint =
  ge_host :: string
  ge_port :: nat
  ge_service :: string
  ge_method :: string
  ge_use_tls :: bool

definition to_path :: "grpc_endpoint \<Rightarrow> string" where
  "to_path e = ''/'' @ ge_service e @ ''/'' @ ge_method e"

definition to_url :: "grpc_endpoint \<Rightarrow> string" where
  "to_url e =
     (if ge_use_tls e then ''https'' else ''http'') @ ''://'' @ ge_host e @ '':''
     @ nat_to_string (ge_port e) @ to_path e"

record grpc_request =
  gq_endpoint :: grpc_endpoint
  gq_body :: string
  gq_metadata :: "(string \<times> string) list"
  gq_timeout :: int
  gq_cert_path :: string
  gq_key_path :: string

record grpc_response =
  gr_status_code :: grpc_status_code
  gr_body :: string
  gr_error_message :: string
  gr_response_metadata :: "(string \<times> string) list"
  gr_trailers :: "(string \<times> string) list"

definition is_ok :: "grpc_response \<Rightarrow> bool" where
  "is_ok r \<longleftrightarrow> gr_status_code r = GrpcOk"

subsection \<open>gRPC headers and trailers\<close>

text \<open>\<open>std::isxdigit\<close> in the C locale, and the two digits of an escape as a character.\<close>

fun percent_decode :: "string \<Rightarrow> string" where
  "percent_decode (c # a # b # s) =
     (if c = CHR ''%'' \<and> hex_digit a \<noteq> None \<and> hex_digit b \<noteq> None
      then char_of (push_bit 4 (the (hex_digit a)) OR the (hex_digit b)) # percent_decode s
      else c # percent_decode (a # b # s))"
| "percent_decode (c # s) = c # percent_decode s"
| "percent_decode [] = []"

definition to_lower :: "char \<Rightarrow> char" where
  "to_lower c = (if 65 \<le> (of_char c :: nat) \<and> (of_char c :: nat) \<le> 90
                 then char_of ((of_char c :: nat) + 32) else c)"

definition case_insensitive_equals :: "string \<Rightarrow> string \<Rightarrow> bool" where
  "case_insensitive_equals a b \<longleftrightarrow> length a = length b \<and> list_all2 (\<lambda>x y. to_lower x = to_lower y) a b"

fun parse_grpc_status_from_headers :: "(string \<times> string) list \<Rightarrow> grpc_status_code" where
  "parse_grpc_status_from_headers [] = GrpcOk"
| "parse_grpc_status_from_headers ((name, v) # hs) =
     (if case_insensitive_equals name ''grpc-status''
      then (case stoi v of ScanValue i \<Rightarrow> grpc_status_of_int i | _ \<Rightarrow> GrpcUnknown)
      else parse_grpc_status_from_headers hs)"

fun parse_grpc_message_from_headers :: "(string \<times> string) list \<Rightarrow> string" where
  "parse_grpc_message_from_headers [] = []"
| "parse_grpc_message_from_headers ((name, v) # hs) =
     (if case_insensitive_equals name ''grpc-message'' then percent_decode v
      else parse_grpc_message_from_headers hs)"

subsection \<open>The wire transport\<close>

record wire_transport_response =
  wt_status_code :: int
  wt_body :: string
  wt_error :: string
  wt_timed_out :: bool
  wt_response_headers :: "(string \<times> string) list"
  wt_trailers :: "(string \<times> string) list"

definition make_http_request :: "wire_request \<Rightarrow> http_request" where
  "make_http_request r =
     default_http_request
       \<lparr>hq_method := wq_method r, hq_url := wq_url r, hq_timeout_seconds := wq_timeout_seconds r,
        hq_headers := wq_headers r, hq_body := (if wq_body r \<noteq> [] then Some (wq_body r) else None),
        hq_cert_path := wq_cert_path r, hq_key_path := wq_key_path r\<rparr>"

text \<open>\<open>static_cast<int>\<close> of a 64 bit count.\<close>

definition to_int32 :: "int \<Rightarrow> int" where
  "to_int32 i = (i + 2 ^ 31) mod 2 ^ 32 - 2 ^ 31"

definition make_grpc_http_request :: "grpc_request \<Rightarrow> http_request" where
  "make_grpc_http_request r =
     default_http_request
       \<lparr>hq_method := ''POST'', hq_url := to_url (gq_endpoint r),
        hq_headers := [(''Content-Type'', ''application/json''), (''TE'', ''trailers'')] @ gq_metadata r,
        hq_body := Some (if gq_body r = [] then ''{}'' else gq_body r),
        hq_timeout_seconds := to_int32 (gq_timeout r),
        hq_version := (if ge_use_tls (gq_endpoint r) then Http2 else Http2PriorKnowledge),
        hq_capture_headers := True, hq_cert_path := gq_cert_path r, hq_key_path := gq_key_path r\<rparr>"

text \<open>The headers are those of the last block with a status line, the trailers those after it.\<close>

definition final_response_header_block :: "header_block list \<Rightarrow> nat option" where
  "final_response_header_block blocks =
     fold (\<lambda>i acc. if has_status_line (blocks ! i) then Some i else acc) [0..<length blocks] None"

definition project_header_blocks ::
  "http_response \<Rightarrow> (string \<times> string) list \<times> (string \<times> string) list" where
  "project_header_blocks r =
     (case final_response_header_block (hr_header_blocks r) of
        None \<Rightarrow> (hr_response_headers r, [])
      | Some i \<Rightarrow>
          (block_headers (hr_header_blocks r ! i),
           concat (map block_headers
             (filter (\<lambda>b. \<not> has_status_line b) (drop (i + 1) (hr_header_blocks r))))))"

definition to_wire_response :: "http_response \<Rightarrow> wire_transport_response" where
  "to_wire_response r =
     \<lparr>wt_status_code = hr_status_code r, wt_body = hr_body r, wt_error = hr_error r,
      wt_timed_out = hr_timed_out r, wt_response_headers = fst (project_header_blocks r),
      wt_trailers = snd (project_header_blocks r)\<rparr>"

definition wire_execute :: "'w curl_os \<Rightarrow> http_request \<Rightarrow> 'w \<Rightarrow> wire_transport_response \<times> 'w" where
  "wire_execute os request w =
     (case execute_http os request w of (r, w') \<Rightarrow> (to_wire_response r, w'))"

subsection \<open>The transport adapter of a capability\<close>

record 'w transport =
  transport_http :: "wire_request \<Rightarrow> 'w \<Rightarrow> wire_response \<times> 'w"
  transport_grpc :: "grpc_request \<Rightarrow> 'w \<Rightarrow> grpc_response \<times> 'w"

definition default_execute_http :: "'w curl_os \<Rightarrow> wire_request \<Rightarrow> 'w \<Rightarrow> wire_response \<times> 'w" where
  "default_execute_http os request w =
     (case wire_execute os (make_http_request request) w of
        (r, w') \<Rightarrow>
          (\<lparr>wr_status_code = wt_status_code r, wr_body = wt_body r, wr_error = wt_error r\<rparr>, w'))"

definition grpc_response_of :: "wire_transport_response \<Rightarrow> grpc_response" where
  "grpc_response_of r =
     (let response = (\<lambda>status content message.
            \<lparr>gr_status_code = status, gr_body = content, gr_error_message = message,
             gr_response_metadata = wt_response_headers r, gr_trailers = wt_trailers r\<rparr>);
          grpc_status = grpc_status_from_http_status (wt_status_code r)
      in if wt_timed_out r
         then response GrpcDeadlineExceeded [] ''gRPC JSON transcoding deadline exceeded''
         else if wt_status_code r = 0 \<and> wt_error r \<noteq> []
         then response GrpcUnavailable (wt_body r) (wt_error r)
         else if grpc_status \<noteq> GrpcOk
         then response grpc_status (wt_body r)
                (''gRPC '' @ grpc_status_name grpc_status @ '' (HTTP ''
                 @ int_to_string (wt_status_code r) @ '')'')
         else response GrpcOk (wt_body r) [])"

definition default_execute_grpc :: "'w curl_os \<Rightarrow> grpc_request \<Rightarrow> 'w \<Rightarrow> grpc_response \<times> 'w" where
  "default_execute_grpc os request w =
     (case wire_execute os (make_grpc_http_request request) w of (r, w') \<Rightarrow> (grpc_response_of r, w'))"

text \<open>
  \<open>HttpTransport::execute\<close> and \<open>execute_grpc_json_transcoding\<close> of \<open>grpc_transport.cpp\<close> have the
  bodies of the adapter's two functions, for callers without an adapter; the descriptions are for
  tests and logs.
\<close>

definition http_transport_execute :: "'w curl_os \<Rightarrow> wire_request \<Rightarrow> 'w \<Rightarrow> wire_response \<times> 'w" where
  "http_transport_execute os request w = default_execute_http os request w"

definition execute_grpc_json_transcoding :: "'w curl_os \<Rightarrow> grpc_request \<Rightarrow> 'w \<Rightarrow> grpc_response \<times> 'w" where
  "execute_grpc_json_transcoding os request w = default_execute_grpc os request w"

definition describe_wire_http :: "wire_request \<Rightarrow> string" where
  "describe_wire_http request = describe_http_command (make_http_request request)"

definition describe_wire_grpc :: "grpc_request \<Rightarrow> string" where
  "describe_wire_grpc request = describe_http_command (make_grpc_http_request request)"

definition default_capability_transport_adapter :: "'w curl_os \<Rightarrow> 'w transport" where
  "default_capability_transport_adapter os =
     \<lparr>transport_http = default_execute_http os, transport_grpc = default_execute_grpc os\<rparr>"

subsection \<open>Values on the wire\<close>

text \<open>\<open>std::string::find\<close> of a text: the first position at which it occurs.\<close>

fun find_text :: "string \<Rightarrow> string \<Rightarrow> nat option" where
  "find_text pat [] = (if pat = [] then Some 0 else None)"
| "find_text pat (c # s) =
     (if take (length pat) (c # s) = pat then Some 0 else map_option Suc (find_text pat s))"

definition serialize_value_for_wire_json :: "val \<Rightarrow> string" where
  "serialize_value_for_wire_json v = value_to_json v"

definition serialize_args_for_wire_json :: "val list \<Rightarrow> string" where
  "serialize_args_for_wire_json args =
     (case args of
        [] \<Rightarrow> ''{}''
      | [v] \<Rightarrow>
          if value_kind_of v = KStruct then serialize_value_for_wire_json v
          else [CHR ''{'', CHR 0x22] @ ''value'' @ [CHR 0x22, CHR '':''] @ serialize_value_for_wire_json v @ ''}''
      | _ \<Rightarrow>
          [CHR ''{'', CHR 0x22] @ ''args'' @ [CHR 0x22, CHR '':'', CHR ''['']
          @ comma_join (map serialize_value_for_wire_json args) @ '']}'')"

definition parse_value_from_wire_json :: "string \<Rightarrow> val option" where
  "parse_value_from_wire_json t = value_from_json t"

subsection \<open>The calls\<close>

datatype response_format = FormatJson | FormatTextPlain

record http_capability_config =
  hc_url :: string
  hc_method :: string
  hc_headers :: "(string \<times> string) list"
  hc_response_format :: response_format
  hc_retry :: retry_config
  hc_deadline :: int
  hc_circuit_breaker :: circuit_breaker_config
  hc_auth :: "auth_config option"
  hc_secret_manager :: "nat option"
  hc_response_schema :: "type_ref option"

record grpc_capability_config =
  gc_endpoint :: string
  gc_service :: string
  gc_method :: string
  gc_response_format :: response_format
  gc_retry :: retry_config
  gc_deadline :: int
  gc_circuit_breaker :: circuit_breaker_config
  gc_auth :: "auth_config option"
  gc_secret_manager :: "nat option"
  gc_response_schema :: "type_ref option"

record 'w wire_state =
  ws_pool :: pool
  ws_managers :: "nat \<Rightarrow> 'w secret_manager"
  ws_world :: 'w

definition call_failure :: "call_status \<Rightarrow> string \<Rightarrow> call_result" where
  "call_failure status msg = \<lparr>cr_status = status, cr_value = None, cr_message = msg, cr_attempts = 1\<rparr>"

definition extract_host :: "string \<Rightarrow> string" where
  "extract_host url =
     (let rest = (case find_text ''://'' url of Some i \<Rightarrow> drop (i + 3) url | None \<Rightarrow> url)
      in takeWhile (\<lambda>c. c \<noteq> CHR ''/'') rest)"

definition value_from_wire_response_body :: "string \<Rightarrow> response_format \<Rightarrow> call_result" where
  "value_from_wire_response_body content format =
     (if format = FormatTextPlain
      then (if content = [] then success_result NoneValue else success_result (StringValue content))
      else
        (case parse_value_from_wire_json content of
           Some v \<Rightarrow> success_result v
         | None \<Rightarrow>
             if content = [] then success_result NoneValue
             else call_failure CError ''invalid wire JSON response body''))"

text \<open>The tail that both kinds of call share: the check of the value against the schema.\<close>

definition checked_response :: "string \<Rightarrow> response_format \<Rightarrow> type_ref option \<Rightarrow> call_result" where
  "checked_response content format schema =
     (let result = value_from_wire_response_body content format
      in case (cr_status result, cr_value result, schema) of
           (CSuccess, Some v, Some t) \<Rightarrow>
             (let validation = validate_value_against_schema v t
              in if \<not> schema_valid validation
                 then call_failure CError (''response schema validation failed: '' @ schema_error validation)
                 else result)
         | _ \<Rightarrow> result)"

text \<open>
  The authentication: none asked for, asked for without a secret manager, or resolved through
  the manager. \<open>Inl\<close> is the message of the failure.
\<close>

definition resolve_call_auth ::
  "string \<Rightarrow> auth_config option \<Rightarrow> nat option \<Rightarrow> 'w wire_state \<Rightarrow>
    (string + resolved_auth option) \<times> 'w wire_state" where
  "resolve_call_auth label auth manager s =
     (case auth of
        None \<Rightarrow> (Inr None, s)
      | Some cfg \<Rightarrow>
          (case manager of
             None \<Rightarrow> (Inl (label @ '' capability auth failed: secret manager is required''), s)
           | Some i \<Rightarrow>
               (case resolve_auth cfg (ws_managers s i, ws_world s) of
                  (resolved, m, w) \<Rightarrow>
                    (let s' = s\<lparr>ws_managers := (ws_managers s)(i := m), ws_world := w\<rparr>
                     in if \<not> ra_success resolved
                        then (Inl (label @ '' capability auth failed: '' @ ra_error resolved), s')
                        else (Inr (Some resolved), s')))))"

definition http_call_request :: "http_capability_config \<Rightarrow> val list \<Rightarrow> wire_request" where
  "http_call_request config args =
     \<lparr>wq_url = hc_url config, wq_method = hc_method config,
      wq_headers = emplace ''Content-Type'' ''application/json'' (hc_headers config),
      wq_body = serialize_args_for_wire_json args,
      wq_timeout_seconds = to_int32 (trunc_div (hc_deadline config) 1000),
      wq_cert_path = [], wq_key_path = []\<rparr>"

definition authorize_http :: "resolved_auth option \<Rightarrow> wire_request \<Rightarrow> wire_request" where
  "authorize_http auth request =
     (case auth of
        None \<Rightarrow> request
      | Some a \<Rightarrow>
          request\<lparr>wq_headers := fold (\<lambda>(k, v). insert_or_assign k v) (ra_headers a) (wq_headers request),
            wq_cert_path := ra_cert_path a, wq_key_path := ra_key_path a\<rparr>)"

definition http_call_result :: "http_capability_config \<Rightarrow> wire_response \<Rightarrow> call_result" where
  "http_call_result config response =
     (if is_timeout response then call_failure CTimeout ''HTTP request timed out''
      else if wr_error response \<noteq> [] \<and> wr_status_code response = 0
      then call_failure CError (''HTTP transport error: '' @ wr_error response)
      else if \<not> is_success response
      then call_failure CError
             (''HTTP '' @ int_to_string (wr_status_code response) @ '': '' @ wr_body response)
      else checked_response (wr_body response) (hc_response_format config) (hc_response_schema config))"

text \<open>A call under a lease; leaving the function, on whichever path, destroys the lease.\<close>

definition under_lease ::
  "'w env \<Rightarrow> string \<Rightarrow> string \<Rightarrow> ('w wire_state \<Rightarrow> call_result \<times> 'w wire_state) \<Rightarrow>
    'w wire_state \<Rightarrow> call_result \<times> 'w wire_state" where
  "under_lease env label host call s =
     (case now env (ws_world s) of
        (t, w) \<Rightarrow>
          (case try_acquire host t (ws_pool s) of
             (None, p) \<Rightarrow>
               (call_failure CError (''connection pool exhausted for '' @ label @ '': '' @ host),
                s\<lparr>ws_pool := p, ws_world := w\<rparr>)
           | (Some h, p) \<Rightarrow>
               (case call (s\<lparr>ws_pool := p, ws_world := w\<rparr>) of
                  (r, s1) \<Rightarrow>
                    (case now env (ws_world s1) of
                       (t', w') \<Rightarrow>
                         (r, s1\<lparr>ws_pool := snd (lease_release (Some h) t' (ws_pool s1)),
                               ws_world := w'\<rparr>)))))"

definition http_exchange ::
  "http_capability_config \<Rightarrow> 'w transport \<Rightarrow> val list \<Rightarrow> 'w wire_state \<Rightarrow> call_result \<times> 'w wire_state" where
  "http_exchange config tr args s =
     (case resolve_call_auth ''HTTP'' (hc_auth config) (hc_secret_manager config) s of
        (Inl msg, s1) \<Rightarrow> (call_failure CError msg, s1)
      | (Inr auth, s1) \<Rightarrow>
          (case transport_http tr (authorize_http auth (http_call_request config args)) (ws_world s1) of
             (response, w) \<Rightarrow> (http_call_result config response, s1\<lparr>ws_world := w\<rparr>)))"

definition execute_http_capability_call ::
  "'w env \<Rightarrow> http_capability_config \<Rightarrow> 'w transport \<Rightarrow> val list \<Rightarrow> 'w wire_state \<Rightarrow>
    call_result \<times> 'w wire_state" where
  "execute_http_capability_call env config tr args =
     under_lease env ''host'' (extract_host (hc_url config)) (http_exchange config tr args)"

record parsed_endpoint =
  pe_host :: string
  pe_port :: nat
  pe_use_tls :: bool

definition parse_grpc_json_transcoding_endpoint :: "string \<Rightarrow> parsed_endpoint" where
  "parse_grpc_json_transcoding_endpoint endpoint =
     (let (use_tls, working) =
            (if take 8 endpoint = ''https://'' then (True, drop 8 endpoint)
             else if take 7 endpoint = ''http://'' then (False, drop 7 endpoint)
             else (False, endpoint));
          default_port = (if use_tls then 443 else 50051)
      in case rfind '':'' working of
           Some i \<Rightarrow>
             \<lparr>pe_host = take i working,
              pe_port = (case stoi (drop (i + 1) working) of
                           ScanValue n \<Rightarrow> nat (n mod 65536)
                         | _ \<Rightarrow> default_port),
              pe_use_tls = use_tls\<rparr>
         | None \<Rightarrow> \<lparr>pe_host = working, pe_port = default_port, pe_use_tls = use_tls\<rparr>)"

definition grpc_call_request :: "grpc_capability_config \<Rightarrow> parsed_endpoint \<Rightarrow> val list \<Rightarrow> grpc_request" where
  "grpc_call_request config parsed args =
     \<lparr>gq_endpoint = \<lparr>ge_host = pe_host parsed, ge_port = pe_port parsed, ge_service = gc_service config,
        ge_method = gc_method config, ge_use_tls = pe_use_tls parsed\<rparr>,
      gq_body = serialize_args_for_wire_json args, gq_metadata = [],
      gq_timeout = trunc_div (gc_deadline config) 1000, gq_cert_path = [], gq_key_path = []\<rparr>"

definition authorize_grpc :: "resolved_auth option \<Rightarrow> grpc_request \<Rightarrow> grpc_request" where
  "authorize_grpc auth request =
     (case auth of
        None \<Rightarrow> request
      | Some a \<Rightarrow>
          request\<lparr>gq_metadata := gq_metadata request @ ra_headers a,
            gq_cert_path := ra_cert_path a, gq_key_path := ra_key_path a\<rparr>)"

text \<open>A status in the trailers wins over the transport's; one in the metadata over an OK.\<close>

definition override_status :: "(string \<times> string) list \<Rightarrow> grpc_response \<Rightarrow> grpc_response" where
  "override_status headers response =
     (if headers \<noteq> [] \<and> parse_grpc_status_from_headers headers \<noteq> GrpcOk
      then response\<lparr>gr_status_code := parse_grpc_status_from_headers headers,
             gr_error_message :=
               (if parse_grpc_message_from_headers headers \<noteq> []
                then parse_grpc_message_from_headers headers else gr_error_message response)\<rparr>
      else response)"

definition effective_response :: "grpc_response \<Rightarrow> grpc_response" where
  "effective_response response =
     (let r1 = override_status (gr_trailers response) response
      in if gr_status_code r1 = GrpcOk then override_status (gr_response_metadata r1) r1 else r1)"

definition grpc_call_result :: "grpc_capability_config \<Rightarrow> grpc_response \<Rightarrow> call_result" where
  "grpc_call_result config r0 =
     (let response = effective_response r0
      in if gr_status_code response = GrpcDeadlineExceeded
         then call_failure CTimeout (gr_error_message response)
         else if \<not> is_ok response then call_failure CError (gr_error_message response)
         else checked_response (gr_body response) (gc_response_format config) (gc_response_schema config))"

definition grpc_exchange ::
  "grpc_capability_config \<Rightarrow> 'w transport \<Rightarrow> val list \<Rightarrow> 'w wire_state \<Rightarrow> call_result \<times> 'w wire_state" where
  "grpc_exchange config tr args s =
     (case resolve_call_auth ''gRPC'' (gc_auth config) (gc_secret_manager config) s of
        (Inl msg, s1) \<Rightarrow> (call_failure CError msg, s1)
      | (Inr auth, s1) \<Rightarrow>
          (case transport_grpc tr
                  (authorize_grpc auth (grpc_call_request config
                     (parse_grpc_json_transcoding_endpoint (gc_endpoint config)) args)) (ws_world s1) of
             (response, w) \<Rightarrow> (grpc_call_result config response, s1\<lparr>ws_world := w\<rparr>)))"

definition execute_grpc_json_transcoding_capability_call ::
  "'w env \<Rightarrow> grpc_capability_config \<Rightarrow> 'w transport \<Rightarrow> val list \<Rightarrow> 'w wire_state \<Rightarrow>
    call_result \<times> 'w wire_state" where
  "execute_grpc_json_transcoding_capability_call env config tr args =
     (let parsed = parse_grpc_json_transcoding_endpoint (gc_endpoint config)
      in under_lease env ''gRPC host'' (pe_host parsed @ '':'' @ nat_to_string (pe_port parsed))
           (grpc_exchange config tr args))"

subsection \<open>The bindings\<close>

definition wire_binding ::
  "string \<Rightarrow> retry_config \<Rightarrow> circuit_breaker_config \<Rightarrow> 's handler \<Rightarrow> 's binding" where
  "wire_binding name r cb h =
     \<lparr>binding_name = name, handler = h, retry = r, circuit_breaker = cb,
      circuit_state = (if cb_enabled cb then Some (new_breaker cb) else None)\<rparr>"

definition make_http_capability ::
  "'w env \<Rightarrow> 'w curl_os \<Rightarrow> string \<Rightarrow> http_capability_config \<Rightarrow> 'w transport option \<Rightarrow>
    'w wire_state binding" where
  "make_http_capability env os name config tr =
     wire_binding name (hc_retry config) (hc_circuit_breaker config)
       (execute_http_capability_call env config
          (case tr of Some t \<Rightarrow> t | None \<Rightarrow> default_capability_transport_adapter os))"

definition make_grpc_json_transcoding_capability ::
  "'w env \<Rightarrow> 'w curl_os \<Rightarrow> string \<Rightarrow> grpc_capability_config \<Rightarrow> 'w transport option \<Rightarrow>
    'w wire_state binding" where
  "make_grpc_json_transcoding_capability env os name config tr =
     wire_binding name (gc_retry config) (gc_circuit_breaker config)
       (execute_grpc_json_transcoding_capability_call env config
          (case tr of Some t \<Rightarrow> t | None \<Rightarrow> default_capability_transport_adapter os))"

subsection \<open>What a call gives\<close>

text \<open>
  The promise of a wire call: a value comes back exactly when the call succeeds, the value is
  well formed and of the expected type, and a call makes one attempt.
\<close>

definition wire_result_ok :: "type_ref option \<Rightarrow> call_result \<Rightarrow> bool" where
  "wire_result_ok schema r \<longleftrightarrow>
     cr_attempts r = 1 \<and> cr_status r \<in> {CSuccess, CError, CTimeout} \<and>
     (cr_status r = CSuccess \<longleftrightarrow> cr_value r \<noteq> None) \<and>
     (\<forall>v. cr_value r = Some v \<longrightarrow> value_ok v \<and> (\<forall>t. schema = Some t \<longrightarrow> conforms None v t))"

lemma call_failure_ok: "st \<in> {CError, CTimeout} \<Longrightarrow> wire_result_ok schema (call_failure st msg)"
  by (auto simp: wire_result_ok_def call_failure_def)

lemma body_value_ok:
  "value_from_wire_response_body content format = success_result v \<Longrightarrow> value_ok v"
  by (auto simp: value_from_wire_response_body_def success_result_def call_failure_def
      parse_value_from_wire_json_def dest: value_from_json_ok split: if_splits option.splits)

lemma body_cases:
  obtains v where "value_from_wire_response_body content format = success_result v"
  | m where "value_from_wire_response_body content format = call_failure CError m"
proof (cases "format = FormatTextPlain \<or> content = [] \<or> parse_value_from_wire_json content \<noteq> None")
  case True
  then have "\<exists>v. value_from_wire_response_body content format = success_result v"
    by (auto simp: value_from_wire_response_body_def split: option.splits)
  with that show thesis by blast
next
  case False
  with that show thesis by (auto simp: value_from_wire_response_body_def)
qed

lemma checked_response_ok: "wire_result_ok schema (checked_response content format schema)"
proof (cases rule: body_cases [of content format])
  case (1 v)
  from body_value_ok [OF 1] have "value_ok v" .
  with 1 check_conforms [of None v] show ?thesis
    by (cases schema) (auto simp: checked_response_def Let_def wire_result_ok_def success_result_def
        validate_value_against_schema_def call_failure_def)
next
  case (2 m)
  then show ?thesis by (auto simp: checked_response_def call_failure_def wire_result_ok_def)
qed

lemma checked_response_status: "cr_status (checked_response content format schema) \<noteq> CTimeout"
  by (cases rule: body_cases [of content format]; cases schema)
    (auto simp: checked_response_def Let_def success_result_def call_failure_def)

lemma http_call_result_ok: "wire_result_ok (hc_response_schema config) (http_call_result config r)"
  by (auto simp: http_call_result_def call_failure_ok checked_response_ok)

lemma grpc_call_result_ok: "wire_result_ok (gc_response_schema config) (grpc_call_result config r)"
  by (auto simp: grpc_call_result_def Let_def call_failure_ok checked_response_ok)

text \<open>Only the lease touches the pool, and it gives back what it took.\<close>

definition same_load :: "pool \<Rightarrow> pool \<Rightarrow> bool" where
  "same_load p q \<longleftrightarrow>
     pool_config q = pool_config p \<and> total_active q = total_active p \<and>
     (\<forall>h. active_for_host h q = active_for_host h p)"

lemma resolve_call_auth_pool:
  "resolve_call_auth label auth m s = (x, s') \<Longrightarrow> ws_pool s' = ws_pool s"
  by (auto simp: resolve_call_auth_def Let_def split: option.splits prod.splits if_splits)

text \<open>What the lease relies on in the exchange it covers.\<close>

locale leased_exchange =
  fixes call :: "'w wire_state \<Rightarrow> call_result \<times> 'w wire_state" and schema :: "type_ref option"
  assumes exchange_ok: "call s = (r, s') \<Longrightarrow> wire_result_ok schema r \<and> ws_pool s' = ws_pool s"
begin

lemma lease_returned:
  assumes run: "under_lease env label host call s = (r, s')"
  shows "wire_result_ok schema r \<and> same_load (ws_pool s) (ws_pool s')"
proof -
  obtain t w where n: "now env (ws_world s) = (t, w)" by fastforce
  obtain l p where a: "try_acquire host t (ws_pool s) = (l, p)" by fastforce
  show ?thesis
  proof (cases l)
    case None
    with a have "same_load (ws_pool s) p"
      by (cases rule: try_acquire_cases [of "ws_pool s" host t]) (auto simp: same_load_def)
    with None run n a show ?thesis by (auto simp: under_lease_def call_failure_ok)
  next
    case (Some h)
    obtain r1 s1 where c: "call (s\<lparr>ws_pool := p, ws_world := w\<rparr>) = (r1, s1)" by fastforce
    obtain t' w' where n': "now env (ws_world s1) = (t', w')" by fastforce
    from exchange_ok [OF c] have s1: "wire_result_ok schema r1" "ws_pool s1 = p" by auto
    from a Some have p: "h = host" "p = start_on host t (touch host (ws_pool s))"
      by (auto simp: try_acquire_def Let_def split: if_splits)
    from run n a Some c n' have "r = r1" "ws_pool s' = record_end host t' p"
      by (auto simp: under_lease_def lease_release_def s1 p)
    with s1 p show ?thesis by (auto simp: same_load_def)
  qed
qed

end

interpretation over_http: leased_exchange "http_exchange config tr args" "hc_response_schema config"
  for config tr args
  by unfold_locales
    (auto simp: http_exchange_def call_failure_ok http_call_result_ok dest!: resolve_call_auth_pool
      split: prod.splits sum.splits)

interpretation over_grpc: leased_exchange "grpc_exchange config tr args" "gc_response_schema config"
  for config tr args
  by unfold_locales
    (auto simp: grpc_exchange_def call_failure_ok grpc_call_result_ok dest!: resolve_call_auth_pool
      split: prod.splits sum.splits)

lemma http_call_ok:
  "execute_http_capability_call env config tr args s = (r, s') \<Longrightarrow>
    wire_result_ok (hc_response_schema config) r \<and> same_load (ws_pool s) (ws_pool s')"
  unfolding execute_http_capability_call_def by (rule over_http.lease_returned)

lemma grpc_call_ok:
  "execute_grpc_json_transcoding_capability_call env config tr args s = (r, s') \<Longrightarrow>
    wire_result_ok (gc_response_schema config) r \<and> same_load (ws_pool s) (ws_pool s')"
  unfolding execute_grpc_json_transcoding_capability_call_def Let_def by (rule over_grpc.lease_returned)

text \<open>So a wire capability may be registered: it keeps the invariant of the registry.\<close>

lemma wire_binding_ok: "handler_ok h \<Longrightarrow> binding_ok (wire_binding name r cb h)"
  by (auto simp: wire_binding_def binding_ok_def intro: breaker_reachable_init)

lemma make_capability_ok:
  "binding_ok (make_http_capability env os name hconfig tr)"
  "binding_ok (make_grpc_json_transcoding_capability env os name gconfig tr)"
  unfolding make_http_capability_def make_grpc_json_transcoding_capability_def
  by (auto intro!: wire_binding_ok simp: handler_ok_def wire_result_ok_def
      dest!: http_call_ok grpc_call_ok)

subsection \<open>Messages of gRPC\<close>

text \<open>
  The encoding of \<open>grpc-message\<close>, from the protocol's document: the printable characters other
  than \<open>%\<close> stand for themselves, every other byte is \<open>%\<close> and two upper case digits.
\<close>

definition percent_encode_char :: "char \<Rightarrow> string" where
  "percent_encode_char c =
     (let n = of_char c :: nat
      in if 0x20 \<le> n \<and> n \<le> 0x7E \<and> c \<noteq> CHR ''%'' then [c]
         else [CHR ''%'', ''0123456789ABCDEF'' ! (n div 16), ''0123456789ABCDEF'' ! (n mod 16)])"

definition percent_encode :: "string \<Rightarrow> string" where
  "percent_encode s = concat (map percent_encode_char s)"

lemma hex_digit_upper: "n < 16 \<Longrightarrow> hex_digit (''0123456789ABCDEF'' ! n) = Some n"
proof -
  assume "n < 16"
  then have "n \<in> set [0..<16]" by simp
  moreover have "\<forall>n \<in> set [0..<16]. hex_digit (''0123456789ABCDEF'' ! n) = Some n"
    by (simp add: hex_digit_def upt_rec)
  ultimately show ?thesis by blast
qed

lemma nibbles: "push_bit 4 (n div 16) OR (n mod 16) = (n :: nat)"
proof -
  have "push_bit 4 (drop_bit 4 n) OR take_bit 4 n = n"
    by (rule bit_eqI) (auto simp: bit_simps)
  then show ?thesis by (simp add: drop_bit_eq_div take_bit_eq_mod)
qed

lemma percent_decode_plain: "c \<noteq> CHR ''%'' \<Longrightarrow> percent_decode (c # s) = c # percent_decode s"
  by (cases "c # s" rule: percent_decode.cases) auto

lemma percent_decode_encode_char: "percent_decode (percent_encode_char c @ s) = c # percent_decode s"
proof -
  let ?n = "of_char c :: nat"
  have "?n < 256" by simp
  then have "?n div 16 < 16" by linarith
  then have "hex_digit (''0123456789ABCDEF'' ! (?n div 16)) = Some (?n div 16)"
    "hex_digit (''0123456789ABCDEF'' ! (?n mod 16)) = Some (?n mod 16)"
    by (simp_all add: hex_digit_upper del: nth_Cons_numeral)
  then show ?thesis
    by (auto simp: percent_encode_char_def Let_def percent_decode_plain nibbles)
qed

lemma percent_decode_encode: "percent_decode (percent_encode s) = s"
  by (induction s) (auto simp: percent_encode_def percent_decode_encode_char)

subsection \<open>Status codes\<close>

lemma override_status_code:
  "gr_status_code (override_status hs r) =
     (if parse_grpc_status_from_headers hs \<noteq> GrpcOk then parse_grpc_status_from_headers hs
      else gr_status_code r)"
  by (auto simp: override_status_def)

lemma override_status_rest [simp]:
  "gr_body (override_status hs r) = gr_body r"
  "gr_trailers (override_status hs r) = gr_trailers r"
  "gr_response_metadata (override_status hs r) = gr_response_metadata r"
  by (simp_all add: override_status_def)

lemma effective_status:
  "gr_status_code (effective_response r) =
     (if parse_grpc_status_from_headers (gr_trailers r) \<noteq> GrpcOk
      then parse_grpc_status_from_headers (gr_trailers r)
      else if gr_status_code r \<noteq> GrpcOk then gr_status_code r
      else parse_grpc_status_from_headers (gr_response_metadata r))"
  by (simp add: effective_response_def Let_def override_status_code)

text \<open>A gRPC call yields a value only when no source of a status reports a failure.\<close>

lemma grpc_success_status:
  assumes "cr_status (grpc_call_result config r) = CSuccess"
  shows "gr_status_code r = GrpcOk \<and> parse_grpc_status_from_headers (gr_trailers r) = GrpcOk \<and>
    parse_grpc_status_from_headers (gr_response_metadata r) = GrpcOk"
  using assms
  by (auto simp: grpc_call_result_def Let_def call_failure_def is_ok_def effective_status split: if_splits)

lemma grpc_timeout_status:
  "cr_status (grpc_call_result config r) = CTimeout \<longleftrightarrow>
    gr_status_code (effective_response r) = GrpcDeadlineExceeded"
  by (auto simp: grpc_call_result_def Let_def call_failure_def checked_response_status)

lemma endpoint_port_bound: "pe_port (parse_grpc_json_transcoding_endpoint e) < 65536"
  by (auto simp: parse_grpc_json_transcoding_endpoint_def Let_def
      split: option.splits scan_result.splits if_splits)

subsection \<open>A value over the wire\<close>

text \<open>
  The composition: curl prints the JSON text of a value and a success status; the call through
  the default transport gives the value back, as JSON can represent it.
\<close>

definition curl_answers :: "'w curl_os \<Rightarrow> string \<Rightarrow> nat \<Rightarrow> bool" where
  "curl_answers os content http_code \<longleftrightarrow>
     (\<forall>pfx b w. snd (fst (temp_write os pfx b w)) = None) \<and>
     (\<forall>cfg w. let pr = fst (launch_process os cfg w)
              in pr_exit_code pr = 0 \<and> \<not> pr_timed_out pr \<and>
                 pr_stdout pr = content @ newline # nat_to_string http_code)"

lemma run_curl_answer:
  assumes "curl_answers os content http_code" "http_code < 2 ^ 31" "hq_timeout_seconds q + 5 < 2 ^ 31"
    and "run_curl os q b None w = (r, w')"
  shows "hr_status_code r = int http_code \<and> hr_body r = content \<and> hr_error r = []"
proof -
  define cfg where "cfg = \<lparr>pc_executable = ''curl'', pc_arguments = [''--config'', ''-''],
    pc_stdin_input = Some (build_curl_config q b None), pc_timeout = hq_timeout_seconds q + 5\<rparr>"
  obtain pr w1 where l: "launch_process os cfg w = (pr, w1)" by fastforce
  with assms(1) have pr: "pr_exit_code pr = 0" "\<not> pr_timed_out pr"
    "pr_stdout pr = content @ newline # nat_to_string http_code"
    unfolding curl_answers_def Let_def by (metis fst_conv)+
  from assms(3,4) l have "r = parse_curl_output pr"
    by (simp add: run_curl_def cfg_def [symmetric] Let_def)
  with parse_curl_output_ok [OF pr(2,3) assms(2)] pr(1) show ?thesis by simp
qed

lemma default_execute_http_answer:
  assumes "curl_answers os content http_code" "http_code < 2 ^ 31" "wq_body q \<noteq> []"
    and "wq_timeout_seconds q + 5 < 2 ^ 31" "default_execute_http os q w = (r, w')"
  shows "wr_status_code r = int http_code \<and> wr_body r = content \<and> wr_error r = []"
proof -
  let ?q = "make_http_request q"
  have body: "hq_body ?q = Some (wq_body q)" "\<not> hq_capture_headers ?q" "hq_timeout_seconds ?q + 5 < 2 ^ 31"
    using assms(3,4) by (simp_all add: make_http_request_def default_http_request_def)
  obtain p e w1 where t: "temp_write os ''ahfl-curl-body-'' (wq_body q) w = ((p, e), w1)"
    by (metis prod.collapse)
  with assms(1) have "e = None"
    unfolding curl_answers_def by (metis fst_conv snd_conv)
  obtain r1 w2 where "run_curl os ?q (Some p) None w1 = (r1, w2)" by fastforce
  with run_curl_answer [OF assms(1,2) body(3) this] t \<open>e = None\<close> assms(5) body(1,2) show ?thesis
    by (auto simp: default_execute_http_def wire_execute_def execute_http_def execute_curl_def
        curl_with_header_file_def to_wire_response_def)
qed

lemma serialize_args_nonempty: "serialize_args_for_wire_json args \<noteq> []"
  by (cases "hd args") (auto simp: serialize_args_for_wire_json_def serialize_value_for_wire_json_def
      value_to_json_def split: list.splits)

lemma under_lease_granted:
  assumes "total_active (ws_pool s) < max_connections (pool_config (ws_pool s))"
    and "active_for_host host (ws_pool s) < max_per_host (pool_config (ws_pool s))"
    and "\<And>s1. fst (call s1) = r"
  shows "fst (under_lease env label host call s) = r"
proof -
  obtain t w where n: "now env (ws_world s) = (t, w)" by fastforce
  from assms(1,2) obtain p where p: "try_acquire host t (ws_pool s) = (Some host, p)"
    by (cases rule: try_acquire_cases [of "ws_pool s" host t]) auto
  obtain r1 s1 where c: "call (s\<lparr>ws_pool := p, ws_world := w\<rparr>) = (r1, s1)" by fastforce
  with assms(3) [of "s\<lparr>ws_pool := p, ws_world := w\<rparr>"] have "r1 = r" by simp
  with n p c show ?thesis by (simp add: under_lease_def split: prod.split)
qed

lemma http_value_delivered:
  assumes "curl_answers os (value_to_json v) http_code" "200 \<le> http_code" "http_code < 300" "json_writable v"
    and "hc_auth config = None" "hc_response_format config = FormatJson"
    and "\<forall>t. hc_response_schema config = Some t \<longrightarrow> conforms None (json_image v) t"
    and "total_active (ws_pool s) < max_connections (pool_config (ws_pool s))"
    and "active_for_host (extract_host (hc_url config)) (ws_pool s) < max_per_host (pool_config (ws_pool s))"
    and "0 \<le> hc_deadline config" "hc_deadline config < 2147483643000"
  shows "fst (execute_http_capability_call env config (default_capability_transport_adapter os) args s) =
    success_result (json_image v)"
proof -
  let ?q = "authorize_http None (http_call_request config args)"
  have "wq_body ?q \<noteq> []" by (simp add: authorize_http_def http_call_request_def serialize_args_nonempty)
  have "wq_timeout_seconds ?q + 5 < 2 ^ 31"
  proof -
    have "trunc_div (hc_deadline config) 1000 = hc_deadline config div 1000"
      using assms(10) by (cases "hc_deadline config = 0") (simp_all add: trunc_div_def)
    then have "wq_timeout_seconds ?q = hc_deadline config div 1000"
      using assms(10,11) by (simp add: authorize_http_def http_call_request_def to_int32_def)
    then show ?thesis using assms(11) by simp
  qed
  note exec = default_execute_http_answer [OF assms(1)]
  have "value_from_wire_response_body (value_to_json v) FormatJson = success_result (json_image v)"
    using value_json_roundtrip [OF assms(4)]
    by (simp add: value_from_wire_response_body_def parse_value_from_wire_json_def)
  then have chk: "checked_response (value_to_json v) FormatJson (hc_response_schema config) =
      success_result (json_image v)"
    using assms(7) check_conforms [of None "json_image v"]
    by (auto simp: checked_response_def Let_def success_result_def validate_value_against_schema_def
        split: option.splits)
  have res: "http_call_result config r = success_result (json_image v)"
    if "default_execute_http os ?q w = (r, w')" for r w w'
    using exec [OF _ _ _ that] \<open>wq_body ?q \<noteq> []\<close> \<open>wq_timeout_seconds ?q + 5 < 2 ^ 31\<close> assms(2,3,6) chk
    by (simp add: http_call_result_def is_timeout_def is_success_def)
  show ?thesis
    unfolding execute_http_capability_call_def using assms(5,8,9) res
    by (intro under_lease_granted)
      (auto simp: http_exchange_def resolve_call_auth_def default_capability_transport_adapter_def
        split: prod.splits)
qed

end
