(* ===== verification/Distributed.thy ===== *)
theory Distributed
  imports Wire "HOL-Library.List_Lexorder" "HOL-Library.Char_ord"
begin

section \<open>The distributed scheduler\<close>

text \<open>
  \<open>src/runtime/engine/distributed.{hpp,cpp}\<close>: snapshots of an agent's state, their text, and the
  checkpoints that are stored on a remote node or in the local file system. Time points count
  nanoseconds. \<open>dist_env\<close> has what is outside the program: the HTTP transport (\<open>Wire\<close> gives the
  one the code uses), the system clock, the environment and the file system. A result
  \<^const>\<open>None\<close> is undefined behaviour: \<open>time_point(milliseconds(v))\<close> overflows for a \<open>v\<close> beyond
  292 years. \<open>std::sort\<close> may order endpoints of equal priority in any way; the model keeps their
  order.
\<close>

subsection \<open>Data\<close>

record remote_node =
  node_id :: string
  node_endpoint :: string
  node_region :: string
  node_priority :: int

record snapshot =
  agent_id :: string
  snapshot_state :: string
  context_values :: "(string \<times> string) list"
  timestamp :: int

datatype checkpoint_status = CheckpointCreated | CheckpointStored | CheckpointRestored | CheckpointFailed

record checkpoint_result =
  checkpoint_id :: string
  checkpoint_status :: checkpoint_status
  checkpoint_error :: string

datatype failover_strategy = FailoverRetry | FailoverReschedule | FailoverAbort

record failover_policy =
  fo_strategy :: failover_strategy
  fo_max_retries :: int
  fo_timeout :: int

record region_config =
  region_id :: string
  region_nodes :: "remote_node list"
  region_max_concurrent :: int

record distributed =
  ds_regions :: "region_config list"
  ds_failover :: failover_policy

definition new_distributed :: distributed where
  "new_distributed =
     \<lparr>ds_regions = [], ds_failover = \<lparr>fo_strategy = FailoverReschedule, fo_max_retries = 3, fo_timeout = 30\<rparr>\<rparr>"

definition add_region :: "region_config \<Rightarrow> distributed \<Rightarrow> distributed" where
  "add_region r d = d\<lparr>ds_regions := ds_regions d @ [r]\<rparr>"

definition set_failover_policy :: "failover_policy \<Rightarrow> distributed \<Rightarrow> distributed" where
  "set_failover_policy p d = d\<lparr>ds_failover := p\<rparr>"

definition region_count :: "distributed \<Rightarrow> nat" where
  "region_count d = length (ds_regions d)"

definition total_node_count :: "distributed \<Rightarrow> nat" where
  "total_node_count d = fold (\<lambda>r total. total + length (region_nodes r)) (ds_regions d) 0"

record 'w dist_env =
  de_http :: "wire_request \<Rightarrow> 'w \<Rightarrow> wire_response \<times> 'w"
  de_now :: "'w \<Rightarrow> int \<times> 'w"
  de_getenv :: "string \<Rightarrow> 'w \<Rightarrow> string option \<times> 'w"
  de_temp_directory :: "'w \<Rightarrow> string \<times> 'w"
  de_create_directories :: "string \<Rightarrow> 'w \<Rightarrow> string option \<times> 'w"
  de_write_file :: "string \<Rightarrow> string \<Rightarrow> 'w \<Rightarrow> bool \<times> 'w"
  de_rename :: "string \<Rightarrow> string \<Rightarrow> 'w \<Rightarrow> string option \<times> 'w"
  de_exists :: "string \<Rightarrow> 'w \<Rightarrow> bool \<times> 'w"
  de_read_file :: "string \<Rightarrow> 'w \<Rightarrow> string option \<times> 'w"
  de_list :: "string \<Rightarrow> 'w \<Rightarrow> string list \<times> 'w"

subsection \<open>Snapshots\<close>

definition create_snapshot ::
  "'w dist_env \<Rightarrow> string \<Rightarrow> string \<Rightarrow> (string \<times> string) list \<Rightarrow> 'w \<Rightarrow> snapshot \<times> 'w" where
  "create_snapshot env agent state ctx w =
     (case de_now env w of
        (t, w') \<Rightarrow>
          (\<lparr>agent_id = agent, snapshot_state = state, context_values = ctx, timestamp = t\<rparr>, w'))"

text \<open>\<open>duration_cast<milliseconds>\<close> rounds towards zero.\<close>

definition snapshot_json :: "snapshot \<Rightarrow> json" where
  "snapshot_json s =
     (let obj = json_set ''timestamp_ms'' (Some (make_int (trunc_div (timestamp s) 1000000)))
                  (json_set ''current_state'' (Some (make_string (snapshot_state s)))
                    (json_set ''agent_id'' (Some (make_string (agent_id s)))
                      (json_set ''format'' (Some (make_string ''AHFL_SNAPSHOT_V2'')) make_object)));
          ctx = fold (\<lambda>(k, v). json_set k (Some (make_string v))) (sort_key fst (context_values s)) make_object
      in json_set ''context'' (Some ctx) obj)"

definition serialize_snapshot :: "snapshot \<Rightarrow> string option" where
  "serialize_snapshot s = serialize_json (snapshot_json s)"

definition time_of_ms :: "int \<Rightarrow> int option" where
  "time_of_ms ms = int64_result (ms * 1000000)"

text \<open>The members of the context that are strings.\<close>

fun read_context :: "(string \<times> json option) list \<Rightarrow> (string \<times> string) list \<Rightarrow> (string \<times> string) list option" where
  "read_context [] acc = Some acc"
| "read_context ((k, None) # fs) acc = None"
| "read_context ((k, Some v) # fs) acc =
     (case as_string v of
        Some s \<Rightarrow> read_context fs (insert_or_assign k s acc)
      | None \<Rightarrow> read_context fs acc)"

definition is_object :: "json \<Rightarrow> bool" where
  "is_object v = (case v of JObject _ _ \<Rightarrow> True | _ \<Rightarrow> False)"

definition object_fields :: "json \<Rightarrow> (string \<times> json option) list" where
  "object_fields v = (case v of JObject _ fs \<Rightarrow> fs | _ \<Rightarrow> [])"

definition format_accepted :: "json \<Rightarrow> bool" where
  "format_accepted obj =
     (case json_get ''format'' obj of
        None \<Rightarrow> True
      | Some f \<Rightarrow> (case as_string f of None \<Rightarrow> False | Some s \<Rightarrow> s = ''AHFL_SNAPSHOT_V2''))"

definition snapshot_of_json :: "json \<Rightarrow> snapshot option option" where
  "snapshot_of_json obj =
     (if \<not> format_accepted obj then Some None
      else
        (case (json_get ''agent_id'' obj, json_get ''current_state'' obj, json_get ''timestamp_ms'' obj) of
           (Some a, Some s, Some t) \<Rightarrow>
             (case (as_string a, as_string s, as_int t) of
                (Some aid, Some st, Some ms) \<Rightarrow>
                  if aid = [] then Some None
                  else
                    (case time_of_ms ms of
                       None \<Rightarrow> None
                     | Some ns \<Rightarrow>
                         (case (case json_get ''context'' obj of
                                  Some ctx \<Rightarrow> if is_object ctx then read_context (object_fields ctx) [] else Some []
                                | None \<Rightarrow> Some []) of
                            None \<Rightarrow> None
                          | Some cs \<Rightarrow>
                              Some (Some \<lparr>agent_id = aid, snapshot_state = st, context_values = cs,
                                          timestamp = ns\<rparr>)))
              | _ \<Rightarrow> Some None)
         | _ \<Rightarrow> Some None))"

text \<open>The older text format: a header line and lines \<open>key=value\<close>.\<close>

definition snapshot_line :: "string \<Rightarrow> snapshot \<Rightarrow> snapshot option" where
  "snapshot_line line s =
     (case split_at_char (CHR ''='') line of
        None \<Rightarrow> Some s
      | Some (key, v) \<Rightarrow>
          if key = ''agent_id'' then Some (s\<lparr>agent_id := v\<rparr>)
          else if key = ''current_state'' then Some (s\<lparr>snapshot_state := v\<rparr>)
          else if key = ''timestamp'' then
            (case stoll v of
               ScanValue ms \<Rightarrow>
                 (case time_of_ms ms of None \<Rightarrow> None | Some ns \<Rightarrow> Some (s\<lparr>timestamp := ns\<rparr>))
             | _ \<Rightarrow> Some s)
          else if take 4 key = ''ctx.''
          then Some (s\<lparr>context_values := insert_or_assign (drop 4 key) v (context_values s)\<rparr>)
          else Some s)"

fun snapshot_lines :: "string list \<Rightarrow> snapshot \<Rightarrow> snapshot option" where
  "snapshot_lines [] s = Some s"
| "snapshot_lines (l # ls) s =
     (case snapshot_line l s of None \<Rightarrow> None | Some s' \<Rightarrow> snapshot_lines ls s')"

definition snapshot_of_text :: "string \<Rightarrow> snapshot option option" where
  "snapshot_of_text data =
     (case lines_of data of
        [] \<Rightarrow> Some None
      | header # ls \<Rightarrow>
          if header \<noteq> ''AHFL_SNAPSHOT_V1'' then Some None
          else
            (case snapshot_lines ls \<lparr>agent_id = [], snapshot_state = [], context_values = [], timestamp = 0\<rparr> of
               None \<Rightarrow> None
             | Some s \<Rightarrow> if agent_id s = [] then Some None else Some (Some s)))"

definition deserialize_snapshot :: "string \<Rightarrow> snapshot option option" where
  "deserialize_snapshot data =
     (if data = [] then Some None
      else
        (case parse_json data of
           Some obj \<Rightarrow> if is_object obj then snapshot_of_json obj else snapshot_of_text data
         | None \<Rightarrow> snapshot_of_text data))"

subsection \<open>Endpoints\<close>

definition endpoint_list :: "region_config list \<Rightarrow> (int \<times> string) list" where
  "endpoint_list regions =
     concat (map (\<lambda>r. map (\<lambda>n. (node_priority n, node_endpoint n))
                        (filter (\<lambda>n. node_endpoint n \<noteq> []) (region_nodes r))) regions)"

definition get_sorted_endpoints :: "region_config list \<Rightarrow> string list" where
  "get_sorted_endpoints regions = map snd (sort_key (\<lambda>e. - fst e) (endpoint_list regions))"

definition checkpoint_request :: "string \<Rightarrow> string \<Rightarrow> string \<Rightarrow> int \<Rightarrow> wire_request" where
  "checkpoint_request method url content timeout =
     (let request = \<lparr>wq_url = url, wq_method = method, wq_headers = [], wq_body = [],
                     wq_timeout_seconds = timeout, wq_cert_path = [], wq_key_path = []\<rparr>
      in if method = ''PUT'' \<or> method = ''POST''
         then request\<lparr>wq_headers := emplace ''Content-Type'' ''application/octet-stream'' [],
                wq_body := content\<rparr>
         else request)"

subsection \<open>Checkpoints\<close>

text \<open>The inner loop: \<open>while (retries_left > 0)\<close>. The result is whether a request succeeded.\<close>

fun retry_put :: "'w dist_env \<Rightarrow> wire_request \<Rightarrow> nat \<Rightarrow> 'w \<Rightarrow> bool \<times> nat \<times> 'w" where
  "retry_put env q 0 w = (False, 0, w)"
| "retry_put env q (Suc n) w =
     (case de_http env q w of
        (r, w') \<Rightarrow> if is_success r then (True, n, w') else retry_put env q n w')"

definition put_request :: "failover_policy \<Rightarrow> string \<Rightarrow> string \<Rightarrow> string \<Rightarrow> wire_request" where
  "put_request pol cid content ep =
     checkpoint_request ''PUT'' (ep @ ''/checkpoints/'' @ cid) content (to_int32 (fo_timeout pol))"

fun put_endpoints ::
  "'w dist_env \<Rightarrow> failover_policy \<Rightarrow> string \<Rightarrow> string \<Rightarrow> nat \<Rightarrow> string list \<Rightarrow> 'w \<Rightarrow> bool \<times> 'w" where
  "put_endpoints env pol cid content n [] w = (False, w)"
| "put_endpoints env pol cid content n (ep # eps) w =
     (let q = put_request pol cid content ep
      in case de_http env q w of
           (r, w1) \<Rightarrow>
             if is_success r then (True, w1)
             else
               (case fo_strategy pol of
                  FailoverRetry \<Rightarrow>
                    (case retry_put env q n w1 of
                       (ok, n', w2) \<Rightarrow>
                         if ok then (True, w2) else put_endpoints env pol cid content n' eps w2)
                | FailoverAbort \<Rightarrow> (False, w1)
                | FailoverReschedule \<Rightarrow> put_endpoints env pol cid content n eps w1))"

text \<open>\<open>operator/\<close> of \<open>std::filesystem::path\<close> (POSIX): an absolute operand replaces the path.\<close>

definition path_join :: "string \<Rightarrow> string \<Rightarrow> string" where
  "path_join dir name =
     (if take 1 name = ''/'' then name
      else if dir = [] \<or> ends_with dir ''/'' then dir @ name else dir @ ''/'' @ name)"

definition checkpoint_directory :: "'w dist_env \<Rightarrow> 'w \<Rightarrow> string \<times> 'w" where
  "checkpoint_directory env w =
     (case de_getenv env ''AHFL_CHECKPOINT_DIR'' w of
        (d, w1) \<Rightarrow>
          (case d of
             Some dir \<Rightarrow> if dir \<noteq> [] then (dir, w1)
               else (case de_temp_directory env w1 of (t, w2) \<Rightarrow> (path_join t ''ahfl_checkpoints'', w2))
           | None \<Rightarrow> (case de_temp_directory env w1 of (t, w2) \<Rightarrow> (path_join t ''ahfl_checkpoints'', w2))))"

definition checkpoint_locally ::
  "'w dist_env \<Rightarrow> string \<Rightarrow> string \<Rightarrow> 'w \<Rightarrow> checkpoint_result \<times> 'w" where
  "checkpoint_locally env cid content w =
     (let result = (\<lambda>st err. \<lparr>checkpoint_id = cid, checkpoint_status = st, checkpoint_error = err\<rparr>)
      in case checkpoint_directory env w of
           (dir, w1) \<Rightarrow>
             (case de_create_directories env dir w1 of
                (Some ec, w2) \<Rightarrow>
                  (result CheckpointFailed (''failed to create checkpoint directory: '' @ ec), w2)
              | (None, w2) \<Rightarrow>
                  (case de_write_file env (path_join dir (cid @ ''.snapshot.tmp'')) content w2 of
                     (False, w3) \<Rightarrow> (result CheckpointFailed ''failed to write checkpoint file'', w3)
                   | (True, w3) \<Rightarrow>
                       (case de_rename env (path_join dir (cid @ ''.snapshot.tmp''))
                               (path_join dir (cid @ ''.snapshot'')) w3 of
                          (Some ec, w4) \<Rightarrow>
                            (result CheckpointFailed (''failed to rename checkpoint file: '' @ ec), w4)
                        | (None, w4) \<Rightarrow> (result CheckpointCreated [], w4)))))"

definition generate_checkpoint_id :: "'w dist_env \<Rightarrow> string \<Rightarrow> 'w \<Rightarrow> string \<times> 'w" where
  "generate_checkpoint_id env agent w =
     (case de_now env w of (t, w') \<Rightarrow> (agent @ ''_'' @ int_to_string (trunc_div t 1000000), w'))"

definition checkpoint ::
  "'w dist_env \<Rightarrow> distributed \<Rightarrow> snapshot \<Rightarrow> 'w \<Rightarrow> (checkpoint_result \<times> 'w) option" where
  "checkpoint env d s w =
     (case generate_checkpoint_id env (agent_id s) w of
        (cid, w1) \<Rightarrow>
          (case serialize_snapshot s of
             None \<Rightarrow> None
           | Some content \<Rightarrow>
               (case put_endpoints env (ds_failover d) cid content (nat (fo_max_retries (ds_failover d)))
                       (get_sorted_endpoints (ds_regions d)) w1 of
                  (True, w2) \<Rightarrow>
                    Some (\<lparr>checkpoint_id = cid, checkpoint_status = CheckpointStored, checkpoint_error = []\<rparr>, w2)
                | (False, w2) \<Rightarrow> Some (checkpoint_locally env cid content w2))))"

fun get_endpoints ::
  "'w dist_env \<Rightarrow> int \<Rightarrow> string \<Rightarrow> string list \<Rightarrow> 'w \<Rightarrow> (snapshot option \<times> 'w) option" where
  "get_endpoints env timeout cid [] w = Some (None, w)"
| "get_endpoints env timeout cid (ep # eps) w =
     (case de_http env (checkpoint_request ''GET'' (ep @ ''/checkpoints/'' @ cid) [] timeout) w of
        (r, w1) \<Rightarrow>
          if is_success r \<and> wr_body r \<noteq> []
          then (case deserialize_snapshot (wr_body r) of
                  None \<Rightarrow> None
                | Some (Some s) \<Rightarrow> Some (Some s, w1)
                | Some None \<Rightarrow> get_endpoints env timeout cid eps w1)
          else get_endpoints env timeout cid eps w1)"

text \<open>The files of the directory, the first readable one whose name fits deciding.\<close>

fun restore_by_prefix ::
  "'w dist_env \<Rightarrow> string \<Rightarrow> string \<Rightarrow> string list \<Rightarrow> 'w \<Rightarrow> (snapshot option \<times> 'w) option" where
  "restore_by_prefix env dir cid [] w = Some (None, w)"
| "restore_by_prefix env dir cid (f # fs) w =
     (if take (length cid) f = cid \<and> ends_with f ''.snapshot''
      then (case de_read_file env (path_join dir f) w of
              (Some content, w1) \<Rightarrow>
                (case deserialize_snapshot content of None \<Rightarrow> None | Some r \<Rightarrow> Some (r, w1))
            | (None, w1) \<Rightarrow> restore_by_prefix env dir cid fs w1)
      else restore_by_prefix env dir cid fs w)"

definition restore_listed :: "'w dist_env \<Rightarrow> string \<Rightarrow> string \<Rightarrow> 'w \<Rightarrow> (snapshot option \<times> 'w) option" where
  "restore_listed env dir cid w =
     (case de_exists env dir w of
        (False, w1) \<Rightarrow> Some (None, w1)
      | (True, w1) \<Rightarrow>
          (case de_list env dir w1 of (fs, w2) \<Rightarrow> restore_by_prefix env dir cid fs w2))"

definition restore_locally :: "'w dist_env \<Rightarrow> string \<Rightarrow> 'w \<Rightarrow> (snapshot option \<times> 'w) option" where
  "restore_locally env cid w =
     (case checkpoint_directory env w of
        (dir, w1) \<Rightarrow>
          (case de_exists env (path_join dir (cid @ ''.snapshot'')) w1 of
             (False, w2) \<Rightarrow> restore_listed env dir cid w2
           | (True, w2) \<Rightarrow>
               (case de_read_file env (path_join dir (cid @ ''.snapshot'')) w2 of
                  (Some content, w3) \<Rightarrow>
                    (case deserialize_snapshot content of None \<Rightarrow> None | Some r \<Rightarrow> Some (r, w3))
                | (None, w3) \<Rightarrow> restore_listed env dir cid w3)))"

definition restore ::
  "'w dist_env \<Rightarrow> distributed \<Rightarrow> string \<Rightarrow> 'w \<Rightarrow> (snapshot option \<times> 'w) option" where
  "restore env d cid w =
     (case get_endpoints env (to_int32 (fo_timeout (ds_failover d))) cid
             (get_sorted_endpoints (ds_regions d)) w of
        None \<Rightarrow> None
      | Some (Some s, w1) \<Rightarrow> Some (Some s, w1)
      | Some (None, w1) \<Rightarrow> restore_locally env cid w1)"

subsection \<open>A snapshot survives its text\<close>

lemma insert_or_assign_new: "k \<notin> set (keys_of xs) \<Longrightarrow> insert_or_assign k v xs = xs @ [(k, v)]"
  by (induction xs) auto

lemma fold_json_set:
  "distinct (keys_of fs @ keys_of xs) \<Longrightarrow>
    fold (\<lambda>(k, v). json_set k (Some (make_string v))) xs (JObject sp fs) =
      JObject sp (fs @ map (\<lambda>(k, v). (k, Some (JString (0, 0) v))) xs)"
proof (induction xs arbitrary: fs)
  case (Cons x xs)
  obtain k v where "x = (k, v)" by (cases x)
  with Cons show ?case
    by (auto simp: json_set_def make_string_def insert_or_assign_new keys_of_def)
qed simp

definition snapshot_ok :: "snapshot \<Rightarrow> bool" where
  "snapshot_ok s \<longleftrightarrow>
     agent_id s \<noteq> [] \<and> distinct (keys_of (context_values s)) \<and>
     list_all printable_key (keys_of (context_values s)) \<and> in_int64 (timestamp s)"

text \<open>What is read back: the context in order, the time in milliseconds.\<close>

definition snapshot_image :: "snapshot \<Rightarrow> snapshot" where
  "snapshot_image s =
     s\<lparr>context_values := sort_key fst (context_values s),
       timestamp := trunc_div (timestamp s) 1000000 * 1000000\<rparr>"

definition context_json :: "(string \<times> string) list \<Rightarrow> json" where
  "context_json ctx = JObject (0, 0) (map (\<lambda>(k, v). (k, Some (JString (0, 0) v))) (sort_key fst ctx))"

lemma distinct_sorted_context: "distinct (keys_of ctx) \<Longrightarrow> distinct (keys_of (sort_key fst ctx))"
  by (simp add: keys_of_def distinct_map)

lemma snapshot_json_eq:
  assumes "distinct (keys_of (context_values s))"
  shows "snapshot_json s =
    JObject (0, 0)
      [(''format'', Some (JString (0, 0) ''AHFL_SNAPSHOT_V2'')), (''agent_id'', Some (JString (0, 0) (agent_id s))),
       (''current_state'', Some (JString (0, 0) (snapshot_state s))),
       (''timestamp_ms'', Some (JInt (0, 0) (trunc_div (timestamp s) 1000000))),
       (''context'', Some (context_json (context_values s)))]"
  using fold_json_set [of "[]" "sort_key fst (context_values s)" "(0, 0)"] distinct_sorted_context [OF assms]
  by (simp add: snapshot_json_def make_object_def context_json_def json_set_def make_string_def make_int_def)

lemma context_printable:
  "list_all printable_key (keys_of xs) \<Longrightarrow> members_printable (map (\<lambda>(k, v). (k, Some (JString sp v))) xs)"
  by (induction xs) (auto split: prod.splits)

lemma keys_of_strings [simp]: "keys_of (map (\<lambda>(k, v). (k, Some (JString sp v))) xs) = keys_of xs"
  by (induction xs) (auto simp: keys_of_def)

lemma reread_strings [simp]:
  "reread_members (map (\<lambda>(k, v). (k, Some (JString (0, 0) v))) xs) = map (\<lambda>(k, v). (k, Some (JString (0, 0) v))) xs"
  by (induction xs) (auto split: prod.splits)

lemma trunc_div_ms:
  assumes "in_int64 t"
  shows "in_int64 (trunc_div t 1000000)" "time_of_ms (trunc_div t 1000000) = Some (trunc_div t 1000000 * 1000000)"
proof -
  have bounds: "\<bar>trunc_div t 1000000\<bar> * 1000000 \<le> \<bar>t\<bar>" "0 \<le> trunc_div t 1000000 * t"
    unfolding trunc_div_def by (auto simp: abs_if sgn_if zero_le_mult_iff)
  have "in_int64 (trunc_div t 1000000) \<and> in_int64 (trunc_div t 1000000 * 1000000)"
    using assms bounds unfolding in_int64_def int64_min_def int64_max_def
    by (auto simp: abs_if zero_le_mult_iff split: if_splits)
  then show "in_int64 (trunc_div t 1000000)"
    "time_of_ms (trunc_div t 1000000) = Some (trunc_div t 1000000 * 1000000)"
    by (simp_all add: time_of_ms_def int64_result_def)
qed

lemma snapshot_json_printable:
  assumes "snapshot_ok s"
  shows "json_printable (snapshot_json s) \<and> reread (snapshot_json s) = snapshot_json s"
proof -
  let ?ctx = "sort_key fst (context_values s)"
  have k: "printable_key ''format'' \<and> printable_key ''agent_id'' \<and> printable_key ''current_state'' \<and>
      printable_key ''timestamp_ms'' \<and> printable_key ''context''"
    by (simp add: printable_key_def)
  from assms have "distinct (keys_of ?ctx)" "list_all printable_key (keys_of ?ctx)"
    using distinct_sorted_context by (auto simp: snapshot_ok_def keys_of_def list_all_iff)
  with assms k trunc_div_ms(1) show ?thesis
    by (simp add: snapshot_ok_def snapshot_json_eq context_json_def context_printable)
qed

text \<open>The reader does not look at offsets.\<close>

lemma as_string_erase [simp]: "as_string (erase_spans v) = as_string v"
  by (cases v) (auto simp: as_string_def)

lemma as_int_erase [simp]: "as_int (erase_spans v) = as_int v"
  by (cases v) (auto simp: as_int_def)

lemma is_object_erase [simp]: "is_object (erase_spans v) = is_object v"
  by (cases v) (auto simp: is_object_def)

lemma object_fields_erase: "object_fields (erase_spans v) = erase_members (object_fields v)"
  by (cases v) (auto simp: object_fields_def)

lemma json_get_erase: "json_get k (erase_spans v) = map_option erase_spans (json_get k v)"
  by (cases v) (auto simp: json_get_def map_of_erase_members split: option.splits)

lemma read_context_erase [simp]: "read_context (erase_members fs) acc = read_context fs acc"
  by (induction fs acc rule: read_context.induct) (auto split: option.splits)

lemma snapshot_of_json_erase: "snapshot_of_json (erase_spans v) = snapshot_of_json v"
  unfolding snapshot_of_json_def format_accepted_def json_get_erase
  by (auto simp: object_fields_erase split: option.splits)

lemma read_context_strings:
  "distinct (keys_of acc @ keys_of xs) \<Longrightarrow>
    read_context (map (\<lambda>(k, v). (k, Some (JString sp v))) xs) acc = Some (acc @ xs)"
proof (induction xs arbitrary: acc)
  case (Cons x xs)
  obtain k v where "x = (k, v)" by (cases x)
  with Cons show ?case by (auto simp: as_string_def insert_or_assign_new keys_of_def)
qed simp

lemma snapshot_of_snapshot_json:
  assumes "snapshot_ok s"
  shows "snapshot_of_json (snapshot_json s) = Some (Some (snapshot_image s))"
proof -
  from assms have d: "distinct (keys_of (context_values s))" and a: "agent_id s \<noteq> []" and t: "in_int64 (timestamp s)"
    by (auto simp: snapshot_ok_def)
  have "read_context (object_fields (context_json (context_values s))) [] = Some (sort_key fst (context_values s))"
    using read_context_strings [of "[]" "sort_key fst (context_values s)"] distinct_sorted_context [OF d]
    by (simp add: context_json_def object_fields_def)
  moreover have "is_object (context_json (context_values s))" by (simp add: is_object_def context_json_def)
  ultimately show ?thesis
    unfolding snapshot_json_eq [OF d] snapshot_image_def using a trunc_div_ms(2) [OF t]
    by (cases s) (simp add: snapshot_of_json_def format_accepted_def json_get_def as_string_def as_int_def)
qed

lemma snapshot_text_roundtrip:
  assumes "snapshot_ok s"
  shows "\<exists>data. serialize_snapshot s = Some data \<and> deserialize_snapshot data = Some (Some (snapshot_image s))"
proof -
  from snapshot_json_printable [OF assms] serialize_then_parse [of "snapshot_json s"] obtain t w where
    t: "serialize_json (snapshot_json s) = Some t" "parse_json t = Some w" "erase_spans w = snapshot_json s"
    by auto
  have "snapshot_of_json w = Some (Some (snapshot_image s))"
    using snapshot_of_json_erase [of w] snapshot_of_snapshot_json [OF assms] t(3) by simp
  moreover have "is_object w"
    using is_object_erase [of w] t(3) assms
    by (simp add: snapshot_json_eq snapshot_ok_def) (simp add: is_object_def)
  moreover have "t \<noteq> []"
  proof -
    have "parse_json [] = None" by code_simp
    with t(2) show ?thesis by auto
  qed
  ultimately show ?thesis using t by (auto simp: serialize_snapshot_def deserialize_snapshot_def)
qed

subsection \<open>Endpoints are tried by priority, and boundedly often\<close>

lemma sorted_endpoints_priority:
  "sorted_wrt (\<lambda>a b. fst b \<le> fst a) (sort_key (\<lambda>e. - fst e) (endpoint_list regions))"
  using sorted_sort_key [of "\<lambda>e. - fst e" "endpoint_list regions"]
  by (simp add: sorted_map)

lemma sorted_endpoints_set:
  "set (get_sorted_endpoints regions) = snd ` set (endpoint_list regions) \<and>
   length (get_sorted_endpoints regions) = length (endpoint_list regions)"
  by (simp add: get_sorted_endpoints_def)

text \<open>A measure of the world that every request raises by one bounds the requests of a run.\<close>

lemma retry_put_requests:
  assumes "\<And>q w. count (snd (de_http env q w)) = count w + 1"
    and "retry_put env q n w = (ok, n', w')"
  shows "count w' + n' = count w + n \<and> n' \<le> n \<and> (\<not> ok \<longrightarrow> n' = 0)"
  using assms(2)
proof (induction n arbitrary: w)
  case (Suc n)
  obtain r w1 where r: "de_http env q w = (r, w1)" by fastforce
  with assms(1) [of q w] have "count w1 = count w + 1" by simp
  with r Suc show ?case by (cases "is_success r") fastforce+
qed simp

lemma put_endpoints_requests:
  assumes "\<And>q w. count (snd (de_http env q w)) = count w + 1"
    and "put_endpoints env pol cid content n eps w = (ok, w')"
  shows "count w' \<le> count w + length eps + (if fo_strategy pol = FailoverRetry then n else 0)
    \<and> (fo_strategy pol = FailoverAbort \<longrightarrow> count w' \<le> count w + 1)"
  using assms(2)
proof (induction eps arbitrary: n w)
  case (Cons ep eps)
  define q where "q = put_request pol cid content ep"
  obtain r w1 where r: "de_http env q w = (r, w1)" by fastforce
  with assms(1) [of q w] have c: "count w1 = count w + 1" by simp
  obtain ok2 n2 w2 where rp: "retry_put env q n w1 = (ok2, n2, w2)" by (metis prod_cases3)
  note bound = retry_put_requests [OF assms(1) rp]
  show ?case
  proof (cases "is_success r")
    case True
    with Cons.prems r c show ?thesis by (auto simp: q_def [symmetric] Let_def)
  next
    case False
    with Cons.prems r c rp bound Cons.IH [of n w1] Cons.IH [of n2 w2] show ?thesis
      by (cases "fo_strategy pol"; cases ok2) (auto simp: q_def [symmetric] Let_def)
  qed
qed simp

subsection \<open>A checkpoint can be restored\<close>

text \<open>
  What the local fallback relies on: with \<open>files\<close> the files of a world, writing, renaming and
  reading act on them, and nothing else does; no remote node answers.
\<close>

definition local_store :: "'w dist_env \<Rightarrow> ('w \<Rightarrow> string \<Rightarrow> string option) \<Rightarrow> string \<Rightarrow> bool" where
  "local_store env files dir \<longleftrightarrow>
     dir \<noteq> [] \<and>
     (\<forall>w. files (snd (de_now env w)) = files w) \<and>
     (\<forall>q w. \<not> is_success (fst (de_http env q w)) \<and> files (snd (de_http env q w)) = files w) \<and>
     (\<forall>w. fst (de_getenv env ''AHFL_CHECKPOINT_DIR'' w) = Some dir \<and>
          files (snd (de_getenv env ''AHFL_CHECKPOINT_DIR'' w)) = files w) \<and>
     (\<forall>w. fst (de_create_directories env dir w) = None \<and>
          files (snd (de_create_directories env dir w)) = files w) \<and>
     (\<forall>p c w. fst (de_write_file env p c w) \<and> files (snd (de_write_file env p c w)) = (files w)(p \<mapsto> c)) \<and>
     (\<forall>p p' c w. files w p = Some c \<longrightarrow>
        fst (de_rename env p p' w) = None \<and> files (snd (de_rename env p p' w)) = (files w)(p := None, p' \<mapsto> c)) \<and>
     (\<forall>p w. fst (de_exists env p w) = (files w p \<noteq> None) \<and> files (snd (de_exists env p w)) = files w) \<and>
     (\<forall>p w. fst (de_read_file env p w) = files w p)"

lemma local_storeD:
  assumes "local_store env files dir"
  shows "dir \<noteq> []"
    and "de_now env w = (t, w') \<Longrightarrow> files w' = files w"
    and "de_http env q w = (r, w') \<Longrightarrow> \<not> is_success r \<and> files w' = files w"
    and "de_getenv env ''AHFL_CHECKPOINT_DIR'' w = (x, w') \<Longrightarrow> x = Some dir \<and> files w' = files w"
    and "de_create_directories env dir w = (e, w') \<Longrightarrow> e = None \<and> files w' = files w"
    and "de_write_file env p c w = (b, w') \<Longrightarrow> b \<and> files w' = (files w)(p \<mapsto> c)"
    and "de_rename env p p' w = (e, w') \<Longrightarrow> files w p = Some c \<Longrightarrow>
      e = None \<and> files w' = (files w)(p := None, p' \<mapsto> c)"
    and "de_exists env p w = (b, w') \<Longrightarrow> b = (files w p \<noteq> None) \<and> files w' = files w"
    and "de_read_file env p w = (x, w') \<Longrightarrow> x = files w p"
  using assms unfolding local_store_def by (metis fst_conv snd_conv)+

lemma retry_put_down:
  "local_store env files dir \<Longrightarrow> retry_put env q n w = (ok, n', w') \<Longrightarrow> \<not> ok \<and> files w' = files w"
proof (induction n arbitrary: w)
  case (Suc n)
  obtain r w1 where r: "de_http env q w = (r, w1)" by fastforce
  from local_storeD(3) [OF Suc.prems(1) r] r Suc show ?case by fastforce
qed simp

lemma put_endpoints_down:
  "local_store env files dir \<Longrightarrow> put_endpoints env pol cid content n eps w = (ok, w') \<Longrightarrow>
    \<not> ok \<and> files w' = files w"
proof (induction eps arbitrary: n w)
  case (Cons ep eps)
  define q where "q = put_request pol cid content ep"
  obtain r w1 where r: "de_http env q w = (r, w1)" by fastforce
  obtain ok2 n2 w2 where rp: "retry_put env q n w1 = (ok2, n2, w2)" by (metis prod_cases3)
  from Cons local_storeD(3) [OF Cons.prems(1) r] retry_put_down [OF Cons.prems(1) rp] r rp show ?case
    by (cases "fo_strategy pol") (auto simp: q_def [symmetric] Let_def)
qed simp

lemma get_endpoints_down:
  "local_store env files dir \<Longrightarrow> \<exists>w'. get_endpoints env t cid eps w = Some (None, w') \<and> files w' = files w"
proof (induction eps arbitrary: w)
  case (Cons ep eps)
  obtain r w1 where r: "de_http env (checkpoint_request ''GET'' (ep @ ''/checkpoints/'' @ cid) [] t) w = (r, w1)"
    by fastforce
  from local_storeD(3) [OF Cons.prems r] Cons.IH [OF Cons.prems, of w1] r show ?case by auto
qed simp

lemma checkpoint_directory_local:
  assumes "local_store env files dir" "checkpoint_directory env w = (d, w')"
  shows "d = dir \<and> files w' = files w"
proof -
  obtain x w1 where x: "de_getenv env ''AHFL_CHECKPOINT_DIR'' w = (x, w1)" by fastforce
  from assms(2) local_storeD(1) [OF assms(1)] local_storeD(4) [OF assms(1) x] x show ?thesis
    by (auto simp: checkpoint_directory_def)
qed

lemma checkpoint_locally_stores:
  assumes st: "local_store env files dir" and run: "checkpoint_locally env cid content w = (r, w')"
  shows "r = \<lparr>checkpoint_id = cid, checkpoint_status = CheckpointCreated, checkpoint_error = []\<rparr> \<and>
    files w' (path_join dir (cid @ ''.snapshot'')) = Some content"
proof -
  define tmp where "tmp = path_join dir (cid @ ''.snapshot.tmp'')"
  define final where "final = path_join dir (cid @ ''.snapshot'')"
  obtain d w1 where d: "checkpoint_directory env w = (d, w1)" by fastforce
  with checkpoint_directory_local [OF st] have d': "d = dir" by blast
  obtain e w2 where e: "de_create_directories env dir w1 = (e, w2)" by fastforce
  from local_storeD(5) [OF st e] have e': "e = None" by simp
  obtain b w3 where b: "de_write_file env tmp content w2 = (b, w3)" by fastforce
  from local_storeD(6) [OF st b] have b': "b" "files w3 tmp = Some content" by auto
  obtain x w4 where x: "de_rename env tmp final w3 = (x, w4)" by fastforce
  from local_storeD(7) [OF st x b'(2)] have x': "x = None" "files w4 final = Some content" by simp_all
  have "r = \<lparr>checkpoint_id = cid, checkpoint_status = CheckpointCreated, checkpoint_error = []\<rparr> \<and> w' = w4"
    using run d d' e e' b b'(1) x x'(1)
    by (auto simp: checkpoint_locally_def Let_def tmp_def final_def)
  with x'(2) show ?thesis unfolding final_def by simp
qed

lemma restore_locally_reads:
  assumes st: "local_store env files dir" and f: "files w (path_join dir (cid @ ''.snapshot'')) = Some content"
    and "deserialize_snapshot content = Some x"
  shows "\<exists>w'. restore_locally env cid w = Some (x, w')"
proof -
  let ?file = "path_join dir (cid @ ''.snapshot'')"
  obtain d w1 where d: "checkpoint_directory env w = (d, w1)" by fastforce
  with checkpoint_directory_local [OF st] have d': "d = dir" "files w1 = files w" by auto
  obtain b w2 where b: "de_exists env ?file w1 = (b, w2)" by fastforce
  from local_storeD(8) [OF st b] d' f have b': "b" "files w2 ?file = Some content" by auto
  obtain y w3 where y: "de_read_file env ?file w2 = (y, w3)" by fastforce
  from local_storeD(9) [OF st y] b' have "y = Some content" by simp
  with d d' b b' y assms(3) show ?thesis by (simp add: restore_locally_def)
qed

lemma checkpoint_restores:
  assumes st: "local_store env files dir" and s: "snapshot_ok s"
  shows "\<exists>r w1 w2. checkpoint env d s w = Some (r, w1) \<and> checkpoint_status r = CheckpointCreated \<and>
    restore env d (checkpoint_id r) w1 = Some (Some (snapshot_image s), w2)"
proof -
  from snapshot_text_roundtrip [OF s] obtain content where
    c: "serialize_snapshot s = Some content" "deserialize_snapshot content = Some (Some (snapshot_image s))"
    by blast
  obtain cid w0 where i: "generate_checkpoint_id env (agent_id s) w = (cid, w0)" by fastforce
  obtain ok wp where p: "put_endpoints env (ds_failover d) cid content (nat (fo_max_retries (ds_failover d)))
      (get_sorted_endpoints (ds_regions d)) w0 = (ok, wp)" by fastforce
  obtain r w1 where l: "checkpoint_locally env cid content wp = (r, w1)" by fastforce
  note r = checkpoint_locally_stores [OF st l]
  from get_endpoints_down [OF st] obtain w' where
    g: "get_endpoints env (to_int32 (fo_timeout (ds_failover d))) cid (get_sorted_endpoints (ds_regions d)) w1 =
        Some (None, w')" "files w' = files w1" by blast
  from restore_locally_reads [OF st _ c(2), of w' cid] r g(2) obtain w2 where
    "restore_locally env cid w' = Some (Some (snapshot_image s), w2)" by auto
  with put_endpoints_down [OF st p] i c(1) p l r g(1) show ?thesis
    by (auto simp: checkpoint_def restore_def)
qed

end
