(* ===== verification/Sandbox.thy ===== *)
theory Sandbox
  imports Prelude
begin

section \<open>The sandbox and the data pipeline\<close>

text \<open>
  \<open>src/runtime/engine/sandbox.{hpp,cpp}\<close>: the decisions whether an operation is allowed, and the
  installation of the process limits (the Linux branch of \<open>enforce\<close>).
  \<open>std::filesystem::weakly_canonical\<close> and \<open>setrlimit\<close> are parameters; \<^const>\<open>None\<close> of the
  first is an error. \<open>src/runtime/engine/data_pipeline.{hpp,cpp}\<close>: the values that nodes publish,
  every operation under one lock.
\<close>

subsection \<open>The sandbox\<close>

record resource_quota =
  max_memory_bytes :: nat
  max_threads :: nat
  max_cpu_time :: int

record network_policy =
  allow_network :: bool
  allowed_hosts :: "string list"
  allowed_ports :: "nat list"

record fs_isolation =
  allow_filesystem :: bool
  read_paths :: "string list"
  write_paths :: "string list"

record sandbox_config =
  sb_resources :: resource_quota
  sb_network :: network_policy
  sb_filesystem :: fs_isolation

type_synonym canonical = "string \<Rightarrow> string option"

definition canonicalize_path :: "canonical \<Rightarrow> string \<Rightarrow> string" where
  "canonicalize_path canon path = (case canon path of None \<Rightarrow> path | Some p \<Rightarrow> p)"

definition host_allowed :: "network_policy \<Rightarrow> string \<Rightarrow> bool" where
  "host_allowed net host =
     (if allowed_hosts net \<noteq> [] then list_ex (\<lambda>a. a = host \<or> a = ''*'') (allowed_hosts net) else True)"

definition port_allowed :: "network_policy \<Rightarrow> nat \<Rightarrow> bool" where
  "port_allowed net port =
     (if allowed_ports net \<noteq> [] then list_ex (\<lambda>a. a = port) (allowed_ports net) else True)"

definition check_network_access :: "sandbox_config \<Rightarrow> string \<Rightarrow> nat \<Rightarrow> bool" where
  "check_network_access cfg host port =
     (if \<not> allow_network (sb_network cfg) then False
      else if \<not> host_allowed (sb_network cfg) host then False
      else if \<not> port_allowed (sb_network cfg) port then False
      else True)"

fun path_matches :: "canonical \<Rightarrow> string \<Rightarrow> string list \<Rightarrow> bool" where
  "path_matches canon path [] = False"
| "path_matches canon path (p # ps) =
     (if prefix (canonicalize_path canon p) path then True else path_matches canon path ps)"

definition check_fs_read :: "canonical \<Rightarrow> sandbox_config \<Rightarrow> string \<Rightarrow> bool" where
  "check_fs_read canon cfg path =
     (if \<not> allow_filesystem (sb_filesystem cfg) then False
      else path_matches canon (canonicalize_path canon path) (read_paths (sb_filesystem cfg)))"

definition check_fs_write :: "canonical \<Rightarrow> sandbox_config \<Rightarrow> string \<Rightarrow> bool" where
  "check_fs_write canon cfg path =
     (if \<not> allow_filesystem (sb_filesystem cfg) then False
      else path_matches canon (canonicalize_path canon path) (write_paths (sb_filesystem cfg)))"

definition check_memory :: "sandbox_config \<Rightarrow> nat \<Rightarrow> bool" where
  "check_memory cfg bytes \<longleftrightarrow> bytes \<le> max_memory_bytes (sb_resources cfg)"

definition check_thread_count :: "sandbox_config \<Rightarrow> nat \<Rightarrow> bool" where
  "check_thread_count cfg n \<longleftrightarrow> n \<le> max_threads (sb_resources cfg)"

datatype rlimit_resource = RLIMIT_AS | RLIMIT_CPU | RLIMIT_NPROC

type_synonym 'w setrlimit = "rlimit_resource \<Rightarrow> nat \<Rightarrow> 'w \<Rightarrow> string option \<times> 'w"

text \<open>\<open>static_cast<rlim_t>\<close> of the seconds: unsigned, 64 bits.\<close>

definition to_rlim :: "int \<Rightarrow> nat" where
  "to_rlim i = nat (i mod 2 ^ 64)"

definition enforce_nproc :: "'w setrlimit \<Rightarrow> sandbox_config \<Rightarrow> 'w \<Rightarrow> (bool \<times> string) \<times> 'w" where
  "enforce_nproc setrlim cfg w =
     (case setrlim RLIMIT_NPROC (max_threads (sb_resources cfg)) w of
        (Some err, w1) \<Rightarrow> ((False, ''failed to set RLIMIT_NPROC: '' @ err), w1)
      | (None, w1) \<Rightarrow> ((True, []), w1))"

definition enforce :: "'w setrlimit \<Rightarrow> sandbox_config \<Rightarrow> 'w \<Rightarrow> (bool \<times> string) \<times> 'w" where
  "enforce setrlim cfg w =
     (case setrlim RLIMIT_AS (max_memory_bytes (sb_resources cfg)) w of
        (Some err, w1) \<Rightarrow> ((False, ''failed to set RLIMIT_AS: '' @ err), w1)
      | (None, w1) \<Rightarrow>
          (let cpu_seconds = to_rlim (max_cpu_time (sb_resources cfg))
           in if 0 < cpu_seconds
              then (case setrlim RLIMIT_CPU cpu_seconds w1 of
                      (Some err, w2) \<Rightarrow> ((False, ''failed to set RLIMIT_CPU: '' @ err), w2)
                    | (None, w2) \<Rightarrow> enforce_nproc setrlim cfg w2)
              else enforce_nproc setrlim cfg w1))"

subsection \<open>What the sandbox decides\<close>

text \<open>
  The intended meaning of an allowed path: the path itself or something below it. The code
  compares texts: it allows every path inside an allowed one, and nothing that does not share
  its text, but a sibling whose name continues an allowed name passes too.
\<close>

definition inside :: "string \<Rightarrow> string \<Rightarrow> bool" where
  "inside dir path \<longleftrightarrow> path = dir \<or> prefix (dir @ ''/'') path"

lemma path_matches_iff:
  "path_matches canon path ps \<longleftrightarrow> (\<exists>p \<in> set ps. prefix (canonicalize_path canon p) path)"
  by (induction ps) auto

lemma path_matches_inside:
  assumes "p \<in> set ps" "inside (canonicalize_path canon p) path"
  shows "path_matches canon path ps"
  using assms by (auto simp: path_matches_iff inside_def prefix_def)

lemma path_matches_outside:
  assumes "path_matches canon path ps" "\<forall>p \<in> set ps. \<not> inside (canonicalize_path canon p) path"
  shows "\<exists>p \<in> set ps. \<exists>c rest. path = canonicalize_path canon p @ c # rest \<and> c \<noteq> CHR ''/''"
proof -
  from assms(1) obtain p rest where p: "p \<in> set ps" "path = canonicalize_path canon p @ rest"
    by (auto simp: path_matches_iff prefix_def)
  with assms(2) show ?thesis by (cases rest) (auto simp: inside_def prefix_def)
qed

lemma network_decision:
  "check_network_access cfg host port \<longleftrightarrow>
    allow_network (sb_network cfg) \<and>
    (allowed_hosts (sb_network cfg) = [] \<or> host \<in> set (allowed_hosts (sb_network cfg)) \<or>
     ''*'' \<in> set (allowed_hosts (sb_network cfg))) \<and>
    (allowed_ports (sb_network cfg) = [] \<or> port \<in> set (allowed_ports (sb_network cfg)))"
  by (auto simp: check_network_access_def host_allowed_def port_allowed_def list_ex_iff)

text \<open>\<open>enforce\<close> reports success only when every limit that applies was installed, in order.\<close>

lemma enforce_success:
  assumes "enforce (\<lambda>r n log. (fail r, if fail r = None then log @ [(r, n)] else log)) cfg [] = ((True, msg), log)"
  shows "log = [(RLIMIT_AS, max_memory_bytes (sb_resources cfg))] @
    (if to_rlim (max_cpu_time (sb_resources cfg)) = 0 then []
     else [(RLIMIT_CPU, to_rlim (max_cpu_time (sb_resources cfg)))]) @
    [(RLIMIT_NPROC, max_threads (sb_resources cfg))]"
  using assms by (auto simp: enforce_def enforce_nproc_def Let_def split: option.splits if_splits)

subsection \<open>The data pipeline\<close>

type_synonym data_pipeline = "(string \<times> string) list"

definition publish :: "string \<Rightarrow> string \<Rightarrow> data_pipeline \<Rightarrow> data_pipeline" where
  "publish node v vs = insert_or_assign node v vs"

definition consume_value :: "string \<Rightarrow> data_pipeline \<Rightarrow> string option" where
  "consume_value node vs = map_of vs node"

definition has_value :: "string \<Rightarrow> data_pipeline \<Rightarrow> bool" where
  "has_value node vs \<longleftrightarrow> map_of vs node \<noteq> None"

definition clear_pipeline :: "data_pipeline \<Rightarrow> data_pipeline" where
  "clear_pipeline vs = []"

definition pipeline_size :: "data_pipeline \<Rightarrow> nat" where
  "pipeline_size vs = length vs"

lemma consume_published:
  "consume_value n (publish m v vs) = (if n = m then Some v else consume_value n vs)"
  "has_value n (publish m v vs) \<longleftrightarrow> n = m \<or> has_value n vs"
  by (auto simp: consume_value_def publish_def has_value_def)

lemma publish_size:
  "distinct (keys_of vs) \<Longrightarrow>
    pipeline_size (publish m v vs) = pipeline_size vs + (if has_value m vs then 0 else 1)"
  by (induction vs) (auto simp: pipeline_size_def publish_def has_value_def)

end
