(* ===== verification/Demo_Wire.thy ===== *)
theory Demo_Wire
  imports Distributed Sandbox
begin

section \<open>Concrete inputs for the wire and the checkpoints\<close>

text \<open>
  Environments on which the witnesses evaluate the definitions: a curl that always answers with
  one value, and a world whose only content is its files. Nothing here models code.
\<close>

definition demo_value :: val where
  "demo_value = StructValue ''Reply'' [(''count'', Some (IntValue 7)), (''text'', Some (StringValue ''ok''))]"

definition demo_os :: "unit curl_os" where
  "demo_os =
     \<lparr>temp_write = \<lambda>pfx content w. ((''/tmp/body'', None), w),
      temp_create = \<lambda>pfx w. ((''/tmp/headers'', None), w),
      temp_remove = \<lambda>p w. w,
      launch_process = \<lambda>cfg w.
        (\<lparr>pr_exit_code = 0, pr_stdout = value_to_json demo_value @ newline # nat_to_string 200,
          pr_stderr = [], pr_timed_out = False\<rparr>, w),
      read_file = \<lambda>p w. (None, w),
      after_overflow = \<lambda>q w. (default_http_response, w)\<rparr>"

definition demo_clock :: "unit env" where
  "demo_clock = \<lparr>now = \<lambda>w. (0, w), sleep_for = \<lambda>d w. w\<rparr>"

definition demo_reply_type :: type_ref where
  "demo_reply_type = TypeRef TyStruct ''Reply'' ''Reply'' [] None None None None"

definition demo_reply_decl :: struct_decl where
  "demo_reply_decl =
     \<lparr>decl_name = ''Reply'',
      decl_symbol = \<lparr>sym_kind = SymType, canonical_name = ''Reply'', local_name = ''Reply'', sym_module = [], sym_id = None\<rparr>,
      struct_fields =
        [\<lparr>field_name = ''count'', field_default = None, field_type = TypeRef TyInt ''Int'' [] [] None None None None\<rparr>,
         \<lparr>field_name = ''text'', field_default = None, field_type = TypeRef TyString ''String'' [] [] None None None None\<rparr>]\<rparr>"

definition demo_http_config :: http_capability_config where
  "demo_http_config =
     \<lparr>hc_url = ''https://api.example/v1'', hc_method = ''POST'', hc_headers = [], hc_response_format = FormatJson,
      hc_retry = default_retry, hc_deadline = 30000, hc_circuit_breaker = default_circuit_breaker,
      hc_auth = None, hc_secret_manager = None, hc_response_schema = Some demo_reply_type\<rparr>"

definition demo_grpc_config :: grpc_capability_config where
  "demo_grpc_config =
     \<lparr>gc_endpoint = ''https://api.example:443'', gc_service = ''Svc'', gc_method = ''Get'',
      gc_response_format = FormatJson, gc_retry = default_retry, gc_deadline = 30000,
      gc_circuit_breaker = default_circuit_breaker, gc_auth = None, gc_secret_manager = None,
      gc_response_schema = None\<rparr>"

definition demo_manager :: "unit secret_manager" where
  "demo_manager = \<lparr>sm_provider = env_provider (\<lambda>k. Some ''s3cret''), sm_clock = \<lambda>w. (0, w), sm_log = []\<rparr>"

definition demo_auth :: auth_config where
  "demo_auth = \<lparr>scheme = BearerToken, token_key = ''API_TOKEN'', client_id_key = [], cert_path_key = [],
     key_path_key = [], token_url = []\<rparr>"

definition demo_wire_state :: "unit wire_state" where
  "demo_wire_state = \<lparr>ws_pool = new_pool default_pool_config, ws_managers = \<lambda>_. demo_manager, ws_world = ()\<rparr>"

definition demo_grpc_response :: grpc_response where
  "demo_grpc_response = \<lparr>gr_status_code = GrpcOk, gr_body = ''7'', gr_error_message = [],
     gr_response_metadata = [], gr_trailers = [(''Grpc-Status'', ''0'')]\<rparr>"

subsection \<open>A world of files\<close>

definition demo_store :: "(string \<Rightarrow> string option) dist_env" where
  "demo_store =
     \<lparr>de_http = \<lambda>q w. (\<lparr>wr_status_code = 0, wr_body = [], wr_error = ''unreachable''\<rparr>, w),
      de_now = \<lambda>w. (1700000000123456789, w),
      de_getenv = \<lambda>n w. (Some ''/var/ahfl'', w),
      de_temp_directory = \<lambda>w. (''/tmp'', w),
      de_create_directories = \<lambda>d w. (None, w),
      de_write_file = \<lambda>p c w. (True, w(p \<mapsto> c)),
      de_rename = \<lambda>p p' w. (case w p of None \<Rightarrow> (Some ''no such file'', w) | Some c \<Rightarrow> (None, w(p := None, p' \<mapsto> c))),
      de_exists = \<lambda>p w. (w p \<noteq> None, w),
      de_read_file = \<lambda>p w. (w p, w),
      de_list = \<lambda>d w. ([], w)\<rparr>"

definition demo_snapshot :: snapshot where
  "demo_snapshot = \<lparr>agent_id = ''agent'', snapshot_state = ''Done'',
     context_values = [(''b'', ''2''), (''a'', ''1'')], timestamp = 1700000000123456789\<rparr>"

text \<open>A transport that counts the requests and always fails.\<close>

definition demo_counting :: "nat dist_env" where
  "demo_counting =
     \<lparr>de_http = \<lambda>q w. (\<lparr>wr_status_code = 503, wr_body = [], wr_error = []\<rparr>, w + 1),
      de_now = \<lambda>w. (0, w), de_getenv = \<lambda>n w. (None, w), de_temp_directory = \<lambda>w. (''/tmp'', w),
      de_create_directories = \<lambda>d w. (None, w), de_write_file = \<lambda>p c w. (True, w),
      de_rename = \<lambda>p p' w. (None, w), de_exists = \<lambda>p w. (False, w), de_read_file = \<lambda>p w. (None, w),
      de_list = \<lambda>d w. ([], w)\<rparr>"

lemma demo_store_ok: "local_store demo_store (\<lambda>w. w) ''/var/ahfl''"
  by (auto simp: local_store_def demo_store_def is_success_def)

end
