(* ===== verification/Spec2Isabelle.thy ===== *)
theory Spec2Isabelle
  imports Demo_Opt Demo_Types Demo_Passes Demo_Components Demo_Wire "HOL-Library.Multiset" "HOL-Library.Countable"
begin

text \<open>
  AHFL compiles a typed language of agents (state machines whose handlers call capabilities),
  contracts and workflows (graphs of agents) into an IR and can execute the IR. This development
  models the IR, its analyses and the execution path, and proves what they promise.

  The parts and the theories that model them, in the order they build on each other:

    \<^item> \<open>Prelude\<close>: association lists with the semantics of \<open>unordered_map\<close>, 64-bit bounds, C++
      division, the scanning functions \<open>stoll\<close> and \<open>from_chars\<close>, decimal printing. \<open>Cxx_Double\<close>:
      IEEE binary64 with round-to-nearest-even, \<open>fmod\<close> and \<open>stod\<close>.
    \<^item> \<open>Diagnostics\<close>: \<open>DiagnosticBag\<close> of \<open>include/ahfl/base/support/diagnostics.hpp\<close>.
    \<^item> \<open>IR\<close>: the datatypes of \<open>include/ahfl/compiler/ir/{types,expr,decl}.hpp\<close> (a reference that may
      be null is an option), with induction over subexpressions and nested blocks.
    \<^item> \<open>Values\<close>, \<open>Eval_Context\<close>, \<open>Evaluator\<close>, \<open>Executor\<close>: \<open>src/runtime/evaluator/\<close>. The world of
      the capabilities is passed explicitly; \<^const>\<open>None\<close> is undefined behaviour of C++ (signed
      overflow), an evaluation error is a result with an error in its bag.
    \<^item> \<open>Capability\<close>: \<open>src/runtime/engine/capability_bridge.{hpp,cpp}\<close> and \<open>capability_eval.cpp\<close>: the
      circuit breaker, the registry, retries with backoff, evaluation with calls.
    \<^item> \<open>Program_Index\<close>: \<open>src/compiler/ir/program_view.cpp\<close>: lookups and the topological order.
    \<^item> \<open>Agent_Runtime\<close>, \<open>Workflow_Runtime\<close>: the two runtimes of \<open>src/runtime/engine/\<close>.
    \<^item> \<open>Analysis\<close>: \<open>src/compiler/ir/analysis.cpp\<close> and the observation collector of \<open>ir_lower.cpp\<close>.
    \<^item> \<open>Double_Rounding\<close>, \<open>Double_Text\<close>: printing and reading of doubles by the C++ library.
      \<open>Json\<close>, \<open>Json_Grammar\<close>, \<open>Json_Parser\<close>, \<open>Json_Roundtrip\<close>: \<open>src/base/json/\<close>, its grammar as an
      inductive relation, and the proof that the parser decides it. \<open>Value_Json\<close>:
      \<open>src/runtime/evaluator/value_json.cpp\<close>.
    \<^item> \<open>Schema\<close>, \<open>Connection_Pool\<close>, \<open>Secrets\<close>, \<open>Curl\<close>, \<open>Wire\<close>: the remote capabilities, from
      \<open>wire_capability.cpp\<close> through the response validator, the pool, the secret providers and the
      transports down to the configuration text and the output of the curl program.
    \<^item> \<open>Distributed\<close>, \<open>Sandbox\<close>: snapshots, checkpoints and failover; the sandbox and the data
      pipeline. \<open>Demo_Wire\<close>: environments for the witnesses.
    \<^item> \<open>Type_Context\<close>, \<open>Type_Relations\<close>, \<open>Subtyping\<close>, \<open>Relation_Solver\<close>:
      \<open>src/compiler/semantics/types.cpp\<close> and \<open>type_relations.cpp\<close>: the interned types, the memoized
      solver for equivalence and subtyping, the two judgements it decides. \<open>Demo_Types\<close>: a context.
    \<^item> \<open>Opt_Passes\<close>, \<open>Opt_Verify\<close>: \<open>opt_ir.hpp\<close>, \<open>opt_passes.cpp\<close> and \<open>opt_verify.cpp\<close> of
      \<open>src/compiler/ir/opt/\<close>, functions of basic blocks. \<open>Opt_Semantics\<close>, \<open>Opt_Correct\<close>,
      \<open>Opt_Normal\<close>: their runs, and what the optimizer keeps and leaves. \<open>Demo_Opt\<close>: two functions.
    \<^item> \<open>Demo_Program\<close>: a concrete program on which the witnesses evaluate the definitions.
    \<^item> \<open>Graph_Search\<close>, \<open>Passes\<close>, \<open>Pass_Soundness\<close>, \<open>Pass_Manager\<close>, \<open>Pass_Fixpoint\<close>:
      \<open>src/compiler/passes/\<close>, the optimization passes over the IR and their manager.
      \<open>Demo_Passes\<close>: a program with something for every pass.
    \<^item> \<open>Parallel_Scheduler\<close>, \<open>Scheduler_Safety\<close>: \<open>src/runtime/engine/parallel_scheduler.{hpp,cpp}\<close>,
      the worker threads as a step relation (\<open>Step_System\<close>: systems that come to an end).
      \<open>Demo_Components\<close>: concrete inputs for these.


  Interfaces are locales: \<open>scope\<close> (what a lookup gives after a store, interpreted on the four scopes
  of a context) and \<open>call_provider\<close> (what the evaluator relies on in a capability call, interpreted
  on the registry and on the invoker made from it).
  \<open>reachability\<close> is what the passes rely on in a search (interpreted on the breadth-first and the
  depth-first one), \<open>pass_pipeline\<close> is the contract of a pass (interpreted on the relation "runs
  alike"). \<open>terminating_system\<close> is what makes a step relation come to an end (interpreted on the
  worker threads of the scheduler). \<open>leased_exchange\<close> is what a lease relies on in the call it
  covers (interpreted on the HTTP and the gRPC exchange). \<open>hash_cons\<close> is
  what a store with one address per key promises (interpreted on the type context).
  \<open>function_pass\<close> is what the loop of the optimizer relies on in a pass (interpreted on the three
  passes and on a round of them).


  What the lemmas show: well-formedness is preserved by evaluation, execution, invocation and both
  runtimes, for any invariant of the capability world; errors are reported in the diagnostics and
  agree with the statuses; agents follow declared transitions, end, and stay within their quotas;
  workflows respect their dependencies; the summaries of handlers over-approximate their
  executions.
  Optimized programs run as the original ones, by a simulation between agents, workflows and
  programs; the passes reach their fixed point in one run and keep the analyses accurate.
  The worker threads of the scheduler keep the order of the dependencies, lose no node, and join.
  The JSON parser decides its grammar, texts and values survive printing and reading, a remote call
  gives only values the validator accepts and returns its connection, a checkpoint can be restored.
  The validator accepts every value of a type of the language (\<open>has_type\<close>), and no others for the
  types it checks in full (\<open>exactly_checked\<close>). The configuration text of curl cannot be extended by
  the content of a request; what the curl program makes of it is not modelled.
  Types are interned canonically, and the solver decides equivalence and subtyping, which is a
  partial order.
  The optimizer of the basic block IR ends exactly on acyclic copies and then keeps every result;
  its verifier accepts exactly the well-formed functions.


  Bounds: the agent loop is a total function, its measure is the number of visits left (100 per
  state reached by a transition); the loop over ready nodes terminates because every iteration
  processes a new node or shortens the queue. The relation solver recurses on the levels its own
  depth guard leaves (256 by default), and the theorems say what holds beyond. Only the JSON parser carries fuel, three units per
  character and three more; \<open>parse_json_iff\<close> shows that every document is parsed with it. Wrap-around of \<open>size_t\<close> is written
  out where a value of the program can reach it (\<open>max_retries + 1\<close>, \<open>val * 1000\<close>, the failures of a breaker).
  The order of an \<open>unordered_map\<close> that a loop depends on is arbitrary in the model of the scheduler
  (\<open>seeds\<close>). What follows the overflow of the timeout of curl is a parameter (\<open>after_overflow\<close>).

  Not modelled: the parser and the construction of the syntax tree, name resolution and the
  traversals of the type checker, lowering from the typed tree and from the IR to basic blocks, text and JSON output, the SMV backend and the driver of
  the external model checker, the pipeline of review artifacts, LLM and cloud secret providers,
  command line, editor and debugger tools (input and output, generated code, or libraries). The
  operating system (processes, files, clocks, limits) is a parameter of the definitions. Of the modelled files: printing of values, display names, source ranges, state
  policies (the runtime never reads them), the mutex of the circuit breaker.
\<close>

section \<open>Workflows\<close>

text \<open>
  C1: a workflow whose nodes have distinct names and whose dependencies are declared and
  acyclic runs every node once, and never before the nodes it comes after.
\<close>

theorem workflow_execution_order:
  assumes "run_workflow env ds cfg wfn input_value s = Some (res, s')"
    and "find_workflow (rebuild ds) wfn = Some w" "nodes w \<noteq> []"
    and "distinct (map node_name (nodes w))" "deps_declared (nodes w)" "acyclic (depends (nodes w))"
    and "config_ok I cfg" "env_ok I env" "value_ok input_value" "I s"
  shows "mset (execution_order res) = mset (map node_name (nodes w)) \<and>
    (\<forall>i < length (execution_order res). \<forall>n \<in> set (nodes w).
      node_name n = execution_order res ! i \<longrightarrow> set (after n) \<subseteq> set (take i (execution_order res)))"
proof -
  have w: "\<not> has_unresolved_or_cyclic_dependencies w"
    using assms(4-6) by (simp add: has_unresolved_or_cyclic_iff)
  have ord: "execution_order res = map node_name (topological_order w)"
    by (rule run_workflow_cases [OF assms(1-3) w assms(7-10)]) (simp add: workflow_inv_def)
  note topo = topological_order_props [OF assms(4)]
  have set: "set (topological_order w) = set (nodes w)"
    using topo(2) resolvable_iff [OF assms(4)] assms(5,6) by (auto elim: resolvable.cases)
  have all: "mset (execution_order res) = mset (map node_name (nodes w))"
    unfolding ord using topo(1) assms(4) set
    by (intro iffD1 [OF set_eq_iff_mset_eq_distinct]) simp_all
  have "set (after n) \<subseteq> set (take i (execution_order res))"
    if "i < length (execution_order res)" "n \<in> set (nodes w)" "node_name n = execution_order res ! i" for i n
  proof -
    have i: "topological_order w ! i \<in> set (nodes w)" "node_name (topological_order w ! i) = node_name n"
      using that(1,3) ord set nth_mem [of i "topological_order w"] by simp_all
    have "n = topological_order w ! i"
      using inj_onD [of node_name "set (nodes w)", OF _ i(2) i(1) that(2)] assms(4) by (simp add: distinct_map)
    then show ?thesis using topo(3) [of i] that(1) ord by (simp add: take_map)
  qed
  with all show ?thesis by blast
qed

theorem workflow_execution_order_witness:
  "mset (execution_order demo_result) = {#''n1'', ''n2''#} \<and>
   set (after (demo_node ''n2'' (demo_path RootIdentifier ''n1'' []) [''n1''])) \<subseteq>
     set (take 1 (execution_order demo_result))"
proof -
  have g: "deps_declared (nodes demo_workflow) \<and> acyclic (depends (nodes demo_workflow))"
    using demo_graph by (simp add: has_unresolved_or_cyclic_iff)
  have "mset (execution_order demo_result) = mset (map node_name (nodes demo_workflow)) \<and>
    (\<forall>i < length (execution_order demo_result). \<forall>n \<in> set (nodes demo_workflow).
      node_name n = execution_order demo_result ! i \<longrightarrow> set (after n) \<subseteq> set (take i (execution_order demo_result)))"
    using g by (intro workflow_execution_order [OF demo_run_value demo_find demo_graph(1,2) _ _
      demo_config_ok demo_env_ok demo_input_ok TrueI]) auto
  then show ?thesis by (auto simp: demo_workflow_def demo_node_def demo_result_def)
qed

text \<open>
  C2: failures propagate along dependencies: a node that completed has only completed
  dependencies, an output belongs to a completed node, and the workflow reports completion only
  when every node completed.
\<close>

theorem workflow_failure_propagation:
  assumes "run_workflow env ds cfg wfn input_value s = Some (res, s')"
    and "find_workflow (rebuild ds) wfn = Some w" "nodes w \<noteq> []"
    and "\<not> has_unresolved_or_cyclic_dependencies w"
    and "config_ok I cfg" "env_ok I env" "value_ok input_value" "I s"
  shows "(\<forall>i < length (node_results res). \<forall>j < i.
      nr_status (node_results res ! i) = AgentCompleted \<and>
      node_name (topological_order w ! j) \<in> set (after (topological_order w ! i)) \<longrightarrow>
      nr_status (node_results res ! j) = AgentCompleted) \<and>
    (\<forall>r \<in> set (node_results res). nr_output r \<noteq> None \<longrightarrow> nr_status r = AgentCompleted) \<and>
    (wf_status res = WfCompleted \<longrightarrow> (\<forall>r \<in> set (node_results res). nr_status r = AgentCompleted))"
proof -
  obtain ws s1 where inv: "workflow_inv I (topological_order w) ws s1"
    and res: "node_results res = node_results (ws_result ws)"
      "wf_status (ws_result ws) \<noteq> WfCompleted \<Longrightarrow> wf_status res = wf_status (ws_result ws)"
    using run_workflow_cases [OF assms] by metis
  have len: "length (node_results res) = length (topological_order w)"
    using inv res(1) by (metis (no_types, lifting) workflow_inv_def length_map)
  have "wf_status (ws_result ws) = WfCompleted" if "wf_status res = WfCompleted" using res(2) that by auto
  then show ?thesis
    using inv len unfolding workflow_inv_def res(1) by (auto simp: filter_empty_conv)
qed

theorem workflow_failure_propagation_witness:
  "nr_status (node_results demo_result ! 0) = AgentCompleted"
proof -
  have "node_name (topological_order demo_workflow ! 0) \<in> set (after (topological_order demo_workflow ! 1))"
    by code_simp
  then show ?thesis
    using workflow_failure_propagation [OF demo_run_value demo_find demo_graph(1,3) demo_config_ok
        demo_env_ok demo_input_ok TrueI]
    by (auto simp: demo_result_def)
qed

text \<open>
  C3: the status of a workflow agrees with its diagnostics, and an output is given only on
  completion and is well-formed; the world keeps its invariant.
\<close>

theorem workflow_status:
  assumes "run_workflow env ds cfg wfn input_value s = Some (res, s')"
    and "find_workflow (rebuild ds) wfn = Some w" "nodes w \<noteq> []"
    and "\<not> has_unresolved_or_cyclic_dependencies w"
    and "config_ok I cfg" "env_ok I env" "value_ok input_value" "I s"
  shows "(wf_status res = WfCompleted \<longleftrightarrow> \<not> has_error (wf_diags res)) \<and>
    (\<forall>v. wf_output res = Some v \<longrightarrow> wf_status res = WfCompleted \<and> value_ok v) \<and>
    wf_status res \<noteq> WfDependencyFailed \<and> bag_ok (wf_diags res) \<and> I s'"
  using run_workflow_cases [OF assms] by metis

theorem workflow_status_witness: "wf_status demo_result = WfCompleted \<and> value_ok (IntValue 7)"
  using workflow_status [OF demo_run_value demo_find demo_graph(1,3) demo_config_ok demo_env_ok
      demo_input_ok TrueI]
  by (simp add: demo_result_def)

text \<open>
  C40: a workflow that has nodes, with distinct names, is refused with a dependency failure
  exactly when a dependency is not declared or the dependencies have a cycle; then no node has
  run, the capability world is untouched and an error is reported.
\<close>

theorem workflow_dependency_check:
  assumes "run_workflow env ds cfg wfn input_value s = Some (res, s')"
    and "find_workflow (rebuild ds) wfn = Some w" "nodes w \<noteq> []"
    and "distinct (map node_name (nodes w))"
    and "config_ok I cfg" "env_ok I env" "value_ok input_value" "I s"
  shows "(wf_status res = WfDependencyFailed \<longleftrightarrow>
      \<not> (deps_declared (nodes w) \<and> acyclic (depends (nodes w)))) \<and>
    (wf_status res = WfDependencyFailed \<longrightarrow> s' = s \<and> node_results res = [] \<and> has_error (wf_diags res))"
proof -
  have ref: "wf_status res = WfDependencyFailed \<and> s' = s \<and> node_results res = [] \<and> has_error (wf_diags res)"
    if "has_unresolved_or_cyclic_dependencies w"
    using assms(1-3) that
    by (auto simp: run_workflow_def has_unresolved_or_cyclic_dependencies_def empty_workflow_result_def Let_def)
  have run: "wf_status res \<noteq> WfDependencyFailed" if "\<not> has_unresolved_or_cyclic_dependencies w"
    using run_workflow_cases [OF assms(1-3) that assms(5-8)] by metis
  show ?thesis using ref run has_unresolved_or_cyclic_iff [OF assms(4)] by auto
qed

theorem workflow_dependency_check_witness:
  "deps_declared (nodes demo_workflow) \<and> acyclic (depends (nodes demo_workflow))"
  using workflow_dependency_check [OF demo_run_value demo_find demo_graph(1,2) demo_config_ok
      demo_env_ok demo_input_ok TrueI]
  by (simp add: demo_result_def)

section \<open>Agents\<close>

text \<open>
  C4: a run of an agent ends in a terminal status; it completes exactly when no error was
  reported, and then in a final state; an output is given only on completion; every state it
  visits is reached from the start by declared transitions; and the world keeps its invariant.
\<close>

theorem agent_run_sound:
  assumes "run_from_state env rt input_value st s = Some (res, s')"
    and "runtime_ok I rt" "env_ok I env" "I s" "value_ok input_value"
  shows "is_terminal res \<and> (agent_status res = AgentCompleted \<longleftrightarrow> \<not> has_error (agent_diags res)) \<and>
    (agent_status res = AgentCompleted \<longrightarrow> is_final_state (rt_agent rt) (current_state_name res)) \<and>
    (\<forall>v. agent_output res = Some v \<longrightarrow> agent_status res = AgentCompleted \<and> value_ok v) \<and>
    set (visited_states res) \<subseteq> (valid_steps (rt_agent rt))\<^sup>* `` {st} \<and>
    current_state_name res \<in> set (visited_states res) \<and> I s'"
  using run_from_state_ok [OF assms] by (simp add: agent_result_ok_def)

theorem agent_run_sound_witness:
  "\<exists>res. run_from_state (at_time 0) demo_runtime demo_input ''Init'' () = Some (res, ()) \<and>
     agent_status res = AgentCompleted \<and> is_final_state demo_agent (current_state_name res)"
proof -
  obtain res where run: "run_from_state (at_time 0) demo_runtime demo_input ''Init'' () = Some (res, ())"
    using run_from_state_defined [OF demo_runtime_ok(2)] by fastforce
  have "map_option (\<lambda>r. agent_status (fst r)) (run_from_state (at_time 0) demo_runtime demo_input ''Init'' ()) =
      Some AgentCompleted" by code_simp
  then show ?thesis
    using agent_run_sound [OF run demo_runtime_ok(1) demo_env_ok TrueI demo_input_ok] run
    by (simp add: demo_runtime_def set_capability_invoker_def make_agent_runtime_def Let_def)
qed

text \<open>
  C5: the loop of an agent ends: it takes at most one transition more than 100 per declared
  transition, and never more than the quota.
\<close>

theorem agent_run_bounded:
  assumes "run_from_state env rt input_value st s = Some (res, s')"
    and "runtime_ok I rt" "env_ok I env" "I s" "value_ok input_value"
  shows "state_transitions (agent_stats res) \<le> 100 * length (transitions (rt_agent rt)) + 1 \<and>
    (\<forall>n. max_state_transitions (rt_quota rt) = Some n \<longrightarrow> state_transitions (agent_stats res) \<le> n)"
  using run_from_state_ok [OF assms] by (simp add: agent_result_ok_def)

theorem agent_run_bounded_witness:
  "\<exists>res. run_from_state (at_time 0) demo_runtime demo_input ''Init'' () = Some (res, ()) \<and>
     state_transitions (agent_stats res) \<le> 101"
proof -
  obtain res where run: "run_from_state (at_time 0) demo_runtime demo_input ''Init'' () = Some (res, ())"
    using run_from_state_defined [OF demo_runtime_ok(2)] by fastforce
  then show ?thesis
    using agent_run_bounded [OF run demo_runtime_ok(1) demo_env_ok TrueI demo_input_ok]
    by (simp add: demo_runtime_def set_capability_invoker_def make_agent_runtime_def Let_def demo_agent_def)
qed

text \<open>
  C6: every run of an agent returns a result, whatever the clock does, when the handlers use no
  overflowing arithmetic, the invokers return and the time quota fits the clock.
\<close>

theorem agent_run_returns:
  assumes "runtime_defined rt"
  shows "\<exists>res s'. run_from_state env rt input_value st s = Some (res, s')"
  using run_from_state_defined [OF assms, of env input_value st s] by auto

theorem agent_run_returns_witness:
  "\<exists>res s'. run_from_state (at_time 3) demo_runtime NoneValue ''Nowhere'' () = Some (res, s')"
  by (rule agent_run_returns [OF demo_runtime_ok(2)])

text \<open>
  The tool-call quota has no effect: a run with any value of it is the same run, and the
  counter of tool calls stays zero.
\<close>

lemma tool_call_quota_unused:
  assumes "runtime_ok I rt" "env_ok I env" "I s" "value_ok input_value"
  shows "run_from_state env (rt\<lparr>rt_quota := (rt_quota rt)\<lparr>max_tool_calls := q\<rparr>\<rparr>) input_value st s =
      run_from_state env rt input_value st s \<and>
    (\<forall>res s'. run_from_state env rt input_value st s = Some (res, s') \<longrightarrow> tool_calls (agent_stats res) = 0)"
proof
  show "run_from_state env (rt\<lparr>rt_quota := (rt_quota rt)\<lparr>max_tool_calls := q\<rparr>\<rparr>) input_value st s =
      run_from_state env rt input_value st s"
    unfolding run_from_state_def agent_loop_tool_quota ..
qed (use run_from_state_ok [OF _ assms] in \<open>auto simp: agent_result_ok_def\<close>)

section \<open>Evaluation\<close>

text \<open>
  C7: evaluation keeps the invariants: integers stay in 64 bits, field names stay distinct, the
  diagnostics are counted correctly, and a result with an error has no value.
\<close>

theorem eval_expr_well_formed:
  assumes "call_eval_ok I h" "context_ok c" "I s" "eval_expr h e c s = Some (r, s')"
  shows "value_ok (eval_value r) \<and> bag_ok (eval_diags r) \<and> (has_errors r \<longrightarrow> eval_value r = NoneValue) \<and> I s'"
  using eval_m_okD [OF eval_expr_impl_ok [OF assms(1,2)] assms(3)] assms(4)
  by (auto simp: eval_expr_def result_ok_def)

theorem eval_expr_well_formed_witness: "value_ok (IntValue 3)"
proof -
  let ?e = "BinaryExpr OpAdd (Some (IntegerLiteralExpr ''1'')) (Some (IntegerLiteralExpr ''2''))"
  have "eval_expr None ?e empty_context () = Some (ok_result (IntValue 3), ())" by code_simp
  then show ?thesis
    using eval_expr_well_formed [of "\<lambda>_. True" None empty_context "()"]
    by (fastforce simp: call_eval_ok_def context_ok_def empty_context_def)
qed

text \<open>
  C8: overflow is the only undefined behaviour of evaluation, with capabilities that return when
  their arguments do. An operator whose operands evaluate to 64-bit integers and whose exact
  result is none is undefined; and when evaluation is undefined, some part of the expression is
  such an operator, in some state of the capabilities.
\<close>

theorem eval_expr_defined:
  assumes "call_eval_defined h"
  shows "(overflow_at h c e s \<longrightarrow> eval_expr h e c s = None) \<and>
    (eval_expr h e c s = None \<longrightarrow> (\<exists>x \<in> expr_parts e. \<exists>s'. overflow_at h c x s'))"
  by (rule undefined_iff_overflow [OF assms])

theorem eval_expr_defined_witness:
  "eval_expr None (BinaryExpr OpAdd (Some (IntegerLiteralExpr ''9223372036854775807''))
     (Some (IntegerLiteralExpr ''1''))) empty_context () = None"
proof -
  let ?x = "IntegerLiteralExpr ''9223372036854775807''" and ?y = "IntegerLiteralExpr ''1''"
  have "eval_expr None ?x empty_context () = Some (ok_result (IntValue 9223372036854775807), ())"
    "eval_expr None ?y empty_context () = Some (ok_result (IntValue 1), ())" by code_simp+
  then have "overflow_at None empty_context (BinaryExpr OpAdd (Some ?x) (Some ?y)) ()"
    by (simp add: exact_result_def in_int64_def int64_max_def)
  then show ?thesis using eval_expr_defined [of None empty_context _ "()"] by (simp add: call_eval_defined_def)
qed

text \<open>An expression without an arithmetic operator always has a result, on any values.\<close>

lemma arithmetic_free_defined:
  assumes "call_eval_defined h" "arithmetic_free e"
  shows "\<exists>r s'. eval_expr h e c s = Some (r, s')"
proof -
  have "eval_m_defined (eval_expr_impl h c e)" using assms by (rule eval_expr_impl_defined)
  then have "eval_expr_impl h c e s \<noteq> None" by (simp add: eval_m_defined_def)
  then show ?thesis by (auto simp: eval_expr_def)
qed

text \<open>
  Integer division and remainder agree: when the division succeeds, the dividend is the
  quotient times the divisor plus a remainder smaller than the divisor.
\<close>

lemma integer_division:
  assumes "eval_binary_op OpDivide (IntValue a) (IntValue b) = Some q" "\<not> has_errors q"
    and "eval_binary_op OpModulo (IntValue a) (IntValue b) = Some m"
  shows "\<exists>x y. eval_value q = IntValue x \<and> eval_value m = IntValue y \<and> a = x * b + y \<and> \<bar>y\<bar> < \<bar>b\<bar>"
  using assms by (rule eval_div_mod_identity)

text \<open>
  Indexing succeeds exactly on a list with an index in range and an element there; in every
  other case it reports an error.
\<close>

lemma index_in_bounds:
  "\<not> has_errors (eval_index_op v i) \<longleftrightarrow>
    (\<exists>xs n x. v = ListValue xs \<and> i = IntValue (int n) \<and> n < length xs \<and> xs ! n = Some x)"
  by (rule eval_index_success)

text \<open>Printing a 64-bit integer and evaluating the text as a literal gives the integer back.\<close>

lemma integer_literal_roundtrip:
  assumes "in_int64 i"
  shows "eval_expr None (IntegerLiteralExpr (int_to_string i)) c s = Some (ok_result (IntValue i), s)"
  using eval_integer_literal_int_to_string [OF assms] by (simp add: eval_expr_def)

text \<open>Evaluation without capabilities leaves the world as it was.\<close>

lemma eval_without_capabilities_pure:
  assumes "eval_expr None e c s = Some (r, s')"
  shows "s' = s"
  using assms unfolding eval_expr_def by (rule eval_pureD)

section \<open>Statements\<close>

text \<open>
  Executing a block keeps contexts and world well-formed and leaves the inputs and the node
  outputs alone; an erroneous result has no control-flow outcome.
\<close>

lemma exec_block_well_formed:
  assumes "expr_eval_ok I ee" "context_ok c" "I s" "exec_block ee b c s = Some ((r, c'), s')"
  shows "exec_result_ok r \<and> context_ok c' \<and> I s' \<and>
    input_scope c' = input_scope c \<and> node_output_scope c' = node_output_scope c"
proof -
  have "exec_m_ok I (exec_block ee b)"
    by (intro exec_block_ok allI impI exec_statement_ok [OF assms(1)])
  from exec_m_okD [of I "exec_block ee b", OF this assms(2-4)] show ?thesis by (simp add: same_frame_def)
qed

section \<open>Capabilities\<close>

text \<open>
  C20: a breaker that failed \<open>n\<close> times since its creation or its last success counts \<open>n\<close> failures,
  and is closed exactly when \<open>n\<close> is below the threshold, which counts as 1 when it is 0. The
  counter has 64 bits, so this holds below \<open>2 ^ 64\<close> failures.
\<close>

theorem circuit_breaker_invariant:
  assumes "breaker_history cfg n cb" "n < 2 ^ 64"
  shows "failure_count cb = n \<and> (cb_state cb = Closed \<longleftrightarrow> n < max 1 (failure_threshold cfg))"
  using assms by (rule breaker_history_ok)

theorem circuit_breaker_invariant_witness:
  "failure_count (fst (record_failure (at_time 9) (new_breaker default_circuit_breaker) ())) = 1 \<and>
   cb_state (fst (record_failure (at_time 9) (new_breaker default_circuit_breaker) ())) = Closed"
  using circuit_breaker_invariant [OF breaker_history.failure [OF breaker_history.init], of 9 default_circuit_breaker]
  by (simp add: default_circuit_breaker_def)

text \<open>
  An open breaker stays open until its recovery window has passed, then admits a trial; a
  failure of the trial opens it again at once.
\<close>

lemma half_open_trial:
  assumes "breaker_history cfg n cb" "n + 1 < 2 ^ 64" "cb_state cb \<noteq> Closed" "now env w = (t, w')"
    and "in_int64 (recovery_window (cb_config cb) * 1000000000)"
  shows "current_state env cb w =
      (if t - opened_at cb < recovery_window (cb_config cb) * 1000000000
       then Some ((Open, cb), w') else Some ((HalfOpen, cb\<lparr>cb_state := HalfOpen\<rparr>), w')) \<and>
    cb_state (fst (record_failure env cb w'')) = Open"
  using current_state_open [OF assms(3-5)] half_open_failure [OF assms(1-3)] by simp

text \<open>
  C19: an invocation calls the handler as many times as it reports attempts, never more than
  \<open>max_retries + 1\<close>; it stops early only on success, and without an attempt only because the
  breaker is open.
\<close>

theorem invocation_attempts:
  assumes "invoke_with_retry (counted_env env) (counted_binding b) args (n, w) = Some ((r, b'), (n', w'))"
    and "max_retries (retry b) + 1 < 2 ^ 64"
  shows "n' = n + cr_attempts r \<and> cr_attempts r \<le> max_retries (retry b) + 1 \<and>
    (cr_attempts r = 0 \<longrightarrow> cr_status r = CCircuitOpen) \<and>
    (0 < cr_attempts r \<longrightarrow> cr_attempts r \<le> max_retries (retry b) \<longrightarrow> cr_status r = CSuccess) \<and>
    (0 < cr_attempts r \<longrightarrow> 0 < max_retries (retry b) \<longrightarrow> cr_status r \<in> {CSuccess, CRetryExhausted})"
  using assms by (rule invoke_with_retry_count)

theorem invocation_attempts_witness:
  "\<exists>r b' w'. invoke_with_retry (counted_env demo_env) (counted_binding demo_binding) [] (0, 0) =
     Some ((r, b'), (2, w')) \<and> cr_attempts r = 2 \<and> cr_status r = CSuccess"
proof -
  obtain r b' n' w' where run: "invoke_with_retry (counted_env demo_env) (counted_binding demo_binding) [] (0, 0) =
     Some ((r, b'), (n', w'))" and r: "cr_attempts r = 2"
    using demo_attempts by blast
  then show ?thesis
    using invocation_attempts [OF run] by (simp add: demo_binding_def plain_binding_def)
qed

text \<open>
  An invocation through the registry keeps its bindings well-formed and its names, and a
  value it returns is well-formed.
\<close>

lemma registry_invariant:
  assumes "registry_ok reg" "\<forall>x \<in> set args. value_ok x" "invoke env n args (reg, w) = Some (r, reg', w')"
  shows "registry_ok reg' \<and> (\<forall>v. cr_value r = Some v \<longrightarrow> value_ok v) \<and>
    registered_names reg' = registered_names reg"
  using assms by (rule invoke_ok)

text \<open>Registration keeps the first binding of a name, and every other name its binding.\<close>

lemma register_then_lookup:
  "map_of (register_capability b reg) n =
    (if n = binding_name b \<and> \<not> has_capability reg n then Some b else map_of reg n)"
  by (rule register_lookup)

text \<open>
  Evaluation with a registry of well-formed bindings gives a well-formed result and keeps
  the registry well-formed.
\<close>

lemma eval_with_registry_well_formed:
  assumes "context_ok c" "registry_ok reg" "eval_expr_with_registry env given e c (reg, w) = Some (r, reg', w')"
  shows "value_ok (eval_value r) \<and> (has_errors r \<longrightarrow> eval_value r = NoneValue) \<and> registry_ok reg'"
  using eval_m_okD [OF registry.eval_ok [OF assms(1)], of "(reg, w)" env given e r "(reg', w')"] assms(2,3)
  by (simp add: eval_expr_with_registry_def result_ok_def)

section \<open>The program index\<close>

text \<open>
  The topological order lists nodes once, never a node before one of its dependencies, and
  exactly the nodes all of whose dependencies can be resolved.
\<close>

lemma topological_order_correct:
  assumes "distinct (map node_name (nodes w))"
  shows "distinct (map node_name (topological_order w)) \<and>
    set (topological_order w) = {n. resolvable (nodes w) n} \<and>
    (\<forall>i < length (topological_order w).
       set (after (topological_order w ! i)) \<subseteq> node_name ` set (take i (topological_order w)))"
  using topological_order_props [OF assms] by blast

section \<open>Flow summaries\<close>

text \<open>
  C9: the summary of a block announces everything an execution of it does: the state it goes
  to, whether it returns or falls through, whether an assertion can fail, and every field of the
  context it changes.
\<close>

theorem summary_sound:
  assumes "summarize_block b = Some sm" "exec_block ee b c s = Some ((r, c'), s')"
  shows "(\<forall>t. outcome r = ExecGoto t \<longrightarrow> t \<in> set (goto_targets sm)) \<and>
    (\<forall>v. outcome r = ExecReturn v \<longrightarrow> may_return sm) \<and>
    (outcome r = ExecContinue \<and> \<not> exec_has_errors r \<longrightarrow> may_fallthrough sm) \<and>
    (\<forall>m. outcome r = ExecAssertFailed m \<longrightarrow> 0 < assert_count sm) \<and>
    (\<forall>k. ctx_scope c' k \<noteq> ctx_scope c k \<longrightarrow> assigns sm k)"
  using exec_block_announces [OF assms] by (simp add: announces_def)

theorem summary_sound_witness:
  "\<exists>sm. summarize_block demo_body = Some sm \<and> ''Done'' \<in> set (goto_targets sm)"
proof -
  have d: "summarize_block demo_body \<noteq> None" "exec_block None demo_body (inject_input demo_input) () \<noteq> None"
    "map_option (\<lambda>x. outcome (fst (fst x))) (exec_block None demo_body (inject_input demo_input) ()) =
      Some (ExecGoto ''Done'')"
    by code_simp+
  then obtain sm r c' where run: "summarize_block demo_body = Some sm"
    "exec_block None demo_body (inject_input demo_input) () = Some ((r, c'), ())" by auto
  with summary_sound [OF run] d(3) show ?thesis by simp
qed

text \<open>
  The called targets of a summary are complete: two capability invokers that agree on them
  give the same execution of the block.
\<close>

lemma summary_calls_complete:
  assumes "summarize_block b = Some sm" "\<forall>f \<in> set (called_targets sm). g f = g' f"
  shows "exec_block (Some (eval_expr_with_capabilities (Some g))) b c s =
    exec_block (Some (eval_expr_with_capabilities (Some g'))) b c s"
  using assms by (rule exec_block_agree)

text \<open>A duration written in seconds or milliseconds is parsed back.\<close>

lemma duration_roundtrip:
  assumes "int n * 1000 \<le> int64_max"
  shows "parse_duration (nat_to_string n @ ''ms'') = Some (int n) \<and>
    parse_duration (nat_to_string n @ ''s'') = Some (int n * 1000)"
  using parse_duration_ms [of n] parse_duration_s [of n] assms by simp

section \<open>Optimization\<close>

text \<open>
  C10: the default pipeline, iterated any number of times, gives a program that runs every
  workflow exactly as the original: same results, same diagnostics, same effects.
\<close>

theorem optimization_preserves_runs:
  assumes "run_to_fixpoint (create_default_pipeline same) p n = Some (pm', p', r)" "acyclic_program (declarations p)"
  shows "run_workflow env (declarations p') cfg wfn v s = run_workflow env (declarations p) cfg wfn v s"
  using default_runs.run_to_fixpoint_sound [OF assms(1) default_passes_sound assms(2)] by (simp add: runs_alike_run)

theorem optimization_preserves_runs_witness:
  "\<exists>pm p r. run_to_fixpoint demo_pipeline demo_source 10 = Some (pm, p, r) \<and>
     run_workflow (at_time 0) (declarations p) demo_config ''W'' demo_input () =
     run_workflow (at_time 0) (declarations demo_source) demo_config ''W'' demo_input ()"
proof -
  obtain pm p r where run: "run_to_fixpoint demo_pipeline demo_source 10 = Some (pm, p, r)"
    using demo_fixpoint by blast
  from optimization_preserves_runs [OF run demo_acyclic, of "at_time 0" demo_config "''W''" demo_input "()"] run
  show ?thesis by (intro exI conjI)
qed

text \<open>
  C11: one run of the default pipeline reaches the fixed point: the second iteration of
  \<open>run_to_fixpoint\<close> reports no change, whatever the filter and the bound on the iterations.
\<close>

theorem optimization_reaches_fixpoint:
  assumes "run_pipeline (set_pass_filter names (create_default_pipeline same)) p = Some (pm1, p1, r1)"
    "acyclic_program (declarations p)" "2 \<le> n"
  shows "\<exists>pm2 r2 pm' r'. run_pipeline pm1 p1 = Some (pm2, p1, r2) \<and> \<not> any_modified r2 \<and>
    run_to_fixpoint (set_pass_filter names (create_default_pipeline same)) p n = Some (pm', p1, r') \<and>
    any_modified r' = any_modified r1"
proof -
  have "\<forall>q \<in> set (passes (set_pass_filter names (create_default_pipeline same))). decl_pass q"
    using default_decl_passes [of same] by (simp add: set_pass_filter_def)
  with run_pipeline_idem [OF assms(1) _ assms(2)] run_to_fixpoint_twice [OF assms(1) _ assms(2,3)] show ?thesis by blast
qed

theorem optimization_reaches_fixpoint_witness:
  "\<exists>pm1 p1 r1 pm2 r2. run_pipeline (set_pass_filter [] demo_pipeline) demo_source = Some (pm1, p1, r1) \<and> any_modified r1 \<and>
     run_pipeline pm1 p1 = Some (pm2, p1, r2) \<and> \<not> any_modified r2"
proof -
  have pm: "set_pass_filter [] demo_pipeline = demo_pipeline"
    by (simp add: set_pass_filter_def create_default_pipeline_def add_analysis_def add_pass_def empty_pass_manager_def)
  obtain pm1 p1 r1 where "run_pipeline (set_pass_filter [] demo_pipeline) demo_source = Some (pm1, p1, r1)" "any_modified r1"
    unfolding pm by (rule demo_pipeline_value)
  with optimization_reaches_fixpoint [OF this(1) demo_acyclic order_refl] show ?thesis by blast
qed

text \<open>
  C12: after a run of the default pipeline the derived analyses of the program are fresh and are
  exactly what the optimized declarations give.
\<close>

theorem optimization_analyses_accurate:
  assumes "run_pipeline (create_default_pipeline same) p = Some (pm', p', r)" "phase p = Lowered \<or> accurate p"
  shows "has_fresh_derived_analyses p' all_derived_analysis_kinds \<and> recompute_derived_analyses p' (phase p') = Some p'"
proof -
  have "\<forall>q \<in> set (passes (create_default_pipeline same)). decl_pass q \<and> invalidated_derived_analyses q \<noteq> []"
    using default_decl_passes [of same] by (simp add: default_passes all_derived_analysis_kinds_def)
  with run_pipeline_accurate [OF assms(1)] assms(2) have "accurate p'" by blast
  with run_pipeline_fresh [OF assms(1)] show ?thesis by (simp add: accurate_def)
qed

theorem optimization_analyses_accurate_witness:
  "\<exists>pm p r. run_pipeline demo_pipeline demo_source = Some (pm, p, r) \<and>
     recompute_derived_analyses p (phase p) = Some p"
proof -
  obtain pm p r where "run_pipeline demo_pipeline demo_source = Some (pm, p, r)" by (rule demo_pipeline_value)
  moreover have "phase demo_source = Lowered" by (simp add: demo_source_def)
  ultimately show ?thesis using optimization_analyses_accurate by blast
qed

text \<open>
  After \<open>run_to_fixpoint\<close> the results held by the manager are those of the analyses on the
  final program, although later iterations do not compute them again.
\<close>

lemma optimization_results_current:
  assumes "run_pipeline (create_default_pipeline same) p = Some (pm1, p1, r1)" "acyclic_program (declarations p)" "2 \<le> n"
  shows "\<exists>pm' r'. run_to_fixpoint (create_default_pipeline same) p n = Some (pm', p1, r') \<and>
    analysis_results pm' = [Some (CapabilityReachabilityResult (capability_reachability p1)),
      Some (ContractRedundancyResult (contract_redundancy same p1))]"
proof -
  obtain pm' r' where run: "run_to_fixpoint (create_default_pipeline same) p n = Some (pm', p1, r')"
    and keep: "analysis_results pm' = analysis_results pm1"
    using run_to_fixpoint_results [OF assms(1) default_decl_passes assms(2,3)] default_analyses_nonnull
    by (auto simp: default_passes)
  have "length (analysis_results pm1) = 2 \<and> analysis_results pm1 ! 0 = Some (CapabilityReachabilityResult (capability_reachability p1)) \<and>
      analysis_results pm1 ! 1 = Some (ContractRedundancyResult (contract_redundancy same p1))"
    using run_pipeline_results [OF assms(1), of 0] run_pipeline_results [OF assms(1), of 1]
    by (simp add: default_passes default_analyses)
  then have "analysis_results pm1 = [Some (CapabilityReachabilityResult (capability_reachability p1)),
      Some (ContractRedundancyResult (contract_redundancy same p1))]"
    by (auto simp: numeral_2_eq_2 length_Suc_conv)
  with run keep show ?thesis by auto
qed

text \<open>
  C15: the canonical form of an expression evaluates to the value of the expression; a reported
  change made the expression smaller, and canonicalizing again changes nothing.
\<close>

theorem canonicalization_refines:
  assumes "evaluates c s e v"
  shows "\<exists>e' m. canonicalize_expr e = Some (e', m) \<and> evaluates c s e' v \<and>
    (if m then size_option size e' < size_option size e else e' = e) \<and> canonicalize_expr e' = Some (e', False)"
proof -
  obtain e' m where e': "canonicalize_expr e = Some (e', m)" "evaluates c s e' v"
    using canonicalize_expr_evaluates [OF assms] by blast
  with canonicalize_expr_shrinks [OF e'(1)] canonicalize_expr_idem [OF e'(1)] show ?thesis by auto
qed

theorem canonicalization_refines_witness:
  "canonicalize_expr demo_opt_expr = Some (Some (BoolLiteralExpr True), True) \<and>
   evaluates empty_context () (Some (BoolLiteralExpr True)) (BoolValue True)"
proof -
  have canon: "canonicalize_expr demo_opt_expr = Some (Some (BoolLiteralExpr True), True)" by code_simp
  have "evaluates empty_context () demo_opt_expr (BoolValue True)" by code_simp
  from canonicalization_refines [OF this] canon show ?thesis by auto
qed

text \<open>
  C17: simplifying a temporal formula keeps the runs that satisfy it, at every moment and for
  every meaning of the atoms.
\<close>

theorem temporal_simplification_equivalent:
  assumes "simplify_temporal f = Some (f', m)"
  shows "(\<forall>A i. sat_ref A f' i \<longleftrightarrow> sat_ref A f i) \<and>
    (if m then size_option size f' < size_option size f else f' = f) \<and> simplify_temporal f' = Some (f', False)"
  using simplify_temporal_sat [OF assms] simplify_temporal_shrinks [OF assms] simplify_temporal_idem [OF assms] by auto

theorem temporal_simplification_equivalent_witness:
  "\<forall>A. sat_ref A (Some (TemporalUnaryExpr TAlways (Some (CalledTemporalExpr ''echo'')))) 0 \<longleftrightarrow> sat_ref A (Some demo_opt_formula) 0"
proof -
  have "simplify_temporal (Some demo_opt_formula) =
      Some (Some (TemporalUnaryExpr TAlways (Some (CalledTemporalExpr ''echo''))), True)" by code_simp
  from temporal_simplification_equivalent [OF this] show ?thesis by blast
qed

text \<open>The states kept are those a run can reach from the initial state, and the final ones.\<close>

lemma reachable_states_correct:
  "set (reachable_states a) = {s. (initial_state a, s) \<in> (valid_steps a)\<^sup>*} \<union> set (final_states a)"
  by (auto simp: reachable_states_def bfs.search_set valid_steps_pairs)

text \<open>
  C18: the sets computed for workflow simplification are the transitive dependencies, and on
  acyclic dependencies dropping the redundant ones keeps the transitive dependencies.
\<close>

theorem transitive_reduction_correct:
  assumes "distinct (map node_name (nodes w))"
  shows "(d \<in> set (successors (compute_transitive_reachable (nodes w)) x) \<longleftrightarrow> (d, x) \<in> (depends (nodes w))\<^sup>+) \<and>
    (acyclic (depends (nodes w)) \<longrightarrow>
      (depends (nodes (fst (simplify_workflow w))))\<^sup>+ = (depends (nodes w))\<^sup>+)"
proof -
  have "(depends (nodes (fst (simplify_workflow w))))\<^sup>+ = (depends (nodes w))\<^sup>+" if "acyclic (depends (nodes w))"
    using reduction_closure [OF assms that simplify_node_reduction [OF assms that]]
    by (simp add: simplify_workflow_def Let_def o_def)
  with compute_transitive_reachable_iff [OF assms] show ?thesis by blast
qed

theorem transitive_reduction_correct_witness:
  "(''n1'', ''n3'') \<in> (depends (nodes demo_opt_workflow))\<^sup>+"
proof -
  have "distinct (map node_name (nodes demo_opt_workflow))"
    "''n1'' \<in> set (successors (compute_transitive_reachable (nodes demo_opt_workflow)) ''n3'')" by code_simp+
  with transitive_reduction_correct [of demo_opt_workflow] show ?thesis by blast
qed

section \<open>The parallel scheduler\<close>

text \<open>
  C16: a graph is accepted exactly when its ids are distinct, every dependency is declared and
  the dependencies are acyclic; the order in which the nodes without dependencies are met does
  not change the answer.
\<close>

theorem scheduler_validation:
  "(validate_dag ns \<longleftrightarrow>
     distinct (map dag_id ns) \<and> (\<forall>n \<in> set ns. set (dependencies n) \<subseteq> dag_id ` set ns) \<and>
     acyclic {(d, dag_id n) |d n. n \<in> set ns \<and> d \<in> set (dependencies n)}) \<and>
   (\<forall>q. seeds (fst (build_graph ns)) q \<longrightarrow> validate_from q ns = validate_dag ns)"
  using validate_dag_iff validate_from_iff by (simp add: proper_dag_def)

theorem scheduler_validation_witness:
  "acyclic {(d, dag_id n) |d n. n \<in> set (sched_nodes demo_scheduler) \<and> d \<in> set (dependencies n)}"
proof -
  have "validate_dag (sched_nodes demo_scheduler)" by code_simp
  then show ?thesis using scheduler_validation by blast
qed

text \<open>
  C13: whatever the order of the seeds, the interleaving of the threads and the behaviour of the
  nodes, the results of an accepted graph are listed in the order of the nodes, the execution
  succeeds exactly when every node completed, and a completed node has only completed
  dependencies. Unless the mode is \<open>FailFast\<close> a node is skipped only because a dependency failed or
  was skipped. That includes \<open>FailGraceful\<close>: the comment of \<open>parallel_scheduler.hpp\<close> says that it
  stops once the running tasks are complete, but the code runs it as \<open>ContinueOnError\<close>.
\<close>

theorem scheduler_results:
  assumes "executes sc r" "validate_dag (sched_nodes sc)" "0 < thread_count sc"
  shows "map result_id (dag_results r) = map dag_id (sched_nodes sc) \<and>
    (sched_success r \<longleftrightarrow> (\<forall>nr \<in> set (dag_results r). result_status nr = DagCompleted)) \<and>
    (\<forall>i < length (sched_nodes sc). \<forall>j < length (sched_nodes sc).
      dag_id (sched_nodes sc ! j) \<in> set (dependencies (sched_nodes sc ! i)) \<longrightarrow>
      result_status (dag_results r ! i) = DagCompleted \<longrightarrow> result_status (dag_results r ! j) = DagCompleted) \<and>
    (sched_mode sc \<noteq> FailFast \<longrightarrow> (\<forall>i < length (sched_nodes sc). result_status (dag_results r ! i) = DagSkipped \<longrightarrow>
      (\<exists>j < length (sched_nodes sc). dag_id (sched_nodes sc ! j) \<in> set (dependencies (sched_nodes sc ! i)) \<and>
        result_status (dag_results r ! j) \<in> {DagFailed, DagSkipped}))) \<and>
    (sched_mode sc = FailGraceful \<longrightarrow> executes (sc\<lparr>sched_mode := ContinueOnError\<rparr>) r)"
proof -
  have graceful: "executes (sc\<lparr>sched_mode := ContinueOnError\<rparr>) r" if "sched_mode sc = FailGraceful"
  proof -
    have "sc\<lparr>sched_mode := FailGraceful\<rparr> = sc" using that by (cases sc) simp
    with fail_graceful_executes [of sc r] assms(1) show ?thesis by simp
  qed
  from assms(1,2) obtain st where st: "sched_reachable sc st" "all_exited st" and r: "r = collect_results sc st"
    by (auto elim: executes.cases)
  have dag: "proper_dag (sched_nodes sc)" using assms(2) by (simp add: validate_dag_iff)
  have inv: "sched_inv sc st" using sched_reachable_inv st(1) dag by (simp add: proper_dag_def)
  have deps: "dag_deps sc (dag_id n) = set (dependencies n)" if "n \<in> set (sched_nodes sc)" for n
    by (rule dependencies_of_node [OF _ that]) (use dag in \<open>simp add: proper_dag_def\<close>)
  have nth: "dag_results r ! i = final_result st (dag_id (sched_nodes sc ! i))" if "i < length (sched_nodes sc)" for i
    using that by (simp add: r collect_results_final)
  have ids: "map result_id (dag_results r) = map dag_id (sched_nodes sc)"
    using final_result_id [OF inv] by (simp add: r collect_results_final)
  have success: "sched_success r \<longleftrightarrow> (\<forall>nr \<in> set (dag_results r). result_status nr = DagCompleted)"
    using execution_success [OF st(1) dag st(2) assms(3)] by (simp add: r collect_results_final)
  have completed: "result_status (dag_results r ! j) = DagCompleted"
    if "i < length (sched_nodes sc)" "j < length (sched_nodes sc)" "result_status (dag_results r ! i) = DagCompleted"
      "dag_id (sched_nodes sc ! j) \<in> set (dependencies (sched_nodes sc ! i))" for i j
    using that execution_outcomes(1) [OF st(1) dag, of "dag_id (sched_nodes sc ! i)" "dag_id (sched_nodes sc ! j)"]
      deps [of "sched_nodes sc ! i"] by (simp add: nth)
  have skipped: "\<exists>j < length (sched_nodes sc). dag_id (sched_nodes sc ! j) \<in> set (dependencies (sched_nodes sc ! i)) \<and>
      result_status (dag_results r ! j) \<in> {DagFailed, DagSkipped}"
    if "sched_mode sc \<noteq> FailFast" "i < length (sched_nodes sc)" "result_status (dag_results r ! i) = DagSkipped" for i
  proof -
    let ?n = "sched_nodes sc ! i"
    note prems = that
    have n: "?n \<in> set (sched_nodes sc)" using that(2) by simp
    have "\<not> stop_requested st" using inv that(1) by (simp add: sched_inv_def result_inv_def)
    with result_complete [OF st(1) dag st(2) assms(3)] n have "status_of st (dag_id ?n) \<noteq> None" by blast
    then obtain d where d: "d \<in> set (dependencies ?n)" "dag_failed st d"
      using execution_outcomes(2) [OF st(1) dag, of "dag_id ?n"] prems(2,3) n deps [OF n] by (auto simp: nth)
    have "d \<in> dag_ids sc" using dag n d(1) unfolding proper_dag_def by blast
    then obtain j where "j < length (sched_nodes sc)" "dag_id (sched_nodes sc ! j) = d"
      by (auto simp: in_set_conv_nth)
    with d show ?thesis by (auto simp: nth final_result_status)
  qed
  show ?thesis using ids success completed skipped graceful by blast
qed

theorem scheduler_results_witness:
  "\<exists>r. executes demo_scheduler r \<and> map result_id (dag_results r) = [''a'', ''b''] \<and>
     (sched_success r \<longleftrightarrow> (\<forall>nr \<in> set (dag_results r). result_status nr = DagCompleted))"
proof -
  obtain r where r: "executes demo_scheduler r" using executes_returns by blast
  have "validate_dag (sched_nodes demo_scheduler)" "0 < thread_count demo_scheduler"
    "map dag_id (sched_nodes demo_scheduler) = [''a'', ''b'']" by code_simp+
  with scheduler_results [OF r] r show ?thesis by auto
qed

text \<open>
  C14: the worker threads of an accepted graph neither deadlock nor run for ever: a step is
  possible until all of them have returned, and no run is infinite.
\<close>

theorem scheduler_joins:
  assumes "validate_dag (sched_nodes sc)"
  shows "(\<forall>st. sched_reachable sc st \<longrightarrow> \<not> all_exited st \<longrightarrow> (\<exists>st'. sched_step sc st st')) \<and>
    (\<forall>q run. seeds (fst (build_graph (sched_nodes sc))) q \<longrightarrow> run 0 = initial_sched_state sc q \<longrightarrow>
      (\<exists>k. \<not> sched_step sc (run k) (run (Suc k)))) \<and>
    (\<exists>st. sched_reachable sc st \<and> all_exited st)"
proof -
  have dag: "proper_dag (sched_nodes sc)" using assms by (simp add: validate_dag_iff)
  have "\<exists>st'. sched_step sc st st'" if "sched_reachable sc st" "\<not> all_exited st" for st
    using sched_progress [OF sched_reachable_inv [OF that(1)] dag that(2)] dag by (simp add: proper_dag_def)
  moreover have "\<exists>st. sched_reachable sc st \<and> all_exited st"
    using sched_joins [OF dag sched_reachable.start [OF seeds_refl]] seeds_refl
    unfolding sched_reachable_iff by blast
  ultimately show ?thesis using sched_no_infinite_run [OF dag] by blast
qed

theorem scheduler_joins_witness: "\<exists>st. sched_reachable demo_scheduler st \<and> all_exited st"
proof -
  have "validate_dag (sched_nodes demo_scheduler)" by code_simp
  from scheduler_joins [OF this] show ?thesis by blast
qed

text \<open>
  In every reachable state no node is queued, worked on or finished twice, and a node that
  is queued or worked on has results for all its dependencies.
\<close>

lemma scheduler_exclusive:
  assumes "sched_reachable sc st" "distinct (map dag_id (sched_nodes sc))"
  shows "distinct (sched_ready st @ concat (map held (workers st)) @ map fst (sched_results st)) \<and>
    (\<forall>x \<in> set (sched_ready st @ concat (map held (workers st))).
      set (dependencies_of (sched_nodes sc) x) \<subseteq> fst ` set (sched_results st))"
proof -
  have inv: "graph_inv sc st" using sched_reachable_inv [OF assms] by (simp add: sched_inv_def)
  have "d \<in> fst ` set (sched_results st)"
    if "x \<in> set (sched_ready st @ concat (map held (workers st)))" "d \<in> dag_deps sc x" for x d
  proof -
    have x: "x \<in> set (tokens st)" using that(1) by (auto simp: tokens_def inflight_def)
    then have "(d, x) \<in> set (dag_edges (sched_nodes sc))"
      using edges_dependencies [OF assms(2)] graph_invD(2) [OF inv] that(2) by blast
    from graph_invD(3) [OF inv x this] show ?thesis
      by (auto simp: released_def status_of_def map_of_eq_None_keys keys_of_def)
  qed
  with graph_invD(1) [OF inv] show ?thesis by (auto simp: tokens_def inflight_def keys_of_def)
qed

section \<open>JSON\<close>

text \<open>
  C31: the JSON parser accepts exactly the documents of the JSON grammar (RFC 8259, with distinct member
  names and numbers that fit) and gives the value, with the offsets, that the grammar assigns.
\<close>

theorem json_parser_grammar:
  "parse_json input = Some v \<longleftrightarrow> json_document v input"
  by (rule parse_json_iff)

text \<open>
  C32: a document without null pointers whose integers fit 64 bits, whose doubles are finite and
  whose keys are distinct within an object and have no control characters can be serialized, the
  text can be parsed, and the value read is the original one but for the source offsets, a double
  without a fraction having become an integer. (Other keys and doubles are not read back.)
\<close>

theorem json_text_roundtrip:
  assumes "json_printable v"
  shows "\<exists>t w. serialize_json v = Some t \<and> parse_json t = Some w \<and> erase_spans w = reread v"
  using assms by (rule serialize_then_parse)

theorem json_text_roundtrip_witness:
  "\<exists>t w. serialize_json (JObject (0, 0) [(''k'', Some (JString (0, 0) [CHR 0x0A, CHR 0x22]))]) = Some t \<and>
     parse_json t = Some w \<and> erase_spans w = JObject (0, 0) [(''k'', Some (JString (0, 0) [CHR 0x0A, CHR 0x22]))]"
proof -
  let ?v = "JObject (0, 0) [(''k'', Some (JString (0, 0) [CHR 0x0A, CHR 0x22]))]"
  have "json_printable ?v" by (simp add: printable_key_def keys_of_def)
  from json_text_roundtrip [OF this] show ?thesis by simp
qed

text \<open>
  C33: a value with 64-bit integers, canonical doubles, and structs with distinct fields, none of
  them \<open>_type\<close> and not both \<open>_enum\<close> and \<open>_variant\<close>, written as JSON and read back is the value as JSON can
  represent it; that is the value itself when it has no decimal, no duration, no optional, no null
  pointer and no infinite double or NaN.
\<close>

theorem value_survives_json:
  assumes "json_writable v"
  shows "value_from_json (value_to_json v) = Some (json_image v) \<and>
    (json_faithful v \<longrightarrow> value_from_json (value_to_json v) = Some v)"
  using value_json_roundtrip [OF assms] json_image_faithful(1) [of v] by simp

theorem value_survives_json_witness:
  "value_from_json (value_to_json demo_value) = Some demo_value"
proof -
  have w: "json_writable demo_value" and f: "json_faithful demo_value"
    by (simp_all add: demo_value_def keys_of_def in_int64_def int64_min_def int64_max_def)
  from value_survives_json [OF w] f show ?thesis by blast
qed

section \<open>Remote capabilities\<close>

text \<open>
  C34: what has a type of the language is accepted, against the program and without it. And for a
  type made of Unit, Bool, Int, String, Duration, enums, structs, optionals, lists and sets, whose
  names have one declaration, what is accepted against the program has the type: declared fields
  and no others, declared variants, every element. The other types are not checked in full:
  bounds of strings, digits of decimals and elements of maps are not looked at.
\<close>

theorem schema_check_refines:
  "(has_type ds v t \<longrightarrow> schema_valid (validate_value_against_program v t ds) \<and>
      schema_valid (validate_value_against_schema v t)) \<and>
   (exactly_checked ds t \<longrightarrow> schema_valid (validate_value_against_program v t ds) \<longrightarrow> has_type ds v t)"
  using has_type_conforms conforms_has_type program_schema_stronger
  unfolding validate_value_against_program_def check_conforms by blast

theorem schema_check_refines_witness: "has_type [StructDecl demo_reply_decl] demo_value demo_reply_type"
proof -
  have v: "schema_valid (validate_value_against_program demo_value demo_reply_type [StructDecl demo_reply_decl])"
    by code_simp
  have d: "the_struct [StructDecl demo_reply_decl] demo_reply_type demo_reply_decl"
    by (auto simp: the_struct_def structs_of_def map_filter_simps refers_def demo_reply_type_def
        demo_reply_decl_def)
  have "exactly_checked [StructDecl demo_reply_decl] demo_reply_type"
    by (rule exact_struct [OF _ d]) (auto simp: demo_reply_type_def demo_reply_decl_def intro!: exact_flat)
  with v schema_check_refines [of "[StructDecl demo_reply_decl]" demo_value demo_reply_type] show ?thesis by blast
qed

text \<open>
  C35: for every sequence of acquisitions, releases and evictions the pool counts exactly the
  leases that are out, in total and per host, and never grants more than the limits.
\<close>

theorem pool_counts_leases:
  assumes "pool_run cfg p leases"
  shows "total_connections p = length leases \<and> length leases \<le> max_connections cfg \<and>
    (\<forall>h. active_for_host h p = count_list leases h \<and> count_list leases h \<le> max_per_host cfg)"
  using pool_run_inv [OF assms] by (simp add: pool_inv_def total_connections_def)

theorem pool_counts_leases_witness:
  "total_connections (snd (try_acquire ''h'' 0 (new_pool default_pool_config))) = 1"
proof -
  obtain p where p: "try_acquire ''h'' 0 (new_pool default_pool_config) = (Some ''h'', p)"
    by (cases rule: try_acquire_cases [of "new_pool default_pool_config" "''h''" 0])
      (auto simp: new_pool_def default_pool_config_def active_for_host_def)
  have "pool_run default_pool_config p [''h'']" by (rule run_granted [OF run_new p])
  from pool_counts_leases [OF this] p show ?thesis by simp
qed

text \<open>
  C30: a call to a remote capability, over HTTP or gRPC, with any transport, makes one attempt, gives a
  value exactly when it reports success, and then a well-formed value of the expected type; on
  every path it returns the connection it took.
\<close>

theorem wire_calls_sound:
  "wire_result_ok (hc_response_schema hcfg) (fst (execute_http_capability_call env hcfg tr args s)) \<and>
   same_load (ws_pool s) (ws_pool (snd (execute_http_capability_call env hcfg tr args s))) \<and>
   wire_result_ok (gc_response_schema gcfg) (fst (execute_grpc_json_transcoding_capability_call env gcfg tr args s)) \<and>
   same_load (ws_pool s) (ws_pool (snd (execute_grpc_json_transcoding_capability_call env gcfg tr args s)))"
  using http_call_ok [of env hcfg tr args s] grpc_call_ok [of env gcfg tr args s]
  by (metis prod.collapse)

text \<open>
  C29: when the body file can be written and curl exits with 0 after printing the JSON text of a
  value and a 2xx status, a call over HTTP through the default transport gives that value, as
  JSON represents it, if the capability uses no authentication and the JSON format, the value can be written and meets the expected schema, if
  any, the pool has room in total and for the host, and the deadline leaves the timeout of the
  process, its seconds plus 5, an \<open>int\<close>.
\<close>

theorem http_call_delivers:
  assumes "curl_answers os (value_to_json v) http_code" "200 \<le> http_code" "http_code < 300" "json_writable v"
    and "hc_auth config = None" "hc_response_format config = FormatJson"
    and "\<forall>t. hc_response_schema config = Some t \<longrightarrow> conforms None (json_image v) t"
    and "total_active (ws_pool s) < max_connections (pool_config (ws_pool s))"
    and "active_for_host (extract_host (hc_url config)) (ws_pool s) < max_per_host (pool_config (ws_pool s))"
    and "0 \<le> hc_deadline config" "hc_deadline config < 2147483643000"
  shows "fst (execute_http_capability_call env config (default_capability_transport_adapter os) args s) =
    success_result (json_image v)"
  using assms by (rule http_value_delivered)

theorem http_call_delivers_witness:
  "fst (execute_http_capability_call demo_clock demo_http_config
      (default_capability_transport_adapter demo_os) [IntValue 1] demo_wire_state) = success_result demo_value"
proof -
  have ans: "curl_answers demo_os (value_to_json demo_value) 200"
    by (simp add: curl_answers_def demo_os_def)
  have w: "json_writable demo_value" and i: "json_image demo_value = demo_value"
    by (simp_all add: demo_value_def keys_of_def in_int64_def int64_min_def int64_max_def)
  have "conforms None demo_value demo_reply_type"
    unfolding demo_value_def
    by (rule conf_opaque) (simp_all add: demo_reply_type_def type_name_matches_def find_schema_struct_def)
  then have c: "\<forall>t. hc_response_schema demo_http_config = Some t \<longrightarrow> conforms None (json_image demo_value) t"
    by (simp add: demo_http_config_def i)
  show ?thesis
    using http_call_delivers [OF ans _ _ w _ _ c, of demo_wire_state demo_clock "[IntValue 1]"]
    by (simp add: i demo_http_config_def demo_wire_state_def new_pool_def default_pool_config_def
        active_for_host_def)
qed



text \<open>
  C37: the configuration text is unambiguous, whatever the method, the URL, the headers and the
  paths of a request contain. Two texts are equal exactly when their requests agree in method,
  URL, timeout, HTTP version, header lines, body and header files, client certificate, key and
  authorities, and in whether the server is verified. And no content can add a line: there are as
  many line ends as options, and the line \<open>insecure\<close> is there only when verification is off.
\<close>

theorem curl_config_unambiguous:
  "(build_curl_config q b h = build_curl_config q' b' h' \<longleftrightarrow>
      hq_method q = hq_method q' \<and> hq_url q = hq_url q' \<and> hq_timeout_seconds q = hq_timeout_seconds q' \<and>
      hq_version q = hq_version q' \<and>
      map (\<lambda>(key, v). key @ '': '' @ v) (hq_headers q) = map (\<lambda>(key, v). key @ '': '' @ v) (hq_headers q') \<and>
      b = b' \<and> h = h' \<and> hq_cert_path q = hq_cert_path q' \<and> hq_key_path q = hq_key_path q' \<and>
      hq_ca_path q = hq_ca_path q' \<and> hq_verify_tls q = hq_verify_tls q') \<and>
   count_list (build_curl_config q b h) newline =
      6 + (if hq_version q = HttpDefault then 0 else 1) + length (hq_headers q) +
      length (filter (\<lambda>p. p \<noteq> None) [b, h]) +
      length (filter (\<lambda>p. p \<noteq> []) [hq_cert_path q, hq_key_path q, hq_ca_path q]) +
      (if hq_verify_tls q then 0 else 1) \<and>
   (''insecure'' \<in> set (lines_of (build_curl_config q b h)) \<longleftrightarrow> \<not> hq_verify_tls q)"
proof (intro conjI)
  show "build_curl_config q b h = build_curl_config q' b' h' \<longleftrightarrow>
      hq_method q = hq_method q' \<and> hq_url q = hq_url q' \<and> hq_timeout_seconds q = hq_timeout_seconds q' \<and>
      hq_version q = hq_version q' \<and>
      map (\<lambda>(key, v). key @ '': '' @ v) (hq_headers q) = map (\<lambda>(key, v). key @ '': '' @ v) (hq_headers q') \<and>
      b = b' \<and> h = h' \<and> hq_cert_path q = hq_cert_path q' \<and> hq_key_path q = hq_key_path q' \<and>
      hq_ca_path q = hq_ca_path q' \<and> hq_verify_tls q = hq_verify_tls q'"
    using config_text_determines [of q b h q' b' h'] config_text_cong [of q q' b h] by blast
  show "count_list (build_curl_config q b h) newline =
      6 + (if hq_version q = HttpDefault then 0 else 1) + length (hq_headers q) +
      length (filter (\<lambda>p. p \<noteq> None) [b, h]) +
      length (filter (\<lambda>p. p \<noteq> []) [hq_cert_path q, hq_key_path q, hq_ca_path q]) +
      (if hq_verify_tls q then 0 else 1)"
    unfolding count_config_lines config_lines_def setting_lines_def header_texts_def length_append length_map
    by (simp split: http_version.split option.split)
  show "''insecure'' \<in> set (lines_of (build_curl_config q b h)) \<longleftrightarrow> \<not> hq_verify_tls q"
    by (rule insecure_line)
qed

section \<open>Secrets and the sandbox\<close>

text \<open>
  C39: a qualified handle reaches only the provider of its prefix; resolving an authentication
  records every secret it reads, in order, and succeeds exactly when all were found.
\<close>

theorem secrets_routed_and_audited:
  assumes "CHR '':'' \<notin> set pfx" "pfx \<noteq> []" "k \<noteq> []" "resolve_auth config (m, w) = (a, m', w')"
  shows "chain_resolve entries (pfx @ CHR '':'' # k) w =
      (case find (\<lambda>e. ce_prefix e = pfx) entries of
         None \<Rightarrow> (None, w)
       | Some e \<Rightarrow> sp_resolve (ce_provider e) k w) \<and>
    (\<exists>evs. sm_log m' = sm_log m @ evs \<and> audited (auth_keys config) evs \<and>
      (ra_success a \<longleftrightarrow> scheme config = AuthNone \<or> evs \<noteq> [] \<and> list_all ae_success evs))"
  using chain_resolve_qualified [OF assms(1-3), of entries w] resolve_auth_audited [OF assms(4)] by blast

theorem secrets_routed_and_audited_witness:
  "ra_success (fst (resolve_auth demo_auth (demo_manager, ()))) \<and>
   chain_resolve [\<lparr>ce_prefix = ''env'', ce_provider = sm_provider demo_manager, ce_default = False\<rparr>] ''env:K'' () =
     (Some ''s3cret'', ())"
proof -
  obtain a m' w' where r: "resolve_auth demo_auth (demo_manager, ()) = (a, m', w')" by (metis prod_cases3)
  have "sm_log m' \<noteq> [] \<and> list_all ae_success (sm_log m')"
    using r by (auto simp: resolve_auth_def demo_auth_def resolve_token_def secret_get_def demo_manager_def
        env_provider_def env_resolve_def log_event_def)
  moreover have "sm_log demo_manager = []" by (simp add: demo_manager_def)
  ultimately show ?thesis
    using secrets_routed_and_audited [of "''env''" "''K''", OF _ _ _ r] r
    by (fastforce simp: demo_manager_def env_provider_def env_resolve_def)
qed

text \<open>
  Reading a path is allowed exactly when file access is on and the canonical path lies inside
  an allowed one or is a sibling whose name continues the name of an allowed one.
\<close>

lemma sandbox_read_decision:
  "check_fs_read canon cfg path \<longleftrightarrow>
     allow_filesystem (sb_filesystem cfg) \<and>
     (\<exists>p \<in> set (read_paths (sb_filesystem cfg)).
        inside (canonicalize_path canon p) (canonicalize_path canon path) \<or>
        (\<exists>c rest. canonicalize_path canon path = canonicalize_path canon p @ c # rest \<and> c \<noteq> CHR ''/''))"
  using path_matches_inside [of _ "read_paths (sb_filesystem cfg)" canon "canonicalize_path canon path"]
    path_matches_outside [of canon "canonicalize_path canon path" "read_paths (sb_filesystem cfg)"]
  by (auto simp: check_fs_read_def path_matches_iff prefix_def)

section \<open>Checkpoints\<close>

text \<open>
  C36: when no remote node answers and the local files work, a checkpoint of a snapshot with a
  non-empty agent id, distinct context keys without control characters and a 64-bit time goes to
  the local files, in the directory of \<open>AHFL_CHECKPOINT_DIR\<close>, and restoring its id gives the image of the snapshot: its context sorted by
  key, its time truncated to the millisecond, the rest unchanged.
\<close>

theorem checkpoint_can_be_restored:
  assumes "local_store env files dir" "snapshot_ok s"
  shows "\<exists>r w1 w2. checkpoint env d s w = Some (r, w1) \<and> checkpoint_status r = CheckpointCreated \<and>
    restore env d (checkpoint_id r) w1 = Some (Some (snapshot_image s), w2)"
  using assms by (rule checkpoint_restores)

theorem checkpoint_can_be_restored_witness:
  "\<exists>r w1 w2. checkpoint demo_store new_distributed demo_snapshot (\<lambda>_. None) = Some (r, w1) \<and>
     checkpoint_status r = CheckpointCreated \<and>
     restore demo_store new_distributed (checkpoint_id r) w1 = Some (Some (snapshot_image demo_snapshot), w2)"
proof -
  have "snapshot_ok demo_snapshot"
    by (simp add: snapshot_ok_def demo_snapshot_def keys_of_def printable_key_def in_int64_def int64_min_def int64_max_def)
  from checkpoint_can_be_restored [OF demo_store_ok this] show ?thesis .
qed

text \<open>
  Storing a checkpoint sends at most one request per endpoint and, under the retry strategy,
  the configured number of retries in all; under the abort strategy at most one.
\<close>

lemma checkpoint_requests_bounded:
  assumes "\<And>q w. requests (snd (de_http env q w)) = requests w + 1"
    and "put_endpoints env pol cid content n endpoints w = (ok, w')"
  shows "requests w' \<le> requests w + length endpoints + (if fo_strategy pol = FailoverRetry then n else 0) \<and>
    (fo_strategy pol = FailoverAbort \<longrightarrow> requests w' \<le> requests w + 1)"
  using assms by (rule put_endpoints_requests)

section \<open>Types and type relations\<close>

text \<open>
  C24: in a context built by the factories two addresses denote the same type exactly when they
  are equal, so comparing pointers compares types.
\<close>

theorem types_interned_once:
  assumes "built ctx" "a < length (tc_storage ctx)" "b < length (tc_storage ctx)"
  shows "type_at (tc_storage ctx) a = type_at (tc_storage ctx) b \<longleftrightarrow> a = b"
  using context_canonical [OF built_store_ok [OF assms(1)] assms(2,3)] by auto

theorem types_interned_once_witness:
  "type_at (tc_storage demo_types) 2 \<noteq> type_at (tc_storage demo_types) 3"
  using types_interned_once [OF demo_types_built, of 2 3] by (simp add: demo_types_storage)

text \<open>
  C25: assignability answers exactly the subtyping judgement, for types that are nested less
  deeply than the depth limit, whatever is traced or recorded.
\<close>

theorem assignability_decided:
  assumes "built tc" "valid_addr (tc_storage tc) s" "valid_addr (tc_storage tc) t"
    and "int (min (height (type_at (tc_storage tc) s)) (height (type_at (tc_storage tc) t)))
      < ro_max_solver_depth (rc_options ctx)"
  shows "fst (is_assignable_to (tc_storage tc) s t ctx) \<longleftrightarrow>
    subtyping (ro_allow_bounded_string_relaxation (rc_options ctx))
      (ro_allow_numeric_widening (rc_options ctx))
      (type_at (tc_storage tc) s) (type_at (tc_storage tc) t)"
  using ask_decides [OF built_storage_ok [OF assms(1)] assms(2,3), of Assignable ctx] assms(4)
  by (simp add: is_assignable_to_def levels_def)

theorem assignability_decided_witness:
  "fst (is_assignable_to (tc_storage demo_types) 3 2 (new_relation_context default_relation_options)) \<and>
   \<not> fst (is_assignable_to (tc_storage demo_types) 2 3 (new_relation_context default_relation_options))"
  using assignability_decided [OF demo_types_built demo_types_valid(2,1)]
    assignability_decided [OF demo_types_built demo_types_valid(1,2)]
  by (simp add: demo_types_at new_relation_context_def default_relation_options_def)

text \<open>
  C26: equivalence and the exact match of schemas answer exactly the equivalence judgement, for
  types that are nested no more deeply than the depth limit.
\<close>

theorem equivalence_decided:
  assumes "built tc" "valid_addr (tc_storage tc) s" "valid_addr (tc_storage tc) t"
    and "int (min (height (type_at (tc_storage tc) s)) (height (type_at (tc_storage tc) t)))
      \<le> ro_max_solver_depth (rc_options ctx)"
  shows "fst (are_types_equivalent (tc_storage tc) s t ctx) =
      type_equiv (type_at (tc_storage tc) s) (type_at (tc_storage tc) t) \<and>
    fst (is_exact_schema_match (tc_storage tc) s t ctx) =
      type_equiv (type_at (tc_storage tc) s) (type_at (tc_storage tc) t)"
  using ask_decides [OF built_storage_ok [OF assms(1)] assms(2,3), of _ ctx] assms(4)
  by (simp add: are_types_equivalent_def is_exact_schema_match_def levels_def)

theorem equivalence_decided_witness:
  "\<not> fst (are_types_equivalent (tc_storage demo_types) 3 2 (new_relation_context default_relation_options))"
  using equivalence_decided [OF demo_types_built demo_types_valid(2,1)]
  by (simp add: demo_types_at new_relation_context_def default_relation_options_def)

text \<open>
  C27: the solver fails closed: for every depth limit, also one that is exceeded, a yes is
  derivable.
\<close>

theorem relations_fail_closed:
  assumes "built tc" "valid_addr (tc_storage tc) s" "valid_addr (tc_storage tc) t"
    and "fst (is_subtype_of (tc_storage tc) s t ctx)"
  shows "subtyping (ro_allow_bounded_string_relaxation (rc_options ctx))
      (ro_allow_numeric_widening (rc_options ctx))
      (type_at (tc_storage tc) s) (type_at (tc_storage tc) t)"
  using ask_sound [OF built_storage_ok [OF assms(1)] assms(2,3), of Subtype ctx] assms(4)
  by (simp add: is_subtype_of_def)

theorem relations_fail_closed_witness:
  "\<not> fst (is_subtype_of (tc_storage demo_types) 2 3
      (new_relation_context (default_relation_options\<lparr>ro_max_solver_depth := 1\<rparr>)))"
  using relations_fail_closed [OF demo_types_built demo_types_valid(1,2)]
  by (auto simp: demo_types_at new_relation_context_def default_relation_options_def)

text \<open>
  C28: with the default options assignability chains: what is assignable to a type that is
  assignable to a third is assignable to the third, when the symbols and names of nominal types
  agree, the type in the middle has no error and the first is nested less deeply than the depth
  limit of 256. (A deeper type can exceed the limit in the composed question alone.)
\<close>

theorem assignability_chains:
  assumes "built tc" "valid_addr (tc_storage tc) a" "valid_addr (tc_storage tc) b"
      "valid_addr (tc_storage tc) c"
    and "inj names" "consistent names (type_at (tc_storage tc) a)"
      "consistent names (type_at (tc_storage tc) b)" "consistent names (type_at (tc_storage tc) c)"
    and "no_error (type_at (tc_storage tc) b)" "height (type_at (tc_storage tc) a) < 256"
    and "is_assignable_to_plain (tc_storage tc) a b" "is_assignable_to_plain (tc_storage tc) b c"
  shows "is_assignable_to_plain (tc_storage tc) a c"
proof -
  let ?ctx = "new_relation_context default_relation_options"
  note h = built_storage_ok [OF assms(1)]
  have "subtyping True False (type_at (tc_storage tc) a) (type_at (tc_storage tc) b)"
    "subtyping True False (type_at (tc_storage tc) b) (type_at (tc_storage tc) c)"
    using ask_sound [OF h assms(2,3), of Assignable ?ctx] ask_sound [OF h assms(3,4), of Assignable ?ctx]
      assms(11,12)
    by (simp_all add: is_assignable_to_plain_def is_assignable_to_def new_relation_context_def
        default_relation_options_def)
  then have "subtyping True False (type_at (tc_storage tc) a) (type_at (tc_storage tc) c)"
    by (rule subtyping_trans [OF assms(5-9)])
  then show ?thesis
    using ask_decides [OF h assms(2,4), of Assignable ?ctx] assms(10)
    by (simp add: is_assignable_to_plain_def is_assignable_to_def new_relation_context_def
        default_relation_options_def levels_def)
qed

theorem assignability_chains_witness:
  "is_assignable_to_plain (tc_storage demo_types) 3 2"
proof (rule assignability_chains [OF demo_types_built demo_types_valid(2,2,1), where names = to_nat])
  show "is_assignable_to_plain (tc_storage demo_types) 3 3" "is_assignable_to_plain (tc_storage demo_types) 3 2"
    using ask_decides [OF built_storage_ok [OF demo_types_built] demo_types_valid(2,2), of Assignable]
      ask_decides [OF built_storage_ok [OF demo_types_built] demo_types_valid(2,1), of Assignable]
    by (simp_all add: is_assignable_to_plain_def is_assignable_to_def new_relation_context_def
        default_relation_options_def levels_def demo_types_at)
qed (simp_all add: demo_types_at inj_to_nat)

section \<open>The optimization IR\<close>

text \<open>
  C21: on a function in SSA form whose copies and whose blocks have no cycle, optimization comes
  to an end; what it returns has nothing left for a pass to do, and every run of the original
  function has the same result and the same effects, whatever constants, operators and calls mean.
\<close>

theorem optimize_refines:
  assumes "ssa f" "acyclic (copy_graph f)" "acyclic (flow_graph f)" "effects_in_calls sem"
  shows "\<exists>f' c. optimize f = Some (f', c) \<and> opt_normal f' \<and> ssa f' \<and>
    (\<forall>vs w res. opt_result sem f vs w res \<longrightarrow> opt_result sem f' vs w res)"
  by (rule optimize_correct [OF assms])

theorem optimize_refines_witness:
  "\<exists>f' c. optimize adds_two = Some (f', c) \<and> opt_normal f' \<and>
     opt_result int_sem f' [5] () (Returned (Some 7), ())"
  using optimize_refines [OF adds_two_ssa adds_two_copies adds_two_flow int_sem_pure] adds_two_result by blast

text \<open>
  C22: the loop of the optimizer ends exactly when no local of the SSA function is, through copies,
  a copy of itself.
\<close>

theorem optimize_ends_iff_acyclic:
  assumes "ssa f"
  shows "(\<exists>r. optimize f = Some r) \<longleftrightarrow> acyclic (copy_graph f)"
  by (rule optimize_returns_iff [OF assms])

theorem optimize_ends_iff_acyclic_witness:
  "(\<exists>r. optimize adds_two = Some r) \<and> optimize self_copy = None \<and>
   \<not> verification_has_errors (verify_opt_function self_copy)"
proof (intro conjI)
  show "\<exists>r. optimize adds_two = Some r"
    using optimize_ends_iff_acyclic [OF adds_two_ssa] adds_two_copies by blast
  have "\<not> (\<exists>r. optimize self_copy = Some r)"
    using optimize_ends_iff_acyclic [OF self_copy_ssa] self_copy_cyclic by blast
  then show "optimize self_copy = None"
    by (metis not_Some_eq)
  show "\<not> verification_has_errors (verify_opt_function self_copy)"
    by (simp add: verify_opt_function_errors self_copy_well_formed)
qed

text \<open>
  C23: the verifier reports an error exactly for the functions that are not well formed, and a
  warning, in the order of the blocks, for exactly the blocks no path from the entry reaches.
\<close>

theorem opt_verifier_exact:
  "(verification_has_errors (verify_opt_function f) \<longleftrightarrow> \<not> opt_well_formed f) \<and>
   warning_blocks (verify_opt_function f) =
     map Some (filter (\<lambda>b. (0, b) \<notin> (flow_edges f)\<^sup>*) [0..<length (of_blocks f)])"
  by (rule conjI [OF verify_opt_function_errors verify_opt_function_warnings])

end
